(* ===== verification/Prelude.thy ===== *)
theory Prelude
  imports Main "HOL-Library.Word" "HOL-Library.AList"
begin

text \<open>
  Shared vocabulary of the development: the machine integer types of the Rust sources, the
  little- and big-endian byte images of words (\<open>to_le_bytes\<close>, \<open>from_be_bytes\<close> and their kin),
  UTF-8 validity (what \<open>String::from_utf8\<close> decides), and finite hash maps as association lists
  behind an interface locale. The named collections below are filled by the component theories
  and carry their proofs.
\<close>

unbundle bit_operations_syntax

named_theorems word_bytes \<open>byte images of machine words\<close>
named_theorems codec_size \<open>lengths of wire images and declared sizes\<close>
named_theorems reads_intros \<open>compositional rules for decoders on their own wire image\<close>
named_theorems writes_intros \<open>compositional rules for encoders\<close>
named_theorems local_intros \<open>compositional rules for locality of decoders\<close>
named_theorems yields_intros \<open>compositional rules for what decoders can return\<close>

section \<open>Machine integers\<close>

text \<open>
  Signed integers are words read in two's complement (\<open>sint\<close>); the Rust casts \<open>v as u32\<close> and
  \<open>v as i32\<close> keep the bits, so they are the identity here.
\<close>

type_synonym u8 = "8 word"
type_synonym u16 = "16 word"
type_synonym u32 = "32 word"
type_synonym u64 = "64 word"
type_synonym i16 = "16 word"
type_synonym i32 = "32 word"
type_synonym i64 = "64 word"

lemma unat_less_power: "unat (w :: 'a::len word) < 2 ^ LENGTH('a)"
  by (rule unsigned_less)

subsection \<open>Byte images of words\<close>

primrec le_bytes :: "nat \<Rightarrow> 'a::len word \<Rightarrow> u8 list" where
  "le_bytes 0 w = []"
| "le_bytes (Suc n) w = ucast w # le_bytes n (drop_bit 8 w)"

primrec le_value :: "u8 list \<Rightarrow> 'a::len word" where
  "le_value [] = 0"
| "le_value (b # bs) = ucast b OR push_bit 8 (le_value bs)"

definition be_bytes :: "nat \<Rightarrow> 'a::len word \<Rightarrow> u8 list" where
  "be_bytes n w = rev (le_bytes n w)"

definition be_value :: "u8 list \<Rightarrow> 'a::len word" where
  "be_value bs = le_value (rev bs)"

lemma length_le_bytes [simp, codec_size]: "length (le_bytes n w) = n"
  by (induction n arbitrary: w) simp_all

lemma length_be_bytes [simp, codec_size]: "length (be_bytes n w) = n"
  by (simp add: be_bytes_def)

lemma byte_split: "ucast (ucast w :: u8) OR push_bit 8 (take_bit k (drop_bit 8 w)) = take_bit (8 + k) w"
  for w :: "'a::len word"
  by (rule bit_word_eqI) (auto simp: bit_simps)

lemma le_value_le_bytes: "le_value (le_bytes n w) = take_bit (8 * n) w"
  for w :: "'a::len word"
  by (induction n arbitrary: w) (simp_all add: byte_split)

lemma le_value_le_bytes_full [word_bytes]:
  "LENGTH('a) \<le> 8 * n \<Longrightarrow> le_value (le_bytes n w) = (w :: 'a::len word)"
  by (simp add: le_value_le_bytes take_bit_word_eq_self)

lemma be_value_be_bytes_full [word_bytes]:
  "LENGTH('a) \<le> 8 * n \<Longrightarrow> be_value (be_bytes n w) = (w :: 'a::len word)"
  by (simp add: be_value_def be_bytes_def word_bytes)

lemma byte_low: "8 \<le> LENGTH('a) \<Longrightarrow> ucast (ucast b OR push_bit 8 v :: 'a::len word) = (b :: u8)"
  by (rule bit_word_eqI) (auto simp: bit_simps)

lemma byte_high: "drop_bit 8 (ucast (b :: u8) OR push_bit 8 v) = take_bit (LENGTH('a) - 8) v"
  for v :: "'a::len word"
  by (rule bit_word_eqI) (auto simp: bit_simps dest: bit_imp_le_length)

lemma le_bytes_take_bit: "8 * n \<le> k \<Longrightarrow> le_bytes n (take_bit k w) = le_bytes n w"
  for w :: "'a::len word"
proof (induction n arbitrary: k w)
  case (Suc n)
  have "ucast (take_bit k w) = (ucast w :: u8)"
    using Suc.prems by (intro bit_word_eqI) (auto simp: bit_simps)
  moreover have "le_bytes n (drop_bit 8 (take_bit k w)) = le_bytes n (drop_bit 8 w)"
    using Suc.prems Suc.IH [of "k - 8" "drop_bit 8 w"] by (simp add: drop_bit_take_bit)
  ultimately show ?case by simp
qed simp

lemma le_bytes_le_value [word_bytes]:
  "8 * length bs \<le> LENGTH('a) \<Longrightarrow> le_bytes (length bs) (le_value bs :: 'a::len word) = bs"
proof (induction bs)
  case (Cons b bs)
  then have "le_bytes (length bs) (take_bit (LENGTH('a) - 8) (le_value bs :: 'a word)) = bs"
    by (subst le_bytes_take_bit) auto
  with Cons.prems show ?case by (simp add: byte_low byte_high del: drop_bit_or)
qed simp

section \<open>Bits of a byte\<close>

lemma u8_high_bit: "b AND 0x80 = 0 \<longleftrightarrow> unat b < 128" for b :: u8
proof -
  have "b AND 0x80 = 0 \<longleftrightarrow> \<not> bit b 7"
    using and_exp_eq_0_iff_not_bit [of b 7] by simp
  also have "bit b 7 \<longleftrightarrow> bit (unat b) 7" by (simp add: bit_unsigned_iff)
  also have "\<dots> \<longleftrightarrow> odd (unat b div 128)" by (simp add: bit_iff_odd)
  also have "\<not> odd (unat b div 128) \<longleftrightarrow> unat b < 128"
  proof -
    have "unat b < 256" using unat_less_power [of b] by simp
    then have "unat b div 128 = 0 \<or> unat b div 128 = 1" by linarith
    then show ?thesis by auto
  qed
  finally show ?thesis .
qed

lemma u8_low_bits: "unat (b AND 0x7F) = unat b mod 128" for b :: u8
proof -
  have "b AND 0x7F = take_bit 7 b" by (simp add: take_bit_eq_mask mask_eq_exp_minus_1)
  then show ?thesis by (simp add: take_bit_eq_mod unat_mod)
qed

lemma u8_or_high: "unat w < 128 \<Longrightarrow> unat (0x80 OR w) = 128 + unat w" for w :: u8
proof -
  assume w: "unat w < 128"
  have "0x80 AND w = 0" using u8_high_bit [of w] w by (simp add: and.commute)
  then have "0x80 OR w = 0x80 + w" by (metis disjunctive_add_eq_or)
  with w show ?thesis by (simp add: unat_word_ariths)
qed

lemma shift_or: "y < 256 \<Longrightarrow> push_bit 8 x OR y = x * 256 + y" for x y :: nat
proof -
  assume y: "y < 256"
  have "bit y n \<Longrightarrow> n < 8" for n
  proof (rule ccontr)
    assume "bit y n" "\<not> n < 8"
    then have "(256::nat) \<le> 2 ^ n" using power_increasing [of 8 n "2::nat"] by simp
    with y have "y div 2 ^ n = 0" by simp
    with \<open>bit y n\<close> show False by (simp add: bit_iff_odd)
  qed
  then have "push_bit 8 x + y = push_bit 8 x OR y"
    by (intro disjunctive_add) (fastforce simp: bit_simps)
  then show ?thesis by (simp add: push_bit_eq_mult)
qed

section \<open>UTF-8 validity\<close>

text \<open>
  A Rust \<open>String\<close> is a byte sequence that is well-formed UTF-8. Strings are modelled as their
  bytes; \<open>utf8_valid\<close> is the well-formedness test of \<open>String::from_utf8\<close> (Unicode, table 3-7:
  no overlong forms, no surrogates, nothing above U+10FFFF).
\<close>

type_synonym rust_string = "u8 list"

definition utf8_cont :: "u8 \<Rightarrow> bool" where
  "utf8_cont b \<longleftrightarrow> 0x80 \<le> b \<and> b \<le> 0xBF"

fun utf8_valid :: "u8 list \<Rightarrow> bool" where
  "utf8_valid [] = True"
| "utf8_valid (a # bs) =
    (if a < 0x80 then utf8_valid bs
     else if 0xC2 \<le> a \<and> a \<le> 0xDF then
       (case bs of b # bs' \<Rightarrow> utf8_cont b \<and> utf8_valid bs' | _ \<Rightarrow> False)
     else if 0xE0 \<le> a \<and> a \<le> 0xEF then
       (case bs of b # c # bs' \<Rightarrow>
          utf8_cont b \<and> utf8_cont c \<and>
          (a = 0xE0 \<longrightarrow> 0xA0 \<le> b) \<and> (a = 0xED \<longrightarrow> b \<le> 0x9F) \<and> utf8_valid bs'
        | _ \<Rightarrow> False)
     else if 0xF0 \<le> a \<and> a \<le> 0xF4 then
       (case bs of b # c # d # bs' \<Rightarrow>
          utf8_cont b \<and> utf8_cont c \<and> utf8_cont d \<and>
          (a = 0xF0 \<longrightarrow> 0x90 \<le> b) \<and> (a = 0xF4 \<longrightarrow> b \<le> 0x8F) \<and> utf8_valid bs'
        | _ \<Rightarrow> False)
     else False)"

text \<open>The bytes of an ASCII string literal.\<close>

definition ascii :: "string \<Rightarrow> u8 list" where
  "ascii s = map of_char s"

section \<open>Hash maps\<close>

text \<open>
  \<open>HashMap\<close> as a finite map: the interface the clients rely on, and its implementation by
  association lists with distinct keys, which keeps the models executable. No client depends on
  the iteration order.
\<close>

locale hash_map =
  fixes empty :: 'm
    and get :: "'m \<Rightarrow> 'k \<Rightarrow> 'v option"
    and ins :: "'k \<Rightarrow> 'v \<Rightarrow> 'm \<Rightarrow> 'm"
    and del :: "'k \<Rightarrow> 'm \<Rightarrow> 'm"
    and len :: "'m \<Rightarrow> nat"
    and invar :: "'m \<Rightarrow> bool"
  assumes get_empty: "get empty = Map.empty"
    and get_ins: "invar m \<Longrightarrow> get (ins k v m) = (get m)(k \<mapsto> v)"
    and get_del: "invar m \<Longrightarrow> get (del k m) = (get m)(k := None)"
    and len_card: "invar m \<Longrightarrow> len m = card (dom (get m))"
    and finite_dom: "finite (dom (get m))"
    and invar_empty: "invar empty"
    and invar_ins: "invar m \<Longrightarrow> invar (ins k v m)"
    and invar_del: "invar m \<Longrightarrow> invar (del k m)"
begin

lemma len_ins_new: "invar m \<Longrightarrow> get m k = None \<Longrightarrow> len (ins k v m) = Suc (len m)"
  by (simp add: len_card get_ins invar_ins finite_dom domIff)

lemma len_ins_old: "invar m \<Longrightarrow> get m k = Some w \<Longrightarrow> len (ins k v m) = len m"
  by (simp add: len_card get_ins invar_ins insert_absorb domI)

lemma len_del: "invar m \<Longrightarrow> get m k = Some w \<Longrightarrow> Suc (len (del k m)) = len m"
proof -
  assume inv: "invar m" and k: "get m k = Some w"
  then have "k \<in> dom (get m)" by blast
  moreover have "dom (get (del k m)) = dom (get m) - {k}"
    using inv by (auto simp: get_del split: if_splits)
  ultimately show ?thesis
    using inv finite_dom [of m] card.remove [of "dom (get m)" k]
    by (simp add: len_card invar_del)
qed

end

definition hm_ok :: "('k \<times> 'v) list \<Rightarrow> bool" where
  "hm_ok m \<longleftrightarrow> distinct (map fst m)"

lemma hm_len_card: "hm_ok m \<Longrightarrow> length m = card (dom (map_of m))"
  by (metis dom_map_of_conv_image_fst distinct_card hm_ok_def length_map list.set_map)

interpretation hm: hash_map "[]" map_of AList.update AList.delete length hm_ok
proof
  show "map_of [] = (Map.empty :: 'k \<Rightarrow> 'v option)" by simp
next
  fix m :: "('k \<times> 'v) list" and k v
  assume "hm_ok m"
  then show "map_of (AList.update k v m) = (map_of m)(k \<mapsto> v)" and
    "map_of (AList.delete k m) = (map_of m)(k := None)" and
    "length m = card (dom (map_of m))" and
    "hm_ok (AList.update k v m)" and "hm_ok (AList.delete k m)"
    by (simp_all add: AList.update_conv' AList.delete_conv' hm_len_card)
      (simp_all add: hm_ok_def AList.distinct_update AList.distinct_delete)
next
  show "finite (dom (map_of m))" for m :: "('k \<times> 'v) list" by (rule finite_dom_map_of)
next
  show "hm_ok ([] :: ('k \<times> 'v) list)" by (simp add: hm_ok_def)
qed

text \<open>A weight summed over the values: what a byte budget over a hash map counts.\<close>

definition hm_sum :: "('v \<Rightarrow> nat) \<Rightarrow> ('k \<times> 'v) list \<Rightarrow> nat" where
  "hm_sum f m = sum_list (map (f \<circ> snd) m)"

lemma hm_sum_empty [simp]: "hm_sum f [] = 0"
  by (simp add: hm_sum_def)

lemma hm_sum_update_new: "map_of m k = None \<Longrightarrow> hm_sum f (AList.update k v m) = hm_sum f m + f v"
  by (induction m) (auto simp: hm_sum_def split: if_splits)

lemma hm_sum_update_old:
  "map_of m k = Some w \<Longrightarrow> hm_sum f (AList.update k v m) + f w = hm_sum f m + f v"
  by (induction m) (auto simp: hm_sum_def split: if_splits)

lemma hm_delete_fresh: "map_of m k = None \<Longrightarrow> AList.delete k m = m"
  by (induction m) (auto split: if_splits)

lemma hm_sum_delete: "hm_ok m \<Longrightarrow> map_of m k = Some w \<Longrightarrow> hm_sum f (AList.delete k m) + f w = hm_sum f m"
proof (induction m)
  case (Cons p m)
  show ?case
  proof (cases "fst p = k")
    case True
    with Cons.prems have "map_of m k = None"
      by (auto simp: hm_ok_def map_of_eq_None_iff)
    with True Cons.prems show ?thesis by (cases p) (simp add: hm_sum_def hm_delete_fresh)
  next
    case False
    with Cons.prems Cons.IH show ?thesis by (cases p) (simp add: hm_sum_def hm_ok_def)
  qed
qed simp

lemma hm_sum_member: "map_of m k = Some w \<Longrightarrow> f w \<le> hm_sum f m"
  by (induction m) (auto simp: hm_sum_def split: if_splits)

lemma hm_update_delete: "hm_ok m \<Longrightarrow> map_of m k = None \<Longrightarrow> AList.delete k (AList.update k v m) = m"
  by (induction m) (auto simp: hm_ok_def hm_delete_fresh split: if_splits)

section \<open>Lists\<close>

lemma append_split_at:
  "length xs \<le> n \<Longrightarrow> take n (xs @ ys) = xs @ take (n - length xs) ys"
  by simp

lemma take_concat_cases:
  assumes "n < length (concat (b # bs))"
  obtains "n < length b" "take n (concat (b # bs)) = take n b"
  | k where "n = length b + k" "k < length (concat bs)"
      "take n (concat (b # bs)) = b @ take k (concat bs)"
proof (cases "n < length b")
  case True
  then show ?thesis by (intro that(1)) simp_all
next
  case False
  with assms show ?thesis by (intro that(2) [of "n - length b"]) simp_all
qed

lemma alist_update_update [simp]: "AList.update k v (AList.update k w m) = AList.update k v m"
  by (induction m) auto

lemma alist_delete_update [simp]: "AList.delete k (AList.update k v m) = AList.delete k m"
  by (induction m) auto

lemma map_of_update: "map_of (AList.update k v m) c = (if c = k then Some v else map_of m c)"
  by (simp add: AList.update_conv')

lemma map_of_delete: "map_of (AList.delete k m) c = (if c = k then None else map_of m c)"
  by (simp add: AList.delete_conv')

end
