(* ===== verification/Cursor.thy ===== *)
theory Cursor
  imports Prelude
begin

text \<open>
  The bounds-checked cursors of \<open>oxrdp-pdu\<close> (\<open>cursor.rs\<close>, \<open>error.rs\<close>, \<open>codec.rs\<close>): the error
  values, \<open>ReadCursor\<close> and \<open>WriteCursor\<close> with every operation, the \<open>?\<close>-sequencing of decoders
  and encoders, and \<open>decode\<close> / \<open>encode_vec\<close>. The second half states what a wire codec promises
  (\<open>emits\<close>, \<open>parses\<close>, \<open>local_decoder\<close>, \<open>yields\<close>), gives the compositional rules that prove it
  field by field, and collects the consequences in the interface locale \<open>wire_codec\<close>.

  A decoder that fails returns only its error: the sources never look at a cursor again after an
  error has been propagated with \<open>?\<close>.
\<close>

section \<open>Errors\<close>

datatype decode_error =
    NotEnoughBytes string nat nat
  | InvalidField string string string
  | InvalidLength string string

datatype encode_error =
    NotEnoughSpace string nat nat
  | FieldTooLarge string string

section \<open>The read cursor\<close>

record read_cursor =
  rc_buf :: "u8 list"
  rc_pos :: nat

type_synonym 'a decoder = "read_cursor \<Rightarrow> decode_error + 'a \<times> read_cursor"

definition ReadCursor_new :: "u8 list \<Rightarrow> read_cursor" where
  "ReadCursor_new buf = \<lparr>rc_buf = buf, rc_pos = 0\<rparr>"

definition rc_remaining :: "read_cursor \<Rightarrow> nat" where
  "rc_remaining c = length (rc_buf c) - rc_pos c"

definition rc_is_empty :: "read_cursor \<Rightarrow> bool" where
  "rc_is_empty c \<longleftrightarrow> rc_remaining c = 0"

definition rc_ensure :: "nat \<Rightarrow> string \<Rightarrow> read_cursor \<Rightarrow> decode_error + unit" where
  "rc_ensure n ctx c =
     (if rc_remaining c < n then Inl (NotEnoughBytes ctx n (rc_remaining c)) else Inr ())"

definition read_slice :: "nat \<Rightarrow> string \<Rightarrow> u8 list decoder" where
  "read_slice n ctx c =
     (case rc_ensure n ctx c of
        Inl e \<Rightarrow> Inl e
      | Inr _ \<Rightarrow> Inr (take n (drop (rc_pos c) (rc_buf c)), c\<lparr>rc_pos := rc_pos c + n\<rparr>))"

text \<open>\<open>read_array::<N>\<close> copies where \<open>read_slice\<close> borrows; the bytes are the same.\<close>

definition read_array :: "nat \<Rightarrow> string \<Rightarrow> u8 list decoder" where
  "read_array n ctx c =
     (case rc_ensure n ctx c of
        Inl e \<Rightarrow> Inl e
      | Inr _ \<Rightarrow> Inr (take n (drop (rc_pos c) (rc_buf c)), c\<lparr>rc_pos := rc_pos c + n\<rparr>))"

text \<open>Sequencing with \<open>?\<close>.\<close>

definition dreturn :: "'a \<Rightarrow> 'a decoder" where
  "dreturn x c = Inr (x, c)"

definition dfail :: "decode_error \<Rightarrow> 'a decoder" where
  "dfail e c = Inl e"

definition dbind :: "'a decoder \<Rightarrow> ('a \<Rightarrow> 'b decoder) \<Rightarrow> 'b decoder" where
  "dbind d f c = (case d c of Inl e \<Rightarrow> Inl e | Inr (x, c') \<Rightarrow> f x c')"

text \<open>A counted loop that pushes what it decodes onto a vector.\<close>

primrec dtimes :: "nat \<Rightarrow> 'a decoder \<Rightarrow> 'a list decoder" where
  "dtimes 0 d = dreturn []"
| "dtimes (Suc n) d = dbind d (\<lambda>x. dbind (dtimes n d) (\<lambda>xs. dreturn (x # xs)))"

definition read_u8 :: "string \<Rightarrow> u8 decoder" where
  "read_u8 ctx = dbind (read_array 1 ctx) (\<lambda>bs. dreturn (bs ! 0))"

definition read_u16_be :: "string \<Rightarrow> u16 decoder" where
  "read_u16_be ctx = dbind (read_array 2 ctx) (\<lambda>bs. dreturn (be_value bs))"

definition read_u16_le :: "string \<Rightarrow> u16 decoder" where
  "read_u16_le ctx = dbind (read_array 2 ctx) (\<lambda>bs. dreturn (le_value bs))"

definition read_u32_be :: "string \<Rightarrow> u32 decoder" where
  "read_u32_be ctx = dbind (read_array 4 ctx) (\<lambda>bs. dreturn (be_value bs))"

definition read_u32_le :: "string \<Rightarrow> u32 decoder" where
  "read_u32_le ctx = dbind (read_array 4 ctx) (\<lambda>bs. dreturn (le_value bs))"

definition peek_u8 :: "string \<Rightarrow> u8 decoder" where
  "peek_u8 ctx c =
     (case rc_ensure 1 ctx c of Inl e \<Rightarrow> Inl e | Inr _ \<Rightarrow> Inr (rc_buf c ! rc_pos c, c))"

definition decode :: "'a decoder \<Rightarrow> u8 list \<Rightarrow> decode_error + 'a" where
  "decode d bytes = (case d (ReadCursor_new bytes) of Inl e \<Rightarrow> Inl e | Inr (x, _) \<Rightarrow> Inr x)"

section \<open>The write cursor\<close>

record write_cursor =
  wc_buf :: "u8 list"
  wc_pos :: nat

type_synonym encoder = "write_cursor \<Rightarrow> encode_error + write_cursor"

definition WriteCursor_new :: "u8 list \<Rightarrow> write_cursor" where
  "WriteCursor_new buf = \<lparr>wc_buf = buf, wc_pos = 0\<rparr>"

definition wc_remaining :: "write_cursor \<Rightarrow> nat" where
  "wc_remaining c = length (wc_buf c) - wc_pos c"

definition wc_ensure :: "nat \<Rightarrow> string \<Rightarrow> write_cursor \<Rightarrow> encode_error + unit" where
  "wc_ensure n ctx c =
     (if wc_remaining c < n then Inl (NotEnoughSpace ctx n (wc_remaining c)) else Inr ())"

definition write_slice :: "u8 list \<Rightarrow> string \<Rightarrow> encoder" where
  "write_slice src ctx c =
     (case wc_ensure (length src) ctx c of
        Inl e \<Rightarrow> Inl e
      | Inr _ \<Rightarrow> Inr (c\<lparr>wc_buf := take (wc_pos c) (wc_buf c) @ src
                                 @ drop (wc_pos c + length src) (wc_buf c),
                        wc_pos := wc_pos c + length src\<rparr>))"

definition write_u8 :: "u8 \<Rightarrow> string \<Rightarrow> encoder" where
  "write_u8 v ctx = write_slice [v] ctx"

definition write_u16_be :: "u16 \<Rightarrow> string \<Rightarrow> encoder" where
  "write_u16_be v ctx = write_slice (be_bytes 2 v) ctx"

definition write_u16_le :: "u16 \<Rightarrow> string \<Rightarrow> encoder" where
  "write_u16_le v ctx = write_slice (le_bytes 2 v) ctx"

definition write_u32_be :: "u32 \<Rightarrow> string \<Rightarrow> encoder" where
  "write_u32_be v ctx = write_slice (be_bytes 4 v) ctx"

definition write_u32_le :: "u32 \<Rightarrow> string \<Rightarrow> encoder" where
  "write_u32_le v ctx = write_slice (le_bytes 4 v) ctx"

definition efail :: "encode_error \<Rightarrow> encoder" where
  "efail e c = Inl e"

text \<open>Writes in sequence, each followed by \<open>?\<close>.\<close>

primrec eseq :: "encoder list \<Rightarrow> encoder" where
  "eseq [] c = Inr c"
| "eseq (e # es) c = (case e c of Inl er \<Rightarrow> Inl er | Inr c' \<Rightarrow> eseq es c')"

declare eseq.simps [simp del]

text \<open>\<open>encode_vec\<close> with the two methods of \<open>Encode\<close> as arguments.\<close>

definition encode_vec :: "('a \<Rightarrow> nat) \<Rightarrow> ('a \<Rightarrow> encoder) \<Rightarrow> 'a \<Rightarrow> encode_error + u8 list" where
  "encode_vec sz enc pdu =
     (case enc pdu (WriteCursor_new (replicate (sz pdu) 0)) of
        Inl e \<Rightarrow> Inl e
      | Inr c \<Rightarrow> Inr (wc_buf c))"

section \<open>What decoders do with bytes\<close>

text \<open>A cursor with \<open>pre\<close> behind it and \<open>rest\<close> ahead of it.\<close>

definition rc_at :: "u8 list \<Rightarrow> u8 list \<Rightarrow> read_cursor" where
  "rc_at pre rest = \<lparr>rc_buf = pre @ rest, rc_pos = length pre\<rparr>"

definition wc_at :: "u8 list \<Rightarrow> u8 list \<Rightarrow> write_cursor" where
  "wc_at pre rest = \<lparr>wc_buf = pre @ rest, wc_pos = length pre\<rparr>"

text \<open>
  \<open>reads d bs x\<close>: wherever the bytes \<open>bs\<close> lie ahead, \<open>d\<close> returns \<open>x\<close> and stops right behind
  them. \<open>runs_short d bs\<close>: on any proper prefix of \<open>bs\<close> it reports \<open>NotEnoughBytes\<close>.
\<close>

definition reads :: "'a decoder \<Rightarrow> u8 list \<Rightarrow> 'a \<Rightarrow> bool" where
  "reads d bs x \<longleftrightarrow> (\<forall>pre post. d (rc_at pre (bs @ post)) = Inr (x, rc_at (pre @ bs) post))"

definition runs_short :: "'a decoder \<Rightarrow> u8 list \<Rightarrow> bool" where
  "runs_short d bs \<longleftrightarrow>
     (\<forall>pre n. n < length bs \<longrightarrow> (\<exists>ctx k r. d (rc_at pre (take n bs)) = Inl (NotEnoughBytes ctx k r)))"

definition parses :: "'a decoder \<Rightarrow> u8 list \<Rightarrow> 'a \<Rightarrow> bool" where
  "parses d bs x \<longleftrightarrow> reads d bs x \<and> runs_short d bs"

text \<open>
  A decoder is local when a successful run leaves the buffer alone, advances within it, and
  depends on nothing but the bytes it consumed.
\<close>

definition local_decoder :: "'a decoder \<Rightarrow> bool" where
  "local_decoder d \<longleftrightarrow>
     (\<forall>pre rest x c. d (rc_at pre rest) = Inr (x, c) \<longrightarrow>
        (\<exists>bs post. rest = bs @ post \<and> c = rc_at (pre @ bs) post \<and> reads d bs x))"

definition yields :: "'a decoder \<Rightarrow> ('a \<Rightarrow> bool) \<Rightarrow> bool" where
  "yields d P \<longleftrightarrow> (\<forall>c x c'. d c = Inr (x, c') \<longrightarrow> P x)"

text \<open>
  An encoder emits \<open>bs\<close>: given room it overwrites exactly that many bytes, and without room it
  reports \<open>NotEnoughSpace\<close>.
\<close>

definition emits :: "encoder \<Rightarrow> u8 list \<Rightarrow> bool" where
  "emits e bs \<longleftrightarrow>
     (\<forall>pre gap post. length gap = length bs \<longrightarrow>
        e (wc_at pre (gap @ post)) = Inr (wc_at (pre @ bs) post)) \<and>
     (\<forall>pre gap. length gap < length bs \<longrightarrow>
        (\<exists>ctx k r. e (wc_at pre gap) = Inl (NotEnoughSpace ctx k r)))"

lemma rc_at_simps [simp]:
  "rc_buf (rc_at pre rest) = pre @ rest"
  "rc_pos (rc_at pre rest) = length pre"
  "rc_remaining (rc_at pre rest) = length rest"
  by (simp_all add: rc_at_def rc_remaining_def)

lemma wc_at_simps [simp]:
  "wc_buf (wc_at pre rest) = pre @ rest"
  "wc_pos (wc_at pre rest) = length pre"
  "wc_remaining (wc_at pre rest) = length rest"
  by (simp_all add: wc_at_def wc_remaining_def)

lemma ReadCursor_new_at: "ReadCursor_new bs = rc_at [] bs"
  by (simp add: ReadCursor_new_def rc_at_def)

lemma WriteCursor_new_at: "WriteCursor_new bs = wc_at [] bs"
  by (simp add: WriteCursor_new_def wc_at_def)

lemma parsesI: "reads d bs x \<Longrightarrow> runs_short d bs \<Longrightarrow> parses d bs x"
  by (simp add: parses_def)

lemma parses_reads: "parses d bs x \<Longrightarrow> reads d bs x"
  by (simp add: parses_def)

lemma readsD: "reads d bs x \<Longrightarrow> d (rc_at pre (bs @ post)) = Inr (x, rc_at (pre @ bs) post)"
  by (simp add: reads_def)

lemma runs_shortD:
  "runs_short d bs \<Longrightarrow> n < length bs \<Longrightarrow>
   \<exists>ctx k r. d (rc_at pre (take n bs)) = Inl (NotEnoughBytes ctx k r)"
  by (simp add: runs_short_def)

section \<open>Compositional rules\<close>

subsection \<open>Decoding a wire image\<close>

lemma read_slice_at:
  "read_slice n ctx (rc_at pre rest) =
     (if length rest < n then Inl (NotEnoughBytes ctx n (length rest))
      else Inr (take n rest, rc_at (pre @ take n rest) (drop n rest)))"
  by (auto simp: read_slice_def rc_ensure_def rc_at_def rc_remaining_def)

lemma read_array_eq_slice: "read_array = read_slice"
  by (intro ext) (simp add: read_array_def read_slice_def)

lemma parses_slice [reads_intros]: "length bs = n \<Longrightarrow> parses (read_slice n ctx) bs bs"
  by (auto simp: parses_def reads_def runs_short_def read_slice_at)

lemma parses_array [reads_intros]: "length bs = n \<Longrightarrow> parses (read_array n ctx) bs bs"
  by (simp add: read_array_eq_slice parses_slice)

lemma parses_return [reads_intros]: "x = y \<Longrightarrow> parses (dreturn x) (concat []) y"
  by (simp add: parses_def reads_def runs_short_def dreturn_def)

lemma reads_bind: "reads d b x \<Longrightarrow> reads (f x) bs y \<Longrightarrow> reads (dbind d f) (b @ bs) y"
  by (simp add: reads_def dbind_def)

lemma parses_bind [reads_intros]:
  assumes d: "parses d b x" and f: "parses (f x) (concat bs) y"
  shows "parses (dbind d f) (concat (b # bs)) y"
proof (rule parsesI)
  show "reads (dbind d f) (concat (b # bs)) y"
    using reads_bind [of d b x f "concat bs" y] d f by (simp add: parses_reads)
  show "runs_short (dbind d f) (concat (b # bs))"
    unfolding runs_short_def
  proof (intro allI impI)
    fix pre n
    assume "n < length (concat (b # bs))"
    then show "\<exists>ctx k r. dbind d f (rc_at pre (take n (concat (b # bs)))) = Inl (NotEnoughBytes ctx k r)"
    proof (cases rule: take_concat_cases)
      case 1
      moreover obtain ctx k r where "d (rc_at pre (take n b)) = Inl (NotEnoughBytes ctx k r)"
        using d 1 runs_shortD [of d b n pre] by (auto simp: parses_def)
      ultimately show ?thesis by (simp add: dbind_def)
    next
      case (2 j)
      moreover have "d (rc_at pre (b @ take j (concat bs))) = Inr (x, rc_at (pre @ b) (take j (concat bs)))"
        using d by (simp add: parses_def readsD)
      moreover obtain ctx k r where
        "f x (rc_at (pre @ b) (take j (concat bs))) = Inl (NotEnoughBytes ctx k r)"
        using f 2 runs_shortD [of "f x" "concat bs" j "pre @ b"] by (auto simp: parses_def)
      ultimately show ?thesis by (simp add: dbind_def)
    qed
  qed
qed

text \<open>A field mapped through a function: the last step of a derived reader.\<close>

lemma parses_map:
  assumes "parses d b x" and "f x = y"
  shows "parses (dbind d (\<lambda>v. dreturn (f v))) b y"
  using parses_bind [OF assms(1), of "\<lambda>v. dreturn (f v)" "[]" y] assms(2) by (simp add: parses_return [simplified])

lemma parses_bind_append:
  "parses d b x \<Longrightarrow> parses (f x) bs y \<Longrightarrow> parses (dbind d f) (b @ bs) y"
  using parses_bind [of d b x f "[bs]" y] by simp

lemma parses_if_not [reads_intros]:
  "\<not> c \<Longrightarrow> parses d bs x \<Longrightarrow> parses (if c then e else d) bs x"
  by simp

lemma parses_u8 [reads_intros]: "parses (read_u8 ctx) [v] v"
  unfolding read_u8_def by (rule parses_map [OF parses_array]) simp_all

lemma parses_u16_be [reads_intros]: "parses (read_u16_be ctx) (be_bytes 2 v) v"
  unfolding read_u16_be_def by (rule parses_map [OF parses_array]) (simp_all add: word_bytes)

lemma parses_u16_le [reads_intros]: "parses (read_u16_le ctx) (le_bytes 2 v) v"
  unfolding read_u16_le_def by (rule parses_map [OF parses_array]) (simp_all add: word_bytes)

lemma parses_u32_be [reads_intros]: "parses (read_u32_be ctx) (be_bytes 4 v) v"
  unfolding read_u32_be_def by (rule parses_map [OF parses_array]) (simp_all add: word_bytes)

lemma parses_u32_le [reads_intros]: "parses (read_u32_le ctx) (le_bytes 4 v) v"
  unfolding read_u32_le_def by (rule parses_map [OF parses_array]) (simp_all add: word_bytes)

lemma parses_times:
  "(\<And>x. x \<in> set xs \<Longrightarrow> parses d (img x) x) \<Longrightarrow> parses (dtimes (length xs) d) (concat (map img xs)) xs"
proof (induction xs)
  case Nil
  then show ?case by (simp add: parses_return [simplified])
next
  case (Cons x xs)
  have "parses (dbind (dtimes (length xs) d) (\<lambda>ys. dreturn (x # ys))) (concat (map img xs)) (x # xs)"
    using Cons by (intro parses_map) simp_all
  then show ?case
    using Cons.prems [of x] by (simp add: parses_bind_append)
qed

subsection \<open>Locality\<close>

lemma local_decoderI:
  assumes "\<And>pre rest x c. d (rc_at pre rest) = Inr (x, c) \<Longrightarrow>
    \<exists>bs post. rest = bs @ post \<and> c = rc_at (pre @ bs) post \<and> reads d bs x"
  shows "local_decoder d"
  using assms unfolding local_decoder_def by blast

lemma local_decoderE:
  assumes "local_decoder d" and "d (rc_at pre rest) = Inr (x, c)"
  obtains bs post where "rest = bs @ post" "c = rc_at (pre @ bs) post" "reads d bs x"
  using assms unfolding local_decoder_def by blast

lemma local_slice [local_intros]: "local_decoder (read_slice n ctx)"
proof (rule local_decoderI)
  fix pre rest x c
  assume "read_slice n ctx (rc_at pre rest) = Inr (x, c)"
  then have "n \<le> length rest" "x = take n rest" "c = rc_at (pre @ take n rest) (drop n rest)"
    by (auto simp: read_slice_at split: if_splits)
  then show "\<exists>bs post. rest = bs @ post \<and> c = rc_at (pre @ bs) post \<and> reads (read_slice n ctx) bs x"
    by (intro exI [of _ "take n rest"] exI [of _ "drop n rest"])
      (simp add: parses_reads parses_slice)
qed

lemma local_array [local_intros]: "local_decoder (read_array n ctx)"
  by (simp add: read_array_eq_slice local_slice)

lemma local_return [local_intros]: "local_decoder (dreturn x)"
  by (intro local_decoderI exI [of _ "[]"] exI) (auto simp: dreturn_def reads_def)

lemma local_fail [local_intros]: "local_decoder (dfail e)"
  by (intro local_decoderI) (simp add: dfail_def)

lemma local_bind [local_intros]:
  assumes d: "local_decoder d" and f: "\<And>x. local_decoder (f x)"
  shows "local_decoder (dbind d f)"
proof (rule local_decoderI)
  fix pre rest y c
  assume "dbind d f (rc_at pre rest) = Inr (y, c)"
  then obtain x c1 where 1: "d (rc_at pre rest) = Inr (x, c1)" and 2: "f x c1 = Inr (y, c)"
    by (auto simp: dbind_def split: sum.splits)
  from d 1 obtain b1 p1 where b1: "rest = b1 @ p1" "c1 = rc_at (pre @ b1) p1" "reads d b1 x"
    by (rule local_decoderE)
  from f 2 [unfolded b1(2)] obtain b2 p2 where
    b2: "p1 = b2 @ p2" "c = rc_at ((pre @ b1) @ b2) p2" "reads (f x) b2 y"
    by (rule local_decoderE)
  with b1 show "\<exists>bs post. rest = bs @ post \<and> c = rc_at (pre @ bs) post \<and> reads (dbind d f) bs y"
    by (intro exI [of _ "b1 @ b2"] exI [of _ p2]) (simp add: reads_bind)
qed

lemma local_if [local_intros]:
  "local_decoder a \<Longrightarrow> local_decoder b \<Longrightarrow> local_decoder (if c then a else b)"
  by simp

lemma local_times [local_intros]: "local_decoder d \<Longrightarrow> local_decoder (dtimes n d)"
  by (induction n) (auto intro!: local_intros)

lemma local_u8 [local_intros]: "local_decoder (read_u8 ctx)"
  unfolding read_u8_def by (intro local_intros)

lemma local_u16_be [local_intros]: "local_decoder (read_u16_be ctx)"
  unfolding read_u16_be_def by (intro local_intros)

lemma local_u16_le [local_intros]: "local_decoder (read_u16_le ctx)"
  unfolding read_u16_le_def by (intro local_intros)

lemma local_u32_be [local_intros]: "local_decoder (read_u32_be ctx)"
  unfolding read_u32_be_def by (intro local_intros)

lemma local_u32_le [local_intros]: "local_decoder (read_u32_le ctx)"
  unfolding read_u32_le_def by (intro local_intros)

subsection \<open>Results\<close>

lemma yields_True [yields_intros]: "yields d (\<lambda>_. True)"
  by (simp add: yields_def)

lemma yields_return [yields_intros]: "P x \<Longrightarrow> yields (dreturn x) P"
  by (simp add: yields_def dreturn_def)

lemma yields_fail [yields_intros]: "yields (dfail e) P"
  by (simp add: yields_def dfail_def)

lemma yields_bind: "yields d Q \<Longrightarrow> (\<And>x. Q x \<Longrightarrow> yields (f x) P) \<Longrightarrow> yields (dbind d f) P"
  unfolding yields_def dbind_def by (fastforce split: sum.splits prod.splits)

lemma yields_if [yields_intros]:
  "(c \<Longrightarrow> yields a P) \<Longrightarrow> (\<not> c \<Longrightarrow> yields b P) \<Longrightarrow> yields (if c then a else b) P"
  by simp

lemma yields_slice [yields_intros]: "yields (read_slice n ctx) (\<lambda>bs. length bs = n)"
  by (auto simp: yields_def read_slice_def rc_ensure_def rc_remaining_def split: if_splits)

lemma yields_array [yields_intros]: "yields (read_array n ctx) (\<lambda>bs. length bs = n)"
  by (simp add: read_array_eq_slice yields_slice)

lemma yields_times: "yields d P \<Longrightarrow> yields (dtimes n d) (\<lambda>xs. length xs = n \<and> (\<forall>x\<in>set xs. P x))"
  by (induction n) (auto intro!: yields_bind [where Q = P] yields_bind yields_return)

subsection \<open>Encoding\<close>

lemma write_slice_at:
  "write_slice src ctx (wc_at pre rest) =
     (if length rest < length src then Inl (NotEnoughSpace ctx (length src) (length rest))
      else Inr (wc_at (pre @ src) (drop (length src) rest)))"
  by (auto simp: write_slice_def wc_ensure_def wc_at_def wc_remaining_def)

lemma emitsD:
  "emits e bs \<Longrightarrow> length gap = length bs \<Longrightarrow>
   e (wc_at pre (gap @ post)) = Inr (wc_at (pre @ bs) post)"
  by (simp add: emits_def)

lemma emits_if_not [writes_intros]:
  "\<not> c \<Longrightarrow> emits e bs \<Longrightarrow> emits (if c then e' else e) bs"
  by simp

lemma emits_slice [writes_intros]: "emits (write_slice bs ctx) bs"
  by (simp add: emits_def write_slice_at)

lemma emits_nil [writes_intros]: "emits (eseq []) (concat [])"
  by (simp add: emits_def eseq.simps)

lemma emits_seq [writes_intros]:
  assumes e: "emits e b" and es: "emits (eseq es) (concat bs)"
  shows "emits (eseq (e # es)) (concat (b # bs))"
proof -
  have "eseq (e # es) (wc_at pre (gap @ post)) = Inr (wc_at (pre @ concat (b # bs)) post)"
    if "length gap = length (concat (b # bs))" for pre gap post
  proof -
    define g1 g2 where "g1 = take (length b) gap" and "g2 = drop (length b) gap"
    with that have g: "gap = g1 @ g2" "length g1 = length b" "length g2 = length (concat bs)"
      by simp_all
    then have "e (wc_at pre (g1 @ g2 @ post)) = Inr (wc_at (pre @ b) (g2 @ post))"
      using e by (simp add: emits_def)
    moreover have "eseq es (wc_at (pre @ b) (g2 @ post)) = Inr (wc_at ((pre @ b) @ concat bs) post)"
      using es g by (simp add: emits_def)
    ultimately show ?thesis by (simp add: g eseq.simps)
  qed
  moreover have "\<exists>ctx k r. eseq (e # es) (wc_at pre gap) = Inl (NotEnoughSpace ctx k r)"
    if short: "length gap < length (concat (b # bs))" for pre gap
  proof (cases "length gap < length b")
    case True
    then obtain ctx k r where "e (wc_at pre gap) = Inl (NotEnoughSpace ctx k r)"
      using e unfolding emits_def by blast
    then show ?thesis by (simp add: eseq.simps)
  next
    case False
    define g1 g2 where "g1 = take (length b) gap" and "g2 = drop (length b) gap"
    with False short have g: "gap = g1 @ g2" "length g1 = length b" "length g2 < length (concat bs)"
      by auto
    then have "e (wc_at pre (g1 @ g2)) = Inr (wc_at (pre @ b) g2)"
      using e by (simp add: emits_def)
    moreover obtain ctx k r where "eseq es (wc_at (pre @ b) g2) = Inl (NotEnoughSpace ctx k r)"
      using es g(3) unfolding emits_def by blast
    ultimately show ?thesis by (simp add: g eseq.simps)
  qed
  ultimately show ?thesis unfolding emits_def by blast
qed

lemma emits_u8 [writes_intros]: "emits (write_u8 v ctx) [v]"
  by (simp add: write_u8_def emits_slice)

lemma emits_u16_be [writes_intros]: "emits (write_u16_be v ctx) (be_bytes 2 v)"
  by (simp add: write_u16_be_def emits_slice)

lemma emits_u16_le [writes_intros]: "emits (write_u16_le v ctx) (le_bytes 2 v)"
  by (simp add: write_u16_le_def emits_slice)

lemma emits_u32_be [writes_intros]: "emits (write_u32_be v ctx) (be_bytes 4 v)"
  by (simp add: write_u32_be_def emits_slice)

lemma emits_u32_le [writes_intros]: "emits (write_u32_le v ctx) (le_bytes 4 v)"
  by (simp add: write_u32_le_def emits_slice)

lemma emits_map:
  "(\<And>x. x \<in> set xs \<Longrightarrow> emits (enc x) (img x)) \<Longrightarrow> emits (eseq (map enc xs)) (concat (map img xs))"
proof (induction xs)
  case Nil
  show ?case using emits_nil by simp
next
  case (Cons x xs)
  then have "emits (eseq (enc x # map enc xs)) (concat (img x # map img xs))"
    by (intro emits_seq) simp_all
  then show ?case by simp
qed

section \<open>The contract of a wire type\<close>

text \<open>
  What every \<open>Encode\<close> / \<open>Decode\<close> pair promises: \<open>img\<close> is the wire image, \<open>valid\<close> the values
  the wire format can carry. The first locale is the round trip; the second adds what holds of
  arbitrary (untrusted) input.
\<close>

locale wire_codec =
  fixes sz :: "'a \<Rightarrow> nat"
    and enc :: "'a \<Rightarrow> encoder"
    and dec :: "'a decoder"
    and img :: "'a \<Rightarrow> u8 list"
    and valid :: "'a \<Rightarrow> bool"
  assumes enc_emits: "valid x \<Longrightarrow> emits (enc x) (img x)"
    and dec_parses: "valid x \<Longrightarrow> parses dec (img x) x"
    and img_size: "valid x \<Longrightarrow> length (img x) = sz x"
begin

lemma encode_vec_img: "valid x \<Longrightarrow> encode_vec sz enc x = Inr (img x)"
proof -
  assume v: "valid x"
  have "enc x (wc_at [] (replicate (sz x) 0 @ [])) = Inr (wc_at ([] @ img x) [])"
    by (rule emitsD [OF enc_emits [OF v]]) (simp add: img_size [OF v])
  then show ?thesis by (simp add: encode_vec_def WriteCursor_new_at)
qed

lemma decode_img: "valid x \<Longrightarrow> decode dec (img x @ rest) = Inr x"
  using readsD [OF parses_reads [OF dec_parses], of x "[]" rest]
  by (simp add: decode_def ReadCursor_new_at)

lemma roundtrip:
  "valid x \<Longrightarrow> \<exists>bs. encode_vec sz enc x = Inr bs \<and> length bs = sz x \<and> decode dec (bs @ rest) = Inr x"
  by (simp add: encode_vec_img img_size decode_img)

lemma truncated:
  assumes "valid x" and "n < sz x"
  shows "\<exists>ctx k r. decode dec (take n (img x)) = Inl (NotEnoughBytes ctx k r)"
proof -
  have "runs_short dec (img x)" and "n < length (img x)"
    using assms dec_parses img_size by (simp_all add: parses_def)
  then obtain ctx k r where "dec (rc_at [] (take n (img x))) = Inl (NotEnoughBytes ctx k r)"
    unfolding runs_short_def by blast
  then show ?thesis by (simp add: decode_def ReadCursor_new_at)
qed

lemma no_room:
  assumes "valid x" and "length buf < sz x"
  shows "\<exists>ctx k r. enc x (WriteCursor_new buf) = Inl (NotEnoughSpace ctx k r)"
  using enc_emits [OF assms(1)] img_size [OF assms(1)] assms(2)
  unfolding emits_def WriteCursor_new_at by metis

lemma img_prefix_free:
  assumes "valid x" and "valid y" and "img x @ r = img y @ s"
  shows "x = y"
  using decode_img [OF assms(1), of r] decode_img [OF assms(2), of s] assms(3) by simp

end

locale closed_wire_codec = wire_codec +
  assumes dec_local: "local_decoder dec"
    and dec_valid: "yields dec valid"
begin

lemma decode_valid: "decode dec bs = Inr x \<Longrightarrow> valid x"
  using dec_valid by (auto simp: decode_def yields_def split: sum.splits)

lemma decode_reencode:
  "decode dec bs = Inr x \<Longrightarrow> \<exists>out. encode_vec sz enc x = Inr out \<and> decode dec out = Inr x"
  using decode_valid decode_img [of x "[]"] by (auto simp: encode_vec_img)

lemma decode_uses_prefix:
  assumes "decode dec bs = Inr x"
  shows "\<exists>used rest. bs = used @ rest \<and> (\<forall>other. decode dec (used @ other) = Inr x)"
proof -
  from assms obtain c where "dec (rc_at [] bs) = Inr (x, c)"
    by (auto simp: decode_def ReadCursor_new_at split: sum.splits)
  with dec_local obtain used rest where "bs = used @ rest" "reads dec used x"
    by (rule local_decoderE)
  then show ?thesis
    by (intro exI [of _ used] exI [of _ rest]) (simp add: reads_def decode_def ReadCursor_new_at)
qed

end

end
