(* ===== verification/Wire.thy ===== *)
theory Wire
  imports Cursor
begin

text \<open>
  The primitive encoders shared by every oxproto message body (\<open>oxproto/src/wire.rs\<close>): strings
  with a 16-bit length, byte blobs with a 32-bit length, booleans, signed integers and 64-bit
  integers as two 32-bit halves. Each primitive gets its wire image and the rules that put it
  into the collections of the cursor layer.
\<close>

section \<open>Primitives\<close>

definition string_size :: "rust_string \<Rightarrow> nat" where
  "string_size s = 2 + length s"

definition write_string :: "rust_string \<Rightarrow> string \<Rightarrow> encoder" where
  "write_string s ctx =
     (if 2 ^ 16 \<le> length s then efail (FieldTooLarge ctx ''string length'')
      else eseq [write_u16_le (of_nat (length s)) ctx, write_slice s ctx])"

definition read_string :: "string \<Rightarrow> rust_string decoder" where
  "read_string ctx =
     dbind (read_u16_le ctx) (\<lambda>len.
     dbind (read_slice (unat len) ctx) (\<lambda>bytes.
     if \<not> utf8_valid bytes then dfail (InvalidField ctx ''string'' ''not valid UTF-8'')
     else dreturn bytes))"

definition write_bool :: "bool \<Rightarrow> string \<Rightarrow> encoder" where
  "write_bool v ctx = write_u8 (if v then 1 else 0) ctx"

definition read_bool :: "string \<Rightarrow> bool decoder" where
  "read_bool ctx = dbind (read_u8 ctx) (\<lambda>b. dreturn (b \<noteq> 0))"

definition write_blob :: "u8 list \<Rightarrow> string \<Rightarrow> encoder" where
  "write_blob data ctx =
     (if 2 ^ 32 \<le> length data then efail (FieldTooLarge ctx ''blob length'')
      else eseq [write_u32_le (of_nat (length data)) ctx, write_slice data ctx])"

definition read_blob :: "string \<Rightarrow> u8 list decoder" where
  "read_blob ctx = dbind (read_u32_le ctx) (\<lambda>len. read_slice (unat len) ctx)"

definition write_i32 :: "i32 \<Rightarrow> string \<Rightarrow> encoder" where
  "write_i32 v ctx = write_u32_le v ctx"

definition read_i32 :: "string \<Rightarrow> i32 decoder" where
  "read_i32 ctx = read_u32_le ctx"

definition write_i16 :: "i16 \<Rightarrow> string \<Rightarrow> encoder" where
  "write_i16 v ctx = write_u16_le v ctx"

definition read_i16 :: "string \<Rightarrow> i16 decoder" where
  "read_i16 ctx = read_u16_le ctx"

definition write_u64 :: "u64 \<Rightarrow> string \<Rightarrow> encoder" where
  "write_u64 v ctx =
     eseq [write_u32_le (ucast (v AND 0xFFFFFFFF)) ctx, write_u32_le (ucast (drop_bit 32 v)) ctx]"

definition read_u64 :: "string \<Rightarrow> u64 decoder" where
  "read_u64 ctx =
     dbind (read_u32_le ctx) (\<lambda>lo.
     dbind (read_u32_le ctx) (\<lambda>hi.
     dreturn (push_bit 32 (ucast hi) OR ucast lo)))"

section \<open>Wire images\<close>

definition string_ok :: "rust_string \<Rightarrow> bool" where
  "string_ok s \<longleftrightarrow> length s < 2 ^ 16 \<and> utf8_valid s"

definition blob_ok :: "u8 list \<Rightarrow> bool" where
  "blob_ok bs \<longleftrightarrow> length bs < 2 ^ 32"

definition string_img :: "rust_string \<Rightarrow> u8 list" where
  "string_img s = concat [le_bytes 2 (of_nat (length s) :: u16), s]"

definition blob_img :: "u8 list \<Rightarrow> u8 list" where
  "blob_img bs = concat [le_bytes 4 (of_nat (length bs) :: u32), bs]"

definition bool_img :: "bool \<Rightarrow> u8 list" where
  "bool_img v = [if v then 1 else 0]"

lemma length_string_img [codec_size]: "length (string_img s) = string_size s"
  by (simp add: string_img_def string_size_def)

lemma length_blob_img [codec_size]: "length (blob_img bs) = 4 + length bs"
  by (simp add: blob_img_def)

lemma length_bool_img [codec_size]: "length (bool_img v) = 1"
  by (simp add: bool_img_def)

section \<open>Rules\<close>

lemma emits_string [writes_intros]: "string_ok s \<Longrightarrow> emits (write_string s ctx) (string_img s)"
  unfolding write_string_def string_img_def
  by (intro writes_intros) (simp add: string_ok_def)

lemma emits_blob [writes_intros]: "blob_ok bs \<Longrightarrow> emits (write_blob bs ctx) (blob_img bs)"
  unfolding write_blob_def blob_img_def
  by (intro writes_intros) (simp add: blob_ok_def)

lemma emits_bool [writes_intros]: "emits (write_bool v ctx) (bool_img v)"
  unfolding write_bool_def bool_img_def by (rule writes_intros)

lemma emits_i32 [writes_intros]: "emits (write_i32 v ctx) (le_bytes 4 v)"
  unfolding write_i32_def by (rule writes_intros)

lemma emits_i16 [writes_intros]: "emits (write_i16 v ctx) (le_bytes 2 v)"
  unfolding write_i16_def by (rule writes_intros)

text \<open>The two halves of a 64-bit integer are its eight little-endian bytes.\<close>

lemma le_bytes_halves:
  "le_bytes 8 v = concat [le_bytes 4 (ucast (v AND 0xFFFFFFFF) :: u32), le_bytes 4 (ucast (drop_bit 32 v) :: u32)]"
  for v :: u64
proof -
  have m: "(0xFFFFFFFF :: u64) = mask 32" by (simp add: mask_eq_exp_minus_1)
  have "(ucast (drop_bit k v) :: u8) = ucast (drop_bit k (ucast (v AND mask 32) :: u32))" if "k \<le> 24" for k
    using that by (intro bit_word_eqI) (auto simp: bit_simps)
  moreover have "(ucast (drop_bit (32 + k) v) :: u8) = ucast (drop_bit k (ucast (drop_bit 32 v) :: u32))"
    if "k \<le> 24" for k
    using that by (intro bit_word_eqI) (auto simp: bit_simps ac_simps)
  from this [of 0] this [of 8] this [of 16] this [of 24] calculation [of 0] calculation [of 8]
    calculation [of 16] calculation [of 24]
  show ?thesis by (simp add: m numeral_eq_Suc)
qed

lemma emits_u64 [writes_intros]: "emits (write_u64 v ctx) (le_bytes 8 v)"
  unfolding write_u64_def le_bytes_halves by (intro writes_intros)

lemma u64_join: "push_bit 32 (ucast (ucast (drop_bit 32 v) :: u32)) OR ucast (ucast (v AND 0xFFFFFFFF) :: u32) = v"
  for v :: u64
proof -
  have m: "(0xFFFFFFFF :: u64) = mask 32" by (simp add: mask_eq_exp_minus_1)
  show ?thesis unfolding m by (rule bit_word_eqI) (auto simp: bit_simps)
qed

lemma parses_u64 [reads_intros]: "parses (read_u64 ctx) (le_bytes 8 v) v"
  unfolding read_u64_def le_bytes_halves by (rule reads_intros u64_join)+

lemma parses_i32 [reads_intros]: "parses (read_i32 ctx) (le_bytes 4 v) v"
  unfolding read_i32_def by (rule reads_intros)

lemma parses_i16 [reads_intros]: "parses (read_i16 ctx) (le_bytes 2 v) v"
  unfolding read_i16_def by (rule reads_intros)

lemma parses_bool [reads_intros]: "parses (read_bool ctx) (bool_img v) v"
  unfolding read_bool_def bool_img_def by (rule parses_map [OF parses_u8]) simp

lemma parses_string [reads_intros]: "string_ok s \<Longrightarrow> parses (read_string ctx) (string_img s) s"
  unfolding read_string_def string_img_def
  by (rule reads_intros | simp add: string_ok_def unat_of_nat)+

lemma parses_blob [reads_intros]: "blob_ok bs \<Longrightarrow> parses (read_blob ctx) (blob_img bs) bs"
  unfolding read_blob_def blob_img_def
  by (simp only: concat.simps append_Nil2)
    (rule parses_bind_append reads_intros | simp add: blob_ok_def unat_of_nat)+

lemma local_wire [local_intros]:
  "local_decoder (read_string ctx)" "local_decoder (read_bool ctx)" "local_decoder (read_blob ctx)"
  "local_decoder (read_i32 ctx)" "local_decoder (read_i16 ctx)" "local_decoder (read_u64 ctx)"
  unfolding read_string_def read_bool_def read_blob_def read_i32_def read_i16_def read_u64_def
  by (intro local_intros)+

lemma yields_string: "yields (read_string ctx) string_ok"
  unfolding read_string_def
  by (rule yields_bind [OF yields_True], rule yields_bind [OF yields_slice])
    (auto intro!: yields_intros simp: string_ok_def unat_less_power [where 'a = 16, simplified])

lemma yields_blob: "yields (read_blob ctx) blob_ok"
  unfolding read_blob_def
  by (rule yields_bind [OF yields_True])
    (auto simp: yields_def read_slice_def rc_ensure_def rc_remaining_def blob_ok_def min_def
      unat_less_power [where 'a = 32, simplified] split: if_splits)

lemma yields_bind_string:
  "(\<And>s. string_ok s \<Longrightarrow> yields (f s) P) \<Longrightarrow> yields (dbind (read_string ctx) f) P"
  by (rule yields_bind [OF yields_string])

lemma yields_bind_blob:
  "(\<And>bs. blob_ok bs \<Longrightarrow> yields (f bs) P) \<Longrightarrow> yields (dbind (read_blob ctx) f) P"
  by (rule yields_bind [OF yields_blob])

lemma yields_bind_any: "(\<And>x. yields (f x) P) \<Longrightarrow> yields (dbind d f) P"
  by (rule yields_bind [OF yields_True])

text \<open>
  One rule set for the whole contract of a message: the heads \<open>emits\<close>, \<open>parses\<close>,
  \<open>local_decoder\<close> and \<open>yields\<close> tell the rules apart.
\<close>

lemmas yields_steps = yields_bind_string yields_bind_blob yields_bind_any yields_return

lemmas codec_steps = writes_intros reads_intros local_intros yields_steps

end
