(* ===== verification/Control_Messages.thy ===== *)
theory Control_Messages
  imports Wire
begin

text \<open>
  Handshake and control-channel messages (\<open>oxproto/src/message/control.rs\<close>).
\<close>

subsection \<open>Output\<close>

record Output =
  op_id :: u8
  op_x :: i32
  op_y :: i32
  op_width :: u16
  op_height :: u16
  op_scale_num :: u16
  op_scale_den :: u16
  op_refresh_mhz :: u32

definition size_Output :: "Output \<Rightarrow> nat" where
  "size_Output m = 1 + 4 + 4 + 2 + 2 + 2 + 2 + 4"

definition encode_Output :: "Output \<Rightarrow> encoder" where
  "encode_Output m = eseq
    [write_u8 (op_id m) ''Output.id'',
     write_i32 (op_x m) ''Output.x'',
     write_i32 (op_y m) ''Output.y'',
     write_u16_le (op_width m) ''Output.width'',
     write_u16_le (op_height m) ''Output.height'',
     write_u16_le (op_scale_num m) ''Output.scale_num'',
     write_u16_le (op_scale_den m) ''Output.scale_den'',
     write_u32_le (op_refresh_mhz m) ''Output.refresh_mhz'']"

definition decode_Output :: "Output decoder" where
  "decode_Output =
     dbind (read_u8 ''Output.id'') (\<lambda>id.
     dbind (read_i32 ''Output.x'') (\<lambda>x.
     dbind (read_i32 ''Output.y'') (\<lambda>y.
     dbind (read_u16_le ''Output.width'') (\<lambda>width.
     dbind (read_u16_le ''Output.height'') (\<lambda>height.
     dbind (read_u16_le ''Output.scale_num'') (\<lambda>scale_num.
     dbind (read_u16_le ''Output.scale_den'') (\<lambda>scale_den.
     dbind (read_u32_le ''Output.refresh_mhz'') (\<lambda>refresh_mhz.
     dreturn \<lparr>op_id = id, op_x = x, op_y = y,
       op_width = width, op_height = height, op_scale_num = scale_num,
       op_scale_den = scale_den, op_refresh_mhz = refresh_mhz\<rparr>))))))))"

definition img_Output :: "Output \<Rightarrow> u8 list" where
  "img_Output m = concat
    [[op_id m],
     le_bytes 4 (op_x m),
     le_bytes 4 (op_y m),
     le_bytes 2 (op_width m),
     le_bytes 2 (op_height m),
     le_bytes 2 (op_scale_num m),
     le_bytes 2 (op_scale_den m),
     le_bytes 4 (op_refresh_mhz m)]"

definition valid_Output :: "Output \<Rightarrow> bool" where
  "valid_Output m \<longleftrightarrow> True"

interpretation Output_codec: closed_wire_codec size_Output encode_Output decode_Output img_Output valid_Output
  by (unfold_locales; unfold size_Output_def encode_Output_def decode_Output_def img_Output_def valid_Output_def)
    (rule codec_steps | simp add: codec_size)+

text \<open>An output is always carried whole: the rules below let the containers use it.\<close>

lemma emits_Output [writes_intros]: "emits (encode_Output x) (img_Output x)"
  by (rule Output_codec.enc_emits) (simp add: valid_Output_def)

lemma parses_Output [reads_intros]: "parses decode_Output (img_Output x) x"
  by (rule Output_codec.dec_parses) (simp add: valid_Output_def)

lemma length_img_Output [codec_size]: "length (img_Output x) = 21"
  using Output_codec.img_size [of x] by (simp add: valid_Output_def size_Output_def)

subsection \<open>DisplayLayout\<close>

record DisplayLayout =
  dl_outputs :: "Output list"

text \<open>\<open>u8::try_from(n).unwrap_or(u8::MAX)\<close>, which the element counts go through.\<close>

definition u8_or_max :: "nat \<Rightarrow> u8" where
  "u8_or_max n = (if n < 256 then of_nat n else 255)"

definition size_DisplayLayout :: "DisplayLayout \<Rightarrow> nat" where
  "size_DisplayLayout m = 1 + length (dl_outputs m) * 21"

definition encode_DisplayLayout :: "DisplayLayout \<Rightarrow> encoder" where
  "encode_DisplayLayout m = eseq
    [write_u8 (u8_or_max (length (dl_outputs m))) ''DisplayLayout.outputs_count'',
     eseq (map encode_Output (dl_outputs m))]"

definition decode_DisplayLayout :: "DisplayLayout decoder" where
  "decode_DisplayLayout =
     dbind (read_u8 ''DisplayLayout.outputs_count'') (\<lambda>count.
     dbind (dtimes (unat count) decode_Output) (\<lambda>outputs.
     dreturn \<lparr>dl_outputs = outputs\<rparr>))"

definition img_DisplayLayout :: "DisplayLayout \<Rightarrow> u8 list" where
  "img_DisplayLayout m = concat
    [[u8_or_max (length (dl_outputs m))], concat (map img_Output (dl_outputs m))]"

definition valid_DisplayLayout :: "DisplayLayout \<Rightarrow> bool" where
  "valid_DisplayLayout m \<longleftrightarrow> length (dl_outputs m) < 256"

lemma unat_u8_or_max: "n < 256 \<Longrightarrow> unat (u8_or_max n) = n"
  by (simp add: u8_or_max_def unat_of_nat)

lemma length_concat_map_const:
  "(\<And>x. length (f x) = k) \<Longrightarrow> length (concat (map f xs)) = length xs * k"
  by (induction xs) simp_all

lemma emits_outputs [writes_intros]: "emits (eseq (map encode_Output xs)) (concat (map img_Output xs))"
  by (intro emits_map emits_Output)

lemma parses_outputs [reads_intros]:
  "n = length xs \<Longrightarrow> parses (dtimes n decode_Output) (concat (map img_Output xs)) xs"
  by (simp add: parses_times parses_Output)

interpretation DisplayLayout_codec: closed_wire_codec
  size_DisplayLayout encode_DisplayLayout decode_DisplayLayout img_DisplayLayout valid_DisplayLayout
proof unfold_locales
  show "yields decode_DisplayLayout valid_DisplayLayout"
    unfolding decode_DisplayLayout_def
    by (rule yields_bind_any, rule yields_bind [OF yields_times [OF yields_True]])
      (auto intro!: yields_return simp: valid_DisplayLayout_def unat_less_power [where 'a = 8, simplified])
  show "local_decoder decode_DisplayLayout"
    unfolding decode_DisplayLayout_def
    by (intro local_intros Output_codec.dec_local)
qed (unfold size_DisplayLayout_def encode_DisplayLayout_def decode_DisplayLayout_def
    img_DisplayLayout_def valid_DisplayLayout_def,
    (rule codec_steps parses_outputs emits_outputs
      | simp add: codec_size unat_u8_or_max length_concat_map_const)+)

subsection \<open>ClientHello\<close>

record ClientHello =
  ch_version_min :: u16
  ch_version_max :: u16
  ch_features :: u64
  ch_auth_token :: rust_string
  ch_client_name :: rust_string
  ch_codecs :: "u8 list"
  ch_display :: DisplayLayout

definition size_ClientHello :: "ClientHello \<Rightarrow> nat" where
  "size_ClientHello m =
     2 + 2 + 8 + string_size (ch_auth_token m) + string_size (ch_client_name m)
     + 1 + length (ch_codecs m) + size_DisplayLayout (ch_display m)"

definition encode_ClientHello :: "ClientHello \<Rightarrow> encoder" where
  "encode_ClientHello m = eseq
    [write_u16_le (ch_version_min m) ''ClientHello.version_min'',
     write_u16_le (ch_version_max m) ''ClientHello.version_max'',
     write_u64 (ch_features m) ''ClientHello.features'',
     write_string (ch_auth_token m) ''ClientHello.auth_token'',
     write_string (ch_client_name m) ''ClientHello.client_name'',
     write_u8 (u8_or_max (length (ch_codecs m))) ''ClientHello.codecs_count'',
     eseq (map (\<lambda>codec. write_u8 codec ''ClientHello.codecs'') (ch_codecs m)),
     encode_DisplayLayout (ch_display m)]"

definition decode_ClientHello :: "ClientHello decoder" where
  "decode_ClientHello =
     dbind (read_u16_le ''ClientHello.version_min'') (\<lambda>version_min.
     dbind (read_u16_le ''ClientHello.version_max'') (\<lambda>version_max.
     dbind (read_u64 ''ClientHello.features'') (\<lambda>features.
     dbind (read_string ''ClientHello.auth_token'') (\<lambda>auth_token.
     dbind (read_string ''ClientHello.client_name'') (\<lambda>client_name.
     dbind (read_u8 ''ClientHello.codecs_count'') (\<lambda>count.
     dbind (dtimes (unat count) (read_u8 ''ClientHello.codecs'')) (\<lambda>codecs.
     dbind decode_DisplayLayout (\<lambda>display.
     dreturn \<lparr>ch_version_min = version_min, ch_version_max = version_max, ch_features = features,
       ch_auth_token = auth_token, ch_client_name = client_name, ch_codecs = codecs,
       ch_display = display\<rparr>))))))))"

definition img_ClientHello :: "ClientHello \<Rightarrow> u8 list" where
  "img_ClientHello m = concat
    [le_bytes 2 (ch_version_min m), le_bytes 2 (ch_version_max m), le_bytes 8 (ch_features m),
     string_img (ch_auth_token m), string_img (ch_client_name m),
     [u8_or_max (length (ch_codecs m))], concat (map (\<lambda>codec. [codec]) (ch_codecs m)),
     img_DisplayLayout (ch_display m)]"

definition valid_ClientHello :: "ClientHello \<Rightarrow> bool" where
  "valid_ClientHello m \<longleftrightarrow> string_ok (ch_auth_token m) \<and> string_ok (ch_client_name m) \<and>
     length (ch_codecs m) < 256 \<and> valid_DisplayLayout (ch_display m)"

lemma emits_bytes: "emits (eseq (map (\<lambda>b. write_u8 b ctx) bs)) (concat (map (\<lambda>b. [b]) bs))"
  by (intro emits_map emits_u8)

lemma parses_bytes: "n = length bs \<Longrightarrow> parses (dtimes n (read_u8 ctx)) (concat (map (\<lambda>b. [b]) bs)) bs"
  using parses_times [of bs "read_u8 ctx" "\<lambda>b. [b]"] parses_u8 by simp

lemma emits_layout: "valid_DisplayLayout m \<Longrightarrow> emits (encode_DisplayLayout m) (img_DisplayLayout m)"
  by (rule DisplayLayout_codec.enc_emits)

lemma parses_layout: "valid_DisplayLayout m \<Longrightarrow> parses decode_DisplayLayout (img_DisplayLayout m) m"
  by (rule DisplayLayout_codec.dec_parses)

lemma length_img_layout:
  "valid_DisplayLayout m \<Longrightarrow> length (img_DisplayLayout m) = size_DisplayLayout m"
  by (rule DisplayLayout_codec.img_size)

interpretation ClientHello_codec: closed_wire_codec
  size_ClientHello encode_ClientHello decode_ClientHello img_ClientHello valid_ClientHello
proof unfold_locales
  show "yields decode_ClientHello valid_ClientHello"
    unfolding decode_ClientHello_def
    by (rule yields_bind_any, rule yields_bind_any, rule yields_bind_any, rule yields_bind_string,
        rule yields_bind_string, rule yields_bind_any,
        rule yields_bind [OF yields_times [OF yields_True]],
        rule yields_bind [OF DisplayLayout_codec.dec_valid], rule yields_return)
      (simp add: valid_ClientHello_def unat_less_power [where 'a = 8, simplified])
  show "local_decoder decode_ClientHello"
    unfolding decode_ClientHello_def
    by (intro local_intros DisplayLayout_codec.dec_local)
qed (unfold size_ClientHello_def encode_ClientHello_def decode_ClientHello_def img_ClientHello_def
    valid_ClientHello_def,
    (rule codec_steps emits_bytes parses_bytes emits_layout parses_layout
      | simp add: codec_size unat_u8_or_max length_concat_map_const length_img_layout)+)

subsection \<open>ServerHello\<close>

record ServerHello =
  sh_version :: u16
  sh_features :: u64
  sh_session_id :: u64
  sh_codec :: u8

definition size_ServerHello :: "ServerHello \<Rightarrow> nat" where
  "size_ServerHello m = 2 + 8 + 8 + 1"

definition encode_ServerHello :: "ServerHello \<Rightarrow> encoder" where
  "encode_ServerHello m = eseq
    [write_u16_le (sh_version m) ''ServerHello.version'',
     write_u64 (sh_features m) ''ServerHello.features'',
     write_u64 (sh_session_id m) ''ServerHello.session_id'',
     write_u8 (sh_codec m) ''ServerHello.codec'']"

definition decode_ServerHello :: "ServerHello decoder" where
  "decode_ServerHello =
     dbind (read_u16_le ''ServerHello.version'') (\<lambda>version.
     dbind (read_u64 ''ServerHello.features'') (\<lambda>features.
     dbind (read_u64 ''ServerHello.session_id'') (\<lambda>session_id.
     dbind (read_u8 ''ServerHello.codec'') (\<lambda>codec.
     dreturn \<lparr>sh_version = version, sh_features = features, sh_session_id = session_id,
       sh_codec = codec\<rparr>))))"

definition img_ServerHello :: "ServerHello \<Rightarrow> u8 list" where
  "img_ServerHello m = concat
    [le_bytes 2 (sh_version m),
     le_bytes 8 (sh_features m),
     le_bytes 8 (sh_session_id m),
     [sh_codec m]]"

definition valid_ServerHello :: "ServerHello \<Rightarrow> bool" where
  "valid_ServerHello m \<longleftrightarrow> True"

interpretation ServerHello_codec: closed_wire_codec size_ServerHello encode_ServerHello decode_ServerHello img_ServerHello valid_ServerHello
  by (unfold_locales; unfold size_ServerHello_def encode_ServerHello_def decode_ServerHello_def img_ServerHello_def valid_ServerHello_def)
    (rule codec_steps | simp add: codec_size)+

subsection \<open>Error\<close>

record Error =
  er_code :: u16
  er_message :: rust_string

definition size_Error :: "Error \<Rightarrow> nat" where
  "size_Error m = 2 + string_size (er_message m)"

definition encode_Error :: "Error \<Rightarrow> encoder" where
  "encode_Error m = eseq
    [write_u16_le (er_code m) ''Error.code'',
     write_string (er_message m) ''Error.message'']"

definition decode_Error :: "Error decoder" where
  "decode_Error =
     dbind (read_u16_le ''Error.code'') (\<lambda>code.
     dbind (read_string ''Error.message'') (\<lambda>message.
     dreturn \<lparr>er_code = code, er_message = message\<rparr>))"

definition img_Error :: "Error \<Rightarrow> u8 list" where
  "img_Error m = concat
    [le_bytes 2 (er_code m),
     string_img (er_message m)]"

definition valid_Error :: "Error \<Rightarrow> bool" where
  "valid_Error m \<longleftrightarrow> string_ok (er_message m)"

interpretation Error_codec: closed_wire_codec size_Error encode_Error decode_Error img_Error valid_Error
  by (unfold_locales; unfold size_Error_def encode_Error_def decode_Error_def img_Error_def valid_Error_def)
    (rule codec_steps | simp add: codec_size)+

subsection \<open>Close\<close>

record Close =
  cl_reason :: u16

definition size_Close :: "Close \<Rightarrow> nat" where
  "size_Close m = 2"

definition encode_Close :: "Close \<Rightarrow> encoder" where
  "encode_Close m = eseq
    [write_u16_le (cl_reason m) ''Close.reason'']"

definition decode_Close :: "Close decoder" where
  "decode_Close =
     dbind (read_u16_le ''Close.reason'') (\<lambda>reason.
     dreturn \<lparr>cl_reason = reason\<rparr>)"

definition img_Close :: "Close \<Rightarrow> u8 list" where
  "img_Close m = concat
    [le_bytes 2 (cl_reason m)]"

definition valid_Close :: "Close \<Rightarrow> bool" where
  "valid_Close m \<longleftrightarrow> True"

interpretation Close_codec: closed_wire_codec size_Close encode_Close decode_Close img_Close valid_Close
  by (unfold_locales; unfold size_Close_def encode_Close_def decode_Close_def img_Close_def valid_Close_def)
    (rule codec_steps | simp add: codec_size)+

subsection \<open>Ping\<close>

record Ping =
  pi_seq :: u32
  pi_sent_us :: u64

definition size_Ping :: "Ping \<Rightarrow> nat" where
  "size_Ping m = 4 + 8"

definition encode_Ping :: "Ping \<Rightarrow> encoder" where
  "encode_Ping m = eseq
    [write_u32_le (pi_seq m) ''Ping.seq'',
     write_u64 (pi_sent_us m) ''Ping.sent_us'']"

definition decode_Ping :: "Ping decoder" where
  "decode_Ping =
     dbind (read_u32_le ''Ping.seq'') (\<lambda>seq.
     dbind (read_u64 ''Ping.sent_us'') (\<lambda>sent_us.
     dreturn \<lparr>pi_seq = seq, pi_sent_us = sent_us\<rparr>))"

definition img_Ping :: "Ping \<Rightarrow> u8 list" where
  "img_Ping m = concat
    [le_bytes 4 (pi_seq m),
     le_bytes 8 (pi_sent_us m)]"

definition valid_Ping :: "Ping \<Rightarrow> bool" where
  "valid_Ping m \<longleftrightarrow> True"

interpretation Ping_codec: closed_wire_codec size_Ping encode_Ping decode_Ping img_Ping valid_Ping
  by (unfold_locales; unfold size_Ping_def encode_Ping_def decode_Ping_def img_Ping_def valid_Ping_def)
    (rule codec_steps | simp add: codec_size)+

subsection \<open>Pong\<close>

record Pong =
  po_seq :: u32
  po_sent_us :: u64
  po_agent_us :: u64

definition size_Pong :: "Pong \<Rightarrow> nat" where
  "size_Pong m = 4 + 8 + 8"

definition encode_Pong :: "Pong \<Rightarrow> encoder" where
  "encode_Pong m = eseq
    [write_u32_le (po_seq m) ''Pong.seq'',
     write_u64 (po_sent_us m) ''Pong.sent_us'',
     write_u64 (po_agent_us m) ''Pong.agent_us'']"

definition decode_Pong :: "Pong decoder" where
  "decode_Pong =
     dbind (read_u32_le ''Pong.seq'') (\<lambda>seq.
     dbind (read_u64 ''Pong.sent_us'') (\<lambda>sent_us.
     dbind (read_u64 ''Pong.agent_us'') (\<lambda>agent_us.
     dreturn \<lparr>po_seq = seq, po_sent_us = sent_us, po_agent_us = agent_us\<rparr>)))"

definition img_Pong :: "Pong \<Rightarrow> u8 list" where
  "img_Pong m = concat
    [le_bytes 4 (po_seq m),
     le_bytes 8 (po_sent_us m),
     le_bytes 8 (po_agent_us m)]"

definition valid_Pong :: "Pong \<Rightarrow> bool" where
  "valid_Pong m \<longleftrightarrow> True"

interpretation Pong_codec: closed_wire_codec size_Pong encode_Pong decode_Pong img_Pong valid_Pong
  by (unfold_locales; unfold size_Pong_def encode_Pong_def decode_Pong_def img_Pong_def valid_Pong_def)
    (rule codec_steps | simp add: codec_size)+

subsection \<open>QualityHint\<close>

record QualityHint =
  qh_window_id :: u32
  qh_target_fps :: u16
  qh_max_bitrate_kbps :: u32
  qh_flags :: u8

definition size_QualityHint :: "QualityHint \<Rightarrow> nat" where
  "size_QualityHint m = 4 + 2 + 4 + 1"

definition encode_QualityHint :: "QualityHint \<Rightarrow> encoder" where
  "encode_QualityHint m = eseq
    [write_u32_le (qh_window_id m) ''QualityHint.window_id'',
     write_u16_le (qh_target_fps m) ''QualityHint.target_fps'',
     write_u32_le (qh_max_bitrate_kbps m) ''QualityHint.max_bitrate_kbps'',
     write_u8 (qh_flags m) ''QualityHint.flags'']"

definition decode_QualityHint :: "QualityHint decoder" where
  "decode_QualityHint =
     dbind (read_u32_le ''QualityHint.window_id'') (\<lambda>window_id.
     dbind (read_u16_le ''QualityHint.target_fps'') (\<lambda>target_fps.
     dbind (read_u32_le ''QualityHint.max_bitrate_kbps'') (\<lambda>max_bitrate_kbps.
     dbind (read_u8 ''QualityHint.flags'') (\<lambda>flags.
     dreturn \<lparr>qh_window_id = window_id, qh_target_fps = target_fps, qh_max_bitrate_kbps = max_bitrate_kbps,
       qh_flags = flags\<rparr>))))"

definition img_QualityHint :: "QualityHint \<Rightarrow> u8 list" where
  "img_QualityHint m = concat
    [le_bytes 4 (qh_window_id m),
     le_bytes 2 (qh_target_fps m),
     le_bytes 4 (qh_max_bitrate_kbps m),
     [qh_flags m]]"

definition valid_QualityHint :: "QualityHint \<Rightarrow> bool" where
  "valid_QualityHint m \<longleftrightarrow> True"

interpretation QualityHint_codec: closed_wire_codec size_QualityHint encode_QualityHint decode_QualityHint img_QualityHint valid_QualityHint
  by (unfold_locales; unfold size_QualityHint_def encode_QualityHint_def decode_QualityHint_def img_QualityHint_def valid_QualityHint_def)
    (rule codec_steps | simp add: codec_size)+

end
