(* ===== verification/Window_Messages.thy ===== *)
theory Window_Messages
  imports Wire
begin

text \<open>
  Window lifecycle and video messages (\<open>oxproto/src/message/window.rs\<close>): each struct as a record
  with its \<open>size\<close>, \<open>encode\<close> and \<open>decode\<close>, its wire image, and the interpretation of the wire
  contract that gives round trip, truncation and prefix facts for it.
\<close>

subsection \<open>WindowOpened\<close>

record WindowOpened =
  wo_window_id :: u32
  wo_video_channel :: u16
  wo_pid :: u32
  wo_app_id :: rust_string
  wo_title :: rust_string
  wo_x :: i32
  wo_y :: i32
  wo_width :: u16
  wo_height :: u16
  wo_dpi :: u16
  wo_flags :: u32
  wo_owner_id :: u32

definition size_WindowOpened :: "WindowOpened \<Rightarrow> nat" where
  "size_WindowOpened m = 4 + 2 + 4 + string_size (wo_app_id m) + string_size (wo_title m) + 4 + 4 + 2 + 2 + 2 + 4 + 4"

definition encode_WindowOpened :: "WindowOpened \<Rightarrow> encoder" where
  "encode_WindowOpened m = eseq
    [write_u32_le (wo_window_id m) ''WindowOpened.window_id'',
     write_u16_le (wo_video_channel m) ''WindowOpened.video_channel'',
     write_u32_le (wo_pid m) ''WindowOpened.pid'',
     write_string (wo_app_id m) ''WindowOpened.app_id'',
     write_string (wo_title m) ''WindowOpened.title'',
     write_i32 (wo_x m) ''WindowOpened.x'',
     write_i32 (wo_y m) ''WindowOpened.y'',
     write_u16_le (wo_width m) ''WindowOpened.width'',
     write_u16_le (wo_height m) ''WindowOpened.height'',
     write_u16_le (wo_dpi m) ''WindowOpened.dpi'',
     write_u32_le (wo_flags m) ''WindowOpened.flags'',
     write_u32_le (wo_owner_id m) ''WindowOpened.owner_id'']"

definition decode_WindowOpened :: "WindowOpened decoder" where
  "decode_WindowOpened =
     dbind (read_u32_le ''WindowOpened.window_id'') (\<lambda>window_id.
     dbind (read_u16_le ''WindowOpened.video_channel'') (\<lambda>video_channel.
     dbind (read_u32_le ''WindowOpened.pid'') (\<lambda>pid.
     dbind (read_string ''WindowOpened.app_id'') (\<lambda>app_id.
     dbind (read_string ''WindowOpened.title'') (\<lambda>title.
     dbind (read_i32 ''WindowOpened.x'') (\<lambda>x.
     dbind (read_i32 ''WindowOpened.y'') (\<lambda>y.
     dbind (read_u16_le ''WindowOpened.width'') (\<lambda>width.
     dbind (read_u16_le ''WindowOpened.height'') (\<lambda>height.
     dbind (read_u16_le ''WindowOpened.dpi'') (\<lambda>dpi.
     dbind (read_u32_le ''WindowOpened.flags'') (\<lambda>flags.
     dbind (read_u32_le ''WindowOpened.owner_id'') (\<lambda>owner_id.
     dreturn \<lparr>wo_window_id = window_id, wo_video_channel = video_channel, wo_pid = pid,
       wo_app_id = app_id, wo_title = title, wo_x = x,
       wo_y = y, wo_width = width, wo_height = height,
       wo_dpi = dpi, wo_flags = flags, wo_owner_id = owner_id\<rparr>))))))))))))"

definition img_WindowOpened :: "WindowOpened \<Rightarrow> u8 list" where
  "img_WindowOpened m = concat
    [le_bytes 4 (wo_window_id m),
     le_bytes 2 (wo_video_channel m),
     le_bytes 4 (wo_pid m),
     string_img (wo_app_id m),
     string_img (wo_title m),
     le_bytes 4 (wo_x m),
     le_bytes 4 (wo_y m),
     le_bytes 2 (wo_width m),
     le_bytes 2 (wo_height m),
     le_bytes 2 (wo_dpi m),
     le_bytes 4 (wo_flags m),
     le_bytes 4 (wo_owner_id m)]"

definition valid_WindowOpened :: "WindowOpened \<Rightarrow> bool" where
  "valid_WindowOpened m \<longleftrightarrow> string_ok (wo_app_id m) \<and> string_ok (wo_title m)"

interpretation WindowOpened_codec: closed_wire_codec size_WindowOpened encode_WindowOpened decode_WindowOpened img_WindowOpened valid_WindowOpened
  by (unfold_locales; unfold size_WindowOpened_def encode_WindowOpened_def decode_WindowOpened_def img_WindowOpened_def valid_WindowOpened_def)
    (rule codec_steps | simp add: codec_size)+

subsection \<open>WindowClosed\<close>

record WindowClosed =
  wcl_window_id :: u32

definition size_WindowClosed :: "WindowClosed \<Rightarrow> nat" where
  "size_WindowClosed m = 4"

definition encode_WindowClosed :: "WindowClosed \<Rightarrow> encoder" where
  "encode_WindowClosed m = eseq
    [write_u32_le (wcl_window_id m) ''WindowClosed.window_id'']"

definition decode_WindowClosed :: "WindowClosed decoder" where
  "decode_WindowClosed =
     dbind (read_u32_le ''WindowClosed.window_id'') (\<lambda>window_id.
     dreturn \<lparr>wcl_window_id = window_id\<rparr>)"

definition img_WindowClosed :: "WindowClosed \<Rightarrow> u8 list" where
  "img_WindowClosed m = concat
    [le_bytes 4 (wcl_window_id m)]"

definition valid_WindowClosed :: "WindowClosed \<Rightarrow> bool" where
  "valid_WindowClosed m \<longleftrightarrow> True"

interpretation WindowClosed_codec: closed_wire_codec size_WindowClosed encode_WindowClosed decode_WindowClosed img_WindowClosed valid_WindowClosed
  by (unfold_locales; unfold size_WindowClosed_def encode_WindowClosed_def decode_WindowClosed_def img_WindowClosed_def valid_WindowClosed_def)
    (rule codec_steps | simp add: codec_size)+

subsection \<open>WindowGeometry\<close>

record WindowGeometry =
  wg_window_id :: u32
  wg_x :: i32
  wg_y :: i32
  wg_width :: u16
  wg_height :: u16

definition size_WindowGeometry :: "WindowGeometry \<Rightarrow> nat" where
  "size_WindowGeometry m = 16"

definition encode_WindowGeometry :: "WindowGeometry \<Rightarrow> encoder" where
  "encode_WindowGeometry m = eseq
    [write_u32_le (wg_window_id m) ''WindowGeometry.window_id'',
     write_i32 (wg_x m) ''WindowGeometry.x'',
     write_i32 (wg_y m) ''WindowGeometry.y'',
     write_u16_le (wg_width m) ''WindowGeometry.width'',
     write_u16_le (wg_height m) ''WindowGeometry.height'']"

definition decode_WindowGeometry :: "WindowGeometry decoder" where
  "decode_WindowGeometry =
     dbind (read_u32_le ''WindowGeometry.window_id'') (\<lambda>window_id.
     dbind (read_i32 ''WindowGeometry.x'') (\<lambda>x.
     dbind (read_i32 ''WindowGeometry.y'') (\<lambda>y.
     dbind (read_u16_le ''WindowGeometry.width'') (\<lambda>width.
     dbind (read_u16_le ''WindowGeometry.height'') (\<lambda>height.
     dreturn \<lparr>wg_window_id = window_id, wg_x = x, wg_y = y,
       wg_width = width, wg_height = height\<rparr>)))))"

definition img_WindowGeometry :: "WindowGeometry \<Rightarrow> u8 list" where
  "img_WindowGeometry m = concat
    [le_bytes 4 (wg_window_id m),
     le_bytes 4 (wg_x m),
     le_bytes 4 (wg_y m),
     le_bytes 2 (wg_width m),
     le_bytes 2 (wg_height m)]"

definition valid_WindowGeometry :: "WindowGeometry \<Rightarrow> bool" where
  "valid_WindowGeometry m \<longleftrightarrow> True"

interpretation WindowGeometry_codec: closed_wire_codec size_WindowGeometry encode_WindowGeometry decode_WindowGeometry img_WindowGeometry valid_WindowGeometry
  by (unfold_locales; unfold size_WindowGeometry_def encode_WindowGeometry_def decode_WindowGeometry_def img_WindowGeometry_def valid_WindowGeometry_def)
    (rule codec_steps | simp add: codec_size)+

subsection \<open>WindowTitle\<close>

record WindowTitle =
  wt_window_id :: u32
  wt_title :: rust_string

definition size_WindowTitle :: "WindowTitle \<Rightarrow> nat" where
  "size_WindowTitle m = 4 + string_size (wt_title m)"

definition encode_WindowTitle :: "WindowTitle \<Rightarrow> encoder" where
  "encode_WindowTitle m = eseq
    [write_u32_le (wt_window_id m) ''WindowTitle.window_id'',
     write_string (wt_title m) ''WindowTitle.title'']"

definition decode_WindowTitle :: "WindowTitle decoder" where
  "decode_WindowTitle =
     dbind (read_u32_le ''WindowTitle.window_id'') (\<lambda>window_id.
     dbind (read_string ''WindowTitle.title'') (\<lambda>title.
     dreturn \<lparr>wt_window_id = window_id, wt_title = title\<rparr>))"

definition img_WindowTitle :: "WindowTitle \<Rightarrow> u8 list" where
  "img_WindowTitle m = concat
    [le_bytes 4 (wt_window_id m),
     string_img (wt_title m)]"

definition valid_WindowTitle :: "WindowTitle \<Rightarrow> bool" where
  "valid_WindowTitle m \<longleftrightarrow> string_ok (wt_title m)"

interpretation WindowTitle_codec: closed_wire_codec size_WindowTitle encode_WindowTitle decode_WindowTitle img_WindowTitle valid_WindowTitle
  by (unfold_locales; unfold size_WindowTitle_def encode_WindowTitle_def decode_WindowTitle_def img_WindowTitle_def valid_WindowTitle_def)
    (rule codec_steps | simp add: codec_size)+

subsection \<open>WindowState\<close>

record WindowState =
  ws_window_id :: u32
  ws_state :: u8
  ws_flags :: u32

definition size_WindowState :: "WindowState \<Rightarrow> nat" where
  "size_WindowState m = 9"

definition encode_WindowState :: "WindowState \<Rightarrow> encoder" where
  "encode_WindowState m = eseq
    [write_u32_le (ws_window_id m) ''WindowState.window_id'',
     write_u8 (ws_state m) ''WindowState.state'',
     write_u32_le (ws_flags m) ''WindowState.flags'']"

definition decode_WindowState :: "WindowState decoder" where
  "decode_WindowState =
     dbind (read_u32_le ''WindowState.window_id'') (\<lambda>window_id.
     dbind (read_u8 ''WindowState.state'') (\<lambda>state.
     dbind (read_u32_le ''WindowState.flags'') (\<lambda>flags.
     dreturn \<lparr>ws_window_id = window_id, ws_state = state, ws_flags = flags\<rparr>)))"

definition img_WindowState :: "WindowState \<Rightarrow> u8 list" where
  "img_WindowState m = concat
    [le_bytes 4 (ws_window_id m),
     [ws_state m],
     le_bytes 4 (ws_flags m)]"

definition valid_WindowState :: "WindowState \<Rightarrow> bool" where
  "valid_WindowState m \<longleftrightarrow> True"

interpretation WindowState_codec: closed_wire_codec size_WindowState encode_WindowState decode_WindowState img_WindowState valid_WindowState
  by (unfold_locales; unfold size_WindowState_def encode_WindowState_def decode_WindowState_def img_WindowState_def valid_WindowState_def)
    (rule codec_steps | simp add: codec_size)+

subsection \<open>WindowZOrder\<close>

record WindowZOrder =
  wz_window_id :: u32
  wz_above_window_id :: u32

definition size_WindowZOrder :: "WindowZOrder \<Rightarrow> nat" where
  "size_WindowZOrder m = 8"

definition encode_WindowZOrder :: "WindowZOrder \<Rightarrow> encoder" where
  "encode_WindowZOrder m = eseq
    [write_u32_le (wz_window_id m) ''WindowZOrder.window_id'',
     write_u32_le (wz_above_window_id m) ''WindowZOrder.above_window_id'']"

definition decode_WindowZOrder :: "WindowZOrder decoder" where
  "decode_WindowZOrder =
     dbind (read_u32_le ''WindowZOrder.window_id'') (\<lambda>window_id.
     dbind (read_u32_le ''WindowZOrder.above_window_id'') (\<lambda>above_window_id.
     dreturn \<lparr>wz_window_id = window_id, wz_above_window_id = above_window_id\<rparr>))"

definition img_WindowZOrder :: "WindowZOrder \<Rightarrow> u8 list" where
  "img_WindowZOrder m = concat
    [le_bytes 4 (wz_window_id m),
     le_bytes 4 (wz_above_window_id m)]"

definition valid_WindowZOrder :: "WindowZOrder \<Rightarrow> bool" where
  "valid_WindowZOrder m \<longleftrightarrow> True"

interpretation WindowZOrder_codec: closed_wire_codec size_WindowZOrder encode_WindowZOrder decode_WindowZOrder img_WindowZOrder valid_WindowZOrder
  by (unfold_locales; unfold size_WindowZOrder_def encode_WindowZOrder_def decode_WindowZOrder_def img_WindowZOrder_def valid_WindowZOrder_def)
    (rule codec_steps | simp add: codec_size)+

subsection \<open>WindowIcon\<close>

record WindowIcon =
  wi_window_id :: u32
  wi_width :: u16
  wi_height :: u16
  wi_bgra :: "u8 list"

definition size_WindowIcon :: "WindowIcon \<Rightarrow> nat" where
  "size_WindowIcon m = 4 + 2 + 2 + 4 + length (wi_bgra m)"

definition encode_WindowIcon :: "WindowIcon \<Rightarrow> encoder" where
  "encode_WindowIcon m = eseq
    [write_u32_le (wi_window_id m) ''WindowIcon.window_id'',
     write_u16_le (wi_width m) ''WindowIcon.width'',
     write_u16_le (wi_height m) ''WindowIcon.height'',
     write_blob (wi_bgra m) ''WindowIcon.bgra'']"

definition decode_WindowIcon :: "WindowIcon decoder" where
  "decode_WindowIcon =
     dbind (read_u32_le ''WindowIcon.window_id'') (\<lambda>window_id.
     dbind (read_u16_le ''WindowIcon.width'') (\<lambda>width.
     dbind (read_u16_le ''WindowIcon.height'') (\<lambda>height.
     dbind (read_blob ''WindowIcon.bgra'') (\<lambda>bgra.
     dreturn \<lparr>wi_window_id = window_id, wi_width = width, wi_height = height,
       wi_bgra = bgra\<rparr>))))"

definition img_WindowIcon :: "WindowIcon \<Rightarrow> u8 list" where
  "img_WindowIcon m = concat
    [le_bytes 4 (wi_window_id m),
     le_bytes 2 (wi_width m),
     le_bytes 2 (wi_height m),
     blob_img (wi_bgra m)]"

definition valid_WindowIcon :: "WindowIcon \<Rightarrow> bool" where
  "valid_WindowIcon m \<longleftrightarrow> blob_ok (wi_bgra m)"

interpretation WindowIcon_codec: closed_wire_codec size_WindowIcon encode_WindowIcon decode_WindowIcon img_WindowIcon valid_WindowIcon
  by (unfold_locales; unfold size_WindowIcon_def encode_WindowIcon_def decode_WindowIcon_def img_WindowIcon_def valid_WindowIcon_def)
    (rule codec_steps | simp add: codec_size)+

subsection \<open>FrameData\<close>

record FrameData =
  fd_window_id :: u32
  fd_frame_id :: u64
  fd_codec :: u8
  fd_flags :: u8
  fd_width :: u16
  fd_height :: u16
  fd_captured_us :: u64
  fd_encoded_us :: u64
  fd_data :: "u8 list"

definition size_FrameData :: "FrameData \<Rightarrow> nat" where
  "size_FrameData m = 4 + 8 + 1 + 1 + 2 + 2 + 8 + 8 + 4 + length (fd_data m)"

definition encode_FrameData :: "FrameData \<Rightarrow> encoder" where
  "encode_FrameData m = eseq
    [write_u32_le (fd_window_id m) ''FrameData.window_id'',
     write_u64 (fd_frame_id m) ''FrameData.frame_id'',
     write_u8 (fd_codec m) ''FrameData.codec'',
     write_u8 (fd_flags m) ''FrameData.flags'',
     write_u16_le (fd_width m) ''FrameData.width'',
     write_u16_le (fd_height m) ''FrameData.height'',
     write_u64 (fd_captured_us m) ''FrameData.captured_us'',
     write_u64 (fd_encoded_us m) ''FrameData.encoded_us'',
     write_blob (fd_data m) ''FrameData.data'']"

definition decode_FrameData :: "FrameData decoder" where
  "decode_FrameData =
     dbind (read_u32_le ''FrameData.window_id'') (\<lambda>window_id.
     dbind (read_u64 ''FrameData.frame_id'') (\<lambda>frame_id.
     dbind (read_u8 ''FrameData.codec'') (\<lambda>codec.
     dbind (read_u8 ''FrameData.flags'') (\<lambda>flags.
     dbind (read_u16_le ''FrameData.width'') (\<lambda>width.
     dbind (read_u16_le ''FrameData.height'') (\<lambda>height.
     dbind (read_u64 ''FrameData.captured_us'') (\<lambda>captured_us.
     dbind (read_u64 ''FrameData.encoded_us'') (\<lambda>encoded_us.
     dbind (read_blob ''FrameData.data'') (\<lambda>data.
     dreturn \<lparr>fd_window_id = window_id, fd_frame_id = frame_id, fd_codec = codec,
       fd_flags = flags, fd_width = width, fd_height = height,
       fd_captured_us = captured_us, fd_encoded_us = encoded_us, fd_data = data\<rparr>)))))))))"

definition img_FrameData :: "FrameData \<Rightarrow> u8 list" where
  "img_FrameData m = concat
    [le_bytes 4 (fd_window_id m),
     le_bytes 8 (fd_frame_id m),
     [fd_codec m],
     [fd_flags m],
     le_bytes 2 (fd_width m),
     le_bytes 2 (fd_height m),
     le_bytes 8 (fd_captured_us m),
     le_bytes 8 (fd_encoded_us m),
     blob_img (fd_data m)]"

definition valid_FrameData :: "FrameData \<Rightarrow> bool" where
  "valid_FrameData m \<longleftrightarrow> blob_ok (fd_data m)"

interpretation FrameData_codec: closed_wire_codec size_FrameData encode_FrameData decode_FrameData img_FrameData valid_FrameData
  by (unfold_locales; unfold size_FrameData_def encode_FrameData_def decode_FrameData_def img_FrameData_def valid_FrameData_def)
    (rule codec_steps | simp add: codec_size)+

subsection \<open>FrameAck\<close>

record FrameAck =
  fa_window_id :: u32
  fa_frame_id :: u64
  fa_decoded_us :: u64
  fa_presented_us :: u64

definition size_FrameAck :: "FrameAck \<Rightarrow> nat" where
  "size_FrameAck m = 28"

definition encode_FrameAck :: "FrameAck \<Rightarrow> encoder" where
  "encode_FrameAck m = eseq
    [write_u32_le (fa_window_id m) ''FrameAck.window_id'',
     write_u64 (fa_frame_id m) ''FrameAck.frame_id'',
     write_u64 (fa_decoded_us m) ''FrameAck.decoded_us'',
     write_u64 (fa_presented_us m) ''FrameAck.presented_us'']"

definition decode_FrameAck :: "FrameAck decoder" where
  "decode_FrameAck =
     dbind (read_u32_le ''FrameAck.window_id'') (\<lambda>window_id.
     dbind (read_u64 ''FrameAck.frame_id'') (\<lambda>frame_id.
     dbind (read_u64 ''FrameAck.decoded_us'') (\<lambda>decoded_us.
     dbind (read_u64 ''FrameAck.presented_us'') (\<lambda>presented_us.
     dreturn \<lparr>fa_window_id = window_id, fa_frame_id = frame_id, fa_decoded_us = decoded_us,
       fa_presented_us = presented_us\<rparr>))))"

definition img_FrameAck :: "FrameAck \<Rightarrow> u8 list" where
  "img_FrameAck m = concat
    [le_bytes 4 (fa_window_id m),
     le_bytes 8 (fa_frame_id m),
     le_bytes 8 (fa_decoded_us m),
     le_bytes 8 (fa_presented_us m)]"

definition valid_FrameAck :: "FrameAck \<Rightarrow> bool" where
  "valid_FrameAck m \<longleftrightarrow> True"

interpretation FrameAck_codec: closed_wire_codec size_FrameAck encode_FrameAck decode_FrameAck img_FrameAck valid_FrameAck
  by (unfold_locales; unfold size_FrameAck_def encode_FrameAck_def decode_FrameAck_def img_FrameAck_def valid_FrameAck_def)
    (rule codec_steps | simp add: codec_size)+

end
