(* ===== verification/Input_Messages.thy ===== *)
theory Input_Messages
  imports Wire
begin

text \<open>
  Input and cursor messages (\<open>oxproto/src/message/input.rs\<close>), in the same shape as the window
  messages: pointer, keyboard, text and modifier events, window control requests, and the cursor
  shape, position and visibility updates.
\<close>

subsection \<open>PointerEvent\<close>

record PointerEvent =
  pe_window_id :: u32
  pe_x :: i32
  pe_y :: i32
  pe_buttons :: u8
  pe_wheel_x :: i16
  pe_wheel_y :: i16
  pe_timestamp :: u64

definition size_PointerEvent :: "PointerEvent \<Rightarrow> nat" where
  "size_PointerEvent m = 4 + 4 + 4 + 1 + 2 + 2 + 8"

definition encode_PointerEvent :: "PointerEvent \<Rightarrow> encoder" where
  "encode_PointerEvent m = eseq
    [write_u32_le (pe_window_id m) ''PointerEvent.window_id'',
     write_i32 (pe_x m) ''PointerEvent.x'',
     write_i32 (pe_y m) ''PointerEvent.y'',
     write_u8 (pe_buttons m) ''PointerEvent.buttons'',
     write_i16 (pe_wheel_x m) ''PointerEvent.wheel_x'',
     write_i16 (pe_wheel_y m) ''PointerEvent.wheel_y'',
     write_u64 (pe_timestamp m) ''PointerEvent.timestamp'']"

definition decode_PointerEvent :: "PointerEvent decoder" where
  "decode_PointerEvent =
     dbind (read_u32_le ''PointerEvent.window_id'') (\<lambda>window_id.
     dbind (read_i32 ''PointerEvent.x'') (\<lambda>x.
     dbind (read_i32 ''PointerEvent.y'') (\<lambda>y.
     dbind (read_u8 ''PointerEvent.buttons'') (\<lambda>buttons.
     dbind (read_i16 ''PointerEvent.wheel_x'') (\<lambda>wheel_x.
     dbind (read_i16 ''PointerEvent.wheel_y'') (\<lambda>wheel_y.
     dbind (read_u64 ''PointerEvent.timestamp'') (\<lambda>timestamp.
     dreturn \<lparr>pe_window_id = window_id, pe_x = x, pe_y = y,
       pe_buttons = buttons, pe_wheel_x = wheel_x, pe_wheel_y = wheel_y,
       pe_timestamp = timestamp\<rparr>)))))))"

definition img_PointerEvent :: "PointerEvent \<Rightarrow> u8 list" where
  "img_PointerEvent m = concat
    [le_bytes 4 (pe_window_id m),
     le_bytes 4 (pe_x m),
     le_bytes 4 (pe_y m),
     [pe_buttons m],
     le_bytes 2 (pe_wheel_x m),
     le_bytes 2 (pe_wheel_y m),
     le_bytes 8 (pe_timestamp m)]"

definition valid_PointerEvent :: "PointerEvent \<Rightarrow> bool" where
  "valid_PointerEvent m \<longleftrightarrow> True"

interpretation PointerEvent_codec: closed_wire_codec size_PointerEvent encode_PointerEvent decode_PointerEvent img_PointerEvent valid_PointerEvent
  by (unfold_locales; unfold size_PointerEvent_def encode_PointerEvent_def decode_PointerEvent_def img_PointerEvent_def valid_PointerEvent_def)
    (rule codec_steps | simp add: codec_size)+

subsection \<open>KeyEvent\<close>

record KeyEvent =
  ke_scancode :: u16
  ke_flags :: u8
  ke_timestamp :: u64

definition size_KeyEvent :: "KeyEvent \<Rightarrow> nat" where
  "size_KeyEvent m = 2 + 1 + 8"

definition encode_KeyEvent :: "KeyEvent \<Rightarrow> encoder" where
  "encode_KeyEvent m = eseq
    [write_u16_le (ke_scancode m) ''KeyEvent.scancode'',
     write_u8 (ke_flags m) ''KeyEvent.flags'',
     write_u64 (ke_timestamp m) ''KeyEvent.timestamp'']"

definition decode_KeyEvent :: "KeyEvent decoder" where
  "decode_KeyEvent =
     dbind (read_u16_le ''KeyEvent.scancode'') (\<lambda>scancode.
     dbind (read_u8 ''KeyEvent.flags'') (\<lambda>flags.
     dbind (read_u64 ''KeyEvent.timestamp'') (\<lambda>timestamp.
     dreturn \<lparr>ke_scancode = scancode, ke_flags = flags, ke_timestamp = timestamp\<rparr>)))"

definition img_KeyEvent :: "KeyEvent \<Rightarrow> u8 list" where
  "img_KeyEvent m = concat
    [le_bytes 2 (ke_scancode m),
     [ke_flags m],
     le_bytes 8 (ke_timestamp m)]"

definition valid_KeyEvent :: "KeyEvent \<Rightarrow> bool" where
  "valid_KeyEvent m \<longleftrightarrow> True"

interpretation KeyEvent_codec: closed_wire_codec size_KeyEvent encode_KeyEvent decode_KeyEvent img_KeyEvent valid_KeyEvent
  by (unfold_locales; unfold size_KeyEvent_def encode_KeyEvent_def decode_KeyEvent_def img_KeyEvent_def valid_KeyEvent_def)
    (rule codec_steps | simp add: codec_size)+

subsection \<open>TextInput\<close>

record TextInput =
  ti_text :: rust_string

definition size_TextInput :: "TextInput \<Rightarrow> nat" where
  "size_TextInput m = string_size (ti_text m)"

definition encode_TextInput :: "TextInput \<Rightarrow> encoder" where
  "encode_TextInput m = eseq
    [write_string (ti_text m) ''TextInput.text'']"

definition decode_TextInput :: "TextInput decoder" where
  "decode_TextInput =
     dbind (read_string ''TextInput.text'') (\<lambda>text.
     dreturn \<lparr>ti_text = text\<rparr>)"

definition img_TextInput :: "TextInput \<Rightarrow> u8 list" where
  "img_TextInput m = concat
    [string_img (ti_text m)]"

definition valid_TextInput :: "TextInput \<Rightarrow> bool" where
  "valid_TextInput m \<longleftrightarrow> string_ok (ti_text m)"

interpretation TextInput_codec: closed_wire_codec size_TextInput encode_TextInput decode_TextInput img_TextInput valid_TextInput
  by (unfold_locales; unfold size_TextInput_def encode_TextInput_def decode_TextInput_def img_TextInput_def valid_TextInput_def)
    (rule codec_steps | simp add: codec_size)+

subsection \<open>ModifierSync\<close>

record ModifierSync =
  ms_modifiers :: u16
  ms_locks :: u8

definition size_ModifierSync :: "ModifierSync \<Rightarrow> nat" where
  "size_ModifierSync m = 2 + 1"

definition encode_ModifierSync :: "ModifierSync \<Rightarrow> encoder" where
  "encode_ModifierSync m = eseq
    [write_u16_le (ms_modifiers m) ''ModifierSync.modifiers'',
     write_u8 (ms_locks m) ''ModifierSync.locks'']"

definition decode_ModifierSync :: "ModifierSync decoder" where
  "decode_ModifierSync =
     dbind (read_u16_le ''ModifierSync.modifiers'') (\<lambda>modifiers.
     dbind (read_u8 ''ModifierSync.locks'') (\<lambda>locks.
     dreturn \<lparr>ms_modifiers = modifiers, ms_locks = locks\<rparr>))"

definition img_ModifierSync :: "ModifierSync \<Rightarrow> u8 list" where
  "img_ModifierSync m = concat
    [le_bytes 2 (ms_modifiers m),
     [ms_locks m]]"

definition valid_ModifierSync :: "ModifierSync \<Rightarrow> bool" where
  "valid_ModifierSync m \<longleftrightarrow> True"

interpretation ModifierSync_codec: closed_wire_codec size_ModifierSync encode_ModifierSync decode_ModifierSync img_ModifierSync valid_ModifierSync
  by (unfold_locales; unfold size_ModifierSync_def encode_ModifierSync_def decode_ModifierSync_def img_ModifierSync_def valid_ModifierSync_def)
    (rule codec_steps | simp add: codec_size)+

subsection \<open>WindowControl\<close>

record WindowControl =
  wc_window_id :: u32
  wc_action :: u8
  wc_x :: i32
  wc_y :: i32
  wc_width :: u16
  wc_height :: u16

definition size_WindowControl :: "WindowControl \<Rightarrow> nat" where
  "size_WindowControl m = 4 + 1 + 4 + 4 + 2 + 2"

definition encode_WindowControl :: "WindowControl \<Rightarrow> encoder" where
  "encode_WindowControl m = eseq
    [write_u32_le (wc_window_id m) ''WindowControl.window_id'',
     write_u8 (wc_action m) ''WindowControl.action'',
     write_i32 (wc_x m) ''WindowControl.x'',
     write_i32 (wc_y m) ''WindowControl.y'',
     write_u16_le (wc_width m) ''WindowControl.width'',
     write_u16_le (wc_height m) ''WindowControl.height'']"

definition decode_WindowControl :: "WindowControl decoder" where
  "decode_WindowControl =
     dbind (read_u32_le ''WindowControl.window_id'') (\<lambda>window_id.
     dbind (read_u8 ''WindowControl.action'') (\<lambda>action.
     dbind (read_i32 ''WindowControl.x'') (\<lambda>x.
     dbind (read_i32 ''WindowControl.y'') (\<lambda>y.
     dbind (read_u16_le ''WindowControl.width'') (\<lambda>width.
     dbind (read_u16_le ''WindowControl.height'') (\<lambda>height.
     dreturn \<lparr>wc_window_id = window_id, wc_action = action, wc_x = x,
       wc_y = y, wc_width = width, wc_height = height\<rparr>))))))"

definition img_WindowControl :: "WindowControl \<Rightarrow> u8 list" where
  "img_WindowControl m = concat
    [le_bytes 4 (wc_window_id m),
     [wc_action m],
     le_bytes 4 (wc_x m),
     le_bytes 4 (wc_y m),
     le_bytes 2 (wc_width m),
     le_bytes 2 (wc_height m)]"

definition valid_WindowControl :: "WindowControl \<Rightarrow> bool" where
  "valid_WindowControl m \<longleftrightarrow> True"

interpretation WindowControl_codec: closed_wire_codec size_WindowControl encode_WindowControl decode_WindowControl img_WindowControl valid_WindowControl
  by (unfold_locales; unfold size_WindowControl_def encode_WindowControl_def decode_WindowControl_def img_WindowControl_def valid_WindowControl_def)
    (rule codec_steps | simp add: codec_size)+

subsection \<open>CursorShape\<close>

record CursorShape =
  cs_cursor_id :: u32
  cs_width :: u16
  cs_height :: u16
  cs_hotspot_x :: u16
  cs_hotspot_y :: u16
  cs_format :: u8
  cs_data :: "u8 list"

definition size_CursorShape :: "CursorShape \<Rightarrow> nat" where
  "size_CursorShape m = 4 + 2 + 2 + 2 + 2 + 1 + 4 + length (cs_data m)"

definition encode_CursorShape :: "CursorShape \<Rightarrow> encoder" where
  "encode_CursorShape m = eseq
    [write_u32_le (cs_cursor_id m) ''CursorShape.cursor_id'',
     write_u16_le (cs_width m) ''CursorShape.width'',
     write_u16_le (cs_height m) ''CursorShape.height'',
     write_u16_le (cs_hotspot_x m) ''CursorShape.hotspot_x'',
     write_u16_le (cs_hotspot_y m) ''CursorShape.hotspot_y'',
     write_u8 (cs_format m) ''CursorShape.format'',
     write_blob (cs_data m) ''CursorShape.data'']"

definition decode_CursorShape :: "CursorShape decoder" where
  "decode_CursorShape =
     dbind (read_u32_le ''CursorShape.cursor_id'') (\<lambda>cursor_id.
     dbind (read_u16_le ''CursorShape.width'') (\<lambda>width.
     dbind (read_u16_le ''CursorShape.height'') (\<lambda>height.
     dbind (read_u16_le ''CursorShape.hotspot_x'') (\<lambda>hotspot_x.
     dbind (read_u16_le ''CursorShape.hotspot_y'') (\<lambda>hotspot_y.
     dbind (read_u8 ''CursorShape.format'') (\<lambda>format.
     dbind (read_blob ''CursorShape.data'') (\<lambda>data.
     dreturn \<lparr>cs_cursor_id = cursor_id, cs_width = width, cs_height = height,
       cs_hotspot_x = hotspot_x, cs_hotspot_y = hotspot_y, cs_format = format,
       cs_data = data\<rparr>)))))))"

definition img_CursorShape :: "CursorShape \<Rightarrow> u8 list" where
  "img_CursorShape m = concat
    [le_bytes 4 (cs_cursor_id m),
     le_bytes 2 (cs_width m),
     le_bytes 2 (cs_height m),
     le_bytes 2 (cs_hotspot_x m),
     le_bytes 2 (cs_hotspot_y m),
     [cs_format m],
     blob_img (cs_data m)]"

definition valid_CursorShape :: "CursorShape \<Rightarrow> bool" where
  "valid_CursorShape m \<longleftrightarrow> blob_ok (cs_data m)"

interpretation CursorShape_codec: closed_wire_codec size_CursorShape encode_CursorShape decode_CursorShape img_CursorShape valid_CursorShape
  by (unfold_locales; unfold size_CursorShape_def encode_CursorShape_def decode_CursorShape_def img_CursorShape_def valid_CursorShape_def)
    (rule codec_steps | simp add: codec_size)+

subsection \<open>CursorPosition\<close>

record CursorPosition =
  cp_window_id :: u32
  cp_x :: i32
  cp_y :: i32

definition size_CursorPosition :: "CursorPosition \<Rightarrow> nat" where
  "size_CursorPosition m = 4 + 4 + 4"

definition encode_CursorPosition :: "CursorPosition \<Rightarrow> encoder" where
  "encode_CursorPosition m = eseq
    [write_u32_le (cp_window_id m) ''CursorPosition.window_id'',
     write_i32 (cp_x m) ''CursorPosition.x'',
     write_i32 (cp_y m) ''CursorPosition.y'']"

definition decode_CursorPosition :: "CursorPosition decoder" where
  "decode_CursorPosition =
     dbind (read_u32_le ''CursorPosition.window_id'') (\<lambda>window_id.
     dbind (read_i32 ''CursorPosition.x'') (\<lambda>x.
     dbind (read_i32 ''CursorPosition.y'') (\<lambda>y.
     dreturn \<lparr>cp_window_id = window_id, cp_x = x, cp_y = y\<rparr>)))"

definition img_CursorPosition :: "CursorPosition \<Rightarrow> u8 list" where
  "img_CursorPosition m = concat
    [le_bytes 4 (cp_window_id m),
     le_bytes 4 (cp_x m),
     le_bytes 4 (cp_y m)]"

definition valid_CursorPosition :: "CursorPosition \<Rightarrow> bool" where
  "valid_CursorPosition m \<longleftrightarrow> True"

interpretation CursorPosition_codec: closed_wire_codec size_CursorPosition encode_CursorPosition decode_CursorPosition img_CursorPosition valid_CursorPosition
  by (unfold_locales; unfold size_CursorPosition_def encode_CursorPosition_def decode_CursorPosition_def img_CursorPosition_def valid_CursorPosition_def)
    (rule codec_steps | simp add: codec_size)+

subsection \<open>CursorVisibility\<close>

record CursorVisibility =
  cv_visible :: bool

definition size_CursorVisibility :: "CursorVisibility \<Rightarrow> nat" where
  "size_CursorVisibility m = 1"

definition encode_CursorVisibility :: "CursorVisibility \<Rightarrow> encoder" where
  "encode_CursorVisibility m = eseq
    [write_bool (cv_visible m) ''CursorVisibility.visible'']"

definition decode_CursorVisibility :: "CursorVisibility decoder" where
  "decode_CursorVisibility =
     dbind (read_bool ''CursorVisibility.visible'') (\<lambda>visible.
     dreturn \<lparr>cv_visible = visible\<rparr>)"

definition img_CursorVisibility :: "CursorVisibility \<Rightarrow> u8 list" where
  "img_CursorVisibility m = concat
    [bool_img (cv_visible m)]"

definition valid_CursorVisibility :: "CursorVisibility \<Rightarrow> bool" where
  "valid_CursorVisibility m \<longleftrightarrow> True"

interpretation CursorVisibility_codec: closed_wire_codec size_CursorVisibility encode_CursorVisibility decode_CursorVisibility img_CursorVisibility valid_CursorVisibility
  by (unfold_locales; unfold size_CursorVisibility_def encode_CursorVisibility_def decode_CursorVisibility_def img_CursorVisibility_def valid_CursorVisibility_def)
    (rule codec_steps | simp add: codec_size)+

end
