(* ===== verification/Messages.thy ===== *)
theory Messages
  imports Control_Messages Window_Messages Input_Messages
begin

text \<open>
  The message registry and dispatch of \<open>oxproto/src/message/mod.rs\<close>: type codes, channels,
  the \<open>Message\<close> sum, and the three functions that turn a message into its body and a
  \<open>(type, body)\<close> pair back into a message. The lemmas lift the per-message contracts to the sum:
  round trip, truncation, and that whatever an untrusted body decodes to is a well-formed message
  of the declared type.
\<close>

section \<open>Registry\<close>

abbreviation (input) MT_CLIENT_HELLO :: u8 where "MT_CLIENT_HELLO \<equiv> 0x01"
abbreviation (input) MT_SERVER_HELLO :: u8 where "MT_SERVER_HELLO \<equiv> 0x02"
abbreviation (input) MT_ERROR :: u8 where "MT_ERROR \<equiv> 0x03"
abbreviation (input) MT_CLOSE :: u8 where "MT_CLOSE \<equiv> 0x04"
abbreviation (input) MT_PING :: u8 where "MT_PING \<equiv> 0x05"
abbreviation (input) MT_PONG :: u8 where "MT_PONG \<equiv> 0x06"
abbreviation (input) MT_QUALITY_HINT :: u8 where "MT_QUALITY_HINT \<equiv> 0x07"
abbreviation (input) MT_DISPLAY_LAYOUT :: u8 where "MT_DISPLAY_LAYOUT \<equiv> 0x08"
abbreviation (input) MT_WINDOW_OPENED :: u8 where "MT_WINDOW_OPENED \<equiv> 0x10"
abbreviation (input) MT_WINDOW_CLOSED :: u8 where "MT_WINDOW_CLOSED \<equiv> 0x11"
abbreviation (input) MT_WINDOW_GEOMETRY :: u8 where "MT_WINDOW_GEOMETRY \<equiv> 0x12"
abbreviation (input) MT_WINDOW_TITLE :: u8 where "MT_WINDOW_TITLE \<equiv> 0x13"
abbreviation (input) MT_WINDOW_STATE :: u8 where "MT_WINDOW_STATE \<equiv> 0x14"
abbreviation (input) MT_WINDOW_ZORDER :: u8 where "MT_WINDOW_ZORDER \<equiv> 0x15"
abbreviation (input) MT_WINDOW_ICON :: u8 where "MT_WINDOW_ICON \<equiv> 0x16"
abbreviation (input) MT_FRAME_DATA :: u8 where "MT_FRAME_DATA \<equiv> 0x20"
abbreviation (input) MT_FRAME_ACK :: u8 where "MT_FRAME_ACK \<equiv> 0x21"
abbreviation (input) MT_POINTER_EVENT :: u8 where "MT_POINTER_EVENT \<equiv> 0x30"
abbreviation (input) MT_KEY_EVENT :: u8 where "MT_KEY_EVENT \<equiv> 0x31"
abbreviation (input) MT_TEXT_INPUT :: u8 where "MT_TEXT_INPUT \<equiv> 0x32"
abbreviation (input) MT_MODIFIER_SYNC :: u8 where "MT_MODIFIER_SYNC \<equiv> 0x33"
abbreviation (input) MT_WINDOW_CONTROL :: u8 where "MT_WINDOW_CONTROL \<equiv> 0x38"
abbreviation (input) MT_CURSOR_SHAPE :: u8 where "MT_CURSOR_SHAPE \<equiv> 0x40"
abbreviation (input) MT_CURSOR_POSITION :: u8 where "MT_CURSOR_POSITION \<equiv> 0x41"
abbreviation (input) MT_CURSOR_VISIBILITY :: u8 where "MT_CURSOR_VISIBILITY \<equiv> 0x42"

abbreviation (input) CH_CONTROL :: u16 where "CH_CONTROL \<equiv> 0"
abbreviation (input) CH_INPUT :: u16 where "CH_INPUT \<equiv> 1"
abbreviation (input) CH_CURSOR :: u16 where "CH_CURSOR \<equiv> 2"
abbreviation (input) CH_WINDOW :: u16 where "CH_WINDOW \<equiv> 3"
abbreviation (input) VIDEO_BASE :: u16 where "VIDEO_BASE \<equiv> 16"

section \<open>The message sum\<close>

datatype Message =
    ClientHello ClientHello
  | ServerHello ServerHello
  | Error Error
  | Close Close
  | Ping Ping
  | Pong Pong
  | QualityHint QualityHint
  | DisplayLayout DisplayLayout
  | WindowOpened WindowOpened
  | WindowClosed WindowClosed
  | WindowGeometry WindowGeometry
  | WindowTitle WindowTitle
  | WindowState WindowState
  | WindowZOrder WindowZOrder
  | WindowIcon WindowIcon
  | FrameData FrameData
  | FrameAck FrameAck
  | PointerEvent PointerEvent
  | KeyEvent KeyEvent
  | TextInput TextInput
  | ModifierSync ModifierSync
  | WindowControl WindowControl
  | CursorShape CursorShape
  | CursorPosition CursorPosition
  | CursorVisibility CursorVisibility

fun msg_type :: "Message \<Rightarrow> u8" where
  "msg_type (ClientHello _) = MT_CLIENT_HELLO"
| "msg_type (ServerHello _) = MT_SERVER_HELLO"
| "msg_type (Error _) = MT_ERROR"
| "msg_type (Close _) = MT_CLOSE"
| "msg_type (Ping _) = MT_PING"
| "msg_type (Pong _) = MT_PONG"
| "msg_type (QualityHint _) = MT_QUALITY_HINT"
| "msg_type (DisplayLayout _) = MT_DISPLAY_LAYOUT"
| "msg_type (WindowOpened _) = MT_WINDOW_OPENED"
| "msg_type (WindowClosed _) = MT_WINDOW_CLOSED"
| "msg_type (WindowGeometry _) = MT_WINDOW_GEOMETRY"
| "msg_type (WindowTitle _) = MT_WINDOW_TITLE"
| "msg_type (WindowState _) = MT_WINDOW_STATE"
| "msg_type (WindowZOrder _) = MT_WINDOW_ZORDER"
| "msg_type (WindowIcon _) = MT_WINDOW_ICON"
| "msg_type (FrameData _) = MT_FRAME_DATA"
| "msg_type (FrameAck _) = MT_FRAME_ACK"
| "msg_type (PointerEvent _) = MT_POINTER_EVENT"
| "msg_type (KeyEvent _) = MT_KEY_EVENT"
| "msg_type (TextInput _) = MT_TEXT_INPUT"
| "msg_type (ModifierSync _) = MT_MODIFIER_SYNC"
| "msg_type (WindowControl _) = MT_WINDOW_CONTROL"
| "msg_type (CursorShape _) = MT_CURSOR_SHAPE"
| "msg_type (CursorPosition _) = MT_CURSOR_POSITION"
| "msg_type (CursorVisibility _) = MT_CURSOR_VISIBILITY"

fun msg_channel :: "Message \<Rightarrow> u16 \<Rightarrow> u16" where
  "msg_channel (FrameData _) video_channel = video_channel"
| "msg_channel (PointerEvent _) _ = CH_INPUT"
| "msg_channel (KeyEvent _) _ = CH_INPUT"
| "msg_channel (TextInput _) _ = CH_INPUT"
| "msg_channel (ModifierSync _) _ = CH_INPUT"
| "msg_channel (WindowControl _) _ = CH_INPUT"
| "msg_channel (CursorShape _) _ = CH_CURSOR"
| "msg_channel (CursorPosition _) _ = CH_CURSOR"
| "msg_channel (CursorVisibility _) _ = CH_CURSOR"
| "msg_channel (WindowOpened _) _ = CH_WINDOW"
| "msg_channel (WindowClosed _) _ = CH_WINDOW"
| "msg_channel (WindowGeometry _) _ = CH_WINDOW"
| "msg_channel (WindowTitle _) _ = CH_WINDOW"
| "msg_channel (WindowState _) _ = CH_WINDOW"
| "msg_channel (WindowZOrder _) _ = CH_WINDOW"
| "msg_channel (WindowIcon _) _ = CH_WINDOW"
| "msg_channel _ _ = CH_CONTROL"

fun encode_body :: "Message \<Rightarrow> encode_error + u8 list" where
  "encode_body (ClientHello m) = encode_vec size_ClientHello encode_ClientHello m"
| "encode_body (ServerHello m) = encode_vec size_ServerHello encode_ServerHello m"
| "encode_body (Error m) = encode_vec size_Error encode_Error m"
| "encode_body (Close m) = encode_vec size_Close encode_Close m"
| "encode_body (Ping m) = encode_vec size_Ping encode_Ping m"
| "encode_body (Pong m) = encode_vec size_Pong encode_Pong m"
| "encode_body (QualityHint m) = encode_vec size_QualityHint encode_QualityHint m"
| "encode_body (DisplayLayout m) = encode_vec size_DisplayLayout encode_DisplayLayout m"
| "encode_body (WindowOpened m) = encode_vec size_WindowOpened encode_WindowOpened m"
| "encode_body (WindowClosed m) = encode_vec size_WindowClosed encode_WindowClosed m"
| "encode_body (WindowGeometry m) = encode_vec size_WindowGeometry encode_WindowGeometry m"
| "encode_body (WindowTitle m) = encode_vec size_WindowTitle encode_WindowTitle m"
| "encode_body (WindowState m) = encode_vec size_WindowState encode_WindowState m"
| "encode_body (WindowZOrder m) = encode_vec size_WindowZOrder encode_WindowZOrder m"
| "encode_body (WindowIcon m) = encode_vec size_WindowIcon encode_WindowIcon m"
| "encode_body (FrameData m) = encode_vec size_FrameData encode_FrameData m"
| "encode_body (FrameAck m) = encode_vec size_FrameAck encode_FrameAck m"
| "encode_body (PointerEvent m) = encode_vec size_PointerEvent encode_PointerEvent m"
| "encode_body (KeyEvent m) = encode_vec size_KeyEvent encode_KeyEvent m"
| "encode_body (TextInput m) = encode_vec size_TextInput encode_TextInput m"
| "encode_body (ModifierSync m) = encode_vec size_ModifierSync encode_ModifierSync m"
| "encode_body (WindowControl m) = encode_vec size_WindowControl encode_WindowControl m"
| "encode_body (CursorShape m) = encode_vec size_CursorShape encode_CursorShape m"
| "encode_body (CursorPosition m) = encode_vec size_CursorPosition encode_CursorPosition m"
| "encode_body (CursorVisibility m) = encode_vec size_CursorVisibility encode_CursorVisibility m"

text \<open>\<open>Message::X(decode(body)?)\<close>, as one arm of the dispatch.\<close>

definition decode_arm :: "('a \<Rightarrow> Message) \<Rightarrow> 'a decoder \<Rightarrow> u8 list \<Rightarrow> decode_error + Message option" where
  "decode_arm C d body = (case decode d body of Inl e \<Rightarrow> Inl e | Inr m \<Rightarrow> Inr (Some (C m)))"

definition decode_known :: "u8 \<Rightarrow> u8 list \<Rightarrow> decode_error + Message option" where
  "decode_known ty body =
    (if ty = MT_CLIENT_HELLO then decode_arm ClientHello decode_ClientHello body
     else if ty = MT_SERVER_HELLO then decode_arm ServerHello decode_ServerHello body
     else if ty = MT_ERROR then decode_arm Error decode_Error body
     else if ty = MT_CLOSE then decode_arm Close decode_Close body
     else if ty = MT_PING then decode_arm Ping decode_Ping body
     else if ty = MT_PONG then decode_arm Pong decode_Pong body
     else if ty = MT_QUALITY_HINT then decode_arm QualityHint decode_QualityHint body
     else if ty = MT_DISPLAY_LAYOUT then decode_arm DisplayLayout decode_DisplayLayout body
     else if ty = MT_WINDOW_OPENED then decode_arm WindowOpened decode_WindowOpened body
     else if ty = MT_WINDOW_CLOSED then decode_arm WindowClosed decode_WindowClosed body
     else if ty = MT_WINDOW_GEOMETRY then decode_arm WindowGeometry decode_WindowGeometry body
     else if ty = MT_WINDOW_TITLE then decode_arm WindowTitle decode_WindowTitle body
     else if ty = MT_WINDOW_STATE then decode_arm WindowState decode_WindowState body
     else if ty = MT_WINDOW_ZORDER then decode_arm WindowZOrder decode_WindowZOrder body
     else if ty = MT_WINDOW_ICON then decode_arm WindowIcon decode_WindowIcon body
     else if ty = MT_FRAME_DATA then decode_arm FrameData decode_FrameData body
     else if ty = MT_FRAME_ACK then decode_arm FrameAck decode_FrameAck body
     else if ty = MT_POINTER_EVENT then decode_arm PointerEvent decode_PointerEvent body
     else if ty = MT_KEY_EVENT then decode_arm KeyEvent decode_KeyEvent body
     else if ty = MT_TEXT_INPUT then decode_arm TextInput decode_TextInput body
     else if ty = MT_MODIFIER_SYNC then decode_arm ModifierSync decode_ModifierSync body
     else if ty = MT_WINDOW_CONTROL then decode_arm WindowControl decode_WindowControl body
     else if ty = MT_CURSOR_SHAPE then decode_arm CursorShape decode_CursorShape body
     else if ty = MT_CURSOR_POSITION then decode_arm CursorPosition decode_CursorPosition body
     else if ty = MT_CURSOR_VISIBILITY then decode_arm CursorVisibility decode_CursorVisibility body
     else Inr None)"

definition decode_body :: "u8 \<Rightarrow> u8 list \<Rightarrow> decode_error + Message" where
  "decode_body ty body =
     (case decode_known ty body of
        Inl e \<Rightarrow> Inl e
      | Inr None \<Rightarrow> Inl (InvalidField ''oxproto message'' ''type'' ''unknown message type'')
      | Inr (Some m) \<Rightarrow> Inr m)"

section \<open>Wire images of messages\<close>

fun img_msg :: "Message \<Rightarrow> u8 list" where
  "img_msg (ClientHello m) = img_ClientHello m"
| "img_msg (ServerHello m) = img_ServerHello m"
| "img_msg (Error m) = img_Error m"
| "img_msg (Close m) = img_Close m"
| "img_msg (Ping m) = img_Ping m"
| "img_msg (Pong m) = img_Pong m"
| "img_msg (QualityHint m) = img_QualityHint m"
| "img_msg (DisplayLayout m) = img_DisplayLayout m"
| "img_msg (WindowOpened m) = img_WindowOpened m"
| "img_msg (WindowClosed m) = img_WindowClosed m"
| "img_msg (WindowGeometry m) = img_WindowGeometry m"
| "img_msg (WindowTitle m) = img_WindowTitle m"
| "img_msg (WindowState m) = img_WindowState m"
| "img_msg (WindowZOrder m) = img_WindowZOrder m"
| "img_msg (WindowIcon m) = img_WindowIcon m"
| "img_msg (FrameData m) = img_FrameData m"
| "img_msg (FrameAck m) = img_FrameAck m"
| "img_msg (PointerEvent m) = img_PointerEvent m"
| "img_msg (KeyEvent m) = img_KeyEvent m"
| "img_msg (TextInput m) = img_TextInput m"
| "img_msg (ModifierSync m) = img_ModifierSync m"
| "img_msg (WindowControl m) = img_WindowControl m"
| "img_msg (CursorShape m) = img_CursorShape m"
| "img_msg (CursorPosition m) = img_CursorPosition m"
| "img_msg (CursorVisibility m) = img_CursorVisibility m"

fun valid_msg :: "Message \<Rightarrow> bool" where
  "valid_msg (ClientHello m) = valid_ClientHello m"
| "valid_msg (ServerHello m) = valid_ServerHello m"
| "valid_msg (Error m) = valid_Error m"
| "valid_msg (Close m) = valid_Close m"
| "valid_msg (Ping m) = valid_Ping m"
| "valid_msg (Pong m) = valid_Pong m"
| "valid_msg (QualityHint m) = valid_QualityHint m"
| "valid_msg (DisplayLayout m) = valid_DisplayLayout m"
| "valid_msg (WindowOpened m) = valid_WindowOpened m"
| "valid_msg (WindowClosed m) = valid_WindowClosed m"
| "valid_msg (WindowGeometry m) = valid_WindowGeometry m"
| "valid_msg (WindowTitle m) = valid_WindowTitle m"
| "valid_msg (WindowState m) = valid_WindowState m"
| "valid_msg (WindowZOrder m) = valid_WindowZOrder m"
| "valid_msg (WindowIcon m) = valid_WindowIcon m"
| "valid_msg (FrameData m) = valid_FrameData m"
| "valid_msg (FrameAck m) = valid_FrameAck m"
| "valid_msg (PointerEvent m) = valid_PointerEvent m"
| "valid_msg (KeyEvent m) = valid_KeyEvent m"
| "valid_msg (TextInput m) = valid_TextInput m"
| "valid_msg (ModifierSync m) = valid_ModifierSync m"
| "valid_msg (WindowControl m) = valid_WindowControl m"
| "valid_msg (CursorShape m) = valid_CursorShape m"
| "valid_msg (CursorPosition m) = valid_CursorPosition m"
| "valid_msg (CursorVisibility m) = valid_CursorVisibility m"

lemmas encode_vec_imgs =
  ClientHello_codec.encode_vec_img
  ServerHello_codec.encode_vec_img
  Error_codec.encode_vec_img
  Close_codec.encode_vec_img
  Ping_codec.encode_vec_img
  Pong_codec.encode_vec_img
  QualityHint_codec.encode_vec_img
  DisplayLayout_codec.encode_vec_img
  WindowOpened_codec.encode_vec_img
  WindowClosed_codec.encode_vec_img
  WindowGeometry_codec.encode_vec_img
  WindowTitle_codec.encode_vec_img
  WindowState_codec.encode_vec_img
  WindowZOrder_codec.encode_vec_img
  WindowIcon_codec.encode_vec_img
  FrameData_codec.encode_vec_img
  FrameAck_codec.encode_vec_img
  PointerEvent_codec.encode_vec_img
  KeyEvent_codec.encode_vec_img
  TextInput_codec.encode_vec_img
  ModifierSync_codec.encode_vec_img
  WindowControl_codec.encode_vec_img
  CursorShape_codec.encode_vec_img
  CursorPosition_codec.encode_vec_img
  CursorVisibility_codec.encode_vec_img

lemmas decode_imgs =
  ClientHello_codec.decode_img
  ServerHello_codec.decode_img
  Error_codec.decode_img
  Close_codec.decode_img
  Ping_codec.decode_img
  Pong_codec.decode_img
  QualityHint_codec.decode_img
  DisplayLayout_codec.decode_img
  WindowOpened_codec.decode_img
  WindowClosed_codec.decode_img
  WindowGeometry_codec.decode_img
  WindowTitle_codec.decode_img
  WindowState_codec.decode_img
  WindowZOrder_codec.decode_img
  WindowIcon_codec.decode_img
  FrameData_codec.decode_img
  FrameAck_codec.decode_img
  PointerEvent_codec.decode_img
  KeyEvent_codec.decode_img
  TextInput_codec.decode_img
  ModifierSync_codec.decode_img
  WindowControl_codec.decode_img
  CursorShape_codec.decode_img
  CursorPosition_codec.decode_img
  CursorVisibility_codec.decode_img

lemmas decode_valids =
  ClientHello_codec.decode_valid
  ServerHello_codec.decode_valid
  Error_codec.decode_valid
  Close_codec.decode_valid
  Ping_codec.decode_valid
  Pong_codec.decode_valid
  QualityHint_codec.decode_valid
  DisplayLayout_codec.decode_valid
  WindowOpened_codec.decode_valid
  WindowClosed_codec.decode_valid
  WindowGeometry_codec.decode_valid
  WindowTitle_codec.decode_valid
  WindowState_codec.decode_valid
  WindowZOrder_codec.decode_valid
  WindowIcon_codec.decode_valid
  FrameData_codec.decode_valid
  FrameAck_codec.decode_valid
  PointerEvent_codec.decode_valid
  KeyEvent_codec.decode_valid
  TextInput_codec.decode_valid
  ModifierSync_codec.decode_valid
  WindowControl_codec.decode_valid
  CursorShape_codec.decode_valid
  CursorPosition_codec.decode_valid
  CursorVisibility_codec.decode_valid

lemmas decode_truncateds =
  ClientHello_codec.truncated
  ServerHello_codec.truncated
  Error_codec.truncated
  Close_codec.truncated
  Ping_codec.truncated
  Pong_codec.truncated
  QualityHint_codec.truncated
  DisplayLayout_codec.truncated
  WindowOpened_codec.truncated
  WindowClosed_codec.truncated
  WindowGeometry_codec.truncated
  WindowTitle_codec.truncated
  WindowState_codec.truncated
  WindowZOrder_codec.truncated
  WindowIcon_codec.truncated
  FrameData_codec.truncated
  FrameAck_codec.truncated
  PointerEvent_codec.truncated
  KeyEvent_codec.truncated
  TextInput_codec.truncated
  ModifierSync_codec.truncated
  WindowControl_codec.truncated
  CursorShape_codec.truncated
  CursorPosition_codec.truncated
  CursorVisibility_codec.truncated

lemmas img_sizes =
  ClientHello_codec.img_size
  ServerHello_codec.img_size
  Error_codec.img_size
  Close_codec.img_size
  Ping_codec.img_size
  Pong_codec.img_size
  QualityHint_codec.img_size
  DisplayLayout_codec.img_size
  WindowOpened_codec.img_size
  WindowClosed_codec.img_size
  WindowGeometry_codec.img_size
  WindowTitle_codec.img_size
  WindowState_codec.img_size
  WindowZOrder_codec.img_size
  WindowIcon_codec.img_size
  FrameData_codec.img_size
  FrameAck_codec.img_size
  PointerEvent_codec.img_size
  KeyEvent_codec.img_size
  TextInput_codec.img_size
  ModifierSync_codec.img_size
  WindowControl_codec.img_size
  CursorShape_codec.img_size
  CursorPosition_codec.img_size
  CursorVisibility_codec.img_size

text \<open>The dispatch on a registered code.\<close>

lemma decode_known_simps:
  "decode_known MT_CLIENT_HELLO body = decode_arm ClientHello decode_ClientHello body"
  "decode_known MT_SERVER_HELLO body = decode_arm ServerHello decode_ServerHello body"
  "decode_known MT_ERROR body = decode_arm Error decode_Error body"
  "decode_known MT_CLOSE body = decode_arm Close decode_Close body"
  "decode_known MT_PING body = decode_arm Ping decode_Ping body"
  "decode_known MT_PONG body = decode_arm Pong decode_Pong body"
  "decode_known MT_QUALITY_HINT body = decode_arm QualityHint decode_QualityHint body"
  "decode_known MT_DISPLAY_LAYOUT body = decode_arm DisplayLayout decode_DisplayLayout body"
  "decode_known MT_WINDOW_OPENED body = decode_arm WindowOpened decode_WindowOpened body"
  "decode_known MT_WINDOW_CLOSED body = decode_arm WindowClosed decode_WindowClosed body"
  "decode_known MT_WINDOW_GEOMETRY body = decode_arm WindowGeometry decode_WindowGeometry body"
  "decode_known MT_WINDOW_TITLE body = decode_arm WindowTitle decode_WindowTitle body"
  "decode_known MT_WINDOW_STATE body = decode_arm WindowState decode_WindowState body"
  "decode_known MT_WINDOW_ZORDER body = decode_arm WindowZOrder decode_WindowZOrder body"
  "decode_known MT_WINDOW_ICON body = decode_arm WindowIcon decode_WindowIcon body"
  "decode_known MT_FRAME_DATA body = decode_arm FrameData decode_FrameData body"
  "decode_known MT_FRAME_ACK body = decode_arm FrameAck decode_FrameAck body"
  "decode_known MT_POINTER_EVENT body = decode_arm PointerEvent decode_PointerEvent body"
  "decode_known MT_KEY_EVENT body = decode_arm KeyEvent decode_KeyEvent body"
  "decode_known MT_TEXT_INPUT body = decode_arm TextInput decode_TextInput body"
  "decode_known MT_MODIFIER_SYNC body = decode_arm ModifierSync decode_ModifierSync body"
  "decode_known MT_WINDOW_CONTROL body = decode_arm WindowControl decode_WindowControl body"
  "decode_known MT_CURSOR_SHAPE body = decode_arm CursorShape decode_CursorShape body"
  "decode_known MT_CURSOR_POSITION body = decode_arm CursorPosition decode_CursorPosition body"
  "decode_known MT_CURSOR_VISIBILITY body = decode_arm CursorVisibility decode_CursorVisibility body"
  by (simp_all add: decode_known_def)

definition known_types :: "u8 set" where
  "known_types =
    {MT_CLIENT_HELLO, MT_SERVER_HELLO, MT_ERROR, MT_CLOSE, MT_PING,
     MT_PONG, MT_QUALITY_HINT, MT_DISPLAY_LAYOUT, MT_WINDOW_OPENED, MT_WINDOW_CLOSED,
     MT_WINDOW_GEOMETRY, MT_WINDOW_TITLE, MT_WINDOW_STATE, MT_WINDOW_ZORDER, MT_WINDOW_ICON,
     MT_FRAME_DATA, MT_FRAME_ACK, MT_POINTER_EVENT, MT_KEY_EVENT, MT_TEXT_INPUT,
     MT_MODIFIER_SYNC, MT_WINDOW_CONTROL, MT_CURSOR_SHAPE, MT_CURSOR_POSITION, MT_CURSOR_VISIBILITY}"

lemma decode_arm_Inr: "decode_arm C d body = Inr (Some m) \<longleftrightarrow> (\<exists>x. decode d body = Inr x \<and> m = C x)"
  by (auto simp: decode_arm_def split: sum.splits)

lemma decode_arm_not_None: "decode_arm C d body \<noteq> Inr None"
  by (simp add: decode_arm_def split: sum.splits)

lemma encode_body_img: "valid_msg m \<Longrightarrow> encode_body m = Inr (img_msg m)"
  by (cases m) (simp_all add: encode_vec_imgs)

lemma decode_known_img: "valid_msg m \<Longrightarrow> decode_known (msg_type m) (img_msg m @ rest) = Inr (Some m)"
  by (cases m) (simp_all add: decode_known_simps decode_arm_def decode_imgs)

lemma decode_known_truncated:
  assumes "valid_msg m" and "n < length (img_msg m)"
  shows "\<exists>ctx k r. decode_known (msg_type m) (take n (img_msg m)) = Inl (NotEnoughBytes ctx k r)"
  using assms
  by (cases m) (auto simp: decode_known_simps decode_arm_def img_sizes dest!: decode_truncateds)

lemma decode_known_valid: "decode_known ty body = Inr (Some m) \<Longrightarrow> msg_type m = ty \<and> valid_msg m"
  unfolding decode_known_def
  by (auto simp: decode_arm_Inr split: if_splits dest: decode_valids)

lemma decode_known_unknown: "decode_known ty body = Inr None \<longleftrightarrow> ty \<notin> known_types"
  unfolding decode_known_def known_types_def by (simp add: decode_arm_not_None)

section \<open>Properties\<close>

text \<open>
  C4: Every valid message survives the wire. Encoding its body succeeds, and decoding the body
  under the message's type code, whatever bytes follow it, returns that same message.
\<close>

theorem message_roundtrip:
  assumes "valid_msg m"
  shows "\<exists>body. encode_body m = Inr body \<and> decode_known (msg_type m) (body @ rest) = Inr (Some m)"
  using encode_body_img [OF assms] decode_known_img [OF assms] by blast

theorem message_roundtrip_witness:
  "\<exists>body. encode_body (WindowTitle \<lparr>wt_window_id = 7, wt_title = ascii ''ox''\<rparr>) = Inr body \<and>
     decode_known MT_WINDOW_TITLE (body @ [1, 2])
       = Inr (Some (WindowTitle \<lparr>wt_window_id = 7, wt_title = ascii ''ox''\<rparr>))"
  using message_roundtrip [of "WindowTitle \<lparr>wt_window_id = 7, wt_title = ascii ''ox''\<rparr>" "[1, 2]"]
  by (simp add: valid_WindowTitle_def string_ok_def ascii_def)

text \<open>
  A body cut short is never mistaken for a message: decoding any proper prefix of what the
  encoder wrote reports \<open>NotEnoughBytes\<close>.
\<close>

theorem message_truncated:
  assumes "valid_msg m" and "encode_body m = Inr body" and "n < length body"
  shows "\<exists>ctx k r. decode_known (msg_type m) (take n body) = Inl (NotEnoughBytes ctx k r)"
  using assms decode_known_truncated [OF assms(1), of n] by (simp add: encode_body_img)

theorem message_truncated_witness:
  "\<exists>ctx k r. decode_known MT_CLOSE (take 1 [3, 0]) = Inl (NotEnoughBytes ctx k r)"
proof -
  have "encode_body (Close \<lparr>cl_reason = 3\<rparr>) = Inr [3, 0]"
    by (subst encode_body_img) (simp_all add: valid_Close_def img_Close_def le_bytes_def)
  then show ?thesis
    using message_truncated [of "Close \<lparr>cl_reason = 3\<rparr>" "[3, 0]" 1] by (simp add: valid_Close_def)
qed

text \<open>
  C7: The receiver only ever builds valid messages. Whatever bytes arrive, a successful decode
  under type code \<open>ty\<close> gives a message of that type that can be encoded again and read back.
\<close>

theorem decoded_messages_valid:
  assumes "decode_known ty body = Inr (Some m)"
  shows "msg_type m = ty \<and> valid_msg m \<and>
    (\<exists>b. encode_body m = Inr b \<and> decode_known ty b = Inr (Some m))"
  using decode_known_valid [OF assms] encode_body_img [of m] decode_known_img [of m "[]"] by auto

theorem decoded_messages_valid_witness:
  "msg_type (CursorVisibility \<lparr>cv_visible = True\<rparr>) = MT_CURSOR_VISIBILITY \<and>
   valid_msg (CursorVisibility \<lparr>cv_visible = True\<rparr>)"
proof -
  have "decode_known MT_CURSOR_VISIBILITY [9] = Inr (Some (CursorVisibility \<lparr>cv_visible = True\<rparr>))"
    by code_simp
  from decoded_messages_valid [OF this] show ?thesis by blast
qed

text \<open>
  The protocol can grow without a version break: a body is skipped (\<open>Ok(None)\<close>) exactly when
  its type code is not one of the registered ones; a registered code never yields \<open>None\<close>.
\<close>

theorem unknown_types_skipped:
  "decode_known ty body = Inr None \<longleftrightarrow> ty \<notin> known_types"
  by (rule decode_known_unknown)

end
