(* ===== verification/Envelope.thy ===== *)
theory Envelope
  imports Messages
begin

text \<open>
  Chunk framing (\<open>oxproto/src/envelope.rs\<close>): the 8-byte header, fragmentation of a message body
  into chunks, per-channel reassembly, and the limits that bound what an unauthenticated peer can
  make the receiver hold. The specification side is a splitter into pieces and a one-channel
  reassembler without the global budgets; the refinement lemmas relate the code to them.
\<close>

section \<open>Chunk headers\<close>

definition CHUNK_HEADER_LEN :: nat where
  "CHUNK_HEADER_LEN = 8"

definition MAX_CHUNK_PAYLOAD :: nat where
  "MAX_CHUNK_PAYLOAD = 32 * 1024"

definition FRAG_MORE :: u8 where
  "FRAG_MORE = 0x01"

definition KNOWN :: u8 where
  "KNOWN = FRAG_MORE"

record ChunkHeader =
  hd_msg_type :: u8
  hd_flags :: u8
  hd_channel :: u16
  hd_length :: u32

definition has_more :: "ChunkHeader \<Rightarrow> bool" where
  "has_more h \<longleftrightarrow> hd_flags h AND FRAG_MORE \<noteq> 0"

definition size_ChunkHeader :: "ChunkHeader \<Rightarrow> nat" where
  "size_ChunkHeader h = CHUNK_HEADER_LEN"

definition encode_ChunkHeader :: "ChunkHeader \<Rightarrow> encoder" where
  "encode_ChunkHeader h = eseq
    [write_u8 (hd_msg_type h) ''chunk type'',
     write_u8 (hd_flags h) ''chunk flags'',
     write_u16_le (hd_channel h) ''chunk channel'',
     write_u32_le (hd_length h) ''chunk length'']"

definition decode_ChunkHeader :: "ChunkHeader decoder" where
  "decode_ChunkHeader =
     dbind (read_u8 ''chunk type'') (\<lambda>msg_type.
     dbind (read_u8 ''chunk flags'') (\<lambda>flags.
     dbind (read_u16_le ''chunk channel'') (\<lambda>channel.
     dbind (read_u32_le ''chunk length'') (\<lambda>length.
     if MAX_CHUNK_PAYLOAD < unat length
     then dfail (InvalidLength ''oxproto chunk'' ''chunk payload exceeds MAX_CHUNK_PAYLOAD'')
     else dreturn \<lparr>hd_msg_type = msg_type, hd_flags = flags AND KNOWN,
       hd_channel = channel, hd_length = length\<rparr>))))"

definition img_ChunkHeader :: "ChunkHeader \<Rightarrow> u8 list" where
  "img_ChunkHeader h = concat
    [[hd_msg_type h], [hd_flags h], le_bytes 2 (hd_channel h), le_bytes 4 (hd_length h)]"

definition valid_ChunkHeader :: "ChunkHeader \<Rightarrow> bool" where
  "valid_ChunkHeader h \<longleftrightarrow> hd_flags h AND KNOWN = hd_flags h \<and> unat (hd_length h) \<le> MAX_CHUNK_PAYLOAD"

section \<open>Limits\<close>

definition MAX_PENDING_CHANNELS :: nat where
  "MAX_PENDING_CHANNELS = 64"

definition MAX_PENDING_BYTES :: nat where
  "MAX_PENDING_BYTES = 64 * 1024 * 1024"

definition max_message_len :: "u8 \<Rightarrow> nat" where
  "max_message_len ty =
    (if ty = MT_WINDOW_OPENED \<or> ty = MT_WINDOW_TITLE \<or> ty = MT_DISPLAY_LAYOUT \<or> ty = MT_ERROR then 8 * 1024
     else if ty = MT_CURSOR_SHAPE then 256 * 1024
     else if ty = MT_WINDOW_ICON then 1024 * 1024
     else if ty = MT_FRAME_DATA then 32 * (1024 * 1024)
     else 4 * 1024)"

definition check_len :: "u8 \<Rightarrow> nat \<Rightarrow> decode_error + unit" where
  "check_len ty len =
    (if max_message_len ty < len
     then Inl (InvalidLength ''oxproto reassembly'' ''message exceeds the maximum size for its type'')
     else Inr ())"

section \<open>Fragmentation\<close>

text \<open>The loop of \<open>fragment\<close> from a given offset; each round writes one header and one piece.\<close>

function fragment_loop :: "u8 \<Rightarrow> u16 \<Rightarrow> u8 list \<Rightarrow> nat \<Rightarrow> encode_error + u8 list list" where
  "fragment_loop ty ch payload offset =
    (let stop = min (offset + MAX_CHUNK_PAYLOAD) (length payload);
         piece = take (stop - offset) (drop offset payload);
         more = stop < length payload;
         header = \<lparr>hd_msg_type = ty, hd_flags = (if more then FRAG_MORE else 0),
                   hd_channel = ch, hd_length = of_nat (length piece)\<rparr>
     in case eseq [encode_ChunkHeader header, write_slice piece ''chunk payload'']
               (WriteCursor_new (replicate (CHUNK_HEADER_LEN + length piece) 0)) of
          Inl e \<Rightarrow> Inl e
        | Inr c \<Rightarrow>
            (if more then
               (case fragment_loop ty ch payload stop of
                  Inl e \<Rightarrow> Inl e
                | Inr out \<Rightarrow> Inr (wc_buf c # out))
             else Inr [wc_buf c]))"
  by pat_completeness auto
termination
  by (relation "measure (\<lambda>(ty, ch, payload, offset). length payload - offset)")
    (auto simp: MAX_CHUNK_PAYLOAD_def)

declare fragment_loop.simps [simp del]

definition fragment :: "u8 \<Rightarrow> u16 \<Rightarrow> u8 list \<Rightarrow> encode_error + u8 list list" where
  "fragment ty ch payload = fragment_loop ty ch payload 0"

text \<open>\<open>Message::to_chunks\<close>.\<close>

definition to_chunks :: "Message \<Rightarrow> u16 \<Rightarrow> encode_error + u8 list list" where
  "to_chunks m video_channel =
    (case encode_body m of
       Inl e \<Rightarrow> Inl e
     | Inr body \<Rightarrow> fragment (msg_type m) (msg_channel m video_channel) body)"

section \<open>Reassembly\<close>

record pending =
  pd_msg_type :: u8
  pd_buf :: "u8 list"

record raw_message =
  rm_msg_type :: u8
  rm_payload :: "u8 list"

record reassembler =
  ra_pending :: "(u16 \<times> pending) list"
  ra_bytes :: nat

definition Reassembler_new :: reassembler where
  "Reassembler_new = \<lparr>ra_pending = [], ra_bytes = 0\<rparr>"

definition pending_channels :: "reassembler \<Rightarrow> nat" where
  "pending_channels r = length (ra_pending r)"

text \<open>
  \<open>Reassembler::push\<close>. The result is paired with the state it leaves behind, because the error
  branches change the state too. \<open>entry\<close> is the value behind \<open>entry(..).or_insert_with(..)\<close>.
\<close>

definition push :: "reassembler \<Rightarrow> ChunkHeader \<Rightarrow> u8 list \<Rightarrow>
    (decode_error + raw_message option) \<times> reassembler" where
  "push r h payload =
    (let ch = hd_channel h; ty = hd_msg_type h; slot = map_of (ra_pending r) ch in
     if length payload \<noteq> unat (hd_length h)
     then (Inl (InvalidLength ''oxproto reassembly'' ''payload length does not match the chunk header''), r)
     else if \<not> has_more h \<and> slot = None then
       (case check_len ty (length payload) of
          Inl e \<Rightarrow> (Inl e, r)
        | Inr _ \<Rightarrow> (Inr (Some \<lparr>rm_msg_type = ty, rm_payload = payload\<rparr>), r))
     else if slot = None \<and> MAX_PENDING_CHANNELS \<le> length (ra_pending r)
     then (Inl (InvalidLength ''oxproto reassembly'' ''too many channels with a partially reassembled message''), r)
     else if MAX_PENDING_BYTES < ra_bytes r + length payload
     then (Inl (InvalidLength ''oxproto reassembly'' ''total buffered reassembly bytes exceeded''), r)
     else
       let entry = (case slot of Some p \<Rightarrow> p | None \<Rightarrow> \<lparr>pd_msg_type = ty, pd_buf = []\<rparr>);
           inserted = AList.update ch entry (ra_pending r);
           dropped = \<lparr>ra_pending = AList.delete ch inserted,
                      ra_bytes = ra_bytes r - length (pd_buf entry)\<rparr>
       in
       if pd_msg_type entry \<noteq> ty
       then (Inl (InvalidField ''oxproto reassembly'' ''type''
               ''chunk type differs from the message in flight on this channel''), dropped)
       else (case check_len ty (length (pd_buf entry) + length payload) of
          Inl e \<Rightarrow> (Inl e, dropped)
        | Inr _ \<Rightarrow>
            (let buf = pd_buf entry @ payload; bytes = ra_bytes r + length payload in
             if has_more h
             then (Inr None, \<lparr>ra_pending = AList.update ch (entry\<lparr>pd_buf := buf\<rparr>) inserted, ra_bytes = bytes\<rparr>)
             else (Inr (Some \<lparr>rm_msg_type = pd_msg_type entry, rm_payload = buf\<rparr>),
                   \<lparr>ra_pending = AList.delete ch inserted, ra_bytes = bytes - length buf\<rparr>))))"

section \<open>Header facts\<close>

interpretation ChunkHeader_codec: closed_wire_codec
  size_ChunkHeader encode_ChunkHeader decode_ChunkHeader img_ChunkHeader valid_ChunkHeader
proof unfold_locales
  show "yields decode_ChunkHeader valid_ChunkHeader"
    unfolding decode_ChunkHeader_def
    by (rule yields_bind_any yields_intros | simp add: valid_ChunkHeader_def not_less and.assoc)+
qed (unfold size_ChunkHeader_def encode_ChunkHeader_def decode_ChunkHeader_def img_ChunkHeader_def
    valid_ChunkHeader_def,
    (rule codec_steps | simp add: codec_size CHUNK_HEADER_LEN_def not_less)+)

section \<open>Splitting a body into pieces\<close>

text \<open>The specification of fragmentation: full pieces, then a final one that may be shorter.\<close>

function split_pieces :: "u8 list \<Rightarrow> u8 list list" where
  "split_pieces p =
    (if length p \<le> MAX_CHUNK_PAYLOAD then [p]
     else take MAX_CHUNK_PAYLOAD p # split_pieces (drop MAX_CHUNK_PAYLOAD p))"
  by pat_completeness auto
termination
  by (relation "measure length") (auto simp: MAX_CHUNK_PAYLOAD_def)

declare split_pieces.simps [simp del]

definition chunk_header :: "u8 \<Rightarrow> u16 \<Rightarrow> bool \<Rightarrow> u8 list \<Rightarrow> ChunkHeader" where
  "chunk_header ty ch cont piece =
     \<lparr>hd_msg_type = ty, hd_flags = (if cont then FRAG_MORE else 0), hd_channel = ch,
      hd_length = of_nat (length piece)\<rparr>"

definition chunk_wire :: "ChunkHeader \<times> u8 list \<Rightarrow> u8 list" where
  "chunk_wire c = img_ChunkHeader (fst c) @ snd c"

fun label_pieces :: "u8 \<Rightarrow> u16 \<Rightarrow> u8 list list \<Rightarrow> (ChunkHeader \<times> u8 list) list" where
  "label_pieces ty ch [] = []"
| "label_pieces ty ch [p] = [(chunk_header ty ch False p, p)]"
| "label_pieces ty ch (p # ps) = (chunk_header ty ch True p, p) # label_pieces ty ch ps"

definition message_chunks :: "u8 \<Rightarrow> u16 \<Rightarrow> u8 list \<Rightarrow> (ChunkHeader \<times> u8 list) list" where
  "message_chunks ty ch body = label_pieces ty ch (split_pieces body)"

text \<open>A chunk as the receiver sees it: a well-formed header that announces its payload exactly.\<close>

definition chunk_ok :: "ChunkHeader \<times> u8 list \<Rightarrow> bool" where
  "chunk_ok c \<longleftrightarrow> valid_ChunkHeader (fst c) \<and> length (snd c) = unat (hd_length (fst c))"

lemma split_pieces_not_Nil [simp]: "split_pieces p \<noteq> []"
  by (subst split_pieces.simps) simp

lemma split_pieces_small: "length p \<le> MAX_CHUNK_PAYLOAD \<Longrightarrow> split_pieces p = [p]"
  by (subst split_pieces.simps) simp

lemma split_pieces_big: "MAX_CHUNK_PAYLOAD < length p \<Longrightarrow>
  split_pieces p = take MAX_CHUNK_PAYLOAD p # split_pieces (drop MAX_CHUNK_PAYLOAD p)"
  by (subst split_pieces.simps) simp

lemma concat_split_pieces: "concat (split_pieces p) = p"
proof (induction p rule: split_pieces.induct)
  case (1 p)
  then show ?case
    by (cases "length p \<le> MAX_CHUNK_PAYLOAD") (simp_all add: split_pieces_small split_pieces_big)
qed

lemma split_pieces_bound: "q \<in> set (split_pieces p) \<Longrightarrow> length q \<le> MAX_CHUNK_PAYLOAD"
proof (induction p rule: split_pieces.induct)
  case (1 p)
  then show ?case
    by (cases "length p \<le> MAX_CHUNK_PAYLOAD") (auto simp: split_pieces_small split_pieces_big)
qed

lemma length_split_pieces:
  "length (split_pieces p) = max 1 ((length p + MAX_CHUNK_PAYLOAD - 1) div MAX_CHUNK_PAYLOAD)"
proof (induction p rule: split_pieces.induct)
  case (1 p)
  show ?case
  proof (cases "length p \<le> MAX_CHUNK_PAYLOAD")
    case True
    then show ?thesis
      by (cases "length p = 0")
        (auto simp: split_pieces_small MAX_CHUNK_PAYLOAD_def max_def)
  next
    case False
    with 1 show ?thesis
      by (simp add: split_pieces_big MAX_CHUNK_PAYLOAD_def max_def) arith
  qed
qed

lemma chunk_header_simps [simp]:
  "hd_msg_type (chunk_header ty ch cont p) = ty"
  "hd_channel (chunk_header ty ch cont p) = ch"
  "has_more (chunk_header ty ch cont p) = cont"
  by (simp_all add: chunk_header_def has_more_def FRAG_MORE_def)

lemma chunk_header_ok:
  "length p \<le> MAX_CHUNK_PAYLOAD \<Longrightarrow> chunk_ok (chunk_header ty ch cont p, p)"
  by (simp add: chunk_ok_def valid_ChunkHeader_def chunk_header_def KNOWN_def FRAG_MORE_def
      MAX_CHUNK_PAYLOAD_def unat_of_nat)

lemma label_pieces_ok:
  "(\<And>p. p \<in> set ps \<Longrightarrow> length p \<le> MAX_CHUNK_PAYLOAD) \<Longrightarrow> c \<in> set (label_pieces ty ch ps) \<Longrightarrow> chunk_ok c"
  by (induction ty ch ps rule: label_pieces.induct) (auto simp: chunk_header_ok)

lemma message_chunks_ok: "c \<in> set (message_chunks ty ch body) \<Longrightarrow> chunk_ok c"
  unfolding message_chunks_def by (rule label_pieces_ok [OF split_pieces_bound])

lemma length_label_pieces [simp]: "length (label_pieces ty ch ps) = length ps"
  by (induction ty ch ps rule: label_pieces.induct) auto

lemma map_snd_label_pieces [simp]: "map snd (label_pieces ty ch ps) = ps"
  by (induction ty ch ps rule: label_pieces.induct) auto

subsection \<open>The code implements the splitter\<close>

lemma write_chunk:
  assumes "chunk_ok (h, p)"
  shows "eseq [encode_ChunkHeader h, write_slice p ctx] (WriteCursor_new (replicate (CHUNK_HEADER_LEN + length p) 0))
    = Inr (wc_at (chunk_wire (h, p)) [])"
proof -
  have "emits (eseq [encode_ChunkHeader h, write_slice p ctx]) (concat [img_ChunkHeader h, p])"
    using assms
    by (intro writes_intros ChunkHeader_codec.enc_emits) (simp add: chunk_ok_def)
  then have "eseq [encode_ChunkHeader h, write_slice p ctx]
      (wc_at [] (replicate (CHUNK_HEADER_LEN + length p) 0 @ []))
    = Inr (wc_at ([] @ concat [img_ChunkHeader h, p]) [])"
    using assms ChunkHeader_codec.img_size [of h]
    by (intro emitsD) (simp_all add: chunk_ok_def size_ChunkHeader_def)
  then show ?thesis by (simp add: WriteCursor_new_at chunk_wire_def)
qed

lemma fragment_loop_pieces:
  "offset \<le> length payload \<Longrightarrow>
   fragment_loop ty ch payload offset
     = Inr (map chunk_wire (label_pieces ty ch (split_pieces (drop offset payload))))"
proof (induction ty ch payload offset rule: fragment_loop.induct)
  case (1 ty ch payload offset)
  define rest where "rest = drop offset payload"
  show ?case
  proof (cases "length rest \<le> MAX_CHUNK_PAYLOAD")
    case True
    with "1.prems" have stop: "min (offset + MAX_CHUNK_PAYLOAD) (length payload) = length payload"
      by (simp add: rest_def)
    have piece: "take (length payload - offset) (drop offset payload) = rest"
      by (simp add: rest_def)
    from True have ok: "chunk_ok (chunk_header ty ch False rest, rest)"
      by (rule chunk_header_ok)
    show ?thesis
      unfolding fragment_loop.simps [of ty ch payload offset] Let_def stop piece
      using write_chunk [OF ok] split_pieces_small [OF True]
      by (simp add: chunk_header_def rest_def [symmetric])
  next
    case False
    define piece where "piece = take MAX_CHUNK_PAYLOAD rest"
    from False "1.prems" have stop: "min (offset + MAX_CHUNK_PAYLOAD) (length payload) = offset + MAX_CHUNK_PAYLOAD"
      "offset + MAX_CHUNK_PAYLOAD < length payload"
      by (simp_all add: rest_def)
    have piece: "take (offset + MAX_CHUNK_PAYLOAD - offset) (drop offset payload) = piece"
      by (simp add: piece_def rest_def)
    have ok: "chunk_ok (chunk_header ty ch True piece, piece)"
      by (rule chunk_header_ok) (simp add: piece_def)
    have len: "length piece = MAX_CHUNK_PAYLOAD"
      using False by (simp add: piece_def)
    have IH: "fragment_loop ty ch payload (offset + MAX_CHUNK_PAYLOAD)
      = Inr (map chunk_wire (label_pieces ty ch (split_pieces (drop MAX_CHUNK_PAYLOAD rest))))"
      using "1.IH" [OF refl refl refl refl] stop
        write_chunk [OF ok, of "''chunk payload''", unfolded chunk_header_def len]
      by (simp add: piece_def rest_def ac_simps)
    obtain q qs where "split_pieces (drop MAX_CHUNK_PAYLOAD rest) = q # qs"
      by (cases "split_pieces (drop MAX_CHUNK_PAYLOAD rest)") auto
    with False stop IH write_chunk [OF ok] show ?thesis
      unfolding fragment_loop.simps [of ty ch payload offset]
      by (simp add: rest_def [symmetric] piece_def [symmetric] split_pieces_big chunk_header_def Let_def len)
  qed
qed

lemma fragment_pieces: "fragment ty ch body = Inr (map chunk_wire (message_chunks ty ch body))"
  by (simp add: fragment_def fragment_loop_pieces message_chunks_def)

section \<open>Reassembly invariant\<close>

definition pending_ok :: "pending \<Rightarrow> bool" where
  "pending_ok p \<longleftrightarrow> length (pd_buf p) \<le> max_message_len (pd_msg_type p)"

definition ra_inv :: "reassembler \<Rightarrow> bool" where
  "ra_inv r \<longleftrightarrow>
     hm_ok (ra_pending r) \<and>
     ra_bytes r = hm_sum (length \<circ> pd_buf) (ra_pending r) \<and>
     length (ra_pending r) \<le> MAX_PENDING_CHANNELS \<and>
     ra_bytes r \<le> MAX_PENDING_BYTES \<and>
     (\<forall>ch p. map_of (ra_pending r) ch = Some p \<longrightarrow> pending_ok p)"

text \<open>
  The specification of one channel: the message in flight on it, if any, and what a chunk does
  to it. No other channel and no global budget appears here.
\<close>

definition chan_push :: "pending option \<Rightarrow> ChunkHeader \<Rightarrow> u8 list \<Rightarrow>
    (decode_error + raw_message option) \<times> pending option" where
  "chan_push slot h payload =
    (let ty = hd_msg_type h; buf = (case slot of None \<Rightarrow> [] | Some p \<Rightarrow> pd_buf p) @ payload in
     if length payload \<noteq> unat (hd_length h)
     then (Inl (InvalidLength ''oxproto reassembly'' ''payload length does not match the chunk header''), slot)
     else if \<exists>p. slot = Some p \<and> pd_msg_type p \<noteq> ty
     then (Inl (InvalidField ''oxproto reassembly'' ''type''
             ''chunk type differs from the message in flight on this channel''), None)
     else (case check_len ty (length buf) of
         Inl e \<Rightarrow> (Inl e, None)
       | Inr _ \<Rightarrow> if has_more h then (Inr None, Some \<lparr>pd_msg_type = ty, pd_buf = buf\<rparr>)
                  else (Inr (Some \<lparr>rm_msg_type = ty, rm_payload = buf\<rparr>), None)))"

text \<open>A chunk refused by one of the two global budgets.\<close>

definition over_budget :: "reassembler \<Rightarrow> ChunkHeader \<Rightarrow> u8 list \<Rightarrow> bool" where
  "over_budget r h payload \<longleftrightarrow>
     length payload = unat (hd_length h) \<and>
     (has_more h \<or> map_of (ra_pending r) (hd_channel h) \<noteq> None) \<and>
     (map_of (ra_pending r) (hd_channel h) = None \<and> MAX_PENDING_CHANNELS \<le> length (ra_pending r)
      \<or> MAX_PENDING_BYTES < ra_bytes r + length payload)"

lemma check_len_Inr: "check_len ty n = Inr u \<longleftrightarrow> n \<le> max_message_len ty"
  by (cases u) (auto simp: check_len_def)

lemma check_len_Inl:
  "check_len ty n = Inl e \<longleftrightarrow> max_message_len ty < n \<and>
     e = InvalidLength ''oxproto reassembly'' ''message exceeds the maximum size for its type''"
  by (auto simp: check_len_def)

lemma push_over_budget:
  assumes "over_budget r h payload"
  shows "\<exists>why. push r h payload = (Inl (InvalidLength ''oxproto reassembly'' why), r)"
  using assms by (auto simp: over_budget_def push_def Let_def)

text \<open>
  Within the budgets, \<open>push\<close> does to the chunk's own channel exactly what the one-channel
  specification does, and nothing to any other channel.
\<close>

lemma push_chan:
  assumes "\<not> over_budget r h payload"
  shows "fst (push r h payload) = fst (chan_push (map_of (ra_pending r) (hd_channel h)) h payload)"
    and "map_of (ra_pending (snd (push r h payload)))
      = (map_of (ra_pending r)) (hd_channel h :=
           snd (chan_push (map_of (ra_pending r) (hd_channel h)) h payload))"
proof -
  show "fst (push r h payload) = fst (chan_push (map_of (ra_pending r) (hd_channel h)) h payload)"
    using assms
    by (cases "map_of (ra_pending r) (hd_channel h)")
      (auto simp: push_def chan_push_def Let_def over_budget_def split: sum.splits)
  show "map_of (ra_pending (snd (push r h payload)))
      = (map_of (ra_pending r)) (hd_channel h :=
           snd (chan_push (map_of (ra_pending r) (hd_channel h)) h payload))"
    using assms
    by (cases "map_of (ra_pending r) (hd_channel h)")
      (auto simp: push_def chan_push_def Let_def over_budget_def fun_eq_iff map_of_update map_of_delete
        split: sum.splits)
qed

subsection \<open>Every chunk keeps the invariant\<close>

lemma ra_inv_drop:
  assumes "ra_inv r"
  shows "ra_inv \<lparr>ra_pending = AList.delete ch (ra_pending r),
    ra_bytes = ra_bytes r - (case map_of (ra_pending r) ch of None \<Rightarrow> 0 | Some p \<Rightarrow> length (pd_buf p))\<rparr>"
proof (cases "map_of (ra_pending r) ch")
  case None
  with assms show ?thesis by (simp add: hm_delete_fresh ra_inv_def)
next
  case (Some p)
  with assms hm_sum_delete [of "ra_pending r" ch p "length \<circ> pd_buf"] hm.len_del [of "ra_pending r" ch p]
  show ?thesis
    by (auto simp: ra_inv_def hm.invar_del map_of_delete split: if_splits)
qed

lemma ra_inv_store:
  assumes inv: "ra_inv r" and ok: "pending_ok p"
    and bytes: "b + (case map_of (ra_pending r) ch of None \<Rightarrow> 0 | Some q \<Rightarrow> length (pd_buf q))
      = ra_bytes r + length (pd_buf p)"
    and room: "map_of (ra_pending r) ch \<noteq> None \<or> length (ra_pending r) < MAX_PENDING_CHANNELS"
    and cap: "b \<le> MAX_PENDING_BYTES"
  shows "ra_inv \<lparr>ra_pending = AList.update ch p (ra_pending r), ra_bytes = b\<rparr>"
proof (cases "map_of (ra_pending r) ch")
  case None
  with assms hm_sum_update_new [of "ra_pending r" ch "length \<circ> pd_buf" p]
    hm.len_ins_new [of "ra_pending r" ch p]
  show ?thesis
    by (auto simp: ra_inv_def hm.invar_ins map_of_update split: if_splits)
next
  case (Some q)
  with assms hm_sum_update_old [of "ra_pending r" ch q "length \<circ> pd_buf" p]
    hm.len_ins_old [of "ra_pending r" ch q p]
  show ?thesis
    by (auto simp: ra_inv_def hm.invar_ins map_of_update split: if_splits)
qed

definition ra_dropped :: "reassembler \<Rightarrow> u16 \<Rightarrow> reassembler" where
  "ra_dropped r ch = \<lparr>ra_pending = AList.delete ch (ra_pending r),
     ra_bytes = ra_bytes r - (case map_of (ra_pending r) ch of None \<Rightarrow> 0 | Some p \<Rightarrow> length (pd_buf p))\<rparr>"

definition ra_stored :: "reassembler \<Rightarrow> ChunkHeader \<Rightarrow> u8 list \<Rightarrow> reassembler" where
  "ra_stored r h payload = \<lparr>ra_pending = AList.update (hd_channel h)
       \<lparr>pd_msg_type = hd_msg_type h,
        pd_buf = (case map_of (ra_pending r) (hd_channel h) of None \<Rightarrow> [] | Some p \<Rightarrow> pd_buf p) @ payload\<rparr>
       (ra_pending r),
     ra_bytes = ra_bytes r + length payload\<rparr>"

lemma push_within:
  assumes "\<not> over_budget r h payload"
  shows "snd (push r h payload) =
    (case chan_push (map_of (ra_pending r) (hd_channel h)) h payload of
       (_, None) \<Rightarrow> (if length payload \<noteq> unat (hd_length h) then r else ra_dropped r (hd_channel h))
     | (_, Some p) \<Rightarrow> (if length payload \<noteq> unat (hd_length h) then r else ra_stored r h payload))"
proof (cases "map_of (ra_pending r) (hd_channel h)")
  case None
  with assms show ?thesis
    by (auto simp: push_def chan_push_def Let_def over_budget_def check_len_def ra_dropped_def ra_stored_def
        hm_delete_fresh)
next
  case (Some p)
  with assms show ?thesis
    by (cases p)
      (auto simp: push_def chan_push_def Let_def over_budget_def check_len_def ra_dropped_def ra_stored_def)
qed

lemma push_inv:
  assumes inv: "ra_inv r"
  shows "ra_inv (snd (push r h payload))"
proof (cases "over_budget r h payload")
  case True
  with inv push_over_budget show ?thesis by fastforce
next
  case False
  let ?slot = "map_of (ra_pending r) (hd_channel h)"
  have "ra_inv (ra_stored r h payload)"
    if "chan_push ?slot h payload = (res, Some p)" "length payload = unat (hd_length h)" for res p
    unfolding ra_stored_def
    using that False inv
    by (intro ra_inv_store)
      (auto simp: pending_ok_def chan_push_def over_budget_def Let_def check_len_def
        split: option.splits if_splits)
  with inv show ?thesis
    by (auto simp: push_within [OF False] ra_dropped_def ra_inv_drop split: prod.splits option.splits)
qed

lemma ra_inv_new: "ra_inv Reassembler_new"
  by (simp add: ra_inv_def Reassembler_new_def hm.invar_empty)

section \<open>Chunk sequences\<close>

text \<open>
  A receiver feeding chunks to \<open>push\<close> in arrival order stops at the first error. The delivered
  messages are tagged with the channel they arrived on.
\<close>

fun push_all :: "reassembler \<Rightarrow> (ChunkHeader \<times> u8 list) list \<Rightarrow>
    decode_error + (u16 \<times> raw_message) list \<times> reassembler" where
  "push_all r [] = Inr ([], r)"
| "push_all r ((h, p) # cs) =
    (case push r h p of
       (Inl e, _) \<Rightarrow> Inl e
     | (Inr out, r') \<Rightarrow>
         (case push_all r' cs of
            Inl e \<Rightarrow> Inl e
          | Inr (ms, r'') \<Rightarrow> Inr ((case out of None \<Rightarrow> [] | Some m \<Rightarrow> [(hd_channel h, m)]) @ ms, r'')))"

fun chan_push_all :: "pending option \<Rightarrow> (ChunkHeader \<times> u8 list) list \<Rightarrow>
    decode_error + raw_message list \<times> pending option" where
  "chan_push_all s [] = Inr ([], s)"
| "chan_push_all s ((h, p) # cs) =
    (case chan_push s h p of
       (Inl e, _) \<Rightarrow> Inl e
     | (Inr out, s') \<Rightarrow>
         (case chan_push_all s' cs of
            Inl e \<Rightarrow> Inl e
          | Inr (ms, s'') \<Rightarrow> Inr ((case out of None \<Rightarrow> [] | Some m \<Rightarrow> [m]) @ ms, s'')))"

abbreviation on_channel :: "u16 \<Rightarrow> (ChunkHeader \<times> u8 list) list \<Rightarrow> (ChunkHeader \<times> u8 list) list" where
  "on_channel ch cs \<equiv> filter (\<lambda>c. hd_channel (fst c) = ch) cs"

lemma push_Inr_within: "push r h p = (Inr out, r') \<Longrightarrow> \<not> over_budget r h p"
  using push_over_budget [of r h p] by auto

lemma push_all_inv: "ra_inv r \<Longrightarrow> push_all r cs = Inr (ms, r') \<Longrightarrow> ra_inv r'"
proof (induction r cs arbitrary: ms r' rule: push_all.induct)
  case (2 r h p cs)
  then show ?case
    using push_inv [of r h p] by (auto split: prod.splits sum.splits)
qed simp

lemma push_all_channel:
  "push_all r cs = Inr (ms, r') \<Longrightarrow>
   chan_push_all (map_of (ra_pending r) ch) (on_channel ch cs)
     = Inr (map snd (filter (\<lambda>m. fst m = ch) ms), map_of (ra_pending r') ch)"
proof (induction r cs arbitrary: ms r' rule: push_all.induct)
  case (2 r h p cs)
  from "2.prems" obtain out r1 ms1 where push: "push r h p = (Inr out, r1)"
    and rest: "push_all r1 cs = Inr (ms1, r')"
    and ms: "ms = (case out of None \<Rightarrow> [] | Some m \<Rightarrow> [(hd_channel h, m)]) @ ms1"
    by (auto split: prod.splits sum.splits)
  from push have within: "\<not> over_budget r h p" by (rule push_Inr_within)
  from rest have IH: "chan_push_all (map_of (ra_pending r1) ch) (on_channel ch cs)
      = Inr (map snd (filter (\<lambda>m. fst m = ch) ms1), map_of (ra_pending r') ch)"
    using "2.IH" [OF push [symmetric] refl] by simp
  have r1: "map_of (ra_pending r1) = (map_of (ra_pending r)) (hd_channel h :=
      snd (chan_push (map_of (ra_pending r) (hd_channel h)) h p))"
    and out: "fst (chan_push (map_of (ra_pending r) (hd_channel h)) h p) = Inr out"
    using push_chan [OF within] push by simp_all
  show ?case
  proof (cases "hd_channel h = ch")
    case True
    with r1 out IH ms show ?thesis
      by (cases "chan_push (map_of (ra_pending r) ch) h p") (auto split: option.splits)
  next
    case False
    with r1 IH ms show ?thesis by (auto split: option.splits)
  qed
qed simp

subsection \<open>Enough budget\<close>

definition payload_total :: "(ChunkHeader \<times> u8 list) list \<Rightarrow> nat" where
  "payload_total cs = sum_list (map (length \<circ> snd) cs)"

definition channels_used :: "reassembler \<Rightarrow> (ChunkHeader \<times> u8 list) list \<Rightarrow> u16 set" where
  "channels_used r cs = dom (map_of (ra_pending r)) \<union> (hd_channel \<circ> fst) ` set cs"

lemma push_bytes: "push r h p = (res, r') \<Longrightarrow> ra_bytes r' \<le> ra_bytes r + length p"
proof (cases "over_budget r h p")
  case True
  assume "push r h p = (res, r')"
  with push_over_budget [OF True] show ?thesis by auto
next
  case False
  assume "push r h p = (res, r')"
  then have "r' = snd (push r h p)" by simp
  also note push_within [OF False]
  finally show ?thesis
    by (auto simp: ra_dropped_def ra_stored_def split: prod.splits option.splits if_splits)
qed

lemma push_all_total:
  assumes "ra_inv r"
    and "card (channels_used r cs) \<le> MAX_PENDING_CHANNELS"
    and "ra_bytes r + payload_total cs \<le> MAX_PENDING_BYTES"
    and "\<And>ch. \<exists>out. chan_push_all (map_of (ra_pending r) ch) (on_channel ch cs) = Inr out"
  shows "\<exists>out. push_all r cs = Inr out"
  using assms
proof (induction cs arbitrary: r)
  case (Cons c cs)
  obtain h p where c: "c = (h, p)" by force
  let ?ch = "hd_channel h"
  have fin: "finite (channels_used r (c # cs))"
    by (simp add: channels_used_def finite_dom_map_of)
  have "length (ra_pending r) < MAX_PENDING_CHANNELS" if "map_of (ra_pending r) ?ch = None"
  proof -
    have "insert ?ch (dom (map_of (ra_pending r))) \<subseteq> channels_used r (c # cs)"
      by (auto simp: channels_used_def c)
    then have "card (insert ?ch (dom (map_of (ra_pending r)))) \<le> MAX_PENDING_CHANNELS"
      using Cons.prems(2) card_mono [OF fin] by (meson le_trans)
    moreover have "card (insert ?ch (dom (map_of (ra_pending r)))) = Suc (length (ra_pending r))"
      using that Cons.prems(1) hm.len_card [of "ra_pending r"]
      by (simp add: ra_inv_def finite_dom_map_of domIff)
    ultimately show ?thesis by simp
  qed
  with Cons.prems(3) have within: "\<not> over_budget r h p"
    by (auto simp: over_budget_def payload_total_def c)
  obtain r1 where r1: "push r h p = (fst (push r h p), r1)" by (cases "push r h p") auto
  have view: "map_of (ra_pending r1) = (map_of (ra_pending r)) (?ch :=
      snd (chan_push (map_of (ra_pending r) ?ch) h p))"
    and res: "fst (push r h p) = fst (chan_push (map_of (ra_pending r) ?ch) h p)"
    using push_chan [OF within] r1 by (metis snd_conv)+
  obtain out s1 where step: "chan_push (map_of (ra_pending r) ?ch) h p = (Inr out, s1)"
    using Cons.prems(4) [of ?ch]
    by (cases "chan_push (map_of (ra_pending r) ?ch) h p") (auto simp: c split: sum.splits)
  have "\<exists>out. push_all r1 cs = Inr out"
  proof (rule Cons.IH)
    show "ra_inv r1" using push_inv [OF Cons.prems(1), of h p] r1 by (metis snd_conv)
    have "channels_used r1 cs \<subseteq> channels_used r (c # cs)"
      by (auto simp: channels_used_def view c split: if_splits)
    then show "card (channels_used r1 cs) \<le> MAX_PENDING_CHANNELS"
      using Cons.prems(2) card_mono [OF fin] by (meson le_trans)
    show "ra_bytes r1 + payload_total cs \<le> MAX_PENDING_BYTES"
      using push_bytes [OF r1] Cons.prems(3) by (simp add: payload_total_def c)
    show "\<exists>out. chan_push_all (map_of (ra_pending r1) ch) (on_channel ch cs) = Inr out" for ch
      using Cons.prems(4) [of ch] step
      by (cases "ch = ?ch") (auto simp: c view split: sum.splits prod.splits)
  qed
  then obtain ms r2 where "push_all r1 cs = Inr (ms, r2)" by auto
  with r1 res step show ?case
    by (cases "push r h p") (auto simp: c)
qed simp

section \<open>A message through its own chunks\<close>

definition slot_holds :: "pending option \<Rightarrow> u8 \<Rightarrow> u8 list \<Rightarrow> bool" where
  "slot_holds s ty acc \<longleftrightarrow> (s = None \<and> acc = []) \<or> s = Some \<lparr>pd_msg_type = ty, pd_buf = acc\<rparr>"

lemma chan_push_piece:
  assumes "slot_holds s ty acc" and "length p \<le> MAX_CHUNK_PAYLOAD"
    and "length acc + length p \<le> max_message_len ty"
  shows "chan_push s (chunk_header ty ch cont p) p =
    (if cont then (Inr None, Some \<lparr>pd_msg_type = ty, pd_buf = acc @ p\<rparr>)
     else (Inr (Some \<lparr>rm_msg_type = ty, rm_payload = acc @ p\<rparr>), None))"
proof -
  have "unat (hd_length (chunk_header ty ch cont p)) = length p"
    using chunk_header_ok [OF assms(2)] by (simp add: chunk_ok_def)
  moreover have "(case s of None \<Rightarrow> [] | Some p \<Rightarrow> pd_buf p) = acc"
    using assms(1) by (auto simp: slot_holds_def)
  moreover have "\<not> (\<exists>p. s = Some p \<and> pd_msg_type p \<noteq> ty)"
    using assms(1) by (auto simp: slot_holds_def)
  ultimately show ?thesis
    using assms(3) unfolding chan_push_def Let_def by (simp add: check_len_def)
qed

lemma chan_push_pieces:
  "slot_holds s ty acc \<Longrightarrow> ps \<noteq> [] \<Longrightarrow> (\<And>p. p \<in> set ps \<Longrightarrow> length p \<le> MAX_CHUNK_PAYLOAD) \<Longrightarrow>
   length (acc @ concat ps) \<le> max_message_len ty \<Longrightarrow>
   chan_push_all s (label_pieces ty ch ps @ cs) =
     (case chan_push_all None cs of
        Inl e \<Rightarrow> Inl e
      | Inr (ms, s') \<Rightarrow> Inr (\<lparr>rm_msg_type = ty, rm_payload = acc @ concat ps\<rparr> # ms, s'))"
proof (induction ty ch ps arbitrary: s acc rule: label_pieces.induct)
  case (2 ty ch p)
  then show ?case by (auto simp: chan_push_piece split: sum.splits)
next
  case (3 ty ch p q ps)
  have "slot_holds (Some \<lparr>pd_msg_type = ty, pd_buf = acc @ p\<rparr>) ty (acc @ p)"
    by (simp add: slot_holds_def)
  from "3.IH" [OF this] "3.prems" show ?case
    by (auto simp: chan_push_piece split: sum.splits)
qed simp

lemma chan_push_message:
  assumes "length body \<le> max_message_len ty"
  shows "chan_push_all None (message_chunks ty ch body @ cs) =
    (case chan_push_all None cs of
       Inl e \<Rightarrow> Inl e
     | Inr (ms, s') \<Rightarrow> Inr (\<lparr>rm_msg_type = ty, rm_payload = body\<rparr> # ms, s'))"
  using assms chan_push_pieces [of None ty "[]" "split_pieces body" ch cs, unfolded append_Nil concat_split_pieces]
  by (simp add: message_chunks_def slot_holds_def split_pieces_bound)

lemma chan_push_messages:
  "(\<And>m. m \<in> set ms \<Longrightarrow> length (rm_payload m) \<le> max_message_len (rm_msg_type m)) \<Longrightarrow>
   chan_push_all None (concat (map (\<lambda>m. message_chunks (rm_msg_type m) ch (rm_payload m)) ms)) = Inr (ms, None)"
  by (induction ms) (simp_all add: chan_push_message)

section \<open>Delivery\<close>

lemma push_all_append:
  "push_all r (cs @ ds) =
    (case push_all r cs of
       Inl e \<Rightarrow> Inl e
     | Inr (ms, r') \<Rightarrow>
         (case push_all r' ds of Inl e \<Rightarrow> Inl e | Inr (ms', r'') \<Rightarrow> Inr (ms @ ms', r'')))"
  by (induction r cs rule: push_all.induct) (auto split: prod.splits sum.splits)

lemma label_pieces_channel: "c \<in> set (label_pieces ty ch ps) \<Longrightarrow> hd_channel (fst c) = ch"
  by (induction ty ch ps rule: label_pieces.induct) auto

lemma on_channel_message [simp]:
  "on_channel ch' (message_chunks ty ch body) = (if ch' = ch then message_chunks ty ch body else [])"
  unfolding message_chunks_def
  by (auto simp: filter_empty_conv filter_id_conv dest: label_pieces_channel)

lemma payload_total_append [simp]: "payload_total (cs @ ds) = payload_total cs + payload_total ds"
  by (simp add: payload_total_def)

lemma payload_total_message [simp]: "payload_total (message_chunks ty ch body) = length body"
proof -
  have "payload_total (label_pieces ty ch ps) = length (concat ps)" for ps
    by (induction ty ch ps rule: label_pieces.induct) (auto simp: payload_total_def)
  then show ?thesis by (simp add: message_chunks_def concat_split_pieces)
qed

text \<open>A state with nothing in flight is the initial one: the byte count follows the buffers.\<close>

lemma ra_inv_idle: "ra_inv r \<Longrightarrow> map_of (ra_pending r) = Map.empty \<Longrightarrow> r = Reassembler_new"
  by (simp add: ra_inv_def Reassembler_new_def hm_sum_def)

lemma max_message_len_bound: "max_message_len ty \<le> 32 * (1024 * 1024)"
  by (simp add: max_message_len_def)

definition message_fits :: "u8 \<times> u16 \<times> u8 list \<Rightarrow> bool" where
  "message_fits m = (case m of (ty, _, body) \<Rightarrow> length body \<le> max_message_len ty)"

definition tagged :: "u8 \<times> u16 \<times> u8 list \<Rightarrow> u16 \<times> raw_message" where
  "tagged m = (case m of (ty, ch, body) \<Rightarrow> (ch, \<lparr>rm_msg_type = ty, rm_payload = body\<rparr>))"

abbreviation chunks_of :: "u8 \<times> u16 \<times> u8 list \<Rightarrow> (ChunkHeader \<times> u8 list) list" where
  "chunks_of m \<equiv> (case m of (ty, ch, body) \<Rightarrow> message_chunks ty ch body)"

lemma chan_push_message_only:
  "length body \<le> max_message_len ty \<Longrightarrow>
   chan_push_all None (message_chunks ty ch body) = Inr ([\<lparr>rm_msg_type = ty, rm_payload = body\<rparr>], None)"
  using chan_push_message [of body ty ch "[]"] by simp

lemma push_all_message:
  assumes "message_fits m"
  shows "push_all Reassembler_new (chunks_of m) = Inr ([tagged m], Reassembler_new)"
proof -
  obtain ty ch body where m: "m = (ty, ch, body)" by (cases m)
  with assms have len: "length body \<le> max_message_len ty" by (simp add: message_fits_def)
  have one: "chan_push_all None (on_channel c (message_chunks ty ch body))
      = Inr (if c = ch then [\<lparr>rm_msg_type = ty, rm_payload = body\<rparr>] else [], None)" for c
    using len by (simp add: chan_push_message_only)
  have "card (channels_used Reassembler_new (message_chunks ty ch body)) \<le> card {ch}"
    by (rule card_mono)
      (auto simp: channels_used_def Reassembler_new_def message_chunks_def dest: label_pieces_channel)
  then have "\<exists>out. push_all Reassembler_new (message_chunks ty ch body) = Inr out"
    using len max_message_len_bound [of ty]
    by (intro push_all_total ra_inv_new)
      (simp_all add: Reassembler_new_def chan_push_message_only MAX_PENDING_CHANNELS_def MAX_PENDING_BYTES_def)
  then obtain ms r where run: "push_all Reassembler_new (message_chunks ty ch body) = Inr (ms, r)" by auto
  have slots: "map snd (filter (\<lambda>x. fst x = c) ms) = (if c = ch then [\<lparr>rm_msg_type = ty, rm_payload = body\<rparr>] else [])"
    and idle: "map_of (ra_pending r) c = None" for c
    using push_all_channel [OF run, of c] one [of c] by (simp_all add: Reassembler_new_def)
  have all: "fst x = ch" if "x \<in> set ms" for x
    using slots [of "fst x"] that by (auto simp: filter_empty_conv split: if_splits)
  then have "filter (\<lambda>x. fst x = ch) ms = ms" by (simp add: filter_id_conv)
  with slots [of ch] have "map snd ms = [\<lparr>rm_msg_type = ty, rm_payload = body\<rparr>]" by simp
  with all have "ms = [(ch, \<lparr>rm_msg_type = ty, rm_payload = body\<rparr>)]"
    by (cases ms) auto
  moreover have "r = Reassembler_new"
    using push_all_inv [OF ra_inv_new run] by (rule ra_inv_idle) (rule ext, rule idle)
  ultimately show ?thesis using run by (simp add: m tagged_def)
qed

lemma push_all_messages:
  "list_all message_fits ms \<Longrightarrow>
   push_all Reassembler_new (concat (map chunks_of ms)) = Inr (map tagged ms, Reassembler_new)"
proof (induction ms)
  case (Cons m ms)
  then show ?case
    using push_all_message [of m] by (simp add: push_all_append split: prod.splits)
qed simp


lemma label_pieces_type: "c \<in> set (label_pieces ty ch ps) \<Longrightarrow> hd_msg_type (fst c) = ty"
  by (induction ty ch ps rule: label_pieces.induct) auto

lemma label_pieces_flags:
  "ps \<noteq> [] \<Longrightarrow> map (has_more \<circ> fst) (label_pieces ty ch ps) = replicate (length ps - 1) True @ [False]"
  by (induction ty ch ps rule: label_pieces.induct) auto

lemma chunk_wire_length: "length (chunk_wire c) = CHUNK_HEADER_LEN + length (snd c)"
  by (simp add: chunk_wire_def img_ChunkHeader_def CHUNK_HEADER_LEN_def codec_size)

lemma push_fold_inv: "ra_inv r \<Longrightarrow> ra_inv (foldl (\<lambda>r (h, p). snd (push r h p)) r cs)"
  by (induction cs arbitrary: r) (auto simp: push_inv split: prod.splits)

section \<open>Properties\<close>

text \<open>
  C6: Fragmentation never fails and loses nothing. The chunks carry the body in order in pieces
  of at most \<open>MAX_CHUNK_PAYLOAD\<close> bytes, their number is the rounded-up quotient (one for an empty
  body), every chunk is an 8-byte header plus its piece, and only the last one is not flagged
  \<open>FRAG_MORE\<close>.
\<close>

theorem fragment_correct:
  "\<exists>cs. fragment ty ch body = Inr (map chunk_wire cs) \<and>
     concat (map snd cs) = body \<and>
     length cs = max 1 ((length body + MAX_CHUNK_PAYLOAD - 1) div MAX_CHUNK_PAYLOAD) \<and>
     list_all (\<lambda>c. chunk_ok c \<and> hd_msg_type (fst c) = ty \<and> hd_channel (fst c) = ch \<and>
                   length (chunk_wire c) = CHUNK_HEADER_LEN + length (snd c)) cs \<and>
     map (has_more \<circ> fst) cs = replicate (length cs - 1) True @ [False]"
  (is "\<exists>cs. ?P cs")
proof
  show "?P (message_chunks ty ch body)"
    using message_chunks_ok [of _ ty ch body]
    by (auto simp: fragment_pieces message_chunks_def concat_split_pieces length_split_pieces
        list_all_iff chunk_wire_length label_pieces_flags dest: label_pieces_channel label_pieces_type)
qed

text \<open>
  C2: What an unauthenticated peer can make the receiver hold is bounded. After any sequence of
  chunks whatsoever, also when the receiver goes on after errors, at most
  \<open>MAX_PENDING_CHANNELS\<close> messages are in flight, each within the limit of its type, their bytes
  total at most \<open>MAX_PENDING_BYTES\<close>, and the running byte count is exactly that total.
\<close>

theorem reassembly_bounded:
  "let r = foldl (\<lambda>r (h, p). snd (push r h p)) Reassembler_new cs in
   pending_channels r \<le> MAX_PENDING_CHANNELS \<and>
   ra_bytes r \<le> MAX_PENDING_BYTES \<and>
   ra_bytes r = sum_list (map (length \<circ> pd_buf \<circ> snd) (ra_pending r)) \<and>
   list_all (\<lambda>(ch, p). length (pd_buf p) \<le> max_message_len (pd_msg_type p)) (ra_pending r) \<and>
   distinct (map fst (ra_pending r))"
  using push_fold_inv [OF ra_inv_new, of cs]
  by (auto simp: Let_def ra_inv_def pending_channels_def hm_sum_def hm_ok_def pending_ok_def list_all_iff o_assoc)

text \<open>
  Channels do not disturb each other. A chunk acts on its own channel as the one-channel
  specification says and leaves what is in flight on every other channel as it was, unless one
  of the two global budgets refuses it; then nothing changes at all.
\<close>

theorem push_refines_channel:
  "if over_budget r h payload
   then (\<exists>e. push r h payload = (Inl e, r))
   else fst (push r h payload) = fst (chan_push (map_of (ra_pending r) (hd_channel h)) h payload) \<and>
        map_of (ra_pending (snd (push r h payload)))
          = (map_of (ra_pending r)) (hd_channel h :=
               snd (chan_push (map_of (ra_pending r) (hd_channel h)) h payload))"
  using push_over_budget [of r h payload] push_chan [of r h payload] by auto

text \<open>
  C3: Interleaving is transparent. Whenever the chunks of several channels, arriving in any
  order, contain on each channel the chunks of a list of messages one after another, each within
  the limit of its type, and the channels and bytes stay within the global budgets, the receiver
  accepts every chunk and delivers on each channel exactly those messages in their order, with
  nothing left in flight.
\<close>

theorem interleaved_delivery:
  assumes chunks: "\<And>ch. on_channel ch cs = concat (map (\<lambda>m. message_chunks (rm_msg_type m) ch (rm_payload m)) (msgs ch))"
    and fits: "\<And>ch m. m \<in> set (msgs ch) \<Longrightarrow> length (rm_payload m) \<le> max_message_len (rm_msg_type m)"
    and channels: "card ((hd_channel \<circ> fst) ` set cs) \<le> MAX_PENDING_CHANNELS"
    and bytes: "payload_total cs \<le> MAX_PENDING_BYTES"
  shows "\<exists>ms. push_all Reassembler_new cs = Inr (ms, Reassembler_new) \<and>
           (\<forall>ch. map snd (filter (\<lambda>m. fst m = ch) ms) = msgs ch)"
proof -
  have one: "chan_push_all None (on_channel ch cs) = Inr (msgs ch, None)" for ch
    unfolding chunks by (rule chan_push_messages) (rule fits)
  have "\<exists>out. push_all Reassembler_new cs = Inr out"
    using channels bytes one
    by (intro push_all_total ra_inv_new) (simp_all add: channels_used_def Reassembler_new_def)
  then obtain ms r where run: "push_all Reassembler_new cs = Inr (ms, r)" by auto
  have slots: "map snd (filter (\<lambda>m. fst m = ch) ms) = msgs ch" and idle: "map_of (ra_pending r) ch = None" for ch
    using push_all_channel [OF run, of ch] one [of ch] by (simp_all add: Reassembler_new_def)
  have "r = Reassembler_new"
    using push_all_inv [OF ra_inv_new run] by (rule ra_inv_idle) (rule ext, rule idle)
  with run slots show ?thesis by blast
qed


text \<open>A frame in two chunks on video channel 16 with a \<open>Close\<close> on channel 0 in between.\<close>

theorem interleaved_delivery_witness:
  "let frame = replicate 40000 7; bye = [3, 0];
       head = take MAX_CHUNK_PAYLOAD frame; tail = drop MAX_CHUNK_PAYLOAD frame;
       cs = [(chunk_header MT_FRAME_DATA 16 True head, head),
             (chunk_header MT_CLOSE 0 False bye, bye),
             (chunk_header MT_FRAME_DATA 16 False tail, tail)] in
   \<exists>ms. push_all Reassembler_new cs = Inr (ms, Reassembler_new) \<and>
     map snd (filter (\<lambda>m. fst m = 16) ms) = [\<lparr>rm_msg_type = MT_FRAME_DATA, rm_payload = frame\<rparr>]"
proof -
  define frame :: "u8 list" where "frame = replicate 40000 7"
  define bye :: "u8 list" where "bye = [3, 0]"
  define head where "head = take MAX_CHUNK_PAYLOAD frame"
  define tail where "tail = drop MAX_CHUNK_PAYLOAD frame"
  define cs where "cs = [(chunk_header MT_FRAME_DATA 16 True head, head),
    (chunk_header MT_CLOSE 0 False bye, bye), (chunk_header MT_FRAME_DATA 16 False tail, tail)]"
  define msgs :: "u16 \<Rightarrow> raw_message list" where
    "msgs ch = (if ch = 16 then [\<lparr>rm_msg_type = MT_FRAME_DATA, rm_payload = frame\<rparr>]
      else if ch = 0 then [\<lparr>rm_msg_type = MT_CLOSE, rm_payload = bye\<rparr>] else [])" for ch
  have lens: "length frame = 40000" "length bye = 2" "length head = 32768" "length tail = 7232"
    by (simp_all add: frame_def bye_def head_def tail_def MAX_CHUNK_PAYLOAD_def)
  have frame_chunks: "message_chunks MT_FRAME_DATA 16 frame
      = [(chunk_header MT_FRAME_DATA 16 True head, head), (chunk_header MT_FRAME_DATA 16 False tail, tail)]"
    using lens
    by (simp add: message_chunks_def split_pieces_big split_pieces_small MAX_CHUNK_PAYLOAD_def
        head_def [unfolded MAX_CHUNK_PAYLOAD_def] tail_def [unfolded MAX_CHUNK_PAYLOAD_def])
  have bye_chunks: "message_chunks MT_CLOSE 0 bye = [(chunk_header MT_CLOSE 0 False bye, bye)]"
    using lens by (simp add: message_chunks_def split_pieces_small MAX_CHUNK_PAYLOAD_def)
  have "\<exists>ms. push_all Reassembler_new cs = Inr (ms, Reassembler_new) \<and>
      (\<forall>ch. map snd (filter (\<lambda>m. fst m = ch) ms) = msgs ch)"
  proof (rule interleaved_delivery)
    show "on_channel ch cs = concat (map (\<lambda>m. message_chunks (rm_msg_type m) ch (rm_payload m)) (msgs ch))" for ch
      by (auto simp: cs_def msgs_def frame_chunks bye_chunks)
    show "length (rm_payload m) \<le> max_message_len (rm_msg_type m)" if "m \<in> set (msgs ch)" for ch m
      using that lens by (auto simp: msgs_def max_message_len_def split: if_splits)
    show "card ((hd_channel \<circ> fst) ` set cs) \<le> MAX_PENDING_CHANNELS"
      by (simp add: cs_def MAX_PENDING_CHANNELS_def card_insert_if)
    show "payload_total cs \<le> MAX_PENDING_BYTES"
      using lens by (simp add: cs_def payload_total_def MAX_PENDING_BYTES_def)
  qed
  then show ?thesis
    unfolding Let_def frame_def [symmetric] bye_def [symmetric] head_def [symmetric] tail_def [symmetric]
      cs_def [symmetric]
    by (auto simp: msgs_def)
qed

end
