(* ===== verification/Transport.thy ===== *)
theory Transport
  imports Envelope
begin

text \<open>
  Chunk IO over a byte stream (\<open>oxtransport/src/stream.rs\<close>): the plain readers and writers, the
  cancel-safe \<open>ChunkReader\<close> and the cancel-safe \<open>ChunkWriter\<close>.

  The stream itself (a tokio \<open>AsyncRead\<close> / \<open>AsyncWrite\<close>) is an argument: a list of the events its
  \<open>read\<close> or \<open>write\<close> answers with, in order. An exhausted list is a call that has to wait
  (\<open>Poll::Pending\<close>); that is the one point where a caller may drop the future, so cancellation is
  a call that returns \<open>Pending\<close> followed by a fresh call. An event list therefore says how the
  bytes are cut up, where reads are interrupted, and where the stream ends or fails.
\<close>

section \<open>Streams\<close>

datatype io_error =
    UnexpectedEof
  | WriteZero
  | InvalidData decode_error
  | Unencodable encode_error
  | OtherIo nat

datatype 'a poll = Pending | Ready 'a

text \<open>
  \<open>Segment bs\<close>: bytes that are available together; the empty segment is the end of the stream,
  which \<open>read\<close> reports as zero bytes. A segment longer than the buffer is handed out in parts.
\<close>

datatype read_event = Segment "u8 list" | ReadFailed nat

type_synonym source = "read_event list"

definition src_read :: "nat \<Rightarrow> source \<Rightarrow> (io_error + u8 list) poll \<times> source" where
  "src_read cap src =
    (case src of
       [] \<Rightarrow> (Pending, [])
     | Segment bs # rest \<Rightarrow>
         (Ready (Inr (take cap bs)), if cap < length bs then Segment (drop cap bs) # rest else rest)
     | ReadFailed e # rest \<Rightarrow> (Ready (Inl (OtherIo e)), rest))"

text \<open>
  The loop \<open>while filled < buf.len() { n = read(&mut buf[filled..]) .. filled += n }\<close> shared by
  \<open>read_exact\<close> and by both states of \<open>ChunkReader\<close>. It returns how it stopped with the buffer,
  the fill level and the rest of the stream.
\<close>

definition write_at :: "'a list \<Rightarrow> nat \<Rightarrow> 'a list \<Rightarrow> 'a list" where
  "write_at buf pos bs = take pos buf @ bs @ drop (pos + length bs) buf"

lemma length_write_at [simp]: "pos + length bs \<le> length buf \<Longrightarrow> length (write_at buf pos bs) = length buf"
  by (simp add: write_at_def)

lemma take_write_at [simp]: "pos \<le> length buf \<Longrightarrow> take (pos + length bs) (write_at buf pos bs) = take pos buf @ bs"
  by (simp add: write_at_def)

function fill :: "u8 list \<Rightarrow> nat \<Rightarrow> source \<Rightarrow> (io_error + unit) poll \<times> u8 list \<times> nat \<times> source" where
  "fill buf filled src =
    (if filled < length buf then
       (case src_read (length buf - filled) src of
          (Pending, src') \<Rightarrow> (Pending, buf, filled, src')
        | (Ready (Inl e), src') \<Rightarrow> (Ready (Inl e), buf, filled, src')
        | (Ready (Inr bs), src') \<Rightarrow>
            (if bs = [] then (Ready (Inl UnexpectedEof), buf, filled, src')
             else fill (write_at buf filled bs) (filled + length bs) src'))
     else (Ready (Inr ()), buf, filled, src))"
  by pat_completeness auto
termination
  by (relation "measure (\<lambda>(buf, filled, src). length buf - filled)")
    (auto simp: src_read_def neq_Nil_conv split: list.splits read_event.splits if_splits)

declare fill.simps [simp del]

lemma fill_full: "length buf \<le> filled \<Longrightarrow> fill buf filled src = (Ready (Inr ()), buf, filled, src)"
  by (subst fill.simps) simp

section \<open>Plain reading\<close>

text \<open>
  The bytes a stream still holds: the measure that makes the read loops terminate. Each chunk
  takes at least its 8 header bytes.
\<close>

fun event_bytes :: "read_event \<Rightarrow> u8 list" where
  "event_bytes (Segment bs) = bs"
| "event_bytes (ReadFailed _) = []"

definition src_bytes :: "source \<Rightarrow> u8 list" where
  "src_bytes src = concat (map event_bytes src)"

lemma src_bytes_simps [simp]:
  "src_bytes [] = []"
  "src_bytes (ev # src) = event_bytes ev @ src_bytes src"
  by (simp_all add: src_bytes_def)

lemma src_read_bytes:
  "src_read cap src = (Ready (Inr bs), src') \<Longrightarrow> src_bytes src = bs @ src_bytes src' \<and> length bs \<le> cap"
  "src_read cap src = (Ready (Inl e), src') \<Longrightarrow> src_bytes src = src_bytes src'"
  "src_read cap src = (Pending, src') \<Longrightarrow> src = [] \<and> src' = []"
  by (auto simp: src_read_def split: list.splits read_event.splits if_splits)

text \<open>What \<open>fill\<close> does to the bytes: those it put into the buffer are those it took.\<close>

lemma fill_bytes:
  "filled \<le> length buf \<Longrightarrow> fill buf filled src = (res, buf', filled', src') \<Longrightarrow>
   length buf' = length buf \<and> filled \<le> filled' \<and> filled' \<le> length buf \<and>
   take filled buf @ src_bytes src = take filled' buf' @ src_bytes src' \<and>
   (res = Pending \<longrightarrow> src' = []) \<and>
   (res = Ready (Inr ()) \<longleftrightarrow> filled' = length buf)"
proof (induction buf filled src rule: fill.induct)
  case (1 buf filled src)
  show ?case
  proof (cases "filled < length buf")
    case False
    with "1.prems" show ?thesis by (auto simp: fill_full)
  next
    case True
    obtain pr src1 where rd: "src_read (length buf - filled) src = (pr, src1)" by fastforce
    show ?thesis
    proof (cases pr)
      case Pending
      with True "1.prems" rd show ?thesis
        by (auto simp: fill.simps [of buf filled src] dest: src_read_bytes)
    next
      case (Ready r)
      show ?thesis
      proof (cases r)
        case (Inl e)
        with Ready True "1.prems" rd show ?thesis
          by (auto simp: fill.simps [of buf filled src] dest: src_read_bytes)
      next
        case (Inr bs)
        note got = src_read_bytes(1) [OF rd [unfolded Ready Inr]]
        show ?thesis
        proof (cases "bs = []")
          case True
          with Inr Ready \<open>filled < length buf\<close> "1.prems" rd got show ?thesis
            by (auto simp: fill.simps [of buf filled src])
        next
          case False
          with Inr Ready True "1.prems" rd
          have "fill (write_at buf filled bs) (filled + length bs) src1 = (res, buf', filled', src')"
            by (simp add: fill.simps [of buf filled src])
          moreover have "filled + length bs \<le> length buf" using got True by (elim conjE) linarith
          ultimately show ?thesis
            using "1.IH" [OF True rd [symmetric] Ready Inr False] got by auto
        qed
      qed
    qed
  qed
qed


text \<open>A stream that only delivers bytes: no end, no failure.\<close>

definition live :: "source \<Rightarrow> bool" where
  "live src \<longleftrightarrow> list_all (\<lambda>ev. \<exists>bs. ev = Segment bs \<and> bs \<noteq> []) src"

lemma live_read:
  assumes "live src" and "0 < cap"
  shows "src = [] \<and> src_read cap src = (Pending, []) \<or>
    (\<exists>bs src'. src_read cap src = (Ready (Inr bs), src') \<and> bs \<noteq> [] \<and> live src')"
  using assms by (auto simp: live_def src_read_def split: list.splits read_event.splits)

lemma fill_live:
  "live src \<Longrightarrow> filled \<le> length buf \<Longrightarrow> fill buf filled src = (res, buf', filled', src') \<Longrightarrow>
   live src' \<and> (res = Pending \<or> res = Ready (Inr ()))"
proof (induction buf filled src rule: fill.induct)
  case (1 buf filled src)
  show ?case
  proof (cases "filled < length buf")
    case False
    with "1.prems" show ?thesis by (auto simp: fill_full)
  next
    case True
    then consider "src = []" "src_read (length buf - filled) src = (Pending, [])"
      | bs src1 where "src_read (length buf - filled) src = (Ready (Inr bs), src1)" "bs \<noteq> []" "live src1"
      using live_read [OF "1.prems"(1), of "length buf - filled"] by auto
    then show ?thesis
    proof cases
      case 1
      with True "1.prems" show ?thesis by (auto simp: fill.simps [of buf filled "[]"])
    next
      case (2 bs src1)
      with True "1.prems"(3)
      have "fill (write_at buf filled bs) (filled + length bs) src1 = (res, buf', filled', src')"
        by (simp add: fill.simps [of buf filled src])
      with "1.IH" [OF True 2(1) [symmetric] refl refl 2(2) 2(3)] src_read_bytes(1) [OF 2(1)] True
      show ?thesis by auto
    qed
  qed
qed

text \<open>
  \<open>read_reassembled\<close>, from the top of its loop; \<open>read_exact\<close> fills a buffer it does not keep, so
  \<open>Pending\<close> here means: whatever was read of the current chunk is lost if the future is dropped.
\<close>

function read_reassembled :: "source \<Rightarrow> reassembler \<Rightarrow> (io_error + raw_message) poll \<times> source \<times> reassembler" where
  "read_reassembled src r =
    (case fill (replicate CHUNK_HEADER_LEN 0) 0 src of
       (Pending, _, _, src1) \<Rightarrow> (Pending, src1, r)
     | (Ready (Inl e), _, _, src1) \<Rightarrow> (Ready (Inl e), src1, r)
     | (Ready (Inr _), header_buf, _, src1) \<Rightarrow>
         (case decode decode_ChunkHeader header_buf of
            Inl e \<Rightarrow> (Ready (Inl (InvalidData e)), src1, r)
          | Inr header \<Rightarrow>
              (case fill (replicate (unat (hd_length header)) 0) 0 src1 of
                 (Pending, _, _, src2) \<Rightarrow> (Pending, src2, r)
               | (Ready (Inl e), _, _, src2) \<Rightarrow> (Ready (Inl e), src2, r)
               | (Ready (Inr _), payload, _, src2) \<Rightarrow>
                   (case push r header payload of
                      (Inl e, r') \<Rightarrow> (Ready (Inl (InvalidData e)), src2, r')
                    | (Inr (Some msg), r') \<Rightarrow> (Ready (Inr msg), src2, r')
                    | (Inr None, r') \<Rightarrow> read_reassembled src2 r'))))"
  by pat_completeness auto
termination
proof (relation "measure (\<lambda>(src, r). length (src_bytes src))", simp)
  fix src :: source and r res1 tup1 hb tup2 f1 src1 ok1 u1 header res2 tup3 pl tup4 f2 src2 ok2 u2 pres r' out
  assume h: "(res1, tup1) = fill (replicate CHUNK_HEADER_LEN 0) 0 src" "(hb, tup2) = tup1" "(f1, src1) = tup2"
    "res1 = Ready ok1" "ok1 = Inr u1"
    and p: "(res2, tup3) = fill (replicate (unat (hd_length header)) 0) 0 src1" "(pl, tup4) = tup3" "(f2, src2) = tup4"
  have "fill (replicate CHUNK_HEADER_LEN 0) 0 src = (Ready (Inr ()), hb, f1, src1)" using h by (cases u1) auto
  from fill_bytes [OF _ this] have "src_bytes src = take f1 hb @ src_bytes src1 \<and> f1 = 8 \<and> length hb = 8"
    by (simp add: CHUNK_HEADER_LEN_def)
  moreover have "fill (replicate (unat (hd_length header)) 0) 0 src1 = (res2, pl, f2, src2)" using p by simp
  from fill_bytes [OF _ this] have "src_bytes src1 = take f2 pl @ src_bytes src2" by simp
  ultimately have "length (src_bytes src2) < length (src_bytes src)" by simp
  then show "((src2, r'), (src, r)) \<in> measure (\<lambda>(src, r). length (src_bytes src))" by simp
qed

declare read_reassembled.simps [simp del]

definition read_message :: "source \<Rightarrow> reassembler \<Rightarrow> (io_error + Message option) poll \<times> source \<times> reassembler" where
  "read_message src r =
    (case read_reassembled src r of
       (Pending, src', r') \<Rightarrow> (Pending, src', r')
     | (Ready (Inl e), src', r') \<Rightarrow> (Ready (Inl e), src', r')
     | (Ready (Inr raw), src', r') \<Rightarrow>
         (case decode_known (rm_msg_type raw) (rm_payload raw) of
            Inl e \<Rightarrow> (Ready (Inl (InvalidData e)), src', r')
          | Inr m \<Rightarrow> (Ready (Inr m), src', r')))"


lemma fill_consumes:
  assumes "fill buf filled src = (Ready (Inr u), buf', filled', src')"
  shows "length buf' = length buf \<and> length (src_bytes src') \<le> length (src_bytes src) \<and>
    (filled < length buf \<longrightarrow> length (src_bytes src') < length (src_bytes src))"
proof (cases "filled \<le> length buf")
  case True
  from fill_bytes [OF True assms] have "length (take filled buf @ src_bytes src) = length (take filled' buf' @ src_bytes src')"
    and "length buf' = length buf" "filled' = length buf" by simp_all
  with True show ?thesis by auto
next
  case False
  with assms show ?thesis by (simp add: fill_full)
qed

lemma decode_ChunkHeader_Nil: "decode decode_ChunkHeader [] \<noteq> Inr h"
  by (simp add: decode_def decode_ChunkHeader_def dbind_def read_u8_def read_array_def rc_ensure_def
      ReadCursor_new_def rc_remaining_def)

section \<open>The cancel-safe reader\<close>

datatype read_state = Header nat | Payload ChunkHeader nat

record chunk_reader =
  cr_header_buf :: "u8 list"
  cr_payload :: "u8 list"
  cr_state :: read_state

definition ChunkReader_new :: chunk_reader where
  "ChunkReader_new = \<lparr>cr_header_buf = replicate CHUNK_HEADER_LEN 0, cr_payload = [], cr_state = Header 0\<rparr>"

definition read_rank :: "chunk_reader \<Rightarrow> nat" where
  "read_rank rd = (case cr_state rd of
     Header filled \<Rightarrow> if cr_header_buf rd \<noteq> [] \<and> length (cr_header_buf rd) \<le> filled then 2 else 0
   | Payload _ _ \<Rightarrow> 1)"

text \<open>
  \<open>next_message\<close>. The fill level is stored back on every way out of a read, so a fresh call after
  \<open>Pending\<close> continues where the dropped one stopped. After a rejected header the state stays at a
  full header buffer.
\<close>

function next_message :: "chunk_reader \<Rightarrow> source \<Rightarrow> reassembler \<Rightarrow>
    (io_error + raw_message) poll \<times> chunk_reader \<times> source \<times> reassembler" where
  "next_message rd src r =
    (case cr_state rd of
       Header filled \<Rightarrow>
         (case fill (cr_header_buf rd) filled src of
            (res, buf, filled', src1) \<Rightarrow>
              (let rd1 = rd\<lparr>cr_header_buf := buf, cr_state := Header filled'\<rparr> in
               case res of
                 Pending \<Rightarrow> (Pending, rd1, src1, r)
               | Ready (Inl e) \<Rightarrow> (Ready (Inl e), rd1, src1, r)
               | Ready (Inr _) \<Rightarrow>
                   (case decode decode_ChunkHeader buf of
                      Inl e \<Rightarrow> (Ready (Inl (InvalidData e)), rd1, src1, r)
                    | Inr header \<Rightarrow>
                        next_message (rd1\<lparr>cr_payload := replicate (unat (hd_length header)) 0,
                                          cr_state := Payload header 0\<rparr>) src1 r)))
     | Payload header filled \<Rightarrow>
         (case fill (cr_payload rd) filled src of
            (res, buf, filled', src1) \<Rightarrow>
              (let rd1 = rd\<lparr>cr_payload := buf, cr_state := Payload header filled'\<rparr> in
               case res of
                 Pending \<Rightarrow> (Pending, rd1, src1, r)
               | Ready (Inl e) \<Rightarrow> (Ready (Inl e), rd1, src1, r)
               | Ready (Inr _) \<Rightarrow>
                   (let rd2 = rd1\<lparr>cr_state := Header 0\<rparr> in
                    case push r header buf of
                      (Inl e, r') \<Rightarrow> (Ready (Inl (InvalidData e)), rd2, src1, r')
                    | (Inr (Some msg), r') \<Rightarrow> (Ready (Inr msg), rd2, src1, r')
                    | (Inr None, r') \<Rightarrow> next_message rd2 src1 r'))))"
  by pat_completeness auto

termination
proof (relation "measure (\<lambda>(rd, src, r). 3 * length (src_bytes src) + read_rank rd)", simp)
  fix rd rd1 :: chunk_reader and r :: reassembler and src filled res tup buf tup' filled' src1 ok u header
  assume st: "cr_state rd = Header filled" and f: "(res, tup) = fill (cr_header_buf rd) filled src"
    "(buf, tup') = tup" "(filled', src1) = tup'" "res = Ready ok" "ok = Inr u"
    and rd1: "rd1 = rd\<lparr>cr_header_buf := buf, cr_state := Header filled'\<rparr>"
    and h: "decode decode_ChunkHeader buf = Inr header"
  from f have "fill (cr_header_buf rd) filled src = (Ready (Inr u), buf, filled', src1)" by simp
  from fill_consumes [OF this] h decode_ChunkHeader_Nil [of header] st
  show "((rd1\<lparr>cr_payload := replicate (unat (hd_length header)) 0, cr_state := Payload header 0\<rparr>, src1, r), rd, src, r)
    \<in> measure (\<lambda>(rd, src, r). 3 * length (src_bytes src) + read_rank rd)"
    by (cases "cr_header_buf rd = []") (auto simp: read_rank_def rd1)
next
  fix rd rd1 rd2 :: chunk_reader and r r' :: reassembler and src header filled res tup buf tup' filled' src1 ok u
  assume st: "cr_state rd = Payload header filled" and f: "(res, tup) = fill (cr_payload rd) filled src"
    "(buf, tup') = tup" "(filled', src1) = tup'" "res = Ready ok" "ok = Inr u"
    and rd: "rd1 = rd\<lparr>cr_payload := buf, cr_state := Payload header filled'\<rparr>" "rd2 = rd1\<lparr>cr_state := Header 0\<rparr>"
  from f have "fill (cr_payload rd) filled src = (Ready (Inr u), buf, filled', src1)" by simp
  from fill_consumes [OF this] st
  show "((rd2, src1, r'), rd, src, r) \<in> measure (\<lambda>(rd, src, r). 3 * length (src_bytes src) + read_rank rd)"
    by (auto simp: read_rank_def rd)
qed

declare next_message.simps [simp del]


section \<open>What a reader does, on bytes\<close>

text \<open>
  The specification of reading: take chunks off the front of a byte string until a message is
  complete, a chunk is refused, or the bytes run out in the middle of a chunk.
\<close>

datatype parse_result =
    Short reassembler "u8 list"
  | Bad decode_error reassembler
  | Got raw_message reassembler "u8 list"

function parse_next :: "reassembler \<Rightarrow> u8 list \<Rightarrow> parse_result" where
  "parse_next r bs =
    (if length bs < CHUNK_HEADER_LEN then Short r bs
     else case decode decode_ChunkHeader (take CHUNK_HEADER_LEN bs) of
        Inl e \<Rightarrow> Bad e r
      | Inr h \<Rightarrow>
          (let n = unat (hd_length h); rest = drop CHUNK_HEADER_LEN bs in
           if length rest < n then Short r bs
           else case push r h (take n rest) of
                (Inl e, r') \<Rightarrow> Bad e r'
              | (Inr (Some m), r') \<Rightarrow> Got m r' (drop n rest)
              | (Inr None, r') \<Rightarrow> parse_next r' (drop n rest)))"
  by pat_completeness auto
termination
  by (relation "measure (\<lambda>(r, bs). length bs)") (auto simp: CHUNK_HEADER_LEN_def)

declare parse_next.simps [simp del]

text \<open>The bytes of the chunk in progress that a reader holds, and when its fields fit together.\<close>

definition reader_held :: "chunk_reader \<Rightarrow> u8 list" where
  "reader_held rd = (case cr_state rd of
     Header filled \<Rightarrow> take filled (cr_header_buf rd)
   | Payload _ filled \<Rightarrow> cr_header_buf rd @ take filled (cr_payload rd))"

definition reader_inv :: "chunk_reader \<Rightarrow> bool" where
  "reader_inv rd \<longleftrightarrow> length (cr_header_buf rd) = CHUNK_HEADER_LEN \<and>
     (case cr_state rd of
        Header filled \<Rightarrow> filled \<le> CHUNK_HEADER_LEN
      | Payload h filled \<Rightarrow> decode decode_ChunkHeader (cr_header_buf rd) = Inr h \<and>
          length (cr_payload rd) = unat (hd_length h) \<and> filled \<le> length (cr_payload rd))"

lemma reader_new [simp]: "reader_inv ChunkReader_new" "reader_held ChunkReader_new = []"
  by (simp_all add: reader_inv_def reader_held_def ChunkReader_new_def)

text \<open>What one call returns, in terms of the bytes held and available.\<close>

definition agrees :: "parse_result \<Rightarrow> (io_error + raw_message) poll \<times> chunk_reader \<times> source \<times> reassembler \<Rightarrow> bool" where
  "agrees pr out = (case out of (res, rd, src, r) \<Rightarrow>
     reader_inv rd \<and> live src \<and>
     (case pr of
        Short r' rest \<Rightarrow> res = Pending \<and> src = [] \<and> r = r' \<and> reader_held rd = rest
      | Bad e r' \<Rightarrow> res = Ready (Inl (InvalidData e)) \<and> r = r'
      | Got m r' rest \<Rightarrow> res = Ready (Inr m) \<and> r = r' \<and> reader_held rd @ src_bytes src = rest))"

lemma next_message_agrees:
  "reader_inv rd \<Longrightarrow> live src \<Longrightarrow>
   agrees (parse_next r (reader_held rd @ src_bytes src)) (next_message rd src r)"
proof (induction rd src r rule: next_message.induct)
  case (1 rd src r)
  show ?case
  proof (cases "cr_state rd")
    case (Header filled)
    obtain res buf filled' src1 where f: "fill (cr_header_buf rd) filled src = (res, buf, filled', src1)"
      by (metis prod_cases4)
    have le: "filled \<le> length (cr_header_buf rd)" and len: "length (cr_header_buf rd) = CHUNK_HEADER_LEN"
      using "1.prems"(1) Header by (simp_all add: reader_inv_def)
    note fb = fill_bytes [OF le f] and fl = fill_live [OF "1.prems"(2) le f]
    have held: "reader_held rd @ src_bytes src = take filled' buf @ src_bytes src1"
      using fb Header by (simp add: reader_held_def)
    show ?thesis
    proof (cases "res = Pending")
      case True
      with fb len have "filled' < CHUNK_HEADER_LEN" "src1 = []" by auto
      with True fb fl len show ?thesis
        unfolding held
        by (simp add: next_message.simps [of rd] Header f agrees_def parse_next.simps reader_inv_def
            reader_held_def live_def)
    next
      case False
      with fl have ok: "res = Ready (Inr ())" by auto
      with fb len have full: "filled' = CHUNK_HEADER_LEN" "take filled' buf = buf" "length buf = CHUNK_HEADER_LEN"
        by auto
      show ?thesis
      proof (cases "decode decode_ChunkHeader buf")
        case (Inl e)
        with ok full fl show ?thesis
          unfolding held
          by (simp add: next_message.simps [of rd] Header f agrees_def parse_next.simps reader_inv_def Let_def)
      next
        case (Inr h)
        let ?rd1 = "rd\<lparr>cr_header_buf := buf, cr_state := Header filled'\<rparr>"
        let ?rd2 = "?rd1\<lparr>cr_payload := replicate (unat (hd_length h)) 0, cr_state := Payload h 0\<rparr>"
        have "next_message rd src r = next_message ?rd2 src1 r"
          using ok Inr by (simp add: next_message.simps [of rd] Header f)
        moreover have "reader_inv ?rd2" using full Inr by (simp add: reader_inv_def)
        moreover have "reader_held ?rd2 @ src_bytes src1 = reader_held rd @ src_bytes src"
          using full unfolding held by (simp add: reader_held_def)
        ultimately show ?thesis
          using "1.IH"(1) [OF Header f [symmetric] refl refl refl ok refl Inr] fl by simp
      qed
    qed
  next
    case (Payload h filled)
    obtain res buf filled' src1 where f: "fill (cr_payload rd) filled src = (res, buf, filled', src1)"
      by (metis prod_cases4)
    have le: "filled \<le> length (cr_payload rd)" and len: "length (cr_header_buf rd) = CHUNK_HEADER_LEN"
      and plen: "length (cr_payload rd) = unat (hd_length h)"
      and dec: "decode decode_ChunkHeader (cr_header_buf rd) = Inr h"
      using "1.prems"(1) Payload by (simp_all add: reader_inv_def)
    note fb = fill_bytes [OF le f] and fl = fill_live [OF "1.prems"(2) le f]
    have held: "reader_held rd @ src_bytes src = cr_header_buf rd @ take filled' buf @ src_bytes src1"
      using fb Payload by (simp add: reader_held_def)
    show ?thesis
    proof (cases "res = Pending")
      case True
      with fb plen have "filled' < unat (hd_length h)" "src1 = []" by auto
      with True fb fl len dec plen show ?thesis
        unfolding held
        by (simp add: next_message.simps [of rd] Payload f agrees_def parse_next.simps reader_inv_def
            reader_held_def live_def Let_def)
    next
      case False
      with fl have ok: "res = Ready (Inr ())" by auto
      with fb plen have full: "take filled' buf = buf" "length buf = unat (hd_length h)" by auto
      let ?rd1 = "rd\<lparr>cr_payload := buf, cr_state := Payload h filled'\<rparr>"
      let ?rd2 = "?rd1\<lparr>cr_state := Header 0\<rparr>"
      have inv2: "reader_inv ?rd2" "reader_held ?rd2 = []" using len by (simp_all add: reader_inv_def reader_held_def)
      obtain out r' where p: "push r h buf = (out, r')" by fastforce
      show ?thesis
      proof (cases "out = Inr None")
        case True
        have "next_message rd src r = next_message ?rd2 src1 r'"
          using ok True p by (simp add: next_message.simps [of rd] Payload f)
        moreover have "parse_next r (reader_held rd @ src_bytes src) = parse_next r' (src_bytes src1)"
          unfolding held using full len dec p True
          by (simp add: parse_next.simps [of r])
        ultimately show ?thesis
          using "1.IH"(2) [OF Payload f [symmetric] refl refl refl ok refl refl p [symmetric] True refl] fl inv2 by simp
      next
        case False
        then show ?thesis
          unfolding held using ok full len dec p fl inv2
          by (cases out) (auto simp: next_message.simps [of rd] Payload f parse_next.simps [of r] agrees_def
              split: option.splits)
      qed
    qed
  qed
qed

subsection \<open>Whole streams\<close>

lemma parse_next_step:
  assumes "CHUNK_HEADER_LEN \<le> length bs" "decode decode_ChunkHeader (take CHUNK_HEADER_LEN bs) = Inr h"
    "unat (hd_length h) \<le> length (drop CHUNK_HEADER_LEN bs)"
  shows "parse_next r bs =
    (case push r h (take (unat (hd_length h)) (drop CHUNK_HEADER_LEN bs)) of
       (Inl e, r') \<Rightarrow> Bad e r'
     | (Inr (Some m), r') \<Rightarrow> Got m r' (drop (unat (hd_length h)) (drop CHUNK_HEADER_LEN bs))
     | (Inr None, r') \<Rightarrow> parse_next r' (drop (unat (hd_length h)) (drop CHUNK_HEADER_LEN bs)))"
  using assms by (simp add: parse_next.simps [of r bs] Let_def del: drop_drop)

lemma parse_next_shorter: "parse_next r bs = Got m r' rest \<Longrightarrow> length rest < length bs"
proof (induction r bs rule: parse_next.induct)
  case (1 r bs)
  show ?case
  proof (cases "length bs < CHUNK_HEADER_LEN")
    case True
    with "1.prems" show ?thesis by (simp add: parse_next.simps [of r bs])
  next
    case False
    show ?thesis
    proof (cases "decode decode_ChunkHeader (take CHUNK_HEADER_LEN bs)")
      case (Inl e)
      with False "1.prems" show ?thesis by (simp add: parse_next.simps [of r bs])
    next
      case (Inr h)
      have room: "\<not> length (drop CHUNK_HEADER_LEN bs) < unat (hd_length h)"
        using False Inr "1.prems" by (auto simp: parse_next.simps [of r bs])
      obtain out r1 where p: "push r h (take (unat (hd_length h)) (drop CHUNK_HEADER_LEN bs)) = (out, r1)" by fastforce
      show ?thesis
      proof (cases "out = Inr None")
        case True
        with False Inr room p "1.prems"
        have "parse_next r1 (drop (unat (hd_length h)) (drop CHUNK_HEADER_LEN bs)) = Got m r' rest"
          by (simp add: parse_next_step)
        from "1.IH" [OF False Inr refl refl room p [symmetric] True refl this] show ?thesis by simp
      next
        case False
        with \<open>\<not> length bs < CHUNK_HEADER_LEN\<close> Inr room p "1.prems" show ?thesis
          by (cases out) (auto simp: parse_next_step CHUNK_HEADER_LEN_def split: option.splits)
      qed
    qed
  qed
qed

text \<open>More bytes behind a complete message or a refused chunk change nothing.\<close>

fun then_more :: "parse_result \<Rightarrow> u8 list \<Rightarrow> parse_result" where
  "then_more (Short r bs) xs = parse_next r (bs @ xs)"
| "then_more (Bad e r) xs = Bad e r"
| "then_more (Got m r bs) xs = Got m r (bs @ xs)"

lemma parse_next_append: "parse_next r (bs @ xs) = then_more (parse_next r bs) xs"
proof (induction r bs rule: parse_next.induct)
  case (1 r bs)
  show ?case
  proof (cases "length bs < CHUNK_HEADER_LEN")
    case True
    then show ?thesis by (simp add: parse_next.simps [of r bs])
  next
    case False
    show ?thesis
    proof (cases "decode decode_ChunkHeader (take CHUNK_HEADER_LEN bs)")
      case (Inl e)
      with False show ?thesis by (simp add: parse_next.simps [of r bs] parse_next.simps [of r "bs @ xs"])
    next
      case (Inr h)
      show ?thesis
      proof (cases "length (drop CHUNK_HEADER_LEN bs) < unat (hd_length h)")
        case True
        with False Inr show ?thesis by (simp add: parse_next.simps [of r bs])
      next
        case room: False
        obtain out r1 where p: "push r h (take (unat (hd_length h)) (drop CHUNK_HEADER_LEN bs)) = (out, r1)" by fastforce
        have more: "parse_next r (bs @ xs) =
          (case (out, r1) of
             (Inl e, r') \<Rightarrow> Bad e r'
           | (Inr (Some m), r') \<Rightarrow> Got m r' (drop (unat (hd_length h)) (drop CHUNK_HEADER_LEN bs) @ xs)
           | (Inr None, r') \<Rightarrow> parse_next r' (drop (unat (hd_length h)) (drop CHUNK_HEADER_LEN bs) @ xs))"
          using False Inr room p by (subst parse_next_step [where h = h]) (auto split: sum.splits option.splits)
        show ?thesis
        proof (cases "out = Inr None")
          case True
          with more "1.IH" [OF False Inr refl refl room p [symmetric] True refl] show ?thesis
            using False Inr room p by (simp add: parse_next_step [of bs h r])
        next
          case False
          with more \<open>\<not> length bs < CHUNK_HEADER_LEN\<close> Inr room p show ?thesis
            by (cases out) (auto simp: parse_next_step [of bs h r] split: option.splits)
        qed
      qed
    qed
  qed
qed

text \<open>All messages of a byte string, and why parsing stopped.\<close>

function parse_all :: "reassembler \<Rightarrow> u8 list \<Rightarrow> raw_message list \<times> parse_result" where
  "parse_all r bs =
    (case parse_next r bs of
       Got m r' rest \<Rightarrow> (case parse_all r' rest of (ms, out) \<Rightarrow> (m # ms, out))
     | Short r' rest \<Rightarrow> ([], Short r' rest)
     | Bad e r' \<Rightarrow> ([], Bad e r'))"
  by pat_completeness auto
termination
  by (relation "measure (\<lambda>(r, bs). length bs)") (auto dest: parse_next_shorter)

declare parse_all.simps [simp del]

text \<open>
  Successive calls of \<open>next_message\<close>, each with some new events behind what the stream still
  holds. The results of the calls are collected.
\<close>

fun run_reader :: "chunk_reader \<Rightarrow> source \<Rightarrow> reassembler \<Rightarrow> source list \<Rightarrow>
    (io_error + raw_message) poll list \<times> chunk_reader \<times> source \<times> reassembler" where
  "run_reader rd src r [] = ([], rd, src, r)"
| "run_reader rd src r (new # later) =
    (case next_message rd (src @ new) r of
       (res, rd', src', r') \<Rightarrow>
         (case run_reader rd' src' r' later of (out, final) \<Rightarrow> (res # out, final)))"

fun delivered :: "(io_error + raw_message) poll list \<Rightarrow> raw_message list" where
  "delivered [] = []"
| "delivered (Ready (Inr m) # out) = m # delivered out"
| "delivered (_ # out) = delivered out"

lemma live_append [simp]: "live (src @ new) \<longleftrightarrow> live src \<and> live new"
  by (auto simp: live_def)

lemma src_bytes_append [simp]: "src_bytes (src @ new) = src_bytes src @ src_bytes new"
  by (simp add: src_bytes_def)

text \<open>
  However the bytes are cut up and whenever calls are abandoned: what has been delivered,
  followed by what parsing the remaining bytes gives, is what parsing everything gives.
\<close>

lemma run_reader_parses:
  assumes "reader_inv rd" "live src" "list_all live batches"
    and "parse_all r (reader_held rd @ src_bytes src @ concat (map src_bytes batches)) = (ms, Short rf rest)"
    and "run_reader rd src r batches = (out, rd', src', r')"
  shows "reader_inv rd' \<and> live src' \<and> (\<forall>res \<in> set out. \<forall>e. res \<noteq> Ready (Inl e)) \<and>
    (\<exists>ms'. ms = delivered out @ ms' \<and> parse_all r' (reader_held rd' @ src_bytes src') = (ms', Short rf rest)) \<and>
    (out \<noteq> [] \<and> last out = Pending \<longrightarrow> delivered out = ms \<and> src' = [] \<and> r' = rf \<and> reader_held rd' = rest)"
  using assms
proof (induction batches arbitrary: rd src r ms out rd' src' r')
  case Nil
  then show ?case by auto
next
  case (Cons new later)
  let ?bs = "reader_held rd @ src_bytes (src @ new)" and ?more = "concat (map src_bytes later)"
  obtain res rd1 src1 r1 where step: "next_message rd (src @ new) r = (res, rd1, src1, r1)"
    by (metis prod_cases4)
  obtain out1 where later: "run_reader rd1 src1 r1 later = (out1, rd', src', r')" and out: "out = res # out1"
    using Cons.prems(5) step by (auto split: prod.splits)
  have agree: "agrees (parse_next r ?bs) (res, rd1, src1, r1)"
    using next_message_agrees [of rd "src @ new" r] Cons.prems step by simp
  then have inv1: "reader_inv rd1" "live src1" by (simp_all add: agrees_def)
  have all: "parse_next r (?bs @ ?more) = then_more (parse_next r ?bs) ?more"
    by (rule parse_next_append)
  from Cons.prems(4) have whole: "parse_all r (?bs @ ?more) = (ms, Short rf rest)" by simp
  note IH = Cons.IH [OF inv1 _ _ later]
  show ?case
  proof (cases "parse_next r ?bs")
    case (Short r2 left)
    with agree have now: "res = Pending" "src1 = []" "r1 = r2" "reader_held rd1 = left"
      by (simp_all add: agrees_def)
    have "parse_all r1 (reader_held rd1 @ src_bytes src1 @ ?more) = (ms, Short rf rest)"
      using whole all Short now by (simp add: parse_all.simps [of r] parse_all.simps [of r2])
    note ih = IH [OF _ this]
    show ?thesis
    proof (cases later)
      case Nil
      have "parse_next r2 left = Short r2 left"
        using Short parse_next_append [of r ?bs "[]"] by (metis append_Nil2 then_more.simps(1))
      then have "parse_all r1 (reader_held rd1) = ([], Short r2 left)"
        using now by (simp add: parse_all.simps [of r2])
      with Nil now whole Short later out inv1 show ?thesis
        by (auto simp: parse_all.simps [of r])
    next
      case (Cons l ls)
      with later have "out1 \<noteq> []" by (auto split: prod.splits)
      with ih Cons.prems(3) now out show ?thesis by simp
    qed
  next
    case (Bad e r2)
    with whole all show ?thesis by (simp add: parse_all.simps [of r])
  next
    case (Got m r2 left)
    with agree have now: "res = Ready (Inr m)" "r1 = r2" "reader_held rd1 @ src_bytes src1 = left"
      by (simp_all add: agrees_def)
    have "parse_next r (?bs @ ?more) = Got m r2 (left @ ?more)" using all Got by simp
    with whole obtain ms1 where ms: "ms = m # ms1"
      and rest: "parse_all r1 (reader_held rd1 @ src_bytes src1 @ ?more) = (ms1, Short rf rest)"
      using now by (auto simp: parse_all.simps [of r] split: prod.splits)
    note ih = IH [OF _ rest]
    show ?thesis
    proof (cases "out1 = []")
      case True
      with ih Cons.prems(3) now out ms show ?thesis by auto
    next
      case False
      with ih Cons.prems(3) now out ms show ?thesis by auto
    qed
  qed
qed


text \<open>Chunks on the wire are parsed as the reassembler takes them.\<close>

lemma parse_next_chunk:
  assumes "chunk_ok (h, p)"
  shows "parse_next r (chunk_wire (h, p) @ rest) =
    (case push r h p of
       (Inl e, r') \<Rightarrow> Bad e r'
     | (Inr (Some m), r') \<Rightarrow> Got m r' rest
     | (Inr None, r') \<Rightarrow> parse_next r' rest)"
proof -
  have len: "length (img_ChunkHeader h) = CHUNK_HEADER_LEN"
    using chunk_wire_length [of "(h, [])"] by (simp add: chunk_wire_def)
  have "decode decode_ChunkHeader (img_ChunkHeader h) = Inr h"
    using ChunkHeader_codec.decode_img [of h "[]"] assms by (simp add: chunk_ok_def)
  moreover have "take (unat (hd_length h)) (drop CHUNK_HEADER_LEN (chunk_wire (h, p) @ rest)) = p"
    "drop (unat (hd_length h)) (drop CHUNK_HEADER_LEN (chunk_wire (h, p) @ rest)) = rest"
    using len assms by (simp_all add: chunk_wire_def chunk_ok_def)
  note parse_next_step [of "chunk_wire (h, p) @ rest" h r, unfolded this]
  ultimately show ?thesis
    using len assms by (simp add: chunk_wire_def chunk_ok_def)
qed

lemma parse_all_chunks:
  "list_all chunk_ok cs \<Longrightarrow> push_all r cs = Inr (ms, r') \<Longrightarrow>
   parse_all r (concat (map chunk_wire cs)) = (map snd ms, Short r' [])"
proof (induction r cs arbitrary: ms r' rule: push_all.induct)
  case (1 r)
  then show ?case by (auto simp: parse_all.simps [of r'] parse_next.simps [of r'] CHUNK_HEADER_LEN_def)
next
  case (2 r h p cs)
  from "2.prems"(2) obtain out r1 ms1 where push: "push r h p = (Inr out, r1)"
    and rest: "push_all r1 cs = Inr (ms1, r')"
    and ms: "ms = (case out of None \<Rightarrow> [] | Some m \<Rightarrow> [(hd_channel h, m)]) @ ms1"
    by (auto split: prod.splits sum.splits)
  from rest "2.prems"(1) have IH: "parse_all r1 (concat (map chunk_wire cs)) = (map snd ms1, Short r' [])"
    using "2.IH" [OF push [symmetric] refl] by simp
  have "parse_next r (concat (map chunk_wire ((h, p) # cs))) =
     (case out of Some m \<Rightarrow> Got m r1 (concat (map chunk_wire cs)) | None \<Rightarrow> parse_next r1 (concat (map chunk_wire cs)))"
    using "2.prems"(1) push by (simp add: parse_next_chunk)
  with IH ms show ?case
    by (cases out) (simp_all add: parse_all.simps [of r] parse_all.simps [of r1])
qed

section \<open>Writing\<close>

text \<open>
  What \<open>write\<close> answers: how many bytes it accepts (never more than offered), or a failure.
  \<open>AsyncWrite::flush\<close> consumes one event as well.
\<close>

datatype write_event = Accepts nat | WriteFailed nat

type_synonym sink = "write_event list"

fun sink_flush :: "sink \<Rightarrow> (io_error + unit) poll \<times> sink" where
  "sink_flush [] = (Pending, [])"
| "sink_flush (Accepts _ # snk) = (Ready (Inr ()), snk)"
| "sink_flush (WriteFailed e # snk) = (Ready (Inl (OtherIo e)), snk)"

text \<open>\<open>write_all\<close> with the bytes it put on the wire before it stopped.\<close>

fun write_all :: "u8 list \<Rightarrow> sink \<Rightarrow> (io_error + unit) poll \<times> u8 list \<times> sink" where
  "write_all [] snk = (Ready (Inr ()), [], snk)"
| "write_all bs [] = (Pending, [], [])"
| "write_all bs (WriteFailed e # snk) = (Ready (Inl (OtherIo e)), [], snk)"
| "write_all bs (Accepts n # snk) =
    (if n = 0 then (Ready (Inl WriteZero), [], snk)
     else case write_all (drop n bs) snk of (res, out, snk') \<Rightarrow> (res, take n bs @ out, snk'))"

fun write_chunks :: "u8 list list \<Rightarrow> sink \<Rightarrow> (io_error + unit) poll \<times> u8 list \<times> sink" where
  "write_chunks [] snk = (case sink_flush snk of (res, snk') \<Rightarrow> (res, [], snk'))"
| "write_chunks (c # cs) snk =
    (case write_all c snk of
       (Ready (Inr _), out, snk1) \<Rightarrow>
         (case write_chunks cs snk1 of (res, out', snk2) \<Rightarrow> (res, out @ out', snk2))
     | (res, out, snk1) \<Rightarrow> (res, out, snk1))"

definition write_message :: "Message \<Rightarrow> u16 \<Rightarrow> sink \<Rightarrow> (io_error + unit) poll \<times> u8 list \<times> sink" where
  "write_message msg video_channel snk =
    (case to_chunks msg video_channel of
       Inl e \<Rightarrow> (Ready (Inl (Unencodable e)), [], snk)
     | Inr chunks \<Rightarrow> write_chunks chunks snk)"

definition write_raw :: "u8 \<Rightarrow> u16 \<Rightarrow> u8 list \<Rightarrow> sink \<Rightarrow> (io_error + unit) poll \<times> u8 list \<times> sink" where
  "write_raw ty ch body snk =
    (case fragment ty ch body of
       Inl e \<Rightarrow> (Ready (Inl (Unencodable e)), [], snk)
     | Inr chunks \<Rightarrow> write_chunks chunks snk)"

subsection \<open>The cancel-safe writer\<close>

record chunk_writer =
  cw_pending :: "u8 list"
  cw_written :: nat

definition ChunkWriter_new :: chunk_writer where
  "ChunkWriter_new = \<lparr>cw_pending = [], cw_written = 0\<rparr>"

definition has_pending :: "chunk_writer \<Rightarrow> bool" where
  "has_pending w \<longleftrightarrow> cw_pending w \<noteq> []"

definition queue_message :: "chunk_writer \<Rightarrow> Message \<Rightarrow> u16 \<Rightarrow> (io_error + unit) \<times> chunk_writer" where
  "queue_message w msg video_channel =
    (case to_chunks msg video_channel of
       Inl e \<Rightarrow> (Inl (Unencodable e), w)
     | Inr chunks \<Rightarrow> (Inr (), w\<lparr>cw_pending := foldl (@) (cw_pending w) chunks\<rparr>))"

definition queue_raw :: "chunk_writer \<Rightarrow> u8 \<Rightarrow> u16 \<Rightarrow> u8 list \<Rightarrow> (io_error + unit) \<times> chunk_writer" where
  "queue_raw w ty ch body =
    (case fragment ty ch body of
       Inl e \<Rightarrow> (Inl (Unencodable e), w)
     | Inr chunks \<Rightarrow> (Inr (), w\<lparr>cw_pending := foldl (@) (cw_pending w) chunks\<rparr>))"

text \<open>\<open>flush\<close>: the bytes it puts on the wire are returned beside the result and the new state.\<close>

function flush :: "chunk_writer \<Rightarrow> sink \<Rightarrow> (io_error + unit) poll \<times> chunk_writer \<times> u8 list \<times> sink" where
  "flush w snk =
    (if cw_written w < length (cw_pending w) then
       (case snk of
          [] \<Rightarrow> (Pending, w, [], [])
        | WriteFailed e # snk1 \<Rightarrow> (Ready (Inl (OtherIo e)), w, [], snk1)
        | Accepts k # snk1 \<Rightarrow>
            (let n = min k (length (cw_pending w) - cw_written w) in
             if n = 0 then (Ready (Inl WriteZero), w, [], snk1)
             else case flush (w\<lparr>cw_written := cw_written w + n\<rparr>) snk1 of
                    (res, w', out, snk2) \<Rightarrow>
                      (res, w', take n (drop (cw_written w) (cw_pending w)) @ out, snk2)))
     else
       (let w' = w\<lparr>cw_pending := [], cw_written := 0\<rparr> in
        case sink_flush snk of (res, snk1) \<Rightarrow> (res, w', [], snk1)))"
  by pat_completeness auto
termination
  by (relation "measure (\<lambda>(w, snk). length snk)") auto

declare flush.simps [simp del]


text \<open>The bytes a writer still owes the peer.\<close>

definition unsent :: "chunk_writer \<Rightarrow> u8 list" where
  "unsent w = drop (cw_written w) (cw_pending w)"

definition writer_inv :: "chunk_writer \<Rightarrow> bool" where
  "writer_inv w \<longleftrightarrow> cw_written w \<le> length (cw_pending w)"

lemma foldl_append: "foldl (@) acc xs = acc @ concat xs"
  by (induction xs arbitrary: acc) auto

lemma flush_sends:
  "writer_inv w \<Longrightarrow> flush w snk = (res, w', out, snk') \<Longrightarrow>
   writer_inv w' \<and> unsent w = out @ unsent w' \<and> (res = Ready (Inr ()) \<longrightarrow> w' = ChunkWriter_new)"
proof (induction w snk arbitrary: res w' out snk' rule: flush.induct)
  case (1 w snk)
  show ?case
  proof (cases "cw_written w < length (cw_pending w)")
    case False
    with "1.prems" show ?thesis
      by (auto simp: flush.simps [of w snk] Let_def writer_inv_def unsent_def ChunkWriter_new_def split: prod.splits)
  next
    case True
    show ?thesis
    proof (cases "\<exists>k snk1. snk = Accepts k # snk1 \<and> k \<noteq> 0")
      case False
      with True "1.prems" show ?thesis
        by (auto simp: flush.simps [of w snk] Let_def split: list.splits write_event.splits if_splits)
    next
      case acc: True
      then obtain k snk1 where snk: "snk = Accepts k # snk1" and k: "k \<noteq> 0" by blast
      define n where "n = min k (length (cw_pending w) - cw_written w)"
      with k True have n: "n \<noteq> 0" "n \<le> length (cw_pending w) - cw_written w" by auto
      let ?w1 = "w\<lparr>cw_written := cw_written w + n\<rparr>"
      from True "1.prems" n obtain out1 where rec: "flush ?w1 snk1 = (res, w', out1, snk')"
        and out: "out = take n (drop (cw_written w) (cw_pending w)) @ out1"
        by (auto simp: flush.simps [of w] snk Let_def n_def [symmetric] split: prod.splits)
      have "writer_inv ?w1" using n True by (simp add: writer_inv_def)
      note ih = "1.IH" [OF True snk refl n_def _ this rec]
      have "unsent w = take n (drop (cw_written w) (cw_pending w)) @ unsent ?w1"
        by (simp add: unsent_def add.commute) (metis append_take_drop_id drop_drop)
      with ih n out show ?thesis by auto
    qed
  qed
qed

text \<open>A sink that keeps accepting bytes lets every flush finish.\<close>

lemma flush_finishes:
  "writer_inv w \<Longrightarrow> length (unsent w) < length snk \<Longrightarrow> list_all (\<lambda>ev. \<exists>k. ev = Accepts (Suc k)) snk \<Longrightarrow>
   \<exists>out snk'. flush w snk = (Ready (Inr ()), ChunkWriter_new, out, snk')"
proof (induction w snk rule: flush.induct)
  case (1 w snk)
  then obtain k snk1 where snk: "snk = Accepts (Suc k) # snk1" by (cases snk) auto
  show ?case
  proof (cases "cw_written w < length (cw_pending w)")
    case False
    with snk show ?thesis by (simp add: flush.simps [of w] ChunkWriter_new_def)
  next
    case True
    define n where "n = min (Suc k) (length (cw_pending w) - cw_written w)"
    with True have n: "n \<noteq> 0" "n \<le> length (cw_pending w) - cw_written w" by auto
    let ?w1 = "w\<lparr>cw_written := cw_written w + n\<rparr>"
    have "\<exists>out snk'. flush ?w1 snk1 = (Ready (Inr ()), ChunkWriter_new, out, snk')"
      using "1.prems" n True snk
      by (intro "1.IH" [OF True snk refl n_def]) (auto simp: writer_inv_def unsent_def)
    with True n show ?thesis
      by (auto simp: flush.simps [of w] snk Let_def n_def [symmetric])
  qed
qed

text \<open>Any sequence of writer operations; the queued wire bytes are collected for reference.\<close>

datatype writer_op = Queue Message u16 | QueueRaw u8 u16 "u8 list" | Flush sink

fun wire_of :: "encode_error + u8 list list \<Rightarrow> u8 list" where
  "wire_of (Inl _) = []"
| "wire_of (Inr chunks) = concat chunks"

fun run_writer :: "chunk_writer \<Rightarrow> writer_op list \<Rightarrow> u8 list \<times> chunk_writer" where
  "run_writer w [] = ([], w)"
| "run_writer w (Queue m vch # ops) = run_writer (snd (queue_message w m vch)) ops"
| "run_writer w (QueueRaw ty ch body # ops) = run_writer (snd (queue_raw w ty ch body)) ops"
| "run_writer w (Flush snk # ops) =
    (case flush w snk of (_, w1, out, _) \<Rightarrow>
       (case run_writer w1 ops of (out', w2) \<Rightarrow> (out @ out', w2)))"

fun queued :: "writer_op list \<Rightarrow> u8 list" where
  "queued [] = []"
| "queued (Queue m vch # ops) = wire_of (to_chunks m vch) @ queued ops"
| "queued (QueueRaw ty ch body # ops) = wire_of (fragment ty ch body) @ queued ops"
| "queued (Flush _ # ops) = queued ops"

lemma queue_message_sends:
  "writer_inv w \<Longrightarrow> writer_inv (snd (queue_message w m vch)) \<and>
   unsent (snd (queue_message w m vch)) = unsent w @ wire_of (to_chunks m vch)"
  by (auto simp: queue_message_def writer_inv_def unsent_def foldl_append split: sum.splits)

lemma queue_raw_sends:
  "writer_inv w \<Longrightarrow> writer_inv (snd (queue_raw w ty ch body)) \<and>
   unsent (snd (queue_raw w ty ch body)) = unsent w @ wire_of (fragment ty ch body)"
  by (auto simp: queue_raw_def writer_inv_def unsent_def foldl_append split: sum.splits)

lemma run_writer_sends:
  "writer_inv w \<Longrightarrow> run_writer w ops = (out, w') \<Longrightarrow> writer_inv w' \<and> unsent w @ queued ops = out @ unsent w'"
proof (induction w ops arbitrary: out w' rule: run_writer.induct)
  case (2 w m vch ops)
  with queue_message_sends [of w m vch] show ?case by auto
next
  case (3 w ty ch body ops)
  with queue_raw_sends [of w ty ch body] show ?case by auto
next
  case (4 w snk ops)
  from "4.prems"(2) obtain res w1 out1 snk1 out2 where f: "flush w snk = (res, w1, out1, snk1)"
    and rest: "run_writer w1 ops = (out2, w')" and out: "out = out1 @ out2"
    by (auto split: prod.splits)
  from flush_sends [OF "4.prems"(1) f] have "writer_inv w1" "unsent w = out1 @ unsent w1" by simp_all
  with "4.IH" [OF f [symmetric] refl refl _ rest] out show ?case by simp
qed simp

text \<open>The plain writers put a prefix of the message on the wire, all of it when they succeed.\<close>

lemma write_all_prefix:
  "write_all bs snk = (res, out, snk') \<Longrightarrow> \<exists>rest. bs = out @ rest \<and> (res = Ready (Inr ()) \<longrightarrow> rest = [])"
proof (induction bs snk arbitrary: res out snk' rule: write_all.induct)
  case (4 b bs n snk)
  show ?case
  proof (cases "n = 0")
    case False
    with "4.prems" obtain out1 where rec: "write_all (drop n (b # bs)) snk = (res, out1, snk')"
      and out: "out = take n (b # bs) @ out1"
      by (auto split: prod.splits)
    from "4.IH" [OF False rec] obtain rest where "drop n (b # bs) = out1 @ rest" "res = Ready (Inr ()) \<longrightarrow> rest = []"
      by blast
    with out show ?thesis by (metis append_assoc append_take_drop_id)
  qed (use "4.prems" in auto)
qed auto

lemma write_chunks_prefix:
  "write_chunks cs snk = (res, out, snk') \<Longrightarrow>
   \<exists>rest. concat cs = out @ rest \<and> (res = Ready (Inr ()) \<longrightarrow> rest = [])"
proof (induction cs snk arbitrary: res out snk' rule: write_chunks.induct)
  case (2 c cs snk)
  obtain r1 o1 s1 where w: "write_all c snk = (r1, o1, s1)" by (metis prod_cases3)
  from write_all_prefix [OF w] obtain rest1 where c: "c = o1 @ rest1" "r1 = Ready (Inr ()) \<longrightarrow> rest1 = []" by blast
  show ?case
  proof (cases "r1 = Ready (Inr ())")
    case True
    with "2.prems" w obtain o2 where rec: "write_chunks cs s1 = (res, o2, snk')" and out: "out = o1 @ o2"
      by (auto split: prod.splits)
    from "2.IH" [OF w [symmetric] True refl refl rec] c True out show ?thesis by auto
  next
    case False
    then have "out = o1" "res \<noteq> Ready (Inr ())"
      using "2.prems" w by (auto split: poll.splits sum.splits)
    with c show ?thesis by auto
  qed
qed (auto split: prod.splits)

subsection \<open>The plain reader is the cancel-safe reader without its memory\<close>

lemma fill_same:
  "length buf = length buf2 \<Longrightarrow> take filled buf = take filled buf2 \<Longrightarrow> filled \<le> length buf \<Longrightarrow>
   fill buf filled src = (res, buf', filled', src') \<Longrightarrow>
   \<exists>buf2'. fill buf2 filled src = (res, buf2', filled', src') \<and> length buf2' = length buf' \<and>
     take filled' buf2' = take filled' buf'"
proof (induction buf filled src arbitrary: buf2 rule: fill.induct)
  case (1 buf filled src)
  show ?case
  proof (cases "filled < length buf")
    case False
    with "1.prems" show ?thesis by (auto simp: fill_full)
  next
    case True
    obtain pr src1 where rd: "src_read (length buf - filled) src = (pr, src1)" by fastforce
    show ?thesis
    proof (cases "\<exists>bs. pr = Ready (Inr bs) \<and> bs \<noteq> []")
      case False
      with True rd "1.prems" show ?thesis
        by (auto simp: fill.simps [of buf filled src] fill.simps [of buf2 filled src] split: poll.splits sum.splits if_splits)
    next
      case ok: True
      then obtain bs where pr: "pr = Ready (Inr bs)" and bs: "bs \<noteq> []" by blast
      have le: "filled + length bs \<le> length buf"
        using src_read_bytes(1) [OF rd [unfolded pr]] True by (elim conjE) linarith
      have rec: "fill (write_at buf filled bs) (filled + length bs) src1 = (res, buf', filled', src')"
        using True rd pr bs "1.prems" by (simp add: fill.simps [of buf filled src])
      have "fill buf2 filled src = fill (write_at buf2 filled bs) (filled + length bs) src1"
        using True rd pr bs "1.prems"(1) by (simp add: fill.simps [of buf2 filled src])
      then show ?thesis
        using "1.IH" [OF True rd [symmetric] pr refl bs _ _ _ rec, of "write_at buf2 filled bs"] le "1.prems"(1,2)
        by simp
    qed
  qed
qed

lemma fill_fresh:
  assumes "length buf = n" and "fill (replicate n 0) 0 src = (res, buf', filled', src')"
  obtains buf2 where "fill buf 0 src = (res, buf2, filled', src')" "length buf2 = n"
    "res = Ready (Inr u) \<Longrightarrow> buf2 = buf'"
proof -
  from fill_same [OF _ _ _ assms(2), of buf] assms(1) obtain buf2
    where b: "fill buf 0 src = (res, buf2, filled', src')" "length buf2 = length buf'" "take filled' buf2 = take filled' buf'"
    by auto
  from fill_bytes [OF _ assms(2)] have f: "length buf' = n" "res = Ready (Inr ()) \<longleftrightarrow> filled' = n" by simp_all
  show thesis
  proof (rule that [OF b(1)])
    show "length buf2 = n" using b(2) f(1) by simp
    show "buf2 = buf'" if "res = Ready (Inr u)" using that b f by simp
  qed
qed

lemma read_reassembled_next_message:
  "length (cr_header_buf rd) = CHUNK_HEADER_LEN \<Longrightarrow> cr_state rd = Header 0 \<Longrightarrow>
   \<exists>rd'. next_message rd src r = (fst (read_reassembled src r), rd', snd (read_reassembled src r))"
proof (induction src r arbitrary: rd rule: read_reassembled.induct)
  case (1 src r)
  obtain res1 hb f1 src1 where f: "fill (replicate CHUNK_HEADER_LEN 0) 0 src = (res1, hb, f1, src1)" by (metis prod_cases4)
  from fill_fresh [OF "1.prems"(1) f] obtain hb2 where f2: "fill (cr_header_buf rd) 0 src = (res1, hb2, f1, src1)"
    and hb2: "length hb2 = CHUNK_HEADER_LEN" "res1 = Ready (Inr ()) \<Longrightarrow> hb2 = hb" by blast
  show ?case
  proof (cases "res1 = Ready (Inr ())")
    case False
    with f f2 "1.prems" show ?thesis
      by (auto simp: next_message.simps [of rd] read_reassembled.simps [of src] split: poll.splits sum.splits)
  next
    case ok1: True
    with hb2 have hb: "hb2 = hb" by simp
    show ?thesis
    proof (cases "decode decode_ChunkHeader hb")
      case (Inl e)
      with f f2 ok1 hb "1.prems" show ?thesis
        by (simp add: next_message.simps [of rd] read_reassembled.simps [of src])
    next
      case (Inr h)
      let ?pay = "replicate (unat (hd_length h)) 0"
      let ?rd1 = "rd\<lparr>cr_header_buf := hb, cr_payload := ?pay, cr_state := Payload h 0\<rparr>"
      have to_payload: "next_message rd src r = next_message ?rd1 src1 r"
        using f2 ok1 hb Inr "1.prems" by (simp add: next_message.simps [of rd])
      obtain res2 pl f3 src2 where g: "fill ?pay 0 src1 = (res2, pl, f3, src2)" by (metis prod_cases4)
      show ?thesis
      proof (cases "res2 = Ready (Inr ())")
        case False
        with f ok1 hb Inr g to_payload show ?thesis
          by (auto simp: next_message.simps [of ?rd1] read_reassembled.simps [of src] split: poll.splits sum.splits)
      next
        case ok2: True
        obtain out r1 where p: "push r h pl = (out, r1)" by fastforce
        show ?thesis
        proof (cases "out = Inr None")
          case True
          let ?rd2 = "?rd1\<lparr>cr_payload := pl, cr_state := Header 0\<rparr>"
          have "next_message rd src r = next_message ?rd2 src2 r1"
            using to_payload ok2 g p True by (simp add: next_message.simps [of ?rd1])
          moreover have "read_reassembled src r = read_reassembled src2 r1"
            using f ok1 Inr g ok2 p True by (simp add: read_reassembled.simps [of src])
          moreover note "1.IH" [OF f [symmetric] ok1 refl refl refl Inr g [symmetric] ok2 refl refl refl p [symmetric] True refl, of ?rd2]
          ultimately show ?thesis using hb2(1) hb by simp
        next
          case False
          with f ok1 hb Inr g ok2 p to_payload show ?thesis
            by (auto simp: next_message.simps [of ?rd1] read_reassembled.simps [of src] split: sum.splits option.splits)
        qed
      qed
    qed
  qed
qed


section \<open>End to end\<close>

lemma run_reader_append:
  "run_reader rd src r (xs @ ys) =
    (case run_reader rd src r xs of (out, rd1, src1, r1) \<Rightarrow>
       (case run_reader rd1 src1 r1 ys of (out', final) \<Rightarrow> (out @ out', final)))"
  by (induction xs arbitrary: rd src r) (auto split: prod.splits)

lemma live_Nil [simp]: "live []"
  by (simp add: live_def)

lemma length_run_reader: "run_reader rd src r batches = (out, final) \<Longrightarrow> length out = length batches"
  by (induction batches arbitrary: rd src r out final) (auto split: prod.splits)

text \<open>With nothing more arriving, calls drain the messages and then wait.\<close>

lemma run_reader_drains:
  "reader_inv rd \<Longrightarrow> live src \<Longrightarrow> parse_all r (reader_held rd @ src_bytes src) = (ms, Short rf rest) \<Longrightarrow>
   length ms < n \<Longrightarrow> run_reader rd src r (replicate n []) = (out, final) \<Longrightarrow> last out = Pending"
proof (induction n arbitrary: rd src r ms out final)
  case (Suc n)
  obtain res rd1 src1 r1 where step: "next_message rd src r = (res, rd1, src1, r1)" by (metis prod_cases4)
  obtain out1 where later: "run_reader rd1 src1 r1 (replicate n []) = (out1, final)" and out: "out = res # out1"
    using Suc.prems(5) step by (auto split: prod.splits)
  have agree: "agrees (parse_next r (reader_held rd @ src_bytes src)) (res, rd1, src1, r1)"
    using next_message_agrees [of rd src r] Suc.prems step by simp
  then have inv1: "reader_inv rd1" "live src1" by (simp_all add: agrees_def)
  have len1: "length out1 = n" using length_run_reader [OF later] by simp
  show ?case
  proof (cases "n = 0")
    case True
    with Suc.prems(3,4) agree len1 out show ?thesis
      by (cases "parse_next r (reader_held rd @ src_bytes src)")
        (auto simp: agrees_def parse_all.simps [of r] split: prod.splits)
  next
    case False
    with len1 have last: "last out = last out1" by (auto simp: out)
    obtain ms1 where "length ms1 < n" "parse_all r1 (reader_held rd1 @ src_bytes src1) = (ms1, Short rf rest)"
    proof (cases "parse_next r (reader_held rd @ src_bytes src)")
      case (Short r2 left)
      have "parse_next r2 left = Short r2 left"
        using Short parse_next_append [of r "reader_held rd @ src_bytes src" "[]"]
        by (metis append_Nil2 then_more.simps(1))
      with Short agree Suc.prems(3) False show ?thesis
        by (intro that [of "[]"]) (auto simp: agrees_def parse_all.simps [of r] parse_all.simps [of rf])
    next
      case (Bad e r2)
      with Suc.prems(3) show ?thesis by (simp add: parse_all.simps [of r])
    next
      case (Got m r2 left)
      with Suc.prems(3,4) agree show ?thesis
        by (intro that [of "tl ms"]) (auto simp: agrees_def parse_all.simps [of r] split: prod.splits)
    qed
    with Suc.IH [OF inv1 _ _ later] last show ?thesis by simp
  qed
qed simp

text \<open>A message the peer accepts: encodable, and within the limit of its type.\<close>

definition deliverable :: "Message \<Rightarrow> bool" where
  "deliverable m \<longleftrightarrow> valid_msg m \<and> length (img_msg m) \<le> max_message_len (msg_type m)"

definition envelope_of :: "Message \<times> u16 \<Rightarrow> u8 \<times> u16 \<times> u8 list" where
  "envelope_of x = (case x of (m, vch) \<Rightarrow> (msg_type m, msg_channel m vch, img_msg m))"

lemma to_chunks_img:
  "valid_msg m \<Longrightarrow> to_chunks m vch = Inr (map chunk_wire (chunks_of (envelope_of (m, vch))))"
  by (simp add: to_chunks_def envelope_of_def encode_body_img fragment_pieces)

definition wire_chunks :: "(Message \<times> u16) list \<Rightarrow> (ChunkHeader \<times> u8 list) list" where
  "wire_chunks ms = concat (map (chunks_of \<circ> envelope_of) ms)"

fun sent :: "writer_op list \<Rightarrow> (Message \<times> u16) list" where
  "sent [] = []"
| "sent (Queue m vch # ops) = (m, vch) # sent ops"
| "sent (_ # ops) = sent ops"

fun queues_messages :: "writer_op list \<Rightarrow> bool" where
  "queues_messages [] \<longleftrightarrow> True"
| "queues_messages (Queue m _ # ops) \<longleftrightarrow> deliverable m \<and> queues_messages ops"
| "queues_messages (QueueRaw _ _ _ # ops) \<longleftrightarrow> False"
| "queues_messages (Flush _ # ops) \<longleftrightarrow> queues_messages ops"

lemma queued_wire: "queues_messages ops \<Longrightarrow> queued ops = concat (map chunk_wire (wire_chunks (sent ops)))"
  by (induction ops rule: sent.induct) (auto simp: wire_chunks_def deliverable_def to_chunks_img)

lemma sent_deliverable: "queues_messages ops \<Longrightarrow> (m, vch) \<in> set (sent ops) \<Longrightarrow> deliverable m"
  by (induction ops rule: sent.induct) auto

lemma parse_wire:
  assumes "\<And>m vch. (m, vch) \<in> set ms \<Longrightarrow> deliverable m"
  shows "parse_all Reassembler_new (concat (map chunk_wire (wire_chunks ms)))
    = (map (snd \<circ> tagged \<circ> envelope_of) ms, Short Reassembler_new [])"
proof -
  have "list_all chunk_ok (wire_chunks ms)"
    by (auto simp: wire_chunks_def list_all_iff envelope_of_def message_chunks_ok split: prod.splits)
  moreover have "push_all Reassembler_new (concat (map chunks_of (map envelope_of ms)))
      = Inr (map tagged (map envelope_of ms), Reassembler_new)"
    using assms by (intro push_all_messages) (auto simp: list_all_iff envelope_of_def message_fits_def deliverable_def)
  ultimately show ?thesis
    using parse_all_chunks [of "wire_chunks ms" Reassembler_new] by (simp add: wire_chunks_def o_assoc)
qed

lemma decode_delivered:
  "deliverable m \<Longrightarrow> decode_known (rm_msg_type (snd (tagged (envelope_of (m, vch)))))
     (rm_payload (snd (tagged (envelope_of (m, vch))))) = Inr (Some m)"
  using decode_known_img [of m "[]"] by (simp add: tagged_def envelope_of_def deliverable_def)

subsection \<open>One message at a time\<close>

lemma push_more: "has_more h \<Longrightarrow> push r h p = (Inr out, r') \<Longrightarrow> out = None"
  by (auto simp: push_def Let_def split: if_splits sum.splits)

lemma parse_next_chunks:
  "list_all chunk_ok cs \<Longrightarrow> cs \<noteq> [] \<Longrightarrow> list_all (has_more \<circ> fst) (butlast cs) \<Longrightarrow>
   push_all r cs = Inr ([x], r') \<Longrightarrow> parse_next r (concat (map chunk_wire cs) @ rest) = Got (snd x) r' rest"
proof (induction r cs rule: push_all.induct)
  case (2 r h p cs)
  from "2.prems"(4) obtain out r1 ms1 where push: "push r h p = (Inr out, r1)"
    and later: "push_all r1 cs = Inr (ms1, r')"
    and ms: "[x] = (case out of None \<Rightarrow> [] | Some m \<Rightarrow> [(hd_channel h, m)]) @ ms1"
    by (auto split: prod.splits sum.splits)
  have step: "parse_next r (concat (map chunk_wire ((h, p) # cs)) @ rest) =
     (case out of Some m \<Rightarrow> Got m r1 (concat (map chunk_wire cs) @ rest)
      | None \<Rightarrow> parse_next r1 (concat (map chunk_wire cs) @ rest))"
    using parse_next_chunk [of h p r "concat (map chunk_wire cs) @ rest"] "2.prems"(1) push by (simp split: option.splits)
  show ?case
  proof (cases "cs = []")
    case True
    with later ms step show ?thesis by (auto split: option.splits)
  next
    case False
    with "2.prems"(3) have "out = None" using push_more [OF _ push] by simp
    with 2 False push later ms step show ?thesis by (auto split: option.splits)
  qed
qed simp

lemma label_pieces_Nil [simp]: "label_pieces ty ch ps = [] \<longleftrightarrow> ps = []"
  by (metis length_0_conv length_label_pieces)

lemma butlast_more: "list_all (has_more \<circ> fst) (butlast (label_pieces ty ch ps))"
  by (induction ty ch ps rule: label_pieces.induct) simp_all

lemma parse_next_wire:
  assumes "deliverable m"
  shows "parse_next Reassembler_new (wire_of (to_chunks m vch) @ rest)
    = Got (snd (tagged (envelope_of (m, vch)))) Reassembler_new rest"
proof -
  let ?cs = "chunks_of (envelope_of (m, vch))"
  have "push_all Reassembler_new ?cs = Inr ([tagged (envelope_of (m, vch))], Reassembler_new)"
    using assms by (intro push_all_message) (simp add: message_fits_def deliverable_def envelope_of_def)
  moreover have "list_all chunk_ok ?cs"
    by (auto simp: list_all_iff envelope_of_def message_chunks_ok)
  moreover have "?cs \<noteq> []" "list_all (has_more \<circ> fst) (butlast ?cs)"
    by (simp_all add: envelope_of_def message_chunks_def butlast_more)
  ultimately have "parse_next Reassembler_new (concat (map chunk_wire ?cs) @ rest)
    = Got (snd (tagged (envelope_of (m, vch)))) Reassembler_new rest"
    by (intro parse_next_chunks)
  with assms show ?thesis by (simp add: deliverable_def to_chunks_img)
qed

lemma next_message_resets:
  "next_message rd src r = (Ready (Inr m), rd', src', r') \<Longrightarrow> cr_state rd' = Header 0"
proof (induction rd src r rule: next_message.induct)
  case (1 rd src r)
  show ?case
  proof (cases "cr_state rd")
    case (Header filled)
    obtain res buf filled' src1 where f: "fill (cr_header_buf rd) filled src = (res, buf, filled', src1)"
      by (metis prod_cases4)
    from "1.prems" Header f show ?thesis
      using "1.IH"(1) [OF Header f [symmetric] refl refl refl]
      by (auto simp: next_message.simps [of rd src r] Let_def split: poll.splits sum.splits)
  next
    case (Payload header filled)
    obtain res buf filled' src1 where f: "fill (cr_payload rd) filled src = (res, buf, filled', src1)"
      by (metis prod_cases4)
    obtain out r1 where p: "push r header buf = (out, r1)" by fastforce
    from "1.prems" Payload f p show ?thesis
      using "1.IH"(2) [OF Payload f [symmetric] refl refl refl _ _ refl p [symmetric]]
      by (auto simp: next_message.simps [of rd src r] Let_def split: poll.splits sum.splits option.splits)
  qed
qed

text \<open>A message whose wire bytes are next on a live stream is what \<open>read_message\<close> returns.\<close>

lemma read_message_next:
  assumes "deliverable m" and "live src" and "src_bytes src = wire_of (to_chunks m vch) @ rest"
  obtains src' where "read_message src Reassembler_new = (Ready (Inr (Some m)), src', Reassembler_new)"
    "live src'" "src_bytes src' = rest"
proof -
  let ?raw = "snd (tagged (envelope_of (m, vch)))"
  obtain res rd src' r' where nm: "next_message ChunkReader_new src Reassembler_new = (res, rd, src', r')"
    by (metis prod_cases4)
  have "agrees (Got ?raw Reassembler_new rest) (res, rd, src', r')"
    using next_message_agrees [of ChunkReader_new src Reassembler_new] assms parse_next_wire [OF assms(1), of vch rest] nm
    by simp
  then have got: "res = Ready (Inr ?raw)" "r' = Reassembler_new" "live src'" "reader_held rd @ src_bytes src' = rest"
    by (simp_all add: agrees_def)
  then have "reader_held rd = []"
    using next_message_resets nm by (simp add: reader_held_def)
  moreover have "read_reassembled src Reassembler_new = (res, src', r')"
    using read_reassembled_next_message [of ChunkReader_new src Reassembler_new] nm
    by (auto simp: ChunkReader_new_def)
  ultimately show thesis
    using got assms(1) by (intro that [of src']) (simp_all add: read_message_def decode_delivered)
qed

lemma read_reassembled_consumes:
  "read_reassembled src r = (Ready (Inr m), src', r') \<Longrightarrow> length (src_bytes src') < length (src_bytes src)"
proof (induction src r rule: read_reassembled.induct)
  case (1 src r)
  obtain res1 hb f1 src1 where f: "fill (replicate CHUNK_HEADER_LEN 0) 0 src = (res1, hb, f1, src1)" by (metis prod_cases4)
  with "1.prems" obtain h where hdr: "res1 = Ready (Inr ())" "decode decode_ChunkHeader hb = Inr h"
    by (auto simp: read_reassembled.simps [of src r] split: poll.splits sum.splits)
  have first: "length (src_bytes src1) < length (src_bytes src)"
    using fill_consumes [OF f [unfolded hdr]] by (simp add: CHUNK_HEADER_LEN_def)
  obtain res2 pl f2 src2 where g: "fill (replicate (unat (hd_length h)) 0) 0 src1 = (res2, pl, f2, src2)" by (metis prod_cases4)
  with "1.prems" f hdr have ok: "res2 = Ready (Inr ())"
    by (auto simp: read_reassembled.simps [of src r] split: poll.splits sum.splits)
  have second: "length (src_bytes src2) \<le> length (src_bytes src1)" using fill_consumes [OF g [unfolded ok]] by simp
  obtain out r1 where p: "push r h pl = (out, r1)" by fastforce
  show ?case
  proof (cases "out = Inr None")
    case True
    with "1.prems" f hdr g ok p have "read_reassembled src2 r1 = (Ready (Inr m), src', r')"
      by (simp add: read_reassembled.simps [of src r])
    from "1.IH" [OF f [symmetric] hdr(1) refl refl refl hdr(2) g [symmetric] ok refl refl refl p [symmetric] True refl this]
    show ?thesis using first second by simp
  next
    case False
    with "1.prems" f hdr g ok p have "src' = src2"
      by (auto simp: read_reassembled.simps [of src r] split: sum.splits option.splits)
    with first second show ?thesis by simp
  qed
qed

lemma read_message_consumes:
  "read_message src r = (Ready (Inr m), src', r') \<Longrightarrow> length (src_bytes src') < length (src_bytes src)"
  by (auto simp: read_message_def dest: read_reassembled_consumes split: prod.splits poll.splits sum.splits)

lemma next_message_decreases:
  "next_message rd src r = (Ready (Inr m), rd', src', r') \<Longrightarrow>
   3 * length (src_bytes src') + read_rank rd' < 3 * length (src_bytes src) + read_rank rd"
proof (induction rd src r rule: next_message.induct)
  case (1 rd src r)
  show ?case
  proof (cases "cr_state rd")
    case (Header filled)
    obtain res buf filled' src1 where f: "fill (cr_header_buf rd) filled src = (res, buf, filled', src1)"
      by (metis prod_cases4)
    let ?rd1 = "rd\<lparr>cr_header_buf := buf, cr_state := Header filled'\<rparr>"
    from "1.prems" Header f obtain h where ok: "res = Ready (Inr ())" "decode decode_ChunkHeader buf = Inr h"
      by (auto simp: next_message.simps [of rd src r] Let_def split: poll.splits sum.splits)
    let ?rd2 = "?rd1\<lparr>cr_payload := replicate (unat (hd_length h)) 0, cr_state := Payload h 0\<rparr>"
    from "1.prems" Header f ok have "next_message ?rd2 src1 r = (Ready (Inr m), rd', src', r')"
      by (simp add: next_message.simps [of rd src r])
    from "1.IH"(1) [OF Header f [symmetric] refl refl refl ok(1) refl ok(2) this]
    have "3 * length (src_bytes src') + read_rank rd' < 3 * length (src_bytes src1) + 1"
      by (simp add: read_rank_def)
    with fill_consumes [OF f [unfolded ok]] decode_ChunkHeader_Nil [of h] ok(2) Header show ?thesis
      by (auto simp: read_rank_def)
  next
    case (Payload header filled)
    obtain res buf filled' src1 where f: "fill (cr_payload rd) filled src = (res, buf, filled', src1)"
      by (metis prod_cases4)
    obtain out r1 where p: "push r header buf = (out, r1)" by fastforce
    let ?rd2 = "rd\<lparr>cr_payload := buf, cr_state := Header 0\<rparr>"
    from "1.prems" Payload f p have ok: "res = Ready (Inr ())"
      by (auto simp: next_message.simps [of rd src r] Let_def split: poll.splits sum.splits)
    have rank: "read_rank ?rd2 = 0" "read_rank rd = 1" using Payload by (simp_all add: read_rank_def)
    have le: "length (src_bytes src1) \<le> length (src_bytes src)" using fill_consumes [OF f [unfolded ok]] by simp
    show ?thesis
    proof (cases "out = Inr None")
      case True
      with "1.prems" Payload f p ok have rec: "next_message ?rd2 src1 r1 = (Ready (Inr m), rd', src', r')"
        by (simp add: next_message.simps [of rd src r])
      have "next_message (rd\<lparr>cr_payload := buf, cr_state := Payload header filled'\<rparr>\<lparr>cr_state := Header 0\<rparr>) src1 r1
        = (Ready (Inr m), rd', src', r')" using rec by simp
      from "1.IH"(2) [OF Payload f [symmetric] refl refl refl ok refl refl p [symmetric] True refl this]
      show ?thesis using rank le by simp
    next
      case False
      with "1.prems" Payload f p ok have "rd' = ?rd2" "src' = src1"
        by (auto simp: next_message.simps [of rd src r] Let_def split: sum.splits option.splits)
      with rank le show ?thesis by simp
    qed
  qed
qed

text \<open>A peer that keeps taking bytes lets the plain writers finish.\<close>

definition accepting :: "sink \<Rightarrow> bool" where
  "accepting snk \<longleftrightarrow> list_all (\<lambda>ev. \<exists>k. ev = Accepts (Suc k)) snk"

lemma write_all_accepting:
  "accepting snk \<Longrightarrow> length bs \<le> length snk \<Longrightarrow>
   \<exists>snk'. write_all bs snk = (Ready (Inr ()), bs, snk') \<and> accepting snk' \<and> length snk \<le> length snk' + length bs"
proof (induction bs snk rule: write_all.induct)
  case (4 b bs n snk)
  then obtain k where n: "n = Suc k" by (auto simp: accepting_def)
  have "accepting snk" "length (drop n (b # bs)) \<le> length snk" using 4 n by (auto simp: accepting_def)
  from "4.IH" [OF _ this] n obtain snk' where "write_all (drop n (b # bs)) snk = (Ready (Inr ()), drop n (b # bs), snk')"
    "accepting snk'" "length snk \<le> length snk' + length (drop n (b # bs))" by auto
  with n show ?case by auto
qed (auto simp: accepting_def)

lemma write_chunks_accepting:
  "accepting snk \<Longrightarrow> length (concat cs) < length snk \<Longrightarrow>
   \<exists>snk'. write_chunks cs snk = (Ready (Inr ()), concat cs, snk') \<and> accepting snk' \<and>
     length snk \<le> length snk' + length (concat cs) + 1"
proof (induction cs arbitrary: snk)
  case Nil
  then show ?case by (cases snk) (auto simp: accepting_def)
next
  case (Cons c cs)
  from write_all_accepting [of snk c] Cons.prems obtain s1 where
    s1: "write_all c snk = (Ready (Inr ()), c, s1)" "accepting s1" "length snk \<le> length s1 + length c" by auto
  with Cons.IH [of s1] Cons.prems show ?case by auto
qed

lemma write_message_accepting:
  assumes "valid_msg m" "accepting snk" "length (wire_of (to_chunks m vch)) < length snk"
  shows "\<exists>snk'. write_message m vch snk = (Ready (Inr ()), wire_of (to_chunks m vch), snk') \<and> accepting snk' \<and>
    length snk \<le> length snk' + length (wire_of (to_chunks m vch)) + 1"
  using write_chunks_accepting [OF assms(2), of "map chunk_wire (chunks_of (envelope_of (m, vch)))"] assms(1,3)
  by (simp add: write_message_def to_chunks_img)

lemma write_message_prefix:
  assumes "write_message m vch snk = (res, out, snk')"
  shows "\<exists>rest. wire_of (to_chunks m vch) = out @ rest \<and> (res = Ready (Inr ()) \<longrightarrow> rest = [])"
  using assms write_chunks_prefix [of _ snk res out snk']
  by (cases "to_chunks m vch") (auto simp: write_message_def)

section \<open>Properties\<close>

text \<open>
  C5: Chunked reading does not depend on how the bytes arrive. However the byte stream is cut
  into segments and however often a \<open>next_message\<close> call is abandoned while waiting, as long as the
  bytes contain no chunk the reassembler refuses, no call fails and the messages delivered so far,
  followed by those in the bytes not yet consumed, are exactly the messages of the whole byte
  string, in order.
\<close>

theorem reader_segmentation_independent:
  assumes "list_all live batches"
    and "parse_all r (concat (map src_bytes batches)) = (ms, Short rf rest)"
    and "run_reader ChunkReader_new [] r batches = (out, rd', src', r')"
  shows "(\<forall>e. Ready (Inl e) \<notin> set out) \<and>
    (\<exists>ms'. ms = delivered out @ ms' \<and> parse_all r' (reader_held rd' @ src_bytes src') = (ms', Short rf rest))"
  using run_reader_parses [of ChunkReader_new "[]" batches r ms rf rest out rd' src' r'] assms
  by (auto simp: live_def)

text \<open>A \<open>Close\<close> in three pieces, with a read abandoned inside the header.\<close>

theorem reader_segmentation_independent_witness:
  "\<exists>ms' out rd' src' r'.
     run_reader ChunkReader_new [] Reassembler_new [[Segment [4, 0, 0]], [Segment [0, 2, 0, 0, 0, 3], Segment [0]]]
       = (out, rd', src', r') \<and>
     (\<forall>e. Ready (Inl e) \<notin> set out) \<and>
     [\<lparr>rm_msg_type = 4, rm_payload = [3, 0]\<rparr>] = delivered out @ ms'"
proof -
  let ?batches = "[[Segment [4, 0, 0]], [Segment [0, 2, 0, 0, 0, 3], Segment [0]]] :: source list"
  have live: "list_all live ?batches" by (simp add: live_def)
  have parse: "parse_all Reassembler_new (concat (map src_bytes ?batches))
      = ([\<lparr>rm_msg_type = 4, rm_payload = [3, 0]\<rparr>], Short Reassembler_new [])" by code_simp
  obtain out rd' src' r' where run: "run_reader ChunkReader_new [] Reassembler_new ?batches = (out, rd', src', r')"
    by (metis prod_cases4)
  from reader_segmentation_independent [OF live parse run] run show ?thesis by blast
qed

text \<open>
  Nothing is lost, duplicated or reordered on the way out. For any sequence of queueing and
  flushing, with flushes that are abandoned or fail half-way and resumed later, the bytes put on
  the wire followed by the bytes still pending are exactly the chunks queued so far, in order.
\<close>

theorem writer_order_preserved:
  "(case run_writer ChunkWriter_new ops of (wire, w) \<Rightarrow> wire @ unsent w = queued ops)"
  using run_writer_sends [of ChunkWriter_new ops]
  by (auto simp: writer_inv_def unsent_def ChunkWriter_new_def split: prod.splits)

text \<open>
  C1: Messages arrive. A sender queues any messages within the protocol's limits and flushes
  in any pattern of partial and abandoned writes until nothing is pending; the wire bytes reach the
  receiver in any segmentation with any abandoned reads. After enough further calls the receiver
  has been handed exactly the messages sent, in order, and each decodes to the original; its
  reassembler and reader are back in the initial state with nothing buffered.
\<close>

theorem messages_delivered:
  assumes ops: "queues_messages ops"
    and writer: "run_writer ChunkWriter_new ops = (wire, w)" "unsent w = []"
    and arrival: "list_all live batches" "concat (map src_bytes batches) = wire"
    and reader: "run_reader ChunkReader_new [] Reassembler_new (batches @ replicate (Suc (length (sent ops))) [])
      = (out, rd, src, r)"
  shows "map (\<lambda>raw. decode_known (rm_msg_type raw) (rm_payload raw)) (delivered out)
      = map (\<lambda>(m, _). Inr (Some m)) (sent ops) \<and>
    r = Reassembler_new \<and> reader_held rd = [] \<and> src = []"
proof -
  let ?idle = "replicate (Suc (length (sent ops))) []" and ?msgs = "map (snd \<circ> tagged \<circ> envelope_of) (sent ops)"
  have "wire = concat (map chunk_wire (wire_chunks (sent ops)))"
    using run_writer_sends [OF _ writer(1)] writer(2) queued_wire [OF ops]
    by (simp add: writer_inv_def unsent_def ChunkWriter_new_def)
  then have parse: "parse_all Reassembler_new wire = (?msgs, Short Reassembler_new [])"
    using parse_wire sent_deliverable [OF ops] by simp
  obtain o1 rd1 src1 r1 o2 where first: "run_reader ChunkReader_new [] Reassembler_new batches = (o1, rd1, src1, r1)"
    and second: "run_reader rd1 src1 r1 ?idle = (o2, rd, src, r)" and out: "out = o1 @ o2"
    using reader by (auto simp: run_reader_append simp del: replicate.simps split: prod.splits)
  have "parse_all Reassembler_new (reader_held ChunkReader_new @ src_bytes [] @ concat (map src_bytes batches))
      = (?msgs, Short Reassembler_new [])"
    using parse arrival(2) by simp
  from run_reader_parses [OF reader_new(1) live_Nil arrival(1) this first]
  obtain ms' where inv1: "reader_inv rd1" "live src1" and msgs: "?msgs = delivered o1 @ ms'"
    and left: "parse_all r1 (reader_held rd1 @ src_bytes src1) = (ms', Short Reassembler_new [])"
    by blast
  have "length ms' < Suc (length (sent ops))"
    using arg_cong [OF msgs, of length] by simp
  then have "last o2 = Pending"
    by (rule run_reader_drains [OF inv1 left _ second])
  moreover have "o2 \<noteq> []" using length_run_reader [OF second] by auto
  moreover have "list_all live ?idle" "parse_all r1 (reader_held rd1 @ src_bytes src1 @ concat (map src_bytes ?idle))
      = (ms', Short Reassembler_new [])"
    using left by (simp_all add: list_all_iff)
  note run_reader_parses [OF inv1 this second]
  ultimately have fin: "delivered o2 = ms'" "src = []" "r = Reassembler_new" "reader_held rd = []"
    by blast+
  have "delivered (xs @ ys) = delivered xs @ delivered ys" for xs ys
    by (induction xs rule: delivered.induct) auto
  with msgs fin out have "delivered out = ?msgs" by simp
  then show ?thesis
    using fin sent_deliverable [OF ops] by (auto simp: decode_delivered)
qed

theorem messages_delivered_witness:
  "\<exists>wire out rd r.
     run_writer ChunkWriter_new
       [Queue (Ping \<lparr>pi_seq = 1, pi_sent_us = 9\<rparr>) 0, Flush [Accepts 5], Queue (Close \<lparr>cl_reason = 3\<rparr>) 0,
        Flush [Accepts 2, Accepts 100, Accepts 0]] = (wire, ChunkWriter_new) \<and>
     run_reader ChunkReader_new [] Reassembler_new
       ([[Segment (take 11 wire)], [Segment (drop 11 wire)]] @ replicate 3 []) = (out, rd, [], r) \<and>
     map (\<lambda>raw. decode_known (rm_msg_type raw) (rm_payload raw)) (delivered out)
       = [Inr (Some (Ping \<lparr>pi_seq = 1, pi_sent_us = 9\<rparr>)), Inr (Some (Close \<lparr>cl_reason = 3\<rparr>))]"
proof -
  let ?ops = "[Queue (Ping \<lparr>pi_seq = 1, pi_sent_us = 9\<rparr>) 0, Flush [Accepts 5], Queue (Close \<lparr>cl_reason = 3\<rparr>) 0,
    Flush [Accepts 2, Accepts 100, Accepts 0]]"
  let ?wire = "[5, 0, 0, 0, 12, 0, 0, 0, 1, 0, 0, 0, 9, 0, 0, 0, 0, 0, 0, 0, 4, 0, 0, 0, 2, 0, 0, 0, 3, 0] :: u8 list"
  let ?batches = "[[Segment (take 11 ?wire)], [Segment (drop 11 ?wire)]]"
  have ops: "queues_messages ?ops"
    by (simp add: deliverable_def max_message_len_def valid_Ping_def valid_Close_def img_Ping_def img_Close_def codec_size)
  have run: "run_writer ChunkWriter_new ?ops = (?wire, ChunkWriter_new)" by code_simp
  have flushed: "unsent ChunkWriter_new = []" by (simp add: unsent_def ChunkWriter_new_def)
  have live: "list_all live ?batches" by (simp add: live_def)
  have bytes: "concat (map src_bytes ?batches) = ?wire" by simp
  obtain out rd src r where reader: "run_reader ChunkReader_new [] Reassembler_new
      (?batches @ replicate (Suc (length (sent ?ops))) []) = (out, rd, src, r)"
    by (metis prod_cases4)
  from messages_delivered [OF ops run flushed live bytes reader] run reader show ?thesis
    by (intro exI [of _ ?wire] exI [of _ out] exI [of _ rd] exI [of _ r]) (simp add: numeral_3_eq_3)
qed

text \<open>
  \<open>read_reassembled\<close> and a fresh \<open>ChunkReader\<close> are the same reader as long as no call is
  abandoned: on every stream and reassembler, failures and end of stream included, they give the
  same result and leave the same stream and reassembler.
\<close>

theorem plain_reader_equivalent:
  "\<exists>rd'. next_message ChunkReader_new src r = (fst (read_reassembled src r), rd', snd (read_reassembled src r))"
  by (rule read_reassembled_next_message) (simp_all add: ChunkReader_new_def)

text \<open>
  C8: A flush finishes whenever the peer keeps taking bytes: with at least one byte accepted per
  write and enough writes, \<open>flush\<close> returns \<open>Ok\<close>, the wire has received exactly the pending bytes,
  and the writer is empty again.
\<close>

theorem flush_completes:
  assumes "writer_inv w" "length (unsent w) < length snk" "list_all (\<lambda>ev. \<exists>k. ev = Accepts (Suc k)) snk"
  shows "\<exists>snk'. flush w snk = (Ready (Inr ()), ChunkWriter_new, unsent w, snk')"
proof -
  from flush_finishes [OF assms] obtain out snk' where f: "flush w snk = (Ready (Inr ()), ChunkWriter_new, out, snk')"
    by blast
  from flush_sends [OF assms(1) f] have "unsent w = out" by (simp add: unsent_def ChunkWriter_new_def)
  with f show ?thesis by blast
qed

theorem flush_completes_witness:
  "\<exists>snk'. flush \<lparr>cw_pending = [1, 2, 3, 4], cw_written = 1\<rparr> [Accepts 2, Accepts 1, Accepts 1, Accepts 1]
     = (Ready (Inr ()), ChunkWriter_new, [2, 3, 4], snk')"
  using flush_completes [of "\<lparr>cw_pending = [1, 2, 3, 4], cw_written = 1\<rparr>" "[Accepts 2, Accepts 1, Accepts 1, Accepts 1]"]
  by (simp add: writer_inv_def unsent_def numeral_2_eq_2)

end
