(* ===== verification/Rdp_Framing.thy ===== *)
theory Rdp_Framing
  imports Wire
begin

text \<open>
  The outer layers of an RDP connection (\<open>oxrdp-pdu\<close>): TPKT (\<open>tpkt.rs\<close>), the X.224 data header
  (\<open>x224.rs\<close>), the frame that carries an MCS PDU (\<open>frame.rs\<close>), security negotiation (\<open>nego.rs\<close>)
  and the X.224 connection request and confirm (\<open>connect.rs\<close>). Every PDU with an encoder and a
  decoder is an interpretation of the codec interface of \<open>Cursor\<close>.
\<close>

section \<open>Guards and nested buffers\<close>

lemmas guarded_steps = codec_steps yields_if yields_fail

text \<open>A result computed without the cursor, such as a decoder run on a slice of its own.\<close>

definition dlift :: "decode_error + 'a \<Rightarrow> 'a decoder" where
  "dlift r c = (case r of Inl e \<Rightarrow> Inl e | Inr x \<Rightarrow> Inr (x, c))"

lemma parses_lift [reads_intros]: "r = Inr x \<Longrightarrow> parses (dlift r) (concat []) x"
  by (simp add: parses_def reads_def runs_short_def dlift_def)

lemma local_lift [local_intros]: "local_decoder (dlift r)"
  by (intro local_decoderI exI [of _ "[]"] exI) (auto simp: dlift_def reads_def split: sum.splits)

lemma yields_lift: "(\<And>x. r = Inr x \<Longrightarrow> P x) \<Longrightarrow> yields (dlift r) P"
  by (auto simp: yields_def dlift_def split: sum.splits)

section \<open>TPKT\<close>

definition TPKT_HEADER_LEN :: nat where
  "TPKT_HEADER_LEN = 4"

definition TPKT_VERSION :: u8 where
  "TPKT_VERSION = 3"

record TpktHeader =
  tp_length :: u16

definition payload_len :: "TpktHeader \<Rightarrow> nat" where
  "payload_len h = unat (tp_length h) - TPKT_HEADER_LEN"

definition decode_TpktHeader :: "TpktHeader decoder" where
  "decode_TpktHeader =
     dbind (read_u8 ''TPKT version'') (\<lambda>version.
     if version \<noteq> TPKT_VERSION then dfail (InvalidField ''TPKT'' ''version'' ''expected 3'')
     else
     dbind (read_u8 ''TPKT reserved'') (\<lambda>_.
     dbind (read_u16_be ''TPKT length'') (\<lambda>length.
     if unat length < TPKT_HEADER_LEN
     then dfail (InvalidLength ''TPKT'' ''length is smaller than the header'')
     else dreturn \<lparr>tp_length = length\<rparr>)))"

definition size_TpktHeader :: "TpktHeader \<Rightarrow> nat" where
  "size_TpktHeader h = TPKT_HEADER_LEN"

definition encode_TpktHeader :: "TpktHeader \<Rightarrow> encoder" where
  "encode_TpktHeader h = eseq
    [write_u8 TPKT_VERSION ''TPKT version'',
     write_u8 0 ''TPKT reserved'',
     write_u16_be (tp_length h) ''TPKT length'']"

definition img_TpktHeader :: "TpktHeader \<Rightarrow> u8 list" where
  "img_TpktHeader h = concat [[TPKT_VERSION], [0], be_bytes 2 (tp_length h)]"

definition valid_TpktHeader :: "TpktHeader \<Rightarrow> bool" where
  "valid_TpktHeader h \<longleftrightarrow> TPKT_HEADER_LEN \<le> unat (tp_length h)"

interpretation TpktHeader_codec: closed_wire_codec
  size_TpktHeader encode_TpktHeader decode_TpktHeader img_TpktHeader valid_TpktHeader
  by (unfold_locales; unfold size_TpktHeader_def encode_TpktHeader_def decode_TpktHeader_def
      img_TpktHeader_def valid_TpktHeader_def)
    (rule guarded_steps | simp add: codec_size TPKT_HEADER_LEN_def not_less)+

section \<open>X.224 data\<close>

definition X224_DATA_HEADER_LEN :: nat where
  "X224_DATA_HEADER_LEN = 3"

definition X224_DATA_LI :: u8 where
  "X224_DATA_LI = 0x02"

definition X224_DT_DATA_CODE :: u8 where
  "X224_DT_DATA_CODE = 0xF0"

definition X224_EOT :: u8 where
  "X224_EOT = 0x80"

datatype X224DataHeader = X224DataHeader

lemma X224DataHeader_only: "X224DataHeader = x"
  by (cases x) simp

definition decode_X224DataHeader :: "X224DataHeader decoder" where
  "decode_X224DataHeader =
     dbind (read_u8 ''X.224 length indicator'') (\<lambda>li.
     if li \<noteq> X224_DATA_LI then dfail (InvalidField ''X.224 data'' ''length indicator'' ''expected 2'')
     else
     dbind (read_u8 ''X.224 TPDU code'') (\<lambda>code.
     if code \<noteq> X224_DT_DATA_CODE
     then dfail (InvalidField ''X.224 data'' ''TPDU code'' ''expected DT data (0xF0)'')
     else
     dbind (read_u8 ''X.224 EOT'') (\<lambda>eot.
     if eot \<noteq> X224_EOT then dfail (InvalidField ''X.224 data'' ''EOT'' ''expected 0x80'')
     else dreturn X224DataHeader)))"

definition size_X224DataHeader :: "X224DataHeader \<Rightarrow> nat" where
  "size_X224DataHeader h = X224_DATA_HEADER_LEN"

definition encode_X224DataHeader :: "X224DataHeader \<Rightarrow> encoder" where
  "encode_X224DataHeader h = eseq
    [write_u8 X224_DATA_LI ''X.224 length indicator'',
     write_u8 X224_DT_DATA_CODE ''X.224 TPDU code'',
     write_u8 X224_EOT ''X.224 EOT'']"

definition img_X224DataHeader :: "X224DataHeader \<Rightarrow> u8 list" where
  "img_X224DataHeader h = concat [[X224_DATA_LI], [X224_DT_DATA_CODE], [X224_EOT]]"

definition valid_X224DataHeader :: "X224DataHeader \<Rightarrow> bool" where
  "valid_X224DataHeader h \<longleftrightarrow> True"

interpretation X224DataHeader_codec: closed_wire_codec
  size_X224DataHeader encode_X224DataHeader decode_X224DataHeader img_X224DataHeader valid_X224DataHeader
  by (unfold_locales; unfold size_X224DataHeader_def encode_X224DataHeader_def decode_X224DataHeader_def
      img_X224DataHeader_def valid_X224DataHeader_def)
    (rule guarded_steps X224DataHeader_only | simp add: codec_size X224_DATA_HEADER_LEN_def)+

section \<open>Frames that carry an MCS PDU\<close>

text \<open>\<open>total as u16\<close> keeps the low 16 bits.\<close>

definition wrap_mcs :: "u8 list \<Rightarrow> encode_error + u8 list" where
  "wrap_mcs payload =
    (let total = TPKT_HEADER_LEN + X224_DATA_HEADER_LEN + length payload in
     case encode_vec size_TpktHeader encode_TpktHeader \<lparr>tp_length = of_nat total\<rparr> of
       Inl e \<Rightarrow> Inl e
     | Inr out \<Rightarrow>
         (case encode_vec size_X224DataHeader encode_X224DataHeader X224DataHeader of
            Inl e \<Rightarrow> Inl e
          | Inr x224 \<Rightarrow> Inr (out @ x224 @ payload)))"

definition mcs_payload :: "u8 list \<Rightarrow> decode_error + u8 list" where
  "mcs_payload frame =
    (case decode decode_TpktHeader frame of
       Inl e \<Rightarrow> Inl e
     | Inr tpkt \<Rightarrow>
         (let stop = min (unat (tp_length tpkt)) (length frame);
              start = TPKT_HEADER_LEN + X224_DATA_HEADER_LEN in
          if stop < start
          then Inl (InvalidLength ''MCS frame'' ''frame shorter than TPKT+X224 headers'')
          else case decode decode_X224DataHeader (drop TPKT_HEADER_LEN frame) of
                 Inl e \<Rightarrow> Inl e
               | Inr _ \<Rightarrow> Inr (take (stop - start) (drop start frame))))"

definition mcs_frame :: "u8 list \<Rightarrow> u8 list" where
  "mcs_frame payload = img_TpktHeader \<lparr>tp_length = of_nat (7 + length payload)\<rparr>
     @ img_X224DataHeader X224DataHeader @ payload"

text \<open>The header encoders do not look at the length, so wrapping never fails.\<close>

lemma encode_TpktHeader_total: "encode_vec size_TpktHeader encode_TpktHeader h = Inr (img_TpktHeader h)"
proof -
  have "emits (encode_TpktHeader h) (img_TpktHeader h)"
    unfolding encode_TpktHeader_def img_TpktHeader_def by (intro writes_intros)
  then have "encode_TpktHeader h (wc_at [] (replicate 4 0 @ [])) = Inr (wc_at ([] @ img_TpktHeader h) [])"
    by (rule emitsD) (simp add: img_TpktHeader_def)
  then show ?thesis
    by (simp add: encode_vec_def WriteCursor_new_at size_TpktHeader_def TPKT_HEADER_LEN_def)
qed

lemma wrap_mcs_frame: "wrap_mcs payload = Inr (mcs_frame payload)"
proof -
  have "encode_vec size_X224DataHeader encode_X224DataHeader X224DataHeader = Inr (img_X224DataHeader X224DataHeader)"
    by (rule X224DataHeader_codec.encode_vec_img) (simp add: valid_X224DataHeader_def)
  then show ?thesis
    by (simp add: wrap_mcs_def Let_def encode_TpktHeader_total mcs_frame_def TPKT_HEADER_LEN_def
        X224_DATA_HEADER_LEN_def)
qed

lemma mcs_payload_frame:
  assumes "7 + length payload < 2 ^ 16"
  shows "mcs_payload (mcs_frame payload @ rest) = Inr payload"
proof -
  let ?h = "\<lparr>tp_length = of_nat (7 + length payload)\<rparr> :: TpktHeader"
  have len: "unat (tp_length ?h) = 7 + length payload"
    using assms by (simp only: TpktHeader.simps unat_of_nat) simp
  then have "decode decode_TpktHeader (img_TpktHeader ?h @ r) = Inr ?h" for r
    by (intro TpktHeader_codec.decode_img) (simp add: valid_TpktHeader_def TPKT_HEADER_LEN_def)
  moreover have "decode decode_X224DataHeader (img_X224DataHeader X224DataHeader @ r) = Inr X224DataHeader" for r
    by (rule X224DataHeader_codec.decode_img) (simp add: valid_X224DataHeader_def)
  moreover have "length (img_TpktHeader ?h) = 4" "length (img_X224DataHeader X224DataHeader) = 3"
    by (simp_all add: img_TpktHeader_def img_X224DataHeader_def)
  ultimately show ?thesis
    using len by (simp add: mcs_payload_def mcs_frame_def TPKT_HEADER_LEN_def X224_DATA_HEADER_LEN_def Let_def)
qed


section \<open>Security negotiation\<close>

definition PROTOCOL_RDP :: u32 where
  "PROTOCOL_RDP = 0x00000000"

definition RDP_NEG_LEN :: nat where
  "RDP_NEG_LEN = 8"

definition TYPE_NEG_REQ :: u8 where
  "TYPE_NEG_REQ = 0x01"

definition TYPE_NEG_RSP :: u8 where
  "TYPE_NEG_RSP = 0x02"

definition TYPE_NEG_FAILURE :: u8 where
  "TYPE_NEG_FAILURE = 0x03"

record NegotiationRequest =
  nq_flags :: u8
  nq_requested_protocols :: u32

record NegotiationResponse =
  nr_flags :: u8
  nr_selected_protocol :: u32

record NegotiationFailure =
  nf_failure_code :: u32

definition size_NegotiationRequest :: "NegotiationRequest \<Rightarrow> nat" where
  "size_NegotiationRequest m = RDP_NEG_LEN"

definition encode_NegotiationRequest :: "NegotiationRequest \<Rightarrow> encoder" where
  "encode_NegotiationRequest m = eseq
    [write_u8 TYPE_NEG_REQ ''RDP_NEG_REQ'',
     write_u8 (nq_flags m) ''RDP_NEG_REQ'',
     write_u16_le (of_nat RDP_NEG_LEN) ''RDP_NEG_REQ'',
     write_u32_le (nq_requested_protocols m) ''RDP_NEG_REQ'']"

definition decode_NegotiationRequest :: "NegotiationRequest decoder" where
  "decode_NegotiationRequest =
     dbind (read_u8 ''RDP_NEG_REQ'') (\<lambda>typ.
     if typ \<noteq> TYPE_NEG_REQ then dfail (InvalidField ''RDP_NEG_REQ'' ''type'' ''unexpected negotiation type'')
     else
     dbind (read_u8 ''RDP_NEG_REQ'') (\<lambda>flags.
     dbind (read_u16_le ''RDP_NEG_REQ'') (\<lambda>length.
     if unat length \<noteq> RDP_NEG_LEN then dfail (InvalidLength ''RDP_NEG_REQ'' ''length must be 8'')
     else
     dbind (read_u32_le ''RDP_NEG_REQ'') (\<lambda>requested_protocols.
     dreturn \<lparr>nq_flags = flags, nq_requested_protocols = requested_protocols\<rparr>))))"

definition img_NegotiationRequest :: "NegotiationRequest \<Rightarrow> u8 list" where
  "img_NegotiationRequest m = concat
    [[TYPE_NEG_REQ], [nq_flags m], le_bytes 2 (of_nat RDP_NEG_LEN :: u16), le_bytes 4 (nq_requested_protocols m)]"

definition valid_NegotiationRequest :: "NegotiationRequest \<Rightarrow> bool" where
  "valid_NegotiationRequest m \<longleftrightarrow> True"

interpretation NegotiationRequest_codec: closed_wire_codec
  size_NegotiationRequest encode_NegotiationRequest decode_NegotiationRequest
  img_NegotiationRequest valid_NegotiationRequest
  by (unfold_locales; unfold size_NegotiationRequest_def encode_NegotiationRequest_def
      decode_NegotiationRequest_def img_NegotiationRequest_def valid_NegotiationRequest_def)
    (rule guarded_steps | simp add: codec_size RDP_NEG_LEN_def)+

definition size_NegotiationResponse :: "NegotiationResponse \<Rightarrow> nat" where
  "size_NegotiationResponse m = RDP_NEG_LEN"

definition encode_NegotiationResponse :: "NegotiationResponse \<Rightarrow> encoder" where
  "encode_NegotiationResponse m = eseq
    [write_u8 TYPE_NEG_RSP ''RDP_NEG_RSP'',
     write_u8 (nr_flags m) ''RDP_NEG_RSP'',
     write_u16_le (of_nat RDP_NEG_LEN) ''RDP_NEG_RSP'',
     write_u32_le (nr_selected_protocol m) ''RDP_NEG_RSP'']"

definition decode_NegotiationResponse :: "NegotiationResponse decoder" where
  "decode_NegotiationResponse =
     dbind (read_u8 ''RDP_NEG_RSP'') (\<lambda>typ.
     if typ \<noteq> TYPE_NEG_RSP then dfail (InvalidField ''RDP_NEG_RSP'' ''type'' ''unexpected negotiation type'')
     else
     dbind (read_u8 ''RDP_NEG_RSP'') (\<lambda>flags.
     dbind (read_u16_le ''RDP_NEG_RSP'') (\<lambda>length.
     if unat length \<noteq> RDP_NEG_LEN then dfail (InvalidLength ''RDP_NEG_RSP'' ''length must be 8'')
     else
     dbind (read_u32_le ''RDP_NEG_RSP'') (\<lambda>selected_protocol.
     dreturn \<lparr>nr_flags = flags, nr_selected_protocol = selected_protocol\<rparr>))))"

definition img_NegotiationResponse :: "NegotiationResponse \<Rightarrow> u8 list" where
  "img_NegotiationResponse m = concat
    [[TYPE_NEG_RSP], [nr_flags m], le_bytes 2 (of_nat RDP_NEG_LEN :: u16), le_bytes 4 (nr_selected_protocol m)]"

definition valid_NegotiationResponse :: "NegotiationResponse \<Rightarrow> bool" where
  "valid_NegotiationResponse m \<longleftrightarrow> True"

interpretation NegotiationResponse_codec: closed_wire_codec
  size_NegotiationResponse encode_NegotiationResponse decode_NegotiationResponse
  img_NegotiationResponse valid_NegotiationResponse
  by (unfold_locales; unfold size_NegotiationResponse_def encode_NegotiationResponse_def
      decode_NegotiationResponse_def img_NegotiationResponse_def valid_NegotiationResponse_def)
    (rule guarded_steps | simp add: codec_size RDP_NEG_LEN_def)+

definition size_NegotiationFailure :: "NegotiationFailure \<Rightarrow> nat" where
  "size_NegotiationFailure m = RDP_NEG_LEN"

definition encode_NegotiationFailure :: "NegotiationFailure \<Rightarrow> encoder" where
  "encode_NegotiationFailure m = eseq
    [write_u8 TYPE_NEG_FAILURE ''RDP_NEG_FAILURE'',
     write_u8 0 ''RDP_NEG_FAILURE'',
     write_u16_le (of_nat RDP_NEG_LEN) ''RDP_NEG_FAILURE'',
     write_u32_le (nf_failure_code m) ''RDP_NEG_FAILURE'']"

definition decode_NegotiationFailure :: "NegotiationFailure decoder" where
  "decode_NegotiationFailure =
     dbind (read_u8 ''RDP_NEG_FAILURE'') (\<lambda>typ.
     if typ \<noteq> TYPE_NEG_FAILURE
     then dfail (InvalidField ''RDP_NEG_FAILURE'' ''type'' ''unexpected negotiation type'')
     else
     dbind (read_u8 ''RDP_NEG_FAILURE'') (\<lambda>_.
     dbind (read_u16_le ''RDP_NEG_FAILURE'') (\<lambda>length.
     if unat length \<noteq> RDP_NEG_LEN then dfail (InvalidLength ''RDP_NEG_FAILURE'' ''length must be 8'')
     else
     dbind (read_u32_le ''RDP_NEG_FAILURE'') (\<lambda>failure_code.
     dreturn \<lparr>nf_failure_code = failure_code\<rparr>))))"

definition img_NegotiationFailure :: "NegotiationFailure \<Rightarrow> u8 list" where
  "img_NegotiationFailure m = concat
    [[TYPE_NEG_FAILURE], [0], le_bytes 2 (of_nat RDP_NEG_LEN :: u16), le_bytes 4 (nf_failure_code m)]"

definition valid_NegotiationFailure :: "NegotiationFailure \<Rightarrow> bool" where
  "valid_NegotiationFailure m \<longleftrightarrow> True"

interpretation NegotiationFailure_codec: closed_wire_codec
  size_NegotiationFailure encode_NegotiationFailure decode_NegotiationFailure
  img_NegotiationFailure valid_NegotiationFailure
  by (unfold_locales; unfold size_NegotiationFailure_def encode_NegotiationFailure_def
      decode_NegotiationFailure_def img_NegotiationFailure_def valid_NegotiationFailure_def)
    (rule guarded_steps | simp add: codec_size RDP_NEG_LEN_def)+

section \<open>Properties\<close>

text \<open>
  Framing an MCS PDU of at most 65528 bytes and reading the frame back gives the PDU, whatever
  follows it in the buffer, and the TPKT header announces the exact length of the frame.
\<close>

theorem mcs_frame_roundtrip:
  assumes "length payload \<le> 65528"
  shows "\<exists>frame. wrap_mcs payload = Inr frame \<and> length frame = 7 + length payload \<and>
    decode decode_TpktHeader frame = Inr \<lparr>tp_length = of_nat (length frame)\<rparr> \<and>
    mcs_payload (frame @ rest) = Inr payload"
proof -
  let ?h = "\<lparr>tp_length = of_nat (7 + length payload)\<rparr> :: TpktHeader"
  have len: "length (mcs_frame payload) = 7 + length payload"
    by (simp add: mcs_frame_def img_TpktHeader_def img_X224DataHeader_def)
  have "unat (tp_length ?h) = 7 + length payload"
    using assms by (simp only: TpktHeader.simps unat_of_nat) simp
  then have "decode decode_TpktHeader (mcs_frame payload) = Inr ?h"
    unfolding mcs_frame_def by (intro TpktHeader_codec.decode_img) (simp add: valid_TpktHeader_def TPKT_HEADER_LEN_def)
  with assms len show ?thesis
    by (intro exI [of _ "mcs_frame payload"]) (simp add: wrap_mcs_frame mcs_payload_frame)
qed

theorem mcs_frame_roundtrip_witness:
  "\<exists>frame. wrap_mcs [1, 2, 3] = Inr frame \<and> length frame = 10 \<and> mcs_payload (frame @ [9, 9]) = Inr [1, 2, 3]"
  using mcs_frame_roundtrip [of "[1, 2, 3]" "[9, 9]"] by auto

text \<open>
  For a longer PDU the length field wraps: \<open>wrap_mcs\<close> still succeeds, and reading the frame
  back never gives the PDU.
\<close>

theorem oversized_frame_misread:
  assumes "65528 < length payload"
  shows "\<exists>frame. wrap_mcs payload = Inr frame \<and> mcs_payload frame \<noteq> Inr payload"
proof -
  let ?h = "\<lparr>tp_length = of_nat (7 + length payload)\<rparr> :: TpktHeader"
  have "mcs_payload (mcs_frame payload) \<noteq> Inr payload"
  proof
    assume "mcs_payload (mcs_frame payload) = Inr payload"
    then obtain t n where t: "decode decode_TpktHeader (mcs_frame payload) = Inr t"
        and n: "payload = take (min (unat (tp_length t)) (7 + length payload) - 7) (drop 7 (mcs_frame payload))"
      by (auto simp: mcs_payload_def Let_def TPKT_HEADER_LEN_def X224_DATA_HEADER_LEN_def mcs_frame_def
          img_TpktHeader_def img_X224DataHeader_def split: sum.splits if_splits)
    from arg_cong [OF n, of length] have "length payload \<le> unat (tp_length t) - 7" by simp
    moreover have "unat (tp_length t) < 2 ^ 16" using unat_less_power [of "tp_length t"] by simp
    ultimately show False using assms by simp
  qed
  then show ?thesis by (simp add: wrap_mcs_frame)
qed

theorem oversized_frame_misread_witness:
  "\<exists>frame. wrap_mcs (replicate 65529 0) = Inr frame \<and> mcs_payload frame \<noteq> Inr (replicate 65529 0)"
  using oversized_frame_misread [of "replicate 65529 0"] by simp

end
