(* ===== verification/Rdp_Connect.thy ===== *)
theory Rdp_Connect
  imports Rdp_Framing
begin

text \<open>
  The X.224 connection request and confirm (\<open>oxrdp-pdu/src/connect.rs\<close>), with the optional
  routing cookie and the optional negotiation structure in their variable part.
\<close>

section \<open>Strings from untrusted bytes\<close>

text \<open>
  \<open>String::from_utf8_lossy\<close>: every maximal invalid part becomes U+FFFD (EF BF BD).
\<close>

definition REPLACEMENT :: "u8 list" where
  "REPLACEMENT = [0xEF, 0xBF, 0xBD]"

fun utf8_lossy :: "u8 list \<Rightarrow> u8 list" where
  "utf8_lossy [] = []"
| "utf8_lossy (a # bs) =
    (if a < 0x80 then a # utf8_lossy bs
     else if 0xC2 \<le> a \<and> a \<le> 0xDF then
       (case bs of
          b # bs' \<Rightarrow> if utf8_cont b then a # b # utf8_lossy bs' else REPLACEMENT @ utf8_lossy bs
        | [] \<Rightarrow> REPLACEMENT)
     else if 0xE0 \<le> a \<and> a \<le> 0xEF then
       (case bs of
          b # bs' \<Rightarrow>
            if utf8_cont b \<and> (a = 0xE0 \<longrightarrow> 0xA0 \<le> b) \<and> (a = 0xED \<longrightarrow> b \<le> 0x9F) then
              (case bs' of
                 c # bs'' \<Rightarrow> if utf8_cont c then a # b # c # utf8_lossy bs'' else REPLACEMENT @ utf8_lossy bs'
               | [] \<Rightarrow> REPLACEMENT)
            else REPLACEMENT @ utf8_lossy bs
        | [] \<Rightarrow> REPLACEMENT)
     else if 0xF0 \<le> a \<and> a \<le> 0xF4 then
       (case bs of
          b # bs' \<Rightarrow>
            if utf8_cont b \<and> (a = 0xF0 \<longrightarrow> 0x90 \<le> b) \<and> (a = 0xF4 \<longrightarrow> b \<le> 0x8F) then
              (case bs' of
                 c # bs'' \<Rightarrow>
                   if utf8_cont c then
                     (case bs'' of
                        d # bs''' \<Rightarrow>
                          if utf8_cont d then a # b # c # d # utf8_lossy bs''' else REPLACEMENT @ utf8_lossy bs''
                      | [] \<Rightarrow> REPLACEMENT)
                   else REPLACEMENT @ utf8_lossy bs'
               | [] \<Rightarrow> REPLACEMENT)
            else REPLACEMENT @ utf8_lossy bs
        | [] \<Rightarrow> REPLACEMENT)
     else REPLACEMENT @ utf8_lossy bs)"

lemma utf8_valid_cases:
  assumes "utf8_valid (a # bs)"
  obtains "a < 0x80" "utf8_valid bs"
  | b bs' where "\<not> a < 0x80" "0xC2 \<le> a \<and> a \<le> 0xDF" "bs = b # bs'" "utf8_cont b" "utf8_valid bs'"
  | b c bs' where "\<not> a < 0x80" "\<not> (0xC2 \<le> a \<and> a \<le> 0xDF)" "0xE0 \<le> a \<and> a \<le> 0xEF" "bs = b # c # bs'"
      "utf8_cont b \<and> (a = 0xE0 \<longrightarrow> 0xA0 \<le> b) \<and> (a = 0xED \<longrightarrow> b \<le> 0x9F)" "utf8_cont c" "utf8_valid bs'"
  | b c d bs' where "\<not> a < 0x80" "\<not> (0xC2 \<le> a \<and> a \<le> 0xDF)" "\<not> (0xE0 \<le> a \<and> a \<le> 0xEF)"
      "0xF0 \<le> a \<and> a \<le> 0xF4" "bs = b # c # d # bs'"
      "utf8_cont b \<and> (a = 0xF0 \<longrightarrow> 0x90 \<le> b) \<and> (a = 0xF4 \<longrightarrow> b \<le> 0x8F)" "utf8_cont c" "utf8_cont d"
      "utf8_valid bs'"
proof -
  note split = assms [unfolded utf8_valid.simps(2)]
  consider "a < 0x80" | "\<not> a < 0x80" "0xC2 \<le> a \<and> a \<le> 0xDF"
    | "\<not> a < 0x80" "\<not> (0xC2 \<le> a \<and> a \<le> 0xDF)" "0xE0 \<le> a \<and> a \<le> 0xEF"
    | "\<not> a < 0x80" "\<not> (0xC2 \<le> a \<and> a \<le> 0xDF)" "\<not> (0xE0 \<le> a \<and> a \<le> 0xEF)" "0xF0 \<le> a \<and> a \<le> 0xF4"
    using split by argo
  then show thesis
  proof cases
    case 1
    with split show ?thesis by (intro that(1)) simp_all
  next
    case 2
    with split obtain b bs' where "bs = b # bs'" "utf8_cont b" "utf8_valid bs'" by (cases bs) simp_all
    with 2 show ?thesis by (intro that(2))
  next
    case 3
    with split have "case bs of b # c # bs' \<Rightarrow> utf8_cont b \<and> utf8_cont c \<and> (a = 0xE0 \<longrightarrow> 0xA0 \<le> b) \<and>
        (a = 0xED \<longrightarrow> b \<le> 0x9F) \<and> utf8_valid bs' | _ \<Rightarrow> False" by (simp only: if_True if_False)
    then obtain b c bs' where "bs = b # c # bs'" "utf8_cont b \<and> (a = 0xE0 \<longrightarrow> 0xA0 \<le> b) \<and> (a = 0xED \<longrightarrow> b \<le> 0x9F)"
      "utf8_cont c" "utf8_valid bs'"
      by (auto simp del: utf8_valid.simps split: list.splits)
    with 3 show ?thesis by (intro that(3))
  next
    case 4
    with split have "case bs of b # c # d # bs' \<Rightarrow> utf8_cont b \<and> utf8_cont c \<and> utf8_cont d \<and>
        (a = 0xF0 \<longrightarrow> 0x90 \<le> b) \<and> (a = 0xF4 \<longrightarrow> b \<le> 0x8F) \<and> utf8_valid bs' | _ \<Rightarrow> False"
      by (simp only: if_True if_False)
    then obtain b c d bs' where "bs = b # c # d # bs'"
      "utf8_cont b \<and> (a = 0xF0 \<longrightarrow> 0x90 \<le> b) \<and> (a = 0xF4 \<longrightarrow> b \<le> 0x8F)" "utf8_cont c" "utf8_cont d" "utf8_valid bs'"
      by (auto simp del: utf8_valid.simps split: list.splits)
    with 4 show ?thesis by (intro that(4))
  qed
qed

lemma utf8_lossy_valid: "utf8_valid s \<Longrightarrow> utf8_lossy s = s"
proof (induction s rule: length_induct)
  case (1 s)
  show ?case
  proof (cases s)
    case (Cons a bs)
    with 1 have "utf8_valid (a # bs)" and IH: "\<And>t. length t < length s \<Longrightarrow> utf8_valid t \<Longrightarrow> utf8_lossy t = t"
      by auto
    from this(1) show ?thesis
      unfolding Cons utf8_lossy.simps(2) [of a bs]
      by (cases rule: utf8_valid_cases,
          simp_all only: Cons if_True if_False list.case IH length_Cons simp_thms lessI less_SucI)
        (rule if_P, blast)+
  qed simp
qed


section \<open>Connection request\<close>

definition CR_CDT :: u8 where
  "CR_CDT = 0xE0"

definition CC_CDT :: u8 where
  "CC_CDT = 0xD0"

definition COOKIE_PREFIX :: "u8 list" where
  "COOKIE_PREFIX = ascii ''Cookie: mstshash=''"

definition FIXED_HEADER_LEN :: nat where
  "FIXED_HEADER_LEN = 6"

record ConnectionRequest =
  cr_cookie :: "rust_string option"
  cr_negotiation :: "NegotiationRequest option"

definition cr_variable_size :: "ConnectionRequest \<Rightarrow> nat" where
  "cr_variable_size m =
    (let cookie_len = (case cr_cookie m of None \<Rightarrow> 0 | Some c \<Rightarrow> length COOKIE_PREFIX + length c + 2);
         nego_len = (case cr_negotiation m of None \<Rightarrow> 0 | Some n \<Rightarrow> size_NegotiationRequest n)
     in cookie_len + nego_len)"

definition size_ConnectionRequest :: "ConnectionRequest \<Rightarrow> nat" where
  "size_ConnectionRequest m = 1 + FIXED_HEADER_LEN + cr_variable_size m"

definition encode_ConnectionRequest :: "ConnectionRequest \<Rightarrow> encoder" where
  "encode_ConnectionRequest m =
    (let li = FIXED_HEADER_LEN + cr_variable_size m in
     if 255 < li then efail (FieldTooLarge ''X.224 CR'' ''length indicator'')
     else eseq
       [write_u8 (of_nat li) ''X.224 CR LI'',
        write_u8 CR_CDT ''X.224 CR CDT'',
        write_u16_be 0 ''X.224 CR DST-REF'',
        write_u16_be 0 ''X.224 CR SRC-REF'',
        write_u8 0 ''X.224 CR CLASS-OPTION'',
        (case cr_cookie m of None \<Rightarrow> eseq []
         | Some cookie \<Rightarrow> eseq
             [write_slice COOKIE_PREFIX ''X.224 CR cookie prefix'',
              write_slice cookie ''X.224 CR cookie identifier'',
              write_slice [13, 10] ''X.224 CR cookie terminator'']),
        (case cr_negotiation m of None \<Rightarrow> eseq [] | Some n \<Rightarrow> encode_NegotiationRequest n)])"

text \<open>\<open>body.windows(2).position(|w| w == b"\r\n")\<close>.\<close>

fun crlf_pos :: "u8 list \<Rightarrow> nat option" where
  "crlf_pos (a # b # bs) =
    (if a = 13 \<and> b = 10 then Some 0 else map_option Suc (crlf_pos (b # bs)))"
| "crlf_pos _ = None"

definition cr_negotiation_part :: "u8 list \<Rightarrow> decode_error + NegotiationRequest option" where
  "cr_negotiation_part rest =
    (if rest = [] then Inr None
     else case decode decode_NegotiationRequest rest of Inl e \<Rightarrow> Inl e | Inr n \<Rightarrow> Inr (Some n))"

text \<open>The variable part; the prefix was seen by \<open>starts_with\<close>, so reading past it cannot fail.\<close>

definition cr_variable_part :: "u8 list \<Rightarrow> decode_error + ConnectionRequest" where
  "cr_variable_part sub =
    (if take (length COOKIE_PREFIX) sub = COOKIE_PREFIX then
       (let body = drop (length COOKIE_PREFIX) sub in
        case crlf_pos body of
          None \<Rightarrow> Inl (InvalidField ''X.224 CR'' ''cookie'' ''missing CR LF terminator'')
        | Some pos \<Rightarrow>
            (case cr_negotiation_part (drop (pos + 2) body) of
               Inl e \<Rightarrow> Inl e
             | Inr n \<Rightarrow> Inr \<lparr>cr_cookie = Some (utf8_lossy (take pos body)), cr_negotiation = n\<rparr>))
     else
       (case cr_negotiation_part sub of
          Inl e \<Rightarrow> Inl e
        | Inr n \<Rightarrow> Inr \<lparr>cr_cookie = None, cr_negotiation = n\<rparr>))"

definition decode_ConnectionRequest :: "ConnectionRequest decoder" where
  "decode_ConnectionRequest =
     dbind (read_u8 ''X.224 CR LI'') (\<lambda>li.
     dbind (read_u8 ''X.224 CR CDT'') (\<lambda>cdt.
     if cdt \<noteq> CR_CDT then dfail (InvalidField ''X.224 CR'' ''tpdu code'' ''expected CR-CDT 0xE0'')
     else
     dbind (read_u16_be ''X.224 CR DST-REF'') (\<lambda>_.
     dbind (read_u16_be ''X.224 CR SRC-REF'') (\<lambda>_.
     dbind (read_u8 ''X.224 CR CLASS-OPTION'') (\<lambda>_.
     if unat li < FIXED_HEADER_LEN
     then dfail (InvalidLength ''X.224 CR'' ''LI smaller than fixed header length'')
     else
     dbind (read_slice (unat li - FIXED_HEADER_LEN) ''X.224 CR variable part'') (\<lambda>sub.
     dlift (cr_variable_part sub)))))))"

definition cr_img_variable :: "ConnectionRequest \<Rightarrow> u8 list" where
  "cr_img_variable m =
     (case cr_cookie m of None \<Rightarrow> [] | Some c \<Rightarrow> COOKIE_PREFIX @ c @ [13, 10]) @
     (case cr_negotiation m of None \<Rightarrow> [] | Some n \<Rightarrow> img_NegotiationRequest n)"

definition img_ConnectionRequest :: "ConnectionRequest \<Rightarrow> u8 list" where
  "img_ConnectionRequest m = concat
    [[of_nat (FIXED_HEADER_LEN + cr_variable_size m)], [CR_CDT], be_bytes 2 (0 :: u16), be_bytes 2 (0 :: u16),
     [0], cr_img_variable m]"

definition valid_ConnectionRequest :: "ConnectionRequest \<Rightarrow> bool" where
  "valid_ConnectionRequest m \<longleftrightarrow> FIXED_HEADER_LEN + cr_variable_size m \<le> 255 \<and>
     (\<forall>c. cr_cookie m = Some c \<longrightarrow> utf8_valid c \<and> crlf_pos c = None)"

lemma crlf_pos_end: "crlf_pos c = None \<Longrightarrow> crlf_pos (c @ 13 # 10 # rest) = Some (length c)"
  by (induction c rule: crlf_pos.induct) (auto split: if_splits)

lemma length_img_NegotiationRequest [codec_size]: "length (img_NegotiationRequest n) = 8"
  using NegotiationRequest_codec.img_size [of n]
  by (simp add: valid_NegotiationRequest_def size_NegotiationRequest_def RDP_NEG_LEN_def)

lemma length_cr_img_variable [codec_size]: "length (cr_img_variable m) = cr_variable_size m"
  by (simp add: cr_img_variable_def cr_variable_size_def codec_size size_NegotiationRequest_def
      RDP_NEG_LEN_def split: option.splits)

lemma cr_negotiation_part_img:
  "cr_negotiation_part (case n of None \<Rightarrow> [] | Some n \<Rightarrow> img_NegotiationRequest n) = Inr n"
proof (cases n)
  case (Some q)
  have "decode decode_NegotiationRequest (img_NegotiationRequest q) = Inr q"
    using NegotiationRequest_codec.decode_img [of q "[]"] by (simp add: valid_NegotiationRequest_def)
  moreover have "img_NegotiationRequest q \<noteq> []"
    using length_img_NegotiationRequest [of q] by (cases "img_NegotiationRequest q") simp_all
  ultimately show ?thesis using Some by (simp add: cr_negotiation_part_def)
qed (simp add: cr_negotiation_part_def)

lemma nego_not_cookie:
  "take (length COOKIE_PREFIX) (case n of None \<Rightarrow> [] | Some n \<Rightarrow> img_NegotiationRequest n) \<noteq> COOKIE_PREFIX"
  by (cases n) (simp_all add: COOKIE_PREFIX_def ascii_def img_NegotiationRequest_def TYPE_NEG_REQ_def of_char_def)

lemma cr_variable_part_img: "valid_ConnectionRequest m \<Longrightarrow> cr_variable_part (cr_img_variable m) = Inr m"
proof (cases "cr_cookie m")
  case None
  then show ?thesis
    by (simp add: cr_variable_part_def cr_img_variable_def nego_not_cookie cr_negotiation_part_img)
next
  case (Some c)
  assume "valid_ConnectionRequest m"
  with Some have c: "utf8_lossy c = c"
    "crlf_pos (c @ 13 # 10 # rest) = Some (length c)" for rest
    by (simp_all add: valid_ConnectionRequest_def utf8_lossy_valid crlf_pos_end)
  have "cr_negotiation_part (case cr_negotiation m of None \<Rightarrow> [] | Some n \<Rightarrow> img_NegotiationRequest n) = Inr (cr_negotiation m)"
    by (rule cr_negotiation_part_img)
  with Some c show ?thesis
    by (cases m) (simp add: cr_variable_part_def cr_img_variable_def)
qed

lemma encode_ConnectionRequest_emits:
  assumes "valid_ConnectionRequest m"
  shows "emits (encode_ConnectionRequest m) (img_ConnectionRequest m)"
proof -
  have cookie: "emits (case cr_cookie m of None \<Rightarrow> eseq [] | Some cookie \<Rightarrow> eseq
      [write_slice COOKIE_PREFIX x, write_slice cookie y, write_slice [13, 10] z])
      (case cr_cookie m of None \<Rightarrow> [] | Some c \<Rightarrow> COOKIE_PREFIX @ c @ [13, 10])" for x y z
  proof (cases "cr_cookie m")
    case (Some c)
    have "emits (eseq [write_slice COOKIE_PREFIX x, write_slice c y, write_slice [13, 10] z])
        (concat [COOKIE_PREFIX, c, [13, 10]])"
      by (intro writes_intros)
    with Some show ?thesis by simp
  qed (use emits_nil in simp)
  have nego: "emits (case cr_negotiation m of None \<Rightarrow> eseq [] | Some n \<Rightarrow> encode_NegotiationRequest n)
      (case cr_negotiation m of None \<Rightarrow> [] | Some n \<Rightarrow> img_NegotiationRequest n)"
    using emits_nil
    by (cases "cr_negotiation m") (simp_all add: NegotiationRequest_codec.enc_emits valid_NegotiationRequest_def)
  have "emits (encode_ConnectionRequest m) (concat
    [[of_nat (FIXED_HEADER_LEN + cr_variable_size m)], [CR_CDT], be_bytes 2 (0 :: u16), be_bytes 2 (0 :: u16),
     [0], (case cr_cookie m of None \<Rightarrow> [] | Some c \<Rightarrow> COOKIE_PREFIX @ c @ [13, 10]),
     (case cr_negotiation m of None \<Rightarrow> [] | Some n \<Rightarrow> img_NegotiationRequest n)])"
    unfolding encode_ConnectionRequest_def Let_def
    using assms by (intro writes_intros cookie nego) (simp add: valid_ConnectionRequest_def)
  then show ?thesis by (simp add: img_ConnectionRequest_def cr_img_variable_def)
qed

interpretation ConnectionRequest_codec: wire_codec
  size_ConnectionRequest encode_ConnectionRequest decode_ConnectionRequest
  img_ConnectionRequest valid_ConnectionRequest
proof unfold_locales
  fix m assume valid: "valid_ConnectionRequest m"
  then show "emits (encode_ConnectionRequest m) (img_ConnectionRequest m)"
    by (rule encode_ConnectionRequest_emits)
  have "unat (of_nat (FIXED_HEADER_LEN + cr_variable_size m) :: u8) = FIXED_HEADER_LEN + cr_variable_size m"
    using valid by (simp only: unat_of_nat) (simp add: valid_ConnectionRequest_def)
  with valid show "parses decode_ConnectionRequest (img_ConnectionRequest m) m"
    unfolding decode_ConnectionRequest_def img_ConnectionRequest_def
    by - (rule reads_intros | simp add: codec_size cr_variable_part_img)+
  show "length (img_ConnectionRequest m) = size_ConnectionRequest m"
    by (simp add: img_ConnectionRequest_def size_ConnectionRequest_def FIXED_HEADER_LEN_def codec_size)
qed


section \<open>Connection confirm\<close>

datatype NegotiationConfirm = Response NegotiationResponse | Failure NegotiationFailure

record ConnectionConfirm =
  cc_negotiation :: "NegotiationConfirm option"

fun size_NegotiationConfirm :: "NegotiationConfirm \<Rightarrow> nat" where
  "size_NegotiationConfirm (Response r) = size_NegotiationResponse r"
| "size_NegotiationConfirm (Failure f) = size_NegotiationFailure f"

fun encode_NegotiationConfirm :: "NegotiationConfirm \<Rightarrow> encoder" where
  "encode_NegotiationConfirm (Response r) = encode_NegotiationResponse r"
| "encode_NegotiationConfirm (Failure f) = encode_NegotiationFailure f"

definition cc_variable_size :: "ConnectionConfirm \<Rightarrow> nat" where
  "cc_variable_size m = (case cc_negotiation m of None \<Rightarrow> 0 | Some n \<Rightarrow> size_NegotiationConfirm n)"

definition size_ConnectionConfirm :: "ConnectionConfirm \<Rightarrow> nat" where
  "size_ConnectionConfirm m = 1 + FIXED_HEADER_LEN + cc_variable_size m"

definition encode_ConnectionConfirm :: "ConnectionConfirm \<Rightarrow> encoder" where
  "encode_ConnectionConfirm m =
    (let li = FIXED_HEADER_LEN + cc_variable_size m in
     if 255 < li then efail (FieldTooLarge ''X.224 CC'' ''length indicator'')
     else eseq
       [write_u8 (of_nat li) ''X.224 CC LI'',
        write_u8 CC_CDT ''X.224 CC CDT'',
        write_u16_be 0 ''X.224 CC DST-REF'',
        write_u16_be 0 ''X.224 CC SRC-REF'',
        write_u8 0 ''X.224 CC CLASS-OPTION'',
        (case cc_negotiation m of None \<Rightarrow> eseq [] | Some n \<Rightarrow> encode_NegotiationConfirm n)])"

definition cc_variable_part :: "u8 list \<Rightarrow> decode_error + ConnectionConfirm" where
  "cc_variable_part sub =
    (if sub = [] then Inr \<lparr>cc_negotiation = None\<rparr>
     else case peek_u8 ''X.224 CC negotiation type'' (ReadCursor_new sub) of
       Inl e \<Rightarrow> Inl e
     | Inr (nego_type, _) \<Rightarrow>
         (if nego_type = 0x02 then
            (case decode decode_NegotiationResponse sub of
               Inl e \<Rightarrow> Inl e | Inr r \<Rightarrow> Inr \<lparr>cc_negotiation = Some (Response r)\<rparr>)
          else if nego_type = 0x03 then
            (case decode decode_NegotiationFailure sub of
               Inl e \<Rightarrow> Inl e | Inr f \<Rightarrow> Inr \<lparr>cc_negotiation = Some (Failure f)\<rparr>)
          else Inl (InvalidField ''X.224 CC'' ''negotiation type'' ''expected 0x02 or 0x03'')))"

definition decode_ConnectionConfirm :: "ConnectionConfirm decoder" where
  "decode_ConnectionConfirm =
     dbind (read_u8 ''X.224 CC LI'') (\<lambda>li.
     dbind (read_u8 ''X.224 CC CDT'') (\<lambda>cdt.
     if cdt \<noteq> CC_CDT then dfail (InvalidField ''X.224 CC'' ''tpdu code'' ''expected CC-CDT 0xD0'')
     else
     dbind (read_u16_be ''X.224 CC DST-REF'') (\<lambda>_.
     dbind (read_u16_be ''X.224 CC SRC-REF'') (\<lambda>_.
     dbind (read_u8 ''X.224 CC CLASS-OPTION'') (\<lambda>_.
     if unat li < FIXED_HEADER_LEN
     then dfail (InvalidLength ''X.224 CC'' ''LI smaller than fixed header length'')
     else
     dbind (read_slice (unat li - FIXED_HEADER_LEN) ''X.224 CC variable part'') (\<lambda>sub.
     dlift (cc_variable_part sub)))))))"

fun img_NegotiationConfirm :: "NegotiationConfirm \<Rightarrow> u8 list" where
  "img_NegotiationConfirm (Response r) = img_NegotiationResponse r"
| "img_NegotiationConfirm (Failure f) = img_NegotiationFailure f"

definition cc_img_variable :: "ConnectionConfirm \<Rightarrow> u8 list" where
  "cc_img_variable m = (case cc_negotiation m of None \<Rightarrow> [] | Some n \<Rightarrow> img_NegotiationConfirm n)"

definition img_ConnectionConfirm :: "ConnectionConfirm \<Rightarrow> u8 list" where
  "img_ConnectionConfirm m = concat
    [[of_nat (FIXED_HEADER_LEN + cc_variable_size m)], [CC_CDT], be_bytes 2 (0 :: u16), be_bytes 2 (0 :: u16),
     [0], cc_img_variable m]"

definition valid_ConnectionConfirm :: "ConnectionConfirm \<Rightarrow> bool" where
  "valid_ConnectionConfirm m \<longleftrightarrow> True"

lemma size_NegotiationConfirm_8: "size_NegotiationConfirm n = 8"
  by (cases n) (simp_all add: size_NegotiationResponse_def size_NegotiationFailure_def RDP_NEG_LEN_def)

lemma emits_NegotiationConfirm [writes_intros]: "emits (encode_NegotiationConfirm n) (img_NegotiationConfirm n)"
  by (cases n) (simp_all add: NegotiationResponse_codec.enc_emits NegotiationFailure_codec.enc_emits
      valid_NegotiationResponse_def valid_NegotiationFailure_def)

lemma length_img_NegotiationConfirm [codec_size]: "length (img_NegotiationConfirm n) = 8"
  by (cases n) (simp_all add: img_NegotiationResponse_def img_NegotiationFailure_def)

lemma length_cc_img_variable [codec_size]: "length (cc_img_variable m) = cc_variable_size m"
  by (simp add: cc_img_variable_def cc_variable_size_def codec_size size_NegotiationConfirm_8 split: option.splits)

lemma cc_variable_small: "FIXED_HEADER_LEN + cc_variable_size m \<le> 14"
  by (simp add: FIXED_HEADER_LEN_def cc_variable_size_def size_NegotiationConfirm_8 split: option.splits)

lemma peek_first: "peek_u8 ctx (ReadCursor_new (a # bs)) = Inr (a, ReadCursor_new (a # bs))"
  by (simp add: peek_u8_def rc_ensure_def ReadCursor_new_def rc_remaining_def)

lemma cc_variable_part_img: "cc_variable_part (cc_img_variable m) = Inr m"
proof (cases "cc_negotiation m")
  case None
  then show ?thesis by (simp add: cc_variable_part_def cc_img_variable_def)
next
  case (Some n)
  have dec: "decode decode_NegotiationResponse (img_NegotiationResponse r) = Inr r"
    "decode decode_NegotiationFailure (img_NegotiationFailure f) = Inr f" for r f
    using NegotiationResponse_codec.decode_img [of r "[]"] NegotiationFailure_codec.decode_img [of f "[]"]
    by (simp_all add: valid_NegotiationResponse_def valid_NegotiationFailure_def)
  have head: "img_NegotiationResponse r = TYPE_NEG_RSP # tl (img_NegotiationResponse r)"
    "img_NegotiationFailure f = TYPE_NEG_FAILURE # tl (img_NegotiationFailure f)" for r f
    by (simp_all add: img_NegotiationResponse_def img_NegotiationFailure_def)
  have peek: "peek_u8 ctx (ReadCursor_new (img_NegotiationResponse r)) = Inr (TYPE_NEG_RSP, ReadCursor_new (img_NegotiationResponse r))"
    "peek_u8 ctx (ReadCursor_new (img_NegotiationFailure f)) = Inr (TYPE_NEG_FAILURE, ReadCursor_new (img_NegotiationFailure f))"
    for ctx r f
    using peek_first [of ctx TYPE_NEG_RSP] peek_first [of ctx TYPE_NEG_FAILURE] head by metis+
  have "img_NegotiationConfirm n \<noteq> []" using length_img_NegotiationConfirm [of n] by auto
  with Some dec peek show ?thesis
    by (cases n) (simp_all add: cc_variable_part_def cc_img_variable_def TYPE_NEG_RSP_def TYPE_NEG_FAILURE_def)
qed

lemma emits_cc_variable [writes_intros]:
  "emits (case cc_negotiation m of None \<Rightarrow> eseq [] | Some n \<Rightarrow> encode_NegotiationConfirm n) (cc_img_variable m)"
  using emits_nil by (cases "cc_negotiation m") (simp_all add: cc_img_variable_def emits_NegotiationConfirm)

interpretation ConnectionConfirm_codec: closed_wire_codec
  size_ConnectionConfirm encode_ConnectionConfirm decode_ConnectionConfirm
  img_ConnectionConfirm valid_ConnectionConfirm
proof unfold_locales
  fix m :: ConnectionConfirm
  show "emits (encode_ConnectionConfirm m) (img_ConnectionConfirm m)"
    unfolding encode_ConnectionConfirm_def img_ConnectionConfirm_def Let_def
    using cc_variable_small [of m] by (intro writes_intros) simp
  have "unat (of_nat (FIXED_HEADER_LEN + cc_variable_size m) :: u8) = FIXED_HEADER_LEN + cc_variable_size m"
    using cc_variable_small [of m] by (simp only: unat_of_nat) simp
  then show "parses decode_ConnectionConfirm (img_ConnectionConfirm m) m"
    unfolding decode_ConnectionConfirm_def img_ConnectionConfirm_def
    by - (rule reads_intros | simp add: codec_size cc_variable_part_img)+
  show "length (img_ConnectionConfirm m) = size_ConnectionConfirm m"
    by (simp add: img_ConnectionConfirm_def size_ConnectionConfirm_def FIXED_HEADER_LEN_def codec_size)
  show "local_decoder decode_ConnectionConfirm"
    unfolding decode_ConnectionConfirm_def by (intro local_intros)
  show "yields decode_ConnectionConfirm valid_ConnectionConfirm"
    by (simp add: yields_def valid_ConnectionConfirm_def)
qed

section \<open>Properties\<close>

definition sample_request :: ConnectionRequest where
  "sample_request = \<lparr>cr_cookie = Some (ascii ''eltons''), cr_negotiation = Some \<lparr>nq_flags = 0, nq_requested_protocols = 3\<rparr>\<rparr>"

text \<open>
  A connection request whose variable part fits the one-byte length and whose cookie is text
  without a line break is read back from its encoding, whatever follows, and every proper prefix is
  reported as too short.
\<close>

theorem connection_request_roundtrip:
  assumes "valid_ConnectionRequest m"
  shows "\<exists>bs. encode_vec size_ConnectionRequest encode_ConnectionRequest m = Inr bs \<and>
    decode decode_ConnectionRequest (bs @ rest) = Inr m \<and>
    (\<forall>n. n < length bs \<longrightarrow> (\<exists>ctx k r. decode decode_ConnectionRequest (take n bs) = Inl (NotEnoughBytes ctx k r)))"
  using ConnectionRequest_codec.encode_vec_img [OF assms] ConnectionRequest_codec.decode_img [OF assms]
    ConnectionRequest_codec.truncated [OF assms] ConnectionRequest_codec.img_size [OF assms] by simp

theorem connection_request_roundtrip_witness:
  "\<exists>bs. encode_vec size_ConnectionRequest encode_ConnectionRequest sample_request = Inr bs \<and>
    decode decode_ConnectionRequest (bs @ [7]) = Inr sample_request"
  using connection_request_roundtrip [of sample_request "[7]"]
  by (auto simp: sample_request_def valid_ConnectionRequest_def cr_variable_size_def FIXED_HEADER_LEN_def
      COOKIE_PREFIX_def ascii_def size_NegotiationRequest_def RDP_NEG_LEN_def)

end
