(* ===== verification/Rdp_Ber.thy ===== *)
theory Rdp_Ber
  imports Rdp_Framing
begin

text \<open>
  BER lengths, booleans and tags (\<open>oxrdp-pdu/src/ber.rs\<close>) and the MCS domain parameters, a BER
  sequence of eight integers (\<open>domain_params.rs\<close>). A \<open>usize\<close> is a natural number below 2^64.
\<close>

section \<open>Byte accumulators\<close>

text \<open>\<open>for _ in 0..n { acc = step(acc, src.read_u8()?) }\<close>.\<close>

primrec read_acc :: "('a \<Rightarrow> u8 \<Rightarrow> 'a) \<Rightarrow> string \<Rightarrow> nat \<Rightarrow> 'a \<Rightarrow> 'a decoder" where
  "read_acc step ctx 0 acc = dreturn acc"
| "read_acc step ctx (Suc n) acc = dbind (read_u8 ctx) (\<lambda>b. read_acc step ctx n (step acc b))"

lemma parses_acc: "parses (read_acc step ctx (length bs) acc) bs (foldl step acc bs)"
proof (induction bs arbitrary: acc)
  case Nil
  then show ?case by (simp add: parses_return [simplified])
next
  case (Cons b bs)
  then show ?case using parses_bind_append [OF parses_u8 Cons.IH] by simp
qed

lemma parses_acc' [reads_intros]:
  "n = length bs \<Longrightarrow> foldl step acc bs = x \<Longrightarrow> parses (read_acc step ctx n acc) bs x"
  using parses_acc [of step ctx bs acc] by simp

lemma local_acc [local_intros]: "local_decoder (read_acc step ctx n acc)"
  by (induction n arbitrary: acc) (auto intro!: local_intros)

text \<open>The two steps: a \<open>usize\<close> (which four bytes cannot overflow) and a wrapping \<open>u32\<close>.\<close>

definition shift_in :: "nat \<Rightarrow> u8 \<Rightarrow> nat" where
  "shift_in acc b = push_bit 8 acc OR unat b"

definition shift_in32 :: "u32 \<Rightarrow> u8 \<Rightarrow> u32" where
  "shift_in32 acc b = push_bit 8 acc OR ucast b"

primrec nat_of_le :: "u8 list \<Rightarrow> nat" where
  "nat_of_le [] = 0"
| "nat_of_le (b # bs) = unat b + 256 * nat_of_le bs"

lemma shift_in_eq: "shift_in acc b = acc * 256 + unat b"
  using unat_less_power [of b] by (simp add: shift_in_def shift_or)

lemma foldl_shift_in: "foldl shift_in 0 bs = nat_of_le (rev bs)"
  by (induction bs rule: rev_induct) (simp_all add: shift_in_eq)

lemma nat_of_le_bytes: "unat w < 256 ^ n \<Longrightarrow> nat_of_le (le_bytes n w) = unat w" for w :: "'a::len word"
proof (induction n arbitrary: w)
  case (Suc n)
  have "unat (ucast w :: u8) = unat w mod 256"
    by (simp add: unsigned_ucast_eq take_bit_eq_mod)
  moreover have "unat (drop_bit 8 w) = unat w div 256"
    by (simp only: unat_drop_bit_eq) (simp add: drop_bit_eq_div)
  moreover from this Suc.prems have "unat (drop_bit 8 w) < 256 ^ n"
    by (simp add: less_mult_imp_div_less mult.commute)
  ultimately show ?case using Suc.IH [of "drop_bit 8 w"] by simp
qed simp

lemma nat_of_le_zeros: "nat_of_le (bs @ replicate k 0) = nat_of_le bs"
  by (induction bs) (simp_all, induction k, simp_all)

lemma foldl_shift_in32: "foldl shift_in32 0 bs = be_value bs"
  by (induction bs rule: rev_induct) (simp_all add: shift_in32_def be_value_def or.commute)

section \<open>BER lengths\<close>

definition stripped :: "nat \<Rightarrow> u8 list" where
  "stripped len = dropWhile (\<lambda>b. b = 0) (be_bytes 8 (of_nat len :: u64))"

definition length_size :: "nat \<Rightarrow> nat" where
  "length_size len = (if len < 0x80 then 1 else 1 + length (stripped len))"

definition write_length :: "nat \<Rightarrow> string \<Rightarrow> encoder" where
  "write_length len ctx =
    (if len < 0x80 then write_u8 (of_nat len) ctx
     else if 4 < length (stripped len) then efail (FieldTooLarge ctx ''ber length'')
     else eseq [write_u8 (0x80 OR of_nat (length (stripped len))) ctx, write_slice (stripped len) ctx])"

definition read_length :: "string \<Rightarrow> nat decoder" where
  "read_length ctx =
     dbind (read_u8 ctx) (\<lambda>b.
     if b < 0x80 then dreturn (unat b)
     else if b = 0x80 then dfail (InvalidLength ctx ''indefinite length not allowed'')
     else if 4 < unat (b AND 0x7F) then dfail (InvalidLength ctx ''length too large'')
     else read_acc shift_in ctx (unat (b AND 0x7F)) 0)"

definition length_img :: "nat \<Rightarrow> u8 list" where
  "length_img len =
    (if len < 0x80 then [of_nat len] else (0x80 OR of_nat (length (stripped len))) # stripped len)"

lemma length_length_img [codec_size]: "length (length_img len) = length_size len"
  by (simp add: length_img_def length_size_def)

lemma stripped_zeros: "\<exists>k. be_bytes 8 (of_nat len :: u64) = replicate k 0 @ stripped len"
proof -
  have "be_bytes 8 (of_nat len :: u64) = takeWhile (\<lambda>b. b = 0) (be_bytes 8 (of_nat len :: u64)) @ stripped len"
    by (simp add: stripped_def)
  moreover have "takeWhile (\<lambda>b. b = 0) bs = replicate (length (takeWhile (\<lambda>b. b = 0) bs)) (0 :: u8)" for bs
    by (induction bs) simp_all
  ultimately show ?thesis by metis
qed

lemma stripped_value:
  assumes "len < 2 ^ 64"
  shows "foldl shift_in 0 (stripped len) = len"
proof -
  obtain k where "be_bytes 8 (of_nat len :: u64) = replicate k 0 @ stripped len"
    using stripped_zeros by blast
  then have "le_bytes 8 (of_nat len :: u64) = rev (stripped len) @ replicate k 0"
    by (metis be_bytes_def rev_append rev_replicate rev_rev_ident)
  moreover have "unat (of_nat len :: u64) = len"
    using assms by (simp add: unat_of_nat)
  moreover from this assms have "nat_of_le (le_bytes 8 (of_nat len :: u64)) = len"
    by (subst nat_of_le_bytes) simp_all
  ultimately show ?thesis by (simp add: foldl_shift_in nat_of_le_zeros)
qed

lemma stripped_length:
  assumes "len < 2 ^ 32"
  shows "length (stripped len) \<le> 4"
proof -
  let ?w = "of_nat len :: u64"
  have "unat ?w = len" using assms by (simp add: unat_of_nat)
  have "drop_bit 32 ?w = 0"
  proof (rule word_unat_eq_iff [THEN iffD2])
    show "unat (drop_bit 32 ?w) = unat (0 :: u64)"
      using assms \<open>unat ?w = len\<close> by (simp only: unat_drop_bit_eq) (simp add: drop_bit_eq_div)
  qed
  then have "le_bytes 4 (drop_bit 32 ?w) = replicate 4 0" by (simp add: numeral_eq_Suc)
  moreover have "le_bytes 8 ?w = le_bytes 4 ?w @ le_bytes 4 (drop_bit 32 ?w)"
    by (simp add: numeral_eq_Suc)
  ultimately have "be_bytes 8 ?w = replicate 4 0 @ rev (le_bytes 4 ?w)"
    by (simp add: be_bytes_def)
  then have "stripped len = dropWhile (\<lambda>b. b = 0) (rev (le_bytes 4 ?w))"
    by (simp add: stripped_def numeral_eq_Suc)
  then show ?thesis
    by (metis length_dropWhile_le length_le_bytes length_rev)
qed

lemma stripped_not_Nil:
  assumes "0 < len" "len < 2 ^ 64"
  shows "stripped len \<noteq> []"
  using stripped_value [OF assms(2)] assms(1) by auto

lemma emits_length [writes_intros]: "len < 2 ^ 32 \<Longrightarrow> emits (write_length len ctx) (length_img len)"
  using emits_seq [OF emits_u8 emits_seq [OF emits_slice emits_nil]] stripped_length [of len]
  by (simp add: write_length_def length_img_def emits_u8)

lemma u8_less_128: "b < 0x80 \<longleftrightarrow> unat b < 128" for b :: u8
  by (simp add: word_less_nat_alt)

lemma parses_length [reads_intros]:
  assumes "len < 2 ^ 32"
  shows "parses (read_length ctx) (length_img len) len"
proof (cases "len < 0x80")
  case True
  then have "unat (of_nat len :: u8) = len" by (simp add: unat_of_nat)
  with True have "parses (read_length ctx) (concat [[of_nat len]]) len"
    unfolding read_length_def
    by (intro parses_bind [OF parses_u8]) (simp add: u8_less_128 parses_return [simplified])
  with True show ?thesis by (simp add: length_img_def)
next
  case False
  let ?n = "length (stripped len)"
  have n: "?n \<le> 4" "0 < ?n" using stripped_length [OF assms] stripped_not_Nil [of len] assms False by auto
  then have small: "unat (of_nat ?n :: u8) = ?n" by (simp add: unat_of_nat)
  with n have first: "unat (0x80 OR of_nat ?n :: u8) = 128 + ?n" using u8_or_high [of "of_nat ?n"] by simp
  then have facts: "\<not> (0x80 OR of_nat ?n :: u8) < 0x80" "(0x80 OR of_nat ?n :: u8) \<noteq> 0x80"
    "unat ((0x80 OR of_nat ?n) AND 0x7F :: u8) = ?n"
    using n by (auto simp: u8_less_128 u8_low_bits word_unat_eq_iff)
  have "parses (read_length ctx) (concat [[0x80 OR of_nat ?n], stripped len]) len"
    unfolding read_length_def
    using facts n(1) stripped_value [of len] assms
    by (intro parses_bind [OF parses_u8]) (simp add: parses_acc')
  with False show ?thesis by (simp add: length_img_def)
qed

lemma local_length [local_intros]: "local_decoder (read_length ctx)"
  unfolding read_length_def by (intro local_intros)

section \<open>Booleans and tags\<close>

definition write_boolean :: "bool \<Rightarrow> string \<Rightarrow> encoder" where
  "write_boolean v ctx = eseq [write_u8 0x01 ctx, write_u8 0x01 ctx, write_u8 (if v then 0xFF else 0x00) ctx]"

definition read_boolean :: "string \<Rightarrow> bool decoder" where
  "read_boolean ctx =
     dbind (read_u8 ctx) (\<lambda>tag.
     if tag \<noteq> 0x01 then dfail (InvalidField ctx ''ber boolean tag'' ''unexpected tag'')
     else
     dbind (read_u8 ctx) (\<lambda>len.
     if len \<noteq> 0x01 then dfail (InvalidField ctx ''ber boolean length'' ''unexpected length'')
     else
     dbind (read_u8 ctx) (\<lambda>b. dreturn (b \<noteq> 0))))"

primrec expect_bytes :: "u8 list \<Rightarrow> string \<Rightarrow> unit decoder" where
  "expect_bytes [] ctx = dreturn ()"
| "expect_bytes (e # es) ctx =
     dbind (read_u8 ctx) (\<lambda>actual.
     if actual \<noteq> e then dfail (InvalidField ctx ''ber tag'' ''unexpected tag'') else expect_bytes es ctx)"

definition read_tag_length :: "u8 list \<Rightarrow> string \<Rightarrow> nat decoder" where
  "read_tag_length expected_tag ctx = dbind (expect_bytes expected_tag ctx) (\<lambda>_. read_length ctx)"

definition boolean_img :: "bool \<Rightarrow> u8 list" where
  "boolean_img v = concat [[0x01], [0x01], [if v then 0xFF else 0x00]]"

interpretation ber_boolean: closed_wire_codec
  "\<lambda>_. 3" "\<lambda>v. write_boolean v ''ber''" "read_boolean ''ber''" boolean_img "\<lambda>_. True"
  by (unfold_locales; unfold write_boolean_def read_boolean_def boolean_img_def)
    (rule guarded_steps | simp)+

lemma parses_tag: "parses (expect_bytes tag ctx) tag ()"
proof (induction tag)
  case (Cons e es)
  have "parses (expect_bytes (e # es) ctx) ([e] @ es) ()"
    unfolding expect_bytes.simps by (rule parses_bind_append [OF parses_u8]) (simp add: Cons.IH)
  then show ?case by simp
qed (simp add: parses_return [simplified])

lemma parses_tag_length [reads_intros]:
  "len < 2 ^ 32 \<Longrightarrow> parses (read_tag_length tag ctx) (tag @ length_img len) len"
  unfolding read_tag_length_def by (rule parses_bind_append [OF parses_tag]) (rule parses_length)

section \<open>Domain parameters\<close>

fun strip_zeros :: "nat \<Rightarrow> u8 list \<Rightarrow> u8 list" where
  "strip_zeros (Suc k) (b # bs) = (if b = 0 then strip_zeros k bs else b # bs)"
| "strip_zeros _ bs = bs"

text \<open>\<open>while i < 3 && be[i] == 0 { i += 1 }\<close> leaves at least one byte.\<close>

definition integer_content :: "u32 \<Rightarrow> u8 list" where
  "integer_content v =
    (let content = strip_zeros 3 (be_bytes 4 v) in
     if content ! 0 AND 0x80 \<noteq> 0 then 0x00 # content else content)"

definition integer_size :: "u32 \<Rightarrow> nat" where
  "integer_size v = (let c = length (integer_content v) in 1 + length_size c + c)"

definition write_integer :: "u32 \<Rightarrow> string \<Rightarrow> encoder" where
  "write_integer v ctx =
    (let c = integer_content v in
     eseq [write_u8 0x02 ctx, write_length (length c) ctx, write_slice c ctx])"

definition read_integer :: "string \<Rightarrow> u32 decoder" where
  "read_integer ctx =
     dbind (read_u8 ctx) (\<lambda>tag.
     if tag \<noteq> 0x02 then dfail (InvalidField ctx ''ber tag'' ''expected INTEGER 0x02'')
     else
     dbind (read_length ctx) (\<lambda>len.
     if len = 0 \<or> 5 < len then dfail (InvalidLength ctx ''bad INTEGER length'')
     else read_acc shift_in32 ctx len 0))"

definition integer_img :: "u32 \<Rightarrow> u8 list" where
  "integer_img v = concat [[0x02], length_img (length (integer_content v)), integer_content v]"

lemma be_value_zero: "be_value (0 # bs) = be_value bs"
proof -
  have "le_value (bs @ [0]) = le_value bs" for bs by (induction bs) simp_all
  then show ?thesis by (simp add: be_value_def)
qed

lemma strip_zeros_value: "be_value (strip_zeros k bs) = be_value bs"
  by (induction k bs rule: strip_zeros.induct) (simp_all add: be_value_zero)

lemma strip_zeros_length: "length (strip_zeros k bs) \<le> length bs \<and> length bs \<le> length (strip_zeros k bs) + k"
  by (induction k bs rule: strip_zeros.induct) auto

lemma integer_content_length: "1 \<le> length (integer_content v)" "length (integer_content v) \<le> 5"
  using strip_zeros_length [of 3 "be_bytes 4 v"] by (simp_all add: integer_content_def Let_def)

lemma integer_content_value: "be_value (integer_content v) = v"
  by (simp add: integer_content_def Let_def be_value_zero strip_zeros_value word_bytes)

lemma integer_size_img [codec_size]: "length (integer_img v) = integer_size v"
  by (simp add: integer_img_def integer_size_def Let_def codec_size)

lemma integer_size_bounds: "integer_size v \<le> 7"
  using integer_content_length [of v] by (simp add: integer_size_def Let_def length_size_def)

lemma emits_integer [writes_intros]: "emits (write_integer v ctx) (integer_img v)"
  unfolding write_integer_def integer_img_def Let_def
  using integer_content_length [of v] by (intro writes_intros) simp

lemma parses_integer [reads_intros]: "parses (read_integer ctx) (integer_img v) v"
proof -
  have len: "\<not> (length (integer_content v) = 0 \<or> 5 < length (integer_content v))"
    "length (integer_content v) < 2 ^ 32"
    using integer_content_length [of v] by auto
  show ?thesis
    unfolding read_integer_def integer_img_def concat.simps append_Nil2
    using len
    by (intro parses_bind_append [OF parses_u8] parses_if_not parses_bind_append [OF parses_length] parses_acc')
      (simp_all add: foldl_shift_in32 integer_content_value)
qed

lemma local_integer [local_intros]: "local_decoder (read_integer ctx)"
  unfolding read_integer_def by (intro local_intros)

lemma foldl_shift_in32_be_bytes: "foldl shift_in32 acc (be_bytes 4 v) = v"
proof -
  obtain b1 b2 b3 b4 where bs: "be_bytes 4 v = [b1, b2, b3, b4]"
    by (simp add: be_bytes_def numeral_eq_Suc)
  have "foldl shift_in32 acc [b1, b2, b3, b4] = foldl shift_in32 0 [b1, b2, b3, b4]"
    by (rule bit_word_eqI) (auto simp: shift_in32_def bit_simps)
  also have "\<dots> = v" using bs by (simp only: foldl_shift_in32) (simp add: be_value_be_bytes_full flip: bs)
  finally show ?thesis using bs by simp
qed

section \<open>Properties\<close>

text \<open>
  An INTEGER of five content bytes is accepted whatever its first byte, which is dropped: the value
  is that of the last four.
\<close>

theorem integer_high_byte_dropped:
  "decode (read_integer ctx) ([0x02, 0x05, b] @ be_bytes 4 v @ rest) = Inr v"
proof -
  have "foldl shift_in32 0 (b # be_bytes 4 v) = v"
    by (simp add: foldl_shift_in32_be_bytes)
  then have "parses (read_integer ctx) ([0x02] @ length_img 5 @ b # be_bytes 4 v) v"
    unfolding read_integer_def
    by (intro parses_bind_append [OF parses_u8] parses_if_not parses_bind_append [OF parses_length] parses_acc') simp_all
  from readsD [OF parses_reads [OF this], of "[]" rest] show ?thesis
    by (simp add: decode_def ReadCursor_new_at length_img_def)
qed

end
