(* ===== verification/Rdp_Gcc.thy ===== *)
theory Rdp_Gcc
  imports Rdp_Framing
begin

text \<open>
  The GCC user-data blocks of the basic settings exchange: what the client sends
  (\<open>oxrdp-pdu/src/gcc.rs\<close>) and what the server answers (\<open>gcc_server.rs\<close>).
\<close>

section \<open>Client blocks\<close>

definition CS_CORE :: u16 where "CS_CORE = 0xC001"
definition CS_SECURITY :: u16 where "CS_SECURITY = 0xC002"
definition CS_NET :: u16 where "CS_NET = 0xC003"
definition CS_CORE_LEN :: u16 where "CS_CORE_LEN = 216"

definition read_ud_header :: "u16 \<Rightarrow> string \<Rightarrow> u16 decoder" where
  "read_ud_header expected_type ctx =
     dbind (read_u16_le ctx) (\<lambda>ty.
     if ty \<noteq> expected_type then dfail (InvalidField ctx ''ud type'' ''unexpected GCC block type'')
     else dbind (read_u16_le ctx) (\<lambda>len. dreturn len))"

definition ud_header_img :: "u16 \<Rightarrow> u16 \<Rightarrow> u8 list" where
  "ud_header_img ty len = concat [le_bytes 2 ty, le_bytes 2 len]"

lemma parses_ud_header [reads_intros]: "parses (read_ud_header ty ctx) (ud_header_img ty len) len"
  unfolding read_ud_header_def ud_header_img_def by (rule reads_intros | simp)+

lemma local_ud_header [local_intros]: "local_decoder (read_ud_header ty ctx)"
  unfolding read_ud_header_def by (intro local_intros)

lemma length_ud_header_img [codec_size]: "length (ud_header_img ty len) = 4"
  by (simp add: ud_header_img_def)

subsection \<open>CS_CORE\<close>

record ClientCoreData =
  core_version :: u32
  core_desktop_width :: u16
  core_desktop_height :: u16
  core_color_depth :: u16
  core_sas_sequence :: u16
  core_keyboard_layout :: u32
  core_client_build :: u32
  core_client_name :: "u8 list"
  core_keyboard_type :: u32
  core_keyboard_subtype :: u32
  core_keyboard_function_key :: u32
  core_ime_file_name :: "u8 list"

definition size_ClientCoreData :: "ClientCoreData \<Rightarrow> nat" where
  "size_ClientCoreData m = unat CS_CORE_LEN"

definition encode_ClientCoreData :: "ClientCoreData \<Rightarrow> encoder" where
  "encode_ClientCoreData m = (let CTX = ''GCC CS_CORE'' in eseq
    [write_u16_le CS_CORE CTX,
     write_u16_le CS_CORE_LEN CTX,
     write_u32_le (core_version m) CTX,
     write_u16_le (core_desktop_width m) CTX,
     write_u16_le (core_desktop_height m) CTX,
     write_u16_le (core_color_depth m) CTX,
     write_u16_le (core_sas_sequence m) CTX,
     write_u32_le (core_keyboard_layout m) CTX,
     write_u32_le (core_client_build m) CTX,
     write_slice (core_client_name m) CTX,
     write_u32_le (core_keyboard_type m) CTX,
     write_u32_le (core_keyboard_subtype m) CTX,
     write_u32_le (core_keyboard_function_key m) CTX,
     write_slice (core_ime_file_name m) CTX,
     write_u16_le (core_color_depth m) CTX,
     write_u16_le 1 CTX,
     write_u32_le 0 CTX,
     write_u16_le 0x0018 CTX,
     write_u16_le 0x0007 CTX,
     write_u16_le 0x0001 CTX,
     write_slice (replicate 64 0) CTX,
     write_u8 0 CTX,
     write_u8 0 CTX,
     write_u32_le 0x00000001 CTX])"

definition decode_ClientCoreData :: "ClientCoreData decoder" where
  "decode_ClientCoreData = (let CTX = ''GCC CS_CORE'' in
     dbind (read_ud_header CS_CORE CTX) (\<lambda>len.
     if unat len < 132
     then dfail (InvalidLength CTX ''CS_CORE block shorter than the 132-byte mandatory part'')
     else
     dbind (read_u32_le CTX) (\<lambda>version.
     dbind (read_u16_le CTX) (\<lambda>desktop_width.
     dbind (read_u16_le CTX) (\<lambda>desktop_height.
     dbind (read_u16_le CTX) (\<lambda>color_depth.
     dbind (read_u16_le CTX) (\<lambda>sas_sequence.
     dbind (read_u32_le CTX) (\<lambda>keyboard_layout.
     dbind (read_u32_le CTX) (\<lambda>client_build.
     dbind (read_array 32 CTX) (\<lambda>client_name.
     dbind (read_u32_le CTX) (\<lambda>keyboard_type.
     dbind (read_u32_le CTX) (\<lambda>keyboard_subtype.
     dbind (read_u32_le CTX) (\<lambda>keyboard_function_key.
     dbind (read_array 64 CTX) (\<lambda>ime_file_name.
     let extended = unat len - 132 in
     dbind (if extended > 0 then read_slice extended CTX else dreturn []) (\<lambda>_.
     dreturn \<lparr>core_version = version, core_desktop_width = desktop_width,
       core_desktop_height = desktop_height, core_color_depth = color_depth,
       core_sas_sequence = sas_sequence, core_keyboard_layout = keyboard_layout,
       core_client_build = client_build, core_client_name = client_name,
       core_keyboard_type = keyboard_type, core_keyboard_subtype = keyboard_subtype,
       core_keyboard_function_key = keyboard_function_key, core_ime_file_name = ime_file_name\<rparr>)))))))))))))))"

definition core_extension :: "ClientCoreData \<Rightarrow> u8 list" where
  "core_extension m = concat
    [le_bytes 2 (core_color_depth m), le_bytes 2 (1 :: u16), le_bytes 4 (0 :: u32), le_bytes 2 (0x0018 :: u16),
     le_bytes 2 (0x0007 :: u16), le_bytes 2 (0x0001 :: u16), replicate 64 0, [0], [0], le_bytes 4 (0x00000001 :: u32)]"

definition img_ClientCoreData :: "ClientCoreData \<Rightarrow> u8 list" where
  "img_ClientCoreData m = concat
    [ud_header_img CS_CORE CS_CORE_LEN, le_bytes 4 (core_version m), le_bytes 2 (core_desktop_width m),
     le_bytes 2 (core_desktop_height m), le_bytes 2 (core_color_depth m), le_bytes 2 (core_sas_sequence m),
     le_bytes 4 (core_keyboard_layout m), le_bytes 4 (core_client_build m), core_client_name m,
     le_bytes 4 (core_keyboard_type m), le_bytes 4 (core_keyboard_subtype m),
     le_bytes 4 (core_keyboard_function_key m), core_ime_file_name m, core_extension m]"

text \<open>The two arrays of the struct have their declared lengths.\<close>

definition valid_ClientCoreData :: "ClientCoreData \<Rightarrow> bool" where
  "valid_ClientCoreData m \<longleftrightarrow> length (core_client_name m) = 32 \<and> length (core_ime_file_name m) = 64"

lemma length_core_extension [codec_size]: "length (core_extension m) = 84"
  by (simp add: core_extension_def)

lemma parses_extension: "length bs = n \<Longrightarrow> parses (if n > 0 then read_slice n ctx else dreturn []) bs bs"
  by (cases "n = 0") (simp_all add: parses_slice parses_return [simplified])

lemma yields_bind_array: "(\<And>bs. length bs = n \<Longrightarrow> yields (f bs) P) \<Longrightarrow> yields (dbind (read_array n ctx) f) P"
  by (rule yields_bind [OF yields_array])

lemmas gcc_steps = writes_intros reads_intros local_intros yields_bind_array yields_bind_any yields_return
  yields_if yields_fail

lemma emits_ClientCoreData: "emits (encode_ClientCoreData m) (img_ClientCoreData m)"
proof -
  have "emits (encode_ClientCoreData m) (concat
    [le_bytes 2 CS_CORE, le_bytes 2 CS_CORE_LEN, le_bytes 4 (core_version m), le_bytes 2 (core_desktop_width m),
     le_bytes 2 (core_desktop_height m), le_bytes 2 (core_color_depth m), le_bytes 2 (core_sas_sequence m),
     le_bytes 4 (core_keyboard_layout m), le_bytes 4 (core_client_build m), core_client_name m,
     le_bytes 4 (core_keyboard_type m), le_bytes 4 (core_keyboard_subtype m),
     le_bytes 4 (core_keyboard_function_key m), core_ime_file_name m,
     le_bytes 2 (core_color_depth m), le_bytes 2 (1 :: u16), le_bytes 4 (0 :: u32), le_bytes 2 (0x0018 :: u16),
     le_bytes 2 (0x0007 :: u16), le_bytes 2 (0x0001 :: u16), replicate 64 0, [0], [0], le_bytes 4 (0x00000001 :: u32)])"
    unfolding encode_ClientCoreData_def Let_def by (intro writes_intros)
  then show ?thesis
    by (simp only: img_ClientCoreData_def core_extension_def ud_header_img_def concat.simps append_assoc append_Nil2)
qed

interpretation ClientCoreData_codec: closed_wire_codec
  size_ClientCoreData encode_ClientCoreData decode_ClientCoreData img_ClientCoreData valid_ClientCoreData
proof unfold_locales
  fix m :: ClientCoreData
  show "emits (encode_ClientCoreData m) (img_ClientCoreData m)" by (rule emits_ClientCoreData)
  assume "valid_ClientCoreData m"
  then show "parses decode_ClientCoreData (img_ClientCoreData m) m"
    unfolding decode_ClientCoreData_def img_ClientCoreData_def Let_def valid_ClientCoreData_def CS_CORE_LEN_def
    by - (rule parses_extension reads_intros | simp add: codec_size)+
  from \<open>valid_ClientCoreData m\<close> show "length (img_ClientCoreData m) = size_ClientCoreData m"
    by (simp add: img_ClientCoreData_def size_ClientCoreData_def valid_ClientCoreData_def codec_size CS_CORE_LEN_def)
next
  show "local_decoder decode_ClientCoreData"
    unfolding decode_ClientCoreData_def Let_def by (intro local_intros)
  show "yields decode_ClientCoreData valid_ClientCoreData"
    unfolding decode_ClientCoreData_def Let_def by (rule gcc_steps | simp add: valid_ClientCoreData_def)+
qed


subsection \<open>CS_SECURITY\<close>

record ClientSecurityData =
  sec_encryption_methods :: u32
  sec_ext_encryption_methods :: u32

definition size_ClientSecurityData :: "ClientSecurityData \<Rightarrow> nat" where
  "size_ClientSecurityData m = 12"

definition encode_ClientSecurityData :: "ClientSecurityData \<Rightarrow> encoder" where
  "encode_ClientSecurityData m = (let CTX = ''GCC CS_SECURITY'' in eseq
    [write_u16_le CS_SECURITY CTX,
     write_u16_le 12 CTX,
     write_u32_le (sec_encryption_methods m) CTX,
     write_u32_le (sec_ext_encryption_methods m) CTX])"

definition decode_ClientSecurityData :: "ClientSecurityData decoder" where
  "decode_ClientSecurityData = (let CTX = ''GCC CS_SECURITY'' in
     dbind (read_ud_header CS_SECURITY CTX) (\<lambda>len.
     if len \<noteq> 12 then dfail (InvalidLength CTX ''expected CS_SECURITY block length of 12 bytes'')
     else
     dbind (read_u32_le CTX) (\<lambda>encryption_methods.
     dbind (read_u32_le CTX) (\<lambda>ext_encryption_methods.
     dreturn \<lparr>sec_encryption_methods = encryption_methods,
       sec_ext_encryption_methods = ext_encryption_methods\<rparr>))))"

definition img_ClientSecurityData :: "ClientSecurityData \<Rightarrow> u8 list" where
  "img_ClientSecurityData m = concat
    [ud_header_img CS_SECURITY 12, le_bytes 4 (sec_encryption_methods m), le_bytes 4 (sec_ext_encryption_methods m)]"

definition valid_ClientSecurityData :: "ClientSecurityData \<Rightarrow> bool" where
  "valid_ClientSecurityData m \<longleftrightarrow> True"

lemma emits_ClientSecurityData: "emits (encode_ClientSecurityData m) (img_ClientSecurityData m)"
proof -
  have "emits (encode_ClientSecurityData m) (concat [le_bytes 2 CS_SECURITY, le_bytes 2 (12 :: u16),
      le_bytes 4 (sec_encryption_methods m), le_bytes 4 (sec_ext_encryption_methods m)])"
    unfolding encode_ClientSecurityData_def Let_def by (intro writes_intros)
  then show ?thesis
    by (simp only: img_ClientSecurityData_def ud_header_img_def concat.simps append_assoc append_Nil2)
qed

interpretation ClientSecurityData_codec: closed_wire_codec
  size_ClientSecurityData encode_ClientSecurityData decode_ClientSecurityData
  img_ClientSecurityData valid_ClientSecurityData
proof unfold_locales
  fix m :: ClientSecurityData
  show "emits (encode_ClientSecurityData m) (img_ClientSecurityData m)" by (rule emits_ClientSecurityData)
  show "parses decode_ClientSecurityData (img_ClientSecurityData m) m"
    unfolding decode_ClientSecurityData_def img_ClientSecurityData_def Let_def by (rule reads_intros | simp)+
  show "length (img_ClientSecurityData m) = size_ClientSecurityData m"
    by (simp add: img_ClientSecurityData_def size_ClientSecurityData_def codec_size)
  show "local_decoder decode_ClientSecurityData"
    unfolding decode_ClientSecurityData_def Let_def by (intro local_intros)
  show "yields decode_ClientSecurityData valid_ClientSecurityData"
    by (simp add: yields_def valid_ClientSecurityData_def)
qed

subsection \<open>CS_NET\<close>

record ChannelDef =
  cd_name :: "u8 list"
  cd_options :: u32

record ClientNetworkData =
  net_channels :: "ChannelDef list"

definition size_ClientNetworkData :: "ClientNetworkData \<Rightarrow> nat" where
  "size_ClientNetworkData m = 4 + 4 + length (net_channels m) * 12"

definition encode_ChannelDef :: "ChannelDef \<Rightarrow> encoder" where
  "encode_ChannelDef c = eseq
    [write_slice (cd_name c) ''GCC CS_NET'', write_u32_le (cd_options c) ''GCC CS_NET'']"

definition encode_ClientNetworkData :: "ClientNetworkData \<Rightarrow> encoder" where
  "encode_ClientNetworkData m = (let CTX = ''GCC CS_NET''; total_len = size_ClientNetworkData m in
     if 65535 < total_len then efail (FieldTooLarge CTX ''length'')
     else eseq
      [write_u16_le CS_NET CTX,
       write_u16_le (of_nat total_len) CTX,
       (if 4294967295 < length (net_channels m) then efail (FieldTooLarge CTX ''channelCount'')
        else write_u32_le (of_nat (length (net_channels m))) CTX),
       eseq (map encode_ChannelDef (net_channels m))])"

definition decode_ChannelDef :: "ChannelDef decoder" where
  "decode_ChannelDef =
     dbind (read_array 8 ''GCC CS_NET'') (\<lambda>name.
     dbind (read_u32_le ''GCC CS_NET'') (\<lambda>options.
     dreturn \<lparr>cd_name = name, cd_options = options\<rparr>))"

text \<open>The announced length is compared with the low 16 bits of the expected one.\<close>

definition decode_ClientNetworkData :: "ClientNetworkData decoder" where
  "decode_ClientNetworkData = (let CTX = ''GCC CS_NET'' in
     dbind (read_ud_header CS_NET CTX) (\<lambda>len.
     dbind (read_u32_le CTX) (\<lambda>channel_count.
     if 4294967295 div 12 < unat channel_count
     then dfail (InvalidField CTX ''channelCount'' ''channel count too large'')
     else if 4294967295 < unat channel_count * 12
     then dfail (InvalidField CTX ''channelCount'' ''overflow calculating total length'')
     else if 4294967295 < unat channel_count * 12 + 8
     then dfail (InvalidField CTX ''channelCount'' ''overflow calculating total length'')
     else if len \<noteq> of_nat (unat channel_count * 12 + 8)
     then dfail (InvalidLength CTX ''CS_NET length does not match channel count'')
     else
     dbind (dtimes (unat channel_count) decode_ChannelDef) (\<lambda>channels.
     dreturn \<lparr>net_channels = channels\<rparr>))))"

definition img_ChannelDef :: "ChannelDef \<Rightarrow> u8 list" where
  "img_ChannelDef c = concat [cd_name c, le_bytes 4 (cd_options c)]"

definition img_ClientNetworkData :: "ClientNetworkData \<Rightarrow> u8 list" where
  "img_ClientNetworkData m = concat
    [ud_header_img CS_NET (of_nat (size_ClientNetworkData m)), le_bytes 4 (of_nat (length (net_channels m)) :: u32),
     concat (map img_ChannelDef (net_channels m))]"

definition valid_ClientNetworkData :: "ClientNetworkData \<Rightarrow> bool" where
  "valid_ClientNetworkData m \<longleftrightarrow> size_ClientNetworkData m \<le> 65535 \<and>
     list_all (\<lambda>c. length (cd_name c) = 8) (net_channels m)"

lemma emits_ChannelDef: "emits (encode_ChannelDef c) (img_ChannelDef c)"
  unfolding encode_ChannelDef_def img_ChannelDef_def by (intro writes_intros)

lemma parses_ChannelDef: "length (cd_name c) = 8 \<Longrightarrow> parses decode_ChannelDef (img_ChannelDef c) c"
  unfolding decode_ChannelDef_def img_ChannelDef_def by (rule reads_intros | simp)+

lemma length_img_channels:
  "list_all (\<lambda>c. length (cd_name c) = 8) cs \<Longrightarrow> length (concat (map img_ChannelDef cs)) = length cs * 12"
  by (induction cs) (simp_all add: img_ChannelDef_def)

lemma emits_ClientNetworkData:
  assumes "size_ClientNetworkData m \<le> 65535"
  shows "emits (encode_ClientNetworkData m) (img_ClientNetworkData m)"
proof -
  have "emits (encode_ClientNetworkData m) (concat [le_bytes 2 CS_NET, le_bytes 2 (of_nat (size_ClientNetworkData m) :: u16),
      le_bytes 4 (of_nat (length (net_channels m)) :: u32), concat (map img_ChannelDef (net_channels m))])"
    unfolding encode_ClientNetworkData_def Let_def
    using assms by (intro writes_intros emits_map emits_ChannelDef) (simp_all add: size_ClientNetworkData_def)
  then show ?thesis
    by (simp only: img_ClientNetworkData_def ud_header_img_def concat.simps append_assoc append_Nil2)
qed

interpretation ClientNetworkData_codec: wire_codec
  size_ClientNetworkData encode_ClientNetworkData decode_ClientNetworkData
  img_ClientNetworkData valid_ClientNetworkData
proof unfold_locales
  fix m assume valid: "valid_ClientNetworkData m"
  then show "emits (encode_ClientNetworkData m) (img_ClientNetworkData m)"
    by (simp add: emits_ClientNetworkData valid_ClientNetworkData_def)
  let ?n = "length (net_channels m)"
  have small: "?n * 12 + 8 \<le> 65535" using valid by (simp add: valid_ClientNetworkData_def size_ClientNetworkData_def)
  then have count: "unat (of_nat ?n :: u32) = ?n" by (simp add: unat_of_nat)
  have "parses (dtimes ?n decode_ChannelDef) (concat (map img_ChannelDef (net_channels m))) (net_channels m)"
    using valid by (intro parses_times parses_ChannelDef) (auto simp: valid_ClientNetworkData_def list_all_iff)
  moreover have "size_ClientNetworkData m = ?n * 12 + 8" by (simp add: size_ClientNetworkData_def)
  ultimately show "parses decode_ClientNetworkData (img_ClientNetworkData m) m"
    unfolding decode_ClientNetworkData_def img_ClientNetworkData_def Let_def
    using small count by - (rule reads_intros | simp)+
  show "length (img_ClientNetworkData m) = size_ClientNetworkData m"
    using valid by (simp add: img_ClientNetworkData_def size_ClientNetworkData_def valid_ClientNetworkData_def
        codec_size length_img_channels)
qed


section \<open>Server blocks\<close>

definition SC_CORE :: u16 where "SC_CORE = 0x0C01"
definition SC_NET :: u16 where "SC_NET = 0x0C03"

subsection \<open>SC_CORE\<close>

record ServerCoreData =
  sc_version :: u32
  sc_client_requested_protocols :: "u32 option"
  sc_early_capability_flags :: "u32 option"

definition size_ServerCoreData :: "ServerCoreData \<Rightarrow> nat" where
  "size_ServerCoreData m = 4 + 4 +
    (if sc_client_requested_protocols m \<noteq> None
     then 4 + (if sc_early_capability_flags m \<noteq> None then 4 else 0) else 0)"

definition encode_ServerCoreData :: "ServerCoreData \<Rightarrow> encoder" where
  "encode_ServerCoreData m = (let size = size_ServerCoreData m in
     if 65535 < size then efail (FieldTooLarge ''GCC SC_CORE'' ''length'')
     else eseq
      [write_u16_le SC_CORE ''ud type'',
       write_u16_le (of_nat size) ''ud length'',
       write_u32_le (sc_version m) ''version'',
       (case sc_client_requested_protocols m of
          None \<Rightarrow> eseq []
        | Some protocols \<Rightarrow> eseq
            [write_u32_le protocols ''clientRequestedProtocols'',
             (case sc_early_capability_flags m of
                None \<Rightarrow> eseq []
              | Some flags \<Rightarrow> write_u32_le flags ''earlyCapabilityFlags'')])])"

definition decode_ServerCoreData :: "ServerCoreData decoder" where
  "decode_ServerCoreData =
     dbind (read_u16_le ''ud type'') (\<lambda>ud_type.
     if ud_type \<noteq> SC_CORE then dfail (InvalidField ''GCC SC_CORE'' ''ud type'' ''unexpected GCC block type'')
     else
     dbind (read_u16_le ''ud length'') (\<lambda>length.
     if unat length < 4 then dfail (InvalidLength ''GCC SC_CORE'' ''length smaller than header'')
     else
     let content = unat length - 4 in
     if content < 4 then dfail (NotEnoughBytes ''GCC SC_CORE'' 4 content)
     else
     dbind (read_u32_le ''version'') (\<lambda>version.
     dbind (if content \<ge> 8 then dbind (read_u32_le ''clientRequestedProtocols'') (\<lambda>v. dreturn (Some v))
            else dreturn None) (\<lambda>client_requested_protocols.
     dbind (if content \<ge> 12 then dbind (read_u32_le ''earlyCapabilityFlags'') (\<lambda>v. dreturn (Some v))
            else dreturn None) (\<lambda>early_capability_flags.
     dreturn \<lparr>sc_version = version, sc_client_requested_protocols = client_requested_protocols,
       sc_early_capability_flags = early_capability_flags\<rparr>)))))"

definition opt_img :: "u32 option \<Rightarrow> u8 list" where
  "opt_img v = (case v of None \<Rightarrow> [] | Some w \<Rightarrow> le_bytes 4 w)"

definition img_ServerCoreData :: "ServerCoreData \<Rightarrow> u8 list" where
  "img_ServerCoreData m = concat
    [le_bytes 2 SC_CORE, le_bytes 2 (of_nat (size_ServerCoreData m) :: u16), le_bytes 4 (sc_version m),
     opt_img (sc_client_requested_protocols m), opt_img (sc_early_capability_flags m)]"

text \<open>The flags travel only behind the protocols: without them they are not written.\<close>

definition valid_ServerCoreData :: "ServerCoreData \<Rightarrow> bool" where
  "valid_ServerCoreData m \<longleftrightarrow> (sc_client_requested_protocols m = None \<longrightarrow> sc_early_capability_flags m = None)"

lemma parses_opt:
  "c \<longleftrightarrow> v \<noteq> None \<Longrightarrow>
   parses (if c then dbind (read_u32_le ctx) (\<lambda>v. dreturn (Some v)) else dreturn None) (opt_img v) v"
  using parses_map [OF parses_u32_le, of Some]
  by (cases v) (simp_all add: opt_img_def parses_return [simplified])

lemma yields_opt:
  "yields (if c then dbind (read_u32_le ctx) (\<lambda>v. dreturn (Some v)) else dreturn None) (\<lambda>v. v \<noteq> None \<longleftrightarrow> c)"
  by (auto intro!: yields_bind_any yields_return)

lemma emits_ServerCoreData:
  assumes "valid_ServerCoreData m"
  shows "emits (encode_ServerCoreData m) (img_ServerCoreData m)"
proof -
  let ?tail = "case sc_client_requested_protocols m of None \<Rightarrow> eseq []
    | Some protocols \<Rightarrow> eseq [write_u32_le protocols ''clientRequestedProtocols'',
        (case sc_early_capability_flags m of None \<Rightarrow> eseq [] | Some flags \<Rightarrow> write_u32_le flags ''earlyCapabilityFlags'')]"
  have flags: "emits (case sc_early_capability_flags m of None \<Rightarrow> eseq [] | Some flags \<Rightarrow> write_u32_le flags ctx)
      (opt_img (sc_early_capability_flags m))" for ctx
    using emits_nil by (cases "sc_early_capability_flags m") (simp_all add: opt_img_def emits_u32_le)
  have "emits ?tail (concat [opt_img (sc_client_requested_protocols m), opt_img (sc_early_capability_flags m)])"
  proof (cases "sc_client_requested_protocols m")
    case None
    with assms emits_nil show ?thesis by (simp add: opt_img_def valid_ServerCoreData_def)
  next
    case (Some p)
    have "emits (eseq [write_u32_le p ''clientRequestedProtocols'',
        (case sc_early_capability_flags m of None \<Rightarrow> eseq [] | Some flags \<Rightarrow> write_u32_le flags ''earlyCapabilityFlags'')])
        (concat [le_bytes 4 p, opt_img (sc_early_capability_flags m)])"
      by (intro writes_intros flags)
    with Some show ?thesis by (simp add: opt_img_def)
  qed
  then have "emits (encode_ServerCoreData m) (concat [le_bytes 2 SC_CORE, le_bytes 2 (of_nat (size_ServerCoreData m) :: u16),
      le_bytes 4 (sc_version m), concat [opt_img (sc_client_requested_protocols m), opt_img (sc_early_capability_flags m)]])"
    unfolding encode_ServerCoreData_def Let_def by (intro writes_intros) (simp_all add: size_ServerCoreData_def)
  then show ?thesis by (simp add: img_ServerCoreData_def)
qed

interpretation ServerCoreData_codec: closed_wire_codec
  size_ServerCoreData encode_ServerCoreData decode_ServerCoreData img_ServerCoreData valid_ServerCoreData
proof unfold_locales
  fix m assume valid: "valid_ServerCoreData m"
  then show "emits (encode_ServerCoreData m) (img_ServerCoreData m)" by (rule emits_ServerCoreData)
  have len: "unat (of_nat (size_ServerCoreData m) :: u16) = size_ServerCoreData m"
    by (simp add: size_ServerCoreData_def)
  have opts: "8 \<le> size_ServerCoreData m - 4 \<longleftrightarrow> sc_client_requested_protocols m \<noteq> None"
    "12 \<le> size_ServerCoreData m - 4 \<longleftrightarrow> sc_early_capability_flags m \<noteq> None"
    "\<not> size_ServerCoreData m < 4" "\<not> size_ServerCoreData m - 4 < 4"
    using valid by (auto simp: size_ServerCoreData_def valid_ServerCoreData_def)
  show "parses decode_ServerCoreData (img_ServerCoreData m) m"
    unfolding decode_ServerCoreData_def img_ServerCoreData_def Let_def
    by (rule parses_opt reads_intros | simp add: len opts)+
  show "length (img_ServerCoreData m) = size_ServerCoreData m"
    using valid by (auto simp: img_ServerCoreData_def size_ServerCoreData_def opt_img_def valid_ServerCoreData_def
        split: option.splits)
next
  show "local_decoder decode_ServerCoreData"
    unfolding decode_ServerCoreData_def Let_def by (intro local_intros)
  show "yields decode_ServerCoreData valid_ServerCoreData"
    unfolding decode_ServerCoreData_def Let_def
    by (rule yields_bind [OF yields_opt] gcc_steps | auto simp: valid_ServerCoreData_def)+
qed

subsection \<open>SC_NET\<close>

record ServerNetworkData =
  sn_mcs_channel_id :: u16
  sn_channel_ids :: "u16 list"

definition size_ServerNetworkData :: "ServerNetworkData \<Rightarrow> nat" where
  "size_ServerNetworkData m = 4 + 2 + 2 + length (sn_channel_ids m) * 2 +
     (if length (sn_channel_ids m) mod 2 = 1 then 2 else 0)"

definition encode_ServerNetworkData :: "ServerNetworkData \<Rightarrow> encoder" where
  "encode_ServerNetworkData m = (let size = size_ServerNetworkData m in
     if 65535 < size then efail (FieldTooLarge ''GCC SC_NET'' ''length'')
     else eseq
      [write_u16_le SC_NET ''ud type'',
       write_u16_le (of_nat size) ''ud length'',
       write_u16_le (sn_mcs_channel_id m) ''mcsChannelId'',
       (if 65535 < length (sn_channel_ids m) then efail (FieldTooLarge ''GCC SC_NET'' ''channelCount'')
        else write_u16_le (of_nat (length (sn_channel_ids m))) ''channelCount''),
       eseq (map (\<lambda>id. write_u16_le id ''channelId'') (sn_channel_ids m)),
       (if length (sn_channel_ids m) mod 2 = 1 then write_u16_le 0 ''alignmentPad'' else eseq [])])"

definition decode_ServerNetworkData :: "ServerNetworkData decoder" where
  "decode_ServerNetworkData =
     dbind (read_u16_le ''ud type'') (\<lambda>ud_type.
     if ud_type \<noteq> SC_NET then dfail (InvalidField ''GCC SC_NET'' ''ud type'' ''unexpected GCC block type'')
     else
     dbind (read_u16_le ''ud length'') (\<lambda>_.
     dbind (read_u16_le ''mcsChannelId'') (\<lambda>mcs_channel_id.
     dbind (read_u16_le ''channelCount'') (\<lambda>channel_count.
     dbind (dtimes (unat channel_count) (read_u16_le ''channelId'')) (\<lambda>channel_ids.
     dbind (if unat channel_count mod 2 = 1 then read_u16_le ''alignmentPad'' else dreturn 0) (\<lambda>_.
     dreturn \<lparr>sn_mcs_channel_id = mcs_channel_id, sn_channel_ids = channel_ids\<rparr>))))))"

definition pad_img :: "nat \<Rightarrow> u8 list" where
  "pad_img n = (if n mod 2 = 1 then le_bytes 2 (0 :: u16) else [])"

definition img_ServerNetworkData :: "ServerNetworkData \<Rightarrow> u8 list" where
  "img_ServerNetworkData m = concat
    [le_bytes 2 SC_NET, le_bytes 2 (of_nat (size_ServerNetworkData m) :: u16), le_bytes 2 (sn_mcs_channel_id m),
     le_bytes 2 (of_nat (length (sn_channel_ids m)) :: u16), concat (map (le_bytes 2) (sn_channel_ids m)),
     pad_img (length (sn_channel_ids m))]"

definition valid_ServerNetworkData :: "ServerNetworkData \<Rightarrow> bool" where
  "valid_ServerNetworkData m \<longleftrightarrow> size_ServerNetworkData m \<le> 65535"

lemma emits_pad: "emits (if n mod 2 = 1 then write_u16_le 0 ctx else eseq []) (pad_img n)"
  using emits_nil by (simp add: pad_img_def emits_u16_le)

lemma parses_pad: "n = k \<Longrightarrow> parses (if n mod 2 = 1 then read_u16_le ctx else dreturn 0) (pad_img k) 0"
  using parses_u16_le [of ctx 0] by (simp add: pad_img_def parses_return [simplified])

lemma length_pad_img [codec_size]: "length (pad_img n) = (if n mod 2 = 1 then 2 else 0)"
  by (simp add: pad_img_def)

lemma length_id_img: "length (concat (map (le_bytes 2) ids)) = length ids * 2" for ids :: "u16 list"
  by (induction ids) simp_all

lemma parses_ids: "n = length ids \<Longrightarrow> parses (dtimes n (read_u16_le ctx)) (concat (map (le_bytes 2) ids)) ids"
  using parses_times [of ids "read_u16_le ctx" "le_bytes 2"] by (simp add: parses_u16_le)

interpretation ServerNetworkData_codec: wire_codec
  size_ServerNetworkData encode_ServerNetworkData decode_ServerNetworkData
  img_ServerNetworkData valid_ServerNetworkData
proof unfold_locales
  fix m assume valid: "valid_ServerNetworkData m"
  let ?n = "length (sn_channel_ids m)"
  from valid have size: "size_ServerNetworkData m \<le> 65535" by (simp add: valid_ServerNetworkData_def)
  then have small: "?n \<le> 65535" by (simp add: size_ServerNetworkData_def)
  show "emits (encode_ServerNetworkData m) (img_ServerNetworkData m)"
    unfolding encode_ServerNetworkData_def img_ServerNetworkData_def Let_def
    using size small by (intro writes_intros emits_map emits_pad) simp_all
  have count: "unat (of_nat ?n :: u16) = ?n" using small by (simp add: unat_of_nat)
  show "parses decode_ServerNetworkData (img_ServerNetworkData m) m"
    unfolding decode_ServerNetworkData_def img_ServerNetworkData_def
    by (rule parses_pad parses_ids reads_intros | simp add: count)+
  show "length (img_ServerNetworkData m) = size_ServerNetworkData m"
    by (simp add: img_ServerNetworkData_def size_ServerNetworkData_def codec_size length_id_img)
qed

end
