(* ===== verification/Rdp_Mcs.thy ===== *)
theory Rdp_Mcs
  imports Rdp_Framing
begin

text \<open>
  The MCS domain PDUs of the channel-join phase (\<open>oxrdp-pdu/src/mcs.rs\<close>) and the send-data PDUs
  that carry everything afterwards (\<open>send_data.rs\<close>), with their aligned-PER integers and lengths.
\<close>

section \<open>PER integers\<close>

definition MCS_USERCHANNEL_BASE :: u16 where
  "MCS_USERCHANNEL_BASE = 1001"

text \<open>\<open>u16::saturating_add\<close>.\<close>

definition u16_saturating_add :: "u16 \<Rightarrow> u16 \<Rightarrow> u16" where
  "u16_saturating_add a b = (if 2 ^ 16 \<le> unat a + unat b then 0xFFFF else a + b)"

definition per_write_integer16 :: "u16 \<Rightarrow> u16 \<Rightarrow> string \<Rightarrow> encoder" where
  "per_write_integer16 value base ctx =
    (if value < base then efail (FieldTooLarge ctx ''integer16'') else write_u16_be (value - base) ctx)"

definition per_read_integer16 :: "u16 \<Rightarrow> string \<Rightarrow> u16 decoder" where
  "per_read_integer16 base ctx =
     dbind (read_u16_be ctx) (\<lambda>field. dreturn (u16_saturating_add field base))"

lemma u16_saturating_add_ge: "b \<le> u16_saturating_add a b"
proof (cases "2 ^ 16 \<le> unat a + unat b")
  case True
  have "unat b \<le> 65535" using unat_less_power [of b] by simp
  then show ?thesis using True by (simp add: u16_saturating_add_def word_le_nat_alt)
next
  case False
  then have "unat (a + b) = unat a + unat b" by (intro unat_add_lem [THEN iffD1]) simp
  with False show ?thesis by (simp add: u16_saturating_add_def word_le_nat_alt)
qed

lemma u16_saturating_add_sub: "b \<le> v \<Longrightarrow> u16_saturating_add (v - b) b = v"
proof -
  assume "b \<le> v"
  then have "unat (v - b) + unat b = unat v" by (simp add: unat_sub word_le_nat_alt)
  moreover have "unat v < 2 ^ 16" using unat_less_power [of v] by simp
  ultimately show ?thesis by (simp add: u16_saturating_add_def)
qed

lemma emits_per16 [writes_intros]: "b \<le> v \<Longrightarrow> emits (per_write_integer16 v b ctx) (be_bytes 2 (v - b))"
  unfolding per_write_integer16_def by (intro writes_intros) (simp add: leD)

lemma parses_per16 [reads_intros]: "b \<le> v \<Longrightarrow> parses (per_read_integer16 b ctx) (be_bytes 2 (v - b)) v"
  unfolding per_read_integer16_def by (rule parses_map [OF parses_u16_be]) (rule u16_saturating_add_sub)

lemma local_per16 [local_intros]: "local_decoder (per_read_integer16 b ctx)"
  unfolding per_read_integer16_def by (intro local_intros)

lemma yields_bind_per16:
  "(\<And>v. b \<le> v \<Longrightarrow> yields (f v) P) \<Longrightarrow> yields (dbind (per_read_integer16 b ctx) f) P"
  by (rule yields_bind [of _ "\<lambda>v. b \<le> v"])
    (auto simp: per_read_integer16_def u16_saturating_add_ge intro!: yields_bind_any yields_return)

text \<open>The steps of an MCS PDU: the PER rule has to be tried before the general one.\<close>

lemmas mcs_steps = writes_intros reads_intros local_intros yields_bind_per16 yields_bind_any yields_return
  yields_if yields_fail

section \<open>Domain PDUs\<close>

definition ERECT_DOMAIN_REQUEST :: u8 where "ERECT_DOMAIN_REQUEST = 0x04"
definition ATTACH_USER_REQUEST :: u8 where "ATTACH_USER_REQUEST = 0x28"
definition ATTACH_USER_CONFIRM :: u8 where "ATTACH_USER_CONFIRM = 0x2E"
definition CHANNEL_JOIN_REQUEST :: u8 where "CHANNEL_JOIN_REQUEST = 0x38"
definition CHANNEL_JOIN_CONFIRM :: u8 where "CHANNEL_JOIN_CONFIRM = 0x3E"

subsection \<open>ErectDomainRequest\<close>

datatype ErectDomainRequest = ErectDomainRequest

definition size_ErectDomainRequest :: "ErectDomainRequest \<Rightarrow> nat" where
  "size_ErectDomainRequest m = 5"

definition encode_ErectDomainRequest :: "ErectDomainRequest \<Rightarrow> encoder" where
  "encode_ErectDomainRequest m = eseq
    [write_u8 ERECT_DOMAIN_REQUEST ''MCS ErectDomainRequest'',
     write_slice [0x01, 0x00, 0x01, 0x00] ''MCS ErectDomainRequest body'']"

definition decode_ErectDomainRequest :: "ErectDomainRequest decoder" where
  "decode_ErectDomainRequest =
     dbind (read_u8 ''MCS ErectDomainRequest'') (\<lambda>tag.
     if tag \<noteq> ERECT_DOMAIN_REQUEST
     then dfail (InvalidField ''MCS ErectDomainRequest'' ''mcs choice'' ''unexpected DomainMCSPDU tag'')
     else
     dbind (read_slice 4 ''MCS ErectDomainRequest body'') (\<lambda>body.
     if body \<noteq> [0x01, 0x00, 0x01, 0x00]
     then dfail (InvalidField ''MCS ErectDomainRequest'' ''erect domain body'' ''unexpected DomainMCSPDU tag'')
     else dreturn ErectDomainRequest))"

definition img_ErectDomainRequest :: "ErectDomainRequest \<Rightarrow> u8 list" where
  "img_ErectDomainRequest m = concat [[ERECT_DOMAIN_REQUEST], [0x01, 0x00, 0x01, 0x00]]"

definition valid_ErectDomainRequest :: "ErectDomainRequest \<Rightarrow> bool" where
  "valid_ErectDomainRequest m \<longleftrightarrow> True"

lemma ErectDomainRequest_only: "ErectDomainRequest = x"
  by (cases x) simp

interpretation ErectDomainRequest_codec: closed_wire_codec
  size_ErectDomainRequest encode_ErectDomainRequest decode_ErectDomainRequest
  img_ErectDomainRequest valid_ErectDomainRequest
  by (unfold_locales; unfold size_ErectDomainRequest_def encode_ErectDomainRequest_def
      decode_ErectDomainRequest_def img_ErectDomainRequest_def valid_ErectDomainRequest_def)
    (rule mcs_steps ErectDomainRequest_only | simp)+

subsection \<open>AttachUserRequest\<close>

datatype AttachUserRequest = AttachUserRequest

definition size_AttachUserRequest :: "AttachUserRequest \<Rightarrow> nat" where
  "size_AttachUserRequest m = 1"

definition encode_AttachUserRequest :: "AttachUserRequest \<Rightarrow> encoder" where
  "encode_AttachUserRequest m = write_u8 ATTACH_USER_REQUEST ''MCS AttachUserRequest''"

definition decode_AttachUserRequest :: "AttachUserRequest decoder" where
  "decode_AttachUserRequest =
     dbind (read_u8 ''MCS AttachUserRequest'') (\<lambda>tag.
     if tag \<noteq> ATTACH_USER_REQUEST
     then dfail (InvalidField ''MCS AttachUserRequest'' ''mcs choice'' ''unexpected DomainMCSPDU tag'')
     else dreturn AttachUserRequest)"

definition img_AttachUserRequest :: "AttachUserRequest \<Rightarrow> u8 list" where
  "img_AttachUserRequest m = [ATTACH_USER_REQUEST]"

definition valid_AttachUserRequest :: "AttachUserRequest \<Rightarrow> bool" where
  "valid_AttachUserRequest m \<longleftrightarrow> True"

lemma AttachUserRequest_only: "AttachUserRequest = x"
  by (cases x) simp

interpretation AttachUserRequest_codec: closed_wire_codec
  size_AttachUserRequest encode_AttachUserRequest decode_AttachUserRequest
  img_AttachUserRequest valid_AttachUserRequest
proof unfold_locales
  fix m
  have "parses decode_AttachUserRequest (concat [[ATTACH_USER_REQUEST]]) m"
    unfolding decode_AttachUserRequest_def
    by (rule mcs_steps AttachUserRequest_only | simp only: not_not)+
  then show "parses decode_AttachUserRequest (img_AttachUserRequest m) m"
    by (simp add: img_AttachUserRequest_def)
qed (simp_all add: encode_AttachUserRequest_def img_AttachUserRequest_def size_AttachUserRequest_def emits_u8
    decode_AttachUserRequest_def valid_AttachUserRequest_def yields_def local_intros)

subsection \<open>AttachUserConfirm\<close>

record AttachUserConfirm =
  au_result :: u8
  au_user_id :: u16

definition size_AttachUserConfirm :: "AttachUserConfirm \<Rightarrow> nat" where
  "size_AttachUserConfirm m = 4"

definition encode_AttachUserConfirm :: "AttachUserConfirm \<Rightarrow> encoder" where
  "encode_AttachUserConfirm m = eseq
    [write_u8 ATTACH_USER_CONFIRM ''MCS AttachUserConfirm'',
     write_u8 (au_result m) ''MCS AttachUserConfirm result'',
     per_write_integer16 (au_user_id m) MCS_USERCHANNEL_BASE ''MCS AttachUserConfirm initiator'']"

definition decode_AttachUserConfirm :: "AttachUserConfirm decoder" where
  "decode_AttachUserConfirm =
     dbind (read_u8 ''MCS AttachUserConfirm'') (\<lambda>tag.
     if tag \<noteq> ATTACH_USER_CONFIRM
     then dfail (InvalidField ''MCS AttachUserConfirm'' ''mcs choice'' ''unexpected DomainMCSPDU tag'')
     else
     dbind (read_u8 ''MCS AttachUserConfirm result'') (\<lambda>result.
     dbind (per_read_integer16 MCS_USERCHANNEL_BASE ''MCS AttachUserConfirm initiator'') (\<lambda>user_id.
     dreturn \<lparr>au_result = result, au_user_id = user_id\<rparr>)))"

definition img_AttachUserConfirm :: "AttachUserConfirm \<Rightarrow> u8 list" where
  "img_AttachUserConfirm m = concat
    [[ATTACH_USER_CONFIRM], [au_result m], be_bytes 2 (au_user_id m - MCS_USERCHANNEL_BASE)]"

definition valid_AttachUserConfirm :: "AttachUserConfirm \<Rightarrow> bool" where
  "valid_AttachUserConfirm m \<longleftrightarrow> MCS_USERCHANNEL_BASE \<le> au_user_id m"

interpretation AttachUserConfirm_codec: closed_wire_codec
  size_AttachUserConfirm encode_AttachUserConfirm decode_AttachUserConfirm
  img_AttachUserConfirm valid_AttachUserConfirm
  by (unfold_locales; unfold size_AttachUserConfirm_def encode_AttachUserConfirm_def
      decode_AttachUserConfirm_def img_AttachUserConfirm_def valid_AttachUserConfirm_def)
    (rule mcs_steps | simp)+

subsection \<open>ChannelJoinRequest\<close>

record ChannelJoinRequest =
  jr_user_id :: u16
  jr_channel_id :: u16

definition size_ChannelJoinRequest :: "ChannelJoinRequest \<Rightarrow> nat" where
  "size_ChannelJoinRequest m = 5"

definition encode_ChannelJoinRequest :: "ChannelJoinRequest \<Rightarrow> encoder" where
  "encode_ChannelJoinRequest m = eseq
    [write_u8 CHANNEL_JOIN_REQUEST ''MCS ChannelJoinRequest'',
     per_write_integer16 (jr_user_id m) MCS_USERCHANNEL_BASE ''MCS ChannelJoinRequest initiator'',
     per_write_integer16 (jr_channel_id m) 0 ''MCS ChannelJoinRequest channel id'']"

definition decode_ChannelJoinRequest :: "ChannelJoinRequest decoder" where
  "decode_ChannelJoinRequest =
     dbind (read_u8 ''MCS ChannelJoinRequest'') (\<lambda>tag.
     if tag \<noteq> CHANNEL_JOIN_REQUEST
     then dfail (InvalidField ''MCS ChannelJoinRequest'' ''mcs choice'' ''unexpected DomainMCSPDU tag'')
     else
     dbind (per_read_integer16 MCS_USERCHANNEL_BASE ''MCS ChannelJoinRequest initiator'') (\<lambda>user_id.
     dbind (per_read_integer16 0 ''MCS ChannelJoinRequest channel id'') (\<lambda>channel_id.
     dreturn \<lparr>jr_user_id = user_id, jr_channel_id = channel_id\<rparr>)))"

definition img_ChannelJoinRequest :: "ChannelJoinRequest \<Rightarrow> u8 list" where
  "img_ChannelJoinRequest m = concat
    [[CHANNEL_JOIN_REQUEST], be_bytes 2 (jr_user_id m - MCS_USERCHANNEL_BASE), be_bytes 2 (jr_channel_id m - 0)]"

definition valid_ChannelJoinRequest :: "ChannelJoinRequest \<Rightarrow> bool" where
  "valid_ChannelJoinRequest m \<longleftrightarrow> MCS_USERCHANNEL_BASE \<le> jr_user_id m"

interpretation ChannelJoinRequest_codec: closed_wire_codec
  size_ChannelJoinRequest encode_ChannelJoinRequest decode_ChannelJoinRequest
  img_ChannelJoinRequest valid_ChannelJoinRequest
  by (unfold_locales; unfold size_ChannelJoinRequest_def encode_ChannelJoinRequest_def
      decode_ChannelJoinRequest_def img_ChannelJoinRequest_def valid_ChannelJoinRequest_def)
    (rule mcs_steps word_zero_le | simp)+

subsection \<open>ChannelJoinConfirm\<close>

record ChannelJoinConfirm =
  jc_result :: u8
  jc_user_id :: u16
  jc_requested_channel_id :: u16
  jc_channel_id :: u16

definition size_ChannelJoinConfirm :: "ChannelJoinConfirm \<Rightarrow> nat" where
  "size_ChannelJoinConfirm m = 8"

definition encode_ChannelJoinConfirm :: "ChannelJoinConfirm \<Rightarrow> encoder" where
  "encode_ChannelJoinConfirm m = eseq
    [write_u8 CHANNEL_JOIN_CONFIRM ''MCS ChannelJoinConfirm'',
     write_u8 (jc_result m) ''MCS ChannelJoinConfirm result'',
     per_write_integer16 (jc_user_id m) MCS_USERCHANNEL_BASE ''MCS ChannelJoinConfirm initiator'',
     per_write_integer16 (jc_requested_channel_id m) 0 ''MCS ChannelJoinConfirm requested channel id'',
     per_write_integer16 (jc_channel_id m) 0 ''MCS ChannelJoinConfirm channel id'']"

definition decode_ChannelJoinConfirm :: "ChannelJoinConfirm decoder" where
  "decode_ChannelJoinConfirm =
     dbind (read_u8 ''MCS ChannelJoinConfirm'') (\<lambda>tag.
     if tag \<noteq> CHANNEL_JOIN_CONFIRM
     then dfail (InvalidField ''MCS ChannelJoinConfirm'' ''mcs choice'' ''unexpected DomainMCSPDU tag'')
     else
     dbind (read_u8 ''MCS ChannelJoinConfirm result'') (\<lambda>result.
     dbind (per_read_integer16 MCS_USERCHANNEL_BASE ''MCS ChannelJoinConfirm initiator'') (\<lambda>user_id.
     dbind (per_read_integer16 0 ''MCS ChannelJoinConfirm requested channel id'') (\<lambda>requested_channel_id.
     dbind (per_read_integer16 0 ''MCS ChannelJoinConfirm channel id'') (\<lambda>channel_id.
     dreturn \<lparr>jc_result = result, jc_user_id = user_id,
       jc_requested_channel_id = requested_channel_id, jc_channel_id = channel_id\<rparr>)))))"

definition img_ChannelJoinConfirm :: "ChannelJoinConfirm \<Rightarrow> u8 list" where
  "img_ChannelJoinConfirm m = concat
    [[CHANNEL_JOIN_CONFIRM], [jc_result m], be_bytes 2 (jc_user_id m - MCS_USERCHANNEL_BASE),
     be_bytes 2 (jc_requested_channel_id m - 0), be_bytes 2 (jc_channel_id m - 0)]"

definition valid_ChannelJoinConfirm :: "ChannelJoinConfirm \<Rightarrow> bool" where
  "valid_ChannelJoinConfirm m \<longleftrightarrow> MCS_USERCHANNEL_BASE \<le> jc_user_id m"

interpretation ChannelJoinConfirm_codec: closed_wire_codec
  size_ChannelJoinConfirm encode_ChannelJoinConfirm decode_ChannelJoinConfirm
  img_ChannelJoinConfirm valid_ChannelJoinConfirm
  by (unfold_locales; unfold size_ChannelJoinConfirm_def encode_ChannelJoinConfirm_def
      decode_ChannelJoinConfirm_def img_ChannelJoinConfirm_def valid_ChannelJoinConfirm_def)
    (rule mcs_steps word_zero_le | simp)+

section \<open>Send data\<close>

definition SEND_DATA_REQUEST :: u8 where "SEND_DATA_REQUEST = 0x64"
definition SEND_DATA_INDICATION :: u8 where "SEND_DATA_INDICATION = 0x68"
definition DATA_PRIORITY_SEGMENTATION :: u8 where "DATA_PRIORITY_SEGMENTATION = 0x70"

definition per_length_size :: "nat \<Rightarrow> nat" where
  "per_length_size len = (if len < 0x80 then 1 else 2)"

definition per_write_length :: "nat \<Rightarrow> string \<Rightarrow> encoder" where
  "per_write_length len ctx =
    (if len < 0x80 then write_u8 (of_nat len) ctx
     else if len \<le> 0x7FFF then
       eseq [write_u8 (0x80 OR of_nat (drop_bit 8 len)) ctx, write_u8 (of_nat (len AND 0xFF)) ctx]
     else efail (FieldTooLarge ctx ''per length''))"

definition per_read_length :: "string \<Rightarrow> nat decoder" where
  "per_read_length ctx =
     dbind (read_u8 ctx) (\<lambda>b.
     if b AND 0x80 = 0 then dreturn (unat b)
     else dbind (read_u8 ctx) (\<lambda>b2. dreturn (push_bit 8 (unat (b AND 0x7F)) OR unat b2)))"

definition per_length_img :: "nat \<Rightarrow> u8 list" where
  "per_length_img len =
    (if len < 0x80 then [of_nat len] else [0x80 OR of_nat (drop_bit 8 len), of_nat (len AND 0xFF)])"

lemma length_per_length_img [codec_size]: "length (per_length_img len) = per_length_size len"
  by (simp add: per_length_img_def per_length_size_def)

lemma emits_per_length [writes_intros]: "len \<le> 0x7FFF \<Longrightarrow> emits (per_write_length len ctx) (per_length_img len)"
  using emits_seq [OF emits_u8 emits_seq [OF emits_u8 emits_nil]]
  by (simp add: per_write_length_def per_length_img_def emits_u8)

lemma and_255: "n AND 0xFF = n mod 256" for n :: nat
  using take_bit_eq_mask [of 8 n] by (simp add: take_bit_eq_mod mask_eq_exp_minus_1)

lemma parses_per_length [reads_intros]:
  assumes "len \<le> 0x7FFF"
  shows "parses (per_read_length ctx) (per_length_img len) len"
proof (cases "len < 0x80")
  case True
  then have "unat (of_nat len :: u8) = len" by (simp add: unat_of_nat)
  with True have "parses (per_read_length ctx) (concat [[of_nat len]]) len"
    unfolding per_read_length_def
    by (intro parses_bind [OF parses_u8]) (simp add: u8_high_bit parses_return [simplified])
  with True show ?thesis by (simp add: per_length_img_def)
next
  case False
  let ?hi = "of_nat (drop_bit 8 len) :: u8" and ?lo = "of_nat (len AND 0xFF) :: u8"
  have small: "len div 256 < 128" using assms by simp
  then have hi: "unat ?hi = len div 256" by (simp add: unat_of_nat drop_bit_eq_div)
  have lo: "unat ?lo = len mod 256" by (simp add: and_255 unat_of_nat)
  have "unat (0x80 OR ?hi) = 128 + len div 256" using u8_or_high [of ?hi] hi small by simp
  then have first: "(0x80 OR ?hi) AND 0x80 \<noteq> 0" "unat ((0x80 OR ?hi) AND 0x7F) = len div 256"
    using small by (simp_all add: u8_high_bit u8_low_bits)
  have "parses (per_read_length ctx) (concat [[0x80 OR ?hi], [?lo]]) len"
    unfolding per_read_length_def
    using first lo by - (rule reads_intros | simp add: shift_or)+
  with False show ?thesis by (simp add: per_length_img_def)
qed

lemma local_per_length [local_intros]: "local_decoder (per_read_length ctx)"
  unfolding per_read_length_def by (intro local_intros)

lemma yields_per_length: "yields (per_read_length ctx) (\<lambda>len. len \<le> 0x7FFF)"
  unfolding per_read_length_def
proof (rule yields_bind [OF yields_True], intro yields_if yields_bind [OF yields_True] yields_return)
  fix b :: u8
  show "unat b \<le> 0x7FFF" using unat_less_power [of b] by simp
next
  fix b c :: u8
  have c: "unat c < 256" using unat_less_power [of c] by simp
  moreover have "unat b mod 128 < 128" by simp
  then have "unat b mod 128 * 256 + unat c < 128 * 256" using c by linarith
  ultimately show "push_bit 8 (unat (b AND 0x7F)) OR unat c \<le> 0x7FFF"
    by (simp add: shift_or u8_low_bits)
qed

lemma yields_bind_per_slice:
  "(\<And>bs. length bs \<le> 0x7FFF \<Longrightarrow> yields (f bs) P) \<Longrightarrow>
   yields (dbind (per_read_length ctx) (\<lambda>len. dbind (read_slice len ctx') f)) P"
  by (rule yields_bind [OF yields_per_length], rule yields_bind [OF yields_slice]) simp

lemmas send_steps = writes_intros reads_intros local_intros yields_bind_per16 yields_bind_per_slice
  yields_bind_any yields_return yields_if yields_fail

subsection \<open>SendDataRequest\<close>

record SendDataRequest =
  sr_initiator :: u16
  sr_channel_id :: u16
  sr_user_data :: "u8 list"

definition size_SendDataRequest :: "SendDataRequest \<Rightarrow> nat" where
  "size_SendDataRequest m = 1 + 2 + 2 + 1 + per_length_size (length (sr_user_data m)) + length (sr_user_data m)"

definition encode_SendDataRequest :: "SendDataRequest \<Rightarrow> encoder" where
  "encode_SendDataRequest m = eseq
    [write_u8 SEND_DATA_REQUEST ''SendDataRequest'',
     (if sr_initiator m < MCS_USERCHANNEL_BASE
      then efail (FieldTooLarge ''SendDataRequest'' ''initiator'')
      else write_u16_be (sr_initiator m - MCS_USERCHANNEL_BASE) ''SendDataRequest''),
     write_u16_be (sr_channel_id m) ''SendDataRequest'',
     write_u8 DATA_PRIORITY_SEGMENTATION ''SendDataRequest'',
     per_write_length (length (sr_user_data m)) ''SendDataRequest'',
     write_slice (sr_user_data m) ''SendDataRequest'']"

definition decode_SendDataRequest :: "SendDataRequest decoder" where
  "decode_SendDataRequest =
     dbind (read_u8 ''SendDataRequest'') (\<lambda>choice.
     if choice \<noteq> SEND_DATA_REQUEST
     then dfail (InvalidField ''SendDataRequest'' ''mcs choice'' ''unexpected send-data tag'')
     else
     dbind (per_read_integer16 MCS_USERCHANNEL_BASE ''SendDataRequest'') (\<lambda>initiator.
     dbind (read_u16_be ''SendDataRequest'') (\<lambda>channel_id.
     dbind (read_u8 ''SendDataRequest'') (\<lambda>_.
     dbind (per_read_length ''SendDataRequest'') (\<lambda>len.
     dbind (read_slice len ''SendDataRequest'') (\<lambda>user_data.
     dreturn \<lparr>sr_initiator = initiator, sr_channel_id = channel_id, sr_user_data = user_data\<rparr>))))))"

definition img_SendDataRequest :: "SendDataRequest \<Rightarrow> u8 list" where
  "img_SendDataRequest m = concat
    [[SEND_DATA_REQUEST], be_bytes 2 (sr_initiator m - MCS_USERCHANNEL_BASE), be_bytes 2 (sr_channel_id m),
     [DATA_PRIORITY_SEGMENTATION], per_length_img (length (sr_user_data m)), sr_user_data m]"

definition valid_SendDataRequest :: "SendDataRequest \<Rightarrow> bool" where
  "valid_SendDataRequest m \<longleftrightarrow> MCS_USERCHANNEL_BASE \<le> sr_initiator m \<and> length (sr_user_data m) \<le> 0x7FFF"

interpretation SendDataRequest_codec: closed_wire_codec
  size_SendDataRequest encode_SendDataRequest decode_SendDataRequest img_SendDataRequest valid_SendDataRequest
  by (unfold_locales; unfold size_SendDataRequest_def encode_SendDataRequest_def decode_SendDataRequest_def img_SendDataRequest_def valid_SendDataRequest_def)
    (rule send_steps | simp add: codec_size leD)+

subsection \<open>SendDataIndication\<close>

record SendDataIndication =
  si_initiator :: u16
  si_channel_id :: u16
  si_user_data :: "u8 list"

definition size_SendDataIndication :: "SendDataIndication \<Rightarrow> nat" where
  "size_SendDataIndication m = 1 + 2 + 2 + 1 + per_length_size (length (si_user_data m)) + length (si_user_data m)"

definition encode_SendDataIndication :: "SendDataIndication \<Rightarrow> encoder" where
  "encode_SendDataIndication m = eseq
    [write_u8 SEND_DATA_INDICATION ''SendDataIndication'',
     (if si_initiator m < MCS_USERCHANNEL_BASE
      then efail (FieldTooLarge ''SendDataIndication'' ''initiator'')
      else write_u16_be (si_initiator m - MCS_USERCHANNEL_BASE) ''SendDataIndication''),
     write_u16_be (si_channel_id m) ''SendDataIndication'',
     write_u8 DATA_PRIORITY_SEGMENTATION ''SendDataIndication'',
     per_write_length (length (si_user_data m)) ''SendDataIndication'',
     write_slice (si_user_data m) ''SendDataIndication'']"

definition decode_SendDataIndication :: "SendDataIndication decoder" where
  "decode_SendDataIndication =
     dbind (read_u8 ''SendDataIndication'') (\<lambda>choice.
     if choice \<noteq> SEND_DATA_INDICATION
     then dfail (InvalidField ''SendDataIndication'' ''mcs choice'' ''unexpected send-data tag'')
     else
     dbind (per_read_integer16 MCS_USERCHANNEL_BASE ''SendDataIndication'') (\<lambda>initiator.
     dbind (read_u16_be ''SendDataIndication'') (\<lambda>channel_id.
     dbind (read_u8 ''SendDataIndication'') (\<lambda>_.
     dbind (per_read_length ''SendDataIndication'') (\<lambda>len.
     dbind (read_slice len ''SendDataIndication'') (\<lambda>user_data.
     dreturn \<lparr>si_initiator = initiator, si_channel_id = channel_id, si_user_data = user_data\<rparr>))))))"

definition img_SendDataIndication :: "SendDataIndication \<Rightarrow> u8 list" where
  "img_SendDataIndication m = concat
    [[SEND_DATA_INDICATION], be_bytes 2 (si_initiator m - MCS_USERCHANNEL_BASE), be_bytes 2 (si_channel_id m),
     [DATA_PRIORITY_SEGMENTATION], per_length_img (length (si_user_data m)), si_user_data m]"

definition valid_SendDataIndication :: "SendDataIndication \<Rightarrow> bool" where
  "valid_SendDataIndication m \<longleftrightarrow> MCS_USERCHANNEL_BASE \<le> si_initiator m \<and> length (si_user_data m) \<le> 0x7FFF"

interpretation SendDataIndication_codec: closed_wire_codec
  size_SendDataIndication encode_SendDataIndication decode_SendDataIndication img_SendDataIndication valid_SendDataIndication
  by (unfold_locales; unfold size_SendDataIndication_def encode_SendDataIndication_def decode_SendDataIndication_def img_SendDataIndication_def valid_SendDataIndication_def)
    (rule send_steps | simp add: codec_size leD)+

lemma SendDataRequest_rejected:
  assumes "\<not> valid_SendDataRequest m"
  shows "\<exists>field. encode_vec size_SendDataRequest encode_SendDataRequest m = Inl (FieldTooLarge ''SendDataRequest'' field)"
  using assms
  by (cases "sr_initiator m < MCS_USERCHANNEL_BASE")
    (auto simp: encode_vec_def size_SendDataRequest_def encode_SendDataRequest_def valid_SendDataRequest_def
      WriteCursor_new_at per_write_length_def efail_def write_u8_def write_u16_be_def write_slice_at not_le eseq.simps)

section \<open>Properties\<close>

text \<open>
  A send-data request from a user channel with at most 32767 bytes of user data survives encoding,
  framing, unframing and decoding; any other request is refused by the encoder.
\<close>

theorem send_data_framed:
  "if MCS_USERCHANNEL_BASE \<le> sr_initiator req \<and> length (sr_user_data req) \<le> 0x7FFF
   then \<exists>bs frame. encode_vec size_SendDataRequest encode_SendDataRequest req = Inr bs \<and> wrap_mcs bs = Inr frame \<and>
     mcs_payload (frame @ rest) = Inr bs \<and> decode decode_SendDataRequest bs = Inr req
   else \<exists>field. encode_vec size_SendDataRequest encode_SendDataRequest req = Inl (FieldTooLarge ''SendDataRequest'' field)"
proof (cases "valid_SendDataRequest req")
  case True
  then have "length (img_SendDataRequest req) \<le> 8 + 0x7FFF"
    using SendDataRequest_codec.img_size [OF True]
    by (simp add: size_SendDataRequest_def per_length_size_def valid_SendDataRequest_def)
  then have "mcs_payload (mcs_frame (img_SendDataRequest req) @ rest) = Inr (img_SendDataRequest req)"
    by (intro mcs_payload_frame) simp
  then show ?thesis
    using True SendDataRequest_codec.encode_vec_img [OF True] SendDataRequest_codec.decode_img [OF True, of "[]"]
    by (simp add: wrap_mcs_frame valid_SendDataRequest_def)
next
  case False
  then show ?thesis using SendDataRequest_rejected [OF False] by (auto simp: valid_SendDataRequest_def)
qed

end
