(* ===== verification/Rdp_Settings.thy ===== *)
theory Rdp_Settings
  imports Rdp_Ber Rdp_Gcc Rdp_Mcs
begin

text \<open>
  The basic settings exchange: the MCS domain parameters (\<open>oxrdp-pdu/src/domain_params.rs\<close>), the
  MCS Connect-Initial the client builds (\<open>connect_initial.rs\<close>), and the MCS Connect-Response it
  parses (\<open>connect_response.rs\<close>).
\<close>

section \<open>Domain parameters\<close>

record DomainParameters =
  dp_max_channel_ids :: u32
  dp_max_user_ids :: u32
  dp_max_token_ids :: u32
  dp_num_priorities :: u32
  dp_min_throughput :: u32
  dp_max_height :: u32
  dp_max_mcs_pdu_size :: u32
  dp_protocol_version :: u32

definition DomainParameters_target :: DomainParameters where
  "DomainParameters_target = \<lparr>dp_max_channel_ids = 34, dp_max_user_ids = 2, dp_max_token_ids = 0,
     dp_num_priorities = 1, dp_min_throughput = 0, dp_max_height = 1, dp_max_mcs_pdu_size = 65535,
     dp_protocol_version = 2\<rparr>"

definition DomainParameters_minimum :: DomainParameters where
  "DomainParameters_minimum = \<lparr>dp_max_channel_ids = 1, dp_max_user_ids = 1, dp_max_token_ids = 1,
     dp_num_priorities = 1, dp_min_throughput = 0, dp_max_height = 1, dp_max_mcs_pdu_size = 1056,
     dp_protocol_version = 2\<rparr>"

definition DomainParameters_maximum :: DomainParameters where
  "DomainParameters_maximum = \<lparr>dp_max_channel_ids = 65535, dp_max_user_ids = 64535, dp_max_token_ids = 65535,
     dp_num_priorities = 1, dp_min_throughput = 0, dp_max_height = 1, dp_max_mcs_pdu_size = 65535,
     dp_protocol_version = 2\<rparr>"

definition dp_fields :: "DomainParameters \<Rightarrow> u32 list" where
  "dp_fields m = [dp_max_channel_ids m, dp_max_user_ids m, dp_max_token_ids m, dp_num_priorities m,
     dp_min_throughput m, dp_max_height m, dp_max_mcs_pdu_size m, dp_protocol_version m]"

definition dp_content_len :: "DomainParameters \<Rightarrow> nat" where
  "dp_content_len m = sum_list (map integer_size (dp_fields m))"

definition size_DomainParameters :: "DomainParameters \<Rightarrow> nat" where
  "size_DomainParameters m = 1 + length_size (dp_content_len m) + dp_content_len m"

definition encode_DomainParameters :: "DomainParameters \<Rightarrow> encoder" where
  "encode_DomainParameters m = eseq
    [write_u8 0x30 ''domain params sequence tag'',
     write_length (dp_content_len m) ''domain params sequence length'',
     eseq (map (\<lambda>v. write_integer v ''domain params integer'') (dp_fields m))]"

definition decode_DomainParameters :: "DomainParameters decoder" where
  "decode_DomainParameters =
     dbind (read_u8 ''domain params sequence tag'') (\<lambda>tag.
     if tag \<noteq> 0x30
     then dfail (InvalidField ''domain params sequence tag'' ''ber tag'' ''expected SEQUENCE 0x30'')
     else
     dbind (read_length ''domain params sequence length'') (\<lambda>_.
     dbind (read_integer ''max_channel_ids'') (\<lambda>max_channel_ids.
     dbind (read_integer ''max_user_ids'') (\<lambda>max_user_ids.
     dbind (read_integer ''max_token_ids'') (\<lambda>max_token_ids.
     dbind (read_integer ''num_priorities'') (\<lambda>num_priorities.
     dbind (read_integer ''min_throughput'') (\<lambda>min_throughput.
     dbind (read_integer ''max_height'') (\<lambda>max_height.
     dbind (read_integer ''max_mcs_pdu_size'') (\<lambda>max_mcs_pdu_size.
     dbind (read_integer ''protocol_version'') (\<lambda>protocol_version.
     dreturn \<lparr>dp_max_channel_ids = max_channel_ids, dp_max_user_ids = max_user_ids,
       dp_max_token_ids = max_token_ids, dp_num_priorities = num_priorities,
       dp_min_throughput = min_throughput, dp_max_height = max_height,
       dp_max_mcs_pdu_size = max_mcs_pdu_size, dp_protocol_version = protocol_version\<rparr>))))))))))"

definition img_DomainParameters :: "DomainParameters \<Rightarrow> u8 list" where
  "img_DomainParameters m = concat
    [[0x30], length_img (dp_content_len m), integer_img (dp_max_channel_ids m), integer_img (dp_max_user_ids m),
     integer_img (dp_max_token_ids m), integer_img (dp_num_priorities m), integer_img (dp_min_throughput m),
     integer_img (dp_max_height m), integer_img (dp_max_mcs_pdu_size m), integer_img (dp_protocol_version m)]"

definition valid_DomainParameters :: "DomainParameters \<Rightarrow> bool" where
  "valid_DomainParameters m \<longleftrightarrow> True"

lemma dp_content_small: "dp_content_len m \<le> 56"
  using integer_size_bounds [of "dp_max_channel_ids m"] integer_size_bounds [of "dp_max_user_ids m"]
    integer_size_bounds [of "dp_max_token_ids m"] integer_size_bounds [of "dp_num_priorities m"]
    integer_size_bounds [of "dp_min_throughput m"] integer_size_bounds [of "dp_max_height m"]
    integer_size_bounds [of "dp_max_mcs_pdu_size m"] integer_size_bounds [of "dp_protocol_version m"]
  by (simp add: dp_content_len_def dp_fields_def)

lemma emits_DomainParameters: "emits (encode_DomainParameters m) (img_DomainParameters m)"
proof -
  have "emits (encode_DomainParameters m) (concat [[0x30], length_img (dp_content_len m),
      concat (map integer_img (dp_fields m))])"
    unfolding encode_DomainParameters_def
    using dp_content_small [of m] by (intro writes_intros emits_map) simp_all
  then show ?thesis by (simp add: img_DomainParameters_def dp_fields_def)
qed

interpretation DomainParameters_codec: closed_wire_codec
  size_DomainParameters encode_DomainParameters decode_DomainParameters
  img_DomainParameters valid_DomainParameters
proof unfold_locales
  fix m :: DomainParameters
  show "emits (encode_DomainParameters m) (img_DomainParameters m)" by (rule emits_DomainParameters)
  show "parses decode_DomainParameters (img_DomainParameters m) m"
    unfolding decode_DomainParameters_def img_DomainParameters_def
    using dp_content_small [of m] by - (rule reads_intros | simp)+
  show "length (img_DomainParameters m) = size_DomainParameters m"
    by (simp add: img_DomainParameters_def size_DomainParameters_def dp_content_len_def dp_fields_def codec_size)
  show "local_decoder decode_DomainParameters"
    unfolding decode_DomainParameters_def by (intro local_intros)
  show "yields decode_DomainParameters valid_DomainParameters"
    by (simp add: yields_def valid_DomainParameters_def)
qed

section \<open>Connect-Initial\<close>

definition per_append_length :: "u8 list \<Rightarrow> nat \<Rightarrow> u8 list" where
  "per_append_length out len =
    (if len < 0x80 then out @ [of_nat len]
     else out @ [0x80 OR of_nat (drop_bit 8 len), of_nat (len AND 0xFF)])"

text \<open>\<open>while v > 0 { bytes.insert(0, v & 0xFF); v >>= 8 }\<close>.\<close>

function ber_bytes :: "nat \<Rightarrow> u8 list \<Rightarrow> u8 list" where
  "ber_bytes v bytes = (if 0 < v then ber_bytes (drop_bit 8 v) (of_nat (v AND 0xFF) # bytes) else bytes)"
  by pat_completeness auto
termination
  by (relation "measure fst") (auto simp: drop_bit_eq_div)

declare ber_bytes.simps [simp del]

definition ber_append_length :: "u8 list \<Rightarrow> nat \<Rightarrow> u8 list" where
  "ber_append_length out len =
    (if len < 0x80 then out @ [of_nat len]
     else let bytes = ber_bytes len [] in out @ [0x80 OR of_nat (length bytes)] @ bytes)"

record ConnectInitial =
  ci_core :: ClientCoreData
  ci_security :: ClientSecurityData
  ci_network :: ClientNetworkData

definition gcc_request :: "u8 list \<Rightarrow> u8 list" where
  "gcc_request user_data =
    (let udlen = length user_data;
         gcc = per_append_length [0x00, 0x05, 0x00, 0x14, 0x7C, 0x00, 0x01] (udlen + 14);
         gcc = gcc @ [0x00, 0x08, 0x00, 0x10, 0x00, 0x01, 0xC0, 0x00] @ ascii ''Duca''
     in per_append_length gcc udlen @ user_data)"

definition mcs_connect_initial :: "u8 list \<Rightarrow> u8 list \<Rightarrow> u8 list" where
  "mcs_connect_initial params gcc =
    (let body = [0x04, 0x01, 0x01] @ [0x04, 0x01, 0x01] @ [0x01, 0x01, 0xFF] @ params @ [0x04];
         body = ber_append_length body (length gcc) @ gcc
     in ber_append_length [0x7F, 0x65] (length body) @ body)"

definition ConnectInitial_to_bytes :: "ConnectInitial \<Rightarrow> encode_error + u8 list" where
  "ConnectInitial_to_bytes m =
    (case encode_vec size_ClientCoreData encode_ClientCoreData (ci_core m) of Inl e \<Rightarrow> Inl e | Inr core \<Rightarrow>
     (case encode_vec size_ClientSecurityData encode_ClientSecurityData (ci_security m) of Inl e \<Rightarrow> Inl e | Inr security \<Rightarrow>
     (case encode_vec size_ClientNetworkData encode_ClientNetworkData (ci_network m) of Inl e \<Rightarrow> Inl e | Inr network \<Rightarrow>
     (case encode_vec size_DomainParameters encode_DomainParameters DomainParameters_target of Inl e \<Rightarrow> Inl e | Inr target \<Rightarrow>
     (case encode_vec size_DomainParameters encode_DomainParameters DomainParameters_minimum of Inl e \<Rightarrow> Inl e | Inr minimum \<Rightarrow>
     (case encode_vec size_DomainParameters encode_DomainParameters DomainParameters_maximum of Inl e \<Rightarrow> Inl e | Inr maximum \<Rightarrow>
        Inr (mcs_connect_initial (target @ minimum @ maximum) (gcc_request (core @ security @ network)))))))))"

text \<open>The hand-rolled length writer agrees with the BER one on every length that fits four bytes.\<close>

lemma ber_bytes_0 [simp]: "ber_bytes 0 bytes = bytes"
  by (simp add: ber_bytes.simps)

lemma ber_bytes_append: "ber_bytes v bytes = ber_bytes v [] @ bytes"
proof (induction v arbitrary: bytes rule: less_induct)
  case (less v)
  show ?case
  proof (cases "0 < v")
    case True
    then have "drop_bit 8 v < v" by (simp add: drop_bit_eq_div)
    from less [OF this, of "of_nat (v AND 0xFF) # bytes"] less [OF this, of "[of_nat (v AND 0xFF)]"] True
    show ?thesis by (simp add: ber_bytes.simps [of v])
  qed simp
qed

lemma ber_bytes_step: "0 < v \<Longrightarrow> ber_bytes v [] = ber_bytes (v div 256) [] @ [of_nat (v mod 256)]"
  using ber_bytes_append [of "v div 256" "[of_nat (v mod 256)]"]
  by (simp add: ber_bytes.simps [of v] drop_bit_eq_div and_255)

lemma ber_bytes_value: "foldl shift_in 0 (ber_bytes v []) = v"
proof (induction v rule: less_induct)
  case (less v)
  show ?case
  proof (cases "0 < v")
    case True
    then have "v div 256 < v" by simp
    moreover have "unat (of_nat (v mod 256) :: u8) = v mod 256" by (simp add: unat_of_nat)
    ultimately show ?thesis using True less by (simp add: ber_bytes_step shift_in_eq)
  qed simp
qed

lemma ber_bytes_length: "v < 256 ^ n \<Longrightarrow> length (ber_bytes v []) \<le> n"
proof (induction n arbitrary: v)
  case (Suc n)
  show ?case
  proof (cases "0 < v")
    case True
    have "v div 256 < 256 ^ n" using Suc.prems by (simp add: less_mult_imp_div_less mult.commute)
    with Suc.IH True show ?thesis by (simp add: ber_bytes_step)
  qed simp
qed simp

definition ber_length_bytes :: "nat \<Rightarrow> u8 list" where
  "ber_length_bytes len = ber_append_length [] len"

lemma ber_append_length_bytes: "ber_append_length out len = out @ ber_length_bytes len"
  by (simp add: ber_length_bytes_def ber_append_length_def Let_def)

section \<open>Connect-Response\<close>

definition read_ber_length :: "string \<Rightarrow> nat decoder" where
  "read_ber_length ctx =
     dbind (read_u8 ctx) (\<lambda>b.
     if b < 0x80 then dreturn (unat b)
     else
       let n = unat (b AND 0x7F) in
       if n = 0 \<or> 4 < n then dfail (InvalidLength ctx ''invalid BER length form'')
       else read_acc shift_in ctx n 0)"

definition read_per_length :: "string \<Rightarrow> nat decoder" where
  "read_per_length ctx =
     dbind (read_u8 ctx) (\<lambda>b.
     if b AND 0x80 = 0 then dreturn (unat b)
     else dbind (read_u8 ctx) (\<lambda>b2. dreturn (push_bit 8 (unat (b AND 0x7F)) OR unat b2)))"

definition find_pattern :: "u8 list \<Rightarrow> u8 list \<Rightarrow> nat option" where
  "find_pattern haystack needle =
    (if needle = [] \<or> length haystack < length needle then None
     else find (\<lambda>i. take (length needle) (drop i haystack) = needle) [0..<Suc (length haystack - length needle)])"

record ConnectResponse =
  rs_result :: u8
  rs_server_core :: "ServerCoreData option"
  rs_server_network :: "ServerNetworkData option"

text \<open>The loop over the server's GCC blocks, from offset \<open>off\<close>.\<close>

function server_blocks :: "u8 list \<Rightarrow> nat \<Rightarrow> ServerCoreData option \<Rightarrow> ServerNetworkData option \<Rightarrow>
    decode_error + ServerCoreData option \<times> ServerNetworkData option" where
  "server_blocks blocks off core network =
    (if off + 4 \<le> length blocks then
       (let ty = le_value [blocks ! off, blocks ! (off + 1)] :: u16;
            blen = unat (le_value [blocks ! (off + 2), blocks ! (off + 3)] :: u16) in
        if blen < 4 \<or> length blocks < off + blen
        then Inl (InvalidLength ''GCC server block'' ''bad block length'')
        else
          let block_bytes = take blen (drop off blocks) in
          if ty = 0x0C01 then
            (case decode decode_ServerCoreData block_bytes of
               Inl e \<Rightarrow> Inl e | Inr c \<Rightarrow> server_blocks blocks (off + blen) (Some c) network)
          else if ty = 0x0C03 then
            (case decode decode_ServerNetworkData block_bytes of
               Inl e \<Rightarrow> Inl e | Inr n \<Rightarrow> server_blocks blocks (off + blen) core (Some n))
          else server_blocks blocks (off + blen) core network)
     else Inr (core, network))"
  by pat_completeness auto
termination
  by (relation "measure (\<lambda>(blocks, off, core, network). length blocks - off)") auto

declare server_blocks.simps [simp del]

definition conference_create_response :: "u8 list \<Rightarrow>
    decode_error + ServerCoreData option \<times> ServerNetworkData option" where
  "conference_create_response gcc =
    (case find_pattern gcc [0x4D, 0x63, 0x44, 0x6E] of
       None \<Rightarrow> Inl (InvalidField ''GCC Conference Create Response'' ''h221 key'' ''McDn not found'')
     | Some mcdn_pos \<Rightarrow>
         (let after_mcdn = drop (mcdn_pos + 4) gcc in
          case read_per_length ''GCC Conference Create Response'' (ReadCursor_new after_mcdn) of
            Inl e \<Rightarrow> Inl e
          | Inr (_, per_cursor) \<Rightarrow> server_blocks (drop (rc_pos per_cursor) after_mcdn) 0 None None))"

definition expect_tag :: "u8 \<Rightarrow> string \<Rightarrow> string \<Rightarrow> unit decoder" where
  "expect_tag tag field reason =
     dbind (read_u8 ''MCS Connect-Response'') (\<lambda>t.
     if t \<noteq> tag then dfail (InvalidField ''MCS Connect-Response'' field reason) else dreturn ())"

definition decode_ConnectResponse :: "ConnectResponse decoder" where
  "decode_ConnectResponse = (let CTX = ''MCS Connect-Response'' in
     dbind (read_u8 CTX) (\<lambda>tag0.
     dbind (read_u8 CTX) (\<lambda>tag1.
     if tag0 \<noteq> 0x7F \<or> tag1 \<noteq> 0x66 then dfail (InvalidField CTX ''tag'' ''expected 0x7F 0x66'')
     else
     dbind (read_ber_length CTX) (\<lambda>_.
     dbind (expect_tag 0x0A ''result tag'' ''expected 0x0A'') (\<lambda>_.
     dbind (read_ber_length CTX) (\<lambda>result_len.
     dbind (read_u8 CTX) (\<lambda>result.
     dbind (if 1 < result_len then read_slice (result_len - 1) CTX else dreturn []) (\<lambda>_.
     dbind (expect_tag 0x02 ''calledConnectId tag'' ''expected 0x02'') (\<lambda>_.
     dbind (read_ber_length CTX) (\<lambda>cci_len.
     dbind (read_slice cci_len CTX) (\<lambda>_.
     dbind (expect_tag 0x30 ''DomainParameters tag'' ''expected 0x30'') (\<lambda>_.
     dbind (read_ber_length CTX) (\<lambda>dp_len.
     dbind (read_slice dp_len CTX) (\<lambda>_.
     dbind (expect_tag 0x04 ''userData tag'' ''expected 0x04'') (\<lambda>_.
     dbind (read_ber_length CTX) (\<lambda>ud_len.
     dbind (read_slice ud_len CTX) (\<lambda>gcc_cc_resp.
     dbind (dlift (conference_create_response gcc_cc_resp)) (\<lambda>(server_core, server_network).
     dreturn \<lparr>rs_result = result, rs_server_core = server_core,
       rs_server_network = server_network\<rparr>))))))))))))))))))"

definition ConnectResponse_from_bytes :: "u8 list \<Rightarrow> decode_error + ConnectResponse" where
  "ConnectResponse_from_bytes data = decode decode_ConnectResponse data"


section \<open>What a well-formed response gives\<close>

lemma parses_ber_length [reads_intros]:
  assumes "len < 2 ^ 32"
  shows "parses (read_ber_length ctx) (ber_length_bytes len) len"
proof (cases "len < 0x80")
  case True
  then have "unat (of_nat len :: u8) = len" by (simp add: unat_of_nat)
  with True have "parses (read_ber_length ctx) (concat [[of_nat len]]) len"
    unfolding read_ber_length_def
    by (intro parses_bind [OF parses_u8]) (simp add: u8_less_128 parses_return [simplified])
  with True show ?thesis by (simp add: ber_length_bytes_def ber_append_length_def)
next
  case False
  let ?bytes = "ber_bytes len []"
  let ?n = "length ?bytes"
  have n: "?n \<le> 4" using ber_bytes_length [of len 4] assms by simp
  have "?n \<noteq> 0" using ber_bytes_value [of len] False by auto
  have small: "unat (of_nat ?n :: u8) = ?n" using n by (simp add: unat_of_nat)
  with n have first: "unat (0x80 OR of_nat ?n :: u8) = 128 + ?n" using u8_or_high [of "of_nat ?n"] by simp
  then have facts: "\<not> (0x80 OR of_nat ?n :: u8) < 0x80" "unat ((0x80 OR of_nat ?n) AND 0x7F :: u8) = ?n"
    using n by (auto simp: u8_less_128 u8_low_bits)
  have "parses (read_ber_length ctx) (concat [[0x80 OR of_nat ?n], ?bytes]) len"
    unfolding read_ber_length_def
    using facts n \<open>?n \<noteq> 0\<close> ber_bytes_value [of len]
    by (intro parses_bind [OF parses_u8]) (simp add: parses_acc' Let_def)
  with False show ?thesis by (simp add: ber_length_bytes_def ber_append_length_def Let_def)
qed

lemma parses_expect_tag [reads_intros]: "parses (expect_tag tag field reason) [tag] ()"
  unfolding expect_tag_def by (rule parses_bind [OF parses_u8, where bs = "[]", simplified]) (simp add: parses_return [simplified])

text \<open>One block on the wire, and what the client takes from it.\<close>

definition block_wire :: "u16 \<times> u8 list \<Rightarrow> u8 list" where
  "block_wire b = le_bytes 2 (fst b) @ le_bytes 2 (of_nat (4 + length (snd b)) :: u16) @ snd b"

fun take_blocks :: "(u16 \<times> u8 list) list \<Rightarrow> ServerCoreData option \<Rightarrow> ServerNetworkData option \<Rightarrow>
    decode_error + ServerCoreData option \<times> ServerNetworkData option" where
  "take_blocks [] core network = Inr (core, network)"
| "take_blocks (b # bs) core network =
    (if fst b = 0x0C01 then
       (case decode decode_ServerCoreData (block_wire b) of
          Inl e \<Rightarrow> Inl e | Inr c \<Rightarrow> take_blocks bs (Some c) network)
     else if fst b = 0x0C03 then
       (case decode decode_ServerNetworkData (block_wire b) of
          Inl e \<Rightarrow> Inl e | Inr n \<Rightarrow> take_blocks bs core (Some n))
     else take_blocks bs core network)"

lemma le_value_pair: "le_value [ucast w, ucast (drop_bit 8 w)] = w" for w :: u16
  using le_value_le_bytes_full [of 2 w] by (simp add: numeral_2_eq_2)

lemma length_block_wire: "length (block_wire b) = 4 + length (snd b)"
  by (simp add: block_wire_def)

lemma server_blocks_end: "length blocks < off + 4 \<Longrightarrow> server_blocks blocks off core network = Inr (core, network)"
  by (subst server_blocks.simps) simp

lemma server_blocks_step:
  assumes "4 + length (snd b) < 2 ^ 16"
  shows "server_blocks (pre @ block_wire b @ post) (length pre) core network =
    (if fst b = 0x0C01 then
       (case decode decode_ServerCoreData (block_wire b) of Inl e \<Rightarrow> Inl e
        | Inr c \<Rightarrow> server_blocks (pre @ block_wire b @ post) (length (pre @ block_wire b)) (Some c) network)
     else if fst b = 0x0C03 then
       (case decode decode_ServerNetworkData (block_wire b) of Inl e \<Rightarrow> Inl e
        | Inr n \<Rightarrow> server_blocks (pre @ block_wire b @ post) (length (pre @ block_wire b)) core (Some n))
     else server_blocks (pre @ block_wire b @ post) (length (pre @ block_wire b)) core network)"
proof -
  let ?all = "pre @ block_wire b @ post" and ?len = "of_nat (4 + length (snd b)) :: u16"
  have four: "block_wire b = ucast (fst b) # ucast (drop_bit 8 (fst b)) # ucast ?len # ucast (drop_bit 8 ?len) # snd b"
    by (simp add: block_wire_def numeral_2_eq_2)
  have bytes: "?all ! length pre = ucast (fst b)" "?all ! (length pre + 1) = ucast (drop_bit 8 (fst b))"
    "?all ! (length pre + 2) = ucast ?len" "?all ! (length pre + 3) = ucast (drop_bit 8 ?len)"
    unfolding four by (simp_all add: nth_append numeral_2_eq_2 numeral_3_eq_3)
  have len: "unat ?len = 4 + length (snd b)" using assms by (simp only: unat_of_nat) simp
  have piece: "take (4 + length (snd b)) (drop (length pre) ?all) = block_wire b"
    by (simp add: length_block_wire [symmetric])
  have room: "length pre + 4 \<le> length ?all" "\<not> (4 + length (snd b) < 4 \<or> length ?all < length pre + (4 + length (snd b)))"
    by (simp_all add: length_block_wire)
  show ?thesis
    unfolding server_blocks.simps [of ?all "length pre"] bytes le_value_pair len Let_def piece
    using room by (simp only: if_True if_False length_append length_block_wire)
qed

lemma server_blocks_take:
  "list_all (\<lambda>b. 4 + length (snd b) < 2 ^ 16) bs \<Longrightarrow>
   server_blocks (pre @ concat (map block_wire bs)) (length pre) core network = take_blocks bs core network"
proof (induction bs arbitrary: pre core network)
  case Nil
  then show ?case by (simp add: server_blocks_end)
next
  case (Cons b bs)
  then have "server_blocks (pre @ block_wire b @ concat (map block_wire bs)) (length (pre @ block_wire b)) core network
      = take_blocks bs core network" for core network
    using Cons.IH [of "pre @ block_wire b"] by simp
  with Cons.prems show ?case
    by (simp add: server_blocks_step cong: sum.case_cong del: length_append)
qed


text \<open>\<open>find_pattern\<close> is the first occurrence.\<close>

lemma find_first:
  "find P [0..<n] = Some i \<longleftrightarrow> i < n \<and> P i \<and> (\<forall>j<i. \<not> P j)"
  by (auto simp: find_Some_iff)

lemma find_pattern_first:
  assumes "needle \<noteq> []"
  shows "find_pattern haystack needle = Some i \<longleftrightarrow>
    i + length needle \<le> length haystack \<and> take (length needle) (drop i haystack) = needle \<and>
    (\<forall>j<i. take (length needle) (drop j haystack) \<noteq> needle)"
  using assms by (auto simp: find_pattern_def find_first simp del: upt_Suc)

lemma read_per_length_eq: "read_per_length ctx = per_read_length ctx"
  by (simp add: read_per_length_def per_read_length_def)

text \<open>A conference-create response: anything before the \<open>McDn\<close> key, a PER length, the blocks.\<close>

definition MCDN :: "u8 list" where
  "MCDN = [0x4D, 0x63, 0x44, 0x6E]"

definition gcc_response :: "u8 list \<Rightarrow> (u16 \<times> u8 list) list \<Rightarrow> u8 list" where
  "gcc_response pre bs =
    (let blocks = concat (map block_wire bs) in pre @ MCDN @ per_length_img (length blocks) @ blocks)"

definition connect_response_wire :: "u8 \<Rightarrow> u8 list \<Rightarrow> u8 list \<Rightarrow> u8 list \<Rightarrow> u8 list" where
  "connect_response_wire result cci dp gcc =
    (let body = [0x0A] @ ber_length_bytes 1 @ [result] @ [0x02] @ ber_length_bytes (length cci) @ cci @
                [0x30] @ ber_length_bytes (length dp) @ dp @ [0x04] @ ber_length_bytes (length gcc) @ gcc
     in [0x7F] @ [0x66] @ ber_length_bytes (length body) @ body)"

lemma conference_create_response_blocks:
  assumes key: "find_pattern (gcc_response pre bs) MCDN = Some (length pre)"
    and blocks: "list_all (\<lambda>b. 4 + length (snd b) < 2 ^ 16) bs" "length (concat (map block_wire bs)) \<le> 0x7FFF"
  shows "conference_create_response (gcc_response pre bs) = take_blocks bs None None"
proof -
  let ?blocks = "concat (map block_wire bs)"
  have after: "drop (length pre + 4) (gcc_response pre bs) = per_length_img (length ?blocks) @ ?blocks"
    by (simp add: gcc_response_def Let_def MCDN_def)
  have "read_per_length ctx (rc_at [] (per_length_img (length ?blocks) @ ?blocks))
      = Inr (length ?blocks, rc_at ([] @ per_length_img (length ?blocks)) ?blocks)" for ctx
    unfolding read_per_length_eq by (rule readsD [OF parses_reads [OF parses_per_length [OF blocks(2)]]])
  with key [unfolded MCDN_def] show ?thesis
    unfolding conference_create_response_def
    using server_blocks_take [OF blocks(1), of "[]"]
    by (simp add: after ReadCursor_new_at Let_def)
qed

lemma from_bytes_response:
  assumes small: "length cci < 2 ^ 16" "length dp < 2 ^ 16" "length gcc < 2 ^ 16"
    and gcc: "conference_create_response gcc = Inr (core, network)"
  shows "ConnectResponse_from_bytes (connect_response_wire result cci dp gcc)
    = Inr \<lparr>rs_result = result, rs_server_core = core, rs_server_network = network\<rparr>"
proof -
  let ?body = "[0x0A] @ ber_length_bytes 1 @ [result] @ [0x02] @ ber_length_bytes (length cci) @ cci @
    [0x30] @ ber_length_bytes (length dp) @ dp @ [0x04] @ ber_length_bytes (length gcc) @ gcc"
  have ber: "length (ber_length_bytes n) \<le> 5" if "n < 2 ^ 32" for n
    using that ber_bytes_length [of n 4] by (simp add: ber_length_bytes_def ber_append_length_def Let_def)
  have body: "length ?body < 2 ^ 32"
    using small ber [of 1] ber [of "length cci"] ber [of "length dp"] ber [of "length gcc"] by simp
  have small32: "length cci < 2 ^ 32" "length dp < 2 ^ 32" "length gcc < 2 ^ 32" using small by simp_all
  have skip: "parses (if 1 < n then read_slice (n - 1) ctx else dreturn []) (concat []) []" if "n = 1" for n ctx
    using that by (simp add: parses_return [simplified])
  have "parses decode_ConnectResponse
      (concat [[0x7F], [0x66], ber_length_bytes (length ?body), [0x0A], ber_length_bytes 1, [result], concat [],
        [0x02], ber_length_bytes (length cci), cci, [0x30], ber_length_bytes (length dp), dp,
        [0x04], ber_length_bytes (length gcc), gcc, concat []])
      \<lparr>rs_result = result, rs_server_core = core, rs_server_network = network\<rparr>"
    unfolding decode_ConnectResponse_def Let_def
    by (rule skip [OF refl] small32 body reads_intros | simp only: gcc prod.case | simp)+
  then have "parses decode_ConnectResponse (connect_response_wire result cci dp gcc)
      \<lparr>rs_result = result, rs_server_core = core, rs_server_network = network\<rparr>"
    by (simp add: connect_response_wire_def Let_def)
  from readsD [OF parses_reads [OF this], of "[]" "[]"] show ?thesis
    by (simp add: ConnectResponse_from_bytes_def decode_def ReadCursor_new_at)
qed

section \<open>Properties\<close>

text \<open>
  Parsing a Connect-Response: with any conference-create prefix before the first \<open>McDn\<close> key, and
  blocks within the PER length, the parser returns the result code and what the blocks say (unknown
  blocks skipped, the last block of a type wins).
\<close>

theorem connect_response_parsed:
  assumes key: "find_pattern (gcc_response pre bs) MCDN = Some (length pre)"
    and blocks: "list_all (\<lambda>b. 4 + length (snd b) < 2 ^ 16) bs" "length (concat (map block_wire bs)) \<le> 0x7FFF"
    and small: "length pre < 2 ^ 14" "length cci < 2 ^ 16" "length dp < 2 ^ 16"
    and taken: "take_blocks bs None None = Inr (core, network)"
  shows "ConnectResponse_from_bytes (connect_response_wire result cci dp (gcc_response pre bs))
    = Inr \<lparr>rs_result = result, rs_server_core = core, rs_server_network = network\<rparr>"
proof (rule from_bytes_response [OF small(2,3)])
  show "conference_create_response (gcc_response pre bs) = Inr (core, network)"
    using conference_create_response_blocks [OF key blocks] taken by simp
  show "length (gcc_response pre bs) < 2 ^ 16"
    using small(1) blocks(2) by (simp add: gcc_response_def Let_def MCDN_def per_length_img_def del: length_concat)
qed

theorem connect_response_parsed_witness:
  "ConnectResponse_from_bytes (connect_response_wire 0 [0] [2, 1, 34]
     (gcc_response [0, 5, 0, 20] [(0x0C02, [1]), (0x0C03, [0xEB, 3, 1, 0, 0xEC, 3, 0, 0])]))
   = Inr \<lparr>rs_result = 0, rs_server_core = None,
       rs_server_network = Some \<lparr>sn_mcs_channel_id = 1003, sn_channel_ids = [1004]\<rparr>\<rparr>"
proof (rule connect_response_parsed)
  show "find_pattern (gcc_response [0, 5, 0, 20] [(0x0C02, [1]), (0x0C03, [0xEB, 3, 1, 0, 0xEC, 3, 0, 0])]) MCDN
      = Some (length [0, 5, 0, 20 :: u8])" by code_simp
  show "take_blocks [(0x0C02, [1]), (0x0C03, [0xEB, 3, 1, 0, 0xEC, 3, 0, 0])] None None
      = Inr (None, Some \<lparr>sn_mcs_channel_id = 1003, sn_channel_ids = [1004]\<rparr>)" by code_simp
qed (simp_all add: length_block_wire)

text \<open>
  Domain parameters always encode, in at most 58 bytes, and are read back from their encoding,
  whatever follows.
\<close>

theorem domain_parameters_roundtrip:
  "\<exists>bs. encode_vec size_DomainParameters encode_DomainParameters m = Inr bs \<and> length bs \<le> 58 \<and>
     decode decode_DomainParameters (bs @ rest) = Inr m"
proof -
  have v: "valid_DomainParameters m" by (simp add: valid_DomainParameters_def)
  have "length (img_DomainParameters m) \<le> 58"
    using DomainParameters_codec.img_size [OF v] dp_content_small [of m]
    by (simp add: size_DomainParameters_def length_size_def)
  then show ?thesis
    using DomainParameters_codec.encode_vec_img [OF v] DomainParameters_codec.decode_img [OF v, of rest] by simp
qed

end
