(* ===== verification/Connector.thy ===== *)
theory Connector
  imports Rdp_Connect Rdp_Settings
begin

text \<open>
  The sans-IO RDP connection state machine (\<open>oxrdp-core/src/connector.rs\<close>): connection request and
  confirm, the hand-over to TLS, the MCS settings exchange, user attachment and channel joins.
  Every operation returns its outcome together with the connector it leaves behind, because the
  early returns of the code can leave fields updated. An index or slice out of range is the
  outcome \<open>Panic\<close>.
\<close>

section \<open>State\<close>

datatype CoreOutput =
    SendData "u8 list"
  | UpgradeToTls
  | OutConnected u32 u16 u16

datatype ConnectorState =
    Initial
  | SentConnectionRequest
  | NeedTls
  | SentConnectInitial
  | SentErectAttach
  | JoiningChannels
  | Connected

record ConnectorConfig =
  cfg_cookie :: "rust_string option"
  cfg_requested_protocols :: u32
  cfg_core :: ClientCoreData
  cfg_security :: ClientSecurityData
  cfg_network :: ClientNetworkData

datatype CoreError =
    Decode decode_error
  | Encode encode_error
  | UnexpectedState
  | NegotiationFailed u32
  | ConnectResponseFailed u8
  | ChannelJoinFailed u16

datatype outcome = Done "CoreOutput list" | Err CoreError | Panic

record ClientConnector =
  cn_config :: ConnectorConfig
  cn_state :: ConnectorState
  cn_selected_protocol :: u32
  cn_user_id :: u16
  cn_io_channel :: u16
  cn_join_queue :: "u16 list"
  cn_join_index :: nat

definition ClientConnector_new :: "ConnectorConfig \<Rightarrow> ClientConnector" where
  "ClientConnector_new config = \<lparr>cn_config = config, cn_state = Initial, cn_selected_protocol = 0,
     cn_user_id = 0, cn_io_channel = 0, cn_join_queue = [], cn_join_index = 0\<rparr>"

definition is_connected :: "ClientConnector \<Rightarrow> bool" where
  "is_connected c \<longleftrightarrow> cn_state c = Connected"

section \<open>Operations\<close>

definition send_connect_initial :: "ClientConnector \<Rightarrow> outcome \<times> ClientConnector" where
  "send_connect_initial c =
    (case ConnectInitial_to_bytes \<lparr>ci_core = cfg_core (cn_config c), ci_security = cfg_security (cn_config c),
             ci_network = cfg_network (cn_config c)\<rparr> of
       Inl e \<Rightarrow> (Err (Encode e), c)
     | Inr bytes \<Rightarrow>
         (case wrap_mcs bytes of
            Inl e \<Rightarrow> (Err (Encode e), c)
          | Inr frame \<Rightarrow> (Done [SendData frame], c\<lparr>cn_state := SentConnectInitial\<rparr>)))"

definition send_channel_join :: "ClientConnector \<Rightarrow> outcome \<times> ClientConnector" where
  "send_channel_join c =
    (if length (cn_join_queue c) \<le> cn_join_index c then (Panic, c)
     else
       let channel_id = cn_join_queue c ! cn_join_index c;
           req = \<lparr>jr_user_id = cn_user_id c, jr_channel_id = channel_id\<rparr> in
       case encode_vec size_ChannelJoinRequest encode_ChannelJoinRequest req of
         Inl e \<Rightarrow> (Err (Encode e), c)
       | Inr bytes \<Rightarrow>
           (case wrap_mcs bytes of
              Inl e \<Rightarrow> (Err (Encode e), c)
            | Inr frame \<Rightarrow> (Done [SendData frame], c\<lparr>cn_state := JoiningChannels\<rparr>)))"

definition start :: "ClientConnector \<Rightarrow> outcome \<times> ClientConnector" where
  "start c =
    (if cn_state c \<noteq> Initial then (Err UnexpectedState, c)
     else
       let cr = \<lparr>cr_cookie = cfg_cookie (cn_config c),
                 cr_negotiation = Some \<lparr>nq_flags = 0, nq_requested_protocols = cfg_requested_protocols (cn_config c)\<rparr>\<rparr> in
       case encode_vec size_ConnectionRequest encode_ConnectionRequest cr of
         Inl e \<Rightarrow> (Err (Encode e), c)
       | Inr x224 \<Rightarrow>
           (case encode_vec size_TpktHeader encode_TpktHeader \<lparr>tp_length = of_nat (TPKT_HEADER_LEN + length x224)\<rparr> of
              Inl e \<Rightarrow> (Err (Encode e), c)
            | Inr frame \<Rightarrow> (Done [SendData (frame @ x224)], c\<lparr>cn_state := SentConnectionRequest\<rparr>)))"

definition resume_after_tls :: "ClientConnector \<Rightarrow> outcome \<times> ClientConnector" where
  "resume_after_tls c =
    (if cn_state c \<noteq> NeedTls then (Err UnexpectedState, c) else send_connect_initial c)"

definition handle_connection_confirm :: "ClientConnector \<Rightarrow> u8 list \<Rightarrow> outcome \<times> ClientConnector" where
  "handle_connection_confirm c frame =
    (case decode decode_TpktHeader frame of
       Inl e \<Rightarrow> (Err (Decode e), c)
     | Inr _ \<Rightarrow>
         (if length frame < TPKT_HEADER_LEN then (Panic, c)
          else case decode decode_ConnectionConfirm (drop TPKT_HEADER_LEN frame) of
            Inl e \<Rightarrow> (Err (Decode e), c)
          | Inr cc \<Rightarrow>
              (case cc_negotiation cc of
                 Some (Failure f) \<Rightarrow> (Err (NegotiationFailed (nf_failure_code f)), c)
               | Some (Response r) \<Rightarrow>
                   (let c1 = c\<lparr>cn_selected_protocol := nr_selected_protocol r\<rparr> in
                    if nr_selected_protocol r \<noteq> PROTOCOL_RDP
                    then (Done [UpgradeToTls], c1\<lparr>cn_state := NeedTls\<rparr>)
                    else send_connect_initial c1)
               | None \<Rightarrow> send_connect_initial c)))"

definition handle_connect_response :: "ClientConnector \<Rightarrow> u8 list \<Rightarrow> outcome \<times> ClientConnector" where
  "handle_connect_response c frame =
    (case mcs_payload frame of
       Inl e \<Rightarrow> (Err (Decode e), c)
     | Inr payload \<Rightarrow>
         (case ConnectResponse_from_bytes payload of
            Inl e \<Rightarrow> (Err (Decode e), c)
          | Inr resp \<Rightarrow>
              (if rs_result resp \<noteq> 0 then (Err (ConnectResponseFailed (rs_result resp)), c)
               else
                 let io = (case rs_server_network resp of None \<Rightarrow> 0 | Some n \<Rightarrow> sn_mcs_channel_id n);
                     virtual_ids = (case rs_server_network resp of None \<Rightarrow> [] | Some n \<Rightarrow> sn_channel_ids n);
                     c1 = c\<lparr>cn_io_channel := io, cn_join_queue := virtual_ids\<rparr> in
                 case encode_vec size_ErectDomainRequest encode_ErectDomainRequest ErectDomainRequest of
                   Inl e \<Rightarrow> (Err (Encode e), c1)
                 | Inr b1 \<Rightarrow>
                 (case wrap_mcs b1 of
                    Inl e \<Rightarrow> (Err (Encode e), c1)
                  | Inr erect \<Rightarrow>
                 (case encode_vec size_AttachUserRequest encode_AttachUserRequest AttachUserRequest of
                    Inl e \<Rightarrow> (Err (Encode e), c1)
                  | Inr b2 \<Rightarrow>
                 (case wrap_mcs b2 of
                    Inl e \<Rightarrow> (Err (Encode e), c1)
                  | Inr attach \<Rightarrow>
                      (Done [SendData erect, SendData attach], c1\<lparr>cn_state := SentErectAttach\<rparr>)))))))"

definition handle_attach_user_confirm :: "ClientConnector \<Rightarrow> u8 list \<Rightarrow> outcome \<times> ClientConnector" where
  "handle_attach_user_confirm c frame =
    (case mcs_payload frame of
       Inl e \<Rightarrow> (Err (Decode e), c)
     | Inr payload \<Rightarrow>
         (case decode decode_AttachUserConfirm payload of
            Inl e \<Rightarrow> (Err (Decode e), c)
          | Inr confirm \<Rightarrow>
              (if au_result confirm \<noteq> 0 then (Err (ConnectResponseFailed (au_result confirm)), c)
               else
                 let c1 = c\<lparr>cn_user_id := au_user_id confirm\<rparr>;
                     q = [cn_user_id c1, cn_io_channel c1] @ cn_join_queue c1 in
                 send_channel_join (c1\<lparr>cn_join_queue := q, cn_join_index := 0\<rparr>))))"

definition handle_channel_join_confirm :: "ClientConnector \<Rightarrow> u8 list \<Rightarrow> outcome \<times> ClientConnector" where
  "handle_channel_join_confirm c frame =
    (case mcs_payload frame of
       Inl e \<Rightarrow> (Err (Decode e), c)
     | Inr payload \<Rightarrow>
         (case decode decode_ChannelJoinConfirm payload of
            Inl e \<Rightarrow> (Err (Decode e), c)
          | Inr confirm \<Rightarrow>
              (if jc_result confirm \<noteq> 0 then (Err (ChannelJoinFailed (jc_channel_id confirm)), c)
               else
                 let c1 = c\<lparr>cn_join_index := cn_join_index c + 1\<rparr> in
                 if cn_join_index c1 < length (cn_join_queue c1) then send_channel_join c1
                 else (Done [OutConnected (cn_selected_protocol c1) (cn_user_id c1) (cn_io_channel c1)],
                       c1\<lparr>cn_state := Connected\<rparr>))))"

definition step :: "ClientConnector \<Rightarrow> u8 list \<Rightarrow> outcome \<times> ClientConnector" where
  "step c frame =
    (case cn_state c of
       SentConnectionRequest \<Rightarrow> handle_connection_confirm c frame
     | SentConnectInitial \<Rightarrow> handle_connect_response c frame
     | SentErectAttach \<Rightarrow> handle_attach_user_confirm c frame
     | JoiningChannels \<Rightarrow> handle_channel_join_confirm c frame
     | _ \<Rightarrow> (Err UnexpectedState, c))"

section \<open>Invariant\<close>

datatype call = Start | Resume | Step "u8 list"

fun exec :: "ClientConnector \<Rightarrow> call \<Rightarrow> outcome \<times> ClientConnector" where
  "exec c Start = start c"
| "exec c Resume = resume_after_tls c"
| "exec c (Step frame) = step c frame"

text \<open>
  What holds between calls: a join is only awaited with a user id the join request can encode
  and a queue entry at the current index, the queue starting with the user and the I/O channel;
  the TLS hand-over is only awaited when the server chose a protocol that needs it.
\<close>

definition conn_inv :: "ClientConnector \<Rightarrow> bool" where
  "conn_inv c \<longleftrightarrow>
     (cn_state c = JoiningChannels \<longrightarrow>
        MCS_USERCHANNEL_BASE \<le> cn_user_id c \<and> cn_join_index c < length (cn_join_queue c) \<and>
        take 2 (cn_join_queue c) = [cn_user_id c, cn_io_channel c]) \<and>
     (cn_state c = NeedTls \<longrightarrow> cn_selected_protocol c \<noteq> PROTOCOL_RDP)"

lemma conn_inv_new: "conn_inv (ClientConnector_new cfg)"
  by (simp add: conn_inv_def ClientConnector_new_def)

lemma decode_TpktHeader_length: "decode decode_TpktHeader frame = Inr h \<Longrightarrow> TPKT_HEADER_LEN \<le> length frame"
  by (auto simp: decode_def decode_TpktHeader_def dbind_def read_u8_def read_u16_be_def read_array_def rc_ensure_def
      ReadCursor_new_def rc_remaining_def dreturn_def dfail_def TPKT_HEADER_LEN_def split: if_splits)

definition join_frame :: "u16 \<Rightarrow> u16 \<Rightarrow> u8 list" where
  "join_frame user ch = mcs_frame (img_ChannelJoinRequest \<lparr>jr_user_id = user, jr_channel_id = ch\<rparr>)"

lemma send_channel_join_ok:
  assumes "MCS_USERCHANNEL_BASE \<le> cn_user_id c" and "cn_join_index c < length (cn_join_queue c)"
  shows "send_channel_join c = (Done [SendData (join_frame (cn_user_id c) (cn_join_queue c ! cn_join_index c))],
    c\<lparr>cn_state := JoiningChannels\<rparr>)"
  using assms
  by (simp add: send_channel_join_def Let_def ChannelJoinRequest_codec.encode_vec_img valid_ChannelJoinRequest_def
      wrap_mcs_frame join_frame_def)

lemma erect_attach_encode:
  "encode_vec size_ErectDomainRequest encode_ErectDomainRequest ErectDomainRequest = Inr (img_ErectDomainRequest ErectDomainRequest)"
  "encode_vec size_AttachUserRequest encode_AttachUserRequest AttachUserRequest = Inr (img_AttachUserRequest AttachUserRequest)"
  by (simp_all add: ErectDomainRequest_codec.encode_vec_img AttachUserRequest_codec.encode_vec_img
      valid_ErectDomainRequest_def valid_AttachUserRequest_def)

lemma send_connect_initial_cases:
  obtains e where "send_connect_initial c = (Err (Encode e), c)"
  | frame where "send_connect_initial c = (Done [SendData frame], c\<lparr>cn_state := SentConnectInitial\<rparr>)"
  by (cases "ConnectInitial_to_bytes \<lparr>ci_core = cfg_core (cn_config c), ci_security = cfg_security (cn_config c),
      ci_network = cfg_network (cn_config c)\<rparr>") (auto simp: send_connect_initial_def wrap_mcs_frame)

text \<open>
  What one call can do: report an error and stay in its state, or move along the protocol.
\<close>

definition advances :: "ConnectorState \<Rightarrow> ConnectorState \<Rightarrow> bool" where
  "advances s t \<longleftrightarrow> (s, t) \<in>
     {(Initial, SentConnectionRequest), (SentConnectionRequest, NeedTls),
      (SentConnectionRequest, SentConnectInitial), (NeedTls, SentConnectInitial),
      (SentConnectInitial, SentErectAttach), (SentErectAttach, JoiningChannels),
      (JoiningChannels, JoiningChannels), (JoiningChannels, Connected)}"

definition good_step :: "ClientConnector \<Rightarrow> outcome \<times> ClientConnector \<Rightarrow> bool" where
  "good_step c r = (case r of (out, c') \<Rightarrow>
     conn_inv c' \<and> cn_config c' = cn_config c \<and>
     (case out of
        Panic \<Rightarrow> False
      | Err e \<Rightarrow> cn_state c' = cn_state c
      | Done outs \<Rightarrow> advances (cn_state c) (cn_state c')))"

lemma good_send_connect_initial:
  assumes "conn_inv c" and "cn_state c = SentConnectionRequest \<or> cn_state c = NeedTls"
    and "cn_config c = cn_config c0" "cn_state c = cn_state c0"
  shows "good_step c0 (send_connect_initial c)"
  using assms
  by (cases c rule: send_connect_initial_cases) (auto simp: good_step_def conn_inv_def advances_def)

lemma good_connection_confirm:
  assumes "conn_inv c" and "cn_state c = SentConnectionRequest"
  shows "good_step c (handle_connection_confirm c frame)"
proof -
  have err: "good_step c (Err e, c)" for e using assms by (simp add: good_step_def)
  have tls: "good_step c (Done [UpgradeToTls], c\<lparr>cn_selected_protocol := p, cn_state := NeedTls\<rparr>)"
    if "p \<noteq> PROTOCOL_RDP" for p
    using assms that by (simp add: good_step_def conn_inv_def advances_def)
  have initial: "good_step c (send_connect_initial (c\<lparr>cn_selected_protocol := p\<rparr>))" "good_step c (send_connect_initial c)" for p
    using assms by (auto intro!: good_send_connect_initial simp: conn_inv_def)
  show ?thesis
    unfolding handle_connection_confirm_def
    using err tls initial
    by (auto simp: Let_def dest: decode_TpktHeader_length split: sum.splits option.splits NegotiationConfirm.splits)
qed

lemma good_connect_response:
  assumes "conn_inv c" and "cn_state c = SentConnectInitial"
  shows "good_step c (handle_connect_response c frame)"
  using assms
  by (auto simp: handle_connect_response_def good_step_def conn_inv_def advances_def Let_def erect_attach_encode
      wrap_mcs_frame split: sum.splits)

lemma good_attach_user_confirm:
  assumes "conn_inv c" and "cn_state c = SentErectAttach"
  shows "good_step c (handle_attach_user_confirm c frame)"
proof -
  have err: "good_step c (Err e, c)" for e using assms by (simp add: good_step_def)
  have join: "good_step c (send_channel_join (c\<lparr>cn_user_id := u, cn_join_queue := [u, cn_io_channel c] @ cn_join_queue c,
      cn_join_index := 0\<rparr>))" if "MCS_USERCHANNEL_BASE \<le> u" for u
    using assms that by (subst send_channel_join_ok) (simp_all add: good_step_def conn_inv_def advances_def)
  show ?thesis
    unfolding handle_attach_user_confirm_def
    using err join AttachUserConfirm_codec.decode_valid
    by (auto simp: Let_def valid_AttachUserConfirm_def split: sum.splits)
qed

lemma good_channel_join_confirm:
  assumes "conn_inv c" and "cn_state c = JoiningChannels"
  shows "good_step c (handle_channel_join_confirm c frame)"
proof -
  have err: "good_step c (Err e, c)" for e using assms by (simp add: good_step_def)
  have join: "good_step c (send_channel_join (c\<lparr>cn_join_index := cn_join_index c + 1\<rparr>))"
    if "cn_join_index c + 1 < length (cn_join_queue c)"
    using assms that by (subst send_channel_join_ok) (simp_all add: good_step_def conn_inv_def advances_def)
  have fin: "good_step c (Done outs, c\<lparr>cn_join_index := i, cn_state := Connected\<rparr>)" for outs i
    using assms by (simp add: good_step_def conn_inv_def advances_def)
  show ?thesis
    unfolding handle_channel_join_confirm_def
    using err join fin by (auto simp: Let_def split: sum.splits)
qed

lemma good_exec: "conn_inv c \<Longrightarrow> good_step c (exec c call)"
proof (cases call)
  case Start
  assume "conn_inv c"
  with Start show ?thesis
    by (auto simp: start_def good_step_def conn_inv_def advances_def Let_def encode_TpktHeader_total split: sum.splits)
next
  case Resume
  assume "conn_inv c"
  with Resume show ?thesis
    by (auto simp: resume_after_tls_def good_step_def [of c "(Err UnexpectedState, c)"] intro!: good_send_connect_initial)
next
  case (Step frame)
  assume "conn_inv c"
  with Step show ?thesis
    by (cases "cn_state c")
      (simp_all add: step_def good_connection_confirm good_connect_response good_attach_user_confirm
        good_channel_join_confirm, simp_all add: good_step_def)
qed

inductive reachable :: "ConnectorConfig \<Rightarrow> ClientConnector \<Rightarrow> bool" for cfg where
  reach_new: "reachable cfg (ClientConnector_new cfg)"
| reach_call: "reachable cfg c \<Longrightarrow> exec c call = (out, c') \<Longrightarrow> reachable cfg c'"

lemma reachable_inv: "reachable cfg c \<Longrightarrow> conn_inv c \<and> cn_config c = cfg"
proof (induction rule: reachable.induct)
  case reach_new
  then show ?case by (simp add: conn_inv_new) (simp add: ClientConnector_new_def)
next
  case (reach_call c call out c')
  with good_exec [of c call] show ?case by (simp add: good_step_def)
qed

section \<open>A complete handshake\<close>

fun run :: "ClientConnector \<Rightarrow> call list \<Rightarrow> outcome list \<times> ClientConnector" where
  "run c [] = ([], c)"
| "run c (call # calls) =
    (case exec c call of (out, c') \<Rightarrow> (case run c' calls of (outs, c'') \<Rightarrow> (out # outs, c'')))"

text \<open>What the client sends, and the frames of a server that agrees.\<close>

definition request_of :: "ConnectorConfig \<Rightarrow> ConnectionRequest" where
  "request_of cfg = \<lparr>cr_cookie = cfg_cookie cfg,
     cr_negotiation = Some \<lparr>nq_flags = 0, nq_requested_protocols = cfg_requested_protocols cfg\<rparr>\<rparr>"

definition tpkt_frame :: "u8 list \<Rightarrow> u8 list" where
  "tpkt_frame x224 = img_TpktHeader \<lparr>tp_length = of_nat (TPKT_HEADER_LEN + length x224)\<rparr> @ x224"

definition initial_of :: "ConnectorConfig \<Rightarrow> u8 list" where
  "initial_of cfg = mcs_connect_initial
     (img_DomainParameters DomainParameters_target @ img_DomainParameters DomainParameters_minimum
        @ img_DomainParameters DomainParameters_maximum)
     (gcc_request (img_ClientCoreData (cfg_core cfg) @ img_ClientSecurityData (cfg_security cfg)
        @ img_ClientNetworkData (cfg_network cfg)))"

definition valid_config :: "ConnectorConfig \<Rightarrow> bool" where
  "valid_config cfg \<longleftrightarrow> valid_ConnectionRequest (request_of cfg) \<and> valid_ClientCoreData (cfg_core cfg) \<and>
     valid_ClientNetworkData (cfg_network cfg)"

definition confirm_frame :: "u8 \<Rightarrow> u32 \<Rightarrow> u8 list" where
  "confirm_frame flags protocol = tpkt_frame (img_ConnectionConfirm
     \<lparr>cc_negotiation = Some (Response \<lparr>nr_flags = flags, nr_selected_protocol = protocol\<rparr>)\<rparr>)"

definition attach_confirm_frame :: "u16 \<Rightarrow> u8 list" where
  "attach_confirm_frame user = mcs_frame (img_AttachUserConfirm \<lparr>au_result = 0, au_user_id = user\<rparr>)"

definition join_confirm_frame :: "u16 \<Rightarrow> u16 \<Rightarrow> u8 list" where
  "join_confirm_frame user ch = mcs_frame (img_ChannelJoinConfirm
     \<lparr>jc_result = 0, jc_user_id = user, jc_requested_channel_id = ch, jc_channel_id = ch\<rparr>)"

lemma payload_of_frame: "7 + length p < 2 ^ 16 \<Longrightarrow> mcs_payload (mcs_frame p) = Inr p"
  using mcs_payload_frame [of p "[]"] by simp

lemma start_ok:
  assumes "cn_state c = Initial" and "valid_config (cn_config c)"
  shows "start c = (Done [SendData (tpkt_frame (img_ConnectionRequest (request_of (cn_config c))))],
    c\<lparr>cn_state := SentConnectionRequest\<rparr>)"
  using assms ConnectionRequest_codec.encode_vec_img [of "request_of (cn_config c)"]
  by (simp add: start_def valid_config_def request_of_def encode_TpktHeader_total tpkt_frame_def)

lemma send_connect_initial_ok:
  assumes "valid_config (cn_config c)"
  shows "send_connect_initial c = (Done [SendData (mcs_frame (initial_of (cn_config c)))],
    c\<lparr>cn_state := SentConnectInitial\<rparr>)"
proof -
  have params: "encode_vec size_DomainParameters encode_DomainParameters p = Inr (img_DomainParameters p)" for p
    by (simp add: DomainParameters_codec.encode_vec_img valid_DomainParameters_def)
  have "encode_vec size_ClientSecurityData encode_ClientSecurityData s = Inr (img_ClientSecurityData s)" for s
    by (simp add: ClientSecurityData_codec.encode_vec_img valid_ClientSecurityData_def)
  with assms params show ?thesis
    by (simp add: send_connect_initial_def ConnectInitial_to_bytes_def ClientCoreData_codec.encode_vec_img
        ClientNetworkData_codec.encode_vec_img valid_config_def initial_of_def wrap_mcs_frame)
qed

lemma confirm_ok:
  assumes "cn_state c = SentConnectionRequest" and "protocol \<noteq> PROTOCOL_RDP"
  shows "step c (confirm_frame flags protocol)
    = (Done [UpgradeToTls], c\<lparr>cn_selected_protocol := protocol, cn_state := NeedTls\<rparr>)"
proof -
  let ?cc = "\<lparr>cc_negotiation = Some (Response \<lparr>nr_flags = flags, nr_selected_protocol = protocol\<rparr>)\<rparr>"
  let ?h = "\<lparr>tp_length = of_nat (TPKT_HEADER_LEN + length (img_ConnectionConfirm ?cc))\<rparr> :: TpktHeader"
  have len: "length (img_ConnectionConfirm ?cc) = 15"
    using ConnectionConfirm_codec.img_size [of ?cc]
    by (simp add: valid_ConnectionConfirm_def size_ConnectionConfirm_def FIXED_HEADER_LEN_def cc_variable_size_def
        size_NegotiationConfirm_8)
  then have "decode decode_TpktHeader (confirm_frame flags protocol) = Inr ?h"
    unfolding confirm_frame_def tpkt_frame_def
    by (intro TpktHeader_codec.decode_img) (simp add: valid_TpktHeader_def TPKT_HEADER_LEN_def)
  moreover have "drop TPKT_HEADER_LEN (confirm_frame flags protocol) = img_ConnectionConfirm ?cc"
    by (simp add: confirm_frame_def tpkt_frame_def TPKT_HEADER_LEN_def img_TpktHeader_def)
  moreover have "decode decode_ConnectionConfirm (img_ConnectionConfirm ?cc) = Inr ?cc"
    using ConnectionConfirm_codec.decode_img [of ?cc "[]"] by (simp add: valid_ConnectionConfirm_def)
  moreover have "\<not> length (confirm_frame flags protocol) < TPKT_HEADER_LEN"
    by (simp add: confirm_frame_def tpkt_frame_def TPKT_HEADER_LEN_def img_TpktHeader_def)
  ultimately show ?thesis using assms by (simp add: step_def handle_connection_confirm_def)
qed

lemma response_ok:
  assumes "cn_state c = SentConnectInitial"
    and "mcs_payload frame = Inr p"
    and "ConnectResponse_from_bytes p = Inr \<lparr>rs_result = 0, rs_server_core = core,
      rs_server_network = Some \<lparr>sn_mcs_channel_id = io, sn_channel_ids = ids\<rparr>\<rparr>"
  shows "step c frame = (Done [SendData (mcs_frame (img_ErectDomainRequest ErectDomainRequest)),
      SendData (mcs_frame (img_AttachUserRequest AttachUserRequest))],
    c\<lparr>cn_state := SentErectAttach, cn_io_channel := io, cn_join_queue := ids\<rparr>)"
  using assms by (simp add: step_def handle_connect_response_def erect_attach_encode wrap_mcs_frame)

lemma attach_ok:
  assumes "cn_state c = SentErectAttach" and "MCS_USERCHANNEL_BASE \<le> user"
  shows "step c (attach_confirm_frame user) = (Done [SendData (join_frame user user)],
    c\<lparr>cn_state := JoiningChannels, cn_user_id := user, cn_join_queue := [user, cn_io_channel c] @ cn_join_queue c,
      cn_join_index := 0\<rparr>)"
proof -
  let ?m = "\<lparr>au_result = 0, au_user_id = user\<rparr> :: AttachUserConfirm"
  have "mcs_payload (attach_confirm_frame user) = Inr (img_AttachUserConfirm ?m)"
    unfolding attach_confirm_frame_def by (rule payload_of_frame) (simp add: img_AttachUserConfirm_def)
  moreover have "decode decode_AttachUserConfirm (img_AttachUserConfirm ?m) = Inr ?m"
    using AttachUserConfirm_codec.decode_img [of ?m "[]"] assms by (simp add: valid_AttachUserConfirm_def)
  ultimately show ?thesis
    using assms by (simp add: step_def handle_attach_user_confirm_def send_channel_join_ok Let_def)
qed

lemma join_confirm_decodes:
  assumes "MCS_USERCHANNEL_BASE \<le> user"
  obtains p where "mcs_payload (join_confirm_frame user ch) = Inr p"
    "decode decode_ChannelJoinConfirm p
      = Inr \<lparr>jc_result = 0, jc_user_id = user, jc_requested_channel_id = ch, jc_channel_id = ch\<rparr>"
proof -
  let ?m = "\<lparr>jc_result = 0, jc_user_id = user, jc_requested_channel_id = ch, jc_channel_id = ch\<rparr> :: ChannelJoinConfirm"
  have "mcs_payload (join_confirm_frame user ch) = Inr (img_ChannelJoinConfirm ?m)"
    unfolding join_confirm_frame_def by (rule payload_of_frame) (simp add: img_ChannelJoinConfirm_def)
  moreover have "decode decode_ChannelJoinConfirm (img_ChannelJoinConfirm ?m) = Inr ?m"
    using ChannelJoinConfirm_codec.decode_img [of ?m "[]"] assms by (simp add: valid_ChannelJoinConfirm_def)
  ultimately show thesis by (rule that)
qed

lemma join_next:
  assumes "cn_state c = JoiningChannels" and "MCS_USERCHANNEL_BASE \<le> cn_user_id c"
    and "cn_join_queue c = done_ids @ ch # ch' # rest" and "cn_join_index c = length done_ids"
  shows "step c (join_confirm_frame (cn_user_id c) ch) = (Done [SendData (join_frame (cn_user_id c) ch')],
    c\<lparr>cn_join_index := Suc (length done_ids)\<rparr>)"
proof -
  obtain p where "mcs_payload (join_confirm_frame (cn_user_id c) ch) = Inr p" "decode decode_ChannelJoinConfirm p
      = Inr \<lparr>jc_result = 0, jc_user_id = cn_user_id c, jc_requested_channel_id = ch, jc_channel_id = ch\<rparr>"
    using join_confirm_decodes [OF assms(2)] by blast
  then show ?thesis
    using assms by (simp add: step_def handle_channel_join_confirm_def send_channel_join_ok Let_def nth_append)
qed

lemma join_last:
  assumes "cn_state c = JoiningChannels" and "MCS_USERCHANNEL_BASE \<le> cn_user_id c"
    and "cn_join_queue c = done_ids @ [ch]" and "cn_join_index c = length done_ids"
  shows "step c (join_confirm_frame (cn_user_id c) ch) =
    (Done [OutConnected (cn_selected_protocol c) (cn_user_id c) (cn_io_channel c)],
     c\<lparr>cn_state := Connected, cn_join_index := length (cn_join_queue c)\<rparr>)"
proof -
  obtain p where "mcs_payload (join_confirm_frame (cn_user_id c) ch) = Inr p" "decode decode_ChannelJoinConfirm p
      = Inr \<lparr>jc_result = 0, jc_user_id = cn_user_id c, jc_requested_channel_id = ch, jc_channel_id = ch\<rparr>"
    using join_confirm_decodes [OF assms(2)] by blast
  with assms show ?thesis by (simp add: step_def handle_channel_join_confirm_def)
qed

text \<open>The confirms for the rest of the queue drive the joins to the end.\<close>

lemma joins_ok:
  assumes "cn_state c = JoiningChannels" and "MCS_USERCHANNEL_BASE \<le> cn_user_id c"
    and "cn_join_queue c = done_ids @ ch # rest" and "cn_join_index c = length done_ids"
  shows "run c (map (\<lambda>ch. Step (join_confirm_frame (cn_user_id c) ch)) (ch # rest)) =
    (map (\<lambda>ch. Done [SendData (join_frame (cn_user_id c) ch)]) rest
       @ [Done [OutConnected (cn_selected_protocol c) (cn_user_id c) (cn_io_channel c)]],
     c\<lparr>cn_state := Connected, cn_join_index := length (cn_join_queue c)\<rparr>)"
  using assms
proof (induction rest arbitrary: c done_ids ch)
  case Nil
  then show ?case by (simp add: join_last)
next
  case (Cons ch' rest)
  have "run (c\<lparr>cn_join_index := Suc (length done_ids)\<rparr>)
      (map (\<lambda>x. Step (join_confirm_frame (cn_user_id c) x)) (ch' # rest)) =
      (map (\<lambda>x. Done [SendData (join_frame (cn_user_id c) x)]) rest
         @ [Done [OutConnected (cn_selected_protocol c) (cn_user_id c) (cn_io_channel c)]],
       c\<lparr>cn_state := Connected, cn_join_index := length (cn_join_queue c)\<rparr>)"
    using Cons.IH [of "c\<lparr>cn_join_index := Suc (length done_ids)\<rparr>" "done_ids @ [ch]" ch'] Cons.prems by simp
  with join_next [OF Cons.prems] show ?case by simp
qed

text \<open>Everything up to the first join request, with the state it leads to.\<close>

definition joining :: "ConnectorConfig \<Rightarrow> u32 \<Rightarrow> u16 \<Rightarrow> u16 \<Rightarrow> u16 list \<Rightarrow> ClientConnector" where
  "joining cfg protocol user io ids = \<lparr>cn_config = cfg, cn_state = JoiningChannels,
     cn_selected_protocol = protocol, cn_user_id = user, cn_io_channel = io,
     cn_join_queue = user # io # ids, cn_join_index = 0\<rparr>"

lemma run_append:
  "run c (xs @ ys) = (case run c xs of (o1, c1) \<Rightarrow> (case run c1 ys of (o2, c2) \<Rightarrow> (o1 @ o2, c2)))"
  by (induction xs arbitrary: c) (auto split: prod.splits)

lemma run_to_joining:
  assumes cfg: "valid_config cfg"
    and tls: "protocol \<noteq> PROTOCOL_RDP"
    and user: "MCS_USERCHANNEL_BASE \<le> user"
    and response: "mcs_payload frame = Inr p" "ConnectResponse_from_bytes p = Inr \<lparr>rs_result = 0,
      rs_server_core = core, rs_server_network = Some \<lparr>sn_mcs_channel_id = io, sn_channel_ids = ids\<rparr>\<rparr>"
  shows "run (ClientConnector_new cfg)
      [Start, Step (confirm_frame flags protocol), Resume, Step frame, Step (attach_confirm_frame user)] =
    ([Done [SendData (tpkt_frame (img_ConnectionRequest (request_of cfg)))],
      Done [UpgradeToTls],
      Done [SendData (mcs_frame (initial_of cfg))],
      Done [SendData (mcs_frame (img_ErectDomainRequest ErectDomainRequest)),
            SendData (mcs_frame (img_AttachUserRequest AttachUserRequest))],
      Done [SendData (join_frame user user)]], joining cfg protocol user io ids)"
proof -
  let ?c0 = "ClientConnector_new cfg"
  have s0: "cn_state ?c0 = Initial" "cn_config ?c0 = cfg" by (simp_all add: ClientConnector_new_def)
  let ?c1 = "?c0\<lparr>cn_state := SentConnectionRequest\<rparr>"
  let ?c2 = "?c1\<lparr>cn_selected_protocol := protocol, cn_state := NeedTls\<rparr>"
  let ?c3 = "?c2\<lparr>cn_state := SentConnectInitial\<rparr>"
  let ?c4 = "?c3\<lparr>cn_state := SentErectAttach, cn_io_channel := io, cn_join_queue := ids\<rparr>"
  have 1: "start ?c0 = (Done [SendData (tpkt_frame (img_ConnectionRequest (request_of cfg)))], ?c1)"
    using start_ok [of ?c0] s0 cfg by simp
  have 2: "step ?c1 (confirm_frame flags protocol) = (Done [UpgradeToTls], ?c2)"
    by (rule confirm_ok) (simp_all add: tls)
  have 3: "resume_after_tls ?c2 = (Done [SendData (mcs_frame (initial_of cfg))], ?c3)"
    using send_connect_initial_ok [of ?c2] s0 cfg by (simp add: resume_after_tls_def)
  have 4: "step ?c3 frame = (Done [SendData (mcs_frame (img_ErectDomainRequest ErectDomainRequest)),
      SendData (mcs_frame (img_AttachUserRequest AttachUserRequest))], ?c4)"
    by (rule response_ok [OF _ response]) simp
  have 5: "step ?c4 (attach_confirm_frame user) = (Done [SendData (join_frame user user)], joining cfg protocol user io ids)"
    using attach_ok [of ?c4 user] user by (simp add: joining_def ClientConnector_new_def)
  show ?thesis using 1 2 3 4 5 by simp
qed

lemma exec_connected:
  assumes "conn_inv c" and "exec c call = (Done outs, c')" and "OutConnected p u io \<in> set outs"
  shows "cn_state c = JoiningChannels \<and> Suc (cn_join_index c) = length (cn_join_queue c) \<and>
    u = cn_user_id c \<and> io = cn_io_channel c \<and> p = cn_selected_protocol c \<and> cn_state c' = Connected"
proof -
  have no_ci: "OutConnected p u io \<notin> set outs" if "send_connect_initial x = (Done outs, c')" for x
    using that by (cases x rule: send_connect_initial_cases) auto
  have no_cj: "OutConnected p u io \<notin> set outs" if "send_channel_join x = (Done outs, c')" for x
    using that by (auto simp: send_channel_join_def Let_def wrap_mcs_frame split: if_splits sum.splits)
  have "\<exists>frame. call = Step frame \<and> cn_state c = JoiningChannels"
    using assms(2,3) no_ci no_cj
    by (cases call)
      (auto simp: start_def resume_after_tls_def step_def handle_connection_confirm_def handle_connect_response_def
        handle_attach_user_confirm_def Let_def wrap_mcs_frame split: if_splits sum.splits option.splits
        NegotiationConfirm.splits ConnectorState.splits)
  then obtain frame where call: "call = Step frame" and st: "cn_state c = JoiningChannels" by blast
  with assms have "cn_join_index c < length (cn_join_queue c)" by (simp add: conn_inv_def)
  with assms(2,3) call st no_cj show ?thesis
    by (auto simp: step_def handle_channel_join_confirm_def Let_def split: if_splits sum.splits)
qed

lemma run_reachable: "reachable cfg c \<Longrightarrow> run c calls = (outs, c') \<Longrightarrow> reachable cfg c'"
  by (induction c calls arbitrary: outs rule: run.induct) (auto split: prod.splits dest: reach_call)

text \<open>A configuration and a server response to evaluate the state machine on.\<close>

definition sample_config :: ConnectorConfig where
  "sample_config = \<lparr>cfg_cookie = Some (ascii ''ox''), cfg_requested_protocols = 1,
     cfg_core = \<lparr>core_version = 0x00080004, core_desktop_width = 1920, core_desktop_height = 1080,
       core_color_depth = 0xCA01, core_sas_sequence = 0xAA03, core_keyboard_layout = 0x409, core_client_build = 2600,
       core_client_name = replicate 32 0, core_keyboard_type = 4, core_keyboard_subtype = 0,
       core_keyboard_function_key = 12, core_ime_file_name = replicate 64 0\<rparr>,
     cfg_security = \<lparr>sec_encryption_methods = 0, sec_ext_encryption_methods = 0\<rparr>,
     cfg_network = \<lparr>net_channels = [\<lparr>cd_name = ascii ''rail'' @ replicate 4 0, cd_options = 0x80800000\<rparr>]\<rparr>\<rparr>"

definition sample_response :: "u8 list" where
  "sample_response = connect_response_wire 0 [0] [2, 1, 34]
     (gcc_response [0, 5, 0, 20] [(0x0C03, [0xEB, 3, 1, 0, 0xEC, 3, 0, 0])])"

lemma sample_config_valid: "valid_config sample_config"
  by (simp add: valid_config_def request_of_def sample_config_def valid_ConnectionRequest_def cr_variable_size_def
      FIXED_HEADER_LEN_def COOKIE_PREFIX_def ascii_def size_NegotiationRequest_def RDP_NEG_LEN_def
      valid_ClientCoreData_def valid_ClientNetworkData_def size_ClientNetworkData_def)

lemma sample_response_parses:
  "mcs_payload (mcs_frame sample_response) = Inr sample_response"
  "ConnectResponse_from_bytes sample_response = Inr \<lparr>rs_result = 0, rs_server_core = None,
     rs_server_network = Some \<lparr>sn_mcs_channel_id = 1003, sn_channel_ids = [1004]\<rparr>\<rparr>"
  by code_simp+

section \<open>Properties\<close>



text \<open>
  The connector reports \<open>Connected\<close> only at the end of the join phase: the confirm that
  triggers it is the one for the last channel of the queue, whose first two entries are the
  reported user channel and I/O channel, and the protocol reported is the one the server selected.
\<close>

theorem connected_after_all_joins:
  assumes "reachable cfg c" and "exec c call = (Done outs, c')" and "OutConnected p u io \<in> set outs"
  shows "cn_state c = JoiningChannels \<and> Suc (cn_join_index c) = length (cn_join_queue c) \<and>
    take 2 (cn_join_queue c) = [u, io] \<and> p = cn_selected_protocol c \<and> is_connected c'"
  using exec_connected [OF _ assms(2,3)] reachable_inv [OF assms(1)] by (auto simp: conn_inv_def is_connected_def)

theorem connected_after_all_joins_witness:
  "\<exists>c c'. reachable sample_config c \<and> exec c (Step (join_confirm_frame 1007 1004)) = (Done [OutConnected 1 1007 1003], c') \<and>
     Suc (cn_join_index c) = length (cn_join_queue c) \<and> is_connected c'"
proof -
  have bounds: "MCS_USERCHANNEL_BASE \<le> 1007" "(1 :: u32) \<noteq> PROTOCOL_RDP"
    by (simp_all add: MCS_USERCHANNEL_BASE_def PROTOCOL_RDP_def)
  let ?c5 = "joining sample_config 1 1007 1003 [1004]"
  let ?c6 = "?c5\<lparr>cn_join_index := 1\<rparr>" and ?c7 = "?c5\<lparr>cn_join_index := 2\<rparr>"
  have "reachable sample_config ?c5"
    using run_reachable [OF reach_new run_to_joining [OF sample_config_valid bounds(2,1) sample_response_parses]] .
  moreover have "exec ?c5 (Step (join_confirm_frame 1007 1007)) = (Done [SendData (join_frame 1007 1003)], ?c6)"
    using join_next [of ?c5 "[]" 1007 1003 "[1004]"] bounds by (simp add: joining_def)
  ultimately have "reachable sample_config ?c6" by (rule reach_call)
  moreover have "exec ?c6 (Step (join_confirm_frame 1007 1003)) = (Done [SendData (join_frame 1007 1004)], ?c7)"
    using join_next [of ?c6 "[1007]" 1003 1004 "[]"] bounds by (simp add: joining_def numeral_2_eq_2)
  ultimately have reach: "reachable sample_config ?c7" by (rule reach_call)
  have ex: "exec ?c7 (Step (join_confirm_frame 1007 1004)) = (Done [OutConnected 1 1007 1003],
      ?c7\<lparr>cn_state := Connected, cn_join_index := 3\<rparr>)"
    using join_last [of ?c7 "[1007, 1003]" 1004] bounds by (simp add: joining_def numeral_3_eq_3)
  from connected_after_all_joins [OF reach ex, of 1 1007 1003] reach ex show ?thesis by auto
qed

text \<open>
  C9: A server that agrees gets a complete connection. With a valid configuration, a confirm that
  selects TLS, a successful Connect-Response naming the I/O channel and the virtual channels, and
  confirms for the user attachment and every join, the connector sends exactly the connection
  request, the TLS hand-over, the Connect-Initial, the erect-domain and attach-user requests and
  one join request per channel (user, I/O, then the virtual ones in order), and then reports
  \<open>Connected\<close> with the negotiated values.
\<close>

theorem handshake_completes:
  assumes cfg: "valid_config cfg"
    and tls: "protocol \<noteq> PROTOCOL_RDP"
    and user: "MCS_USERCHANNEL_BASE \<le> user"
    and response: "mcs_payload frame = Inr p" "ConnectResponse_from_bytes p = Inr \<lparr>rs_result = 0,
      rs_server_core = core, rs_server_network = Some \<lparr>sn_mcs_channel_id = io, sn_channel_ids = ids\<rparr>\<rparr>"
  shows "\<exists>c. run (ClientConnector_new cfg)
      ([Start, Step (confirm_frame flags protocol), Resume, Step frame, Step (attach_confirm_frame user)]
        @ map (\<lambda>ch. Step (join_confirm_frame user ch)) (user # io # ids)) =
    ([Done [SendData (tpkt_frame (img_ConnectionRequest (request_of cfg)))],
      Done [UpgradeToTls],
      Done [SendData (mcs_frame (initial_of cfg))],
      Done [SendData (mcs_frame (img_ErectDomainRequest ErectDomainRequest)),
            SendData (mcs_frame (img_AttachUserRequest AttachUserRequest))],
      Done [SendData (join_frame user user)]]
     @ map (\<lambda>ch. Done [SendData (join_frame user ch)]) (io # ids)
     @ [Done [OutConnected protocol user io]], c) \<and> is_connected c"
proof -
  let ?c5 = "joining cfg protocol user io ids"
  have joins: "run ?c5 (map (\<lambda>ch. Step (join_confirm_frame user ch)) (user # io # ids)) =
    (map (\<lambda>ch. Done [SendData (join_frame user ch)]) (io # ids) @ [Done [OutConnected protocol user io]],
     ?c5\<lparr>cn_state := Connected, cn_join_index := length (cn_join_queue ?c5)\<rparr>)"
    using joins_ok [of ?c5 "[]" user "io # ids"] user by (simp add: joining_def)
  show ?thesis
    unfolding run_append run_to_joining [OF assms, of flags] prod.case joins
    by (simp add: is_connected_def)
qed

theorem handshake_completes_witness:
  "\<exists>outs c. run (ClientConnector_new sample_config)
      ([Start, Step (confirm_frame 0 1), Resume, Step (mcs_frame sample_response), Step (attach_confirm_frame 1007)]
        @ map (\<lambda>ch. Step (join_confirm_frame 1007 ch)) [1007, 1003, 1004]) = (outs, c) \<and>
     last outs = Done [OutConnected 1 1007 1003] \<and> is_connected c"
proof -
  have "MCS_USERCHANNEL_BASE \<le> 1007" and "(1 :: u32) \<noteq> PROTOCOL_RDP"
    by (simp_all add: MCS_USERCHANNEL_BASE_def PROTOCOL_RDP_def)
  from handshake_completes [OF sample_config_valid this(2,1) sample_response_parses, of 0] show ?thesis
    by (elim exE conjE) (intro exI conjI, assumption, simp_all)
qed

end
