(* ===== verification/Rdp_Share.thy ===== *)
theory Rdp_Share
  imports Rdp_Framing
begin

text \<open>
  The PDUs after the connection sequence (\<open>oxrdp-pdu\<close>): share headers (\<open>share.rs\<close>), the connection
  finalization PDUs (\<open>finalize.rs\<close>), the security header (\<open>security.rs\<close>), licensing (\<open>license.rs\<close>),
  capability sets (\<open>caps.rs\<close>), the client info packet (\<open>client_info.rs\<close>) and the demand / confirm
  active exchange (\<open>active.rs\<close>).
\<close>

section \<open>Share headers\<close>

definition TS_PROTOCOL_VERSION :: u16 where "TS_PROTOCOL_VERSION = 0x0010"
definition PDU_DEMAND_ACTIVE :: u16 where "PDU_DEMAND_ACTIVE = 1"
definition PDU_CONFIRM_ACTIVE :: u16 where "PDU_CONFIRM_ACTIVE = 3"

record ShareControlHeader =
  sh_total_length :: u16
  sh_pdu_type :: u16
  sh_pdu_source :: u16

definition ShareControlHeader_new :: "u16 \<Rightarrow> u16 \<Rightarrow> u16 \<Rightarrow> ShareControlHeader" where
  "ShareControlHeader_new pdu_type pdu_source total_length =
     \<lparr>sh_total_length = total_length, sh_pdu_type = pdu_type OR TS_PROTOCOL_VERSION, sh_pdu_source = pdu_source\<rparr>"

definition share_kind :: "ShareControlHeader \<Rightarrow> u16" where
  "share_kind h = sh_pdu_type h AND 0x000F"

definition size_ShareControlHeader :: "ShareControlHeader \<Rightarrow> nat" where
  "size_ShareControlHeader m = 6"

definition encode_ShareControlHeader :: "ShareControlHeader \<Rightarrow> encoder" where
  "encode_ShareControlHeader m = eseq
    [write_u16_le (sh_total_length m) ''share control total_length'',
     write_u16_le (sh_pdu_type m) ''share control pdu_type'',
     write_u16_le (sh_pdu_source m) ''share control pdu_source'']"

definition decode_ShareControlHeader :: "ShareControlHeader decoder" where
  "decode_ShareControlHeader =
     dbind (read_u16_le ''share control total_length'') (\<lambda>total_length.
     dbind (read_u16_le ''share control pdu_type'') (\<lambda>pdu_type.
     dbind (read_u16_le ''share control pdu_source'') (\<lambda>pdu_source.
     dreturn \<lparr>sh_total_length = total_length, sh_pdu_type = pdu_type, sh_pdu_source = pdu_source\<rparr>)))"

definition img_ShareControlHeader :: "ShareControlHeader \<Rightarrow> u8 list" where
  "img_ShareControlHeader m = concat
    [le_bytes 2 (sh_total_length m), le_bytes 2 (sh_pdu_type m), le_bytes 2 (sh_pdu_source m)]"

definition valid_ShareControlHeader :: "ShareControlHeader \<Rightarrow> bool" where
  "valid_ShareControlHeader m \<longleftrightarrow> True"

interpretation ShareControlHeader_codec: closed_wire_codec
  size_ShareControlHeader encode_ShareControlHeader decode_ShareControlHeader
  img_ShareControlHeader valid_ShareControlHeader
  by (unfold_locales; unfold size_ShareControlHeader_def encode_ShareControlHeader_def
      decode_ShareControlHeader_def img_ShareControlHeader_def valid_ShareControlHeader_def)
    (rule guarded_steps | simp)+

lemma emits_ShareControlHeader [writes_intros]: "emits (encode_ShareControlHeader m) (img_ShareControlHeader m)"
  by (rule ShareControlHeader_codec.enc_emits) (simp add: valid_ShareControlHeader_def)

lemma parses_ShareControlHeader [reads_intros]: "parses decode_ShareControlHeader (img_ShareControlHeader m) m"
  by (rule ShareControlHeader_codec.dec_parses) (simp add: valid_ShareControlHeader_def)

lemma length_img_ShareControlHeader [codec_size]: "length (img_ShareControlHeader m) = 6"
  by (simp add: img_ShareControlHeader_def)

lemmas local_ShareControlHeader [local_intros] = ShareControlHeader_codec.dec_local

record ShareDataHeader =
  sd_control :: ShareControlHeader
  sd_share_id :: u32
  sd_stream_id :: u8
  sd_uncompressed_length :: u16
  sd_pdu_type2 :: u8
  sd_compressed_type :: u8
  sd_compressed_length :: u16

definition size_ShareDataHeader :: "ShareDataHeader \<Rightarrow> nat" where
  "size_ShareDataHeader m = 18"

definition encode_ShareDataHeader :: "ShareDataHeader \<Rightarrow> encoder" where
  "encode_ShareDataHeader m = eseq
    [encode_ShareControlHeader (sd_control m),
     write_u32_le (sd_share_id m) ''share data share_id'',
     write_u8 0 ''share data pad1'',
     write_u8 (sd_stream_id m) ''share data stream_id'',
     write_u16_le (sd_uncompressed_length m) ''share data uncompressed_length'',
     write_u8 (sd_pdu_type2 m) ''share data pdu_type2'',
     write_u8 (sd_compressed_type m) ''share data compressed_type'',
     write_u16_le (sd_compressed_length m) ''share data compressed_length'']"

definition decode_ShareDataHeader :: "ShareDataHeader decoder" where
  "decode_ShareDataHeader =
     dbind decode_ShareControlHeader (\<lambda>control.
     dbind (read_u32_le ''share data share_id'') (\<lambda>share_id.
     dbind (read_u8 ''share data pad1'') (\<lambda>_.
     dbind (read_u8 ''share data stream_id'') (\<lambda>stream_id.
     dbind (read_u16_le ''share data uncompressed_length'') (\<lambda>uncompressed_length.
     dbind (read_u8 ''share data pdu_type2'') (\<lambda>pdu_type2.
     dbind (read_u8 ''share data compressed_type'') (\<lambda>compressed_type.
     dbind (read_u16_le ''share data compressed_length'') (\<lambda>compressed_length.
     dreturn \<lparr>sd_control = control, sd_share_id = share_id, sd_stream_id = stream_id,
       sd_uncompressed_length = uncompressed_length, sd_pdu_type2 = pdu_type2,
       sd_compressed_type = compressed_type, sd_compressed_length = compressed_length\<rparr>))))))))"

definition img_ShareDataHeader :: "ShareDataHeader \<Rightarrow> u8 list" where
  "img_ShareDataHeader m = concat
    [img_ShareControlHeader (sd_control m), le_bytes 4 (sd_share_id m), [0], [sd_stream_id m],
     le_bytes 2 (sd_uncompressed_length m), [sd_pdu_type2 m], [sd_compressed_type m], le_bytes 2 (sd_compressed_length m)]"

definition valid_ShareDataHeader :: "ShareDataHeader \<Rightarrow> bool" where
  "valid_ShareDataHeader m \<longleftrightarrow> True"

interpretation ShareDataHeader_codec: closed_wire_codec
  size_ShareDataHeader encode_ShareDataHeader decode_ShareDataHeader img_ShareDataHeader valid_ShareDataHeader
  by (unfold_locales; unfold size_ShareDataHeader_def encode_ShareDataHeader_def decode_ShareDataHeader_def
      img_ShareDataHeader_def valid_ShareDataHeader_def)
    (rule guarded_steps emits_ShareControlHeader parses_ShareControlHeader local_ShareControlHeader | simp add: codec_size)+

section \<open>Finalization\<close>

definition SYNCMSGTYPE_SYNC :: u16 where "SYNCMSGTYPE_SYNC = 0x0001"

record SynchronizePdu =
  sy_target_user :: u16

definition size_SynchronizePdu :: "SynchronizePdu \<Rightarrow> nat" where
  "size_SynchronizePdu m = 4"

definition encode_SynchronizePdu :: "SynchronizePdu \<Rightarrow> encoder" where
  "encode_SynchronizePdu m = eseq
    [write_u16_le SYNCMSGTYPE_SYNC ''finalize'', write_u16_le (sy_target_user m) ''finalize'']"

definition decode_SynchronizePdu :: "SynchronizePdu decoder" where
  "decode_SynchronizePdu =
     dbind (read_u16_le ''finalize'') (\<lambda>_.
     dbind (read_u16_le ''finalize'') (\<lambda>target_user.
     dreturn \<lparr>sy_target_user = target_user\<rparr>))"

definition img_SynchronizePdu :: "SynchronizePdu \<Rightarrow> u8 list" where
  "img_SynchronizePdu m = concat [le_bytes 2 SYNCMSGTYPE_SYNC, le_bytes 2 (sy_target_user m)]"

definition valid_SynchronizePdu :: "SynchronizePdu \<Rightarrow> bool" where
  "valid_SynchronizePdu m \<longleftrightarrow> True"

interpretation SynchronizePdu_codec: closed_wire_codec
  size_SynchronizePdu encode_SynchronizePdu decode_SynchronizePdu img_SynchronizePdu valid_SynchronizePdu
  by (unfold_locales; unfold size_SynchronizePdu_def encode_SynchronizePdu_def decode_SynchronizePdu_def
      img_SynchronizePdu_def valid_SynchronizePdu_def)
    (rule guarded_steps | simp)+

record ControlPdu =
  ct_action :: u16
  ct_grant_id :: u16
  ct_control_id :: u32

definition size_ControlPdu :: "ControlPdu \<Rightarrow> nat" where
  "size_ControlPdu m = 8"

definition encode_ControlPdu :: "ControlPdu \<Rightarrow> encoder" where
  "encode_ControlPdu m = eseq
    [write_u16_le (ct_action m) ''finalize'', write_u16_le (ct_grant_id m) ''finalize'',
     write_u32_le (ct_control_id m) ''finalize'']"

definition decode_ControlPdu :: "ControlPdu decoder" where
  "decode_ControlPdu =
     dbind (read_u16_le ''finalize'') (\<lambda>action.
     dbind (read_u16_le ''finalize'') (\<lambda>grant_id.
     dbind (read_u32_le ''finalize'') (\<lambda>control_id.
     dreturn \<lparr>ct_action = action, ct_grant_id = grant_id, ct_control_id = control_id\<rparr>)))"

definition img_ControlPdu :: "ControlPdu \<Rightarrow> u8 list" where
  "img_ControlPdu m = concat [le_bytes 2 (ct_action m), le_bytes 2 (ct_grant_id m), le_bytes 4 (ct_control_id m)]"

definition valid_ControlPdu :: "ControlPdu \<Rightarrow> bool" where
  "valid_ControlPdu m \<longleftrightarrow> True"

interpretation ControlPdu_codec: closed_wire_codec
  size_ControlPdu encode_ControlPdu decode_ControlPdu img_ControlPdu valid_ControlPdu
  by (unfold_locales; unfold size_ControlPdu_def encode_ControlPdu_def decode_ControlPdu_def
      img_ControlPdu_def valid_ControlPdu_def)
    (rule guarded_steps | simp)+

datatype FontListPdu = FontListPdu

definition size_FontListPdu :: "FontListPdu \<Rightarrow> nat" where
  "size_FontListPdu m = 8"

definition encode_FontListPdu :: "FontListPdu \<Rightarrow> encoder" where
  "encode_FontListPdu m = eseq
    [write_u16_le 0 ''finalize'', write_u16_le 0 ''finalize'', write_u16_le 0x0003 ''finalize'',
     write_u16_le 0x0032 ''finalize'']"

definition decode_FontListPdu :: "FontListPdu decoder" where
  "decode_FontListPdu =
     dbind (read_u16_le ''finalize'') (\<lambda>_.
     dbind (read_u16_le ''finalize'') (\<lambda>_.
     dbind (read_u16_le ''finalize'') (\<lambda>_.
     dbind (read_u16_le ''finalize'') (\<lambda>_. dreturn FontListPdu))))"

definition img_FontListPdu :: "FontListPdu \<Rightarrow> u8 list" where
  "img_FontListPdu m = concat
    [le_bytes 2 (0 :: u16), le_bytes 2 (0 :: u16), le_bytes 2 (0x0003 :: u16), le_bytes 2 (0x0032 :: u16)]"

definition valid_FontListPdu :: "FontListPdu \<Rightarrow> bool" where
  "valid_FontListPdu m \<longleftrightarrow> True"

lemma FontListPdu_only: "FontListPdu = x"
  by (cases x) simp

interpretation FontListPdu_codec: closed_wire_codec
  size_FontListPdu encode_FontListPdu decode_FontListPdu img_FontListPdu valid_FontListPdu
  by (unfold_locales; unfold size_FontListPdu_def encode_FontListPdu_def decode_FontListPdu_def
      img_FontListPdu_def valid_FontListPdu_def)
    (rule guarded_steps FontListPdu_only | simp)+

section \<open>Security header\<close>

definition SECURITY_HEADER_LEN :: nat where "SECURITY_HEADER_LEN = 4"

record SecurityHeader =
  se_flags :: u16
  se_flags_hi :: u16

definition SecurityHeader_new :: "u16 \<Rightarrow> SecurityHeader" where
  "SecurityHeader_new flags = \<lparr>se_flags = flags, se_flags_hi = 0\<rparr>"

definition size_SecurityHeader :: "SecurityHeader \<Rightarrow> nat" where
  "size_SecurityHeader m = SECURITY_HEADER_LEN"

definition encode_SecurityHeader :: "SecurityHeader \<Rightarrow> encoder" where
  "encode_SecurityHeader m = eseq
    [write_u16_le (se_flags m) ''security header flags'', write_u16_le (se_flags_hi m) ''security header flagsHi'']"

definition decode_SecurityHeader :: "SecurityHeader decoder" where
  "decode_SecurityHeader =
     dbind (read_u16_le ''security header flags'') (\<lambda>flags.
     dbind (read_u16_le ''security header flagsHi'') (\<lambda>flags_hi.
     dreturn \<lparr>se_flags = flags, se_flags_hi = flags_hi\<rparr>))"

definition img_SecurityHeader :: "SecurityHeader \<Rightarrow> u8 list" where
  "img_SecurityHeader m = concat [le_bytes 2 (se_flags m), le_bytes 2 (se_flags_hi m)]"

definition valid_SecurityHeader :: "SecurityHeader \<Rightarrow> bool" where
  "valid_SecurityHeader m \<longleftrightarrow> True"

interpretation SecurityHeader_codec: closed_wire_codec
  size_SecurityHeader encode_SecurityHeader decode_SecurityHeader img_SecurityHeader valid_SecurityHeader
  by (unfold_locales; unfold size_SecurityHeader_def encode_SecurityHeader_def decode_SecurityHeader_def
      img_SecurityHeader_def valid_SecurityHeader_def)
    (rule guarded_steps | simp add: SECURITY_HEADER_LEN_def)+

section \<open>Licensing\<close>

definition ERROR_ALERT :: u8 where "ERROR_ALERT = 0xFF"
definition STATUS_VALID_CLIENT :: u32 where "STATUS_VALID_CLIENT = 0x00000007"

record LicensePdu =
  li_msg_type :: u8
  li_flags :: u8
  li_error_code :: "u32 option"

definition is_proceed :: "LicensePdu \<Rightarrow> bool" where
  "is_proceed m \<longleftrightarrow> li_msg_type m = ERROR_ALERT \<and> li_error_code m = Some STATUS_VALID_CLIENT"

definition decode_LicensePdu :: "LicensePdu decoder" where
  "decode_LicensePdu =
     dbind (read_u8 ''license bMsgType'') (\<lambda>msg_type.
     dbind (read_u8 ''license flags'') (\<lambda>flags.
     dbind (read_u16_le ''license wMsgSize'') (\<lambda>_.
     dbind (if msg_type = ERROR_ALERT
            then dbind (read_u32_le ''license dwErrorCode'') (\<lambda>code. dreturn (Some code))
            else dreturn None) (\<lambda>error_code.
     dreturn \<lparr>li_msg_type = msg_type, li_flags = flags, li_error_code = error_code\<rparr>))))"

section \<open>Capability sets\<close>

definition CAP_GENERAL :: u16 where "CAP_GENERAL = 0x0001"
definition CAP_BITMAP :: u16 where "CAP_BITMAP = 0x0002"
definition CAP_INPUT :: u16 where "CAP_INPUT = 0x000D"

record GeneralCapabilitySet =
  gc_os_major :: u16
  gc_os_minor :: u16
  gc_protocol_version :: u16
  gc_extra_flags :: u16

definition GeneralCapabilitySet_default :: GeneralCapabilitySet where
  "GeneralCapabilitySet_default =
     \<lparr>gc_os_major = 1, gc_os_minor = 3, gc_protocol_version = 0x0200, gc_extra_flags = 0x040D\<rparr>"

definition size_GeneralCapabilitySet :: "GeneralCapabilitySet \<Rightarrow> nat" where
  "size_GeneralCapabilitySet m = 24"

definition encode_GeneralCapabilitySet :: "GeneralCapabilitySet \<Rightarrow> encoder" where
  "encode_GeneralCapabilitySet m = eseq
    [write_u16_le CAP_GENERAL ''general capability set type'',
     write_u16_le 24 ''general capability set length'',
     write_u16_le (gc_os_major m) ''os major'',
     write_u16_le (gc_os_minor m) ''os minor'',
     write_u16_le (gc_protocol_version m) ''protocol version'',
     write_u16_le 0 ''pad2octetsA'',
     write_u16_le 0 ''generalCompressionTypes'',
     write_u16_le (gc_extra_flags m) ''extra flags'',
     write_u16_le 0 ''updateCapabilityFlag'',
     write_u16_le 0 ''remoteUnshareFlag'',
     write_u16_le 0 ''generalCompressionLevel'',
     write_u8 0 ''refreshRectSupport'',
     write_u8 0 ''suppressOutputSupport'']"

record BitmapCapabilitySet =
  bc_preferred_bits_per_pixel :: u16
  bc_desktop_width :: u16
  bc_desktop_height :: u16

definition size_BitmapCapabilitySet :: "BitmapCapabilitySet \<Rightarrow> nat" where
  "size_BitmapCapabilitySet m = 28"

definition encode_BitmapCapabilitySet :: "BitmapCapabilitySet \<Rightarrow> encoder" where
  "encode_BitmapCapabilitySet m = eseq
    [write_u16_le CAP_BITMAP ''bitmap capability set type'',
     write_u16_le 28 ''bitmap capability set length'',
     write_u16_le (bc_preferred_bits_per_pixel m) ''preferred bits per pixel'',
     write_u16_le 1 ''receive1BitPerPixel'',
     write_u16_le 1 ''receive4BitsPerPixel'',
     write_u16_le 1 ''receive8BitsPerPixel'',
     write_u16_le (bc_desktop_width m) ''desktop width'',
     write_u16_le (bc_desktop_height m) ''desktop height'',
     write_u16_le 0 ''pad'',
     write_u16_le 1 ''desktopResizeFlag'',
     write_u16_le 1 ''bitmapCompressionFlag'',
     write_u8 0 ''highColorFlags'',
     write_u8 0 ''drawingFlags'',
     write_u16_le 1 ''multipleRectangleSupport'',
     write_u16_le 0 ''pad2octetsB'']"

record InputCapabilitySet =
  ic_input_flags :: u16
  ic_keyboard_layout :: u32
  ic_keyboard_type :: u32
  ic_keyboard_subtype :: u32
  ic_keyboard_function_key :: u32

definition InputCapabilitySet_default :: InputCapabilitySet where
  "InputCapabilitySet_default = \<lparr>ic_input_flags = 0x0001 OR 0x0004 OR 0x0020 OR 0x0080,
     ic_keyboard_layout = 0x0409, ic_keyboard_type = 4, ic_keyboard_subtype = 0, ic_keyboard_function_key = 12\<rparr>"

definition size_InputCapabilitySet :: "InputCapabilitySet \<Rightarrow> nat" where
  "size_InputCapabilitySet m = 88"

definition encode_InputCapabilitySet :: "InputCapabilitySet \<Rightarrow> encoder" where
  "encode_InputCapabilitySet m = eseq
    [write_u16_le CAP_INPUT ''input capability set type'',
     write_u16_le 88 ''input capability set length'',
     write_u16_le (ic_input_flags m) ''input flags'',
     write_u16_le 0 ''pad2octetsA'',
     write_u32_le (ic_keyboard_layout m) ''keyboard layout'',
     write_u32_le (ic_keyboard_type m) ''keyboard type'',
     write_u32_le (ic_keyboard_subtype m) ''keyboard subtype'',
     write_u32_le (ic_keyboard_function_key m) ''keyboard function key'',
     write_slice (replicate 64 0) ''input imeFileName'']"

definition default_client_capabilities :: "u16 \<Rightarrow> u16 \<Rightarrow> u16 \<Rightarrow> encode_error + u16 \<times> u8 list" where
  "default_client_capabilities width height bpp =
    (case encode_vec size_GeneralCapabilitySet encode_GeneralCapabilitySet GeneralCapabilitySet_default of
       Inl e \<Rightarrow> Inl e
     | Inr general \<Rightarrow>
    (case encode_vec size_BitmapCapabilitySet encode_BitmapCapabilitySet
            \<lparr>bc_preferred_bits_per_pixel = bpp, bc_desktop_width = width, bc_desktop_height = height\<rparr> of
       Inl e \<Rightarrow> Inl e
     | Inr bitmap \<Rightarrow>
    (case encode_vec size_InputCapabilitySet encode_InputCapabilitySet InputCapabilitySet_default of
       Inl e \<Rightarrow> Inl e
     | Inr input \<Rightarrow> Inr (3, general @ bitmap @ input))))"

section \<open>Demand and confirm active\<close>

record DemandActive =
  da_pdu_source :: u16
  da_share_id :: u32

definition decode_DemandActive :: "DemandActive decoder" where
  "decode_DemandActive =
     dbind decode_ShareControlHeader (\<lambda>ctrl.
     if share_kind ctrl \<noteq> PDU_DEMAND_ACTIVE
     then dfail (InvalidField ''Demand Active'' ''pdu type'' ''not a Demand Active PDU'')
     else
     dbind (read_u32_le ''Demand Active'') (\<lambda>share_id.
     dbind (read_u16_le ''Demand Active'') (\<lambda>length_source_descriptor.
     dbind (read_u16_le ''Demand Active'') (\<lambda>_.
     dbind (read_slice (unat length_source_descriptor) ''Demand Active'') (\<lambda>_.
     dreturn \<lparr>da_pdu_source = sh_pdu_source ctrl, da_share_id = share_id\<rparr>)))))"

definition DemandActive_from_bytes :: "u8 list \<Rightarrow> decode_error + DemandActive" where
  "DemandActive_from_bytes data = decode decode_DemandActive data"

definition build_confirm_active :: "u32 \<Rightarrow> u16 \<Rightarrow> u16 \<Rightarrow> u16 \<Rightarrow> u16 \<Rightarrow> encode_error + u8 list" where
  "build_confirm_active share_id pdu_source width height bpp =
    (let SOURCE_DESCRIPTOR = ascii ''oxrdp'' @ [0] in
     case default_client_capabilities width height bpp of
       Inl e \<Rightarrow> Inl e
     | Inr (num_caps, caps) \<Rightarrow>
         (let length_combined_capabilities = 2 + 2 + length caps;
              body = le_bytes 4 share_id @ le_bytes 2 (0x03EA :: u16) @
                     le_bytes 2 (of_nat (length SOURCE_DESCRIPTOR) :: u16) @
                     le_bytes 2 (of_nat length_combined_capabilities :: u16) @ SOURCE_DESCRIPTOR @
                     le_bytes 2 num_caps @ le_bytes 2 (0 :: u16) @ caps;
              total_length = of_nat (6 + length body) :: u16;
              header = ShareControlHeader_new PDU_CONFIRM_ACTIVE pdu_source total_length
          in case encode_vec size_ShareControlHeader encode_ShareControlHeader header of
               Inl e \<Rightarrow> Inl e
             | Inr out \<Rightarrow> Inr (out @ body)))"

section \<open>Reading the active exchange\<close>

text \<open>A Demand Active as a server sends it: descriptor, then capability sets the client skips.\<close>

definition demand_active_wire :: "u16 \<Rightarrow> u16 \<Rightarrow> u32 \<Rightarrow> u8 list \<Rightarrow> u8 list \<Rightarrow> u8 list" where
  "demand_active_wire tlen source share_id descriptor caps = concat
    [img_ShareControlHeader (ShareControlHeader_new PDU_DEMAND_ACTIVE source tlen), le_bytes 4 share_id,
     le_bytes 2 (of_nat (length descriptor) :: u16), le_bytes 2 (of_nat (4 + length caps) :: u16), descriptor, caps]"

lemma share_kind_new [simp]:
  "share_kind (ShareControlHeader_new PDU_DEMAND_ACTIVE source tlen) = PDU_DEMAND_ACTIVE"
  "share_kind (ShareControlHeader_new PDU_CONFIRM_ACTIVE source tlen) = PDU_CONFIRM_ACTIVE"
  by (simp_all add: share_kind_def ShareControlHeader_new_def PDU_DEMAND_ACTIVE_def PDU_CONFIRM_ACTIVE_def
      TS_PROTOCOL_VERSION_def)

lemma sh_pdu_source_new [simp]: "sh_pdu_source (ShareControlHeader_new kind source tlen) = source"
  by (simp add: ShareControlHeader_new_def)

lemma demand_active_read:
  assumes "length descriptor < 2 ^ 16"
  shows "DemandActive_from_bytes (demand_active_wire tlen source share_id descriptor caps)
    = Inr \<lparr>da_pdu_source = source, da_share_id = share_id\<rparr>"
proof -
  have len: "length descriptor = unat (of_nat (length descriptor) :: u16)"
    using assms by (simp only: unat_of_nat) simp
  have "parses decode_DemandActive
      (concat [img_ShareControlHeader (ShareControlHeader_new PDU_DEMAND_ACTIVE source tlen), le_bytes 4 share_id,
        le_bytes 2 (of_nat (length descriptor) :: u16), le_bytes 2 (of_nat (4 + length caps) :: u16), descriptor])
      \<lparr>da_pdu_source = source, da_share_id = share_id\<rparr>"
    unfolding decode_DemandActive_def
    by (rule parses_ShareControlHeader parses_slice [OF len] reads_intros | simp)+
  from readsD [OF parses_reads [OF this], of "[]" caps] show ?thesis
    by (simp add: DemandActive_from_bytes_def demand_active_wire_def decode_def ReadCursor_new_at)
qed

text \<open>
  A reader of capability sets: \<open>n\<close> sets, each its type, its length and its body, and nothing else.
\<close>

fun cap_sets :: "nat \<Rightarrow> u8 list \<Rightarrow> (u16 \<times> u8 list) list option" where
  "cap_sets 0 bs = (if bs = [] then Some [] else None)"
| "cap_sets (Suc n) bs =
    (let len = unat (le_value (take 2 (drop 2 bs)) :: u16) in
     if length bs < 4 \<or> len < 4 \<or> length bs < len then None
     else map_option ((#) (le_value (take 2 bs), take (len - 4) (drop 4 bs))) (cap_sets n (drop len bs)))"

definition cap_img :: "u16 \<Rightarrow> u8 list \<Rightarrow> u8 list" where
  "cap_img ty body = le_bytes 2 ty @ le_bytes 2 (of_nat (4 + length body) :: u16) @ body"

lemma u16_bytes: "le_value (le_bytes 2 w) = w" for w :: u16
  by (simp add: le_value_le_bytes_full)

lemma cap_sets_step:
  assumes "4 + length body < 2 ^ 16"
  shows "cap_sets (Suc n) (cap_img ty body @ rest) = map_option ((#) (ty, body)) (cap_sets n rest)"
proof -
  have len: "unat (of_nat (4 + length body) :: u16) = 4 + length body" using assms by (simp only: unat_of_nat) simp
  have parts: "take 2 (cap_img ty body @ rest) = le_bytes 2 ty"
    "take 2 (drop 2 (cap_img ty body @ rest)) = le_bytes 2 (of_nat (4 + length body) :: u16)"
    "drop 4 (cap_img ty body @ rest) = body @ rest" "drop (4 + length body) (cap_img ty body @ rest) = rest"
    "length (cap_img ty body @ rest) = 4 + length body + length rest"
    by (simp_all add: cap_img_def)
  show ?thesis
    unfolding cap_sets.simps parts u16_bytes len Let_def by simp
qed

text \<open>The three capability sets of the client, as type and body.\<close>

definition client_caps :: "u16 \<Rightarrow> u16 \<Rightarrow> u16 \<Rightarrow> (u16 \<times> u8 list) list" where
  "client_caps width height bpp =
    [(CAP_GENERAL, concat (map (le_bytes 2) [1, 3, 0x0200, 0, 0, 0x040D, 0, 0, 0 :: u16]) @ [0, 0]),
     (CAP_BITMAP, concat (map (le_bytes 2) [bpp, 1, 1, 1, width, height, 0, 1, 1]) @ [0, 0] @ le_bytes 2 (1 :: u16) @ le_bytes 2 (0 :: u16)),
     (CAP_INPUT, le_bytes 2 (0xA5 :: u16) @ le_bytes 2 (0 :: u16) @
        concat (map (le_bytes 4) [0x0409, 4, 0, 12 :: u32]) @ replicate 64 0)]"

lemma encode_vec_emits:
  assumes "emits (enc m) bs" and "sz m = length bs"
  shows "encode_vec sz enc m = Inr bs"
  using emitsD [OF assms(1), of "replicate (sz m) 0" "[]" "[]"] assms(2)
  by (simp add: encode_vec_def WriteCursor_new_at)

lemma default_caps:
  "default_client_capabilities width height bpp =
     Inr (3, concat (map (\<lambda>c. cap_img (fst c) (snd c)) (client_caps width height bpp)))"
proof -
  have general: "encode_vec size_GeneralCapabilitySet encode_GeneralCapabilitySet GeneralCapabilitySet_default =
      Inr (concat [le_bytes 2 CAP_GENERAL, le_bytes 2 (24 :: u16), le_bytes 2 (1 :: u16), le_bytes 2 (3 :: u16),
        le_bytes 2 (0x0200 :: u16), le_bytes 2 (0 :: u16), le_bytes 2 (0 :: u16), le_bytes 2 (0x040D :: u16),
        le_bytes 2 (0 :: u16), le_bytes 2 (0 :: u16), le_bytes 2 (0 :: u16), [0], [0]])"
    by (rule encode_vec_emits)
      (simp only: encode_GeneralCapabilitySet_def GeneralCapabilitySet_default_def GeneralCapabilitySet.simps,
       intro writes_intros, simp add: size_GeneralCapabilitySet_def)
  have bitmap: "encode_vec size_BitmapCapabilitySet encode_BitmapCapabilitySet
        \<lparr>bc_preferred_bits_per_pixel = bpp, bc_desktop_width = width, bc_desktop_height = height\<rparr> =
      Inr (concat [le_bytes 2 CAP_BITMAP, le_bytes 2 (28 :: u16), le_bytes 2 bpp, le_bytes 2 (1 :: u16),
        le_bytes 2 (1 :: u16), le_bytes 2 (1 :: u16), le_bytes 2 width, le_bytes 2 height, le_bytes 2 (0 :: u16),
        le_bytes 2 (1 :: u16), le_bytes 2 (1 :: u16), [0], [0], le_bytes 2 (1 :: u16), le_bytes 2 (0 :: u16)])"
    by (rule encode_vec_emits)
      (simp only: encode_BitmapCapabilitySet_def BitmapCapabilitySet.simps,
       intro writes_intros, simp add: size_BitmapCapabilitySet_def)
  have input: "encode_vec size_InputCapabilitySet encode_InputCapabilitySet InputCapabilitySet_default =
      Inr (concat [le_bytes 2 CAP_INPUT, le_bytes 2 (88 :: u16), le_bytes 2 (0x0001 OR 0x0004 OR 0x0020 OR 0x0080 :: u16),
        le_bytes 2 (0 :: u16), le_bytes 4 (0x0409 :: u32), le_bytes 4 (4 :: u32), le_bytes 4 (0 :: u32),
        le_bytes 4 (12 :: u32), replicate 64 0])"
    by (rule encode_vec_emits)
      (simp only: encode_InputCapabilitySet_def InputCapabilitySet_default_def InputCapabilitySet.simps,
       intro writes_intros, simp add: size_InputCapabilitySet_def)
  show ?thesis
    unfolding default_client_capabilities_def general bitmap input
    by (simp add: client_caps_def cap_img_def)
qed

lemma cap_sets_client: "cap_sets 3 (concat (map (\<lambda>c. cap_img (fst c) (snd c)) (client_caps width height bpp)))
  = Some (client_caps width height bpp)"
  unfolding client_caps_def numeral_3_eq_3
  by (simp only: list.map concat.simps fst_conv snd_conv, subst cap_sets_step, simp, subst cap_sets_step, simp,
      subst cap_sets_step, simp, simp)

section \<open>Properties\<close>

lemma build_confirm_active_eq:
  "build_confirm_active share_id source width height bpp =
    Inr (img_ShareControlHeader (ShareControlHeader_new PDU_CONFIRM_ACTIVE source 166) @ le_bytes 4 share_id @
      le_bytes 2 (0x03EA :: u16) @ le_bytes 2 (6 :: u16) @ le_bytes 2 (144 :: u16) @ (ascii ''oxrdp'' @ [0]) @
      le_bytes 2 (3 :: u16) @ le_bytes 2 (0 :: u16) @
      concat (map (\<lambda>c. cap_img (fst c) (snd c)) (client_caps width height bpp)))"
proof -
  have caps: "length (concat (map (\<lambda>c. cap_img (fst c) (snd c)) (client_caps width height bpp))) = 140"
    by (simp add: client_caps_def cap_img_def)
  have desc: "length (ascii ''oxrdp'') = 5" by (simp add: ascii_def)
  have header: "encode_vec size_ShareControlHeader encode_ShareControlHeader h = Inr (img_ShareControlHeader h)" for h
    by (rule ShareControlHeader_codec.encode_vec_img) (simp add: valid_ShareControlHeader_def)
  show ?thesis
    unfolding build_confirm_active_def Let_def default_caps sum.case prod.case header
    by (simp add: desc caps del: length_concat)
qed

text \<open>
  The capability exchange. From any Demand Active with a descriptor that fits its length field the
  client recovers the server's share id, and the Confirm Active it builds for that id is well formed:
  the share control header carries the type, the user channel and the exact length of the PDU, the
  body echoes the share id, and the combined-capabilities field delimits exactly the announced three
  capability sets, the bitmap set among them holding the desktop size.
\<close>

theorem active_exchange:
  assumes "length descriptor < 2 ^ 16"
  shows "\<exists>d out hdr. DemandActive_from_bytes (demand_active_wire tlen source share_id descriptor caps) = Inr d \<and>
    da_pdu_source d = source \<and>
    build_confirm_active (da_share_id d) user width height bpp = Inr out \<and>
    decode decode_ShareControlHeader out = Inr hdr \<and> share_kind hdr = PDU_CONFIRM_ACTIVE \<and>
    sh_pdu_source hdr = user \<and> unat (sh_total_length hdr) = length out \<and>
    take 4 (drop 6 out) = le_bytes 4 share_id \<and>
    unat (le_value (take 2 (drop 14 out)) :: u16) = length (drop 22 out) \<and>
    unat (le_value (take 2 (drop 22 out)) :: u16) = 3 \<and>
    cap_sets 3 (drop 26 out) = Some (client_caps width height bpp)"
proof -
  let ?hdr = "ShareControlHeader_new PDU_CONFIRM_ACTIVE user 166"
  have img: "length (img_ShareControlHeader ?hdr) = 6" by (simp add: codec_size)
  have caps: "length (concat (map (\<lambda>c. cap_img (fst c) (snd c)) (client_caps width height bpp))) = 140"
    by (simp add: client_caps_def cap_img_def)
  have desc: "length (ascii ''oxrdp'') = 5" by (simp add: ascii_def)
  have dec: "decode decode_ShareControlHeader (img_ShareControlHeader ?hdr @ rest) = Inr ?hdr" for rest
    by (rule ShareControlHeader_codec.decode_img) (simp add: valid_ShareControlHeader_def)
  show ?thesis
    unfolding demand_active_read [OF assms]
    by (intro exI conjI, rule refl, simp, rule build_confirm_active_eq, rule dec)
      (simp_all add: img caps desc u16_bytes cap_sets_client, simp add: ShareControlHeader_new_def)
qed

theorem active_exchange_witness:
  "\<exists>d out. DemandActive_from_bytes (demand_active_wire 0 1002 0x000103EA (ascii ''RDP'') [0, 0]) = Inr d \<and>
     build_confirm_active (da_share_id d) 1007 1920 1080 32 = Inr out \<and> cap_sets 3 (drop 26 out) = Some (client_caps 1920 1080 32)"
  using active_exchange [of "ascii ''RDP''" 0 1002 "0x000103EA" "[0, 0]" 1007 1920 1080 32]
  by (auto simp: ascii_def)

end
