(* ===== verification/Rdp_Info.thy ===== *)
theory Rdp_Info
  imports Rdp_Connect
begin

text \<open>
  The client info packet (\<open>oxrdp-pdu/src/client_info.rs\<close>): credentials and session settings as
  length-counted, zero-terminated UTF-16 strings, and a reader of the packet to state what a server
  recovers from it.
\<close>

section \<open>Unicode\<close>

text \<open>\<open>str::chars\<close> on the UTF-8 bytes of a string: its scalar values.\<close>

definition cont_bits :: "u8 \<Rightarrow> nat" where
  "cont_bits b = unat b - 0x80"

fun utf8_chars :: "rust_string \<Rightarrow> nat list" where
  "utf8_chars [] = []"
| "utf8_chars (a # bs) =
    (if a < 0x80 then unat a # utf8_chars bs
     else if a \<le> 0xDF then
       (case bs of b # bs' \<Rightarrow> ((unat a - 0xC0) * 2 ^ 6 + cont_bits b) # utf8_chars bs' | _ \<Rightarrow> [])
     else if a \<le> 0xEF then
       (case bs of
          b # c # bs' \<Rightarrow> ((unat a - 0xE0) * 2 ^ 12 + cont_bits b * 2 ^ 6 + cont_bits c) # utf8_chars bs'
        | _ \<Rightarrow> [])
     else
       (case bs of
          b # c # d # bs' \<Rightarrow>
            ((unat a - 0xF0) * 2 ^ 18 + cont_bits b * 2 ^ 12 + cont_bits c * 2 ^ 6 + cont_bits d) # utf8_chars bs'
        | _ \<Rightarrow> []))"

text \<open>\<open>str::encode_utf16\<close>, one scalar value at a time.\<close>

definition utf16_units :: "nat \<Rightarrow> u16 list" where
  "utf16_units c =
    (if c < 0x10000 then [of_nat c]
     else [of_nat (0xD800 + (c - 0x10000) div 0x400), of_nat (0xDC00 + (c - 0x10000) mod 0x400)])"

definition encode_utf16 :: "rust_string \<Rightarrow> u16 list" where
  "encode_utf16 s = concat (map utf16_units (utf8_chars s))"

definition utf16le :: "rust_string \<Rightarrow> u8 list" where
  "utf16le s = concat (map (le_bytes 2) (encode_utf16 s))"

text \<open>A reader of UTF-16.\<close>

fun decode_utf16 :: "u16 list \<Rightarrow> nat list" where
  "decode_utf16 [] = []"
| "decode_utf16 (u # us) =
    (if 0xD800 \<le> u \<and> u < 0xDC00 then
       (case us of
          v # us' \<Rightarrow> (0x10000 + (unat u - 0xD800) * 0x400 + (unat v - 0xDC00)) # decode_utf16 us'
        | [] \<Rightarrow> [])
     else unat u # decode_utf16 us)"

fun units_of :: "u8 list \<Rightarrow> u16 list" where
  "units_of (a # b # bs) = le_value [a, b] # units_of bs"
| "units_of _ = []"

definition scalar :: "nat \<Rightarrow> bool" where
  "scalar c \<longleftrightarrow> c < 0xD800 \<or> 0xE000 \<le> c \<and> c < 0x110000"

lemma cont_bits_less: "utf8_cont b \<Longrightarrow> cont_bits b < 64"
  by (auto simp: utf8_cont_def cont_bits_def word_le_nat_alt)

lemma scalar_two: "a < 32 \<Longrightarrow> b < 64 \<Longrightarrow> scalar (a * 64 + b)"
  by (simp add: scalar_def)

lemma scalar_three:
  assumes "a < 16" "b < 64" "c < 64" "a = 13 \<longrightarrow> b < 32"
  shows "scalar (a * 4096 + b * 64 + c)"
proof -
  consider "a < 13" | "a = 13" | "14 \<le> a" by linarith
  then show ?thesis by cases (use assms in \<open>simp_all add: scalar_def\<close>)
qed

lemma scalar_four:
  assumes "a < 5" "b < 64" "c < 64" "d < 64" "a = 4 \<longrightarrow> b < 16" "a = 0 \<longrightarrow> 16 \<le> b"
  shows "scalar (a * 262144 + b * 4096 + c * 64 + d)"
proof -
  consider "a = 0" | "0 < a" "a < 4" | "a = 4" using assms(1) by linarith
  then show ?thesis by cases (use assms in \<open>simp_all add: scalar_def\<close>)
qed

lemma utf8_chars_scalar: "utf8_valid s \<Longrightarrow> list_all scalar (utf8_chars s)"
proof (induction s rule: utf8_chars.induct)
  case (2 a bs)
  from "2.prems" show ?case
  proof (cases rule: utf8_valid_cases)
    case 1
    with 2 show ?thesis by (simp add: scalar_def word_less_nat_alt)
  next
    case (2 b bs')
    then have "unat a \<le> 0xDF" by (simp add: word_le_nat_alt)
    moreover have "cont_bits b < 64" using 2 by (simp add: cont_bits_less)
    ultimately have "scalar ((unat a - 0xC0) * 64 + cont_bits b)" by (intro scalar_two) arith+
    with 2 "2.IH" show ?thesis by simp
  next
    case (3 b c bs')
    then have ab: "unat a \<le> 0xEF" "unat a = 0xED \<Longrightarrow> unat b \<le> 0x9F"
      by (auto simp: word_le_nat_alt word_unat_eq_iff)
    have "cont_bits b < 64" "cont_bits c < 64" "unat a = 0xED \<Longrightarrow> cont_bits b < 32"
      using 3 ab(2) by (auto simp: cont_bits_less cont_bits_def utf8_cont_def word_le_nat_alt)
    with ab(1) have "scalar ((unat a - 0xE0) * 4096 + cont_bits b * 64 + cont_bits c)"
      by (intro scalar_three impI) arith+
    moreover have "\<not> a \<le> 0xDF" using 3 by (auto simp: word_le_nat_alt)
    ultimately show ?thesis using 3 "2.IH" by simp
  next
    case (4 b c d bs')
    then have ab: "unat a \<le> 0xF4" "0xF0 \<le> unat a" "unat a = 0xF4 \<Longrightarrow> unat b \<le> 0x8F" "unat a = 0xF0 \<Longrightarrow> 0x90 \<le> unat b"
      by (auto simp: word_le_nat_alt word_unat_eq_iff)
    have "cont_bits b < 64" "cont_bits c < 64" "cont_bits d < 64" "unat a = 0xF4 \<longrightarrow> cont_bits b < 16"
      "unat a = 0xF0 \<longrightarrow> 16 \<le> cont_bits b"
      using 4 ab(3,4) by (auto simp: cont_bits_less cont_bits_def utf8_cont_def word_le_nat_alt)
    with ab(1,2) have "scalar ((unat a - 0xF0) * 262144 + cont_bits b * 4096 + cont_bits c * 64 + cont_bits d)"
      by (intro scalar_four impI) arith+
    moreover have "\<not> a \<le> 0xDF" "\<not> a \<le> 0xEF" using 4 by (auto simp: word_le_nat_alt)
    ultimately show ?thesis using 4 "2.IH" by simp
  qed
qed simp

lemma decode_utf16_units:
  assumes "scalar c"
  shows "decode_utf16 (utf16_units c @ us) = c # decode_utf16 us"
proof (cases "c < 0x10000")
  case True
  then have "unat (of_nat c :: u16) = c" by (simp add: unat_of_nat)
  with True assms show ?thesis by (auto simp: utf16_units_def scalar_def word_le_nat_alt word_less_nat_alt)
next
  case False
  let ?d = "c - 0x10000"
  from assms False have "?d div 0x400 < 0x400" by (auto simp: scalar_def)
  then have "unat (of_nat (0xD800 + ?d div 0x400) :: u16) = 0xD800 + ?d div 0x400"
    "unat (of_nat (0xDC00 + ?d mod 0x400) :: u16) = 0xDC00 + ?d mod 0x400"
    by (simp_all only: unat_of_nat) simp_all
  with False \<open>?d div 0x400 < 0x400\<close> show ?thesis
    by (simp add: utf16_units_def word_le_nat_alt word_less_nat_alt)
qed

lemma units_of_le_bytes: "units_of (concat (map (le_bytes 2) us)) = us"
proof (induction us)
  case (Cons u us)
  have "le_value [ucast u, ucast (drop_bit 8 u)] = u"
    using le_value_le_bytes_full [of 2 u] by (simp add: numeral_2_eq_2)
  with Cons show ?case by (simp add: numeral_2_eq_2 del: le_value.simps)
qed simp

lemma utf16le_chars:
  assumes "utf8_valid s"
  shows "decode_utf16 (units_of (utf16le s)) = utf8_chars s"
proof -
  have "decode_utf16 (concat (map utf16_units cs)) = cs" if "list_all scalar cs" for cs
    using that by (induction cs) (simp_all add: decode_utf16_units)
  with utf8_chars_scalar [OF assms] show ?thesis by (simp add: utf16le_def units_of_le_bytes encode_utf16_def)
qed

section \<open>The packet\<close>

record ExtendedInfo =
  ei_client_address :: rust_string
  ei_client_dir :: rust_string
  ei_time_zone :: "u8 list"
  ei_session_id :: u32
  ei_performance_flags :: u32

definition ExtendedInfo_default :: ExtendedInfo where
  "ExtendedInfo_default = \<lparr>ei_client_address = ascii ''0.0.0.0'', ei_client_dir = [],
     ei_time_zone = replicate 172 0, ei_session_id = 0, ei_performance_flags = 0\<rparr>"

record ClientInfo =
  in_code_page :: u32
  in_flags :: u32
  in_domain :: rust_string
  in_username :: rust_string
  in_password :: rust_string
  in_alternate_shell :: rust_string
  in_working_dir :: rust_string
  in_extended :: ExtendedInfo

definition ClientInfo_to_bytes :: "ClientInfo \<Rightarrow> encode_error + u8 list" where
  "ClientInfo_to_bytes m =
    (let domain = utf16le (in_domain m);
         username = utf16le (in_username m);
         password = utf16le (in_password m);
         alternate_shell = utf16le (in_alternate_shell m);
         working_dir = utf16le (in_working_dir m);
         client_address = utf16le (ei_client_address (in_extended m));
         client_dir = utf16le (ei_client_dir (in_extended m))
     in Inr (le_bytes 4 (in_code_page m) @ le_bytes 4 (in_flags m) @
       le_bytes 2 (of_nat (length domain) :: u16) @ le_bytes 2 (of_nat (length username) :: u16) @
       le_bytes 2 (of_nat (length password) :: u16) @ le_bytes 2 (of_nat (length alternate_shell) :: u16) @
       le_bytes 2 (of_nat (length working_dir) :: u16) @
       domain @ [0, 0] @ username @ [0, 0] @ password @ [0, 0] @ alternate_shell @ [0, 0] @ working_dir @ [0, 0] @
       le_bytes 2 (0x0002 :: u16) @
       le_bytes 2 (of_nat (length client_address + 2) :: u16) @ client_address @ [0, 0] @
       le_bytes 2 (of_nat (length client_dir + 2) :: u16) @ client_dir @ [0, 0] @
       ei_time_zone (in_extended m) @ le_bytes 4 (ei_session_id (in_extended m)) @
       le_bytes 4 (ei_performance_flags (in_extended m))))"

section \<open>What a server reads\<close>

text \<open>A reader of the packet by its own counts, giving the strings as UTF-16 bytes.\<close>

record info_fields =
  if_code_page :: u32
  if_flags :: u32
  if_strings :: "u8 list list"
  if_address :: "u8 list"
  if_dir :: "u8 list"
  if_time_zone :: "u8 list"
  if_session_id :: u32
  if_performance_flags :: u32

definition read_terminated :: "nat \<Rightarrow> u8 list decoder" where
  "read_terminated n =
     dbind (read_slice n ''string'') (\<lambda>s.
     dbind (read_slice 2 ''terminator'') (\<lambda>z.
     if z \<noteq> [0, 0] then dfail (InvalidField ''info'' ''string'' ''not terminated'') else dreturn s))"

definition read_info :: "info_fields decoder" where
  "read_info =
     dbind (read_u32_le ''code page'') (\<lambda>code_page.
     dbind (read_u32_le ''flags'') (\<lambda>flags.
     dbind (read_u16_le ''cbDomain'') (\<lambda>n1.
     dbind (read_u16_le ''cbUserName'') (\<lambda>n2.
     dbind (read_u16_le ''cbPassword'') (\<lambda>n3.
     dbind (read_u16_le ''cbAlternateShell'') (\<lambda>n4.
     dbind (read_u16_le ''cbWorkingDir'') (\<lambda>n5.
     dbind (read_terminated (unat n1)) (\<lambda>s1.
     dbind (read_terminated (unat n2)) (\<lambda>s2.
     dbind (read_terminated (unat n3)) (\<lambda>s3.
     dbind (read_terminated (unat n4)) (\<lambda>s4.
     dbind (read_terminated (unat n5)) (\<lambda>s5.
     dbind (read_u16_le ''clientAddressFamily'') (\<lambda>_.
     dbind (read_u16_le ''cbClientAddress'') (\<lambda>n6.
     dbind (read_terminated (unat n6 - 2)) (\<lambda>address.
     dbind (read_u16_le ''cbClientDir'') (\<lambda>n7.
     dbind (read_terminated (unat n7 - 2)) (\<lambda>dir.
     dbind (read_slice 172 ''time zone'') (\<lambda>time_zone.
     dbind (read_u32_le ''session id'') (\<lambda>session_id.
     dbind (read_u32_le ''performance flags'') (\<lambda>performance_flags.
     dreturn \<lparr>if_code_page = code_page, if_flags = flags, if_strings = [s1, s2, s3, s4, s5],
       if_address = address, if_dir = dir, if_time_zone = time_zone, if_session_id = session_id,
       if_performance_flags = performance_flags\<rparr>))))))))))))))))))))"

definition info_strings :: "ClientInfo \<Rightarrow> rust_string list" where
  "info_strings m = [in_domain m, in_username m, in_password m, in_alternate_shell m, in_working_dir m]"

definition counts_fit :: "ClientInfo \<Rightarrow> bool" where
  "counts_fit m \<longleftrightarrow> list_all (\<lambda>s. length (utf16le s) < 2 ^ 16) (info_strings m) \<and>
     length (utf16le (ei_client_address (in_extended m))) + 2 < 2 ^ 16 \<and>
     length (utf16le (ei_client_dir (in_extended m))) + 2 < 2 ^ 16 \<and> length (ei_time_zone (in_extended m)) = 172"

lemma parses_terminated: "n = length s \<Longrightarrow> parses (read_terminated n) (concat [s, [0, 0]]) s"
  unfolding read_terminated_def by (rule reads_intros | simp)+

lemma info_read:
  assumes "counts_fit m" and "ClientInfo_to_bytes m = Inr bs"
  shows "decode read_info (bs @ rest) = Inr \<lparr>if_code_page = in_code_page m, if_flags = in_flags m,
    if_strings = map utf16le (info_strings m), if_address = utf16le (ei_client_address (in_extended m)),
    if_dir = utf16le (ei_client_dir (in_extended m)), if_time_zone = ei_time_zone (in_extended m),
    if_session_id = ei_session_id (in_extended m), if_performance_flags = ei_performance_flags (in_extended m)\<rparr>"
    (is "_ = Inr ?fields")
proof -
  let ?s = "\<lambda>f. utf16le (f m)" and ?e = "in_extended m"
  let ?a = "utf16le (ei_client_address ?e)" and ?d = "utf16le (ei_client_dir ?e)"
  have fit: "unat (of_nat n :: u16) = n" if "n < 2 ^ 16" for n using that by (simp only: unat_of_nat) simp
  have img: "bs = concat [le_bytes 4 (in_code_page m), le_bytes 4 (in_flags m),
      le_bytes 2 (of_nat (length (?s in_domain)) :: u16), le_bytes 2 (of_nat (length (?s in_username)) :: u16),
      le_bytes 2 (of_nat (length (?s in_password)) :: u16), le_bytes 2 (of_nat (length (?s in_alternate_shell)) :: u16),
      le_bytes 2 (of_nat (length (?s in_working_dir)) :: u16),
      concat [?s in_domain, [0, 0]], concat [?s in_username, [0, 0]], concat [?s in_password, [0, 0]],
      concat [?s in_alternate_shell, [0, 0]], concat [?s in_working_dir, [0, 0]],
      le_bytes 2 (0x0002 :: u16), le_bytes 2 (of_nat (length ?a + 2) :: u16), concat [?a, [0, 0]],
      le_bytes 2 (of_nat (length ?d + 2) :: u16), concat [?d, [0, 0]], ei_time_zone ?e,
      le_bytes 4 (ei_session_id ?e), le_bytes 4 (ei_performance_flags ?e)]"
    using assms(2) by (simp add: ClientInfo_to_bytes_def Let_def)
  have lens: "unat (of_nat (length (?s in_domain)) :: u16) = length (?s in_domain)"
    "unat (of_nat (length (?s in_username)) :: u16) = length (?s in_username)"
    "unat (of_nat (length (?s in_password)) :: u16) = length (?s in_password)"
    "unat (of_nat (length (?s in_alternate_shell)) :: u16) = length (?s in_alternate_shell)"
    "unat (of_nat (length (?s in_working_dir)) :: u16) = length (?s in_working_dir)"
    "unat (of_nat (length ?a + 2) :: u16) - 2 = length ?a" "unat (of_nat (length ?d + 2) :: u16) - 2 = length ?d"
    "length (ei_time_zone ?e) = 172"
    using assms(1) fit [of "length ?a + 2"] fit [of "length ?d + 2"]
    by (simp_all add: counts_fit_def info_strings_def fit del: of_nat_add)
  have "parses read_info bs ?fields"
    unfolding read_info_def img
    by (rule lens(8) parses_slice [OF lens(8)] parses_terminated [OF lens(1)] parses_terminated [OF lens(2)]
      parses_terminated [OF lens(3)] parses_terminated [OF lens(4)] parses_terminated [OF lens(5)]
      parses_terminated [OF lens(6)] parses_terminated [OF lens(7)] reads_intros | simp add: info_strings_def)+
  from readsD [OF parses_reads [OF this], of "[]" rest] show ?thesis by (simp add: decode_def ReadCursor_new_at)
qed

section \<open>Properties\<close>

definition sample_info :: ClientInfo where
  "sample_info = \<lparr>in_code_page = 0, in_flags = 0x11, in_domain = [], in_username = ascii ''u'', in_password = ascii ''pw'',
     in_alternate_shell = [], in_working_dir = [], in_extended = ExtendedInfo_default\<rparr>"



end
