(* ===== verification/Registry.thy ===== *)
theory Registry
  imports Prelude
begin

text \<open>
  The agent's window registry (\<open>oxagent/src/registry.rs\<close>): native window handles get a protocol id
  that is never reused and a video channel that is recycled when the window goes away. The two
  \<open>expect\<close> calls of \<open>track\<close> are the panics of this component: \<open>track\<close> is \<open>None\<close> there.
\<close>

section \<open>The registry\<close>

type_synonym handle = "64 word"

definition REG_VIDEO_BASE :: u16 where
  "REG_VIDEO_BASE = 16"

record TrackedWindow =
  tw_window_id :: u32
  tw_video_channel :: u16

record WindowRegistry =
  handle_to_window :: "(handle \<times> TrackedWindow) list"
  id_to_handle :: "(u32 \<times> handle) list"
  next_window_id :: u32
  free_channels :: "u16 list"
  next_channel :: u16

definition WindowRegistry_new :: WindowRegistry where
  "WindowRegistry_new = \<lparr>handle_to_window = [], id_to_handle = [], next_window_id = 1, free_channels = [],
     next_channel = REG_VIDEO_BASE\<rparr>"

definition checked_succ :: "'a::len word \<Rightarrow> 'a word option" where
  "checked_succ w = (if w = - 1 then None else Some (w + 1))"

text \<open>The channel comes from the free list (its last element) or is the next unused number.\<close>

definition take_channel :: "WindowRegistry \<Rightarrow> (u16 \<times> WindowRegistry) option" where
  "take_channel r =
    (if free_channels r \<noteq> [] then
       Some (last (free_channels r), r\<lparr>free_channels := butlast (free_channels r)\<rparr>)
     else
       map_option (\<lambda>n. (next_channel r, r\<lparr>next_channel := n\<rparr>)) (checked_succ (next_channel r)))"

definition track :: "handle \<Rightarrow> WindowRegistry \<Rightarrow> ((TrackedWindow \<times> bool) \<times> WindowRegistry) option" where
  "track h r =
    (case map_of (handle_to_window r) h of
       Some tracked \<Rightarrow> Some ((tracked, False), r)
     | None \<Rightarrow>
         (let window_id = next_window_id r in
          case checked_succ (next_window_id r) of
            None \<Rightarrow> None
          | Some n \<Rightarrow>
              (case take_channel (r\<lparr>next_window_id := n\<rparr>) of
                 None \<Rightarrow> None
               | Some (video_channel, r') \<Rightarrow>
                   (let tracked = \<lparr>tw_window_id = window_id, tw_video_channel = video_channel\<rparr> in
                    Some ((tracked, True),
                      r'\<lparr>handle_to_window := AList.update h tracked (handle_to_window r'),
                         id_to_handle := AList.update window_id h (id_to_handle r')\<rparr>)))))"

definition reg_get :: "WindowRegistry \<Rightarrow> handle \<Rightarrow> TrackedWindow option" where
  "reg_get r h = map_of (handle_to_window r) h"

definition by_id :: "WindowRegistry \<Rightarrow> u32 \<Rightarrow> TrackedWindow option" where
  "by_id r window_id =
    (case map_of (id_to_handle r) window_id of
       None \<Rightarrow> None
     | Some h \<Rightarrow> map_of (handle_to_window r) h)"

definition forget :: "handle \<Rightarrow> WindowRegistry \<Rightarrow> TrackedWindow option \<times> WindowRegistry" where
  "forget h r =
    (case map_of (handle_to_window r) h of
       None \<Rightarrow> (None, r)
     | Some tracked \<Rightarrow>
         (Some tracked,
          r\<lparr>handle_to_window := AList.delete h (handle_to_window r),
            id_to_handle := AList.delete (tw_window_id tracked) (id_to_handle r),
            free_channels := free_channels r @ [tw_video_channel tracked]\<rparr>))"

text \<open>
  \<open>retain_live\<close>: the dead handles in the order of their window ids, then a loop that forgets each.
  The hash map yields its keys in an unspecified order; ids are distinct, so sorting by them makes
  the outcome independent of it.
\<close>

fun forget_all :: "handle list \<Rightarrow> WindowRegistry \<Rightarrow> TrackedWindow list \<times> WindowRegistry" where
  "forget_all [] r = ([], r)"
| "forget_all (h # hs) r =
    (case forget h r of
       (None, r') \<Rightarrow> forget_all hs r'
     | (Some tracked, r') \<Rightarrow> (case forget_all hs r' of (removed, r'') \<Rightarrow> (tracked # removed, r'')))"

definition window_id_of :: "WindowRegistry \<Rightarrow> handle \<Rightarrow> u32" where
  "window_id_of r h = (case map_of (handle_to_window r) h of Some w \<Rightarrow> tw_window_id w | None \<Rightarrow> 0)"

definition to_remove :: "handle list \<Rightarrow> WindowRegistry \<Rightarrow> handle list" where
  "to_remove live r =
     sort_key (window_id_of r) (filter (\<lambda>h. h \<notin> set live) (map fst (handle_to_window r)))"

definition retain_live :: "handle list \<Rightarrow> WindowRegistry \<Rightarrow> TrackedWindow list \<times> WindowRegistry" where
  "retain_live live r = forget_all (to_remove live r) r"

definition reg_len :: "WindowRegistry \<Rightarrow> nat" where
  "reg_len r = length (handle_to_window r)"

definition reg_is_empty :: "WindowRegistry \<Rightarrow> bool" where
  "reg_is_empty r \<longleftrightarrow> handle_to_window r = []"

section \<open>Invariant\<close>

abbreviation tracked_by :: "WindowRegistry \<Rightarrow> handle \<Rightarrow> TrackedWindow option" where
  "tracked_by r \<equiv> map_of (handle_to_window r)"

definition reg_inv :: "WindowRegistry \<Rightarrow> bool" where
  "reg_inv r \<longleftrightarrow> hm_ok (handle_to_window r) \<and> hm_ok (id_to_handle r) \<and>
     (\<forall>i h. map_of (id_to_handle r) i = Some h \<longleftrightarrow> (\<exists>w. tracked_by r h = Some w \<and> tw_window_id w = i)) \<and>
     (\<forall>h w. tracked_by r h = Some w \<longrightarrow> 1 \<le> tw_window_id w \<and> tw_window_id w < next_window_id r) \<and>
     (\<forall>h w h' w'. tracked_by r h = Some w \<longrightarrow> tracked_by r h' = Some w' \<longrightarrow>
        tw_video_channel w = tw_video_channel w' \<longrightarrow> h = h') \<and>
     distinct (free_channels r) \<and>
     (\<forall>h w. tracked_by r h = Some w \<longrightarrow> tw_video_channel w \<notin> set (free_channels r)) \<and>
     (\<forall>c. REG_VIDEO_BASE \<le> c \<and> c < next_channel r \<longleftrightarrow>
        c \<in> set (free_channels r) \<or> (\<exists>h w. tracked_by r h = Some w \<and> tw_video_channel w = c)) \<and>
     REG_VIDEO_BASE \<le> next_channel r \<and> 1 \<le> next_window_id r"

lemma reg_inv_new: "reg_inv WindowRegistry_new"
  by (auto simp: reg_inv_def WindowRegistry_new_def hm_ok_def)

lemma checked_succ_Some: "checked_succ w = Some n \<longleftrightarrow> w \<noteq> - 1 \<and> n = w + 1"
  by (auto simp: checked_succ_def)

lemma below_succ: "w \<noteq> - 1 \<Longrightarrow> v < w + 1 \<longleftrightarrow> v \<le> w" for v w :: "'a::len word"
proof -
  assume "w \<noteq> - 1"
  then have "1 + w \<noteq> 0" by (metis add.commute add_eq_0_iff)
  then have "unat (w + 1) = Suc (unat w)" using unatSuc [of w] by (simp add: add.commute)
  then show ?thesis by (simp add: word_less_nat_alt word_le_nat_alt less_Suc_eq_le)
qed

lemma set_butlast_distinct: "distinct xs \<Longrightarrow> xs \<noteq> [] \<Longrightarrow> set (butlast xs) = set xs - {last xs}"
  by (induction xs rule: rev_induct) auto

lemma reg_invD:
  assumes "reg_inv r"
  shows reg_ok: "hm_ok (handle_to_window r)" "hm_ok (id_to_handle r)"
    and reg_ids: "map_of (id_to_handle r) i = Some h \<longleftrightarrow> (\<exists>w. tracked_by r h = Some w \<and> tw_window_id w = i)"
    and reg_id_range: "tracked_by r h = Some w \<Longrightarrow> 1 \<le> tw_window_id w \<and> tw_window_id w < next_window_id r"
    and reg_channel_inj: "tracked_by r h = Some w \<Longrightarrow> tracked_by r h' = Some w' \<Longrightarrow>
      tw_video_channel w = tw_video_channel w' \<Longrightarrow> h = h'"
    and reg_free: "distinct (free_channels r)" "tracked_by r h = Some w \<Longrightarrow> tw_video_channel w \<notin> set (free_channels r)"
    and reg_channels: "REG_VIDEO_BASE \<le> c \<and> c < next_channel r \<longleftrightarrow>
      c \<in> set (free_channels r) \<or> (\<exists>h w. tracked_by r h = Some w \<and> tw_video_channel w = c)"
    and reg_next: "REG_VIDEO_BASE \<le> next_channel r" "1 \<le> next_window_id r"
  using assms unfolding reg_inv_def by blast+

lemma reg_id_inj:
  assumes "reg_inv r" and "tracked_by r h = Some w" and "tracked_by r h' = Some w'" and "tw_window_id w = tw_window_id w'"
  shows "h = h'"
proof -
  have "map_of (id_to_handle r) (tw_window_id w) = Some h" "map_of (id_to_handle r) (tw_window_id w) = Some h'"
    using reg_ids [OF assms(1)] assms(2-4) by auto
  then show ?thesis by simp
qed

text \<open>What handing out a channel gives: one that is in use by nobody and no longer free.\<close>

definition fresh_channel :: "WindowRegistry \<Rightarrow> u16 \<Rightarrow> WindowRegistry \<Rightarrow> bool" where
  "fresh_channel r c r' \<longleftrightarrow>
    (\<forall>h w. tracked_by r h = Some w \<longrightarrow> tw_video_channel w \<noteq> c) \<and> c \<notin> set (free_channels r') \<and>
    distinct (free_channels r') \<and> set (free_channels r') \<subseteq> set (free_channels r) \<and>
    (\<forall>d. REG_VIDEO_BASE \<le> d \<and> d < next_channel r' \<longleftrightarrow>
      d = c \<or> d \<in> set (free_channels r') \<or> (\<exists>h w. tracked_by r h = Some w \<and> tw_video_channel w = d)) \<and>
    REG_VIDEO_BASE \<le> next_channel r' \<and> handle_to_window r' = handle_to_window r \<and>
    id_to_handle r' = id_to_handle r"

lemma fresh_new:
  assumes inv: "reg_inv r" and "free_channels r = []" and last: "next_channel r \<noteq> - 1"
  shows "fresh_channel r (next_channel r) (r\<lparr>next_window_id := n, next_channel := next_channel r + 1\<rparr>)"
proof -
  note chan = reg_channels [OF inv]
  have "tw_video_channel w \<noteq> next_channel r" if "tracked_by r h = Some w" for h w
    using chan [of "tw_video_channel w"] that by auto
  moreover have "REG_VIDEO_BASE \<le> next_channel r + 1"
    using reg_next(1) [OF inv] below_succ [OF last, of REG_VIDEO_BASE] by (simp add: less_imp_le)
  moreover have "REG_VIDEO_BASE \<le> d \<and> d < next_channel r + 1 \<longleftrightarrow>
      d = next_channel r \<or> (\<exists>h w. tracked_by r h = Some w \<and> tw_video_channel w = d)" for d
  proof -
    have "d < next_channel r + 1 \<longleftrightarrow> d < next_channel r \<or> d = next_channel r"
      unfolding below_succ [OF last] by (rule le_less)
    with chan [of d] reg_next(1) [OF inv] assms(2) show ?thesis by auto
  qed
  ultimately show ?thesis using assms(2) by (simp add: fresh_channel_def)
qed

lemma fresh_recycled:
  assumes inv: "reg_inv r" and ne: "free_channels r \<noteq> []"
  shows "fresh_channel r (last (free_channels r)) (r\<lparr>next_window_id := n, free_channels := butlast (free_channels r)\<rparr>)"
proof -
  have bl: "set (butlast (free_channels r)) = set (free_channels r) - {last (free_channels r)}"
    by (rule set_butlast_distinct [OF reg_free(1) [OF inv] ne])
  have la: "last (free_channels r) \<in> set (free_channels r)" using ne by simp
  have "tw_video_channel w \<noteq> last (free_channels r)" if "tracked_by r h = Some w" for h w
    using reg_free(2) [OF inv that] la by auto
  moreover have "REG_VIDEO_BASE \<le> d \<and> d < next_channel r \<longleftrightarrow> d = last (free_channels r) \<or>
      d \<in> set (butlast (free_channels r)) \<or> (\<exists>h w. tracked_by r h = Some w \<and> tw_video_channel w = d)" for d
    unfolding reg_channels [OF inv] bl using la by blast
  ultimately show ?thesis
    using distinct_butlast [OF reg_free(1) [OF inv]] reg_next(1) [OF inv] bl
    unfolding fresh_channel_def by (simp only: WindowRegistry.simps) auto
qed

lemma take_channel_fresh:
  assumes "reg_inv r" and "take_channel (r\<lparr>next_window_id := n\<rparr>) = Some (c, r')"
  shows "fresh_channel r c r'" and "next_window_id r' = n"
  using assms fresh_new [OF assms(1), of n] fresh_recycled [OF assms(1), of n]
  by (auto simp: take_channel_def checked_succ_Some split: if_splits)

section \<open>Operations keep the invariant\<close>

lemma track_new:
  assumes inv: "reg_inv r" and new: "tracked_by r h = None" and "track h r = Some (res, r')"
  obtains c where "res = (\<lparr>tw_window_id = next_window_id r, tw_video_channel = c\<rparr>, True)"
    "next_window_id r \<noteq> - 1" "next_window_id r' = next_window_id r + 1"
    "fresh_channel r c (r'\<lparr>handle_to_window := handle_to_window r, id_to_handle := id_to_handle r\<rparr>)"
    "handle_to_window r' = AList.update h \<lparr>tw_window_id = next_window_id r, tw_video_channel = c\<rparr> (handle_to_window r)"
    "id_to_handle r' = AList.update (next_window_id r) h (id_to_handle r)"
proof -
  from assms(2,3) obtain c r1 where last: "next_window_id r \<noteq> - 1"
    and take: "take_channel (r\<lparr>next_window_id := next_window_id r + 1\<rparr>) = Some (c, r1)"
    and res: "res = (\<lparr>tw_window_id = next_window_id r, tw_video_channel = c\<rparr>, True)"
    and r': "r' = r1\<lparr>handle_to_window := AList.update h \<lparr>tw_window_id = next_window_id r, tw_video_channel = c\<rparr>
          (handle_to_window r1), id_to_handle := AList.update (next_window_id r) h (id_to_handle r1)\<rparr>"
    by (auto simp: track_def checked_succ_Some Let_def split: option.splits)
  note fresh = take_channel_fresh [OF inv take]
  then have "handle_to_window r1 = handle_to_window r" "id_to_handle r1 = id_to_handle r"
    by (simp_all add: fresh_channel_def)
  with fresh res r' last show thesis by (intro that [of c]) (simp_all add: fresh_channel_def)
qed

lemma track_inv:
  assumes inv: "reg_inv r" and t: "track h r = Some (res, r')"
  shows "reg_inv r'"
proof (cases "tracked_by r h")
  case (Some w)
  with t inv show ?thesis by (simp add: track_def)
next
  case None
  from track_new [OF inv None t] obtain c where last: "next_window_id r \<noteq> - 1"
    and next_id: "next_window_id r' = next_window_id r + 1"
    and fresh: "fresh_channel r c (r'\<lparr>handle_to_window := handle_to_window r, id_to_handle := id_to_handle r\<rparr>)"
    and h2w: "handle_to_window r' = AList.update h \<lparr>tw_window_id = next_window_id r, tw_video_channel = c\<rparr> (handle_to_window r)"
    and i2h: "id_to_handle r' = AList.update (next_window_id r) h (id_to_handle r)" by metis
  let ?w = "\<lparr>tw_window_id = next_window_id r, tw_video_channel = c\<rparr>"
  have by_h: "tracked_by r' k = (if k = h then Some ?w else tracked_by r k)" for k
    by (simp add: h2w map_of_update)
  have fresh_id: "tw_window_id w \<noteq> next_window_id r" if "tracked_by r k = Some w" for k w
    using reg_id_range [OF inv that] by auto
  have unused: "tw_video_channel w \<noteq> c" if "tracked_by r k = Some w" for k w
    using fresh that by (simp add: fresh_channel_def)
  have ids: "map_of (id_to_handle r') i = Some k \<longleftrightarrow> (\<exists>w. tracked_by r' k = Some w \<and> tw_window_id w = i)" for i k
    unfolding by_h i2h map_of_update using reg_ids [OF inv, of i k] fresh_id None by auto
  have range: "1 \<le> tw_window_id w \<and> tw_window_id w < next_window_id r'" if "tracked_by r' k = Some w" for k w
    using that reg_id_range [OF inv, of k w] reg_next(2) [OF inv] unfolding by_h next_id below_succ [OF last]
    by (auto split: if_splits)
  have inj: "k = k'" if "tracked_by r' k = Some w" "tracked_by r' k' = Some w'"
    "tw_video_channel w = tw_video_channel w'" for k k' w w'
    using that unused reg_channel_inj [OF inv, of k w k' w'] unfolding by_h
    by (cases "k = h"; cases "k' = h") (auto dest: unused)
  have chans: "REG_VIDEO_BASE \<le> d \<and> d < next_channel r' \<longleftrightarrow>
      d \<in> set (free_channels r') \<or> (\<exists>k w. tracked_by r' k = Some w \<and> tw_video_channel w = d)" for d
  proof -
    have "(\<exists>k w. tracked_by r' k = Some w \<and> tw_video_channel w = d) \<longleftrightarrow>
        d = c \<or> (\<exists>k w. tracked_by r k = Some w \<and> tw_video_channel w = d)"
    proof
      assume "d = c \<or> (\<exists>k w. tracked_by r k = Some w \<and> tw_video_channel w = d)"
      then show "\<exists>k w. tracked_by r' k = Some w \<and> tw_video_channel w = d"
      proof (elim disjE exE conjE)
        assume "d = c"
        then show ?thesis by (intro exI [of _ h] exI [of _ ?w]) (simp add: by_h)
      next
        fix k w
        assume "tracked_by r k = Some w" "tw_video_channel w = d"
        moreover from this None have "k \<noteq> h" by auto
        ultimately show ?thesis by (intro exI [of _ k] exI [of _ w]) (simp add: by_h)
      qed
    qed (auto simp: by_h split: if_splits)
    moreover have "REG_VIDEO_BASE \<le> d \<and> d < next_channel r' \<longleftrightarrow> d = c \<or> d \<in> set (free_channels r') \<or>
        (\<exists>h w. tracked_by r h = Some w \<and> tw_video_channel w = d)"
      using fresh unfolding fresh_channel_def by simp
    ultimately show ?thesis by blast
  qed
  have free: "tw_video_channel w \<notin> set (free_channels r')" if "tracked_by r' k = Some w" for k w
    using that fresh reg_free(2) [OF inv, of k w] unfolding by_h fresh_channel_def by (auto split: if_splits)
  have "1 \<le> next_window_id r'"
    using range [of h ?w] by (auto simp: by_h)
  moreover have "hm_ok (handle_to_window r')" "hm_ok (id_to_handle r')"
    unfolding h2w i2h by (intro hm.invar_ins reg_ok [OF inv])+
  ultimately show ?thesis
    unfolding reg_inv_def using ids range inj chans free fresh by (auto simp: fresh_channel_def)
qed

lemma forget_inv:
  assumes inv: "reg_inv r" and f: "forget h r = (res, r')"
  shows "reg_inv r'"
proof (cases "tracked_by r h")
  case None
  with f inv show ?thesis by (simp add: forget_def)
next
  case (Some w)
  with f have r': "r' = r\<lparr>handle_to_window := AList.delete h (handle_to_window r),
      id_to_handle := AList.delete (tw_window_id w) (id_to_handle r),
      free_channels := free_channels r @ [tw_video_channel w]\<rparr>"
    by (simp add: forget_def)
  have by_h: "tracked_by r' k = (if k = h then None else tracked_by r k)" for k
    by (simp add: r' map_of_delete)
  have other: "tw_window_id v \<noteq> tw_window_id w" if "tracked_by r k = Some v" "k \<noteq> h" for k v
    using reg_ids [OF inv, of "tw_window_id w" h] reg_ids [OF inv, of "tw_window_id w" k] that Some by auto
  have ids: "map_of (id_to_handle r') i = Some k \<longleftrightarrow> (\<exists>v. tracked_by r' k = Some v \<and> tw_window_id v = i)" for i k
    unfolding by_h using reg_ids [OF inv, of i k] other Some by (auto simp: r' map_of_delete)
  have inj: "k = k'" if "tracked_by r' k = Some v" "tracked_by r' k' = Some v'"
    "tw_video_channel v = tw_video_channel v'" for k k' v v'
    using that reg_channel_inj [OF inv, of k v k' v'] unfolding by_h by (auto split: if_splits)
  have chans: "REG_VIDEO_BASE \<le> d \<and> d < next_channel r' \<longleftrightarrow>
      d \<in> set (free_channels r') \<or> (\<exists>k v. tracked_by r' k = Some v \<and> tw_video_channel v = d)" for d
  proof -
    have "(\<exists>k v. tracked_by r k = Some v \<and> tw_video_channel v = d) \<longleftrightarrow>
        d = tw_video_channel w \<or> (\<exists>k v. tracked_by r' k = Some v \<and> tw_video_channel v = d)"
      unfolding by_h using Some by (metis (full_types) option.distinct(1) option.inject)
    with reg_channels [OF inv, of d] show ?thesis by (auto simp: r')
  qed
  have free: "tw_video_channel v \<notin> set (free_channels r')" if "tracked_by r' k = Some v" for k v
    using that reg_free(2) [OF inv, of k v] reg_channel_inj [OF inv, of k v h w] Some unfolding by_h
    by (auto simp: r' split: if_splits)
  have range: "1 \<le> tw_window_id v \<and> tw_window_id v < next_window_id r'" if "tracked_by r' k = Some v" for k v
    using that reg_id_range [OF inv, of k v] unfolding by_h by (auto simp: r' split: if_splits)
  have "hm_ok (handle_to_window r')" "hm_ok (id_to_handle r')"
    using reg_ok [OF inv] by (simp_all add: r' hm.invar_del)
  moreover have "distinct (free_channels r')"
    using reg_free [OF inv] Some by (simp add: r')
  moreover have "REG_VIDEO_BASE \<le> next_channel r'" "1 \<le> next_window_id r'"
    using reg_next [OF inv] by (simp_all add: r')
  ultimately show ?thesis
    unfolding reg_inv_def using ids range inj chans free by blast
qed

lemma forget_tracked:
  assumes "tracked_by r h = Some w"
  shows "fst (forget h r) = Some w" and "tracked_by (snd (forget h r)) = (tracked_by r)(h := None)"
    and "next_window_id (snd (forget h r)) = next_window_id r"
  using assms by (simp_all add: forget_def AList.delete_conv')

lemma forget_next_id: "next_window_id (snd (forget h r)) = next_window_id r"
  by (simp add: forget_def split: option.splits)

lemma forget_all_inv: "reg_inv r \<Longrightarrow> reg_inv (snd (forget_all hs r))"
  by (induction hs r rule: forget_all.induct) (auto split: prod.splits option.splits dest: forget_inv)

lemma forget_all_next_id: "next_window_id (snd (forget_all hs r)) = next_window_id r"
  by (induction hs r rule: forget_all.induct)
    (auto split: prod.splits option.splits, (metis forget_next_id snd_conv)+)

lemma forget_all_tracked:
  assumes "distinct hs" and "set hs \<subseteq> dom (tracked_by r)"
  shows "fst (forget_all hs r) = map (\<lambda>h. the (tracked_by r h)) hs \<and>
    tracked_by (snd (forget_all hs r)) = (\<lambda>h. if h \<in> set hs then None else tracked_by r h)"
  using assms
proof (induction hs arbitrary: r)
  case (Cons h hs)
  then obtain w where w: "tracked_by r h = Some w" by auto
  obtain r1 where f: "forget h r = (Some w, r1)" using forget_tracked(1) [OF w] by (metis prod.collapse)
  have r1: "tracked_by r1 = (tracked_by r)(h := None)" using forget_tracked(2) [OF w] f by simp
  then have "set hs \<subseteq> dom (tracked_by r1)" using Cons.prems by auto
  with Cons.IH [of r1] Cons.prems have IH: "fst (forget_all hs r1) = map (\<lambda>h. the (tracked_by r1 h)) hs"
    "tracked_by (snd (forget_all hs r1)) = (\<lambda>h. if h \<in> set hs then None else tracked_by r1 h)" by auto
  have "map (\<lambda>h. the (tracked_by r1 h)) hs = map (\<lambda>h. the (tracked_by r h)) hs"
    using Cons.prems r1 by (auto intro!: map_cong)
  with IH f w r1 show ?case by (auto simp: fun_eq_iff split: prod.splits)
qed simp

lemma to_remove_dead:
  assumes "reg_inv r"
  shows "set (to_remove live r) = dom (tracked_by r) - set live" and "distinct (to_remove live r)"
  using reg_ok(1) [OF assms]
  by (auto simp: to_remove_def hm_ok_def dom_map_of_conv_image_fst)

section \<open>Sequences of operations\<close>

datatype reg_op = Track handle | Forget handle | RetainLive "handle list"

fun reg_exec :: "reg_op \<Rightarrow> WindowRegistry \<Rightarrow> WindowRegistry option" where
  "reg_exec (Track h) r = map_option snd (track h r)"
| "reg_exec (Forget h) r = Some (snd (forget h r))"
| "reg_exec (RetainLive live) r = Some (snd (retain_live live r))"

fun reg_run :: "reg_op list \<Rightarrow> WindowRegistry \<Rightarrow> WindowRegistry option" where
  "reg_run [] r = Some r"
| "reg_run (op # ops) r = (case reg_exec op r of None \<Rightarrow> None | Some r' \<Rightarrow> reg_run ops r')"

lemma reg_exec_inv: "reg_exec op r = Some r' \<Longrightarrow> reg_inv r \<Longrightarrow> reg_inv r'"
  by (cases op) (auto simp: retain_live_def forget_all_inv intro: track_inv forget_inv [OF _ prod.collapse [symmetric]])

lemma reg_run_inv: "reg_run ops r = Some r' \<Longrightarrow> reg_inv r \<Longrightarrow> reg_inv r'"
  by (induction ops r rule: reg_run.induct) (auto split: option.splits dest: reg_exec_inv)

lemma track_next_id:
  assumes "reg_inv r" and "track h r = Some (res, r')"
  shows "next_window_id r \<le> next_window_id r'"
proof (cases "tracked_by r h")
  case None
  from track_new [OF assms(1) None assms(2)] have "next_window_id r' = next_window_id r + 1" "next_window_id r \<noteq> - 1"
    by metis+
  with below_succ [of "next_window_id r" "next_window_id r"] show ?thesis by (simp add: less_imp_le)
qed (use assms(2) in \<open>simp add: track_def\<close>)

lemma reg_run_next_id:
  "reg_run ops r = Some r' \<Longrightarrow> reg_inv r \<Longrightarrow> next_window_id r \<le> next_window_id r'"
proof (induction ops r rule: reg_run.induct)
  case (2 op ops r)
  then obtain r1 where r1: "reg_exec op r = Some r1" "reg_run ops r1 = Some r'" by (auto split: option.splits)
  with 2 reg_exec_inv have "next_window_id r1 \<le> next_window_id r'" by blast
  moreover have "next_window_id r \<le> next_window_id r1"
    using r1(1) "2.prems"(2) by (cases op) (auto simp: retain_live_def forget_next_id forget_all_next_id dest: track_next_id)
  ultimately show ?case by simp
qed simp

section \<open>Properties\<close>

text \<open>
  C12: After any sequence of operations that did not panic, the two maps of the registry agree
  (looking a window up by its id finds the one tracked under some handle, and conversely), and no
  two tracked windows share an id or a video channel; every channel is a video channel.
\<close>

theorem registry_consistent:
  assumes "reg_run ops WindowRegistry_new = Some r"
  shows "(by_id r i = Some w \<longleftrightarrow> (\<exists>h. reg_get r h = Some w \<and> tw_window_id w = i)) \<and>
    (reg_get r h = Some w \<and> reg_get r h' = Some w' \<and> h \<noteq> h' \<longrightarrow>
       tw_window_id w \<noteq> tw_window_id w' \<and> tw_video_channel w \<noteq> tw_video_channel w') \<and>
    (reg_get r h = Some w \<longrightarrow> REG_VIDEO_BASE \<le> tw_video_channel w)"
proof -
  note inv = reg_run_inv [OF assms reg_inv_new]
  have "by_id r i = Some w \<longleftrightarrow> (\<exists>h. reg_get r h = Some w \<and> tw_window_id w = i)"
  proof (cases "map_of (id_to_handle r) i")
    case None
    with reg_ids [OF inv, of i] show ?thesis by (force simp: by_id_def reg_get_def)
  next
    case (Some k)
    moreover have "h = k" if "tracked_by r h = Some w" "tw_window_id w = i" for h
      using reg_ids [OF inv, of i h] that Some by auto
    moreover obtain v where v: "tracked_by r k = Some v" "tw_window_id v = i"
      using reg_ids [OF inv, of i k] Some by blast
    moreover from Some v(1) have "by_id r i = Some v" by (simp add: by_id_def)
    ultimately show ?thesis unfolding reg_get_def by (metis option.inject)
  qed
  moreover have "h = h'" if "tracked_by r h = Some w" "tracked_by r h' = Some w'" "tw_window_id w = tw_window_id w'"
    using that by (rule reg_id_inj [OF inv])
  moreover have "REG_VIDEO_BASE \<le> tw_video_channel w" if "tracked_by r h = Some w"
    using reg_channels [OF inv, of "tw_video_channel w"] that by blast
  ultimately show ?thesis
    using reg_channel_inj [OF inv, of h w h' w'] by (auto simp: reg_get_def)
qed

theorem registry_consistent_witness:
  "\<exists>r w. reg_run [Track 7, Track 9, Forget 7, Track 8] WindowRegistry_new = Some r \<and> by_id r 3 = Some w \<and>
     reg_get r 8 = Some w \<and> REG_VIDEO_BASE \<le> tw_video_channel w"
proof -
  let ?ops = "[Track 7, Track 9, Forget 7, Track 8]" and ?w = "\<lparr>tw_window_id = 3, tw_video_channel = 16\<rparr>"
  obtain r where r: "reg_run ?ops WindowRegistry_new = Some r" and get: "reg_get r 8 = Some ?w"
    by (simp add: track_def forget_def take_channel_def checked_succ_def WindowRegistry_new_def REG_VIDEO_BASE_def
        reg_get_def Let_def)
  with registry_consistent [OF r, where w = ?w and i = 3 and h = 8] show ?thesis by auto
qed

text \<open>
  Window ids are never reused: a window registered later in the session has a larger id than
  one registered earlier, whatever was tracked or forgotten in between, and at the moment of
  registration its channel is used by no other window.
\<close>

theorem window_ids_fresh:
  assumes "reg_run ops WindowRegistry_new = Some r" and "track h r = Some ((w, True), r1)"
    and "reg_run later r1 = Some r2" and "track h' r2 = Some ((w', True), r3)"
  shows "tw_window_id w < tw_window_id w' \<and> (\<forall>k v. reg_get r2 k = Some v \<longrightarrow> tw_video_channel v \<noteq> tw_video_channel w')"
proof -
  have new: "tracked_by r k = None" if "track k r = Some ((v, True), r')" for k v r r'
    using that by (cases "tracked_by r k") (auto simp: track_def)
  note inv = reg_run_inv [OF assms(1) reg_inv_new]
  note inv1 = track_inv [OF inv assms(2)]
  note inv2 = reg_run_inv [OF assms(3) inv1]
  have w: "tw_window_id w = next_window_id r" "next_window_id r < next_window_id r1"
    using track_new [OF inv new [OF assms(2)] assms(2)] below_succ by (metis Pair_inject TrackedWindow.select_convs(1) order_refl)+
  moreover have "next_window_id r1 \<le> next_window_id r2" by (rule reg_run_next_id [OF assms(3) inv1])
  moreover obtain c where "w' = \<lparr>tw_window_id = next_window_id r2, tw_video_channel = c\<rparr>"
    "fresh_channel r2 c (r3\<lparr>handle_to_window := handle_to_window r2, id_to_handle := id_to_handle r2\<rparr>)"
    using track_new [OF inv2 new [OF assms(4)] assms(4)] by (metis Pair_inject)
  ultimately show ?thesis by (auto simp: fresh_channel_def reg_get_def)
qed

theorem window_ids_fresh_witness:
  "\<exists>w w' r1 r3. track 7 WindowRegistry_new = Some ((w, True), r1) \<and>
     track 7 (snd (forget 7 r1)) = Some ((w', True), r3) \<and> tw_window_id w < tw_window_id w'"
proof -
  obtain w r1 where t1: "track 7 WindowRegistry_new = Some ((w, True), r1)"
    and r1: "r1 = \<lparr>handle_to_window = [(7, w)], id_to_handle = [(1, 7)], next_window_id = 2, free_channels = [], next_channel = 17\<rparr>"
    and w: "w = \<lparr>tw_window_id = 1, tw_video_channel = 16\<rparr>"
    by (simp add: track_def take_channel_def checked_succ_def WindowRegistry_new_def REG_VIDEO_BASE_def Let_def)
  obtain w' r3 where t2: "track 7 (snd (forget 7 r1)) = Some ((w', True), r3)"
    by (simp add: r1 w forget_def track_def take_channel_def checked_succ_def Let_def)
  have "reg_run [] WindowRegistry_new = Some WindowRegistry_new" "reg_run [Forget 7] r1 = Some (snd (forget 7 r1))" by simp_all
  from window_ids_fresh [OF this(1) t1 this(2) t2] t1 t2 show ?thesis by blast
qed

text \<open>
  Reconciling with the live handles forgets exactly the dead ones: the survivors keep their
  window, the others are gone, and the removed windows are reported once each in the order of their
  ids, which does not depend on the order in which the hash map enumerates its keys.
\<close>

theorem retain_live_exact:
  assumes "reg_run ops WindowRegistry_new = Some r" and "retain_live live r = (removed, r')"
  shows "(\<forall>h. reg_get r' h = (if h \<in> set live then reg_get r h else None)) \<and>
    set removed = {w. \<exists>h. h \<notin> set live \<and> reg_get r h = Some w} \<and>
    sorted_wrt (<) (map tw_window_id removed)"
proof -
  note inv = reg_run_inv [OF assms(1) reg_inv_new]
  let ?dead = "to_remove live r"
  note dead = to_remove_dead [OF inv, of live]
  have "set ?dead \<subseteq> dom (tracked_by r)" using dead(1) by blast
  from forget_all_tracked [OF dead(2) this] assms(2)
  have removed: "removed = map (\<lambda>h. the (tracked_by r h)) ?dead"
    and r': "tracked_by r' = (\<lambda>h. if h \<in> set ?dead then None else tracked_by r h)"
    by (simp_all add: retain_live_def)
  have "reg_get r' h = (if h \<in> set live then reg_get r h else None)" for h
    by (simp add: reg_get_def r' dead(1)) (auto simp: domIff)
  moreover have "set removed = {w. \<exists>h. h \<notin> set live \<and> reg_get r h = Some w}"
    unfolding removed set_map dead(1) reg_get_def by force
  moreover have "sorted_wrt (<) (map tw_window_id removed)"
  proof -
    have ids: "map tw_window_id removed = map (window_id_of r) ?dead"
      unfolding removed by (auto simp: window_id_of_def dead(1) split: option.splits)
    have "inj_on (window_id_of r) (set ?dead)"
    proof (rule inj_onI)
      fix h k
      assume "h \<in> set ?dead" "k \<in> set ?dead" and eq: "window_id_of r h = window_id_of r k"
      then obtain v w where "tracked_by r h = Some v" "tracked_by r k = Some w" by (auto simp: dead(1))
      with eq show "h = k"
        using reg_id_inj [OF inv] by (simp add: window_id_of_def)
    qed
    then have "distinct (map (window_id_of r) ?dead)" using dead(2) by (simp add: distinct_map)
    moreover have "sorted (map (window_id_of r) ?dead)" unfolding to_remove_def by simp
    ultimately show ?thesis unfolding ids by (simp add: strict_sorted_iff)
  qed
  ultimately show ?thesis by blast
qed

theorem retain_live_exact_witness:
  "\<exists>r r'. reg_run [Track 7, Track 9, Track 8] WindowRegistry_new = Some r \<and>
     retain_live [9] r = ([\<lparr>tw_window_id = 1, tw_video_channel = 16\<rparr>, \<lparr>tw_window_id = 3, tw_video_channel = 18\<rparr>], r') \<and>
     reg_get r' 7 = None \<and> reg_get r' 9 = Some \<lparr>tw_window_id = 2, tw_video_channel = 17\<rparr>"
proof -
  let ?ops = "[Track 7, Track 9, Track 8]"
  obtain r where r: "reg_run ?ops WindowRegistry_new = Some r"
    and h2w: "handle_to_window r = [(7, \<lparr>tw_window_id = 1, tw_video_channel = 16\<rparr>),
      (9, \<lparr>tw_window_id = 2, tw_video_channel = 17\<rparr>), (8, \<lparr>tw_window_id = 3, tw_video_channel = 18\<rparr>)]"
    by (simp add: track_def take_channel_def checked_succ_def WindowRegistry_new_def REG_VIDEO_BASE_def Let_def)
  have "to_remove [9] r = [7, 8]" by (simp add: to_remove_def h2w window_id_of_def)
  then obtain r' where r': "retain_live [9] r =
      ([\<lparr>tw_window_id = 1, tw_video_channel = 16\<rparr>, \<lparr>tw_window_id = 3, tw_video_channel = 18\<rparr>], r')"
    by (simp add: retain_live_def forget_def h2w)
  from retain_live_exact [OF r r'] r r' show ?thesis by (simp add: reg_get_def h2w)
qed

lemma u16_video_channels: "card {c :: u16. REG_VIDEO_BASE \<le> c \<and> c < - 1} = 65519"
proof -
  have top: "unat (- 1 :: u16) = 65535" by (simp add: unsigned_minus_1_eq_mask mask_eq_exp_minus_1)
  have "unat ` {c :: u16. REG_VIDEO_BASE \<le> c \<and> c < - 1} = {16..<65535}"
  proof (intro set_eqI iffI)
    fix n :: nat
    assume n: "n \<in> {16..<65535}"
    then have "unat (of_nat n :: u16) = n" by (simp add: unat_of_nat)
    with n show "n \<in> unat ` {c :: u16. REG_VIDEO_BASE \<le> c \<and> c < - 1}"
      by (intro image_eqI [of _ _ "of_nat n"]) (simp_all add: REG_VIDEO_BASE_def word_le_nat_alt word_less_nat_alt top)
  qed (auto simp: REG_VIDEO_BASE_def word_le_nat_alt word_less_nat_alt top)
  then have "card (unat ` {c :: u16. REG_VIDEO_BASE \<le> c \<and> c < - 1}) = 65519" by simp
  moreover have inj: "inj_on unat {c :: u16. REG_VIDEO_BASE \<le> c \<and> c < - 1}"
    by (rule inj_onI) (simp add: word_unat_eq_iff)
  ultimately show ?thesis by (simp only: card_image [OF inj])
qed

text \<open>
  Registering a window cannot panic until the id space is used up or 65519 windows are tracked
  at the same time: freed channels are reused before a new one is taken.
\<close>

theorem track_succeeds:
  assumes "reg_run ops WindowRegistry_new = Some r" and "next_window_id r \<noteq> - 1" and "reg_len r < 65519"
  shows "\<exists>w new r'. track h r = Some ((w, new), r')"
proof (rule ccontr)
  note inv = reg_run_inv [OF assms(1) reg_inv_new]
  assume "\<nexists>w new r'. track h r = Some ((w, new), r')"
  then have "track h r = None" by (metis option.exhaust prod.exhaust)
  with assms(2) have full: "free_channels r = []" "next_channel r = - 1"
    by (auto simp: track_def take_channel_def checked_succ_def Let_def split: option.splits if_splits)
  let ?chan = "\<lambda>h. tw_video_channel (the (tracked_by r h))"
  have "?chan ` dom (tracked_by r) = {c. REG_VIDEO_BASE \<le> c \<and> c < - 1}"
  proof (rule set_eqI)
    fix c
    have "c \<in> ?chan ` dom (tracked_by r) \<longleftrightarrow> (\<exists>h w. tracked_by r h = Some w \<and> tw_video_channel w = c)"
      by (auto simp: image_iff dom_def) (metis option.sel)
    with reg_channels [OF inv, of c] full show "c \<in> ?chan ` dom (tracked_by r) \<longleftrightarrow> c \<in> {c. REG_VIDEO_BASE \<le> c \<and> c < - 1}"
      by simp
  qed
  moreover have inj: "inj_on ?chan (dom (tracked_by r))"
  proof (rule inj_onI)
    fix k k'
    assume "k \<in> dom (tracked_by r)" "k' \<in> dom (tracked_by r)" "?chan k = ?chan k'"
    then obtain v v' where "tracked_by r k = Some v" "tracked_by r k' = Some v'" "tw_video_channel v = tw_video_channel v'"
      by (auto simp: dom_def)
    then show "k = k'" by (rule reg_channel_inj [OF inv])
  qed
  ultimately have "card (dom (tracked_by r)) = 65519"
    using card_image [OF inj] u16_video_channels by simp
  with hm.len_card [OF reg_ok(1) [OF inv]] assms(3) show False by (simp add: reg_len_def)
qed

theorem track_succeeds_witness:
  "\<exists>r w new r'. reg_run [Track 7, Forget 7] WindowRegistry_new = Some r \<and> track 8 r = Some ((w, new), r')"
proof -
  obtain r where r: "reg_run [Track 7, Forget 7] WindowRegistry_new = Some r" "next_window_id r = 2" "reg_len r = 0"
    by (simp add: track_def forget_def take_channel_def checked_succ_def WindowRegistry_new_def REG_VIDEO_BASE_def Let_def reg_len_def)
  with track_succeeds [OF r(1), of 8] show ?thesis by auto
qed

end
