(* ===== verification/Pacing.thy ===== *)
theory Pacing
  imports Prelude
begin

text \<open>
  Per-window frame pacing (\<open>oxagent/src/pacing.rs\<close>): the budget of unacknowledged frames. Frame ids
  and counters are 64-bit words that wrap; the properties are stated for fewer than \<open>2 ^ 64 - 1\<close>
  captures. The abstract view is an interval of frame ids.
\<close>

section \<open>The budget\<close>

record FrameBudget =
  max_in_flight :: nat
  fb_in_flight :: "u64 list"
  next_frame_id :: u64
  fb_dropped :: u64
  fb_sent :: u64

definition FrameBudget_new :: "u8 \<Rightarrow> FrameBudget" where
  "FrameBudget_new m = \<lparr>max_in_flight = max (unat m) 1, fb_in_flight = [], next_frame_id = 1, fb_dropped = 0, fb_sent = 0\<rparr>"

definition on_captured :: "FrameBudget \<Rightarrow> u64 \<times> FrameBudget" where
  "on_captured b =
    (let b1 = if max_in_flight b \<le> length (fb_in_flight b)
              then b\<lparr>fb_in_flight := tl (fb_in_flight b), fb_dropped := fb_dropped b + 1\<rparr> else b;
         i = next_frame_id b1
     in (i, b1\<lparr>fb_in_flight := fb_in_flight b1 @ [i], next_frame_id := next_frame_id b1 + 1, fb_sent := fb_sent b1 + 1\<rparr>))"

text \<open>\<open>while let Some(&front) = front() { if front <= frame_id { pop_front() } else { break } }\<close>.\<close>

fun retire :: "u64 \<Rightarrow> u64 list \<Rightarrow> u64 list" where
  "retire frame_id [] = []"
| "retire frame_id (front # rest) = (if front \<le> frame_id then retire frame_id rest else front # rest)"

definition on_ack :: "u64 \<Rightarrow> FrameBudget \<Rightarrow> FrameBudget" where
  "on_ack frame_id b = b\<lparr>fb_in_flight := retire frame_id (fb_in_flight b)\<rparr>"

definition in_flight :: "FrameBudget \<Rightarrow> nat" where
  "in_flight b = length (fb_in_flight b)"

definition has_headroom :: "FrameBudget \<Rightarrow> bool" where
  "has_headroom b \<longleftrightarrow> length (fb_in_flight b) < max_in_flight b"

definition restart :: "FrameBudget \<Rightarrow> FrameBudget" where
  "restart b = b\<lparr>fb_in_flight := []\<rparr>"

section \<open>Sequences of operations and the abstract window\<close>

datatype bud_op = Captured | Ack u64 | Restart

fun bud_exec :: "bud_op \<Rightarrow> FrameBudget \<Rightarrow> FrameBudget" where
  "bud_exec Captured b = snd (on_captured b)"
| "bud_exec (Ack i) b = on_ack i b"
| "bud_exec Restart b = restart b"

definition bud_run :: "bud_op list \<Rightarrow> FrameBudget \<Rightarrow> FrameBudget" where
  "bud_run ops b = fold bud_exec ops b"

text \<open>The frames in flight are those with ids from \<open>lo\<close> up to \<open>hi\<close>; \<open>drops\<close> counts the displaced ones.\<close>

record window =
  win_lo :: nat
  win_hi :: nat
  win_drops :: nat

fun win_exec :: "nat \<Rightarrow> bud_op \<Rightarrow> window \<Rightarrow> window" where
  "win_exec m Captured w =
    (if win_hi w - win_lo w = m
     then \<lparr>win_lo = Suc (win_lo w), win_hi = Suc (win_hi w), win_drops = Suc (win_drops w)\<rparr>
     else \<lparr>win_lo = win_lo w, win_hi = Suc (win_hi w), win_drops = win_drops w\<rparr>)"
| "win_exec m (Ack i) w = w\<lparr>win_lo := max (win_lo w) (min (Suc (unat i)) (win_hi w))\<rparr>"
| "win_exec m Restart w = w\<lparr>win_lo := win_hi w\<rparr>"

definition win_run :: "nat \<Rightarrow> bud_op list \<Rightarrow> window" where
  "win_run m ops = fold (win_exec m) ops \<lparr>win_lo = 1, win_hi = 1, win_drops = 0\<rparr>"

definition captures :: "bud_op list \<Rightarrow> nat" where
  "captures ops = length (filter (\<lambda>op. op = Captured) ops)"

definition window_of :: "FrameBudget \<Rightarrow> window \<Rightarrow> bool" where
  "window_of b w \<longleftrightarrow> map unat (fb_in_flight b) = [win_lo w..<win_hi w] \<and> unat (next_frame_id b) = win_hi w \<and>
     win_lo w \<le> win_hi w \<and> win_hi w - win_lo w \<le> max_in_flight b \<and> 1 \<le> max_in_flight b \<and>
     Suc (unat (fb_sent b)) = win_hi w \<and> unat (fb_dropped b) = win_drops w \<and> win_drops w < win_hi w"

lemma retire_interval:
  "map unat xs = [l..<h] \<Longrightarrow> map unat (retire i xs) = [max l (min (Suc (unat i)) h)..<h]"
proof (induction xs arbitrary: l)
  case (Cons x xs)
  then have "l < h" and x: "unat x = l" and xs: "map unat xs = [Suc l..<h]"
    using upt_eq_Cons_conv [of l h "unat x" "map unat xs"] by (simp_all add: eq_commute)
  show ?case
  proof (cases "x \<le> i")
    case True
    then have "l \<le> unat i" using x by (simp add: word_le_nat_alt)
    with Cons.IH [OF xs] True \<open>l < h\<close> show ?thesis by (simp add: max_def min_def)
  next
    case False
    then have "unat i < l" using x by (simp add: word_le_nat_alt)
    then have "max l (min (Suc (unat i)) h) = l" by simp
    with Cons.prems False show ?thesis by simp
  qed
next
  case Nil
  then have "h \<le> l" by (cases "l < h") (simp_all add: upt_rec)
  then show ?case by simp
qed

lemma word_succ: "unat w + 1 < 2 ^ 64 \<Longrightarrow> unat (w + 1) = Suc (unat w)" for w :: u64
  using unat_add_lem [of w 1] by simp

lemma captured_window:
  assumes "window_of b w" and "win_hi w + 1 < 2 ^ 64"
  shows "window_of (snd (on_captured b)) (win_exec (max_in_flight b) Captured w)"
    and "fst (on_captured b) = last (fb_in_flight (snd (on_captured b)))"
    and "max_in_flight (snd (on_captured b)) = max_in_flight b"
proof -
  have len: "length (fb_in_flight b) = win_hi w - win_lo w"
    using assms(1) by (metis window_of_def length_map length_upt)
  have hi: "unat (next_frame_id b + 1) = Suc (win_hi w)" "unat (fb_sent b + 1) = Suc (unat (fb_sent b))"
    "unat (fb_dropped b + 1) = Suc (unat (fb_dropped b))"
    using assms by (auto simp: window_of_def intro!: word_succ trans [OF word_succ])
  show "window_of (snd (on_captured b)) (win_exec (max_in_flight b) Captured w)"
    using assms(1) len hi
    by (auto simp: window_of_def on_captured_def Let_def map_tl)
  show "fst (on_captured b) = last (fb_in_flight (snd (on_captured b)))"
    "max_in_flight (snd (on_captured b)) = max_in_flight b" by (simp_all add: on_captured_def Let_def)
qed

lemma ack_window: "window_of b w \<Longrightarrow> window_of (on_ack i b) (win_exec m (Ack i) w)"
  by (auto simp: window_of_def on_ack_def retire_interval)

lemma restart_window: "window_of b w \<Longrightarrow> window_of (restart b) (win_exec m Restart w)"
  by (auto simp: window_of_def restart_def)

lemma bud_exec_max: "max_in_flight (bud_exec op b) = max_in_flight b"
  by (cases op) (simp_all add: on_captured_def on_ack_def restart_def Let_def)

lemma win_exec_hi: "win_hi (win_exec m op w) = win_hi w + (if op = Captured then 1 else 0)"
  by (cases op) simp_all

lemma fold_window:
  assumes "window_of b w" and "win_hi w + captures ops < 2 ^ 64"
  shows "window_of (fold bud_exec ops b) (fold (win_exec (max_in_flight b)) ops w) \<and>
    win_hi (fold (win_exec (max_in_flight b)) ops w) = win_hi w + captures ops \<and>
    max_in_flight (fold bud_exec ops b) = max_in_flight b"
  using assms
proof (induction ops arbitrary: b w)
  case (Cons op ops)
  let ?b = "bud_exec op b" and ?w = "win_exec (max_in_flight b) op w"
  have count: "captures (op # ops) = (if op = Captured then 1 else 0) + captures ops" by (simp add: captures_def)
  have "window_of ?b ?w"
  proof (cases op)
    case Captured
    with Cons.prems count have "win_hi w + 1 < 2 ^ 64" by simp
    from captured_window(1) [OF Cons.prems(1) this] Captured show ?thesis by (simp del: win_exec.simps)
  next
    case (Ack i)
    from ack_window [OF Cons.prems(1), of i] Ack show ?thesis by (simp del: win_exec.simps)
  next
    case Restart
    from restart_window [OF Cons.prems(1)] Restart show ?thesis by (simp del: win_exec.simps)
  qed
  moreover have "win_hi ?w + captures ops < 2 ^ 64" using Cons.prems(2) count by (simp add: win_exec_hi)
  ultimately show ?case using Cons.IH [of ?b ?w] count by (simp add: bud_exec_max win_exec_hi)
qed (simp add: captures_def)

lemma new_window: "window_of (FrameBudget_new m) \<lparr>win_lo = 1, win_hi = 1, win_drops = 0\<rparr>"
  by (simp add: window_of_def FrameBudget_new_def)

lemma bud_run_window:
  assumes "captures ops < 2 ^ 64 - 1"
  shows "window_of (bud_run ops (FrameBudget_new m)) (win_run (max (unat m) 1) ops)"
    and "win_hi (win_run (max (unat m) 1) ops) = Suc (captures ops)"
    and "max_in_flight (bud_run ops (FrameBudget_new m)) = max (unat m) 1"
  using fold_window [OF new_window [of m], of ops] assms
  by (simp_all add: bud_run_def win_run_def FrameBudget_new_def)

section \<open>Properties\<close>

text \<open>
  C13: The frame budget implements a sliding window. After any sequence of captures, acknowledgements
  (of any ids, in any order) and restarts, the frames in flight are exactly the ids of the window
  the abstract machine computes: consecutive, at most the configured number of them and never
  fewer than the newest; \<open>sent\<close> counts the captures and \<open>dropped\<close> the frames that were displaced.
\<close>

theorem budget_refines_window:
  assumes "captures ops < 2 ^ 64 - 1"
  shows "let b = bud_run ops (FrameBudget_new m); w = win_run (max (unat m) 1) ops in
    map unat (fb_in_flight b) = [win_lo w..<win_hi w] \<and> in_flight b = win_hi w - win_lo w \<and>
    in_flight b \<le> max (unat m) 1 \<and> unat (next_frame_id b) = Suc (captures ops) \<and>
    unat (fb_sent b) = captures ops \<and> unat (fb_dropped b) = win_drops w"
proof -
  let ?b = "bud_run ops (FrameBudget_new m)" and ?w = "win_run (max (unat m) 1) ops"
  note run = bud_run_window [OF assms, of m]
  from run(1) have "map unat (fb_in_flight ?b) = [win_lo ?w..<win_hi ?w]" by (simp add: window_of_def)
  then have "in_flight ?b = win_hi ?w - win_lo ?w" by (metis in_flight_def length_map length_upt)
  with run show ?thesis unfolding Let_def by (simp add: window_of_def)
qed

theorem budget_refines_window_witness:
  "map unat (fb_in_flight (bud_run [Captured, Captured, Captured, Ack 2, Captured] (FrameBudget_new 2))) = [3, 4]"
proof -
  have "captures [Captured, Captured, Captured, Ack 2, Captured] < 2 ^ 64 - 1" by (simp add: captures_def)
  from budget_refines_window [OF this, of 2] show ?thesis
    by (simp add: Let_def win_run_def upt_rec)
qed

text \<open>
  Acknowledgements are cumulative and cannot cross a restart: acknowledging an id retires every
  frame up to it and no later one, and after a restart an acknowledgement of any id handed out
  before the restart changes nothing, however many frames were captured since.
\<close>

theorem late_ack_harmless:
  assumes "captures ops + n < 2 ^ 64 - 1" and "i < next_frame_id (bud_run ops (FrameBudget_new m))"
  shows "on_ack i (bud_run (ops @ Restart # replicate n Captured) (FrameBudget_new m)) =
    bud_run (ops @ Restart # replicate n Captured) (FrameBudget_new m)"
proof -
  let ?m = "max (unat m) 1" and ?all = "ops @ Restart # replicate n Captured"
  let ?b = "bud_run ?all (FrameBudget_new m)" and ?w = "win_run ?m ?all"
  have count: "captures ?all = captures ops + n" by (simp add: captures_def)
  have ops: "captures ops < 2 ^ 64 - 1" and all: "captures ?all < 2 ^ 64 - 1" using assms(1) count by simp_all
  have "win_lo w \<le> win_lo (fold (win_exec ?m) (replicate n Captured) w)" for w
    by (induction n arbitrary: w) (simp_all, metis (no_types, lifting) Suc_leD le_trans window.select_convs(1))
  then have "win_hi (win_run ?m ops) \<le> win_lo ?w"
    by (simp add: win_run_def, metis (no_types, lifting) window.select_convs(1) window.surjective window.update_convs(1))
  moreover have "unat i < win_hi (win_run ?m ops)"
    using assms(2) bud_run_window(1) [OF ops, of m] by (simp add: window_of_def word_less_nat_alt)
  ultimately have "unat i < win_lo ?w" by simp
  moreover have "map unat (fb_in_flight ?b) = [win_lo ?w..<win_hi ?w]"
    using bud_run_window(1) [OF all, of m] by (simp add: window_of_def)
  ultimately have "retire i (fb_in_flight ?b) = fb_in_flight ?b"
    by (cases "fb_in_flight ?b") (auto simp: word_le_nat_alt upt_eq_Cons_conv dest: sym)
  then show ?thesis by (simp add: on_ack_def)
qed

theorem late_ack_harmless_witness:
  "on_ack 2 (bud_run ([Captured, Captured] @ Restart # replicate 1 Captured) (FrameBudget_new 4)) =
    bud_run ([Captured, Captured] @ Restart # replicate 1 Captured) (FrameBudget_new 4)"
  by (rule late_ack_harmless) (simp_all add: captures_def bud_run_def on_captured_def FrameBudget_new_def Let_def)

end
