(* ===== verification/Handshake.thy ===== *)
theory Handshake
  imports Transport
begin

text \<open>
  The two ends of the oxproto handshake: the agent's \<open>negotiate\<close> and \<open>reject\<close>
  (\<open>oxagent/src/handshake.rs\<close>) and the client's \<open>ClientSession::connect\<close>
  (\<open>oxclient/src/session.rs\<close>), with the protocol constants of \<open>oxproto/src/message/mod.rs\<close>.

  A duplex stream is the pair of an incoming \<open>source\<close> and an outgoing \<open>sink\<close>; the bytes a function
  puts on the wire are returned beside its result. The token comparison is the argument
  \<open>verify_token\<close>, as it is in the code. The last part runs the two ends against each other.
\<close>

section \<open>Protocol constants\<close>

definition PROTOCOL_VERSION :: u16 where "PROTOCOL_VERSION = 1"
definition MIN_SUPPORTED_VERSION :: u16 where "MIN_SUPPORTED_VERSION = 1"

definition CURSOR_STREAM :: u64 where "CURSOR_STREAM = push_bit 0 1"
definition FRAME_ACK :: u64 where "FRAME_ACK = push_bit 1 1"
definition WINDOW_CONTROL :: u64 where "WINDOW_CONTROL = push_bit 3 1"
definition TEXT_INPUT :: u64 where "TEXT_INPUT = push_bit 4 1"
definition ICONS :: u64 where "ICONS = push_bit 5 1"

definition SUPPORTED :: u64 where
  "SUPPORTED = or (or (or (or CURSOR_STREAM FRAME_ACK) WINDOW_CONTROL) TEXT_INPUT) ICONS"

definition ERR_PROTOCOL :: u16 where "ERR_PROTOCOL = 1"
definition ERR_AUTH_FAILED :: u16 where "ERR_AUTH_FAILED = 2"
definition ERR_VERSION_MISMATCH :: u16 where "ERR_VERSION_MISMATCH = 3"
definition ERR_UNSUPPORTED_CODEC :: u16 where "ERR_UNSUPPORTED_CODEC = 4"
definition CLOSE_ERROR :: u16 where "CLOSE_ERROR = 3"

definition RAW_BGRA :: u8 where "RAW_BGRA = 1"
definition RAW_BGRA_ONLY :: "u8 list" where "RAW_BGRA_ONLY = [RAW_BGRA]"

section \<open>The agent's side\<close>

record Negotiated =
  ng_version :: u16
  ng_features :: u64
  ng_codec :: u8
  ng_session_id :: u64
  ng_client_name :: rust_string
  ng_display :: DisplayLayout

text \<open>\<open>Timeout\<close> and \<open>Busy\<close> are produced by the caller of \<open>negotiate\<close>.\<close>

datatype HandshakeError =
    HsIo io_error
  | HsRejected u16 string
  | HsTimeout
  | HsBusy

text \<open>
  \<open>reject\<close> drops both write results; only a write that has to wait suspends it.
\<close>

definition reject :: "u16 \<Rightarrow> string \<Rightarrow> string \<Rightarrow> sink \<Rightarrow> HandshakeError poll \<times> u8 list \<times> sink" where
  "reject code message reason snk =
    (case write_message (Error \<lparr>er_code = code, er_message = ascii message\<rparr>) CH_CONTROL snk of
       (Pending, out, snk1) \<Rightarrow> (Pending, out, snk1)
     | (Ready _, out, snk1) \<Rightarrow>
         (case write_message (Close \<lparr>cl_reason = CLOSE_ERROR\<rparr>) CH_CONTROL snk1 of
            (Pending, out', snk2) \<Rightarrow> (Pending, out @ out', snk2)
          | (Ready _, out', snk2) \<Rightarrow> (Ready (HsRejected code reason), out @ out', snk2)))"

text \<open>\<open>return Err(reject(..).await)\<close>.\<close>

definition refuse :: "u16 \<Rightarrow> string \<Rightarrow> string \<Rightarrow> sink \<Rightarrow> (HandshakeError + Negotiated) poll \<times> u8 list \<times> sink" where
  "refuse code message reason snk =
    (case reject code message reason snk of
       (Pending, out, snk') \<Rightarrow> (Pending, out, snk')
     | (Ready e, out, snk') \<Rightarrow> (Ready (Inl e), out, snk'))"

text \<open>The part of \<open>negotiate\<close> after the first message has been read.\<close>

definition answer :: "u64 \<Rightarrow> u8 list \<Rightarrow> (rust_string \<Rightarrow> bool) \<Rightarrow> Message option \<Rightarrow> sink \<Rightarrow>
    (HandshakeError + Negotiated) poll \<times> u8 list \<times> sink" where
  "answer session_id supported_codecs verify_token first snk =
    (case first of
       Some (ClientHello hello) \<Rightarrow>
         (if \<not> verify_token (ch_auth_token hello)
          then refuse ERR_AUTH_FAILED ''authentication failed'' ''token mismatch'' snk
          else
            let version = min PROTOCOL_VERSION (ch_version_max hello) in
            if version < MIN_SUPPORTED_VERSION \<or> version < ch_version_min hello
            then refuse ERR_VERSION_MISMATCH ''no mutually supported protocol version''
                   ''version ranges do not overlap'' snk
            else case find (\<lambda>c. c \<in> set supported_codecs) (ch_codecs hello) of
              None \<Rightarrow> refuse ERR_UNSUPPORTED_CODEC ''no mutually supported codec''
                        ''client offered no codec this agent can produce'' snk
            | Some chosen \<Rightarrow>
                let features = and (ch_features hello) SUPPORTED in
                (case write_message (ServerHello \<lparr>sh_version = version, sh_features = features,
                        sh_session_id = session_id, sh_codec = chosen\<rparr>) CH_CONTROL snk of
                   (Pending, out, snk') \<Rightarrow> (Pending, out, snk')
                 | (Ready (Inl e), out, snk') \<Rightarrow> (Ready (Inl (HsIo e)), out, snk')
                 | (Ready (Inr _), out, snk') \<Rightarrow>
                     (Ready (Inr \<lparr>ng_version = version, ng_features = features, ng_codec = chosen,
                        ng_session_id = session_id, ng_client_name = ch_client_name hello,
                        ng_display = ch_display hello\<rparr>), out, snk')))
     | _ \<Rightarrow> refuse ERR_PROTOCOL ''expected ClientHello'' ''first message was not a ClientHello'' snk)"

definition negotiate :: "source \<Rightarrow> sink \<Rightarrow> reassembler \<Rightarrow> u64 \<Rightarrow> u8 list \<Rightarrow> (rust_string \<Rightarrow> bool) \<Rightarrow>
    (HandshakeError + Negotiated) poll \<times> u8 list \<times> source \<times> sink \<times> reassembler" where
  "negotiate src snk r session_id supported_codecs verify_token =
    (case read_message src r of
       (Pending, src', r') \<Rightarrow> (Pending, [], src', snk, r')
     | (Ready (Inl e), src', r') \<Rightarrow> (Ready (Inl (HsIo e)), [], src', snk, r')
     | (Ready (Inr first), src', r') \<Rightarrow>
         (case answer session_id supported_codecs verify_token first snk of
            (res, out, snk') \<Rightarrow> (res, out, src', snk', r')))"

section \<open>What the agent agrees to\<close>

text \<open>
  The contract, stated without the code's order of tests: the client is authentic, some protocol
  version lies in both ranges, and some offered codec can be produced.
\<close>

definition version_ok :: "ClientHello \<Rightarrow> u16 \<Rightarrow> bool" where
  "version_ok h v \<longleftrightarrow> MIN_SUPPORTED_VERSION \<le> v \<and> v \<le> PROTOCOL_VERSION \<and> ch_version_min h \<le> v \<and> v \<le> ch_version_max h"

definition acceptable :: "u8 list \<Rightarrow> (rust_string \<Rightarrow> bool) \<Rightarrow> ClientHello \<Rightarrow> bool" where
  "acceptable supported verify h \<longleftrightarrow>
     verify (ch_auth_token h) \<and> (\<exists>v. version_ok h v) \<and> set (ch_codecs h) \<inter> set supported \<noteq> {}"

definition agreed :: "u8 list \<Rightarrow> ClientHello \<Rightarrow> Negotiated \<Rightarrow> bool" where
  "agreed supported h n \<longleftrightarrow>
     version_ok h (ng_version n) \<and> (\<forall>v. version_ok h v \<longrightarrow> v \<le> ng_version n) \<and>
     (\<exists>better worse. ch_codecs h = better @ ng_codec n # worse \<and> ng_codec n \<in> set supported \<and> set better \<inter> set supported = {}) \<and>
     (\<forall>i. bit (ng_features n) i \<longleftrightarrow> bit (ch_features h) i \<and> bit SUPPORTED i) \<and>
     ng_client_name n = ch_client_name h \<and> ng_display n = ch_display h"

definition server_hello_of :: "Negotiated \<Rightarrow> ServerHello" where
  "server_hello_of n = \<lparr>sh_version = ng_version n, sh_features = ng_features n,
     sh_session_id = ng_session_id n, sh_codec = ng_codec n\<rparr>"

abbreviation control_wire :: "Message \<Rightarrow> u8 list" where
  "control_wire m \<equiv> wire_of (to_chunks m CH_CONTROL)"

lemma version_negotiated:
  "(\<exists>v. version_ok h v) \<longleftrightarrow>
     MIN_SUPPORTED_VERSION \<le> min PROTOCOL_VERSION (ch_version_max h) \<and> ch_version_min h \<le> min PROTOCOL_VERSION (ch_version_max h)"
  "MIN_SUPPORTED_VERSION \<le> min PROTOCOL_VERSION (ch_version_max h) \<Longrightarrow> ch_version_min h \<le> min PROTOCOL_VERSION (ch_version_max h) \<Longrightarrow>
   version_ok h (min PROTOCOL_VERSION (ch_version_max h))"
  "version_ok h v \<Longrightarrow> v \<le> min PROTOCOL_VERSION (ch_version_max h)"
  by (auto simp: version_ok_def intro: exI [of _ "min PROTOCOL_VERSION (ch_version_max h)"])

lemma version_test:
  "(min PROTOCOL_VERSION (ch_version_max h) < MIN_SUPPORTED_VERSION \<or> min PROTOCOL_VERSION (ch_version_max h) < ch_version_min h)
   \<longleftrightarrow> (\<nexists>v. version_ok h v)"
  using version_negotiated(1) [of h] by (simp only: not_le [symmetric]) blast

lemma find_split:
  "find P xs = Some x \<Longrightarrow> \<exists>ys zs. xs = ys @ x # zs \<and> P x \<and> (\<forall>y\<in>set ys. \<not> P y)"
proof (induction xs)
  case (Cons a xs)
  then show ?case
    by (cases "P a") (auto intro: exI [of _ "[]"] dest!: Cons.IH, metis append_Cons set_ConsD)
qed simp

lemma find_common: "find (\<lambda>c. c \<in> set supported) cs = None \<longleftrightarrow> set cs \<inter> set supported = {}"
  by (auto simp: find_None_iff)

lemma refuse_prefix:
  assumes "refuse code message reason snk = (res, out, snk')"
  obtains e c e' c' where "out = e @ c" "control_wire (Error \<lparr>er_code = code, er_message = ascii message\<rparr>) = e @ e'"
    "control_wire (Close \<lparr>cl_reason = CLOSE_ERROR\<rparr>) = c @ c'" "res = Pending \<or> res = Ready (Inl (HsRejected code reason))"
proof -
  let ?err = "Error \<lparr>er_code = code, er_message = ascii message\<rparr>" and ?close = "Close \<lparr>cl_reason = CLOSE_ERROR\<rparr>"
  obtain r1 o1 s1 where w1: "write_message ?err CH_CONTROL snk = (r1, o1, s1)" by (metis prod_cases3)
  obtain r2 o2 s2 where w2: "write_message ?close CH_CONTROL s1 = (r2, o2, s2)" by (metis prod_cases3)
  from write_message_prefix [OF w1] write_message_prefix [OF w2] assms w1 w2 that [of o1 "[]"] that [of o1 o2]
  show thesis by (auto simp: refuse_def reject_def split: poll.splits)
qed

lemma small_wire_length:
  "valid_msg m \<Longrightarrow> length (img_msg m) \<le> MAX_CHUNK_PAYLOAD \<Longrightarrow>
   length (wire_of (to_chunks m vch)) = CHUNK_HEADER_LEN + length (img_msg m)"
  by (simp add: to_chunks_img envelope_of_def message_chunks_def split_pieces_small chunk_wire_length)

lemma refuse_accepting:
  assumes "valid_msg (Error \<lparr>er_code = code, er_message = ascii message\<rparr>)" and "accepting snk"
    and "length (control_wire (Error \<lparr>er_code = code, er_message = ascii message\<rparr>)) + 12 < length snk"
  shows "\<exists>snk'. refuse code message reason snk =
    (Ready (Inl (HsRejected code reason)),
     control_wire (Error \<lparr>er_code = code, er_message = ascii message\<rparr>) @ control_wire (Close \<lparr>cl_reason = CLOSE_ERROR\<rparr>), snk')"
proof -
  let ?err = "Error \<lparr>er_code = code, er_message = ascii message\<rparr>" and ?close = "Close \<lparr>cl_reason = CLOSE_ERROR\<rparr>"
  from write_message_accepting [OF assms(1,2), of CH_CONTROL] assms(3) obtain s1 where
    w1: "write_message ?err CH_CONTROL snk = (Ready (Inr ()), control_wire ?err, s1)" "accepting s1"
      "length snk \<le> length s1 + length (control_wire ?err) + 1" by (auto simp: less_diff_conv)
  have close: "valid_msg ?close" "length (control_wire ?close) = 10"
    by (simp_all add: valid_Close_def small_wire_length img_Close_def MAX_CHUNK_PAYLOAD_def CHUNK_HEADER_LEN_def)
  from write_message_accepting [OF close(1) w1(2), of CH_CONTROL] close(2) w1(3) assms(3) obtain s2 where
    "write_message ?close CH_CONTROL s1 = (Ready (Inr ()), control_wire ?close, s2)" by auto
  with w1 show ?thesis by (simp add: refuse_def reject_def)
qed

lemma answer_agrees:
  assumes "answer sid supported verify first snk = (Ready (Inr n), out, snk')"
  obtains h where "first = Some (ClientHello h)" "verify (ch_auth_token h)" "agreed supported h n"
    "ng_session_id n = sid" "out = control_wire (ServerHello (server_hello_of n))"
proof -
  have no: "refuse code message reason snk \<noteq> (Ready (Inr n), out, snk')" for code message reason
    by (auto elim: refuse_prefix)
  with assms obtain h where first: "first = Some (ClientHello h)" by (auto simp: answer_def split: option.splits Message.splits)
  with assms no have ok: "verify (ch_auth_token h)" "MIN_SUPPORTED_VERSION \<le> min PROTOCOL_VERSION (ch_version_max h)"
    "ch_version_min h \<le> min PROTOCOL_VERSION (ch_version_max h)"
    by (auto simp: answer_def Let_def not_less split: if_splits)
  with assms first no obtain c where c: "find (\<lambda>c. c \<in> set supported) (ch_codecs h) = Some c"
    by (auto simp: answer_def Let_def split: option.splits if_splits)
  let ?v = "min PROTOCOL_VERSION (ch_version_max h)" and ?f = "and (ch_features h) SUPPORTED"
  let ?hello = "ServerHello \<lparr>sh_version = ?v, sh_features = ?f, sh_session_id = sid, sh_codec = c\<rparr>"
  obtain res out1 s1 where w: "write_message ?hello CH_CONTROL snk = (res, out1, s1)" by (metis prod_cases3)
  from ok have v: "\<not> (?v < MIN_SUPPORTED_VERSION \<or> ?v < ch_version_min h)" by (simp add: not_less)
  from assms first ok(1) v c w have res: "res = Ready (Inr ())" "out = out1"
    and n: "n = \<lparr>ng_version = ?v, ng_features = ?f, ng_codec = c, ng_session_id = sid,
        ng_client_name = ch_client_name h, ng_display = ch_display h\<rparr>"
    by (auto simp: answer_def Let_def split: poll.splits sum.splits)
  have "out = control_wire ?hello" using write_message_prefix [OF w] res by auto
  moreover have "agreed supported h n"
    using find_split [OF c] version_negotiated(2,3) [of h] ok(2,3) unfolding agreed_def n by (auto simp: bit_and_iff)
  ultimately show thesis using first ok n by (intro that [of h]) (simp_all add: server_hello_of_def)
qed

text \<open>The code sent to a peer that is turned away.\<close>

definition refusal_code :: "(rust_string \<Rightarrow> bool) \<Rightarrow> Message option \<Rightarrow> u16" where
  "refusal_code verify first = (case first of
     Some (ClientHello h) \<Rightarrow>
       if \<not> verify (ch_auth_token h) then ERR_AUTH_FAILED
       else if \<exists>v. version_ok h v then ERR_UNSUPPORTED_CODEC else ERR_VERSION_MISMATCH
   | _ \<Rightarrow> ERR_PROTOCOL)"

definition turned_away :: "u8 list \<Rightarrow> (rust_string \<Rightarrow> bool) \<Rightarrow> Message option \<Rightarrow> bool" where
  "turned_away supported verify first \<longleftrightarrow> (\<nexists>h. first = Some (ClientHello h) \<and> acceptable supported verify h)"

lemma refusal_texts:
  assumes "message \<in> {''authentication failed'', ''no mutually supported protocol version'', ''no mutually supported codec'',
      ''expected ClientHello''}"
  shows "deliverable (Error \<lparr>er_code = code, er_message = ascii message\<rparr>)"
    and "length (control_wire (Error \<lparr>er_code = code, er_message = ascii message\<rparr>)) < 100"
proof -
  let ?m = "Error \<lparr>er_code = code, er_message = ascii message\<rparr>"
  have ok: "valid_msg ?m" and len: "length (img_msg ?m) < 60"
    using assms by (auto simp: valid_Error_def string_ok_def ascii_def img_Error_def codec_size string_size_def)
  then show "deliverable ?m" by (simp add: deliverable_def max_message_len_def)
  show "length (control_wire ?m) < 100"
    using len by (subst small_wire_length [OF ok]) (simp_all add: MAX_CHUNK_PAYLOAD_def CHUNK_HEADER_LEN_def)
qed

lemma answer_refuses:
  assumes "turned_away supported verify first"
  obtains message reason where "answer sid supported verify first snk = refuse (refusal_code verify first) message reason snk"
    "deliverable (Error \<lparr>er_code = refusal_code verify first, er_message = ascii message\<rparr>)"
    "length (control_wire (Error \<lparr>er_code = refusal_code verify first, er_message = ascii message\<rparr>)) < 100"
proof -
  let ?goal = "\<lambda>message reason. answer sid supported verify first snk = refuse (refusal_code verify first) message reason snk"
  note done' = that [OF _ refusal_texts]
  show thesis
  proof (cases "\<exists>h. first = Some (ClientHello h)")
    case False
    then have "?goal ''expected ClientHello'' ''first message was not a ClientHello''"
      by (simp add: answer_def refusal_code_def split: option.splits Message.splits)
    then show ?thesis by (rule done') simp_all
  next
    case True
    then obtain h where h: "first = Some (ClientHello h)" by blast
    consider "\<not> verify (ch_auth_token h)" | "verify (ch_auth_token h)" "\<nexists>v. version_ok h v"
      | "verify (ch_auth_token h)" "\<exists>v. version_ok h v" "find (\<lambda>c. c \<in> set supported) (ch_codecs h) = None"
      using assms h by (auto simp: turned_away_def acceptable_def find_common)
    then show ?thesis
    proof cases
      case 1
      with h have "?goal ''authentication failed'' ''token mismatch''" by (simp add: answer_def refusal_code_def)
      then show ?thesis by (rule done') simp_all
    next
      case 2
      then have "?goal ''no mutually supported protocol version'' ''version ranges do not overlap''"
        unfolding answer_def Let_def h option.case Message.case version_test by (auto simp: refusal_code_def)
      then show ?thesis by (rule done') simp_all
    next
      case 3
      then have "?goal ''no mutually supported codec'' ''client offered no codec this agent can produce''"
        unfolding answer_def Let_def h option.case Message.case version_test by (auto simp: refusal_code_def)
      then show ?thesis by (rule done') simp_all
    qed
  qed
qed

text \<open>An acceptable hello is answered with \<open>ServerHello\<close>.\<close>

lemma answer_accepts:
  assumes "acceptable supported verify h"
  obtains n where "agreed supported h n" "ng_session_id n = sid"
    "answer sid supported verify (Some (ClientHello h)) snk =
      (case write_message (ServerHello (server_hello_of n)) CH_CONTROL snk of
         (Pending, out, snk') \<Rightarrow> (Pending, out, snk')
       | (Ready (Inl e), out, snk') \<Rightarrow> (Ready (Inl (HsIo e)), out, snk')
       | (Ready (Inr _), out, snk') \<Rightarrow> (Ready (Inr n), out, snk'))"
proof -
  obtain c where c: "find (\<lambda>c. c \<in> set supported) (ch_codecs h) = Some c"
    using assms by (auto simp: acceptable_def simp flip: find_common)
  let ?v = "min PROTOCOL_VERSION (ch_version_max h)"
  let ?n = "\<lparr>ng_version = ?v, ng_features = and (ch_features h) SUPPORTED, ng_codec = c,
    ng_session_id = sid, ng_client_name = ch_client_name h, ng_display = ch_display h\<rparr>"
  have "\<exists>v. version_ok h v" "verify (ch_auth_token h)" using assms by (auto simp: acceptable_def)
  then have "version_ok h ?v" using version_negotiated(1,2) [of h] by blast
  then have "agreed supported h ?n"
    using find_split [OF c] version_negotiated(3) [of h] unfolding agreed_def by (auto simp: bit_and_iff)
  moreover have "answer sid supported verify (Some (ClientHello h)) snk =
      (case write_message (ServerHello (server_hello_of ?n)) CH_CONTROL snk of
         (Pending, out, snk') \<Rightarrow> (Pending, out, snk')
       | (Ready (Inl e), out, snk') \<Rightarrow> (Ready (Inl (HsIo e)), out, snk')
       | (Ready (Inr _), out, snk') \<Rightarrow> (Ready (Inr ?n), out, snk'))"
    using \<open>\<exists>v. version_ok h v\<close> \<open>verify (ch_auth_token h)\<close> c
    unfolding answer_def Let_def option.case Message.case version_test by (auto simp: server_hello_of_def)
  ultimately show thesis by (intro that [of ?n]) simp_all
qed

lemma server_hello_deliverable: "deliverable (ServerHello m)" "length (wire_of (to_chunks (ServerHello m) vch)) = 27"
  by (simp_all add: deliverable_def valid_ServerHello_def img_ServerHello_def max_message_len_def codec_size
      small_wire_length MAX_CHUNK_PAYLOAD_def CHUNK_HEADER_LEN_def)

lemma close_deliverable: "deliverable (Close m)" "length (wire_of (to_chunks (Close m) vch)) = 10"
  by (simp_all add: deliverable_def valid_Close_def img_Close_def max_message_len_def codec_size
      small_wire_length MAX_CHUNK_PAYLOAD_def CHUNK_HEADER_LEN_def)

text \<open>What a refused peer can have received: an \<open>Error\<close> with this code, then a \<open>Close\<close>, each possibly cut short.\<close>

definition refusal_output :: "u16 \<Rightarrow> u8 list \<Rightarrow> bool" where
  "refusal_output code out \<longleftrightarrow> (\<exists>message e e' c c'. out = e @ c \<and>
     control_wire (Error \<lparr>er_code = code, er_message = message\<rparr>) = e @ e' \<and>
     control_wire (Close \<lparr>cl_reason = CLOSE_ERROR\<rparr>) = c @ c')"

definition sample_hello :: ClientHello where
  "sample_hello = \<lparr>ch_version_min = 1, ch_version_max = 3, ch_features = 0xFF, ch_auth_token = ascii ''key'',
     ch_client_name = ascii ''c'', ch_codecs = [4, 2, 1], ch_display = \<lparr>dl_outputs = []\<rparr>\<rparr>"

lemma sample_hello_deliverable: "deliverable (ClientHello sample_hello)"
  by (simp add: deliverable_def sample_hello_def valid_ClientHello_def valid_DisplayLayout_def string_ok_def ascii_def
      img_ClientHello_def img_DisplayLayout_def max_message_len_def codec_size string_size_def)

lemma wire_not_Nil: "deliverable m \<Longrightarrow> wire_of (to_chunks m vch) \<noteq> []"
  using parse_next_wire [of m vch "[]"] by (auto simp: parse_next.simps [of _ "[]"] CHUNK_HEADER_LEN_def)

lemma negotiate_reads:
  assumes "deliverable m" "live src" "src_bytes src = control_wire m @ rest"
  obtains src' where "live src'" "src_bytes src' = rest"
    "read_message src Reassembler_new = (Ready (Inr (Some m)), src', Reassembler_new)"
    "negotiate src snk Reassembler_new sid supported verify =
      (case answer sid supported verify (Some m) snk of (res, out, snk') \<Rightarrow> (res, out, src', snk', Reassembler_new))"
proof -
  obtain src' where "live src'" "src_bytes src' = rest"
    "read_message src Reassembler_new = (Ready (Inr (Some m)), src', Reassembler_new)"
    using assms by (rule read_message_next)
  then show thesis by (intro that [of src']) (simp_all add: negotiate_def)
qed

lemma answer_accepting:
  assumes "accepting snk" "200 \<le> length snk"
  shows "acceptable supported verify h \<Longrightarrow>
      \<exists>n snk'. agreed supported h n \<and> ng_session_id n = sid \<and>
        answer sid supported verify (Some (ClientHello h)) snk
          = (Ready (Inr n), control_wire (ServerHello (server_hello_of n)), snk')"
    and "turned_away supported verify first \<Longrightarrow>
      \<exists>message reason snk'. deliverable (Error \<lparr>er_code = refusal_code verify first, er_message = message\<rparr>) \<and>
        answer sid supported verify first snk = (Ready (Inl (HsRejected (refusal_code verify first) reason)),
          control_wire (Error \<lparr>er_code = refusal_code verify first, er_message = message\<rparr>) @
          control_wire (Close \<lparr>cl_reason = CLOSE_ERROR\<rparr>), snk')"
proof -
  assume "acceptable supported verify h"
  then obtain n where n: "agreed supported h n" "ng_session_id n = sid"
    "answer sid supported verify (Some (ClientHello h)) snk =
      (case write_message (ServerHello (server_hello_of n)) CH_CONTROL snk of
         (Pending, out, snk') \<Rightarrow> (Pending, out, snk')
       | (Ready (Inl e), out, snk') \<Rightarrow> (Ready (Inl (HsIo e)), out, snk')
       | (Ready (Inr _), out, snk') \<Rightarrow> (Ready (Inr n), out, snk'))"
    by (rule answer_accepts)
  have "valid_msg (ServerHello (server_hello_of n))" using server_hello_deliverable by (simp add: deliverable_def)
  from write_message_accepting [OF this assms(1), of CH_CONTROL] assms(2) n
  show "\<exists>n snk'. agreed supported h n \<and> ng_session_id n = sid \<and>
        answer sid supported verify (Some (ClientHello h)) snk
          = (Ready (Inr n), control_wire (ServerHello (server_hello_of n)), snk')"
    by (intro exI [of _ n]) (auto simp: server_hello_deliverable)
next
  assume "turned_away supported verify first"
  then obtain message reason where m: "answer sid supported verify first snk = refuse (refusal_code verify first) message reason snk"
    "deliverable (Error \<lparr>er_code = refusal_code verify first, er_message = ascii message\<rparr>)"
    "length (control_wire (Error \<lparr>er_code = refusal_code verify first, er_message = ascii message\<rparr>)) < 100"
    by (rule answer_refuses)
  then have "valid_msg (Error \<lparr>er_code = refusal_code verify first, er_message = ascii message\<rparr>)"
    "length (control_wire (Error \<lparr>er_code = refusal_code verify first, er_message = ascii message\<rparr>)) + 12 < length snk"
    using assms(2) by (simp_all add: deliverable_def)
  from refuse_accepting [OF this(1) assms(1) this(2), of reason]
  obtain snk' where "refuse (refusal_code verify first) message reason snk = (Ready (Inl (HsRejected (refusal_code verify first) reason)),
     control_wire (Error \<lparr>er_code = refusal_code verify first, er_message = ascii message\<rparr>) @
     control_wire (Close \<lparr>cl_reason = CLOSE_ERROR\<rparr>), snk')" ..
  with m(1,2) show "\<exists>message reason snk'. deliverable (Error \<lparr>er_code = refusal_code verify first, er_message = message\<rparr>) \<and>
        answer sid supported verify first snk = (Ready (Inl (HsRejected (refusal_code verify first) reason)),
          control_wire (Error \<lparr>er_code = refusal_code verify first, er_message = message\<rparr>) @
          control_wire (Close \<lparr>cl_reason = CLOSE_ERROR\<rparr>), snk')"
    by (intro exI conjI) (assumption, simp only:)
qed

lemma sample_acceptable: "acceptable RAW_BGRA_ONLY (\<lambda>t. t = ascii ''key'') sample_hello"
  by (auto simp: acceptable_def sample_hello_def version_ok_def RAW_BGRA_ONLY_def RAW_BGRA_def
      MIN_SUPPORTED_VERSION_def PROTOCOL_VERSION_def intro: exI [of _ 1])

section \<open>Properties\<close>

text \<open>
  C15: The authentication gate. Whatever arrives and however the stream behaves, \<open>negotiate\<close> reports
  success only when the first message was a \<open>ClientHello\<close> whose token the verifier accepted. Then
  the version is the highest one in both ranges, the codec is the first of the client's list the
  agent can produce, the features are exactly those both know, and the bytes written are exactly
  one \<open>ServerHello\<close> carrying these values.
\<close>

theorem authentication_gate:
  assumes "negotiate src snk r sid supported verify = (Ready (Inr n), out, src', snk', r')"
  shows "\<exists>h. read_message src r = (Ready (Inr (Some (ClientHello h))), src', r') \<and> verify (ch_auth_token h) \<and>
    agreed supported h n \<and> ng_session_id n = sid \<and> out = control_wire (ServerHello (server_hello_of n))"
proof -
  from assms obtain first where rd: "read_message src r = (Ready (Inr first), src', r')"
    and ans: "answer sid supported verify first snk = (Ready (Inr n), out, snk')"
    by (auto simp: negotiate_def split: prod.splits poll.splits sum.splits)
  from answer_agrees [OF ans] rd show ?thesis by metis
qed

theorem authentication_gate_witness:
  "\<exists>src snk r n out src' snk' r' h. negotiate src snk r 7 RAW_BGRA_ONLY (\<lambda>t. t = ascii ''key'') = (Ready (Inr n), out, src', snk', r') \<and>
     read_message src r = (Ready (Inr (Some (ClientHello h))), src', r') \<and> ch_auth_token h = ascii ''key'' \<and>
     ng_version n = 1 \<and> ng_session_id n = 7"
proof -
  let ?src = "[Segment (control_wire (ClientHello sample_hello))]" and ?snk = "replicate 200 (Accepts 1)"
    and ?verify = "\<lambda>t. t = ascii ''key''"
  have acc: "accepting ?snk" "200 \<le> length ?snk" by (simp_all add: accepting_def list_all_iff)
  have "live ?src" "src_bytes ?src = control_wire (ClientHello sample_hello) @ []"
    using wire_not_Nil [OF sample_hello_deliverable] by (simp_all add: live_def)
  then obtain src' where neg: "negotiate ?src ?snk Reassembler_new 7 RAW_BGRA_ONLY ?verify =
      (case answer 7 RAW_BGRA_ONLY ?verify (Some (ClientHello sample_hello)) ?snk of
         (res, out, snk') \<Rightarrow> (res, out, src', snk', Reassembler_new))"
    by (rule negotiate_reads [OF sample_hello_deliverable])
  obtain n out snk' where run: "negotiate ?src ?snk Reassembler_new 7 RAW_BGRA_ONLY ?verify
      = (Ready (Inr n), out, src', snk', Reassembler_new)"
    using answer_accepting(1) [OF acc sample_acceptable, of 7] neg by force
  from authentication_gate [OF run] obtain h where
    h: "read_message ?src Reassembler_new = (Ready (Inr (Some (ClientHello h))), src', Reassembler_new)"
      "?verify (ch_auth_token h)" "agreed RAW_BGRA_ONLY h n" "ng_session_id n = 7" by blast
  from h(3) have "1 \<le> ng_version n" "ng_version n \<le> 1"
    by (simp_all add: agreed_def version_ok_def PROTOCOL_VERSION_def MIN_SUPPORTED_VERSION_def)
  then have "ng_version n = 1" by (rule antisym [rotated])
  with run h show ?thesis by blast
qed

text \<open>
  C16: A peer that is turned away learns nothing else. When the first message is not a
  \<open>ClientHello\<close>, or its token, versions or codecs do not pass, nothing but an \<open>Error\<close> with the code
  of the first failed test and a \<open>Close\<close> is written, and the result is never a session.
\<close>

theorem refused_peer_output:
  assumes "negotiate src snk r sid supported verify = (res, out, src', snk', r')"
    and "read_message src r = (Ready (Inr first), src', r')" and "turned_away supported verify first"
  shows "refusal_output (refusal_code verify first) out \<and> (\<forall>n. res \<noteq> Ready (Inr n))"
proof -
  from assms have ans: "answer sid supported verify first snk = (res, out, snk')"
    by (auto simp: negotiate_def split: prod.splits)
  from answer_refuses [OF assms(3), of sid snk] ans
  obtain message reason where "refuse (refusal_code verify first) message reason snk = (res, out, snk')" by metis
  then obtain e c e' c' where "out = e @ c"
    "control_wire (Error \<lparr>er_code = refusal_code verify first, er_message = ascii message\<rparr>) = e @ e'"
    "control_wire (Close \<lparr>cl_reason = CLOSE_ERROR\<rparr>) = c @ c'" "\<forall>n. res \<noteq> Ready (Inr n)"
    by (auto elim!: refuse_prefix)
  then show ?thesis unfolding refusal_output_def by blast
qed

theorem refused_peer_output_witness:
  "\<exists>src snk r out src' snk' r' res. negotiate src snk r 7 RAW_BGRA_ONLY (\<lambda>t. t = ascii ''other'') = (res, out, src', snk', r') \<and>
     read_message src r = (Ready (Inr (Some (ClientHello sample_hello))), src', r') \<and>
     refusal_output ERR_AUTH_FAILED out \<and> out \<noteq> [] \<and> (\<forall>n. res \<noteq> Ready (Inr n))"
proof -
  let ?src = "[Segment (control_wire (ClientHello sample_hello))]" and ?snk = "replicate 200 (Accepts 1)"
    and ?verify = "\<lambda>t. t = ascii ''other''" and ?first = "Some (ClientHello sample_hello)"
  have acc: "accepting ?snk" "200 \<le> length ?snk" by (simp_all add: accepting_def list_all_iff)
  have token: "\<not> ?verify (ch_auth_token sample_hello)" by (simp add: sample_hello_def ascii_def)
  then have away: "turned_away RAW_BGRA_ONLY ?verify ?first" and code: "refusal_code ?verify ?first = ERR_AUTH_FAILED"
    by (simp_all add: turned_away_def acceptable_def refusal_code_def)
  have "live ?src" "src_bytes ?src = control_wire (ClientHello sample_hello) @ []"
    using wire_not_Nil [OF sample_hello_deliverable] by (simp_all add: live_def)
  then obtain src' where neg: "negotiate ?src ?snk Reassembler_new 7 RAW_BGRA_ONLY ?verify =
      (case answer 7 RAW_BGRA_ONLY ?verify ?first ?snk of (res, out, snk') \<Rightarrow> (res, out, src', snk', Reassembler_new))"
    and rd: "read_message ?src Reassembler_new = (Ready (Inr ?first), src', Reassembler_new)"
    by (rule negotiate_reads [OF sample_hello_deliverable])
  obtain res out snk' where run: "negotiate ?src ?snk Reassembler_new 7 RAW_BGRA_ONLY ?verify
      = (res, out @ control_wire (Close \<lparr>cl_reason = CLOSE_ERROR\<rparr>), src', snk', Reassembler_new)"
    using answer_accepting(2) [OF acc away, of 7] neg by force
  have "control_wire (Close \<lparr>cl_reason = CLOSE_ERROR\<rparr>) \<noteq> []"
    using close_deliverable(2) [of "\<lparr>cl_reason = CLOSE_ERROR\<rparr>" CH_CONTROL] by auto
  with refused_peer_output [OF run rd away] code
  have "refusal_output ERR_AUTH_FAILED (out @ control_wire (Close \<lparr>cl_reason = CLOSE_ERROR\<rparr>)) \<and>
    out @ control_wire (Close \<lparr>cl_reason = CLOSE_ERROR\<rparr>) \<noteq> [] \<and> (\<forall>n. res \<noteq> Ready (Inr n))" by simp
  with run rd show ?thesis by blast
qed

end
