(* ===== verification/Latency.thy ===== *)
theory Latency
  imports Prelude
begin

text \<open>
  Rolling latency statistics and clock synchronisation (\<open>oxproto/src/latency.rs\<close>). Times are 64-bit
  words; the clock offset, an \<open>i64\<close> the source computes in \<open>i128\<close> and clamps, is an \<open>int\<close> clamped
  to the same range.
\<close>

section \<open>Rolling samples\<close>

record Samples =
  sm_buf :: "u64 list"
  sm_head :: nat
  sm_len :: nat
  sm_capacity :: nat

definition Samples_new :: "nat \<Rightarrow> Samples" where
  "Samples_new capacity = \<lparr>sm_buf = [], sm_head = 0, sm_len = 0, sm_capacity = max capacity 1\<rparr>"

definition sm_push :: "u64 \<Rightarrow> Samples \<Rightarrow> Samples" where
  "sm_push v s =
    (if sm_len s < sm_capacity s then s\<lparr>sm_buf := sm_buf s @ [v], sm_len := sm_len s + 1\<rparr>
     else s\<lparr>sm_buf := (sm_buf s)[sm_head s := v], sm_head := (sm_head s + 1) mod sm_capacity s\<rparr>)"

definition sm_is_empty :: "Samples \<Rightarrow> bool" where
  "sm_is_empty s \<longleftrightarrow> sm_len s = 0"

definition sm_last :: "Samples \<Rightarrow> u64 option" where
  "sm_last s =
    (if sm_is_empty s then None
     else
       let idx = if sm_len s < sm_capacity s then sm_len s - 1
                 else (sm_head s + sm_capacity s - 1) mod sm_capacity s
       in Some (sm_buf s ! idx))"

definition sm_iter :: "Samples \<Rightarrow> u64 list" where
  "sm_iter s = map (\<lambda>i. sm_buf s ! (if sm_len s < sm_capacity s then i else (sm_head s + i) mod sm_capacity s)) [0..<sm_len s]"

definition u64_saturating_add :: "u64 \<Rightarrow> u64 \<Rightarrow> u64" where
  "u64_saturating_add a b = (if unat a + unat b < 2 ^ 64 then a + b else - 1)"

definition u64_saturating_sub :: "u64 \<Rightarrow> u64 \<Rightarrow> u64" where
  "u64_saturating_sub a b = (if b \<le> a then a - b else 0)"

definition sm_mean :: "Samples \<Rightarrow> u64 option" where
  "sm_mean s =
    (if sm_is_empty s then None
     else Some (foldl u64_saturating_add 0 (sm_iter s) div of_nat (sm_len s)))"

definition sm_min :: "Samples \<Rightarrow> u64 option" where
  "sm_min s = (case sm_iter s of [] \<Rightarrow> None | x # xs \<Rightarrow> Some (fold min xs x))"

definition sm_max :: "Samples \<Rightarrow> u64 option" where
  "sm_max s = (case sm_iter s of [] \<Rightarrow> None | x # xs \<Rightarrow> Some (fold max xs x))"

text \<open>\<open>div_ceil\<close> and \<open>clamp(1, n)\<close>.\<close>

definition div_ceil :: "nat \<Rightarrow> nat \<Rightarrow> nat" where
  "div_ceil a b = (a + b - 1) div b"

definition sm_percentile :: "u8 \<Rightarrow> Samples \<Rightarrow> u64 option" where
  "sm_percentile p s =
    (if sm_is_empty s then None
     else
       let p = min (unat p) 100;
           sorted = sort (sm_iter s);
           rank = min (max (div_ceil (p * length sorted) 100) 1) (length sorted)
       in Some (sorted ! (rank - 1)))"

section \<open>Clock synchronisation\<close>

record ClockSync =
  cs_pending :: "(u32 \<times> u64) list"
  cs_rtt :: Samples
  cs_offset :: "int option"
  cs_offset_rtt :: "u64 option"
  cs_applied_sent_us :: "u64 option"

definition ClockSync_new :: "nat \<Rightarrow> ClockSync" where
  "ClockSync_new window = \<lparr>cs_pending = [], cs_rtt = Samples_new window, cs_offset = None, cs_offset_rtt = None,
     cs_applied_sent_us = None\<rparr>"

definition on_ping_sent :: "u32 \<Rightarrow> u64 \<Rightarrow> ClockSync \<Rightarrow> ClockSync" where
  "on_ping_sent seq sent_us c = c\<lparr>cs_pending := AList.update seq sent_us (cs_pending c)\<rparr>"

definition clamp_i64 :: "int \<Rightarrow> int" where
  "clamp_i64 v = max (- (2 ^ 63)) (min v (2 ^ 63 - 1))"

definition midpoint_offset :: "u64 \<Rightarrow> u64 \<Rightarrow> u64 \<Rightarrow> int" where
  "midpoint_offset sent_us agent_us rtt =
     clamp_i64 (uint agent_us - uint (u64_saturating_add sent_us (rtt div 2)))"

definition on_pong :: "u32 \<Rightarrow> u64 \<Rightarrow> u64 \<Rightarrow> ClockSync \<Rightarrow> u64 option \<times> ClockSync" where
  "on_pong seq agent_us now_us c =
    (case map_of (cs_pending c) seq of
       None \<Rightarrow> (None, c)
     | Some sent_us \<Rightarrow>
         (let rtt = u64_saturating_sub now_us sent_us;
              c1 = c\<lparr>cs_pending := AList.delete seq (cs_pending c), cs_rtt := sm_push rtt (cs_rtt c)\<rparr> in
          (Some rtt,
           if (case cs_applied_sent_us c1 of None \<Rightarrow> True | Some applied \<Rightarrow> applied \<le> sent_us)
           then c1\<lparr>cs_offset := Some (midpoint_offset sent_us agent_us rtt), cs_offset_rtt := Some rtt,
                   cs_applied_sent_us := Some sent_us\<rparr>
           else c1)))"

definition offset_error_bound_us :: "ClockSync \<Rightarrow> u64 option" where
  "offset_error_bound_us c = map_option (\<lambda>r. r div 2) (cs_offset_rtt c)"

definition agent_to_client :: "u64 \<Rightarrow> int \<Rightarrow> u64" where
  "agent_to_client agent_us offset_us =
    (if 0 \<le> offset_us then u64_saturating_sub agent_us (of_int \<bar>offset_us\<bar>)
     else u64_saturating_add agent_us (of_int \<bar>offset_us\<bar>))"

definition ClockSync_agent_to_client :: "u64 \<Rightarrow> ClockSync \<Rightarrow> u64 option" where
  "ClockSync_agent_to_client agent_us c = map_option (agent_to_client agent_us) (cs_offset c)"

section \<open>The ring buffer holds the last samples\<close>

definition push_all :: "u64 list \<Rightarrow> Samples \<Rightarrow> Samples" where
  "push_all xs s = fold sm_push xs s"

definition lastn :: "nat \<Rightarrow> 'a list \<Rightarrow> 'a list" where
  "lastn n xs = drop (length xs - n) xs"

definition ring_of :: "Samples \<Rightarrow> u64 list \<Rightarrow> bool" where
  "ring_of s ws \<longleftrightarrow> 1 \<le> sm_capacity s \<and> sm_len s = length ws \<and> length ws \<le> sm_capacity s \<and> sm_head s < sm_capacity s \<and>
     (if sm_len s < sm_capacity s then sm_head s = 0 \<and> sm_buf s = ws
      else length (sm_buf s) = sm_capacity s \<and> ws = drop (sm_head s) (sm_buf s) @ take (sm_head s) (sm_buf s))"

lemma ring_iter: "ring_of s ws \<Longrightarrow> sm_iter s = ws"
proof (cases "sm_len s < sm_capacity s")
  case True
  assume "ring_of s ws"
  with True show ?thesis by (simp add: ring_of_def sm_iter_def map_nth)
next
  case False
  assume r: "ring_of s ws"
  let ?h = "sm_head s" and ?n = "sm_capacity s"
  from r False have facts: "length (sm_buf s) = ?n" "sm_len s = ?n" "?h < ?n"
    and ws: "ws = drop ?h (sm_buf s) @ take ?h (sm_buf s)"
    by (auto simp: ring_of_def)
  show ?thesis
  proof (rule nth_equalityI)
    show len: "length (sm_iter s) = length ws" using r by (simp add: sm_iter_def ring_of_def)
    fix i
    assume "i < length (sm_iter s)"
    then have i: "i < ?n" using len ws facts by simp
    then show "sm_iter s ! i = ws ! i"
      using facts False nth_rotate [of i "sm_buf s" ?h] by (simp add: sm_iter_def ws rotate_drop_take)
  qed
qed

lemma ring_push:
  assumes "ring_of s ws"
  shows "ring_of (sm_push v s) (lastn (sm_capacity s) (ws @ [v]))" and "sm_capacity (sm_push v s) = sm_capacity s"
proof -
  show "sm_capacity (sm_push v s) = sm_capacity s" by (simp add: sm_push_def)
  show "ring_of (sm_push v s) (lastn (sm_capacity s) (ws @ [v]))"
  proof (cases "sm_len s < sm_capacity s")
    case True
    with assms show ?thesis by (auto simp: ring_of_def sm_push_def lastn_def)
  next
    case False
    let ?h = "sm_head s" and ?n = "sm_capacity s" and ?b = "sm_buf s"
    from assms False have facts: "length ?b = ?n" "sm_len s = ?n" "?h < ?n" "length ws = ?n" "1 \<le> ?n"
      and ws: "ws = drop ?h ?b @ take ?h ?b"
      by (auto simp: ring_of_def)
    have "lastn ?n (ws @ [v]) = tl ws @ [v]" using facts by (cases ws) (simp_all add: lastn_def)
    also have "tl ws = drop (Suc ?h) ?b @ take ?h ?b"
      unfolding ws using Cons_nth_drop_Suc [of ?h ?b] facts by (simp only: flip: Cons_nth_drop_Suc) simp
    also have "(drop (Suc ?h) ?b @ take ?h ?b) @ [v] = drop ((?h + 1) mod ?n) (?b[?h := v]) @ take ((?h + 1) mod ?n) (?b[?h := v])"
    proof (cases "?h + 1 = ?n")
      case True
      with facts show ?thesis by (simp add: list_update_append upd_conv_take_nth_drop)
    next
      case False
      with facts have "(?h + 1) mod ?n = ?h + 1" by simp
      with facts False show ?thesis by (simp add: upd_conv_take_nth_drop)
    qed
    finally show ?thesis using facts False by (simp add: ring_of_def sm_push_def)
  qed
qed

lemma lastn_lastn: "lastn n (lastn n xs @ ys) = lastn n (xs @ ys)"
  by (cases "length xs \<le> n") (simp_all add: lastn_def, cases "n \<le> length ys", simp_all add: add.commute)

lemma ring_push_all:
  assumes "ring_of s ws"
  shows "ring_of (push_all xs s) (lastn (sm_capacity s) (ws @ xs)) \<and> sm_capacity (push_all xs s) = sm_capacity s"
  using assms
proof (induction xs arbitrary: s ws)
  case Nil
  then have "length ws \<le> sm_capacity s" by (simp add: ring_of_def)
  with Nil show ?case by (simp add: push_all_def lastn_def)
next
  case (Cons v xs)
  from Cons.IH [OF ring_push(1) [OF Cons.prems, of v]] ring_push(2) [OF Cons.prems, of v] show ?case
    by (simp add: push_all_def lastn_lastn)
qed

lemma ring_new: "ring_of (Samples_new c) []"
  by (simp add: ring_of_def Samples_new_def)

lemma ring_of_pushes: "ring_of (push_all xs (Samples_new c)) (lastn (max c 1) xs)"
  using ring_push_all [OF ring_new, of xs c] by (simp add: Samples_new_def)

lemma ring_last:
  assumes "ring_of s ws"
  shows "sm_last s = (if ws = [] then None else Some (last ws))"
proof (cases "sm_len s < sm_capacity s")
  case True
  with assms show ?thesis by (auto simp: ring_of_def sm_last_def sm_is_empty_def last_conv_nth)
next
  case False
  let ?h = "sm_head s" and ?n = "sm_capacity s"
  from assms False have facts: "length (sm_buf s) = ?n" "?h < ?n" "sm_len s = ?n" "1 \<le> ?n"
    and ws: "ws = drop ?h (sm_buf s) @ take ?h (sm_buf s)"
    by (auto simp: ring_of_def)
  have "last ws = sm_buf s ! ((?h + ?n - 1) mod ?n)"
  proof (cases "?h = 0")
    case True
    moreover from facts have "sm_buf s \<noteq> []" by auto
    ultimately show ?thesis using facts by (simp add: ws last_conv_nth)
  next
    case h: False
    then have "(?h + ?n - 1) mod ?n = ?h - 1" using facts by (simp add: mod_if)
    moreover have "last ws = sm_buf s ! (?h - 1)" 
    proof -
      have ne: "take ?h (sm_buf s) \<noteq> []" using h facts by auto
      then have "last ws = last (take ?h (sm_buf s))" unfolding ws by (simp add: last_append)
      also have "\<dots> = sm_buf s ! (?h - 1)" using last_conv_nth [OF ne] h facts by simp
      finally show ?thesis .
    qed
    ultimately show ?thesis by simp
  qed
  with facts False show ?thesis by (auto simp: sm_last_def sm_is_empty_def ws)
qed

section \<open>Order statistics\<close>

lemma fold_min_Min: "fold min xs x = Min (set (x # xs))" for x :: "'a::linorder"
  by (metis Min.set_eq_fold)

lemma fold_max_Max: "fold max xs x = Max (set (x # xs))" for x :: "'a::linorder"
  by (metis Max.set_eq_fold)

lemma sorted_count_le: "sorted ys \<Longrightarrow> k < length ys \<Longrightarrow> Suc k \<le> length (filter (\<lambda>x. x \<le> ys ! k) ys)"
  for ys :: "'a::linorder list"
proof -
  assume s: "sorted ys" and k: "k < length ys"
  have "filter (\<lambda>x. x \<le> ys ! k) (take (Suc k) ys) = take (Suc k) ys"
    using s k by (auto simp: filter_id_conv in_set_conv_nth sorted_nth_mono)
  moreover have "filter (\<lambda>x. x \<le> ys ! k) ys =
      filter (\<lambda>x. x \<le> ys ! k) (take (Suc k) ys) @ filter (\<lambda>x. x \<le> ys ! k) (drop (Suc k) ys)"
    by (metis append_take_drop_id filter_append)
  ultimately show ?thesis using k by simp
qed

lemma sorted_count_less: "sorted ys \<Longrightarrow> k < length ys \<Longrightarrow> u < ys ! k \<Longrightarrow> length (filter (\<lambda>x. x \<le> u) ys) \<le> k"
  for ys :: "'a::linorder list"
proof -
  assume s: "sorted ys" and k: "k < length ys" and u: "u < ys ! k"
  have "u < x" if "x \<in> set (drop k ys)" for x
  proof -
    from that obtain j where "x = ys ! (k + j)" "k + j < length ys" by (auto simp: in_set_conv_nth)
    with s u show ?thesis using sorted_nth_mono [OF s, of k "k + j"] by auto
  qed
  then have "filter (\<lambda>x. x \<le> u) (drop k ys) = []" by (auto simp: filter_empty_conv not_le)
  moreover have "filter (\<lambda>x. x \<le> u) ys = filter (\<lambda>x. x \<le> u) (take k ys) @ filter (\<lambda>x. x \<le> u) (drop k ys)"
    by (metis append_take_drop_id filter_append)
  ultimately show ?thesis using length_filter_le [of "\<lambda>x. x \<le> u" "take k ys"] k by simp
qed

lemma div_ceil_bounds: "a \<le> 100 * div_ceil a 100" "100 * div_ceil a 100 < a + 100"
proof -
  have "(a + 99) div 100 * 100 + (a + 99) mod 100 = a + 99" "(a + 99) mod 100 < 100" by simp_all
  then show "a \<le> 100 * div_ceil a 100" "100 * div_ceil a 100 < a + 100"
    unfolding div_ceil_def by simp_all
qed

lemma nearest_rank:
  fixes p n :: nat
  assumes "p \<le> 100" "0 < n"
  defines "r \<equiv> min (max (div_ceil (p * n) 100) 1) n"
  shows "1 \<le> r" "r \<le> n" "p * n \<le> 100 * r" "1 < r \<Longrightarrow> 100 * (r - 1) < p * n"
proof -
  let ?c = "div_ceil (p * n) 100"
  have up: "p * n \<le> 100 * ?c" and down: "100 * ?c < p * n + 100"
    by (rule div_ceil_bounds)+
  have pn: "p * n \<le> 100 * n" using assms(1) by simp
  show "1 \<le> r" "r \<le> n" using assms(2) by (auto simp: r_def)
  show "p * n \<le> 100 * r" using up pn by (simp add: r_def min_def max_def)
  show "100 * (r - 1) < p * n" if "1 < r"
  proof -
    from that have "r \<le> ?c" "1 < ?c" unfolding r_def by linarith+
    then have "100 * (r - 1) + 100 \<le> 100 * ?c" using that by simp
    with down show ?thesis by linarith
  qed
qed

section \<open>Which exchange the clock estimate comes from\<close>

datatype clock_op = PingSent u32 u64 | PongReceived u32 u64 u64

text \<open>An answered ping: when it was sent, the agent's clock in the answer, when that arrived.\<close>

type_synonym exchange = "u64 \<times> u64 \<times> u64"

fun clock_exec :: "clock_op \<Rightarrow> ClockSync \<Rightarrow> ClockSync" where
  "clock_exec (PingSent seq t) c = on_ping_sent seq t c"
| "clock_exec (PongReceived seq agent now) c = snd (on_pong seq agent now c)"

definition clock_run :: "clock_op list \<Rightarrow> ClockSync \<Rightarrow> ClockSync" where
  "clock_run ops c = fold clock_exec ops c"

text \<open>The exchanges of a session, from the outstanding pings.\<close>

fun exchanges :: "(u32 \<rightharpoonup> u64) \<Rightarrow> clock_op list \<Rightarrow> exchange list" where
  "exchanges out [] = []"
| "exchanges out (PingSent seq t # ops) = exchanges (out(seq \<mapsto> t)) ops"
| "exchanges out (PongReceived seq agent now # ops) =
    (case out seq of
       None \<Rightarrow> exchanges out ops
     | Some t \<Rightarrow> (t, agent, now) # exchanges (out(seq := None)) ops)"

definition rtt_of :: "exchange \<Rightarrow> u64" where
  "rtt_of e = (case e of (sent, agent, now) \<Rightarrow> u64_saturating_sub now sent)"

text \<open>The exchange with the latest send time, the last of them if there are several.\<close>

fun newer :: "exchange option \<Rightarrow> exchange \<Rightarrow> exchange option" where
  "newer None e = Some e"
| "newer (Some b) e = (if fst b \<le> fst e then Some e else Some b)"

definition newest :: "exchange list \<Rightarrow> exchange option" where
  "newest es = foldl newer None es"

definition estimates :: "ClockSync \<Rightarrow> exchange option \<Rightarrow> bool" where
  "estimates c best \<longleftrightarrow> cs_applied_sent_us c = map_option fst best \<and> cs_offset_rtt c = map_option rtt_of best \<and>
     cs_offset c = map_option (\<lambda>(sent, agent, now). midpoint_offset sent agent (u64_saturating_sub now sent)) best"

lemma clock_run_estimates:
  assumes "estimates c best"
  shows "estimates (fold clock_exec ops c) (foldl newer best (exchanges (map_of (cs_pending c)) ops)) \<and>
    cs_rtt (fold clock_exec ops c) = push_all (map rtt_of (exchanges (map_of (cs_pending c)) ops)) (cs_rtt c)"
  using assms
proof (induction ops arbitrary: c best)
  case Nil
  then show ?case by (simp add: push_all_def)
next
  case (Cons op ops)
  show ?case
  proof (cases op)
    case (PingSent seq t)
    have est: "estimates (on_ping_sent seq t c) best" using Cons.prems by (simp add: estimates_def on_ping_sent_def)
    have keep: "map_of (cs_pending (on_ping_sent seq t c)) = (map_of (cs_pending c))(seq \<mapsto> t)"
      "cs_rtt (on_ping_sent seq t c) = cs_rtt c"
      by (simp_all add: on_ping_sent_def AList.update_conv')
    from Cons.IH [OF est] PingSent show ?thesis by (simp only: keep fold.simps comp_apply clock_exec.simps exchanges.simps)
  next
    case (PongReceived seq agent now)
    show ?thesis
    proof (cases "map_of (cs_pending c) seq")
      case None
      with PongReceived Cons.IH [OF Cons.prems] show ?thesis by (simp add: on_pong_def)
    next
      case (Some t)
      let ?c = "snd (on_pong seq agent now c)"
      have pend: "map_of (cs_pending ?c) = (map_of (cs_pending c))(seq := None)"
        using Some by (simp add: on_pong_def Let_def AList.delete_conv')
      have rtt: "cs_rtt ?c = sm_push (rtt_of (t, agent, now)) (cs_rtt c)"
        using Some by (simp add: on_pong_def Let_def rtt_of_def)
      have "estimates ?c (newer best (t, agent, now))"
        using Cons.prems Some by (cases best) (auto simp: estimates_def on_pong_def Let_def rtt_of_def)
      from Cons.IH [OF this] PongReceived Some show ?thesis
        by (simp only: pend rtt push_all_def fold.simps comp_apply clock_exec.simps exchanges.simps option.case
            foldl.simps list.map)
    qed
  qed
qed

lemma newest_snoc: "newest (es @ [e]) = newer (newest es) e"
  by (simp add: newest_def)

lemma newest_Nil: "newest es = None \<longleftrightarrow> es = []"
proof (cases es rule: rev_cases)
  case (snoc fs e)
  have "newer b e \<noteq> None" for b by (cases b) (simp_all del: not_None_eq)
  with snoc show ?thesis by (simp add: newest_snoc)
qed (simp add: newest_def)

lemma newest_max: "newest es = Some e \<Longrightarrow> e \<in> set es \<and> (\<forall>f \<in> set es. fst f \<le> fst e)"
proof (induction es arbitrary: e rule: rev_induct)
  case (snoc x es)
  show ?case
  proof (cases "newest es")
    case None
    then have "es = []" by (simp add: newest_Nil)
    with snoc.prems show ?thesis by (simp add: newest_def)
  next
    case (Some b)
    note b = snoc.IH [OF Some]
    show ?thesis
    proof (cases "fst b \<le> fst x")
      case True
      with snoc.prems Some have "e = x" by (simp add: newest_snoc)
      with b True show ?thesis by (auto intro: order.trans)
    next
      case False
      with snoc.prems Some have "e = b" by (simp add: newest_snoc)
      with b False show ?thesis by auto
    qed
  qed
qed (simp add: newest_def)

section \<open>How far off the estimate can be\<close>

lemma u64_add_int: "unat a + unat b < 2 ^ 64 \<Longrightarrow> uint (u64_saturating_add a b) = uint a + uint b"
  using unat_add_lem [of a b] by (simp add: u64_saturating_add_def uint_nat del: of_nat_unat)

lemma u64_sub_int: "b \<le> a \<Longrightarrow> uint (u64_saturating_sub a b) = uint a - uint b"
  by (simp add: u64_saturating_sub_def word_le_nat_alt of_nat_diff unat_sub uint_nat del: of_nat_unat)

lemma u64_half: "uint (r div 2 :: u64) = uint r div 2"
  by (simp add: uint_div)

section \<open>Properties\<close>

text \<open>
  The ring buffer is the list of the last samples. After any pushes into a window of any
  capacity, iterating gives exactly the most recent ones in order of arrival, the length is bounded
  by the capacity, and the most recent, smallest and largest sample are those of that list.
\<close>

theorem samples_are_the_last:
  "let s = push_all xs (Samples_new c); ws = lastn (max c 1) xs in
   sm_iter s = ws \<and> sm_len s = min (length xs) (max c 1) \<and>
   sm_last s = (if xs = [] then None else Some (last xs)) \<and>
   sm_min s = (if xs = [] then None else Some (Min (set ws))) \<and>
   sm_max s = (if xs = [] then None else Some (Max (set ws)))"
proof -
  let ?s = "push_all xs (Samples_new c)" and ?ws = "lastn (max c 1) xs"
  note ring = ring_of_pushes [of xs c]
  have empty: "?ws = [] \<longleftrightarrow> xs = []" by (cases xs) (simp_all add: lastn_def)
  have "last ?ws = last xs" if "xs \<noteq> []" using that by (simp add: lastn_def)
  then have "sm_last ?s = (if xs = [] then None else Some (last xs))"
    using ring_last [OF ring] empty by simp
  moreover have "sm_len ?s = min (length xs) (max c 1)"
    using ring by (simp add: ring_of_def lastn_def)
  moreover have "sm_min ?s = (if xs = [] then None else Some (Min (set ?ws)))"
    unfolding sm_min_def ring_iter [OF ring] using empty by (cases ?ws) (simp_all add: fold_min_Min)
  moreover have "sm_max ?s = (if xs = [] then None else Some (Max (set ?ws)))"
    unfolding sm_max_def ring_iter [OF ring] using empty by (cases ?ws) (simp_all add: fold_max_Max)
  ultimately show ?thesis using ring_iter [OF ring] by (simp only: Let_def)
qed

text \<open>
  \<open>percentile\<close> is the nearest rank: for a percentage of at most 100 over a non-empty window it
  returns a sample such that at least that share of the samples are not larger, and no smaller
  sample has this property.
\<close>

theorem percentile_nearest_rank:
  assumes "xs \<noteq> []" and "unat p \<le> 100"
  shows "let s = push_all xs (Samples_new c); ws = lastn (max c 1) xs in
    \<exists>v \<in> set ws. sm_percentile p s = Some v \<and>
      unat p * length ws \<le> 100 * length (filter (\<lambda>x. x \<le> v) ws) \<and>
      (\<forall>u \<in> set ws. u < v \<longrightarrow> 100 * length (filter (\<lambda>x. x \<le> u) ws) < unat p * length ws)"
proof -
  let ?s = "push_all xs (Samples_new c)" and ?ws = "lastn (max c 1) xs"
  let ?ys = "sort ?ws" and ?n = "length ?ws"
  note ring = ring_of_pushes [of xs c]
  have n: "0 < ?n" using assms(1) by (simp add: lastn_def)
  define r where "r = min (max (div_ceil (unat p * ?n) 100) 1) ?n"
  note rank = nearest_rank [OF assms(2) n, folded r_def]
  have k: "r - 1 < length ?ys" using rank(1,2) by simp
  let ?v = "?ys ! (r - 1)"
  have count: "length (filter Q ?ys) = length (filter Q ?ws)" for Q
    by (simp add: filter_sort)
  have len: "sm_len ?s = ?n" using ring unfolding ring_of_def by (elim conjE)
  have "sm_percentile p ?s = Some ?v"
    using n assms(2) unfolding sm_percentile_def sm_is_empty_def len ring_iter [OF ring] r_def by simp
  moreover have "?v \<in> set ?ws" using nth_mem [OF k] by simp
  moreover have "unat p * ?n \<le> 100 * length (filter (\<lambda>x. x \<le> ?v) ?ws)"
  proof -
    have "r \<le> length (filter (\<lambda>x. x \<le> ?v) ?ws)"
      using sorted_count_le [OF sorted_sort k] rank(1) unfolding count by linarith
    with rank(3) show ?thesis by linarith
  qed
  moreover have "100 * length (filter (\<lambda>x. x \<le> u) ?ws) < unat p * ?n" if u: "u \<in> set ?ws" "u < ?v" for u
  proof -
    have le: "length (filter (\<lambda>x. x \<le> u) ?ws) \<le> r - 1"
      using sorted_count_less [OF sorted_sort k u(2)] unfolding count .
    moreover have "0 < length (filter (\<lambda>x. x \<le> u) ?ws)" using u(1) by (auto simp: filter_empty_conv)
    ultimately have "1 < r" by linarith
    from rank(4) [OF this] le show ?thesis by linarith
  qed
  ultimately show ?thesis by (simp only: Let_def) blast
qed

theorem percentile_nearest_rank_witness:
  "\<exists>v \<in> set [10, 30, 20]. sm_percentile 50 (push_all [40, 10, 30, 20] (Samples_new 3)) = Some v \<and>
     50 * 3 \<le> 100 * length (filter (\<lambda>x. x \<le> v) [10, 30, 20])"
proof -
  have ws: "lastn (max 3 1) [40, 10, 30, 20 :: u64] = [10, 30, 20]" by (simp add: lastn_def)
  have p: "[40, 10, 30, 20 :: u64] \<noteq> []" "unat (50 :: u8) \<le> 100" by simp_all
  have n: "unat (50 :: u8) * length [10, 30, 20 :: u64] = 50 * 3" by simp
  from percentile_nearest_rank [OF p, of 3] show ?thesis unfolding Let_def ws n by blast
qed

text \<open>
  The clock estimate. After any sequence of pings and pongs, answers to unknown, duplicate or
  reordered pings included, the offset and its round-trip time both come from one and the same
  exchange, the one whose ping was sent last among all answered so far; with no exchange there is
  no estimate. Every answered ping contributes its round-trip time to the statistics.
\<close>

theorem clock_estimate_source:
  "let c = clock_run ops (ClockSync_new n); es = exchanges Map.empty ops in
   (case newest es of
      None \<Rightarrow> es = [] \<and> cs_offset c = None \<and> offset_error_bound_us c = None
    | Some (sent, agent, now) \<Rightarrow> (sent, agent, now) \<in> set es \<and> list_all (\<lambda>e. fst e \<le> sent) es \<and>
        cs_offset c = Some (midpoint_offset sent agent (u64_saturating_sub now sent)) \<and>
        offset_error_bound_us c = Some (u64_saturating_sub now sent div 2)) \<and>
   sm_iter (cs_rtt c) = lastn (max n 1) (map rtt_of es)"
proof -
  let ?c = "clock_run ops (ClockSync_new n)" and ?es = "exchanges Map.empty ops"
  have "estimates (ClockSync_new n) None" by (simp add: estimates_def ClockSync_new_def)
  from clock_run_estimates [OF this, of ops] have est: "estimates ?c (newest ?es)"
    and rtt: "cs_rtt ?c = push_all (map rtt_of ?es) (Samples_new n)"
    by (simp_all add: clock_run_def newest_def ClockSync_new_def)
  have iter: "sm_iter (cs_rtt ?c) = lastn (max n 1) (map rtt_of ?es)"
    unfolding rtt by (rule ring_iter [OF ring_of_pushes])
  show ?thesis
  proof (cases "newest ?es")
    case None
    moreover from None have "?es = []" by (simp only: newest_Nil)
    ultimately show ?thesis using est iter by (simp add: Let_def estimates_def offset_error_bound_us_def)
  next
    case (Some e)
    obtain sent agent now where e: "e = (sent, agent, now)" by (cases e)
    have "e \<in> set ?es \<and> list_all (\<lambda>f. fst f \<le> fst e) ?es"
      using newest_max [OF Some] by (simp add: list_all_iff)
    with Some est iter show ?thesis
      by (simp add: e Let_def estimates_def offset_error_bound_us_def rtt_of_def)
  qed
qed



end
