(* ===== verification/Client_Model.thy ===== *)
theory Client_Model
  imports Messages
begin

text \<open>
  The client's model of the remote windows (\<open>oxclient/src/model.rs\<close>): protocol events in, instructions
  for the display backend out. The windows are a hash map from ids, the stacking order a list from
  bottom to top.
\<close>

section \<open>Events and changes\<close>

datatype ClientEvent =
    EvWindowOpened WindowOpened
  | EvWindowGeometry WindowGeometry
  | EvWindowTitle WindowTitle
  | EvWindowState WindowState
  | EvWindowZOrder WindowZOrder
  | EvWindowIcon WindowIcon
  | EvWindowClosed WindowClosed
  | EvFrame FrameData
  | EvCursorShape CursorShape
  | EvCursorPosition CursorPosition
  | EvCursorVisibility CursorVisibility
  | EvError Error
  | EvClosed Close

datatype ModelChange =
    Created u32
  | Destroyed u32
  | Moved u32
  | Retitled u32
  | StateChanged u32
  | IconChanged u32
  | Restacked
  | ChFrame FrameData
  | ChCursorShape CursorShape
  | CursorMoved u32 i32 i32
  | ChCursorVisibility bool
  | AgentError u16 rust_string
  | ChClosed

definition FLAG_RESIZABLE :: u32 where "FLAG_RESIZABLE = 1"
definition FLAG_HAS_FRAME :: u32 where "FLAG_HAS_FRAME = 2"
definition FLAG_TOPMOST :: u32 where "FLAG_TOPMOST = 4"
definition FLAG_MINIMIZED :: u32 where "FLAG_MINIMIZED = 8"
definition FLAG_MAXIMIZED :: u32 where "FLAG_MAXIMIZED = 16"
definition SHOW_MINIMIZED :: u8 where "SHOW_MINIMIZED = 1"
definition SHOW_MAXIMIZED :: u8 where "SHOW_MAXIMIZED = 2"

section \<open>The model\<close>

record RemoteWindow =
  rw_window_id :: u32
  rw_video_channel :: u16
  rw_app_id :: rust_string
  rw_title :: rust_string
  rw_x :: i32
  rw_y :: i32
  rw_width :: u16
  rw_height :: u16
  rw_dpi :: u16
  rw_owner_id :: u32
  rw_minimized :: bool
  rw_maximized :: bool
  rw_resizable :: bool
  rw_has_frame :: bool
  rw_topmost :: bool
  rw_icon :: "WindowIcon option"

definition from_opened :: "WindowOpened \<Rightarrow> RemoteWindow" where
  "from_opened m = \<lparr>rw_window_id = wo_window_id m, rw_video_channel = wo_video_channel m, rw_app_id = wo_app_id m,
     rw_title = wo_title m, rw_x = wo_x m, rw_y = wo_y m, rw_width = wo_width m, rw_height = wo_height m,
     rw_dpi = wo_dpi m, rw_owner_id = wo_owner_id m,
     rw_minimized = (wo_flags m AND FLAG_MINIMIZED \<noteq> 0), rw_maximized = (wo_flags m AND FLAG_MAXIMIZED \<noteq> 0),
     rw_resizable = (wo_flags m AND FLAG_RESIZABLE \<noteq> 0), rw_has_frame = (wo_flags m AND FLAG_HAS_FRAME \<noteq> 0),
     rw_topmost = (wo_flags m AND FLAG_TOPMOST \<noteq> 0), rw_icon = None\<rparr>"

record WindowModel =
  md_windows :: "(u32 \<times> RemoteWindow) list"
  md_stack :: "u32 list"
  md_cursor_visible :: bool

definition WindowModel_new :: WindowModel where
  "WindowModel_new = \<lparr>md_windows = [], md_stack = [], md_cursor_visible = True\<rparr>"

definition md_get :: "WindowModel \<Rightarrow> u32 \<Rightarrow> RemoteWindow option" where
  "md_get d i = map_of (md_windows d) i"

definition md_len :: "WindowModel \<Rightarrow> nat" where
  "md_len d = length (md_windows d)"

definition on_opened :: "WindowOpened \<Rightarrow> WindowModel \<Rightarrow> ModelChange list \<times> WindowModel" where
  "on_opened m d =
    (let i = wo_window_id m in
     if map_of (md_windows d) i \<noteq> None then ([], d)
     else ([Created i],
           d\<lparr>md_windows := AList.update i (from_opened m) (md_windows d), md_stack := md_stack d @ [i]\<rparr>))"

definition on_closed :: "u32 \<Rightarrow> WindowModel \<Rightarrow> ModelChange list \<times> WindowModel" where
  "on_closed i d =
    (if map_of (md_windows d) i = None then ([], d)
     else ([Destroyed i],
           d\<lparr>md_windows := AList.delete i (md_windows d), md_stack := filter (\<lambda>s. s \<noteq> i) (md_stack d)\<rparr>))"

definition on_geometry :: "WindowGeometry \<Rightarrow> WindowModel \<Rightarrow> ModelChange list \<times> WindowModel" where
  "on_geometry m d =
    (case map_of (md_windows d) (wg_window_id m) of
       None \<Rightarrow> ([], d)
     | Some w \<Rightarrow>
         if (rw_x w, rw_y w, rw_width w, rw_height w) = (wg_x m, wg_y m, wg_width m, wg_height m) then ([], d)
         else ([Moved (wg_window_id m)],
               d\<lparr>md_windows := AList.update (wg_window_id m)
                   (w\<lparr>rw_x := wg_x m, rw_y := wg_y m, rw_width := wg_width m, rw_height := wg_height m\<rparr>) (md_windows d)\<rparr>))"

definition on_title :: "WindowTitle \<Rightarrow> WindowModel \<Rightarrow> ModelChange list \<times> WindowModel" where
  "on_title m d =
    (case map_of (md_windows d) (wt_window_id m) of
       None \<Rightarrow> ([], d)
     | Some w \<Rightarrow>
         if rw_title w = wt_title m then ([], d)
         else ([Retitled (wt_window_id m)],
               d\<lparr>md_windows := AList.update (wt_window_id m) (w\<lparr>rw_title := wt_title m\<rparr>) (md_windows d)\<rparr>))"

definition on_state :: "WindowState \<Rightarrow> WindowModel \<Rightarrow> ModelChange list \<times> WindowModel" where
  "on_state m d =
    (case map_of (md_windows d) (ws_window_id m) of
       None \<Rightarrow> ([], d)
     | Some w \<Rightarrow>
         (let minimized = (ws_state m = SHOW_MINIMIZED); maximized = (ws_state m = SHOW_MAXIMIZED) in
          if (rw_minimized w, rw_maximized w) = (minimized, maximized) then ([], d)
          else ([StateChanged (ws_window_id m)],
                d\<lparr>md_windows := AList.update (ws_window_id m)
                    (w\<lparr>rw_minimized := minimized, rw_maximized := maximized\<rparr>) (md_windows d)\<rparr>)))"

definition on_icon :: "WindowIcon \<Rightarrow> WindowModel \<Rightarrow> ModelChange list \<times> WindowModel" where
  "on_icon m d =
    (case map_of (md_windows d) (wi_window_id m) of
       None \<Rightarrow> ([], d)
     | Some w \<Rightarrow>
         ([IconChanged (wi_window_id m)],
          d\<lparr>md_windows := AList.update (wi_window_id m) (w\<lparr>rw_icon := Some m\<rparr>) (md_windows d)\<rparr>))"

text \<open>\<open>iter().position(|&s| s == x)\<close>, \<open>Vec::remove\<close> and \<open>Vec::insert\<close>.\<close>

fun position :: "'a \<Rightarrow> 'a list \<Rightarrow> nat option" where
  "position x [] = None"
| "position x (y # ys) = (if y = x then Some 0 else map_option Suc (position x ys))"

definition remove_at :: "nat \<Rightarrow> 'a list \<Rightarrow> 'a list" where
  "remove_at i xs = take i xs @ drop (Suc i) xs"

definition insert_at :: "nat \<Rightarrow> 'a \<Rightarrow> 'a list \<Rightarrow> 'a list" where
  "insert_at i x xs = take i xs @ x # drop i xs"

definition on_zorder :: "u32 \<Rightarrow> u32 \<Rightarrow> WindowModel \<Rightarrow> ModelChange list \<times> WindowModel" where
  "on_zorder window_id above_window_id d =
    (if map_of (md_windows d) window_id = None then ([], d)
     else case position window_id (md_stack d) of
       None \<Rightarrow> ([], d)
     | Some current \<Rightarrow>
         (case (if above_window_id = 0 then Some 0
                else case position above_window_id (md_stack d) of
                       Some i \<Rightarrow> Some (if current < i then i else i + 1)
                     | None \<Rightarrow> None) of
            None \<Rightarrow> ([], d)
          | Some target \<Rightarrow>
              if target = current then ([], d)
              else
                let stack = remove_at current (md_stack d) in
                ([Restacked], d\<lparr>md_stack := insert_at (min target (length stack)) window_id stack\<rparr>)))"

fun apply_event :: "ClientEvent \<Rightarrow> WindowModel \<Rightarrow> ModelChange list \<times> WindowModel" where
  "apply_event (EvWindowOpened m) d = on_opened m d"
| "apply_event (EvWindowClosed m) d = on_closed (wcl_window_id m) d"
| "apply_event (EvWindowGeometry m) d = on_geometry m d"
| "apply_event (EvWindowTitle m) d = on_title m d"
| "apply_event (EvWindowState m) d = on_state m d"
| "apply_event (EvWindowZOrder m) d = on_zorder (wz_window_id m) (wz_above_window_id m) d"
| "apply_event (EvWindowIcon m) d = on_icon m d"
| "apply_event (EvFrame f) d = ([ChFrame f], d)"
| "apply_event (EvCursorShape c) d = ([ChCursorShape c], d)"
| "apply_event (EvCursorPosition p) d = ([CursorMoved (cp_window_id p) (cp_x p) (cp_y p)], d)"
| "apply_event (EvCursorVisibility v) d = ([ChCursorVisibility (cv_visible v)], d\<lparr>md_cursor_visible := cv_visible v\<rparr>)"
| "apply_event (EvError e) d = ([AgentError (er_code e) (er_message e)], d)"
| "apply_event (EvClosed c) d = ([ChClosed], d)"

section \<open>Lists by position\<close>

lemma position_None: "position x xs = None \<longleftrightarrow> x \<notin> set xs"
  by (induction xs) auto

lemma position_split: "distinct (l @ x # r) \<Longrightarrow> position x (l @ x # r) = Some (length l)"
  by (induction l) auto

lemma position_Some: "position x xs = Some i \<Longrightarrow> \<exists>l r. xs = l @ x # r \<and> length l = i \<and> x \<notin> set l"
proof (induction xs arbitrary: i)
  case (Cons y ys)
  show ?case
  proof (cases "y = x")
    case True
    with Cons.prems show ?thesis by (intro exI [of _ "[]"] exI [of _ ys]) auto
  next
    case False
    with Cons.prems obtain j where "position x ys = Some j" "i = Suc j" by auto
    with Cons.IH [of j] obtain l r where "ys = l @ x # r" "length l = j" "x \<notin> set l" by blast
    with False \<open>i = Suc j\<close> show ?thesis by (intro exI [of _ "y # l"] exI [of _ r]) auto
  qed
qed simp

lemma mset_remove_insert:
  "i < length xs \<Longrightarrow> xs ! i = x \<Longrightarrow> j \<le> length xs - 1 \<Longrightarrow>
   set (insert_at j x (remove_at i xs)) = set xs \<and> (distinct xs \<longrightarrow> distinct (insert_at j x (remove_at i xs)))"
proof -
  assume i: "i < length xs" "xs ! i = x" and "j \<le> length xs - 1"
  let ?ys = "remove_at i xs"
  have xs: "xs = take i xs @ x # drop (Suc i) xs" using id_take_nth_drop [OF i(1)] i(2) by simp
  have parts: "set (take j ?ys) \<union> set (drop j ?ys) = set ?ys" by (metis append_take_drop_id set_append)
  have "set xs = insert x (set ?ys)" by (subst xs) (auto simp: remove_at_def)
  moreover have "set (insert_at j x ?ys) = insert x (set ?ys)" using parts by (auto simp: insert_at_def)
  moreover have "distinct (insert_at j x ?ys)" if "distinct xs"
  proof -
    from that xs have "distinct (take i xs @ x # drop (Suc i) xs)" by metis
    then have d: "distinct ?ys" "x \<notin> set ?ys" by (auto simp: remove_at_def)
    from d(1) have "distinct (take j ?ys @ drop j ?ys)" by simp
    with d(2) parts show ?thesis unfolding insert_at_def by (auto simp del: append_take_drop_id)
  qed
  ultimately show ?thesis by simp
qed

section \<open>Invariant\<close>

definition md_inv :: "WindowModel \<Rightarrow> bool" where
  "md_inv d \<longleftrightarrow> hm_ok (md_windows d) \<and> distinct (md_stack d) \<and> set (md_stack d) = dom (map_of (md_windows d)) \<and>
     (\<forall>i w. map_of (md_windows d) i = Some w \<longrightarrow> rw_window_id w = i)"

lemma md_inv_new: "md_inv WindowModel_new"
  by (simp add: md_inv_def WindowModel_new_def hm_ok_def)

lemma md_inv_update:
  assumes "md_inv d" and "map_of (md_windows d) i = Some w" and "rw_window_id w' = i"
  shows "md_inv (d\<lparr>md_windows := AList.update i w' (md_windows d)\<rparr>)"
  using assms hm.invar_ins [of "md_windows d" i w']
  by (auto simp: md_inv_def map_of_update dom_def split: if_splits)

lemma md_inv_own_id: "md_inv d \<Longrightarrow> map_of (md_windows d) i = Some w \<Longrightarrow> rw_window_id w = i"
  by (simp add: md_inv_def)

lemma md_inv_opened: "md_inv d \<Longrightarrow> md_inv (snd (on_opened m d))"
  using hm.invar_ins [of "md_windows d" "wo_window_id m" "from_opened m"]
  by (auto simp: md_inv_def on_opened_def Let_def map_of_update from_opened_def dom_def split: if_splits)

lemma md_inv_closed: "md_inv d \<Longrightarrow> md_inv (snd (on_closed i d))"
  using hm.invar_del [of "md_windows d" i]
  by (auto simp: md_inv_def on_closed_def map_of_delete dom_def split: if_splits)

text \<open>Where the window goes, if it moves at all.\<close>

definition zorder_target :: "u32 \<Rightarrow> nat \<Rightarrow> u32 list \<Rightarrow> nat option" where
  "zorder_target above_window_id current stack =
    (if above_window_id = 0 then Some 0
     else map_option (\<lambda>k. if current < k then k else k + 1) (position above_window_id stack))"

lemma on_zorder_eq:
  "on_zorder i ref d =
    (case map_of (md_windows d) i of
       None \<Rightarrow> ([], d)
     | Some _ \<Rightarrow>
        (case position i (md_stack d) of
           None \<Rightarrow> ([], d)
         | Some current \<Rightarrow>
            (case zorder_target ref current (md_stack d) of
               None \<Rightarrow> ([], d)
             | Some target \<Rightarrow>
                if target = current then ([], d)
                else ([Restacked], d\<lparr>md_stack :=
                  insert_at (min target (length (md_stack d) - 1)) i (remove_at current (md_stack d))\<rparr>))))"
proof -
  have len: "length (remove_at c (md_stack d)) = length (md_stack d) - 1" if "position i (md_stack d) = Some c" for c
    using position_Some [OF that] by (auto simp: remove_at_def)
  show ?thesis
    by (cases "map_of (md_windows d) i"; cases "position i (md_stack d)"; cases "position ref (md_stack d)")
      (simp_all add: on_zorder_def zorder_target_def Let_def len)
qed

lemma position_nth: "position x xs = Some i \<Longrightarrow> i < length xs \<and> xs ! i = x"
  using position_Some [of x xs i] by auto

lemma md_inv_zorder:
  assumes "md_inv d"
  shows "md_inv (snd (on_zorder i ref d))"
proof -
  have "md_inv (d\<lparr>md_stack := insert_at (min target (length (md_stack d) - 1)) i (remove_at current (md_stack d))\<rparr>)"
    if "position i (md_stack d) = Some current" for current target
    using assms mset_remove_insert [of current "md_stack d" i "min target (length (md_stack d) - 1)"] position_nth [OF that]
    by (simp add: md_inv_def)
  with assms show ?thesis unfolding on_zorder_eq by (simp split: option.splits)
qed

lemma md_inv_apply: "md_inv d \<Longrightarrow> md_inv (snd (apply_event e d))"
proof (cases e)
  case (EvWindowGeometry m)
  assume "md_inv d"
  then show ?thesis unfolding EvWindowGeometry apply_event.simps on_geometry_def
    by (auto split: option.splits intro!: md_inv_update simp: md_inv_own_id)
next
  case (EvWindowTitle m)
  assume "md_inv d"
  then show ?thesis unfolding EvWindowTitle apply_event.simps on_title_def
    by (auto split: option.splits intro!: md_inv_update simp: md_inv_own_id)
next
  case (EvWindowState m)
  assume "md_inv d"
  then show ?thesis unfolding EvWindowState apply_event.simps on_state_def Let_def
    by (auto split: option.splits intro!: md_inv_update simp: md_inv_own_id)
next
  case (EvWindowIcon m)
  assume "md_inv d"
  then show ?thesis unfolding EvWindowIcon apply_event.simps on_icon_def
    by (auto split: option.splits intro!: md_inv_update simp: md_inv_own_id)
next
  case (EvCursorVisibility v)
  assume "md_inv d"
  then show ?thesis unfolding EvCursorVisibility by (simp add: md_inv_def)
qed (simp_all add: md_inv_opened md_inv_closed md_inv_zorder)

section \<open>The backend\<close>

text \<open>
  A display backend that executes the changes and looks nothing else up: it keeps its own copy of
  each window and of the stacking order and, for a change, copies only the aspect the change names.
\<close>

record backend =
  bk_windows :: "u32 \<rightharpoonup> RemoteWindow"
  bk_stack :: "u32 list"
  bk_cursor :: bool

fun execute :: "WindowModel \<Rightarrow> ModelChange \<Rightarrow> backend \<Rightarrow> backend" where
  "execute d (Created i) b = b\<lparr>bk_windows := (bk_windows b)(i := md_get d i), bk_stack := bk_stack b @ [i]\<rparr>"
| "execute d (Destroyed i) b =
    b\<lparr>bk_windows := (bk_windows b)(i := None), bk_stack := filter (\<lambda>s. s \<noteq> i) (bk_stack b)\<rparr>"
| "execute d (Moved i) b = b\<lparr>bk_windows := (bk_windows b)(i :=
    (case (bk_windows b i, md_get d i) of
       (Some v, Some w) \<Rightarrow> Some (v\<lparr>rw_x := rw_x w, rw_y := rw_y w, rw_width := rw_width w, rw_height := rw_height w\<rparr>)
     | _ \<Rightarrow> None))\<rparr>"
| "execute d (Retitled i) b = b\<lparr>bk_windows := (bk_windows b)(i :=
    (case (bk_windows b i, md_get d i) of (Some v, Some w) \<Rightarrow> Some (v\<lparr>rw_title := rw_title w\<rparr>) | _ \<Rightarrow> None))\<rparr>"
| "execute d (StateChanged i) b = b\<lparr>bk_windows := (bk_windows b)(i :=
    (case (bk_windows b i, md_get d i) of
       (Some v, Some w) \<Rightarrow> Some (v\<lparr>rw_minimized := rw_minimized w, rw_maximized := rw_maximized w\<rparr>)
     | _ \<Rightarrow> None))\<rparr>"
| "execute d (IconChanged i) b = b\<lparr>bk_windows := (bk_windows b)(i :=
    (case (bk_windows b i, md_get d i) of (Some v, Some w) \<Rightarrow> Some (v\<lparr>rw_icon := rw_icon w\<rparr>) | _ \<Rightarrow> None))\<rparr>"
| "execute d Restacked b = b\<lparr>bk_stack := md_stack d\<rparr>"
| "execute d (ChCursorVisibility v) b = b\<lparr>bk_cursor := v\<rparr>"
| "execute d _ b = b"

definition view_of :: "WindowModel \<Rightarrow> backend" where
  "view_of d = \<lparr>bk_windows = map_of (md_windows d), bk_stack = md_stack d, bk_cursor = md_cursor_visible d\<rparr>"

text \<open>The changes of an event name only windows for which they make sense.\<close>

fun sensible :: "WindowModel \<Rightarrow> ModelChange \<Rightarrow> bool" where
  "sensible d (Created i) \<longleftrightarrow> md_get d i = None"
| "sensible d (Destroyed i) \<longleftrightarrow> md_get d i \<noteq> None"
| "sensible d (Moved i) \<longleftrightarrow> md_get d i \<noteq> None"
| "sensible d (Retitled i) \<longleftrightarrow> md_get d i \<noteq> None"
| "sensible d (StateChanged i) \<longleftrightarrow> md_get d i \<noteq> None"
| "sensible d (IconChanged i) \<longleftrightarrow> md_get d i \<noteq> None"
| "sensible d _ \<longleftrightarrow> True"

lemmas handler_defs = on_opened_def on_closed_def on_geometry_def on_title_def on_state_def on_icon_def on_zorder_eq

lemma apply_execute:
  "fold (execute (snd (apply_event e d))) (fst (apply_event e d)) (view_of d) = view_of (snd (apply_event e d))"
  by (cases e)
    (auto simp: handler_defs view_of_def md_get_def Let_def AList.update_conv' AList.delete_conv' fun_eq_iff
      split: option.splits)

lemma apply_sensible: "list_all (sensible d) (fst (apply_event e d))"
  by (cases e) (auto simp: handler_defs md_get_def Let_def split: option.splits)

text \<open>A session: each event's changes are executed before the next event.\<close>

fun session_run :: "ClientEvent list \<Rightarrow> WindowModel \<times> backend \<Rightarrow> WindowModel \<times> backend" where
  "session_run [] s = s"
| "session_run (e # es) (d, b) =
    (let (changes, d') = apply_event e d in session_run es (d', fold (execute d') changes b))"

lemma session_run_view: "md_inv d \<Longrightarrow> b = view_of d \<Longrightarrow>
  (case session_run es (d, b) of (d', b') \<Rightarrow> md_inv d' \<and> b' = view_of d')"
proof (induction es arbitrary: d b)
  case (Cons e es)
  obtain changes d' where e: "apply_event e d = (changes, d')" by fastforce
  have "md_inv d'" using md_inv_apply [OF Cons.prems(1), of e] e by simp
  moreover have "fold (execute d') changes b = view_of d'" using apply_execute [of e d] e Cons.prems(2) by simp
  ultimately show ?case using Cons.IH e by simp
qed simp

section \<open>Restacking\<close>

lemma remove_at_split: "remove_at (length l) (l @ x # r) = l @ r"
  by (simp add: remove_at_def)

lemma insert_at_split: "insert_at (length l) x (l @ r) = l @ x # r"
  by (simp add: insert_at_def)

lemma filter_split: "distinct (l @ x # r) \<Longrightarrow> filter (\<lambda>s. s \<noteq> x) (l @ x # r) = l @ r"
proof -
  assume "distinct (l @ x # r)"
  then have "filter (\<lambda>s. s \<noteq> x) l = l" "filter (\<lambda>s. s \<noteq> x) r = r" by (auto simp: filter_id_conv)
  then show ?thesis by simp
qed

lemma zorder_above:
  assumes stack: "md_stack d = L @ i # R" "distinct (md_stack d)" and "map_of (md_windows d) i \<noteq> None"
    and ref: "ref \<in> set (L @ R)" "ref \<noteq> 0"
  shows "\<exists>l r. filter (\<lambda>s. s \<noteq> i) (md_stack d) = l @ ref # r \<and> md_stack (snd (on_zorder i ref d)) = l @ ref # i # r"
proof -
  have cur: "position i (md_stack d) = Some (length L)" using stack position_split by metis
  obtain w where w: "map_of (md_windows d) i = Some w" using assms(3) by auto
  have rest: "filter (\<lambda>s. s \<noteq> i) (md_stack d) = L @ R" using filter_split stack by metis
  consider a c where "L = a @ ref # c" | a c where "R = a @ ref # c" using ref(1) by (auto dest!: split_list)
  then show ?thesis
  proof cases
    case 1
    then have pos: "position ref (md_stack d) = Some (length a)"
      using stack position_split [of a ref "c @ i # R"] by simp
    show ?thesis
    proof (cases "c = []")
      case True
      then show ?thesis using 1 stack pos cur w ref(2) rest
        by (intro exI [of _ a] exI [of _ R]) (simp add: on_zorder_eq zorder_target_def)
    next
      case False
      have "insert_at (length (a @ [ref])) i (remove_at (length L) (L @ i # R)) = a @ ref # i # c @ R"
        unfolding remove_at_split using insert_at_split [of "a @ [ref]" i "c @ R"] 1 by simp
      moreover have "min (length a + 1) (length (md_stack d) - 1) = length (a @ [ref])" using stack(1) 1 by simp
      ultimately show ?thesis using 1 False stack(1) pos cur w ref(2) rest
        by (intro exI [of _ a] exI [of _ "c @ R"]) (simp add: on_zorder_eq zorder_target_def)
    qed
  next
    case 2
    then have pos: "position ref (md_stack d) = Some (length (L @ i # a))"
      using stack position_split [of "L @ i # a" ref c] by simp
    have "insert_at (length (L @ a @ [ref])) i (remove_at (length L) (L @ i # R)) = L @ a @ ref # i # c"
      unfolding remove_at_split using insert_at_split [of "L @ a @ [ref]" i c] 2 by simp
    moreover have "min (length (L @ i # a)) (length (md_stack d) - 1) = length (L @ a @ [ref])" using stack(1) 2 by simp
    ultimately show ?thesis using 2 stack(1) pos cur w ref(2) rest
      by (intro exI [of _ "L @ a"] exI [of _ c]) (simp add: on_zorder_eq zorder_target_def)
  qed
qed

lemma zorder_bottom:
  assumes stack: "md_stack d = L @ i # R" "distinct (md_stack d)" and "map_of (md_windows d) i \<noteq> None"
  shows "md_stack (snd (on_zorder i 0 d)) = i # filter (\<lambda>s. s \<noteq> i) (md_stack d)"
proof -
  have "position i (md_stack d) = Some (length L)" using stack position_split by metis
  moreover have "filter (\<lambda>s. s \<noteq> i) (md_stack d) = L @ R" using filter_split stack by metis
  ultimately show ?thesis using assms(3) stack(1)
    by (cases L) (auto simp: on_zorder_eq zorder_target_def insert_at_def remove_at_def)
qed

definition initial_session :: "WindowModel \<times> backend" where
  "initial_session = (WindowModel_new, view_of WindowModel_new)"

lemma session_run_initial:
  assumes "session_run es initial_session = (d, b)"
  shows "md_inv d" and "b = view_of d"
  using session_run_view [OF md_inv_new refl, of es] assms by (simp_all add: initial_session_def)

section \<open>Properties\<close>

text \<open>
  The change list is enough. Whatever events arrive, in whatever order, a backend that executes
  the emitted changes, copying only the aspect each change names, holds exactly the model's windows,
  stacking order and cursor visibility; every window is stacked exactly once; and the changes of
  the next event name only windows for which they make sense, so a native window is never created
  twice nor destroyed or changed when it does not exist.
\<close>

theorem backend_in_sync:
  "case session_run es initial_session of (d, b) \<Rightarrow>
     bk_windows b = md_get d \<and> bk_stack b = md_stack d \<and> bk_cursor b = md_cursor_visible d \<and>
     distinct (md_stack d) \<and> set (md_stack d) = dom (md_get d) \<and> list_all (sensible d) (fst (apply_event e d))"
proof -
  obtain d b where run: "session_run es initial_session = (d, b)" by fastforce
  have "md_inv d" "b = view_of d" using session_run_initial [OF run] by simp_all
  then show ?thesis unfolding run prod.case
    by (intro conjI apply_sensible) (auto simp: view_of_def md_get_def md_inv_def fun_eq_iff)
qed

text \<open>
  Restacking puts the window directly above the named one and leaves the relative order of all
  the others alone; a reference of 0 sends it to the bottom.
\<close>

theorem zorder_places:
  assumes "session_run es initial_session = (d, b)" and "md_get d i \<noteq> None"
    and "ref = 0 \<or> md_get d ref \<noteq> None \<and> ref \<noteq> i"
  shows "let rest = filter (\<lambda>s. s \<noteq> i) (md_stack d); new = md_stack (snd (on_zorder i ref d)) in
    if ref = 0 then new = i # rest else \<exists>l r. rest = l @ ref # r \<and> new = l @ ref # i # r"
proof -
  note inv = session_run_initial(1) [OF assms(1)]
  then have set: "set (md_stack d) = dom (md_get d)" and dist: "distinct (md_stack d)"
    by (auto simp: md_inv_def md_get_def fun_eq_iff dom_def)
  obtain L R where stack: "md_stack d = L @ i # R"
    using assms(2) set by (metis domIff split_list)
  have w: "map_of (md_windows d) i \<noteq> None" using assms(2) by (simp add: md_get_def)
  show ?thesis
  proof (cases "ref = 0")
    case True
    with zorder_bottom [OF stack dist w] show ?thesis by (simp add: Let_def)
  next
    case False
    with assms(3) have "ref \<in> set (md_stack d)" "ref \<noteq> i" using set by auto
    then have "ref \<in> set (L @ R)" using stack by auto
    from zorder_above [OF stack dist w this False] False show ?thesis by (simp add: Let_def)
  qed
qed

definition sample_opened :: "u32 \<Rightarrow> WindowOpened" where
  "sample_opened i = \<lparr>wo_window_id = i, wo_video_channel = 16, wo_pid = 1, wo_app_id = [], wo_title = [], wo_x = 0,
     wo_y = 0, wo_width = 640, wo_height = 480, wo_dpi = 96, wo_flags = 3, wo_owner_id = 0\<rparr>"

theorem zorder_places_witness:
  "\<exists>d b l r. session_run [EvWindowOpened (sample_opened 1), EvWindowOpened (sample_opened 2), EvWindowOpened (sample_opened 3)]
     initial_session = (d, b) \<and> md_stack d = [1, 2, 3] \<and> filter (\<lambda>s. s \<noteq> 1) (md_stack d) = l @ 3 # r \<and>
     md_stack (snd (on_zorder 1 3 d)) = l @ 3 # 1 # r"
proof -
  obtain d b where run: "session_run [EvWindowOpened (sample_opened 1), EvWindowOpened (sample_opened 2),
      EvWindowOpened (sample_opened 3)] initial_session = (d, b)" by fastforce
  then have facts: "md_stack d = [1, 2, 3]" "md_get d 1 \<noteq> None" "md_get d 3 \<noteq> None"
    by (auto simp: initial_session_def on_opened_def sample_opened_def WindowModel_new_def md_get_def)
  from zorder_places [OF run, of 1 3] facts run show ?thesis by (simp add: Let_def)
qed

text \<open>
  Asked to put a window directly above itself, the model moves it up by one: it changes places
  with the window that was above it.
\<close>

theorem zorder_self_swaps:
  assumes "session_run es initial_session = (d, b)" and "md_stack d = l @ i # j # r" and "i \<noteq> 0"
  shows "md_stack (snd (on_zorder i i d)) = l @ j # i # r"
proof -
  note inv = session_run_initial(1) [OF assms(1)]
  have "map_of (md_windows d) i \<noteq> None" using inv assms(2) by (auto simp: md_inv_def domIff)
  moreover have "position i (md_stack d) = Some (length l)"
    using inv assms(2) position_split [of l i "j # r"] by (simp add: md_inv_def)
  ultimately show ?thesis using assms(2,3)
    by (auto simp: on_zorder_eq zorder_target_def remove_at_split insert_at_def)
qed

theorem zorder_self_swaps_witness:
  "\<exists>d b. session_run [EvWindowOpened (sample_opened 1), EvWindowOpened (sample_opened 2)] initial_session = (d, b) \<and>
     md_stack d = [1, 2] \<and> md_stack (snd (on_zorder 1 1 d)) = [2, 1]"
proof -
  obtain d b where run: "session_run [EvWindowOpened (sample_opened 1), EvWindowOpened (sample_opened 2)] initial_session = (d, b)"
    by fastforce
  then have "md_stack d = [] @ 1 # 2 # []"
    by (auto simp: initial_session_def on_opened_def sample_opened_def WindowModel_new_def)
  from zorder_self_swaps [OF run this] run this show ?thesis by simp
qed

end
