(* ===== verification/Session.thy ===== *)
theory Session
  imports Handshake Latency Client_Model
begin

text \<open>
  The client session (\<open>oxclient/src/session.rs\<close>): the choice of the clock-offset sample, the
  handshake \<open>ClientSession::connect\<close>, the event pump \<open>next_event\<close> with its housekeeping, and the
  outgoing buffer.

  The stream is passed in and out as a \<open>source\<close> and a \<open>sink\<close>; \<open>ClientClock::now_us\<close> (the
  microseconds since the session's epoch, \<open>oxclient/src/clock.rs\<close>) is the argument \<open>now\<close>, the
  k-th reading taken, and the session counts its readings. The properties: the client and the
  agent agree on what was negotiated, the event pump loses and repeats nothing when it is
  cancelled, every ping is answered, and the offset estimate is the most trustworthy exchange.
\<close>

section \<open>The clock-offset candidates\<close>

definition RTT_WINDOW :: nat where "RTT_WINDOW = 128"
definition OFFSET_CANDIDATES :: nat where "OFFSET_CANDIDATES = 64"
definition CLOCK_DRIFT_PPM :: u64 where "CLOCK_DRIFT_PPM = 100"

record OffsetSample =
  of_rtt_us :: u64
  of_offset_us :: int
  of_taken_at_us :: u64

definition u64_saturating_mul :: "u64 \<Rightarrow> u64 \<Rightarrow> u64" where
  "u64_saturating_mul a b = (if unat a * unat b < 2 ^ 64 then a * b else - 1)"

definition error_bound_us :: "u64 \<Rightarrow> OffsetSample \<Rightarrow> u64" where
  "error_bound_us now_us s =
    (let age_us = u64_saturating_sub now_us (of_taken_at_us s) in
     of_rtt_us s div 2 + u64_saturating_mul age_us CLOCK_DRIFT_PPM div 1000000)"

text \<open>\<open>OffsetEstimate\<close> is its deque of recent samples, oldest first.\<close>

type_synonym OffsetEstimate = "OffsetSample list"

definition oe_push :: "OffsetSample \<Rightarrow> OffsetEstimate \<Rightarrow> OffsetEstimate" where
  "oe_push sample recent =
    (let recent' = (if OFFSET_CANDIDATES \<le> length recent then tl recent else recent) in recent' @ [sample])"

text \<open>\<open>Iterator::min_by_key\<close>: of equal minima the first.\<close>

fun min_by_key :: "('a \<Rightarrow> 'b::linorder) \<Rightarrow> 'a list \<Rightarrow> 'a option" where
  "min_by_key f [] = None"
| "min_by_key f (x # xs) = Some (foldl (\<lambda>best y. if f y < f best then y else best) x xs)"

definition best :: "u64 \<Rightarrow> OffsetEstimate \<Rightarrow> OffsetSample option" where
  "best now_us recent = min_by_key (error_bound_us now_us) recent"

section \<open>The session\<close>

record SessionConfig =
  sc_auth_token :: rust_string
  sc_client_name :: rust_string
  sc_codecs :: "u8 list"
  sc_display :: DisplayLayout

record ClientSession =
  se_reassembler :: reassembler
  se_chunks :: chunk_reader
  se_pending_out :: "u8 list"
  se_pending_written :: nat
  se_version :: u16
  se_features :: u64
  se_codec :: u8
  se_session_id :: u64
  se_clock :: nat
  se_clock_sync :: ClockSync
  se_offsets :: OffsetEstimate
  se_ping_seq :: u32

text \<open>
  The errors of \<open>connect\<close>: \<open>PermissionDenied\<close> carries what its text is made of (the reason, the
  agent's message and code), \<open>InvalidData\<close> the type of the unexpected message.
\<close>

datatype ConnectError =
    CeIo io_error
  | CePermissionDenied string rust_string u16
  | CeUnexpected u8

definition client_hello :: "SessionConfig \<Rightarrow> ClientHello" where
  "client_hello config =
     \<lparr>ch_version_min = MIN_SUPPORTED_VERSION, ch_version_max = PROTOCOL_VERSION, ch_features = SUPPORTED,
      ch_auth_token = sc_auth_token config, ch_client_name = sc_client_name config,
      ch_codecs = sc_codecs config, ch_display = sc_display config\<rparr>"

definition session_of :: "reassembler \<Rightarrow> ServerHello \<Rightarrow> ClientSession" where
  "session_of r sh =
     \<lparr>se_reassembler = r, se_chunks = ChunkReader_new, se_pending_out = [], se_pending_written = 0,
      se_version = sh_version sh, se_features = and (sh_features sh) SUPPORTED, se_codec = sh_codec sh,
      se_session_id = sh_session_id sh, se_clock = 0, se_clock_sync = ClockSync_new RTT_WINDOW,
      se_offsets = [], se_ping_seq = 0\<rparr>"

text \<open>The loop of \<open>connect\<close>: unknown message types are skipped until the agent has answered.\<close>

function await_hello :: "source \<Rightarrow> reassembler \<Rightarrow> (ConnectError + ClientSession) poll \<times> source" where
  "await_hello src r =
    (case read_message src r of
       (Pending, src', r') \<Rightarrow> (Pending, src')
     | (Ready (Inl e), src', r') \<Rightarrow> (Ready (Inl (CeIo e)), src')
     | (Ready (Inr (Some m)), src', r') \<Rightarrow>
         (case m of
            ServerHello sh \<Rightarrow> (Ready (Inr (session_of r' sh)), src')
          | Error e \<Rightarrow>
              (let what = (if er_code e = ERR_AUTH_FAILED then ''authentication rejected by the agent''
                           else ''agent refused the session'') in
               (Ready (Inl (CePermissionDenied what (er_message e) (er_code e))), src'))
          | other \<Rightarrow> (Ready (Inl (CeUnexpected (msg_type other))), src'))
     | (Ready (Inr None), src', r') \<Rightarrow> await_hello src' r')"
  by pat_completeness auto
termination
  by (relation "measure (\<lambda>(src, r). length (src_bytes src))") (auto dest!: sym [of "(_, _)"] read_message_consumes)

declare await_hello.simps [simp del]

definition connect :: "source \<Rightarrow> sink \<Rightarrow> SessionConfig \<Rightarrow>
    (ConnectError + ClientSession) poll \<times> u8 list \<times> source \<times> sink" where
  "connect src snk config =
    (case write_message (ClientHello (client_hello config)) CH_CONTROL snk of
       (Pending, out, snk') \<Rightarrow> (Pending, out, src, snk')
     | (Ready (Inl e), out, snk') \<Rightarrow> (Ready (Inl (CeIo e)), out, src, snk')
     | (Ready (Inr _), out, snk') \<Rightarrow>
         (case await_hello src Reassembler_new of (res, src') \<Rightarrow> (res, out, src', snk')))"

definition has_feature :: "u64 \<Rightarrow> ClientSession \<Rightarrow> bool" where
  "has_feature b s \<longleftrightarrow> and (se_features s) b \<noteq> 0"

subsection \<open>The outgoing buffer\<close>

definition se_queue :: "Message \<Rightarrow> ClientSession \<Rightarrow> (io_error + unit) \<times> ClientSession" where
  "se_queue msg s =
    (case to_chunks msg CH_CONTROL of
       Inl e \<Rightarrow> (Inl (Unencodable e), s)
     | Inr chunks \<Rightarrow> (Inr (), s\<lparr>se_pending_out := foldl (@) (se_pending_out s) chunks\<rparr>))"

function flush_pending :: "ClientSession \<Rightarrow> sink \<Rightarrow> (io_error + unit) poll \<times> ClientSession \<times> u8 list \<times> sink" where
  "flush_pending s snk =
    (if se_pending_written s < length (se_pending_out s) then
       (case snk of
          [] \<Rightarrow> (Pending, s, [], [])
        | WriteFailed e # snk1 \<Rightarrow> (Ready (Inl (OtherIo e)), s, [], snk1)
        | Accepts k # snk1 \<Rightarrow>
            (let n = min k (length (drop (se_pending_written s) (se_pending_out s))) in
             if n = 0 then (Ready (Inl WriteZero), s, [], snk1)
             else case flush_pending (s\<lparr>se_pending_written := se_pending_written s + n\<rparr>) snk1 of
                    (res, s', out, snk2) \<Rightarrow>
                      (res, s', take n (drop (se_pending_written s) (se_pending_out s)) @ out, snk2)))
     else
       (let s' = s\<lparr>se_pending_out := [], se_pending_written := 0\<rparr> in
        case sink_flush snk of (res, snk1) \<Rightarrow> (res, s', [], snk1)))"
  by pat_completeness auto
termination
  by (relation "measure (\<lambda>(s, snk). length snk)") auto

declare flush_pending.simps [simp del]

definition send :: "Message \<Rightarrow> ClientSession \<Rightarrow> sink \<Rightarrow> (io_error + unit) poll \<times> ClientSession \<times> u8 list \<times> sink" where
  "send msg s snk =
    (case se_queue msg s of
       (Inl e, s') \<Rightarrow> (Ready (Inl e), s', [], snk)
     | (Inr _, s') \<Rightarrow> flush_pending s' snk)"

text \<open>\<open>self.clock.now_us()\<close>: one more reading.\<close>

definition read_clock :: "(nat \<Rightarrow> u64) \<Rightarrow> ClientSession \<Rightarrow> u64 \<times> ClientSession" where
  "read_clock now s = (now (se_clock s), s\<lparr>se_clock := Suc (se_clock s)\<rparr>)"

definition ping :: "(nat \<Rightarrow> u64) \<Rightarrow> ClientSession \<Rightarrow> sink \<Rightarrow> (io_error + unit) poll \<times> ClientSession \<times> u8 list \<times> sink" where
  "ping now s snk =
    (let seq = se_ping_seq s; s1 = s\<lparr>se_ping_seq := se_ping_seq s + 1\<rparr>;
         (sent_us, s2) = read_clock now s1;
         s3 = s2\<lparr>se_clock_sync := on_ping_sent seq sent_us (se_clock_sync s2)\<rparr> in
     send (Ping \<lparr>pi_seq = seq, pi_sent_us = sent_us\<rparr>) s3 snk)"

definition clock_offset_us :: "(nat \<Rightarrow> u64) \<Rightarrow> ClientSession \<Rightarrow> int option \<times> ClientSession" where
  "clock_offset_us now s =
    (case read_clock now s of (now_us, s') \<Rightarrow> (map_option of_offset_us (best now_us (se_offsets s')), s'))"

definition se_offset_error_bound_us :: "(nat \<Rightarrow> u64) \<Rightarrow> ClientSession \<Rightarrow> u64 option \<times> ClientSession" where
  "se_offset_error_bound_us now s =
    (case read_clock now s of (now_us, s') \<Rightarrow> (map_option (error_bound_us now_us) (best now_us (se_offsets s')), s'))"

text \<open>The session's buffer is a \<open>ChunkWriter\<close>.\<close>

definition se_writer :: "ClientSession \<Rightarrow> chunk_writer" where
  "se_writer s = \<lparr>cw_pending = se_pending_out s, cw_written = se_pending_written s\<rparr>"

definition with_writer :: "ClientSession \<Rightarrow> chunk_writer \<Rightarrow> ClientSession" where
  "with_writer s w = s\<lparr>se_pending_out := cw_pending w, se_pending_written := cw_written w\<rparr>"

lemma with_writer_simps [simp]:
  "cw_pending (se_writer s) = se_pending_out s" "cw_written (se_writer s) = se_pending_written s"
  "with_writer s (se_writer s\<lparr>cw_pending := p\<rparr>) = s\<lparr>se_pending_out := p\<rparr>"
  "se_writer s\<lparr>cw_written := n\<rparr> = se_writer (s\<lparr>se_pending_written := n\<rparr>)"
  "with_writer (s\<lparr>se_pending_written := n\<rparr>) w = with_writer s w"
  "se_writer (with_writer s w) = w" "with_writer (with_writer s w) w' = with_writer s w'" "with_writer s (se_writer s) = s"
  "se_chunks (with_writer s w) = se_chunks s" "se_reassembler (with_writer s w) = se_reassembler s"
  by (simp_all add: se_writer_def with_writer_def)

lemma flush_pending_is_flush:
  "flush_pending s snk = (case flush (se_writer s) snk of (res, w, out, snk') \<Rightarrow> (res, with_writer s w, out, snk'))"
proof (induction s snk rule: flush_pending.induct)
  case (1 s snk)
  show ?case
  proof (cases "se_pending_written s < length (se_pending_out s)")
    case False
    then show ?thesis
      by (simp add: flush_pending.simps [of s] flush.simps [of "se_writer s"] with_writer_def split: prod.splits)
  next
    case True
    show ?thesis
    proof (cases "\<exists>k snk1. snk = Accepts (Suc k) # snk1")
      case False
      then consider "snk = []" | e snk1 where "snk = WriteFailed e # snk1" | snk1 where "snk = Accepts 0 # snk1"
        by (metis list.exhaust write_event.exhaust old.nat.exhaust)
      then show ?thesis
        using True by cases (simp_all add: flush_pending.simps [of s] flush.simps [of "se_writer s"])
    next
      case acc: True
      then obtain k snk1 where snk: "snk = Accepts (Suc k) # snk1" by blast
      define n where "n = min (Suc k) (length (se_pending_out s) - se_pending_written s)"
      with True have n: "n \<noteq> 0" by simp
      let ?s1 = "s\<lparr>se_pending_written := se_pending_written s + n\<rparr>"
      have IH: "flush_pending ?s1 snk1 =
          (case flush (se_writer ?s1) snk1 of (res, w, out, snk') \<Rightarrow> (res, with_writer ?s1 w, out, snk'))"
        using "1.IH" [OF True snk refl] n by (simp add: n_def)
      with True n show ?thesis
        by (simp add: snk flush_pending.simps [of s] flush.simps [of "se_writer s"] n_def [symmetric] split: prod.splits)
    qed
  qed
qed

lemma se_queue_is_queue:
  "se_queue m s = (case queue_message (se_writer s) m CH_CONTROL of (res, w) \<Rightarrow> (res, with_writer s w))"
  by (simp add: se_queue_def queue_message_def se_writer_def with_writer_def split: sum.splits)

section \<open>The event pump\<close>

text \<open>
  The \<open>match\<close> of \<open>next_event\<close> on a decoded message: the event to surface, or \<open>None\<close> where the code
  continues its loop.
\<close>

definition record_pong :: "(nat \<Rightarrow> u64) \<Rightarrow> Pong \<Rightarrow> ClientSession \<Rightarrow> ClientSession" where
  "record_pong now p s =
    (case read_clock now s of (now_us, s1) \<Rightarrow>
       (case on_pong (po_seq p) (po_agent_us p) now_us (se_clock_sync s1) of (rtt, sync) \<Rightarrow>
          (let s2 = s1\<lparr>se_clock_sync := sync\<rparr> in
           case rtt of
             None \<Rightarrow> s2
           | Some rtt_us \<Rightarrow>
               (case cs_offset sync of
                  None \<Rightarrow> s2
                | Some offset_us \<Rightarrow>
                    s2\<lparr>se_offsets := oe_push \<lparr>of_rtt_us = rtt_us, of_offset_us = offset_us, of_taken_at_us = now_us\<rparr>
                         (se_offsets s2)\<rparr>))))"

fun handle :: "(nat \<Rightarrow> u64) \<Rightarrow> Message option \<Rightarrow> ClientSession \<Rightarrow> (io_error + ClientEvent option) \<times> ClientSession" where
  "handle now None s = (Inr None, s)"
| "handle now (Some (Ping p)) s =
    (case se_queue (Pong \<lparr>po_seq = pi_seq p, po_sent_us = pi_sent_us p, po_agent_us = 0\<rparr>) s of
       (Inl e, s') \<Rightarrow> (Inl e, s') | (Inr _, s') \<Rightarrow> (Inr None, s'))"
| "handle now (Some (Pong p)) s = (Inr None, record_pong now p s)"
| "handle now (Some (WindowOpened m)) s = (Inr (Some (EvWindowOpened m)), s)"
| "handle now (Some (WindowGeometry m)) s = (Inr (Some (EvWindowGeometry m)), s)"
| "handle now (Some (WindowTitle m)) s = (Inr (Some (EvWindowTitle m)), s)"
| "handle now (Some (WindowState m)) s = (Inr (Some (EvWindowState m)), s)"
| "handle now (Some (WindowZOrder m)) s = (Inr (Some (EvWindowZOrder m)), s)"
| "handle now (Some (WindowIcon m)) s = (Inr (Some (EvWindowIcon m)), s)"
| "handle now (Some (WindowClosed m)) s = (Inr (Some (EvWindowClosed m)), s)"
| "handle now (Some (FrameData m)) s = (Inr (Some (EvFrame m)), s)"
| "handle now (Some (CursorShape m)) s = (Inr (Some (EvCursorShape m)), s)"
| "handle now (Some (CursorPosition m)) s = (Inr (Some (EvCursorPosition m)), s)"
| "handle now (Some (CursorVisibility m)) s = (Inr (Some (EvCursorVisibility m)), s)"
| "handle now (Some (Error m)) s = (Inr (Some (EvError m)), s)"
| "handle now (Some (Close m)) s = (Inr (Some (EvClosed m)), s)"
| "handle now (Some _) s = (Inr None, s)"

lemma handle_reader [simp]:
  "se_chunks (snd (handle now m s)) = se_chunks s" "se_reassembler (snd (handle now m s)) = se_reassembler s"
  by (cases "(now, m, s)" rule: handle.cases;
      simp add: se_queue_def record_pong_def read_clock_def Let_def split: sum.splits option.splits prod.splits)+

lemma flush_pending_reader:
  "flush_pending s snk = (res, s1, out, snk1) \<Longrightarrow> se_chunks s1 = se_chunks s \<and> se_reassembler s1 = se_reassembler s"
  by (auto simp: flush_pending_is_flush split: prod.splits)

function next_event :: "(nat \<Rightarrow> u64) \<Rightarrow> ClientSession \<Rightarrow> source \<Rightarrow> sink \<Rightarrow>
    (io_error + ClientEvent option) poll \<times> ClientSession \<times> u8 list \<times> source \<times> sink" where
  "next_event now s src snk =
    (case flush_pending s snk of
       (Pending, s1, out, snk1) \<Rightarrow> (Pending, s1, out, src, snk1)
     | (Ready (Inl e), s1, out, snk1) \<Rightarrow> (Ready (Inl e), s1, out, src, snk1)
     | (Ready (Inr _), s1, out, snk1) \<Rightarrow>
         (case next_message (se_chunks s1) src (se_reassembler s1) of
            (res, chunks, src1, r1) \<Rightarrow>
              (let s2 = s1\<lparr>se_reassembler := r1, se_chunks := chunks\<rparr> in
               case res of
                 Pending \<Rightarrow> (Pending, s2, out, src1, snk1)
               | Ready (Inl e) \<Rightarrow>
                   (if e = UnexpectedEof then (Ready (Inr None), s2, out, src1, snk1)
                    else (Ready (Inl e), s2, out, src1, snk1))
               | Ready (Inr raw) \<Rightarrow>
                   (case decode_known (rm_msg_type raw) (rm_payload raw) of
                      Inl e \<Rightarrow> (Ready (Inl (InvalidData e)), s2, out, src1, snk1)
                    | Inr m \<Rightarrow>
                        (case handle now m s2 of
                           (Inl e, s3) \<Rightarrow> (Ready (Inl e), s3, out, src1, snk1)
                         | (Inr (Some ev), s3) \<Rightarrow> (Ready (Inr (Some ev)), s3, out, src1, snk1)
                         | (Inr None, s3) \<Rightarrow>
                             (case next_event now s3 src1 snk1 of
                                (res', s', out', src', snk') \<Rightarrow> (res', s', out @ out', src', snk')))))))"
  by pat_completeness auto

termination
proof (relation "measure (\<lambda>(now, s, src, snk). 3 * length (src_bytes src) + read_rank (se_chunks s))", simp)
  fix now s src snk fres ft fok u s1 ft2 out snk1 res nt chunks nt2 src1 r1 s2 ok raw m hres s3 ho
  assume "(fres, ft) = flush_pending s snk" "(s1, ft2) = ft" "(out, snk1) = ft2"
    and "(res, nt) = next_message (se_chunks s1) src (se_reassembler s1)" "(chunks, nt2) = nt" "(src1, r1) = nt2"
    and s2: "s2 = s1\<lparr>se_reassembler := r1, se_chunks := chunks\<rparr>" and "res = Ready ok" "ok = Inr raw"
    and h: "(hres, s3) = handle now m s2"
  then have f: "flush_pending s snk = (fres, s1, out, snk1)"
    and n: "next_message (se_chunks s1) src (se_reassembler s1) = (Ready (Inr raw), chunks, src1, r1)" by simp_all
  have "se_chunks s3 = chunks" using arg_cong [OF h, of snd] handle_reader(1) [of now m s2] s2 by simp
  with next_message_decreases [OF n] flush_pending_reader [OF f]
  show "((now, s3, src1, snk1), now, s, src, snk)
    \<in> measure (\<lambda>(now, s, src, snk). 3 * length (src_bytes src) + read_rank (se_chunks s))" by simp
qed

declare next_event.simps [simp del]

section \<open>What the pump makes of the messages\<close>

text \<open>The event a message is for the display layer, and the answer it gets.\<close>

fun event_of :: "Message option \<Rightarrow> ClientEvent option" where
  "event_of (Some (WindowOpened m)) = Some (EvWindowOpened m)"
| "event_of (Some (WindowGeometry m)) = Some (EvWindowGeometry m)"
| "event_of (Some (WindowTitle m)) = Some (EvWindowTitle m)"
| "event_of (Some (WindowState m)) = Some (EvWindowState m)"
| "event_of (Some (WindowZOrder m)) = Some (EvWindowZOrder m)"
| "event_of (Some (WindowIcon m)) = Some (EvWindowIcon m)"
| "event_of (Some (WindowClosed m)) = Some (EvWindowClosed m)"
| "event_of (Some (FrameData m)) = Some (EvFrame m)"
| "event_of (Some (CursorShape m)) = Some (EvCursorShape m)"
| "event_of (Some (CursorPosition m)) = Some (EvCursorPosition m)"
| "event_of (Some (CursorVisibility m)) = Some (EvCursorVisibility m)"
| "event_of (Some (Error m)) = Some (EvError m)"
| "event_of (Some (Close m)) = Some (EvClosed m)"
| "event_of _ = None"

fun reply_to :: "Message option \<Rightarrow> u8 list" where
  "reply_to (Some (Ping p)) = control_wire (Pong \<lparr>po_seq = pi_seq p, po_sent_us = pi_sent_us p, po_agent_us = 0\<rparr>)"
| "reply_to _ = []"

definition readable :: "raw_message \<Rightarrow> bool" where
  "readable raw \<longleftrightarrow> (\<exists>m. decode_known (rm_msg_type raw) (rm_payload raw) = Inr m)"

definition msg_of :: "raw_message \<Rightarrow> Message option" where
  "msg_of raw = (case decode_known (rm_msg_type raw) (rm_payload raw) of Inr m \<Rightarrow> m | Inl _ \<Rightarrow> None)"

definition events :: "raw_message list \<Rightarrow> ClientEvent list" where
  "events raws = List.map_filter (event_of \<circ> msg_of) raws"

definition replies :: "raw_message list \<Rightarrow> u8 list" where
  "replies raws = concat (map (reply_to \<circ> msg_of) raws)"

lemma events_simps [simp]: "events [] = []" "events (a @ b) = events a @ events b"
  "events (raw # raws) = (case event_of (msg_of raw) of None \<Rightarrow> [] | Some e \<Rightarrow> [e]) @ events raws"
  by (auto simp: events_def map_filter_def split: option.splits)

lemma replies_simps [simp]: "replies [] = []" "replies (raw # raws) = reply_to (msg_of raw) @ replies raws"
  "replies (a @ b) = replies a @ replies b"
  by (simp_all add: replies_def)

lemma pong_encodes: "\<exists>chunks. to_chunks (Pong p) CH_CONTROL = Inr chunks"
  using to_chunks_img [of "Pong p" CH_CONTROL] by (simp add: valid_Pong_def)

lemma record_pong_writer [simp]: "se_writer (record_pong now p s) = se_writer s"
  by (simp add: record_pong_def read_clock_def se_writer_def Let_def split: prod.splits option.splits)

lemma handle_outcome:
  assumes "writer_inv (se_writer s)" and "handle now m s = (res, s')"
  shows "res = Inr (event_of m) \<and> writer_inv (se_writer s') \<and> unsent (se_writer s') = unsent (se_writer s) @ reply_to m"
proof (cases "\<exists>p. m = Some (Ping p)")
  case True
  then obtain p where m: "m = Some (Ping p)" ..
  let ?pong = "Pong \<lparr>po_seq = pi_seq p, po_sent_us = pi_sent_us p, po_agent_us = 0\<rparr>"
  obtain chunks where c: "to_chunks ?pong CH_CONTROL = Inr chunks" using pong_encodes by blast
  with assms(2) m have "res = Inr None" "se_writer s' = snd (queue_message (se_writer s) ?pong CH_CONTROL)"
    by (auto simp: se_queue_is_queue queue_message_def split: prod.splits)
  with queue_message_sends [OF assms(1), of ?pong CH_CONTROL] m show ?thesis by simp
next
  case False
  with assms show ?thesis by (cases "(now, m, s)" rule: handle.cases) auto
qed

lemma flush_stops:
  "flush w snk = (res, w', out, snk') \<Longrightarrow>
   (res = Pending \<longrightarrow> snk' = []) \<and> (\<forall>e. res = Ready (Inl e) \<longrightarrow> e = WriteZero \<or> (\<exists>k. e = OtherIo k))"
proof (induction w snk arbitrary: res w' out snk' rule: flush.induct)
  case (1 w snk)
  show ?case
  proof (cases "cw_written w < length (cw_pending w) \<and> (\<exists>k snk1. snk = Accepts (Suc k) # snk1)")
    case True
    then obtain k snk1 where snk: "snk = Accepts (Suc k) # snk1" and lt: "cw_written w < length (cw_pending w)" by blast
    define n where "n = min (Suc k) (length (cw_pending w) - cw_written w)"
    with lt have n: "n \<noteq> 0" by simp
    with "1.prems" lt obtain out1 where "flush (w\<lparr>cw_written := cw_written w + n\<rparr>) snk1 = (res, w', out1, snk')"
      by (auto simp: flush.simps [of w] snk n_def [symmetric] split: prod.splits)
    from "1.IH" [OF lt snk refl n_def n this] show ?thesis .
  next
    case False
    then consider "\<not> cw_written w < length (cw_pending w)" | "snk = []" | e snk1 where "snk = WriteFailed e # snk1"
      | snk1 where "snk = Accepts 0 # snk1" by (metis list.exhaust write_event.exhaust old.nat.exhaust)
    then show ?thesis
    proof cases
      case 1
      with "1.prems" show ?thesis
        by (cases snk rule: sink_flush.cases) (auto simp: flush.simps [of w])
    qed (use "1.prems" in \<open>auto simp: flush.simps [of w] split: if_splits\<close>)
  qed
qed

text \<open>
  The state between calls: the bytes held by the reader, waiting in the stream and yet to come
  (\<open>extra\<close>) contain the messages \<open>raws\<close>.
\<close>

definition awaits :: "ClientSession \<Rightarrow> source \<Rightarrow> u8 list \<Rightarrow> raw_message list \<Rightarrow> reassembler \<Rightarrow> u8 list \<Rightarrow> bool" where
  "awaits s src extra raws rf rest \<longleftrightarrow> reader_inv (se_chunks s) \<and> writer_inv (se_writer s) \<and> live src \<and>
     parse_all (se_reassembler s) (reader_held (se_chunks s) @ src_bytes src @ extra) = (raws, Short rf rest)"

text \<open>The reader holds an incomplete chunk, or nothing.\<close>

definition stalled :: "ClientSession \<Rightarrow> bool" where
  "stalled s \<longleftrightarrow> parse_next (se_reassembler s) (reader_held (se_chunks s)) = Short (se_reassembler s) (reader_held (se_chunks s))"

lemma awaits_stalled: "awaits s [] [] raws rf rest \<Longrightarrow> stalled s \<Longrightarrow> raws = []"
  by (simp add: awaits_def stalled_def parse_all.simps [of "se_reassembler s"])

lemma parse_all_cong: "parse_next r bs = parse_next r' bs' \<Longrightarrow> parse_all r bs = parse_all r' bs'"
  by (simp add: parse_all.simps [of r] parse_all.simps [of r'])

lemma awaits_handle:
  assumes "handle now m s = (res, s')" "awaits s src extra raws rf rest"
  shows "awaits s' src extra raws rf rest"
  using handle_reader [of now m s] handle_outcome [of s now m res s'] assms by (simp add: awaits_def)

lemma awaits_next_message:
  assumes "awaits s src extra raws rf rest"
    and "next_message (se_chunks s) src (se_reassembler s) = (res, chunks, src', r')"
  defines "s' \<equiv> s\<lparr>se_reassembler := r', se_chunks := chunks\<rparr>"
  shows "res = Pending \<and> src' = [] \<and> stalled s' \<and> awaits s' src' extra raws rf rest \<or>
    (\<exists>raw left. res = Ready (Inr raw) \<and> raws = raw # left \<and> awaits s' src' extra left rf rest)"
proof -
  let ?bs = "reader_held (se_chunks s) @ src_bytes src" and ?r = "se_reassembler s"
  from assms(1) have inv: "reader_inv (se_chunks s)" "live src" and whole: "parse_all ?r (?bs @ extra) = (raws, Short rf rest)"
    and w: "writer_inv (se_writer s)" by (simp_all add: awaits_def)
  have agree: "agrees (parse_next ?r ?bs) (res, chunks, src', r')"
    using next_message_agrees [OF inv, of ?r] assms(2) by simp
  then have inv': "reader_inv chunks" "live src'" by (simp_all add: agrees_def)
  have w': "writer_inv (se_writer s')" using w by (simp add: s'_def se_writer_def)
  have all: "parse_next ?r (?bs @ extra) = then_more (parse_next ?r ?bs) extra" by (rule parse_next_append)
  show ?thesis
  proof (cases "parse_next ?r ?bs")
    case (Short r2 left)
    with agree have now: "res = Pending" "src' = []" "r' = r2" "reader_held chunks = left" by (simp_all add: agrees_def)
    have "parse_all r2 (left @ extra) = parse_all ?r (?bs @ extra)"
      using all Short by (intro parse_all_cong) simp
    moreover have "parse_next r2 left = Short r2 left"
      using Short parse_next_append [of ?r ?bs "[]"] by (metis append_Nil2 then_more.simps(1))
    ultimately show ?thesis using whole now inv' w' by (simp add: awaits_def s'_def stalled_def)
  next
    case (Bad e r2)
    with whole all show ?thesis by (simp add: parse_all.simps [of ?r])
  next
    case (Got raw r2 left)
    with agree have now: "res = Ready (Inr raw)" "r' = r2" "reader_held chunks @ src_bytes src' = left" by (simp_all add: agrees_def)
    from whole all Got have "\<exists>raws1. raws = raw # raws1 \<and> parse_all r2 (left @ extra) = (raws1, Short rf rest)"
      by (auto simp: parse_all.simps [of ?r] split: prod.splits)
    with now inv' w' show ?thesis by (auto simp: awaits_def s'_def)
  qed
qed

text \<open>
  How one call ends, given the events of the messages it took: one event, or none; an error is one
  of the write side; and when the call waits although the peer still takes bytes, then everything
  that arrived has been taken and everything queued has been sent.
\<close>

definition outcome :: "(io_error + ClientEvent option) poll \<Rightarrow> ClientEvent list \<Rightarrow> ClientSession \<Rightarrow> source \<Rightarrow> sink \<Rightarrow> bool" where
  "outcome res evs s src snk =
    (case res of
       Pending \<Rightarrow> evs = [] \<and> (snk \<noteq> [] \<longrightarrow> src = [] \<and> stalled s \<and> unsent (se_writer s) = [])
     | Ready (Inl e) \<Rightarrow> evs = [] \<and> (e = WriteZero \<or> (\<exists>k. e = OtherIo k))
     | Ready (Inr None) \<Rightarrow> False
     | Ready (Inr (Some ev)) \<Rightarrow> evs = [ev])"

lemma next_event_step:
  "awaits s src extra raws rf rest \<Longrightarrow> list_all readable raws \<Longrightarrow> next_event now s src snk = (res, s', out, src', snk') \<Longrightarrow>
   \<exists>taken left. raws = taken @ left \<and> awaits s' src' extra left rf rest \<and>
     unsent (se_writer s) @ replies taken = out @ unsent (se_writer s') \<and>
     outcome res (events taken) s' src' snk'"
proof (induction now s src snk arbitrary: raws res s' out src' snk' rule: next_event.induct)
  case (1 now s src snk)
  obtain fres w fout snk1 where w: "flush (se_writer s) snk = (fres, w, fout, snk1)" by (metis prod_cases4)
  let ?s1 = "with_writer s w"
  have f: "flush_pending s snk = (fres, ?s1, fout, snk1)" by (simp add: flush_pending_is_flush w)
  have inv: "writer_inv (se_writer s)" using "1.prems"(1) by (simp add: awaits_def)
  note sends = flush_sends [OF inv w] and stops = flush_stops [OF w]
  have aw1: "awaits ?s1 src extra raws rf rest" using "1.prems"(1) sends by (simp add: awaits_def)
  show ?case
  proof (cases "fres = Ready (Inr ())")
    case False
    with "1.prems"(3) f have "res = (case fres of Pending \<Rightarrow> Pending | Ready (Inl e) \<Rightarrow> Ready (Inl e))"
      "s' = ?s1" "out = fout" "src' = src" "snk' = snk1"
      by (auto simp: next_event.simps [of now s] split: poll.splits sum.splits)
    with aw1 sends stops False show ?thesis
      by (intro exI [of "\<lambda>t. \<exists>l. _ t l" "[]"] exI [of _ raws]) (auto simp: outcome_def split: poll.splits sum.splits)
  next
    case True
    have empty: "unsent w = []" using True sends by (simp add: unsent_def ChunkWriter_new_def)
    obtain nres chunks src1 r1 where n: "next_message (se_chunks ?s1) src (se_reassembler ?s1) = (nres, chunks, src1, r1)"
      by (metis prod_cases4)
    define s2 where "s2 = ?s1\<lparr>se_reassembler := r1, se_chunks := chunks\<rparr>"
    have w2: "se_writer s2 = w" by (simp add: s2_def with_writer_def se_writer_def)
    from awaits_next_message [OF aw1 n] consider "nres = Pending" "src1 = []" "stalled s2" "awaits s2 src1 extra raws rf rest"
      | raw left where "nres = Ready (Inr raw)" "raws = raw # left" "awaits s2 src1 extra left rf rest"
      by (auto simp: s2_def)
    then show ?thesis
    proof cases
      case 1
      with "1.prems"(3) f True n have "res = Pending" "s' = s2" "out = fout" "src' = src1" "snk' = snk1"
        by (simp_all add: next_event.simps [of now s] s2_def)
      with 1 sends empty w2 show ?thesis by (intro exI [of "\<lambda>t. \<exists>l. _ t l" "[]"] exI [of _ raws]) (simp add: outcome_def)
    next
      case (2 raw left)
      obtain m where m: "decode_known (rm_msg_type raw) (rm_payload raw) = Inr m"
        using "1.prems"(2) 2 by (auto simp: readable_def)
      then have msg: "msg_of raw = m" by (simp add: msg_of_def)
      obtain hres s3 where h: "handle now m s2 = (hres, s3)" by fastforce
      have inv2: "writer_inv (se_writer s2)" using sends w2 by simp
      note ho = handle_outcome [OF inv2 h]
      have aw3: "awaits s3 src1 extra left rf rest" using awaits_handle [OF h 2(3)] .
      show ?thesis
      proof (cases "event_of m")
        case (Some ev)
        with "1.prems"(3) f True n m h ho 2(1) have "res = Ready (Inr (Some ev))" "s' = s3" "out = fout" "src' = src1" "snk' = snk1"
          by (simp_all add: next_event.simps [of now s] s2_def)
        with Some aw3 2(2) msg ho sends w2 show ?thesis
          by (intro exI [of "\<lambda>t. \<exists>l. _ t l" "[raw]"] exI [of _ left]) (simp add: outcome_def)
      next
        case None
        have hn: "hres = Inr None" using ho None by simp
        obtain out1 where rec: "next_event now s3 src1 snk1 = (res, s', out1, src', snk')" and out: "out = fout @ out1"
          using "1.prems"(3) f True n m h hn 2(1)
          by (auto simp: next_event.simps [of now s] s2_def split: prod.splits)
        have "\<exists>taken rem. left = taken @ rem \<and> awaits s' src' extra rem rf rest \<and>
           unsent (se_writer s3) @ replies taken = out1 @ unsent (se_writer s') \<and>
           outcome res (events taken) s' src' snk'"
          using "1.prems"(2) 2(2)
          by (intro "1.IH" [OF f [symmetric] True refl refl refl n [symmetric] refl refl s2_def 2(1) refl m h [symmetric] hn refl aw3 _ rec]) simp
        then obtain taken rem where ih: "left = taken @ rem" "awaits s' src' extra rem rf rest"
           "unsent (se_writer s3) @ replies taken = out1 @ unsent (se_writer s')"
           "outcome res (events taken) s' src' snk'" by blast
        have "events (raw # taken) = events taken" using None msg by simp
        moreover have "unsent (se_writer s) @ replies (raw # taken) = out @ unsent (se_writer s')"
          using sends ho w2 empty ih(3) out msg by simp
        ultimately show ?thesis
          using ih 2(2) by (intro exI [of "\<lambda>t. \<exists>l. _ t l" "raw # taken"] exI [of _ rem]) simp
      qed
    qed
  qed
qed

lemma flush_accepting:
  "writer_inv w \<Longrightarrow> accepting snk \<Longrightarrow> length (unsent w) < length snk \<Longrightarrow>
   \<exists>snk'. flush w snk = (Ready (Inr ()), ChunkWriter_new, unsent w, snk') \<and> accepting snk' \<and>
     length snk \<le> length snk' + length (unsent w) + 1"
proof (induction w snk rule: flush.induct)
  case (1 w snk)
  then obtain k snk1 where snk: "snk = Accepts (Suc k) # snk1" by (cases snk) (auto simp: accepting_def)
  show ?case
  proof (cases "cw_written w < length (cw_pending w)")
    case False
    with snk "1.prems" show ?thesis by (simp add: flush.simps [of w] ChunkWriter_new_def unsent_def accepting_def)
  next
    case True
    define n where "n = min (Suc k) (length (cw_pending w) - cw_written w)"
    with True have n: "n \<noteq> 0" "n \<le> length (cw_pending w) - cw_written w" by auto
    let ?w1 = "w\<lparr>cw_written := cw_written w + n\<rparr>"
    have len: "unsent w = take n (unsent w) @ unsent ?w1" "length (unsent w) = n + length (unsent ?w1)"
      using n by (simp_all add: unsent_def add.commute flip: drop_drop)
    have "\<exists>snk'. flush ?w1 snk1 = (Ready (Inr ()), ChunkWriter_new, unsent ?w1, snk') \<and> accepting snk' \<and>
        length snk1 \<le> length snk' + length (unsent ?w1) + 1"
      using "1.prems" n True snk len
      by (intro "1.IH" [OF True snk refl n_def]) (auto simp: writer_inv_def accepting_def)
    then obtain snk' where rec: "flush ?w1 snk1 = (Ready (Inr ()), ChunkWriter_new, unsent ?w1, snk')" "accepting snk'"
        "length snk1 \<le> length snk' + length (unsent ?w1) + 1" by blast
    have "flush w snk = (Ready (Inr ()), ChunkWriter_new, take n (unsent w) @ unsent ?w1, snk')"
      using True n rec(1) by (simp add: flush.simps [of w] snk Let_def n_def [symmetric] unsent_def)
    with len rec snk n(1) show ?thesis by auto
  qed
qed

lemma next_event_progress:
  "awaits s src [] raws rf rest \<Longrightarrow> list_all readable raws \<Longrightarrow> accepting snk \<Longrightarrow>
   length (unsent (se_writer s)) + length (replies raws) + length raws + 1 < length snk \<Longrightarrow>
   next_event now s src snk = (res, s', out, src', snk') \<Longrightarrow>
   (case events raws of ev # _ \<Rightarrow> res = Ready (Inr (Some ev)) | [] \<Rightarrow> res = Pending \<and> snk' \<noteq> [])"
proof (induction now s src snk arbitrary: raws res s' out src' snk' rule: next_event.induct)
  case (1 now s src snk)
  have inv: "writer_inv (se_writer s)" using "1.prems"(1) by (simp add: awaits_def)
  from flush_accepting [OF inv "1.prems"(3)] "1.prems"(4) obtain snk1 where
    w: "flush (se_writer s) snk = (Ready (Inr ()), ChunkWriter_new, unsent (se_writer s), snk1)" "accepting snk1"
      "length snk \<le> length snk1 + length (unsent (se_writer s)) + 1" by auto
  let ?s1 = "with_writer s ChunkWriter_new" and ?fout = "unsent (se_writer s)"
  have f: "flush_pending s snk = (Ready (Inr ()), ?s1, ?fout, snk1)" by (simp add: flush_pending_is_flush w)
  have aw1: "awaits ?s1 src [] raws rf rest" using "1.prems"(1)
    by (simp add: awaits_def writer_inv_def ChunkWriter_new_def)
  obtain nres chunks src1 r1 where n: "next_message (se_chunks ?s1) src (se_reassembler ?s1) = (nres, chunks, src1, r1)"
    by (metis prod_cases4)
  define s2 where "s2 = ?s1\<lparr>se_reassembler := r1, se_chunks := chunks\<rparr>"
  have w2: "se_writer s2 = ChunkWriter_new" by (simp add: s2_def with_writer_def se_writer_def)
  from awaits_next_message [OF aw1 n] consider "nres = Pending" "src1 = []" "stalled s2" "awaits s2 src1 [] raws rf rest"
    | raw left where "nres = Ready (Inr raw)" "raws = raw # left" "awaits s2 src1 [] left rf rest"
    by (auto simp: s2_def)
  then show ?case
  proof cases
    case 1
    then have "raws = []" using awaits_stalled [of s2 raws] by simp
    moreover have "res = Pending" "snk' = snk1" using 1 "1.prems"(5) f n by (simp_all add: next_event.simps [of now s])
    ultimately show ?thesis using w(3) "1.prems"(4) by auto
  next
    case (2 raw left)
    obtain m where m: "decode_known (rm_msg_type raw) (rm_payload raw) = Inr m"
      using "1.prems"(2) 2 by (auto simp: readable_def)
    then have msg: "msg_of raw = m" by (simp add: msg_of_def)
    obtain hres s3 where h: "handle now m s2 = (hres, s3)" by fastforce
    have inv2: "writer_inv (se_writer s2)" by (simp add: w2 writer_inv_def ChunkWriter_new_def)
    note ho = handle_outcome [OF inv2 h]
    show ?thesis
    proof (cases "event_of m")
      case (Some ev)
      with "1.prems"(5) f n m h ho 2(1) have "res = Ready (Inr (Some ev))"
        by (simp add: next_event.simps [of now s] s2_def)
      with Some 2(2) msg show ?thesis by simp
    next
      case None
      have hn: "hres = Inr None" using ho None by simp
      obtain out1 where rec: "next_event now s3 src1 snk1 = (res, s', out1, src', snk')"
        using "1.prems"(5) f n m h hn 2(1) by (auto simp: next_event.simps [of now s] s2_def split: prod.splits)
      have "unsent (se_writer s3) = reply_to m" using ho w2 by (simp add: unsent_def ChunkWriter_new_def)
      then have "length (unsent (se_writer s3)) + length (replies left) + length left + 1 < length snk1"
        using "1.prems"(4) w(3) 2(2) msg by simp
      moreover have "list_all readable left" using "1.prems"(2) 2(2) by simp
      ultimately have "case events left of ev # _ \<Rightarrow> res = Ready (Inr (Some ev)) | [] \<Rightarrow> res = Pending \<and> snk' \<noteq> []"
        by (intro "1.IH" [OF f [symmetric] refl refl refl refl n [symmetric] refl refl s2_def 2(1) refl m h [symmetric] hn refl
              awaits_handle [OF h 2(3)] _ w(2) _ rec])
      with None msg 2(2) show ?thesis by simp
    qed
  qed
qed


text \<open>
  A client's life: calls of \<open>next_event\<close>, each with what has newly arrived and how the peer takes
  bytes during that call. A call that returns \<open>Pending\<close> is one that was dropped.
\<close>

fun run_session :: "(nat \<Rightarrow> u64) \<Rightarrow> ClientSession \<Rightarrow> source \<Rightarrow> (source \<times> sink) list \<Rightarrow>
    (io_error + ClientEvent option) poll list \<times> u8 list \<times> ClientSession \<times> source" where
  "run_session now s src [] = ([], [], s, src)"
| "run_session now s src ((new, snk) # later) =
    (case next_event now s (src @ new) snk of
       (res, s1, out, src1, _) \<Rightarrow>
         (case run_session now s1 src1 later of (rs, out', final) \<Rightarrow> (res # rs, out @ out', final)))"

fun surfaced :: "(io_error + ClientEvent option) poll list \<Rightarrow> ClientEvent list" where
  "surfaced [] = []"
| "surfaced (Ready (Inr (Some ev)) # rs) = ev # surfaced rs"
| "surfaced (_ # rs) = surfaced rs"

lemma surfaced_outcome: "outcome res evs s src snk \<Longrightarrow> surfaced (res # rs) = evs @ surfaced rs"
  by (auto simp: outcome_def split: poll.splits sum.splits option.splits)

lemma awaits_more:
  "awaits s src (src_bytes new @ extra) raws rf rest \<Longrightarrow> live new \<Longrightarrow> awaits s (src @ new) extra raws rf rest"
  by (simp add: awaits_def)

lemma run_session_step:
  "awaits s src (concat (map (src_bytes \<circ> fst) calls)) raws rf rest \<Longrightarrow> list_all readable raws \<Longrightarrow>
   list_all (live \<circ> fst) calls \<Longrightarrow> run_session now s src calls = (rs, out, s', src') \<Longrightarrow>
   \<exists>taken left. raws = taken @ left \<and> awaits s' src' [] left rf rest \<and>
     unsent (se_writer s) @ replies taken = out @ unsent (se_writer s') \<and> surfaced rs = events taken \<and>
     Ready (Inr None) \<notin> set rs \<and> (\<forall>e. Ready (Inl e) \<in> set rs \<longrightarrow> e = WriteZero \<or> (\<exists>k. e = OtherIo k))"
proof (induction calls arbitrary: s src raws rs out)
  case Nil
  then show ?case by (intro exI [of "\<lambda>t. \<exists>l. _ t l" "[]"]) auto
next
  case (Cons call later)
  obtain new snk where call: "call = (new, snk)" by fastforce
  obtain res s1 out1 src1 snk1 where ne: "next_event now s (src @ new) snk = (res, s1, out1, src1, snk1)" by (metis prod_cases5)
  obtain rs2 out2 where rec: "run_session now s1 src1 later = (rs2, out2, s', src')"
    and eqs: "rs = res # rs2" "out = out1 @ out2"
    using Cons.prems(4) call ne by (auto split: prod.splits)
  have "awaits s (src @ new) (concat (map (src_bytes \<circ> fst) later)) raws rf rest"
    using Cons.prems(1,3) call by (intro awaits_more) (simp_all add: o_def)
  from next_event_step [OF this Cons.prems(2) ne] obtain taken left where
    step: "raws = taken @ left" "awaits s1 src1 (concat (map (src_bytes \<circ> fst) later)) left rf rest"
      "unsent (se_writer s) @ replies taken = out1 @ unsent (se_writer s1)" "outcome res (events taken) s1 src1 snk1" by blast
  from Cons.IH [OF step(2) _ _ rec] Cons.prems(2,3) step(1) obtain taken2 left2 where
    ih: "left = taken2 @ left2" "awaits s' src' [] left2 rf rest"
      "unsent (se_writer s1) @ replies taken2 = out2 @ unsent (se_writer s')" "surfaced rs2 = events taken2"
      "Ready (Inr None) \<notin> set rs2" "\<forall>e. Ready (Inl e) \<in> set rs2 \<longrightarrow> e = WriteZero \<or> (\<exists>k. e = OtherIo k)"
    by auto
  have "unsent (se_writer s) @ replies (taken @ taken2) = (unsent (se_writer s) @ replies taken) @ replies taken2" by simp
  also have "\<dots> = out1 @ unsent (se_writer s1) @ replies taken2" by (simp only: step(3) append_assoc)
  finally have wires: "unsent (se_writer s) @ replies (taken @ taken2) = out @ unsent (se_writer s')"
    by (simp only: ih(3) eqs append_assoc)
  have evs: "surfaced rs = events (taken @ taken2)" using surfaced_outcome [OF step(4)] ih(4) eqs by simp
  have res: "res \<noteq> Ready (Inr None)" "\<forall>e. res = Ready (Inl e) \<longrightarrow> e = WriteZero \<or> (\<exists>k. e = OtherIo k)"
    using step(4) by (auto simp: outcome_def split: poll.splits sum.splits option.splits)
  show ?case
    by (rule exI [of _ "taken @ taken2"], rule exI [of _ left2])
      (use step(1) ih wires evs res eqs in auto)
qed

lemma awaits_new:
  assumes "se_chunks s = ChunkReader_new" "se_pending_out s = []" "se_pending_written s = 0" "se_reassembler s = r"
    and "parse_all r bs = (raws, Short rf rest)"
  shows "awaits s [] bs raws rf rest" and "unsent (se_writer s) = []"
  using assms by (simp_all add: awaits_def writer_inv_def se_writer_def unsent_def)


text \<open>What the client is to surface and to answer, on the messages sent.\<close>

definition sent_events :: "(Message \<times> u16) list \<Rightarrow> ClientEvent list" where
  "sent_events ms = List.map_filter (event_of \<circ> Some \<circ> fst) ms"

definition sent_replies :: "(Message \<times> u16) list \<Rightarrow> u8 list" where
  "sent_replies ms = concat (map (reply_to \<circ> Some \<circ> fst) ms)"

abbreviation raws_of :: "(Message \<times> u16) list \<Rightarrow> raw_message list" where
  "raws_of ms \<equiv> map (snd \<circ> tagged \<circ> envelope_of) ms"

lemma raws_decode:
  "list_all (deliverable \<circ> fst) ms \<Longrightarrow>
   list_all readable (raws_of ms) \<and> events (raws_of ms) = sent_events ms \<and> replies (raws_of ms) = sent_replies ms"
proof (induction ms)
  case (Cons x ms)
  then have "msg_of (snd (tagged (envelope_of x))) = Some (fst x)" "readable (snd (tagged (envelope_of x)))"
    using decode_delivered [of "fst x" "snd x"] by (simp_all add: msg_of_def readable_def)
  with Cons show ?case
    by (simp add: sent_events_def sent_replies_def map_filter_simps split: option.splits)
qed (simp add: sent_events_def sent_replies_def map_filter_simps)

lemma next_event_blocked: "next_event now (session_of r sh) src [] = (Pending, session_of r sh, [], src, [])"
proof -
  have "flush_pending (session_of r sh) [] = (Pending, session_of r sh, [], [])"
    by (subst flush_pending.simps) (simp add: session_of_def)
  then show ?thesis by (subst next_event.simps) simp
qed

section \<open>The two ends against each other\<close>

lemma features_known:
  assumes "agreed supported h n"
  shows "and (ng_features n) SUPPORTED = ng_features n"
  by (rule bit_eqI) (use assms in \<open>auto simp: agreed_def bit_and_iff\<close>)

lemma await_hello_next:
  assumes "deliverable m" "live src" "src_bytes src = control_wire m @ rest"
  obtains src' where "src_bytes src' = rest"
    "await_hello src Reassembler_new =
      (case m of
         ServerHello sh \<Rightarrow> (Ready (Inr (session_of Reassembler_new sh)), src')
       | Error e \<Rightarrow> (Ready (Inl (CePermissionDenied (if er_code e = ERR_AUTH_FAILED then ''authentication rejected by the agent''
            else ''agent refused the session'') (er_message e) (er_code e))), src')
       | other \<Rightarrow> (Ready (Inl (CeUnexpected (msg_type other))), src'))"
proof -
  obtain src' where "read_message src Reassembler_new = (Ready (Inr (Some m)), src', Reassembler_new)" "src_bytes src' = rest"
    using assms by (rule read_message_next)
  then show thesis by (intro that [of src']) (simp_all add: await_hello.simps [of src] split: Message.splits)
qed

lemma connect_sends:
  assumes "deliverable (ClientHello (client_hello config))" "accepting snk"
    "length (control_wire (ClientHello (client_hello config))) < length snk"
  obtains snk' where "connect src snk config =
    (case await_hello src Reassembler_new of (res, src') \<Rightarrow> (res, control_wire (ClientHello (client_hello config)), src', snk'))"
  using write_message_accepting [OF _ assms(2,3)] assms(1) by (auto simp: deliverable_def connect_def)

definition sample_config :: SessionConfig where
  "sample_config = \<lparr>sc_auth_token = ascii ''key'', sc_client_name = ascii ''c'', sc_codecs = [2, 1],
     sc_display = \<lparr>dl_outputs = []\<rparr>\<rparr>"

lemma sample_config_hello:
  "deliverable (ClientHello (client_hello sample_config))"
  "length (control_wire (ClientHello (client_hello sample_config))) < 200"
  "acceptable RAW_BGRA_ONLY (\<lambda>t. t = ascii ''key'') (client_hello sample_config)"
proof -
  let ?m = "ClientHello (client_hello sample_config)"
  have ok: "valid_msg ?m" and len: "length (img_msg ?m) < 100"
    by (simp_all add: sample_config_def client_hello_def valid_ClientHello_def valid_DisplayLayout_def string_ok_def ascii_def
      img_ClientHello_def img_DisplayLayout_def codec_size string_size_def)
  then show "deliverable ?m" by (simp add: deliverable_def max_message_len_def)
  show "length (control_wire ?m) < 200"
    using len by (subst small_wire_length [OF ok]) (simp_all add: MAX_CHUNK_PAYLOAD_def CHUNK_HEADER_LEN_def)
  show "acceptable RAW_BGRA_ONLY (\<lambda>t. t = ascii ''key'') (client_hello sample_config)"
    by (auto simp: acceptable_def client_hello_def sample_config_def version_ok_def RAW_BGRA_ONLY_def RAW_BGRA_def
      MIN_SUPPORTED_VERSION_def PROTOCOL_VERSION_def intro: exI [of _ 1])
qed

section \<open>The best offset sample\<close>

lemma oe_push_lastn: "oe_push s (lastn OFFSET_CANDIDATES xs) = lastn OFFSET_CANDIDATES (xs @ [s])"
proof (cases "64 \<le> length xs")
  case True
  then have "length xs - 63 = Suc (length xs - 64)" by simp
  with True show ?thesis by (simp add: oe_push_def lastn_def OFFSET_CANDIDATES_def drop_Suc tl_drop)
qed (simp add: oe_push_def lastn_def OFFSET_CANDIDATES_def)

lemma oe_push_all: "fold oe_push samples [] = lastn OFFSET_CANDIDATES samples"
  by (induction samples rule: rev_induct) (simp_all add: oe_push_lastn, simp add: lastn_def)

lemma min_by_key_split:
  "foldl (\<lambda>best y. if f y < f best then y else best) x xs = m \<Longrightarrow>
   \<exists>older newer. x # xs = older @ m # newer \<and> list_all (\<lambda>t. f m < f t) older \<and> list_all (\<lambda>t. f m \<le> f t) newer"
  for f :: "'a \<Rightarrow> 'b::linorder"
proof (induction xs arbitrary: x)
  case (Cons y ys)
  show ?case
  proof (cases "f y < f x")
    case True
    with Cons.prems have "foldl (\<lambda>best y. if f y < f best then y else best) y ys = m" by simp
    from Cons.IH [OF this] obtain older newer where s: "y # ys = older @ m # newer" "list_all (\<lambda>t. f m < f t) older" "list_all (\<lambda>t. f m \<le> f t) newer"
      by blast
    have "f m \<le> f y" using s by (cases older) auto
    with s True show ?thesis by (intro exI [of _ "x # older"] exI [of _ newer]) auto
  next
    case False
    with Cons.prems have "foldl (\<lambda>best y. if f y < f best then y else best) x ys = m" by simp
    from Cons.IH [OF this] obtain older newer where s: "x # ys = older @ m # newer" "list_all (\<lambda>t. f m < f t) older" "list_all (\<lambda>t. f m \<le> f t) newer"
      by blast
    show ?thesis
    proof (cases older)
      case Nil
      with s False show ?thesis by (intro exI [of _ "[]"] exI [of _ "y # newer"]) auto
    next
      case (Cons o' os)
      with s False show ?thesis by (intro exI [of _ "x # y # os"] exI [of _ newer]) auto
    qed
  qed
next
  case Nil
  then show ?case by (intro exI [of _ "[]"]) simp
qed

lemma unat_error_bound:
  "unat (error_bound_us now s) =
     unat (of_rtt_us s) div 2 + min ((unat now - unat (of_taken_at_us s)) * 100) (2 ^ 64 - 1) div 1000000"
proof -
  let ?age = "u64_saturating_sub now (of_taken_at_us s)" and ?m = "u64_saturating_mul (u64_saturating_sub now (of_taken_at_us s)) CLOCK_DRIFT_PPM"
  have age: "unat ?age = unat now - unat (of_taken_at_us s)"
    by (auto simp: u64_saturating_sub_def unat_sub not_less word_le_nat_alt word_less_nat_alt)
  have mul: "unat ?m = min (unat ?age * 100) (2 ^ 64 - 1)"
    by (auto simp: u64_saturating_mul_def CLOCK_DRIFT_PPM_def unat_word_ariths unsigned_minus_1_eq_mask mask_eq_exp_minus_1)
  have "unat (of_rtt_us s div 2) + unat (?m div 1000000) < 2 ^ 64"
    using unat_less_power [of "of_rtt_us s"] unat_less_power [of ?m] by (simp add: unat_div)
  then have "unat (of_rtt_us s div 2 + ?m div 1000000) = unat (of_rtt_us s) div 2 + unat ?m div 1000000"
    using unat_add_lem [of "of_rtt_us s div 2" "?m div 1000000"] by (simp add: unat_div)
  then show ?thesis by (simp add: error_bound_us_def mul age)
qed


section \<open>Properties\<close>

text \<open>
  C17: The two ends agree. The client's \<open>connect\<close> and the agent's \<open>negotiate\<close> run against each
  other, each reading what the other wrote, cut up in any way. If the hello is acceptable (token
  verified, versions overlap, common codec), both succeed with the same version, features, codec
  and session id, within the contract of the negotiation, and the client's stream is left exactly
  behind the \<open>ServerHello\<close>. Otherwise both fail: the agent reports a rejection and the client the
  same code, blaming authentication exactly when the token was the reason.
\<close>

theorem session_agreement:
  assumes hello: "deliverable (ClientHello (client_hello config))"
    and client: "connect src_c snk_c config = (res_c, out_c, src_c', snk_c')"
    and agent: "negotiate src_a snk_a Reassembler_new sid supported verify = (res_a, out_a, src_a', snk_a', r_a)"
    and wire: "live src_a" "src_bytes src_a = out_c" "live src_c" "src_bytes src_c = out_a @ later"
    and peers: "accepting snk_c" "length (control_wire (ClientHello (client_hello config))) < length snk_c"
      "accepting snk_a" "200 \<le> length snk_a"
  shows "if acceptable supported verify (client_hello config)
    then \<exists>n s. res_a = Ready (Inr n) \<and> res_c = Ready (Inr s) \<and> agreed supported (client_hello config) n \<and>
      ng_session_id n = sid \<and> se_version s = ng_version n \<and> se_features s = ng_features n \<and> se_codec s = ng_codec n \<and>
      se_session_id s = sid \<and> src_bytes src_c' = later
    else \<exists>code message reason what. res_a = Ready (Inl (HsRejected code reason)) \<and>
      res_c = Ready (Inl (CePermissionDenied what message code)) \<and>
      (what = ''authentication rejected by the agent'' \<longleftrightarrow> \<not> verify (sc_auth_token config))"
proof -
  let ?h = "client_hello config"
  obtain snk1 where con: "connect src_c snk_c config =
      (case await_hello src_c Reassembler_new of (res, src') \<Rightarrow> (res, control_wire (ClientHello ?h), src', snk1))"
    using hello peers(1,2) by (rule connect_sends)
  then have out_c: "out_c = control_wire (ClientHello ?h)" and aw: "await_hello src_c Reassembler_new = (res_c, src_c')"
    using client by (auto split: prod.splits)
  have "src_bytes src_a = control_wire (ClientHello ?h) @ []" using wire(2) out_c by simp
  then obtain src1 where "negotiate src_a snk_a Reassembler_new sid supported verify =
      (case answer sid supported verify (Some (ClientHello ?h)) snk_a of (res, out, snk') \<Rightarrow> (res, out, src1, snk', Reassembler_new))"
    by (rule negotiate_reads [OF hello wire(1)])
  then have ans: "answer sid supported verify (Some (ClientHello ?h)) snk_a = (res_a, out_a, snk_a')"
    using agent by (auto split: prod.splits)
  show ?thesis
  proof (cases "acceptable supported verify ?h")
    case True
    from answer_accepting(1) [OF peers(3,4) True, of sid] ans obtain n where
      n: "agreed supported ?h n" "ng_session_id n = sid" "res_a = Ready (Inr n)" "out_a = control_wire (ServerHello (server_hello_of n))"
      by auto
    have "src_bytes src_c = control_wire (ServerHello (server_hello_of n)) @ later" using wire(4) n(4) by simp
    then have "src_bytes src_c' = later \<and> res_c = Ready (Inr (session_of Reassembler_new (server_hello_of n)))"
      by (rule await_hello_next [OF server_hello_deliverable(1) wire(3)]) (simp add: aw)
    with n True features_known [OF n(1)] show ?thesis by (auto simp: session_of_def server_hello_of_def)
  next
    case False
    then have "turned_away supported verify (Some (ClientHello ?h))" by (simp add: turned_away_def)
    from answer_accepting(2) [OF peers(3,4) this, of sid] ans obtain message reason where
      r: "deliverable (Error \<lparr>er_code = refusal_code verify (Some (ClientHello ?h)), er_message = message\<rparr>)"
        "res_a = Ready (Inl (HsRejected (refusal_code verify (Some (ClientHello ?h))) reason))"
        "out_a = control_wire (Error \<lparr>er_code = refusal_code verify (Some (ClientHello ?h)), er_message = message\<rparr>) @
          control_wire (Close \<lparr>cl_reason = CLOSE_ERROR\<rparr>)"
      by auto
    have "src_bytes src_c = control_wire (Error \<lparr>er_code = refusal_code verify (Some (ClientHello ?h)), er_message = message\<rparr>) @
        control_wire (Close \<lparr>cl_reason = CLOSE_ERROR\<rparr>) @ later" using wire(4) r(3) by simp
    then have "res_c = Ready (Inl (CePermissionDenied (if refusal_code verify (Some (ClientHello ?h)) = ERR_AUTH_FAILED
        then ''authentication rejected by the agent'' else ''agent refused the session'') message
        (refusal_code verify (Some (ClientHello ?h)))))"
      by (rule await_hello_next [OF r(1) wire(3)]) (simp add: aw)
    with r(2) False show ?thesis
      by (auto simp: refusal_code_def client_hello_def ERR_AUTH_FAILED_def ERR_UNSUPPORTED_CODEC_def ERR_VERSION_MISMATCH_def)
  qed
qed


theorem session_agreement_witness:
  "\<exists>src_c snk_c src_a snk_a n s out_c out_a src_c' snk_c' src_a' snk_a' r.
     connect src_c snk_c sample_config = (Ready (Inr s), out_c, src_c', snk_c') \<and>
     negotiate src_a snk_a Reassembler_new 7 RAW_BGRA_ONLY (\<lambda>t. t = ascii ''key'') = (Ready (Inr n), out_a, src_a', snk_a', r) \<and>
     src_bytes src_a = out_c \<and> src_bytes src_c = out_a \<and> se_session_id s = 7 \<and> se_codec s = ng_codec n"
proof -
  let ?h = "ClientHello (client_hello sample_config)" and ?snk = "replicate 200 (Accepts 1)" and ?verify = "\<lambda>t. t = ascii ''key''"
  let ?src_a = "[Segment (control_wire ?h)]"
  note hello = sample_config_hello
  have acc: "accepting ?snk" "200 \<le> length ?snk" by (simp_all add: accepting_def list_all_iff)
  have live_a: "live ?src_a" "src_bytes ?src_a = control_wire ?h @ []"
    using wire_not_Nil [OF hello(1)] by (simp_all add: live_def)
  obtain n snk' where ans: "answer 7 RAW_BGRA_ONLY ?verify (Some ?h) ?snk = (Ready (Inr n), control_wire (ServerHello (server_hello_of n)), snk')"
    using answer_accepting(1) [OF acc hello(3), of 7] by blast
  obtain src_a' where "negotiate ?src_a ?snk Reassembler_new 7 RAW_BGRA_ONLY ?verify =
      (case answer 7 RAW_BGRA_ONLY ?verify (Some ?h) ?snk of (res, out, snk') \<Rightarrow> (res, out, src_a', snk', Reassembler_new))"
    using live_a by (rule negotiate_reads [OF hello(1)])
  then have agent: "negotiate ?src_a ?snk Reassembler_new 7 RAW_BGRA_ONLY ?verify
      = (Ready (Inr n), control_wire (ServerHello (server_hello_of n)), src_a', snk', Reassembler_new)" by (simp only: ans prod.case)
  let ?src_c = "[Segment (control_wire (ServerHello (server_hello_of n)))]"
  have live_c: "live ?src_c" "src_bytes ?src_c = control_wire (ServerHello (server_hello_of n)) @ []"
    using wire_not_Nil [OF server_hello_deliverable(1)] by (simp_all add: live_def)
  obtain res_c src_c' snk_c' where client: "connect ?src_c ?snk sample_config = (res_c, control_wire ?h, src_c', snk_c')"
    by (rule connect_sends [OF hello(1) acc(1), of ?src_c]) (use hello(2) in \<open>auto split: prod.splits\<close>)
  have bytes: "src_bytes ?src_a = control_wire ?h" "length (control_wire ?h) < length ?snk" using live_a(2) hello(2) by simp_all
  from session_agreement [OF hello(1) client agent live_a(1) bytes(1) live_c acc(1) bytes(2) acc] hello(3) obtain s where
    "res_c = Ready (Inr s)" "se_session_id s = 7" "se_codec s = ng_codec n" by auto
  moreover have "src_bytes ?src_c = control_wire (ServerHello (server_hello_of n))" using live_c(2) by simp
  ultimately show ?thesis using client agent bytes(1) by blast
qed

text \<open>
  C18: The event pump is cancel-safe and makes progress. The agent sends any deliverable messages;
  their bytes reach the client cut up arbitrarily over any number of \<open>next_event\<close> calls, any of
  which may be dropped while it waits for input or for the peer to take bytes. At every moment the
  events handed out are those of a prefix of the messages, in order, and the bytes written,
  followed by those still queued, are the pongs to the pings of that prefix; no call fails except
  for a write failure and none reports the end of the stream. One more call whose peer takes bytes
  returns the next event, or, when all have been handed out, waits with every ping answered.
\<close>

theorem pump_cancel_safe:
  assumes sent: "list_all (deliverable \<circ> fst) ms"
    and arrival: "list_all (live \<circ> fst) calls" "concat (map (src_bytes \<circ> fst) calls) = concat (map chunk_wire (wire_chunks ms))"
    and run: "run_session now (session_of Reassembler_new sh) [] calls = (rs, out, s, src)"
    and peer: "accepting snk" "length (sent_replies ms) + length ms + 1 < length snk"
    and call: "next_event now s src snk = (res, s', out', src', snk')"
  shows "(\<exists>k. surfaced rs = sent_events (take k ms) \<and> out @ unsent (se_writer s) = sent_replies (take k ms)) \<and>
    Ready (Inr None) \<notin> set rs \<and> (\<forall>e. Ready (Inl e) \<in> set rs \<longrightarrow> e = WriteZero \<or> (\<exists>n. e = OtherIo n)) \<and>
    (if length (surfaced rs) < length (sent_events ms)
     then res = Ready (Inr (Some (sent_events ms ! length (surfaced rs))))
     else res = Pending \<and> surfaced rs = sent_events ms \<and> out @ out' = sent_replies ms)"
proof -
  let ?s0 = "session_of Reassembler_new sh"
  have "parse_all Reassembler_new (concat (map chunk_wire (wire_chunks ms))) = (raws_of ms, Short Reassembler_new [])"
    using sent by (intro parse_wire) (force simp: list_all_iff)
  then have start: "awaits ?s0 [] (concat (map (src_bytes \<circ> fst) calls)) (raws_of ms) Reassembler_new []"
      "unsent (se_writer ?s0) = []"
    using arrival(2) awaits_new [of ?s0] by (simp_all add: session_of_def)
  note decode = raws_decode [OF sent]
  from run_session_step [OF start(1) _ arrival(1) run] start(2) decode obtain taken left where
    step: "raws_of ms = taken @ left" "awaits s src [] left Reassembler_new []" "replies taken = out @ unsent (se_writer s)"
      "surfaced rs = events taken" "Ready (Inr None) \<notin> set rs"
      "\<forall>e. Ready (Inl e) \<in> set rs \<longrightarrow> e = WriteZero \<or> (\<exists>k. e = OtherIo k)" by auto
  define k where "k = length taken"
  have "taken = raws_of (take k ms)"
    using arg_cong [OF step(1), of "take k"] by (simp add: k_def take_map)
  moreover have "list_all (deliverable \<circ> fst) (take k ms)" using sent by (auto simp: list_all_iff dest: in_set_takeD)
  ultimately have sub: "surfaced rs = sent_events (take k ms) \<and> out @ unsent (se_writer s) = sent_replies (take k ms)"
    using raws_decode [of "take k ms"] step(3,4) by simp
  have left: "list_all readable left" using decode step(1) by simp
  have all: "sent_events ms = surfaced rs @ events left" "sent_replies ms = out @ unsent (se_writer s) @ replies left"
    using decode step(1,3,4) by simp_all
  have "length ms = length taken + length left" using arg_cong [OF step(1), of length] by simp
  then have "length (unsent (se_writer s)) + length (replies left) + length left + 1 < length snk"
    using peer(2) all(2) by simp
  note next_event_progress [OF step(2) left peer(1) this call]
  then have prog: "case events left of ev # _ \<Rightarrow> res = Ready (Inr (Some ev)) | [] \<Rightarrow> res = Pending \<and> snk' \<noteq> []" .
  have "if length (surfaced rs) < length (sent_events ms)
     then res = Ready (Inr (Some (sent_events ms ! length (surfaced rs))))
     else res = Pending \<and> surfaced rs = sent_events ms \<and> out @ out' = sent_replies ms"
  proof (cases "events left")
    case Nil
    with prog have idle: "res = Pending" "snk' \<noteq> []" by simp_all
    from next_event_step [OF step(2) left call] idle obtain taken2 left2 where
      fin: "left = taken2 @ left2" "awaits s' src' [] left2 Reassembler_new []"
        "unsent (se_writer s) @ replies taken2 = out' @ unsent (se_writer s')"
        "src' = []" "stalled s'" "unsent (se_writer s') = []" by (auto simp: outcome_def)
    then have "left2 = []" using awaits_stalled [of s' left2] by simp
    with fin all Nil idle show ?thesis by simp
  next
    case (Cons ev evs)
    with prog all(1) show ?thesis by simp
  qed
  with sub step(5,6) show ?thesis by auto
qed

text \<open>A \<open>Ping\<close> and a \<open>WindowClosed\<close> arrive while the first call is dropped before it reads anything.\<close>

theorem pump_cancel_safe_witness:
  "\<exists>rs out s src s' out' src' snk'.
     run_session (\<lambda>_. 0) (session_of Reassembler_new \<lparr>sh_version = 1, sh_features = 0, sh_session_id = 7, sh_codec = 1\<rparr>) []
       [([Segment [5, 0, 0, 0, 12, 0, 0, 0, 1, 0, 0],
          Segment [0, 9, 0, 0, 0, 0, 0, 0, 0, 0x11, 0, 3, 0, 4, 0, 0, 0, 5, 0, 0, 0]], [])] = (rs, out, s, src) \<and>
     next_event (\<lambda>_. 0) s src (replicate 40 (Accepts 1))
       = (Ready (Inr (Some (EvWindowClosed \<lparr>wcl_window_id = 5\<rparr>))), s', out', src', snk')"
proof -
  let ?ms = "[(Ping \<lparr>pi_seq = 1, pi_sent_us = 9\<rparr>, 0), (WindowClosed \<lparr>wcl_window_id = 5\<rparr>, 0)] :: (Message \<times> u16) list"
  let ?calls = "[([Segment [5, 0, 0, 0, 12, 0, 0, 0, 1, 0, 0],
          Segment [0, 9, 0, 0, 0, 0, 0, 0, 0, 0x11, 0, 3, 0, 4, 0, 0, 0, 5, 0, 0, 0]], [])] :: (source \<times> sink) list"
  let ?s0 = "session_of Reassembler_new \<lparr>sh_version = 1, sh_features = 0, sh_session_id = 7, sh_codec = 1\<rparr>"
  have sent: "list_all (deliverable \<circ> fst) ?ms"
    by (simp add: deliverable_def max_message_len_def valid_Ping_def valid_WindowClosed_def img_Ping_def img_WindowClosed_def codec_size)
  have arrival: "list_all (live \<circ> fst) ?calls" "concat (map (src_bytes \<circ> fst) ?calls) = concat (map chunk_wire (wire_chunks ?ms))"
    by (simp add: live_def) code_simp
  obtain rs out s src where run: "run_session (\<lambda>_. 0) ?s0 [] ?calls = (rs, out, s, src)" by (metis prod_cases4)
  then have rs: "surfaced rs = []" using next_event_blocked [of "\<lambda>_. 0"] by auto
  have spec: "sent_events ?ms = [EvWindowClosed \<lparr>wcl_window_id = 5\<rparr>]" and len: "length (sent_replies ?ms) = 28"
    by (simp_all add: sent_events_def sent_replies_def map_filter_simps small_wire_length valid_Pong_def img_Pong_def codec_size
        MAX_CHUNK_PAYLOAD_def CHUNK_HEADER_LEN_def)
  have peer: "accepting (replicate 40 (Accepts 1))" "length (sent_replies ?ms) + length ?ms + 1 < length (replicate 40 (Accepts 1))"
    by (simp_all add: accepting_def list_all_iff len)
  obtain res s' out' src' snk' where call: "next_event (\<lambda>_. 0) s src (replicate 40 (Accepts 1)) = (res, s', out', src', snk')"
    by (metis prod_cases5)
  from pump_cancel_safe [OF sent arrival run peer call] spec rs have "res = Ready (Inr (Some (EvWindowClosed \<lparr>wcl_window_id = 5\<rparr>)))"
    by simp
  with run call show ?thesis by blast
qed


text \<open>
  The offset estimate is the most trustworthy of the last 64 exchanges: \<open>best\<close> returns a sample
  whose error bound at that moment (half its round trip plus the drift of 100 ppm since it was taken,
  computed without overflow) is minimal, the oldest of equals; there is none only before the
  first sample.
\<close>

theorem best_offset:
  "case best now (fold oe_push samples []) of
     None \<Rightarrow> samples = []
   | Some s \<Rightarrow> \<exists>older newer. lastn 64 samples = older @ s # newer \<and>
       list_all (\<lambda>t. error_bound_us now s < error_bound_us now t) older \<and>
       list_all (\<lambda>t. error_bound_us now s \<le> error_bound_us now t) newer \<and>
       unat (error_bound_us now s) =
         unat (of_rtt_us s) div 2 + min ((unat now - unat (of_taken_at_us s)) * 100) (2 ^ 64 - 1) div 1000000"
proof (cases "lastn 64 samples")
  case Nil
  then have "samples = []" by (cases samples) (auto simp: lastn_def)
  then show ?thesis by (simp add: best_def)
next
  case (Cons x xs)
  then have b: "best now (fold oe_push samples []) =
      Some (foldl (\<lambda>best y. if error_bound_us now y < error_bound_us now best then y else best) x xs)"
    by (simp add: best_def oe_push_all OFFSET_CANDIDATES_def)
  from min_by_key_split [of "error_bound_us now", OF refl] show ?thesis unfolding b Cons option.case by (blast intro: unat_error_bound)
qed

end
