(* ===== verification/Geometry.thy ===== *)
theory Geometry
  imports Client_Model
begin

text \<open>
  Which local geometry changes are the user's (\<open>oxclient/src/geometry.rs\<close>): the per-window state of
  \<open>GeometrySync\<close> and its five operations. \<open>Instant\<close> is a natural number of nanoseconds; window
  ids, positions and sizes are words of their width.

  The properties are the two rules of the module: reports while the window manager settles have
  no effect at all, and what is sent is the guest's own position displaced by exactly what the
  user dragged.
\<close>

section \<open>State and operations\<close>

type_synonym instant = nat

definition SETTLE :: nat where "SETTLE = 750 * 1000000"

record WindowSync =
  ws_settling_until :: instant
  ws_guest_anchor :: "i32 \<times> i32"
  ws_local_anchor :: "(i32 \<times> i32) option"
  ws_local_size :: "(u16 \<times> u16) option"

type_synonym GeometrySync = "(u32 \<times> WindowSync) list"

definition GeometrySync_new :: GeometrySync where
  "GeometrySync_new = []"

definition i32_clamp :: "int \<Rightarrow> i32" where
  "i32_clamp v = word_of_int (max (- (2 ^ 31)) (min v (2 ^ 31 - 1)))"

definition i32_saturating_sub :: "i32 \<Rightarrow> i32 \<Rightarrow> i32" where
  "i32_saturating_sub a b = i32_clamp (sint a - sint b)"

definition i32_saturating_add :: "i32 \<Rightarrow> i32 \<Rightarrow> i32" where
  "i32_saturating_add a b = i32_clamp (sint a + sint b)"

definition created :: "instant \<Rightarrow> u32 \<Rightarrow> i32 \<Rightarrow> i32 \<Rightarrow> GeometrySync \<Rightarrow> GeometrySync" where
  "created now window_id x y g =
     AList.update window_id
       \<lparr>ws_settling_until = now + SETTLE, ws_guest_anchor = (x, y), ws_local_anchor = None, ws_local_size = None\<rparr> g"

definition guest_moved :: "instant \<Rightarrow> u32 \<Rightarrow> i32 \<Rightarrow> i32 \<Rightarrow> GeometrySync \<Rightarrow> GeometrySync" where
  "guest_moved now window_id x y g =
    (case map_of g window_id of
       None \<Rightarrow> g
     | Some state \<Rightarrow>
         AList.update window_id
           (state\<lparr>ws_settling_until := now + SETTLE, ws_guest_anchor := (x, y), ws_local_anchor := None,
                  ws_local_size := None\<rparr>) g)"

definition geo_forget :: "u32 \<Rightarrow> GeometrySync \<Rightarrow> GeometrySync" where
  "geo_forget window_id g = AList.delete window_id g"

definition moved :: "instant \<Rightarrow> u32 \<Rightarrow> i32 \<Rightarrow> i32 \<Rightarrow> GeometrySync \<Rightarrow> (i32 \<times> i32) option \<times> GeometrySync" where
  "moved now window_id x y g =
    (case map_of g window_id of
       None \<Rightarrow> (None, g)
     | Some state \<Rightarrow>
         (if now < ws_settling_until state then (None, g)
          else
            let state1 = state\<lparr>ws_local_anchor := Some (x, y)\<rparr> in
            case ws_local_anchor state of
              None \<Rightarrow> (None, AList.update window_id state1 g)
            | Some (previous_x, previous_y) \<Rightarrow>
                let dx = i32_saturating_sub x previous_x; dy = i32_saturating_sub y previous_y in
                if dx = 0 \<and> dy = 0 then (None, AList.update window_id state1 g)
                else
                  let target = (i32_saturating_add (fst (ws_guest_anchor state)) dx,
                                i32_saturating_add (snd (ws_guest_anchor state)) dy) in
                  (Some target, AList.update window_id (state1\<lparr>ws_guest_anchor := target\<rparr>) g)))"

definition resized :: "instant \<Rightarrow> WindowModel \<Rightarrow> u32 \<Rightarrow> u16 \<Rightarrow> u16 \<Rightarrow> GeometrySync \<Rightarrow>
    (u16 \<times> u16) option \<times> GeometrySync" where
  "resized now model window_id width height g =
    (if (case md_get model window_id of None \<Rightarrow> True | Some w \<Rightarrow> \<not> rw_resizable w) then (None, g)
     else if width = 0 \<or> height = 0 then (None, g)
     else case map_of g window_id of
       None \<Rightarrow> (None, g)
     | Some state \<Rightarrow>
         (if now < ws_settling_until state then (None, g)
          else
            let g' = AList.update window_id (state\<lparr>ws_local_size := Some (width, height)\<rparr>) g in
            case ws_local_size state of
              None \<Rightarrow> (None, g')
            | Some previous \<Rightarrow> if previous = (width, height) then (None, g') else (Some (width, height), g')))"

section \<open>Drags\<close>

text \<open>Positions a user's drag goes through, with the time of each report; what is sent for each.\<close>

fun drag :: "u32 \<Rightarrow> (instant \<times> i32 \<times> i32) list \<Rightarrow> GeometrySync \<Rightarrow> (i32 \<times> i32) option list \<times> GeometrySync" where
  "drag i [] g = ([], g)"
| "drag i ((now, x, y) # rest) g =
    (case moved now i x y g of (sent, g1) \<Rightarrow> (case drag i rest g1 of (later, g2) \<Rightarrow> (sent # later, g2)))"

lemma drag_Cons:
  "fst (drag i ((now, x, y) # rest) g) = fst (moved now i x y g) # fst (drag i rest (snd (moved now i x y g)))"
  "snd (drag i ((now, x, y) # rest) g) = snd (drag i rest (snd (moved now i x y g)))"
  by (simp_all split: prod.splits)

text \<open>Far enough from the ends of the range that nothing saturates.\<close>

definition small :: "i32 \<Rightarrow> bool" where
  "small v \<longleftrightarrow> \<bar>sint v\<bar> < 2 ^ 28"

lemma i32_sint: "\<bar>v\<bar> < 2 ^ 31 \<Longrightarrow> sint (word_of_int v :: i32) = v"
  by (auto simp: signed_of_int signed_take_bit_int_eq_self)

lemma i32_clamp_id: "\<bar>v\<bar> < 2 ^ 31 \<Longrightarrow> i32_clamp v = word_of_int v \<and> sint (i32_clamp v) = v"
  by (auto simp: i32_clamp_def min_def max_def signed_of_int signed_take_bit_int_eq_self)

lemma saturating_step:
  assumes "small g" "small a" "small p" "small prev"
  shows "i32_saturating_sub p prev = p - prev"
    and "i32_saturating_add (g + (prev - a)) (p - prev) = g + (p - a)"
proof -
  have clamp: "i32_clamp (sint p - sint prev) = word_of_int (sint p - sint prev) \<and> sint (i32_clamp (sint p - sint prev)) = sint p - sint prev"
    using assms by (intro i32_clamp_id) (auto simp: small_def abs_less_iff)
  have d: "word_of_int (sint p - sint prev) = p - prev" by (simp add: wi_hom_sub [symmetric])
  then show sub: "i32_saturating_sub p prev = p - prev"
    using clamp by (simp add: i32_saturating_sub_def)
  have sd: "sint (p - prev) = sint p - sint prev" using clamp d by metis
  have "g + (prev - a) = word_of_int (sint g + (sint prev - sint a))" by (simp add: wi_hom_syms)
  moreover have "\<bar>sint g + (sint prev - sint a)\<bar> < 2 ^ 31" using assms by (auto simp: small_def abs_less_iff)
  ultimately have sc: "sint (g + (prev - a)) = sint g + (sint prev - sint a)" by (simp only: i32_sint)
  have "sint (g + (prev - a)) + sint (p - prev) = sint g + (sint p - sint a)" using sc sd by simp
  moreover have "i32_clamp (sint g + (sint p - sint a)) = word_of_int (sint g + (sint p - sint a))"
    using assms by (intro i32_clamp_id [THEN conjunct1]) (auto simp: small_def abs_less_iff)
  moreover have "word_of_int (sint g + (sint p - sint a)) = g + (p - a)" by (simp add: wi_hom_syms)
  ultimately show "i32_saturating_add (g + (prev - a)) (p - prev) = g + (p - a)"
    by (simp add: i32_saturating_add_def)
qed

text \<open>
  What the guest is to be told about a drag: nothing for a report that does not change the
  position, otherwise the guest's position when the drag began plus the displacement since then.
\<close>

fun targets :: "i32 \<times> i32 \<Rightarrow> i32 \<times> i32 \<Rightarrow> i32 \<times> i32 \<Rightarrow> (i32 \<times> i32) list \<Rightarrow> (i32 \<times> i32) option list" where
  "targets g a prev [] = []"
| "targets g a prev (p # ps) =
    (if p = prev then None else Some (fst g + (fst p - fst a), snd g + (snd p - snd a))) # targets g a p ps"

definition small_pos :: "i32 \<times> i32 \<Rightarrow> bool" where
  "small_pos p \<longleftrightarrow> small (fst p) \<and> small (snd p)"

lemma moved_anchored:
  assumes "map_of gs i = Some st" "ws_settling_until st \<le> now" "ws_local_anchor st = Some prev"
    and "ws_guest_anchor st = (fst g + (fst prev - fst a), snd g + (snd prev - snd a))"
    and "small_pos g" "small_pos a" "small_pos prev" "small_pos p"
  shows "moved now i (fst p) (snd p) gs =
    (hd (targets g a prev [p]),
     AList.update i (st\<lparr>ws_guest_anchor := (fst g + (fst p - fst a), snd g + (snd p - snd a)), ws_local_anchor := Some p\<rparr>) gs)"
proof -
  note sx = saturating_step [of "fst g" "fst a" "fst p" "fst prev"] and sy = saturating_step [of "snd g" "snd a" "snd p" "snd prev"]
  have "fst p - fst prev = 0 \<and> snd p - snd prev = 0 \<longleftrightarrow> p = prev" by (auto simp: prod_eq_iff)
  with assms sx sy show ?thesis
    by (cases prev; cases p; cases st) (auto simp: moved_def Let_def small_pos_def)
qed

lemma drag_anchored:
  "map_of gs i = Some st \<Longrightarrow> ws_local_anchor st = Some prev \<Longrightarrow>
   ws_guest_anchor st = (fst g + (fst prev - fst a), snd g + (snd prev - snd a)) \<Longrightarrow>
   small_pos g \<Longrightarrow> small_pos a \<Longrightarrow> small_pos prev \<Longrightarrow> list_all (\<lambda>(now, p). ws_settling_until st \<le> now \<and> small_pos p) reports \<Longrightarrow>
   fst (drag i reports gs) = targets g a prev (map snd reports)"
proof (induction reports arbitrary: gs st prev)
  case (Cons r reports)
  obtain now x y where r: "r = (now, x, y)" by (cases r)
  let ?st = "st\<lparr>ws_guest_anchor := (fst g + (x - fst a), snd g + (y - snd a)), ws_local_anchor := Some (x, y)\<rparr>"
  have m: "moved now i x y gs = (hd (targets g a prev [(x, y)]), AList.update i ?st gs)"
    using moved_anchored [of gs i st now prev g a "(x, y)"] Cons.prems r by simp
  have "fst (drag i reports (AList.update i ?st gs)) = targets g a (x, y) (map snd reports)"
    using Cons.prems r by (intro Cons.IH [of _ ?st]) (auto simp: update_conv')
  with m r show ?case by (simp add: drag_Cons del: drag.simps)
qed simp

lemma drag_early:
  "map_of gs i = Some st \<Longrightarrow> list_all (\<lambda>(now, p). now < ws_settling_until st) early \<Longrightarrow>
   drag i (early @ reports) gs = (replicate (length early) None @ fst (drag i reports gs), snd (drag i reports gs))"
  by (induction early) (auto simp: moved_def drag_Cons prod_eq_iff simp del: drag.simps(2))

section \<open>Properties\<close>

text \<open>
  C21: Only the user's displacement reaches the guest. After a native window is created (or the guest
  moved it), position reports during the settling time have no effect whatever; the first report
  after it sends nothing; and from then on a report that changes the position sends exactly the
  guest's own position displaced by the distance dragged since that first report, while a report
  that changes nothing sends nothing. The window manager's placement never appears in what is sent.
  (Coordinates within a quarter of a billion, so that no addition saturates.)
\<close>

theorem drag_displacement:
  assumes "list_all (\<lambda>(now, p). now < t + SETTLE) early"
    and "t + SETTLE \<le> t1" and "list_all (\<lambda>(now, p). t + SETTLE \<le> now \<and> small_pos p) later"
    and "small_pos (gx, gy)" and "small_pos a"
  shows "fst (drag i (early @ (t1, a) # later) (created t i gx gy gs)) =
    replicate (length early) None @ None # targets (gx, gy) a a (map snd later)"
proof -
  let ?st = "\<lparr>ws_settling_until = t + SETTLE, ws_guest_anchor = (gx, gy), ws_local_anchor = None, ws_local_size = None\<rparr>"
  let ?gs = "created t i gx gy gs" and ?st1 = "?st\<lparr>ws_local_anchor := Some a\<rparr>"
  have st: "map_of ?gs i = Some ?st" by (simp add: created_def update_conv')
  have first: "moved t1 i (fst a) (snd a) ?gs = (None, AList.update i ?st1 ?gs)"
    using st assms(2) by (simp add: moved_def)
  have "fst (drag i later (AList.update i ?st1 ?gs)) = targets (gx, gy) a a (map snd later)"
    using assms by (intro drag_anchored [of _ _ ?st1]) (auto simp: update_conv')
  with first have "fst (drag i ((t1, a) # later) ?gs) = None # targets (gx, gy) a a (map snd later)"
    by (cases a) (simp add: drag_Cons del: drag.simps)
  with drag_early [OF st] assms(1) show ?thesis by simp
qed

theorem drag_displacement_witness:
  "fst (drag 9 [(5, 700, 300), (SETTLE, 3257, 40), (SETTLE + 1, 3267, 35), (SETTLE + 2, 3267, 35), (SETTLE + 3, 3247, 40)]
      (created 0 9 100 200 [])) = [None, None, Some (110, 195), None, Some (90, 200)]"
  using drag_displacement [of 0 "[(5, 700, 300)]" SETTLE
    "[(SETTLE + 1, 3267, 35), (SETTLE + 2, 3267, 35), (SETTLE + 3, 3247, 40)]" 100 200 "(3257, 40)" 9 "[]"]
  by (simp add: SETTLE_def small_pos_def small_def)

end
