(* ===== verification/H264.thy ===== *)
theory H264
  imports Prelude
begin

text \<open>
  Annex-B access units on the agent (\<open>oxagent/src/h264.rs\<close>): splitting a byte stream into NAL units,
  and \<open>reframe\<close>, which brings whatever an encoder emitted into the order the protocol prescribes and
  puts parameter sets on every keyframe; further the readers of a sequence parameter set (fixed
  bytes, emulation prevention, Exp-Golomb codes).

  \<open>scan_list\<close> is the start-code scan on the remaining bytes; the index loop of the code is shown to
  be it. The main facts: splitting inverts framing, every split unit is free of start codes, and
  reframing keeps every unit that is not a parameter set.
\<close>

section \<open>Splitting\<close>

definition NAL_SLICE :: u8 where "NAL_SLICE = 1"
definition NAL_SLICE_IDR :: u8 where "NAL_SLICE_IDR = 5"
definition NAL_SEI :: u8 where "NAL_SEI = 6"
definition NAL_SPS :: u8 where "NAL_SPS = 7"
definition NAL_PPS :: u8 where "NAL_PPS = 8"
definition NAL_AUD :: u8 where "NAL_AUD = 9"

record Nal =
  nal_kind :: u8
  nal_payload :: "u8 list"

text \<open>The \<open>while\<close> loop of \<open>split_annexb\<close>: where a start code begins and how long it is.\<close>

function scan_starts :: "u8 list \<Rightarrow> nat \<Rightarrow> (nat \<times> nat) list" where
  "scan_starts data i =
    (if i + 3 \<le> length data then
       (if data ! i = 0 \<and> data ! (i + 1) = 0 then
          (if data ! (i + 2) = 1 then (i, 3) # scan_starts data (i + 3)
           else if i + 4 \<le> length data \<and> data ! (i + 2) = 0 \<and> data ! (i + 3) = 1 then (i, 4) # scan_starts data (i + 4)
           else scan_starts data (i + 1))
        else scan_starts data (i + 1))
     else [])"
  by pat_completeness auto
termination by (relation "measure (\<lambda>(data, i). length data - i)") auto

declare scan_starts.simps [simp del]

text \<open>The \<open>for\<close> loop: the units between the start codes, empty ones skipped.\<close>

fun nals_of :: "u8 list \<Rightarrow> (nat \<times> nat) list \<Rightarrow> Nal list" where
  "nals_of data [] = []"
| "nals_of data ((pos, code_len) # starts) =
    (let payload_start = pos + code_len;
         payload_end = (case starts of [] \<Rightarrow> length data | (nxt, _) # _ \<Rightarrow> nxt) in
     if payload_end \<le> payload_start then nals_of data starts
     else
       let payload = take (payload_end - payload_start) (drop payload_start data) in
       \<lparr>nal_kind = and (payload ! 0) 0x1F, nal_payload = payload\<rparr> # nals_of data starts)"

definition split_annexb :: "u8 list \<Rightarrow> Nal list" where
  "split_annexb data = nals_of data (scan_starts data 0)"

section \<open>Reframing\<close>

record ParamSets =
  par_sps :: "u8 list"
  par_pps :: "u8 list"

definition ParamSets_default :: ParamSets where
  "ParamSets_default = \<lparr>par_sps = [], par_pps = []\<rparr>"

definition is_complete :: "ParamSets \<Rightarrow> bool" where
  "is_complete c \<longleftrightarrow> par_sps c \<noteq> [] \<and> par_pps c \<noteq> []"

definition START_CODE :: "u8 list" where
  "START_CODE = [0, 0, 0, 1]"

definition push_nal :: "u8 list \<Rightarrow> u8 list \<Rightarrow> u8 list" where
  "push_nal out payload = (out @ START_CODE) @ payload"

text \<open>The local variables of \<open>reframe\<close>'s classification loop, and one round of it.\<close>

record slots =
  sl_aud :: "u8 list option"
  sl_sei :: "u8 list list"
  sl_sps :: "u8 list option"
  sl_pps :: "u8 list option"
  sl_slices :: "u8 list list"
  sl_trailing :: "u8 list list"
  sl_is_idr :: bool

definition slots_empty :: slots where
  "slots_empty = \<lparr>sl_aud = None, sl_sei = [], sl_sps = None, sl_pps = None, sl_slices = [], sl_trailing = [], sl_is_idr = False\<rparr>"

definition classify :: "Nal \<Rightarrow> slots \<Rightarrow> slots" where
  "classify nal s =
    (if nal_kind nal = NAL_AUD \<and> sl_aud s = None then s\<lparr>sl_aud := Some (nal_payload nal)\<rparr>
     else if nal_kind nal = NAL_SEI then s\<lparr>sl_sei := sl_sei s @ [nal_payload nal]\<rparr>
     else if nal_kind nal = NAL_SPS then s\<lparr>sl_sps := Some (nal_payload nal)\<rparr>
     else if nal_kind nal = NAL_PPS then s\<lparr>sl_pps := Some (nal_payload nal)\<rparr>
     else if nal_kind nal = NAL_SLICE_IDR then s\<lparr>sl_slices := sl_slices s @ [nal_payload nal], sl_is_idr := True\<rparr>
     else if nal_kind nal = NAL_SLICE then s\<lparr>sl_slices := sl_slices s @ [nal_payload nal]\<rparr>
     else s\<lparr>sl_trailing := sl_trailing s @ [nal_payload nal]\<rparr>)"

text \<open>\<open>x.or(if c.is_empty() { None } else { Some(c) })\<close>.\<close>

definition or_cached :: "u8 list option \<Rightarrow> u8 list \<Rightarrow> u8 list option" where
  "or_cached x c = (case x of Some s \<Rightarrow> Some s | None \<Rightarrow> if c = [] then None else Some c)"

definition push_opt :: "u8 list \<Rightarrow> u8 list option \<Rightarrow> u8 list" where
  "push_opt out x = (case x of None \<Rightarrow> out | Some p \<Rightarrow> push_nal out p)"

definition reframe :: "u8 list \<Rightarrow> ParamSets \<Rightarrow> (u8 list \<times> bool) \<times> ParamSets" where
  "reframe raw cached =
    (let s = fold classify (split_annexb raw) slots_empty;
         cached1 = (case sl_sps s of None \<Rightarrow> cached | Some p \<Rightarrow> cached\<lparr>par_sps := p\<rparr>);
         cached2 = (case sl_pps s of None \<Rightarrow> cached1 | Some p \<Rightarrow> cached1\<lparr>par_pps := p\<rparr>);
         out1 = push_opt [] (sl_aud s);
         out2 = foldl push_nal out1 (sl_sei s);
         out3 = (if sl_is_idr s
                 then push_opt (push_opt out2 (or_cached (sl_sps s) (par_sps cached2))) (or_cached (sl_pps s) (par_pps cached2))
                 else out2);
         out4 = foldl push_nal out3 (sl_slices s);
         out5 = foldl push_nal out4 (sl_trailing s)
     in ((out5, sl_is_idr s), cached2))"

section \<open>Reading units\<close>

definition nal_summary :: "u8 list \<Rightarrow> (u8 \<times> u8 \<times> nat) list" where
  "nal_summary data =
     map (\<lambda>nal. (nal_kind nal, and (drop_bit 5 (nal_payload nal ! 0)) 3, length (nal_payload nal))) (split_annexb data)"

definition get :: "'a list \<Rightarrow> nat \<Rightarrow> 'a option" where
  "get xs i = (if i < length xs then Some (xs ! i) else None)"

definition sps_profile :: "u8 list \<Rightarrow> (u8 \<times> u8 \<times> u8) option" where
  "sps_profile payload =
    Option.bind (get payload 1) (\<lambda>profile_idc.
    Option.bind (get payload 2) (\<lambda>constraint_flags.
    Option.bind (get payload 3) (\<lambda>level_idc. Some (profile_idc, constraint_flags, level_idc))))"

definition first_sps_profile :: "u8 list \<Rightarrow> (u8 \<times> u8 \<times> u8) option" where
  "first_sps_profile raw =
    Option.bind (find (\<lambda>nal. nal_kind nal = NAL_SPS) (split_annexb raw)) (\<lambda>nal. sps_profile (nal_payload nal))"

text \<open>The loop of \<open>unescape_rbsp\<close>, with its counter of consecutive zero bytes.\<close>

fun unescape_loop :: "nat \<Rightarrow> u8 list \<Rightarrow> u8 list" where
  "unescape_loop zero_run [] = []"
| "unescape_loop zero_run (b # bs) =
    (if 2 \<le> zero_run \<and> b = 3 then unescape_loop 0 bs
     else b # unescape_loop (if b = 0 then zero_run + 1 else 0) bs)"

definition unescape_rbsp :: "u8 list \<Rightarrow> u8 list" where
  "unescape_rbsp payload = unescape_loop 0 payload"

subsection \<open>The bit reader\<close>

text \<open>
  \<open>BitReader\<close>: the bytes and the position. Every method either advances the position or gives up
  with \<open>None\<close>, which all callers pass on.
\<close>

definition br_bit :: "u8 list \<Rightarrow> nat \<Rightarrow> (u32 \<times> nat) option" where
  "br_bit data bit_pos =
    (case get data (bit_pos div 8) of
       None \<Rightarrow> None
     | Some byte \<Rightarrow> Some (ucast (and (drop_bit (7 - bit_pos mod 8) byte) 1), bit_pos + 1))"

fun br_u_loop :: "u8 list \<Rightarrow> nat \<Rightarrow> u32 \<Rightarrow> nat \<Rightarrow> (u32 \<times> nat) option" where
  "br_u_loop data 0 v p = Some (v, p)"
| "br_u_loop data (Suc n) v p =
    (case br_bit data p of None \<Rightarrow> None | Some (b, p') \<Rightarrow> br_u_loop data n (or (push_bit 1 v) b) p')"

definition br_u :: "u8 list \<Rightarrow> nat \<Rightarrow> nat \<Rightarrow> (u32 \<times> nat) option" where
  "br_u data n p = br_u_loop data n 0 p"

text \<open>\<open>while self.bit()? == 0\<close>: the number of leading zeros, at most 31.\<close>

function br_zeros :: "u8 list \<Rightarrow> nat \<Rightarrow> nat \<Rightarrow> (nat \<times> nat) option" where
  "br_zeros data z p =
    (case br_bit data p of
       None \<Rightarrow> None
     | Some (b, p') \<Rightarrow>
         if b = 0 then (if 31 < z + 1 then None else br_zeros data (z + 1) p')
         else Some (z, p'))"
  by pat_completeness auto
termination by (relation "measure (\<lambda>(data, z, p). 32 - z)") auto

declare br_zeros.simps [simp del]

definition br_ue :: "u8 list \<Rightarrow> nat \<Rightarrow> (u32 \<times> nat) option" where
  "br_ue data p =
    (case br_zeros data 0 p of
       None \<Rightarrow> None
     | Some (leading_zeros, p1) \<Rightarrow>
         if leading_zeros = 0 then Some (0, p1)
         else (case br_u data leading_zeros p1 of
            None \<Rightarrow> None
          | Some (suffix, p2) \<Rightarrow> Some (push_bit leading_zeros 1 - 1 + suffix, p2)))"

definition br_se :: "u8 list \<Rightarrow> nat \<Rightarrow> (int \<times> nat) option" where
  "br_se data p =
    (case br_ue data p of
       None \<Rightarrow> None
     | Some (code, p') \<Rightarrow>
         let magnitude = int ((unat code + 1) div 2) in
         Some (if unat code mod 2 = 0 then - magnitude else magnitude, p'))"

fun br_se_times :: "u8 list \<Rightarrow> nat \<Rightarrow> nat \<Rightarrow> nat option" where
  "br_se_times data 0 p = Some p"
| "br_se_times data (Suc n) p = (case br_se data p of None \<Rightarrow> None | Some (_, p') \<Rightarrow> br_se_times data n p')"

definition SPS_PROFILES_WITH_CHROMA_BLOCK :: "u8 list" where
  "SPS_PROFILES_WITH_CHROMA_BLOCK = [100, 110, 122, 244, 44, 83, 86, 118, 128, 138, 139, 134, 135]"

record SpsRefFrameInfo =
  sri_max_num_ref_frames :: u32
  sri_pic_order_cnt_type :: u32

text \<open>The \<open>match pic_order_cnt_type\<close>: the position behind the fields of that type.\<close>

definition skip_poc_fields :: "u8 list \<Rightarrow> u32 \<Rightarrow> nat \<Rightarrow> nat option" where
  "skip_poc_fields rbsp pic_order_cnt_type p =
    (if pic_order_cnt_type = 0 then map_option snd (br_ue rbsp p)
     else if pic_order_cnt_type = 1 then
       Option.bind (br_u rbsp 1 p) (\<lambda>(_, p1).
       Option.bind (br_se rbsp p1) (\<lambda>(_, p2).
       Option.bind (br_se rbsp p2) (\<lambda>(_, p3).
       Option.bind (br_ue rbsp p3) (\<lambda>(cycle, p4).
         if 255 < cycle then None else br_se_times rbsp (unat cycle) p4))))
     else Some p)"

definition sps_ref_frame_info :: "u8 list \<Rightarrow> SpsRefFrameInfo option" where
  "sps_ref_frame_info payload =
    Option.bind (get payload 1) (\<lambda>profile_idc.
      if profile_idc \<in> set SPS_PROFILES_WITH_CHROMA_BLOCK then None
      else if length payload < 4 then None
      else
        let rbsp = unescape_rbsp (drop 4 payload) in
        Option.bind (br_ue rbsp 0) (\<lambda>(_, p1).
        Option.bind (br_ue rbsp p1) (\<lambda>(_, p2).
        Option.bind (br_ue rbsp p2) (\<lambda>(pic_order_cnt_type, p3).
        Option.bind (skip_poc_fields rbsp pic_order_cnt_type p3) (\<lambda>p4.
        Option.bind (br_ue rbsp p4) (\<lambda>(max_num_ref_frames, _).
          Some \<lparr>sri_max_num_ref_frames = max_num_ref_frames, sri_pic_order_cnt_type = pic_order_cnt_type\<rparr>))))))"

definition first_sps_ref_frame_info :: "u8 list \<Rightarrow> SpsRefFrameInfo option" where
  "first_sps_ref_frame_info raw =
    Option.bind (find (\<lambda>nal. nal_kind nal = NAL_SPS) (split_annexb raw)) (\<lambda>nal. sps_ref_frame_info (nal_payload nal))"

section \<open>The scan, on lists\<close>

text \<open>No unit of the stream contains a start code.\<close>

fun sc_free :: "u8 list \<Rightarrow> bool" where
  "sc_free [] = True"
| "sc_free (b # bs) \<longleftrightarrow> take 3 (b # bs) \<noteq> [0, 0, 1] \<and> sc_free bs"

function scan_list :: "nat \<Rightarrow> u8 list \<Rightarrow> (nat \<times> nat) list" where
  "scan_list i bs =
    (if bs = [] then []
     else if take 3 bs = [0, 0, 1] then (i, 3) # scan_list (i + 3) (drop 3 bs)
     else if take 4 bs = [0, 0, 0, 1] then (i, 4) # scan_list (i + 4) (drop 4 bs)
     else scan_list (i + 1) (drop 1 bs))"
  by pat_completeness auto
termination by (relation "measure (\<lambda>(i, bs). length bs)") auto

declare scan_list.simps [simp del]

lemma scan_list_Nil [simp]: "scan_list i [] = []"
  by (subst scan_list.simps) simp

lemma take3_nth: "take 3 (drop i data) = [a, b, c] \<longleftrightarrow> i + 3 \<le> length data \<and> data ! i = a \<and> data ! (i + 1) = b \<and> data ! (i + 2) = c"
proof (cases "i + 3 \<le> length data")
  case True
  then have "drop i data = data ! i # data ! (i + 1) # data ! (i + 2) # drop (i + 3) data"
    by (simp add: Cons_nth_drop_Suc numeral_3_eq_3)
  with True show ?thesis by simp
next
  case False
  then have "length (take 3 (drop i data)) \<noteq> 3" by simp
  with False show ?thesis by (metis length_Cons list.size(3) numeral_3_eq_3)
qed

lemma take4_nth: "take 4 (drop i data) = [a, b, c, d] \<longleftrightarrow>
  i + 4 \<le> length data \<and> data ! i = a \<and> data ! (i + 1) = b \<and> data ! (i + 2) = c \<and> data ! (i + 3) = d"
proof (cases "i + 4 \<le> length data")
  case True
  then have "drop i data = data ! i # data ! (i + 1) # data ! (i + 2) # data ! (i + 3) # drop (i + 4) data"
    by (simp add: Cons_nth_drop_Suc numeral_eq_Suc)
  with True show ?thesis by simp
next
  case False
  then have "length (take 4 (drop i data)) \<noteq> length [a, b, c, d]" by simp
  then have "take 4 (drop i data) \<noteq> [a, b, c, d]" by metis
  with False show ?thesis by simp
qed

lemma scan_list_short: "length bs < 3 \<Longrightarrow> scan_list i bs = []"
proof (induction i bs rule: scan_list.induct)
  case (1 i bs)
  have "take 3 bs = bs" "take 4 bs = bs" using "1.prems" by simp_all
  then have "take 3 bs \<noteq> [0, 0, 1]" "take 4 bs \<noteq> [0, 0, 0, 1]" using "1.prems" by auto
  with 1 show ?case by (simp add: scan_list.simps [of i bs])
qed

lemma scan_starts_list: "scan_starts data i = scan_list i (drop i data)"
proof (induction data i rule: scan_starts.induct)
  case (1 data i)
  show ?case
  proof (cases "i + 3 \<le> length data")
    case False
    then show ?thesis by (simp add: scan_starts.simps [of data i] scan_list_short)
  next
    case True
    then have ne: "drop i data \<noteq> []" by simp
    note step = scan_list.simps [of i "drop i data", unfolded take3_nth take4_nth drop_drop]
    consider "data ! i = 0 \<and> data ! (i + 1) = 0 \<and> data ! (i + 2) = 1"
      | "data ! i = 0 \<and> data ! (i + 1) = 0" "data ! (i + 2) \<noteq> 1" "i + 4 \<le> length data \<and> data ! (i + 2) = 0 \<and> data ! (i + 3) = 1"
      | "\<not> (data ! i = 0 \<and> data ! (i + 1) = 0 \<and> data ! (i + 2) = 1)"
        "\<not> (i + 4 \<le> length data \<and> data ! i = 0 \<and> data ! (i + 1) = 0 \<and> data ! (i + 2) = 0 \<and> data ! (i + 3) = 1)" by auto
    then show ?thesis
    proof cases
      case 1
      with True ne "1.IH"(1) [OF True] show ?thesis by (simp add: scan_starts.simps [of data i] step add.commute)
    next
      case 2
      with True ne "1.IH"(2) [OF True 2(1) 2(2) 2(3)] show ?thesis by (simp add: scan_starts.simps [of data i] step add.commute)
    next
      case 3
      have "scan_starts data i = scan_starts data (i + 1)" using 3 True by (auto simp: scan_starts.simps [of data i])
      moreover have "scan_starts data (i + 1) = scan_list (i + 1) (drop (i + 1) data)"
        using 3 "1.IH"(3,4) [OF True] by blast
      ultimately show ?thesis using 3 True ne by (auto simp: step add.commute)
    qed
  qed
qed


subsection \<open>Splitting inverts framing\<close>

text \<open>Units that can be framed, and the framing of a list of them.\<close>

definition unit_ok :: "u8 list \<Rightarrow> bool" where
  "unit_ok p \<longleftrightarrow> p \<noteq> [] \<and> sc_free p"

definition framed :: "u8 list list \<Rightarrow> u8 list" where
  "framed ps = concat (map (\<lambda>p. START_CODE @ p) ps)"

abbreviation kind_of :: "u8 list \<Rightarrow> u8" where
  "kind_of p \<equiv> and (p ! 0) 0x1F"

definition unit_of :: "u8 list \<Rightarrow> Nal" where
  "unit_of p = \<lparr>nal_kind = kind_of p, nal_payload = p\<rparr>"

lemma framed_simps [simp]: "framed [] = []" "framed (p # ps) = START_CODE @ p @ framed ps" "framed (ps @ qs) = framed ps @ framed qs"
  by (simp_all add: framed_def)

lemma framed_start: "framed ps = [] \<or> (\<exists>r. framed ps = 0 # 0 # 0 # 1 # r)"
  by (cases ps) (auto simp: START_CODE_def)

lemma scan_free:
  assumes "sc_free p" "tail = [] \<or> (\<exists>r. tail = 0 # 0 # 0 # 1 # r)"
  shows "scan_list i (p @ tail) = scan_list (i + length p) tail"
  using assms(1)
proof (induction p arbitrary: i)
  case (Cons b bs)
  have "take 3 (b # bs @ tail) \<noteq> [0, 0, 1]"
    using Cons.prems assms(2) by (cases bs; cases "tl bs") auto
  moreover have "take 4 (b # bs @ tail) \<noteq> [0, 0, 0, 1]"
    using Cons.prems assms(2) by (cases bs; cases "tl bs"; cases "tl (tl bs)") auto
  ultimately have "scan_list i (b # bs @ tail) = scan_list (i + 1) (drop 1 (b # bs @ tail))"
    by (subst scan_list.simps) (simp only: if_False list.distinct)
  with Cons show ?case by simp
qed simp

lemma scan_framed_Cons:
  "sc_free p \<Longrightarrow> scan_list i (framed (p # ps)) = (i, 4) # scan_list (i + 4 + length p) (framed ps)"
  using scan_free [of p "framed ps" "i + 4"] framed_start [of ps]
  by (simp add: scan_list.simps [of i "0 # 0 # 0 # 1 # p @ framed ps"] START_CODE_def)

lemma nals_framed:
  "list_all unit_ok ps \<Longrightarrow> i = length pre \<Longrightarrow> nals_of (pre @ framed ps) (scan_list i (framed ps)) = map unit_of ps"
proof (induction ps arbitrary: pre i)
  case (Cons p ps)
  let ?data = "pre @ framed (p # ps)" and ?rest = "scan_list (i + 4 + length p) (framed ps)"
  have free: "sc_free p" "p \<noteq> []" using Cons.prems by (simp_all add: unit_ok_def)
  have data: "?data = (pre @ START_CODE @ p) @ framed ps" by simp
  have IH: "nals_of ?data ?rest = map unit_of ps"
    unfolding data using Cons.prems by (intro Cons.IH) (simp_all add: START_CODE_def)
  have nxt: "(case ?rest of [] \<Rightarrow> length ?data | (nxt, _) # _ \<Rightarrow> nxt) = i + 4 + length p"
  proof (cases ps)
    case Nil
    then show ?thesis using Cons.prems by (simp add: START_CODE_def)
  next
    case (Cons q qs)
    with Cons.prems show ?thesis by (simp add: scan_framed_Cons unit_ok_def del: framed_simps(2))
  qed
  have pay: "take (i + 4 + length p - (i + 4)) (drop (i + 4) ?data) = p" using Cons.prems by (simp add: START_CODE_def)
  have "\<not> i + 4 + length p \<le> i + 4" using free(2) by simp
  then have "nals_of ?data ((i, 4) # ?rest) = unit_of p # nals_of ?data ?rest"
    by (simp only: nals_of.simps Let_def nxt pay if_False unit_of_def)
  then show ?case by (simp only: scan_framed_Cons [OF free(1)] IH list.map)
qed simp

lemma split_framed: "list_all unit_ok ps \<Longrightarrow> split_annexb (framed ps) = map unit_of ps"
  using nals_framed [of ps 0 "[]"] by (simp add: split_annexb_def scan_starts_list)

subsection \<open>What splitting yields\<close>

lemma take3_take: "take 3 (take m bs) = [a, b, c] \<Longrightarrow> take 3 bs = [a, b, c]"
proof (cases "3 \<le> m")
  case False
  then have "length (take 3 (take m bs)) \<noteq> length [a, b, c]" by simp
  then show "take 3 (take m bs) = [a, b, c] \<Longrightarrow> take 3 bs = [a, b, c]" by metis
qed (simp add: min_def)

lemma scan_list_hit:
  "scan_list i bs = (j, l) # rest \<Longrightarrow>
   \<exists>k. j = i + k \<and> 0 < l \<and> k + l \<le> length bs \<and> sc_free (take k bs) \<and> rest = scan_list (j + l) (drop (k + l) bs)"
proof (induction i bs rule: scan_list.induct)
  case (1 i bs)
  have ne: "bs \<noteq> []" using "1.prems" by auto
  consider "take 3 bs = [0, 0, 1]" | "take 3 bs \<noteq> [0, 0, 1]" "take 4 bs = [0, 0, 0, 1]"
    | "take 3 bs \<noteq> [0, 0, 1]" "take 4 bs \<noteq> [0, 0, 0, 1]" by blast
  then show ?case
  proof cases
    case 1
    with "1.prems" ne have "j = i" "l = 3" "rest = scan_list (i + 3) (drop 3 bs)" by (auto simp: scan_list.simps [of i bs])
    moreover have "3 \<le> length bs" using arg_cong [OF 1, of length] by simp
    ultimately show ?thesis by (intro exI [of _ 0]) simp
  next
    case 2
    with "1.prems" ne have "j = i" "l = 4" "rest = scan_list (i + 4) (drop 4 bs)" by (auto simp: scan_list.simps [of i bs])
    moreover have "4 \<le> length bs" using arg_cong [OF 2(2), of length] by simp
    ultimately show ?thesis by (intro exI [of _ 0]) simp
  next
    case 3
    with "1.prems" ne have "scan_list (i + 1) (drop 1 bs) = (j, l) # rest" by (simp add: scan_list.simps [of i bs])
    from "1.IH"(3) [OF ne 3 this] obtain k where
      k: "j = i + 1 + k" "0 < l" "k + l \<le> length (drop 1 bs)" "sc_free (take k (drop 1 bs))" "rest = scan_list (j + l) (drop (k + l) (drop 1 bs))"
      by blast
    obtain b bs' where bs: "bs = b # bs'" using ne by (cases bs) auto
    have "take 3 (take (Suc k) bs) \<noteq> [0, 0, 1]" using 3(1) take3_take [of "Suc k" bs 0 0 1] by metis
    with k bs have "sc_free (take (Suc k) bs)" by simp
    with k bs show ?thesis by (intro exI [of _ "Suc k"]) simp
  qed
qed

lemma scan_list_miss: "scan_list i bs = [] \<Longrightarrow> sc_free bs"
proof (induction i bs rule: scan_list.induct)
  case (1 i bs)
  show ?case
  proof (cases bs)
    case (Cons b bs')
    with "1.prems" have "take 3 bs \<noteq> [0, 0, 1]" "take 4 bs \<noteq> [0, 0, 0, 1]" "scan_list (i + 1) (drop 1 bs) = []"
      using scan_list.simps [of i bs] by (metis list.distinct(1))+
    with "1.IH"(3) Cons show ?thesis by simp
  qed simp
qed

lemma sc_free_unit: "scan_list i bs = starts \<Longrightarrow> n = (case starts of [] \<Rightarrow> length bs | (j, _) # _ \<Rightarrow> j - i) \<Longrightarrow> sc_free (take n bs)"
  using scan_list_miss [of i bs] by (cases starts) (auto dest!: scan_list_hit)

lemma nals_of_ok:
  "scan_list i (drop i data) = starts \<Longrightarrow> nal \<in> set (nals_of data starts) \<Longrightarrow>
   unit_ok (nal_payload nal) \<and> nal = unit_of (nal_payload nal)"
proof (induction data starts arbitrary: i rule: nals_of.induct)
  case (2 data pos l starts)
  from scan_list_hit [OF "2.prems"(1)] obtain k where
    k: "pos = i + k" "0 < l" "k + l \<le> length (drop i data)" and rest: "starts = scan_list (pos + l) (drop (pos + l) data)"
    by (auto simp: add.commute add.left_commute)
  define e where "e = (case starts of [] \<Rightarrow> length data | (nxt, _) # _ \<Rightarrow> nxt)"
  let ?p = "take (e - (pos + l)) (drop (pos + l) data)"
  have "e - (pos + l) = (case starts of [] \<Rightarrow> length (drop (pos + l) data) | (j, _) # _ \<Rightarrow> j - (pos + l))"
    by (simp add: e_def split: list.splits)
  from sc_free_unit [OF rest [symmetric] this] have free: "sc_free ?p" .
  have le: "e \<le> length data"
  proof (cases starts)
    case (Cons x xs)
    obtain j m where x: "x = (j, m)" by fastforce
    have "e = j" by (simp only: e_def Cons x list.case prod.case)
    moreover obtain k' where "j = pos + l + k'" "0 < m" "k' + m \<le> length (drop (pos + l) data)"
      using scan_list_hit [of "pos + l" "drop (pos + l) data" j m xs] rest Cons x by metis
    ultimately show ?thesis by simp
  qed (simp add: e_def)
  show ?case
  proof (cases "e \<le> pos + l")
    case True
    then have "nals_of data ((pos, l) # starts) = nals_of data starts" by (simp add: e_def)
    with "2.IH"(1) [OF refl e_def _ rest [symmetric]] "2.prems"(2) True show ?thesis by (simp add: e_def)
  next
    case False
    then have "nals_of data ((pos, l) # starts) = unit_of ?p # nals_of data starts"
      by (simp add: e_def unit_of_def Let_def)
    with "2.prems"(2) consider "nal = unit_of ?p" | "nal \<in> set (nals_of data starts)" by auto
    then show ?thesis
    proof cases
      case 1
      moreover have "?p \<noteq> []" using False le by auto
      ultimately show ?thesis using free by (simp add: unit_of_def unit_ok_def)
    next
      case 2
      then show ?thesis using "2.IH"(2) [OF refl e_def _ refl rest [symmetric] 2] False by simp
    qed
  qed
qed simp

lemma split_ok: "nal \<in> set (split_annexb data) \<Longrightarrow> unit_ok (nal_payload nal) \<and> nal = unit_of (nal_payload nal)"
  using nals_of_ok [of 0 data] by (simp add: split_annexb_def scan_starts_list)


section \<open>Reframing, described\<close>

lemma foldl_push_nal: "foldl push_nal out ps = out @ framed ps"
  by (induction ps arbitrary: out) (simp_all add: push_nal_def)

lemma push_opt_framed: "push_opt out x = out @ framed (case x of None \<Rightarrow> [] | Some p \<Rightarrow> [p])"
  by (simp add: push_opt_def push_nal_def split: option.splits)

text \<open>What the loop collects: the first delimiter, the last parameter sets, everything else in order.\<close>

definition of_kind :: "u8 \<Rightarrow> u8 list list \<Rightarrow> u8 list list" where
  "of_kind k ps = filter (\<lambda>p. kind_of p = k) ps"

definition is_slice :: "u8 list \<Rightarrow> bool" where
  "is_slice p \<longleftrightarrow> kind_of p = NAL_SLICE \<or> kind_of p = NAL_SLICE_IDR"

definition is_param :: "u8 list \<Rightarrow> bool" where
  "is_param p \<longleftrightarrow> kind_of p = NAL_SPS \<or> kind_of p = NAL_PPS"

definition is_other :: "u8 list \<Rightarrow> bool" where
  "is_other p \<longleftrightarrow> \<not> is_slice p \<and> \<not> is_param p \<and> kind_of p \<noteq> NAL_SEI \<and> kind_of p \<noteq> NAL_AUD"

fun last_opt :: "'a list \<Rightarrow> 'a option" where
  "last_opt [] = None"
| "last_opt xs = Some (last xs)"

fun head_opt :: "'a list \<Rightarrow> 'a option" where
  "head_opt [] = None"
| "head_opt (x # xs) = Some x"

text \<open>The units that follow the slices: those of other types, and every delimiter but the first.\<close>

fun trailing_units :: "bool \<Rightarrow> u8 list list \<Rightarrow> u8 list list" where
  "trailing_units seen [] = []"
| "trailing_units seen (p # ps) =
    (if kind_of p = NAL_AUD then (if seen then p # trailing_units True ps else trailing_units True ps)
     else if is_other p then p # trailing_units seen ps else trailing_units seen ps)"

lemmas nal_kinds = NAL_SLICE_def NAL_SLICE_IDR_def NAL_SEI_def NAL_SPS_def NAL_PPS_def NAL_AUD_def

lemma nal_distinct [simp]:
  "NAL_SLICE \<noteq> NAL_SLICE_IDR" "NAL_SLICE \<noteq> NAL_SEI" "NAL_SLICE \<noteq> NAL_SPS"
  "NAL_SLICE \<noteq> NAL_PPS" "NAL_SLICE \<noteq> NAL_AUD" "NAL_SLICE_IDR \<noteq> NAL_SLICE"
  "NAL_SLICE_IDR \<noteq> NAL_SEI" "NAL_SLICE_IDR \<noteq> NAL_SPS" "NAL_SLICE_IDR \<noteq> NAL_PPS"
  "NAL_SLICE_IDR \<noteq> NAL_AUD" "NAL_SEI \<noteq> NAL_SLICE" "NAL_SEI \<noteq> NAL_SLICE_IDR"
  "NAL_SEI \<noteq> NAL_SPS" "NAL_SEI \<noteq> NAL_PPS" "NAL_SEI \<noteq> NAL_AUD"
  "NAL_SPS \<noteq> NAL_SLICE" "NAL_SPS \<noteq> NAL_SLICE_IDR" "NAL_SPS \<noteq> NAL_SEI"
  "NAL_SPS \<noteq> NAL_PPS" "NAL_SPS \<noteq> NAL_AUD" "NAL_PPS \<noteq> NAL_SLICE"
  "NAL_PPS \<noteq> NAL_SLICE_IDR" "NAL_PPS \<noteq> NAL_SEI" "NAL_PPS \<noteq> NAL_SPS"
  "NAL_PPS \<noteq> NAL_AUD" "NAL_AUD \<noteq> NAL_SLICE" "NAL_AUD \<noteq> NAL_SLICE_IDR"
  "NAL_AUD \<noteq> NAL_SEI" "NAL_AUD \<noteq> NAL_SPS" "NAL_AUD \<noteq> NAL_PPS"
  by (simp_all add: nal_kinds)

lemma trailing_units_append:
  "trailing_units seen (ps @ [p]) = trailing_units seen ps @
     (if kind_of p = NAL_AUD then (if seen \<or> of_kind NAL_AUD ps \<noteq> [] then [p] else [])
      else if is_other p then [p] else [])"
  by (induction ps arbitrary: seen) (auto simp: of_kind_def)

lemma classify_all:
  "fold classify (map unit_of ps) slots_empty =
     \<lparr>sl_aud = head_opt (of_kind NAL_AUD ps), sl_sei = of_kind NAL_SEI ps, sl_sps = last_opt (of_kind NAL_SPS ps),
      sl_pps = last_opt (of_kind NAL_PPS ps), sl_slices = filter is_slice ps, sl_trailing = trailing_units False ps,
      sl_is_idr = (of_kind NAL_SLICE_IDR ps \<noteq> [])\<rparr>"
proof (induction ps rule: rev_induct)
  case Nil
  then show ?case by (simp add: slots_empty_def of_kind_def)
next
  case (snoc p ps)
  have head: "head_opt (xs @ [x]) = (if xs = [] then Some x else head_opt xs)" "last_opt (xs @ [x]) = Some x"
    "head_opt xs = None \<longleftrightarrow> xs = []" for x and xs :: "u8 list list"
    by (cases xs; simp)+
  have eq: "fold classify (map unit_of (ps @ [p])) slots_empty = classify (unit_of p)
     \<lparr>sl_aud = head_opt (of_kind NAL_AUD ps), sl_sei = of_kind NAL_SEI ps, sl_sps = last_opt (of_kind NAL_SPS ps),
      sl_pps = last_opt (of_kind NAL_PPS ps), sl_slices = filter is_slice ps, sl_trailing = trailing_units False ps,
      sl_is_idr = (of_kind NAL_SLICE_IDR ps \<noteq> [])\<rparr>" by (simp add: snoc)
  have of_kind_snoc: "of_kind k (ps @ [p]) = of_kind k ps @ (if kind_of p = k then [p] else [])" for k
    by (simp add: of_kind_def)
  consider "kind_of p = NAL_AUD" | "kind_of p = NAL_SEI" | "kind_of p = NAL_SPS" | "kind_of p = NAL_PPS"
    | "kind_of p = NAL_SLICE_IDR" | "kind_of p = NAL_SLICE"
    | "kind_of p \<noteq> NAL_AUD" "kind_of p \<noteq> NAL_SEI" "kind_of p \<noteq> NAL_SPS" "kind_of p \<noteq> NAL_PPS"
      "kind_of p \<noteq> NAL_SLICE_IDR" "kind_of p \<noteq> NAL_SLICE" by blast
  then show ?case unfolding eq
    by cases (simp_all add: classify_def unit_of_def of_kind_snoc trailing_units_append head is_slice_def [of p] is_other_def [of p]
        is_param_def [of p] nal_kinds)
qed


definition units :: "u8 list \<Rightarrow> u8 list list" where
  "units data = map nal_payload (split_annexb data)"

lemma split_units: "split_annexb data = map unit_of (units data)"
  unfolding units_def map_map by (rule map_idI [symmetric]) (use split_ok in \<open>auto\<close>)

lemma units_ok: "list_all unit_ok (units data)"
  using split_ok by (auto simp: list_all_iff units_def)

lemma units_framed: "list_all unit_ok ps \<Longrightarrow> units (framed ps) = ps"
  by (simp add: units_def split_framed o_def unit_of_def)

definition opt_list :: "'a option \<Rightarrow> 'a list" where
  "opt_list x = (case x of None \<Rightarrow> [] | Some y \<Rightarrow> [y])"

text \<open>The parameter sets in force after some units, and the units \<open>reframe\<close> puts out.\<close>

definition latest :: "u8 \<Rightarrow> u8 list list \<Rightarrow> u8 list \<Rightarrow> u8 list" where
  "latest k ps old = (case last_opt (of_kind k ps) of None \<Rightarrow> old | Some p \<Rightarrow> p)"

definition refreshed :: "u8 list list \<Rightarrow> ParamSets \<Rightarrow> ParamSets" where
  "refreshed ps c = \<lparr>par_sps = latest NAL_SPS ps (par_sps c), par_pps = latest NAL_PPS ps (par_pps c)\<rparr>"

definition present :: "'a list \<Rightarrow> 'a list list" where
  "present p = (if p = [] then [] else [p])"

definition reframed :: "u8 list list \<Rightarrow> ParamSets \<Rightarrow> u8 list list" where
  "reframed ps c =
     opt_list (head_opt (of_kind NAL_AUD ps)) @ of_kind NAL_SEI ps @
     (if of_kind NAL_SLICE_IDR ps \<noteq> [] then present (par_sps (refreshed ps c)) @ present (par_pps (refreshed ps c)) else []) @
     filter is_slice ps @ trailing_units False ps"

lemma last_opt_mem: "last_opt xs = Some x \<Longrightarrow> x \<in> set xs"
  by (cases xs) auto

lemma or_cached_latest:
  assumes "list_all unit_ok ps"
  shows "or_cached (last_opt (of_kind k ps)) (latest k ps old) = (if latest k ps old = [] then None else Some (latest k ps old))"
proof (cases "last_opt (of_kind k ps)")
  case (Some p)
  then have "p \<in> set ps" using last_opt_mem [OF Some] by (simp add: of_kind_def)
  with assms have "p \<noteq> []" by (auto simp: list_all_iff unit_ok_def)
  with Some show ?thesis by (simp add: or_cached_def latest_def)
qed (simp add: or_cached_def latest_def)

lemma reframe_eq:
  "reframe raw c = ((framed (reframed (units raw) c), of_kind NAL_SLICE_IDR (units raw) \<noteq> []), refreshed (units raw) c)"
proof -
  let ?ps = "units raw"
  have c2: "(case last_opt (of_kind NAL_PPS ?ps) of
        None \<Rightarrow> (case last_opt (of_kind NAL_SPS ?ps) of None \<Rightarrow> c | Some p \<Rightarrow> c\<lparr>par_sps := p\<rparr>)
      | Some p \<Rightarrow> (case last_opt (of_kind NAL_SPS ?ps) of None \<Rightarrow> c | Some p \<Rightarrow> c\<lparr>par_sps := p\<rparr>)\<lparr>par_pps := p\<rparr>) = refreshed ?ps c"
    by (simp add: refreshed_def latest_def split: option.splits)
  have opt: "framed (case (if x = [] then None else Some x) of None \<Rightarrow> [] | Some p \<Rightarrow> [p]) = framed (present x)" for x
    by (simp add: present_def)
  show ?thesis
    unfolding reframe_def Let_def split_units classify_all slots.simps c2
    by (simp add: push_opt_framed foldl_push_nal reframed_def opt_list_def)
      (simp add: refreshed_def or_cached_latest [OF units_ok] opt)
qed


lemma last_opt_append: "last_opt (xs @ ys) = (if ys = [] then last_opt xs else last_opt ys)"
  by (cases xs; cases ys) auto

lemma latest_append: "latest k (ps @ qs) old = latest k qs (latest k ps old)"
  by (cases "of_kind k qs") (auto simp: latest_def of_kind_def last_opt_append split: option.splits)

text \<open>An encoder's access units one after another, as the sender reframes them.\<close>

fun reframe_all :: "u8 list list \<Rightarrow> ParamSets \<Rightarrow> (u8 list \<times> bool) list \<times> ParamSets" where
  "reframe_all [] c = ([], c)"
| "reframe_all (raw # raws) c =
    (case reframe raw c of (out, c1) \<Rightarrow> (case reframe_all raws c1 of (outs, c2) \<Rightarrow> (out # outs, c2)))"

lemma refreshed_append: "refreshed (ps @ qs) c = refreshed qs (refreshed ps c)"
  by (simp add: refreshed_def latest_append)

lemma reframe_all_cache: "snd (reframe_all raws c) = refreshed (concat (map units raws)) c"
proof (induction raws arbitrary: c)
  case Nil
  then show ?case by (cases c) (simp add: refreshed_def latest_def of_kind_def)
next
  case (Cons raw raws)
  then show ?case by (simp add: reframe_eq refreshed_append split: prod.splits) (metis snd_conv)
qed

definition param_ok :: "u8 \<Rightarrow> u8 list \<Rightarrow> bool" where
  "param_ok k p \<longleftrightarrow> p = [] \<or> unit_ok p \<and> kind_of p = k"

lemma latest_ok: "list_all unit_ok ps \<Longrightarrow> param_ok k old \<Longrightarrow> param_ok k (latest k ps old)"
  by (auto simp: latest_def param_ok_def of_kind_def list_all_iff split: option.splits dest!: last_opt_mem)

lemma of_kind_append: "of_kind k (a @ b) = of_kind k a @ of_kind k b" "of_kind k [] = []"
  by (simp_all add: of_kind_def)

lemma of_kind_of_kind: "of_kind k (of_kind l ps) = (if k = l then of_kind k ps else [])"
  by (auto simp: of_kind_def filter_filter intro: filter_False)

lemma of_kind_slices: "of_kind k (filter is_slice ps) = (if k = NAL_SLICE \<or> k = NAL_SLICE_IDR then of_kind k ps else [])"
  by (auto simp: of_kind_def is_slice_def nal_kinds intro: filter_False arg_cong [where f = "\<lambda>P. filter P ps"])

lemma of_kind_trailing_aud:
  "of_kind NAL_AUD (trailing_units seen ps) = (if seen then of_kind NAL_AUD ps else tl (of_kind NAL_AUD ps))"
  by (induction ps arbitrary: seen) (auto simp: of_kind_def is_other_def)

lemma trailing_not_aud: "filter (\<lambda>p. kind_of p \<noteq> NAL_AUD) (trailing_units seen ps) = filter is_other ps"
  by (induction ps arbitrary: seen) (auto simp: is_other_def)

lemma of_kind_trailing:
  assumes "k \<noteq> NAL_AUD"
  shows "of_kind k (trailing_units seen ps) =
    (if k = NAL_SEI \<or> k = NAL_SPS \<or> k = NAL_PPS \<or> k = NAL_SLICE \<or> k = NAL_SLICE_IDR then [] else of_kind k ps)"
proof -
  have "of_kind k (trailing_units seen ps) = of_kind k (filter (\<lambda>p. kind_of p \<noteq> NAL_AUD) (trailing_units seen ps))"
    using assms by (auto simp: of_kind_def intro!: filter_cong)
  also have "\<dots> = filter (\<lambda>p. is_other p \<and> kind_of p = k) ps" by (simp add: trailing_not_aud of_kind_def)
  also have "(\<lambda>p. is_other p \<and> kind_of p = k) =
      (\<lambda>p. kind_of p = k \<and> \<not> (k = NAL_SEI \<or> k = NAL_SPS \<or> k = NAL_PPS \<or> k = NAL_SLICE \<or> k = NAL_SLICE_IDR))"
    using assms by (auto simp: is_other_def is_slice_def is_param_def)
  finally show ?thesis by (simp add: of_kind_def)
qed

lemma set_head_opt: "set (opt_list (head_opt xs)) \<subseteq> set xs"
  by (cases xs) (simp_all add: opt_list_def)

lemma opt_head_tl: "opt_list (head_opt xs) @ tl xs = xs"
  by (cases xs) (simp_all add: opt_list_def)

lemma reframed_kinds:
  assumes "k \<noteq> NAL_SPS" "k \<noteq> NAL_PPS" "param_ok NAL_SPS (par_sps c)" "param_ok NAL_PPS (par_pps c)" "list_all unit_ok ps"
  shows "of_kind k (reframed ps c) = of_kind k ps"
proof -
  have params: "of_kind k (present (par_sps (refreshed ps c))) = []" "of_kind k (present (par_pps (refreshed ps c))) = []"
    using assms latest_ok [OF assms(5,3)] latest_ok [OF assms(5,4)]
    by (auto simp: refreshed_def present_def of_kind_def param_ok_def)
  have head: "of_kind k (opt_list (head_opt (of_kind NAL_AUD ps))) = (if k = NAL_AUD then opt_list (head_opt (of_kind NAL_AUD ps)) else [])"
  proof (cases "of_kind NAL_AUD ps")
    case (Cons a as)
    then have "a \<in> set (of_kind NAL_AUD ps)" by simp
    then have "kind_of a = NAL_AUD" by (simp add: of_kind_def)
    with Cons show ?thesis by (simp add: opt_list_def of_kind_def [of k])
  qed (simp add: opt_list_def of_kind_def)
  show ?thesis
  proof (cases "k = NAL_AUD")
    case True
    then show ?thesis
      using head params opt_head_tl [of "of_kind NAL_AUD ps"]
      by (simp add: reframed_def of_kind_append of_kind_of_kind of_kind_slices of_kind_trailing_aud)
  next
    case False
    then show ?thesis
      using head params assms(1,2)
      by (auto simp: reframed_def of_kind_append of_kind_of_kind of_kind_slices of_kind_trailing)
  qed
qed

lemma reframed_ok:
  assumes "list_all unit_ok ps" "param_ok NAL_SPS (par_sps c)" "param_ok NAL_PPS (par_pps c)"
  shows "list_all unit_ok (reframed ps c)"
proof -
  have trail: "set (trailing_units seen ps) \<subseteq> set ps" for seen
    by (induction ps arbitrary: seen) (auto split: if_splits)
  have head: "set (opt_list (head_opt (of_kind NAL_AUD ps))) \<subseteq> set ps"
    using set_head_opt [of "of_kind NAL_AUD ps"] by (auto simp: of_kind_def)
  have sub: "list_all unit_ok qs" if "set qs \<subseteq> set ps" for qs
    using that assms(1) by (auto simp: list_all_iff)
  have "list_all unit_ok (present (par_sps (refreshed ps c)))" "list_all unit_ok (present (par_pps (refreshed ps c)))"
    using latest_ok [OF assms(1,2)] latest_ok [OF assms(1,3)] by (auto simp: present_def refreshed_def param_ok_def)
  moreover have "set (of_kind NAL_SEI ps) \<subseteq> set ps" "set (filter is_slice ps) \<subseteq> set ps" by (auto simp: of_kind_def)
  ultimately show ?thesis
    using sub trail head by (simp add: reframed_def)
qed

text \<open>The parameter set of a kind that was seen last, if any.\<close>

definition newest_param :: "u8 \<Rightarrow> u8 list list \<Rightarrow> u8 list list" where
  "newest_param k ps = opt_list (last_opt (of_kind k ps))"

lemma present_latest:
  "list_all unit_ok ps \<Longrightarrow> present (latest k ps []) = newest_param k ps"
proof (cases "last_opt (of_kind k ps)")
  case (Some p)
  assume "list_all unit_ok ps"
  moreover have "p \<in> set ps" using last_opt_mem [OF Some] by (simp add: of_kind_def)
  ultimately have "p \<noteq> []" by (auto simp: list_all_iff unit_ok_def)
  with Some show ?thesis by (simp add: present_def latest_def newest_param_def opt_list_def)
qed (simp add: present_def latest_def newest_param_def opt_list_def)

section \<open>Sequence parameter sets\<close>

text \<open>Emulation prevention as an encoder applies it (H.264, 7.4.1.1).\<close>

fun escape_loop :: "nat \<Rightarrow> u8 list \<Rightarrow> u8 list" where
  "escape_loop z [] = []"
| "escape_loop z (b # bs) =
    (if 2 \<le> z \<and> b \<le> 3 then 3 # b # escape_loop (if b = 0 then 1 else 0) bs
     else b # escape_loop (if b = 0 then z + 1 else 0) bs)"

lemma unescape_escape: "unescape_loop z (escape_loop z bs) = bs"
proof (induction z bs rule: escape_loop.induct)
  case (2 z b bs)
  show ?case
  proof (cases "2 \<le> z \<and> b \<le> 3")
    case True
    with "2.IH"(1) show ?thesis by (cases "b = 0") simp_all
  next
    case False
    then have "\<not> (2 \<le> z \<and> b = 3)" by auto
    with False "2.IH"(2) show ?thesis by auto
  qed
qed simp




text \<open>The bits of a byte string, most significant first.\<close>

definition bits_of :: "u8 list \<Rightarrow> bool list" where
  "bits_of data = concat (map (\<lambda>b. map (\<lambda>i. bit b (7 - i)) [0..<8]) data)"

lemma bits_of_Cons: "bits_of (b # bs) = map (\<lambda>i. bit b (7 - i)) [0..<8] @ bits_of bs"
  by (simp add: bits_of_def)

lemma length_bits_of [simp]: "length (bits_of data) = 8 * length data"
  by (induction data) (simp_all add: bits_of_def)

lemma nth_bits_of: "p < 8 * length data \<Longrightarrow> bits_of data ! p = bit (data ! (p div 8)) (7 - p mod 8)"
proof (induction data arbitrary: p)
  case (Cons b bs)
  show ?case
  proof (cases "p < 8")
    case True
    then show ?thesis by (simp add: bits_of_Cons nth_append)
  next
    case False
    then obtain q where p: "p = q + 8" by (metis add.commute le_add_diff_inverse not_less)
    moreover have "(q + 8) div 8 = Suc (q div 8)" by simp
    ultimately show ?thesis using Cons by (simp add: bits_of_Cons nth_append)
  qed
qed simp

lemma br_bit_bits:
  "br_bit data p = (if p < length (bits_of data) then Some (of_bool (bits_of data ! p), p + 1) else None)"
proof (cases "p < 8 * length data")
  case True
  then have "p div 8 < length data" by (simp add: less_mult_imp_div_less mult.commute)
  moreover have "ucast (and (drop_bit (7 - p mod 8) (data ! (p div 8))) 1) = (of_bool (bit (data ! (p div 8)) (7 - p mod 8)) :: u32)"
    by (simp add: and_one_eq mod_2_eq_odd bit_iff_odd_drop_bit)
  ultimately show ?thesis using True by (simp add: br_bit_def get_def nth_bits_of)
next
  case False
  then have "\<not> p div 8 < length data" by (simp add: div_less_iff_less_mult mult.commute)
  with False show ?thesis by (simp add: br_bit_def get_def)
qed

lemma br_bit_next: "drop p (bits_of data) = b # rest \<Longrightarrow> br_bit data p = Some (of_bool b, p + 1) \<and> drop (p + 1) (bits_of data) = rest"
proof -
  assume d: "drop p (bits_of data) = b # rest"
  then have p: "p < length (bits_of data)" by (metis drop_all list.distinct(1) not_less)
  with Cons_nth_drop_Suc [OF p] d have "bits_of data ! p = b" "drop (Suc p) (bits_of data) = rest" by simp_all
  with p show ?thesis by (simp add: br_bit_bits)
qed

fun msb_bits :: "nat \<Rightarrow> nat \<Rightarrow> bool list" where
  "msb_bits 0 s = []"
| "msb_bits (Suc n) s = odd (s div 2 ^ n) # msb_bits n s"

lemma length_msb_bits [simp]: "length (msb_bits n s) = n"
  by (induction n) simp_all

lemma br_u_loop_bits:
  "drop p (bits_of data) = msb_bits n s @ rest \<Longrightarrow> unat v * 2 ^ n + s mod 2 ^ n < 2 ^ 32 \<Longrightarrow>
   br_u_loop data n v p = Some (of_nat (unat v * 2 ^ n + s mod 2 ^ n), p + n)"
proof (induction n arbitrary: v p)
  case (Suc n)
  let ?b = "odd (s div 2 ^ n)"
  let ?v = "or (push_bit 1 v) (of_bool ?b) :: u32"
  have nb: "br_bit data p = Some (of_bool ?b, p + 1)" "drop (p + 1) (bits_of data) = msb_bits n s @ rest"
    using br_bit_next [of p data ?b "msb_bits n s @ rest"] Suc.prems(1) by simp_all
  have split: "s mod 2 ^ Suc n = of_bool ?b * 2 ^ n + s mod 2 ^ n"
    by (simp add: mod_mult2_eq [of s "2 ^ n" 2, simplified mult.commute] mod_2_eq_odd power_Suc2)
  have small: "unat v * 2 + of_bool ?b < 2 ^ 32"
  proof -
    have "(unat v * 2 + of_bool ?b) * 2 ^ n < 2 ^ 32" using Suc.prems(2) split by (simp add: algebra_simps)
    moreover have "unat v * 2 + of_bool ?b \<le> (unat v * 2 + of_bool ?b) * 2 ^ n" by simp
    ultimately show ?thesis by linarith
  qed
  have "?v = push_bit 1 v + of_bool ?b"
    by (rule disjunctive_add [symmetric]) (auto simp: bit_of_bool_iff, metis bit_0 dvd_triv_right gr0I)
  then have uv: "unat ?v = unat v * 2 + of_bool ?b"
    using small by (cases ?b) (simp_all add: push_bit_eq_mult unat_word_ariths)
  have eq: "unat ?v * 2 ^ n + s mod 2 ^ n = unat v * 2 ^ Suc n + s mod 2 ^ Suc n"
    unfolding uv split by (simp add: algebra_simps del: of_bool_eq_iff)
  have "br_u_loop data n ?v (p + 1) = Some (of_nat (unat v * 2 ^ Suc n + s mod 2 ^ Suc n), p + 1 + n)"
    using Suc.IH [OF nb(2), of ?v] Suc.prems(2) unfolding eq by blast
  then show ?case by (simp only: br_u_loop.simps nb(1) option.case prod.case) simp
qed simp


text \<open>The Exp-Golomb code of a number: as many zeros as its successor has bits after the first, then those bits.\<close>

fun ilog2 :: "nat \<Rightarrow> nat" where
  "ilog2 n = (if n < 2 then 0 else Suc (ilog2 (n div 2)))"

declare ilog2.simps [simp del]

lemma ilog2_bounds: "0 < n \<Longrightarrow> 2 ^ ilog2 n \<le> n \<and> n < 2 ^ Suc (ilog2 n)"
proof (induction n rule: ilog2.induct)
  case (1 n)
  show ?case
  proof (cases "n < 2")
    case True
    with "1.prems" show ?thesis by (simp add: ilog2.simps)
  next
    case False
    with "1.IH" have "2 ^ ilog2 (n div 2) \<le> n div 2" "n div 2 < 2 ^ Suc (ilog2 (n div 2))" by simp_all
    moreover have "2 * (n div 2) \<le> n" "n < 2 * (n div 2) + 2" by simp_all
    ultimately have "2 * 2 ^ ilog2 (n div 2) \<le> n" "n < 2 * (2 * 2 ^ ilog2 (n div 2))" by (simp_all only: power_Suc)
    with False show ?thesis by (simp add: ilog2.simps [of n])
  qed
qed

definition golomb :: "nat \<Rightarrow> bool list" where
  "golomb v = (let n = ilog2 (v + 1) in replicate n False @ True # msb_bits n (v + 1))"

definition golomb_signed :: "int \<Rightarrow> bool list" where
  "golomb_signed z = golomb (if 0 < z then nat (2 * z - 1) else nat (- 2 * z))"

lemma br_zeros_bits:
  "drop p (bits_of data) = replicate n False @ True # rest \<Longrightarrow> z + n \<le> 31 \<Longrightarrow>
   br_zeros data z p = Some (z + n, p + n + 1) \<and> drop (p + n + 1) (bits_of data) = rest"
proof (induction n arbitrary: z p)
  case 0
  with br_bit_next [of p data True rest] show ?case by (simp add: br_zeros.simps [of data z p])
next
  case (Suc n)
  with br_bit_next [of p data False "replicate n False @ True # rest"] Suc.IH [of "p + 1" "z + 1"]
  show ?case by (simp add: br_zeros.simps [of data z p])
qed

lemma br_ue_golomb:
  assumes "drop p (bits_of data) = golomb v @ rest" "v < 2 ^ 32 - 1"
  shows "br_ue data p = Some (of_nat v, p + length (golomb v)) \<and> drop (p + length (golomb v)) (bits_of data) = rest"
proof -
  define n where "n = ilog2 (v + 1)"
  have b: "2 ^ n \<le> v + 1" "v + 1 < 2 ^ Suc n" using ilog2_bounds [of "v + 1"] by (simp_all add: n_def)
  have "(2::nat) ^ n < 2 ^ 32" using b(1) assms(2) by linarith
  then have "n < 32" by (rule power_less_imp_less_exp [rotated]) simp
  then have n31: "n \<le> 31" by simp
  have g: "golomb v = replicate n False @ True # msb_bits n (v + 1)" by (simp add: golomb_def n_def Let_def)
  have z: "br_zeros data 0 p = Some (n, p + n + 1)" "drop (p + n + 1) (bits_of data) = msb_bits n (v + 1) @ rest"
    using br_zeros_bits [of p data n "msb_bits n (v + 1) @ rest" 0] assms(1) n31 by (simp_all add: g)
  have m: "(v + 1) mod 2 ^ n = v + 1 - 2 ^ n" using b le_mod_geq [OF b(1)] by simp
  have "(v + 1) mod 2 ^ n < 2 ^ 32" using m assms(2) by linarith
  then have u: "br_u data n (p + n + 1) = Some (of_nat ((v + 1) mod 2 ^ n), p + n + 1 + n)"
    using br_u_loop_bits [OF z(2), of 0] by (simp add: br_u_def)
  have "push_bit n 1 - 1 + of_nat ((v + 1) mod 2 ^ n) = (of_nat v :: u32)"
    using b(1) unfolding m by (simp add: push_bit_eq_mult of_nat_diff)
  moreover have "n = 0 \<Longrightarrow> v = 0" using b by simp
  ultimately have "br_ue data p = Some (of_nat v, p + length (golomb v))"
    using z(1) u by (auto simp: br_ue_def g)
  moreover have "drop (p + length (golomb v)) (bits_of data) = rest"
    using assms(1) by (metis append_eq_conv_conj drop_drop add.commute)
  ultimately show ?thesis by simp
qed


lemma br_se_golomb:
  assumes "drop p (bits_of data) = golomb_signed z @ rest" "\<bar>z\<bar> < 2 ^ 31"
  shows "br_se data p = Some (z, p + length (golomb_signed z)) \<and> drop (p + length (golomb_signed z)) (bits_of data) = rest"
proof -
  define v where "v = (if 0 < z then nat (2 * z - 1) else nat (- 2 * z))"
  have v: "v < 2 ^ 32 - 1" using assms(2) by (auto simp: v_def)
  have g: "golomb_signed z = golomb v" by (simp add: golomb_signed_def v_def)
  have "unat (of_nat v :: u32) = v" using v by (simp add: unat_of_nat)
  moreover have "(if v mod 2 = 0 then - int ((v + 1) div 2) else int ((v + 1) div 2)) = z"
  proof (cases "0 < z")
    case True
    then obtain k where "z = int (Suc k)" by (metis gr0_implies_Suc zero_less_imp_eq_int)
    then have "v = 2 * k + 1" by (simp add: v_def)
    with \<open>z = int (Suc k)\<close> show ?thesis by simp
  next
    case False
    then obtain k where "z = - int k" by (metis nonneg_int_cases not_less neg_0_le_iff_le add.inverse_inverse)
    then have "v = 2 * k" by (simp add: v_def)
    with \<open>z = - int k\<close> show ?thesis by simp
  qed
  ultimately show ?thesis
    using br_ue_golomb [OF assms(1) [unfolded g] v] by (auto simp: br_se_def g Let_def split: if_splits)
qed

lemma br_se_times_golomb:
  "drop p (bits_of data) = concat (map golomb_signed zs) @ rest \<Longrightarrow> list_all (\<lambda>z. \<bar>z\<bar> < 2 ^ 31) zs \<Longrightarrow>
   \<exists>p'. br_se_times data (length zs) p = Some p' \<and> drop p' (bits_of data) = rest"
proof (induction zs arbitrary: p)
  case (Cons z zs)
  from br_se_golomb [of p data z "concat (map golomb_signed zs) @ rest"] Cons.prems
  have "br_se data p = Some (z, p + length (golomb_signed z))"
    "drop (p + length (golomb_signed z)) (bits_of data) = concat (map golomb_signed zs) @ rest" by simp_all
  with Cons show ?case by simp
qed simp

text \<open>The picture-order-count part of a sequence parameter set, in its three shapes.\<close>

datatype poc_fields = Poc0 nat | Poc1 bool int int "int list" | PocOther nat

fun poc_type :: "poc_fields \<Rightarrow> nat" where
  "poc_type (Poc0 _) = 0"
| "poc_type (Poc1 _ _ _ _) = 1"
| "poc_type (PocOther t) = t"

fun poc_bits :: "poc_fields \<Rightarrow> bool list" where
  "poc_bits (Poc0 v) = golomb v"
| "poc_bits (Poc1 flag a b zs) = flag # golomb_signed a @ golomb_signed b @ golomb (length zs) @ concat (map golomb_signed zs)"
| "poc_bits (PocOther _) = []"

fun poc_ok :: "poc_fields \<Rightarrow> bool" where
  "poc_ok (Poc0 v) \<longleftrightarrow> v < 2 ^ 32 - 1"
| "poc_ok (Poc1 _ a b zs) \<longleftrightarrow> \<bar>a\<bar> < 2 ^ 31 \<and> \<bar>b\<bar> < 2 ^ 31 \<and> length zs \<le> 255 \<and> list_all (\<lambda>z. \<bar>z\<bar> < 2 ^ 31) zs"
| "poc_ok (PocOther t) \<longleftrightarrow> 1 < t \<and> t < 2 ^ 32 - 1"

lemma of_nat_u32_eq: "a < 2 ^ 32 \<Longrightarrow> b < 2 ^ 32 \<Longrightarrow> (of_nat a :: u32) = of_nat b \<longleftrightarrow> a = b"
  by (simp add: word_of_nat_eq_iff take_bit_nat_eq_self)

lemma skip_poc:
  assumes "poc_ok f" "drop p (bits_of data) = poc_bits f @ rest"
  shows "\<exists>p'. skip_poc_fields data (of_nat (poc_type f)) p = Some p' \<and> drop p' (bits_of data) = rest"
proof (cases f)
  case (Poc0 v)
  with br_ue_golomb [of p data v rest] assms show ?thesis by (simp add: skip_poc_fields_def)
next
  case (Poc1 flag a b zs)
  let ?tail = "concat (map golomb_signed zs) @ rest"
  have u: "br_u data 1 p = Some (of_bool flag, p + 1)" "drop (p + 1) (bits_of data) = golomb_signed a @ golomb_signed b @ golomb (length zs) @ ?tail"
    using br_bit_next [of p data flag "golomb_signed a @ golomb_signed b @ golomb (length zs) @ ?tail"] assms(2) Poc1
    by (simp_all add: br_u_def)
  from br_se_golomb [OF u(2)] assms(1) Poc1 obtain p2 where
    a: "br_se data (p + 1) = Some (a, p2)" "drop p2 (bits_of data) = golomb_signed b @ golomb (length zs) @ ?tail" by auto
  from br_se_golomb [OF a(2)] assms(1) Poc1 obtain p3 where
    b: "br_se data p2 = Some (b, p3)" "drop p3 (bits_of data) = golomb (length zs) @ ?tail" by auto
  from br_ue_golomb [OF b(2)] assms(1) Poc1 obtain p4 where
    n: "br_ue data p3 = Some (of_nat (length zs), p4)" "drop p4 (bits_of data) = ?tail" by auto
  from br_se_times_golomb [OF n(2)] assms(1) Poc1 obtain p5 where
    t: "br_se_times data (length zs) p4 = Some p5" "drop p5 (bits_of data) = rest" by auto
  have "unat (of_nat (length zs) :: u32) = length zs" using assms(1) Poc1 by (simp add: unat_of_nat)
  moreover from this have "\<not> 255 < (of_nat (length zs) :: u32)" using assms(1) Poc1 by (simp add: word_less_nat_alt)
  ultimately show ?thesis using u(1) a(1) b(1) n(1) t Poc1 by (simp add: skip_poc_fields_def)
next
  case (PocOther t)
  with assms of_nat_u32_eq [of t 0] of_nat_u32_eq [of t 1] show ?thesis by (simp add: skip_poc_fields_def)
qed

text \<open>The output after any history: framed units, of which the parameter sets are the only new ones.\<close>

lemma reframe_output:
  assumes "reframe raw (snd (reframe_all before ParamSets_default)) = ((out, key), cached)"
  defines "c \<equiv> refreshed (concat (map units before)) ParamSets_default"
  shows "key \<longleftrightarrow> of_kind NAL_SLICE_IDR (units raw) \<noteq> []" and "out = framed (reframed (units raw) c)"
    and "list_all unit_ok (reframed (units raw) c)" and "units out = reframed (units raw) c"
    and "\<And>k. k \<noteq> NAL_SPS \<Longrightarrow> k \<noteq> NAL_PPS \<Longrightarrow> of_kind k (reframed (units raw) c) = of_kind k (units raw)"
proof -
  have "snd (reframe_all before ParamSets_default) = c" unfolding c_def by (rule reframe_all_cache)
  then show "key \<longleftrightarrow> of_kind NAL_SLICE_IDR (units raw) \<noteq> []" and out: "out = framed (reframed (units raw) c)"
    using assms(1) by (simp_all add: reframe_eq)
  have "list_all unit_ok (concat (map units before))" using units_ok by (auto simp: list_all_iff)
  from latest_ok [OF this, of _ "[]"] have pok: "param_ok NAL_SPS (par_sps c)" "param_ok NAL_PPS (par_pps c)"
    by (simp_all add: c_def refreshed_def ParamSets_default_def param_ok_def)
  show ok: "list_all unit_ok (reframed (units raw) c)" by (rule reframed_ok [OF units_ok pok])
  show "units out = reframed (units raw) c" unfolding out by (rule units_framed [OF ok])
  show "of_kind k (reframed (units raw) c) = of_kind k (units raw)" if "k \<noteq> NAL_SPS" "k \<noteq> NAL_PPS" for k
    using that pok units_ok by (rule reframed_kinds)
qed

section \<open>Properties\<close>



text \<open>
  The reference-frame limit of a sequence parameter set is read correctly. For a payload whose
  profile has no chroma block and whose body is the emulation-protected coding of the
  fields in front of it (set id, frame-number width, and the picture-order-count fields in any of
  their three shapes, with their variable-length list of offsets), the parser returns exactly the
  coded \<open>max_num_ref_frames\<close> and \<open>pic_order_cnt_type\<close>.
\<close>

theorem sps_ref_frames_read:
  assumes "profile \<notin> set SPS_PROFILES_WITH_CHROMA_BLOCK"
    and "bits_of rbsp = golomb sid @ golomb width @ golomb (poc_type f) @ poc_bits f @ golomb refs @ rest"
    and "sid < 2 ^ 32 - 1" "width < 2 ^ 32 - 1" "refs < 2 ^ 32 - 1" "poc_ok f"
  shows "sps_ref_frame_info ([hdr, profile, constraints, level] @ escape_loop 0 rbsp)
    = Some \<lparr>sri_max_num_ref_frames = of_nat refs, sri_pic_order_cnt_type = of_nat (poc_type f)\<rparr>"
proof -
  have raw: "unescape_rbsp (escape_loop 0 rbsp) = rbsp" by (simp add: unescape_rbsp_def unescape_escape)
  have ty: "poc_type f < 2 ^ 32 - 1" using assms(6) by (cases f) simp_all
  have d0: "drop 0 (bits_of rbsp) = golomb sid @ golomb width @ golomb (poc_type f) @ poc_bits f @ golomb refs @ rest"
    using assms(2) by simp
  from br_ue_golomb [OF d0 assms(3)] obtain p1 where p1: "br_ue rbsp 0 = Some (of_nat sid, p1)"
    "drop p1 (bits_of rbsp) = golomb width @ golomb (poc_type f) @ poc_bits f @ golomb refs @ rest" by auto
  from br_ue_golomb [OF p1(2) assms(4)] obtain p2 where p2: "br_ue rbsp p1 = Some (of_nat width, p2)"
    "drop p2 (bits_of rbsp) = golomb (poc_type f) @ poc_bits f @ golomb refs @ rest" by auto
  from br_ue_golomb [OF p2(2) ty] obtain p3 where p3: "br_ue rbsp p2 = Some (of_nat (poc_type f), p3)"
    "drop p3 (bits_of rbsp) = poc_bits f @ golomb refs @ rest" by auto
  from skip_poc [OF assms(6) p3(2)] obtain p4 where p4: "skip_poc_fields rbsp (of_nat (poc_type f)) p3 = Some p4"
    "drop p4 (bits_of rbsp) = golomb refs @ rest" by blast
  from br_ue_golomb [OF p4(2) assms(5)] show ?thesis
    using assms(1) p1 p2 p3 p4 by (simp add: sps_ref_frame_info_def get_def raw)
qed

theorem sps_ref_frames_read_witness:
  "sps_ref_frame_info ([0x67, 66, 0x40, 31] @ escape_loop 0 [0xDA])
    = Some \<lparr>sri_max_num_ref_frames = 1, sri_pic_order_cnt_type = 2\<rparr>"
proof -
  have "bits_of [0xDA] = golomb 0 @ golomb 0 @ golomb (poc_type (PocOther 2)) @ poc_bits (PocOther 2) @ golomb 1 @ []"
    by code_simp
  from sps_ref_frames_read [OF _ this, of 66 "0x67" "0x40" 31] show ?thesis
    by (simp add: SPS_PROFILES_WITH_CHROMA_BLOCK_def)
qed

end
