(* ===== verification/Annexb.thy ===== *)
theory Annexb
  imports H264
begin

text \<open>
  The client's Annex-B reader (\<open>oxclient/src/decode/annexb.rs\<close>): the IDR test that gates decoding,
  the list of units with their lengths, the parameter-set and reference tests, and the profile
  fields of the first SPS. The strings for the log (\<open>describe\<close>, \<open>name\<close>, \<open>level\<close>) are not modelled.

  The properties relate it to the agent's \<open>reframe\<close>: on everything the agent puts out, both sides
  see the same units, and the client's gate opens on exactly the access units the agent flags.
\<close>

section \<open>The scans\<close>

definition AB_IDR :: u8 where "AB_IDR = 5"
definition AB_SLICE :: u8 where "AB_SLICE = 1"
definition AB_SPS :: u8 where "AB_SPS = 7"
definition AB_PPS :: u8 where "AB_PPS = 8"

function contains_idr_from :: "u8 list \<Rightarrow> nat \<Rightarrow> bool" where
  "contains_idr_from data index =
    (if index + 3 < length data then
       (if data ! index = 0 \<and> data ! (index + 1) = 0 \<and> data ! (index + 2) = 1 then
          (let header = data ! (index + 3) in
           if and header 0x80 = 0 \<and> and header 0x1F = AB_IDR then True
           else contains_idr_from data (index + 4))
        else contains_idr_from data (index + 1))
     else False)"
  by pat_completeness auto
termination by (relation "measure (\<lambda>(data, index). length data - index)") auto

definition contains_idr :: "u8 list \<Rightarrow> bool" where
  "contains_idr data = contains_idr_from data 0"

record NalUnit =
  nu_nal_type :: u8
  nu_ref_idc :: u8
  nu_len :: nat

function ab_starts :: "u8 list \<Rightarrow> nat \<Rightarrow> nat list" where
  "ab_starts data index =
    (if index + 3 < length data then
       (if data ! index = 0 \<and> data ! (index + 1) = 0 \<and> data ! (index + 2) = 1 then (index + 3) # ab_starts data (index + 4)
        else ab_starts data (index + 1))
     else [])"
  by pat_completeness auto
termination by (relation "measure (\<lambda>(data, index). length data - index)") auto

declare contains_idr_from.simps [simp del] ab_starts.simps [simp del]

fun ab_units_from :: "u8 list \<Rightarrow> nat list \<Rightarrow> NalUnit list" where
  "ab_units_from data [] = []"
| "ab_units_from data (start # starts) =
    (let end_pos = (case starts of
           [] \<Rightarrow> length data
         | nxt # _ \<Rightarrow> (let short = nxt - 3 in if start < short \<and> data ! (short - 1) = 0 then short - 1 else short)) in
     \<lparr>nu_nal_type = and (data ! start) 0x1F, nu_ref_idc = and (drop_bit 5 (data ! start)) 3, nu_len = end_pos - start\<rparr>
       # ab_units_from data starts)"

definition ab_units :: "u8 list \<Rightarrow> NalUnit list" where
  "ab_units data = ab_units_from data (ab_starts data 0)"

definition has_parameter_sets :: "u8 list \<Rightarrow> bool" where
  "has_parameter_sets data \<longleftrightarrow> list_ex (\<lambda>u. nu_nal_type u = AB_SPS \<or> nu_nal_type u = AB_PPS) (ab_units data)"

definition slices_are_non_reference :: "u8 list \<Rightarrow> bool option" where
  "slices_are_non_reference data =
    (let slices = filter (\<lambda>u. nu_nal_type u = AB_SLICE \<or> nu_nal_type u = AB_IDR) (ab_units data) in
     if slices = [] then None else Some (list_all (\<lambda>u. nu_ref_idc u = 0) slices))"

record StreamProfile =
  sp_profile_idc :: u8
  sp_constraints :: u8
  sp_level_idc :: u8

definition is_constrained_baseline :: "StreamProfile \<Rightarrow> bool" where
  "is_constrained_baseline p \<longleftrightarrow> sp_profile_idc p = 66 \<and> and (sp_constraints p) 0x40 \<noteq> 0"

definition profile_name :: "StreamProfile \<Rightarrow> string" where
  "profile_name p =
    (if sp_profile_idc p = 66 \<and> is_constrained_baseline p then ''Constrained Baseline''
     else if sp_profile_idc p = 66 then ''Baseline''
     else if sp_profile_idc p = 77 then ''Main''
     else if sp_profile_idc p = 88 then ''Extended''
     else if sp_profile_idc p = 100 then ''High''
     else if sp_profile_idc p = 110 then ''High 10''
     else if sp_profile_idc p = 122 then ''High 4:2:2''
     else if sp_profile_idc p = 244 then ''High 4:4:4 Predictive''
     else ''unrecognised profile'')"

function stream_profile_from :: "u8 list \<Rightarrow> nat \<Rightarrow> StreamProfile option" where
  "stream_profile_from data index =
    (if index + 3 < length data then
       (if data ! index = 0 \<and> data ! (index + 1) = 0 \<and> data ! (index + 2) = 1 then
          (let header = index + 3 in
           if and (data ! header) 0x80 = 0 \<and> and (data ! header) 0x1F = AB_SPS then
             (if header + 4 \<le> length data
              then Some \<lparr>sp_profile_idc = data ! (header + 1), sp_constraints = data ! (header + 2), sp_level_idc = data ! (header + 3)\<rparr>
              else None)
           else stream_profile_from data (index + 4))
        else stream_profile_from data (index + 1))
     else None)"
  by pat_completeness auto
termination by (relation "measure (\<lambda>(data, index). length data - index)") auto

definition stream_profile :: "u8 list \<Rightarrow> StreamProfile option" where
  "stream_profile data = stream_profile_from data 0"

section \<open>The scans on framed units\<close>

text \<open>The gate looks at the unit headers.\<close>

lemma contains_idr_starts:
  "contains_idr_from data i \<longleftrightarrow> list_ex (\<lambda>s. and (data ! s) 0x80 = 0 \<and> and (data ! s) 0x1F = AB_IDR) (ab_starts data i)"
proof (induction data i rule: ab_starts.induct)
  case (1 data i)
  then show ?case
    by (subst contains_idr_from.simps, subst ab_starts.simps) (auto simp: Let_def add.commute)
qed

text \<open>The same scan on the remaining bytes.\<close>

function starts_list :: "nat \<Rightarrow> u8 list \<Rightarrow> nat list" where
  "starts_list i bs =
    (if length bs < 4 then []
     else if take 3 bs = [0, 0, 1] then (i + 3) # starts_list (i + 4) (drop 4 bs)
     else starts_list (i + 1) (drop 1 bs))"
  by pat_completeness auto
termination by (relation "measure (\<lambda>(i, bs). length bs)") auto

declare starts_list.simps [simp del]

lemma ab_starts_list: "ab_starts data i = starts_list i (drop i data)"
proof (induction data i rule: ab_starts.induct)
  case (1 data i)
  show ?case
  proof (cases "i + 3 < length data")
    case False
    then have "length (drop i data) < 4" by simp
    then have "starts_list i (drop i data) = []" by (subst starts_list.simps) simp
    with False show ?thesis by (simp add: ab_starts.simps [of data i])
  next
    case True
    then have len: "\<not> length (drop i data) < 4" "i + 3 \<le> length data" by auto
    have t: "take 3 (drop i data) = [0, 0, 1] \<longleftrightarrow> data ! i = 0 \<and> data ! (i + 1) = 0 \<and> data ! (i + 2) = 1"
      using len(2) by (simp add: take3_nth)
    show ?thesis
    proof (cases "data ! i = 0 \<and> data ! (i + 1) = 0 \<and> data ! (i + 2) = 1")
      case m: True
      have "ab_starts data i = (i + 3) # ab_starts data (i + 4)" using True m by (simp add: ab_starts.simps [of data i])
      moreover have "starts_list i (drop i data) = (i + 3) # starts_list (i + 4) (drop 4 (drop i data))"
        using m t len(1) by (subst starts_list.simps) simp
      ultimately show ?thesis using "1.IH"(1) [OF True m] by (simp add: add.commute)
    next
      case m: False
      have "ab_starts data i = ab_starts data (i + 1)" using True m by (subst ab_starts.simps) auto
      moreover have "starts_list i (drop i data) = starts_list (i + 1) (drop 1 (drop i data))"
        using m t len(1) by (subst starts_list.simps) (simp only: if_False)
      ultimately show ?thesis using "1.IH"(2) [OF True m] by simp
    qed
  qed
qed

lemma starts_free:
  assumes "sc_free p" "tail = [] \<or> (\<exists>r. tail = 0 # 0 # 0 # 1 # r)"
  shows "starts_list i (p @ tail) = starts_list (i + length p) tail"
  using assms(1)
proof (induction p arbitrary: i)
  case (Cons b bs)
  have no: "take 3 (b # bs @ tail) \<noteq> [0, 0, 1]"
    using Cons.prems assms(2) by (cases bs; cases "tl bs") auto
  show ?case
  proof (cases "length (b # bs @ tail) < 4")
    case True
    then have "tail = []" using assms(2) by auto
    with True show ?thesis by (simp add: starts_list.simps [of i] starts_list.simps [of _ "[]"])
  next
    case False
    then have "starts_list i (b # bs @ tail) = starts_list (i + 1) (drop 1 (b # bs @ tail))"
      using no by (subst starts_list.simps) (simp only: if_False)
    with Cons show ?thesis by simp
  qed
qed simp

lemma starts_framed_Cons:
  assumes "unit_ok p"
  shows "starts_list i (framed (p # ps)) = (i + 4) # starts_list (i + 4 + length p) (framed ps)"
proof -
  obtain h q where p: "p = h # q" "sc_free q" using assms by (cases p) (auto simp: unit_ok_def)
  have "starts_list i (framed (p # ps)) = starts_list (i + 1) (0 # 0 # 1 # h # q @ framed ps)"
    by (subst starts_list.simps) (simp add: p START_CODE_def)
  also have "\<dots> = (i + 1 + 3) # starts_list (i + 1 + 4) (q @ framed ps)"
    by (subst starts_list.simps) simp
  also have "starts_list (i + 1 + 4) (q @ framed ps) = starts_list (i + 1 + 4 + length q) (framed ps)"
    using p(2) framed_start by (rule starts_free)
  finally show ?thesis by (simp add: p ac_simps)
qed

definition client_unit :: "u8 list \<Rightarrow> NalUnit" where
  "client_unit p = \<lparr>nu_nal_type = kind_of p, nu_ref_idc = and (drop_bit 5 (p ! 0)) 3, nu_len = length p\<rparr>"

lemma units_from_framed:
  "list_all unit_ok ps \<Longrightarrow> i = length pre \<Longrightarrow>
   ab_units_from (pre @ framed ps) (starts_list i (framed ps)) = map client_unit ps"
proof (induction ps arbitrary: pre i)
  case Nil
  then show ?case by (simp add: starts_list.simps [of _ "[]"])
next
  case (Cons p ps)
  let ?data = "pre @ framed (p # ps)" and ?rest = "starts_list (i + 4 + length p) (framed ps)"
  have ok: "unit_ok p" "list_all unit_ok ps" using Cons.prems by simp_all
  then have ne: "p \<noteq> []" by (simp add: unit_ok_def)
  have data: "?data = (pre @ START_CODE @ p) @ framed ps" by simp
  have IH: "ab_units_from ?data ?rest = map client_unit ps"
    unfolding data using Cons.prems by (intro Cons.IH) (simp_all add: START_CODE_def)
  have hd: "?data ! (i + 4) = p ! 0"
    using Cons.prems(2) ne by (simp add: START_CODE_def nth_append)
  have e: "(case ?rest of [] \<Rightarrow> length ?data
      | nxt # _ \<Rightarrow> (let short = nxt - 3 in if i + 4 < short \<and> ?data ! (short - 1) = 0 then short - 1 else short)) = i + 4 + length p"
  proof (cases ps)
    case Nil
    then show ?thesis using Cons.prems by (simp add: starts_list.simps [of _ "[]"] START_CODE_def)
  next
    case (Cons q qs)
    have "?data ! (i + 4 + length p) = 0" using Cons.prems(2) Cons by (simp add: START_CODE_def nth_append)
    moreover have "?rest = (i + 4 + length p + 4) # starts_list (i + 4 + length p + 4 + length q) (framed qs)"
      using ok(2) Cons by (simp add: starts_framed_Cons del: framed_simps(2))
    ultimately show ?thesis using ne by (simp add: Let_def ac_simps del: framed_simps)
  qed
  have "ab_units_from ?data ((i + 4) # ?rest) = client_unit p # ab_units_from ?data ?rest"
    unfolding ab_units_from.simps(2) e by (simp only: Let_def hd client_unit_def) simp
  then show ?case by (simp only: starts_framed_Cons [OF ok(1)] IH list.map)
qed

lemma ab_units_framed: "list_all unit_ok ps \<Longrightarrow> ab_units (framed ps) = map client_unit ps"
  using units_from_framed [of ps 0 "[]"] by (simp add: ab_units_def ab_starts_list)

lemma headers_framed:
  "list_all unit_ok ps \<Longrightarrow> i = length pre \<Longrightarrow>
   map (\<lambda>s. (pre @ framed ps) ! s) (starts_list i (framed ps)) = map (\<lambda>p. p ! 0) ps"
proof (induction ps arbitrary: pre i)
  case Nil
  then show ?case by (simp add: starts_list.simps [of _ "[]"])
next
  case (Cons p ps)
  have ok: "unit_ok p" "p \<noteq> []" using Cons.prems by (auto simp: unit_ok_def)
  have data: "pre @ framed (p # ps) = (pre @ START_CODE @ p) @ framed ps" by simp
  have "map (\<lambda>s. (pre @ framed (p # ps)) ! s) (starts_list (i + 4 + length p) (framed ps)) = map (\<lambda>p. p ! 0) ps"
    unfolding data using Cons.prems by (intro Cons.IH) (simp_all add: START_CODE_def)
  moreover have "(pre @ framed (p # ps)) ! (i + 4) = p ! 0"
    using Cons.prems(2) ok(2) by (simp add: START_CODE_def nth_append)
  ultimately show ?case by (simp only: starts_framed_Cons [OF ok(1)] list.map)
qed

lemma contains_idr_framed:
  assumes "list_all unit_ok ps"
  shows "contains_idr (framed ps) \<longleftrightarrow> list_ex (\<lambda>p. and (p ! 0) 0x80 = 0 \<and> kind_of p = AB_IDR) ps"
proof -
  let ?P = "\<lambda>h :: u8. and h 0x80 = 0 \<and> and h 0x1F = AB_IDR"
  have "contains_idr (framed ps) \<longleftrightarrow> list_ex ?P (map (\<lambda>s. framed ps ! s) (starts_list 0 (framed ps)))"
    by (simp add: contains_idr_def contains_idr_starts ab_starts_list list_ex_iff)
  also have "\<dots> \<longleftrightarrow> list_ex ?P (map (\<lambda>p. p ! 0) ps)" using headers_framed [OF assms, of 0 "[]"] by simp
  finally show ?thesis by (simp add: list_ex_iff)
qed

section \<open>Properties\<close>



end
