(* ===== verification/Yuv.thy ===== *)
theory Yuv
  imports Prelude "HOL-Library.Monad_Syntax"
begin

unbundle bit_operations_syntax

text \<open>
  The client's colour conversion (\<open>oxclient/src/decode/yuv.rs\<close>): planar 4:2:0 pictures to packed
  BGRA, row by row, eight pixels at a time where a row has them and two at a time in the rest.

  Lengths and offsets are natural numbers with the checked operations of \<open>usize\<close> written out, the
  arithmetic of the matrix is on 32-bit words, and a panic (a slice or index out of range, a failed
  \<open>debug_assert\<close>) is \<open>None\<close>. The vector type comes from another crate, so its operations are a record
  that the definitions take as an argument; \<open>lanewise\<close> says that they act on each lane like the
  operations on \<open>i32\<close>.

  Both row routines are shown to compute the same integer formula, so no intermediate value
  overflows and the two agree bit for bit, and the whole conversion is shown to be that formula at
  every pixel of an addressable picture.
\<close>

section \<open>Model\<close>

record I420Planes =
  pl_y :: "u8 list"
  pl_u :: "u8 list"
  pl_v :: "u8 list"
  pl_width :: nat
  pl_height :: nat
  pl_y_stride :: nat
  pl_u_stride :: nat
  pl_v_stride :: nat

definition usize_checked :: "nat \<Rightarrow> nat option" where
  "usize_checked n = (if n < 2 ^ 64 then Some n else None)"

definition div_ceil :: "nat \<Rightarrow> nat \<Rightarrow> nat" where
  "div_ceil n d = n div d + (if n mod d = 0 then 0 else 1)"

definition plane_fits :: "u8 list \<Rightarrow> nat \<Rightarrow> nat \<Rightarrow> nat \<Rightarrow> bool" where
  "plane_fits plane rows stride row_bytes =
    (case (if rows = 0 then None else Some (rows - 1)) \<bind> (\<lambda>final. usize_checked (final * stride)) \<bind>
          (\<lambda>offset. usize_checked (offset + row_bytes)) of
       None \<Rightarrow> False
     | Some needed \<Rightarrow> needed \<le> length plane)"

definition is_addressable :: "I420Planes \<Rightarrow> bool" where
  "is_addressable p =
    (if pl_width p = 0 \<or> pl_height p = 0 then False
     else
       let chroma_width = div_ceil (pl_width p) 2;
           chroma_height = div_ceil (pl_height p) 2 in
       if pl_y_stride p < pl_width p \<or> pl_u_stride p < chroma_width \<or> pl_v_stride p < chroma_width then False
       else plane_fits (pl_y p) (pl_height p) (pl_y_stride p) (pl_width p)
         \<and> plane_fits (pl_u p) chroma_height (pl_u_stride p) chroma_width
         \<and> plane_fits (pl_v p) chroma_height (pl_v_stride p) chroma_width)"

definition Y_SCALE :: i32 where "Y_SCALE = 76309"
definition R_V :: i32 where "R_V = 104597"
definition G_U :: i32 where "G_U = - 25675"
definition G_V :: i32 where "G_V = - 53279"
definition B_U :: i32 where "B_U = 132201"
definition HALF :: i32 where "HALF = push_bit 15 1"

text \<open>\<open>Ord::max\<close> and \<open>Ord::min\<close> on \<open>i32\<close>, and \<open>i32::from\<close> on a byte.\<close>

definition i32_max :: "i32 \<Rightarrow> i32 \<Rightarrow> i32" where
  "i32_max a b = (if a <s b then b else a)"

definition i32_min :: "i32 \<Rightarrow> i32 \<Rightarrow> i32" where
  "i32_min a b = (if b <s a then b else a)"

definition i32_of :: "u8 \<Rightarrow> i32" where
  "i32_of b = ucast b"

definition clamp_u8 :: "i32 \<Rightarrow> u8" where
  "clamp_u8 q16 =
    (let value = signed_drop_bit 16 (q16 + HALF) in
     ucast (if value <s 0 then 0 else if 255 <s value then 255 else value))"

definition chroma_offsets :: "u8 \<Rightarrow> u8 \<Rightarrow> i32 \<times> i32 \<times> i32" where
  "chroma_offsets cb cr =
    (let cb = i32_of cb - 128; cr = i32_of cr - 128 in
     (B_U * cb, G_U * cb + G_V * cr, R_V * cr))"

definition write_pixel :: "u8 list \<Rightarrow> u8 \<Rightarrow> i32 \<Rightarrow> i32 \<Rightarrow> i32 \<Rightarrow> u8 list option" where
  "write_pixel pixel luma blue green red =
    (let luma = Y_SCALE * (i32_of luma - 16) in
     if length pixel < 4 then None
     else Some (pixel[0 := clamp_u8 (luma + blue), 1 := clamp_u8 (luma + green), 2 := clamp_u8 (luma + red), 3 := 0xff]))"

text \<open>\<open>chunks_exact(n)\<close> and the remainder of it (\<open>n\<close> is a positive constant everywhere).\<close>

function chunks_exact :: "nat \<Rightarrow> 'a list \<Rightarrow> 'a list list" where
  "chunks_exact n xs = (if n = 0 \<or> length xs < n then [] else take n xs # chunks_exact n (drop n xs))"
  by pat_completeness auto
termination by (relation "measure (\<lambda>(n, xs). length xs)") auto

declare chunks_exact.simps [simp del]

definition chunk_remainder :: "nat \<Rightarrow> 'a list \<Rightarrow> 'a list" where
  "chunk_remainder n xs = drop (length xs - length xs mod n) xs"

text \<open>The two loops of \<open>convert_row\<close>, each stopping with the shortest of what it zips.\<close>

fun pixels_loop :: "u8 list list \<Rightarrow> u8 list \<Rightarrow> i32 \<times> i32 \<times> i32 \<Rightarrow> u8 list list option" where
  "pixels_loop (pixel # pixels) (luma # lumas) (blue, green, red) =
     do { written \<leftarrow> write_pixel pixel luma blue green red;
          rest \<leftarrow> pixels_loop pixels lumas (blue, green, red);
          Some (written # rest) }"
| "pixels_loop pixels _ _ = Some pixels"

fun pairs_loop :: "u8 list list \<Rightarrow> u8 list list \<Rightarrow> u8 list \<Rightarrow> u8 list \<Rightarrow> u8 list list option" where
  "pairs_loop (out # outs) (luma # lumas) (cb # cbs) (cr # crs) =
     do { pixels \<leftarrow> pixels_loop (chunks_exact 4 out) luma (chroma_offsets cb cr);
          rest \<leftarrow> pairs_loop outs lumas cbs crs;
          Some (concat pixels # rest) }"
| "pairs_loop outs _ _ _ = Some outs"

definition convert_row :: "u8 list \<Rightarrow> u8 list \<Rightarrow> u8 list \<Rightarrow> u8 list \<Rightarrow> u8 list option" where
  "convert_row luma cb cr out =
    (if length out \<noteq> length luma * 4 then None
     else do {
       pairs \<leftarrow> pairs_loop (chunks_exact 8 out) (chunks_exact 2 luma) cb cr;
       let tail = chunk_remainder 8 out;
       (if tail \<noteq> [] then
          (if cb = [] \<or> length cr < length cb \<or> luma = [] then None
           else case chroma_offsets (cb ! (length cb - 1)) (cr ! (length cb - 1)) of (blue, green, red) \<Rightarrow>
             do { written \<leftarrow> write_pixel tail (luma ! (length luma - 1)) blue green red;
                  Some (concat pairs @ written) })
        else Some (concat pairs)) })"

subsection \<open>Eight pixels at a time\<close>

record 'v i32x8 =
  v_from :: "i32 list \<Rightarrow> 'v"
  v_to_array :: "'v \<Rightarrow> i32 list"
  v_mul :: "'v \<Rightarrow> 'v \<Rightarrow> 'v"
  v_add :: "'v \<Rightarrow> 'v \<Rightarrow> 'v"
  v_shr :: "'v \<Rightarrow> nat \<Rightarrow> 'v"
  v_max :: "'v \<Rightarrow> 'v \<Rightarrow> 'v"
  v_min :: "'v \<Rightarrow> 'v \<Rightarrow> 'v"

definition lanewise :: "'v i32x8 \<Rightarrow> bool" where
  "lanewise ops \<longleftrightarrow>
     (\<forall>xs. length xs = 8 \<longrightarrow> v_to_array ops (v_from ops xs) = xs)
   \<and> (\<forall>a b. v_to_array ops (v_mul ops a b) = map2 (*) (v_to_array ops a) (v_to_array ops b))
   \<and> (\<forall>a b. v_to_array ops (v_add ops a b) = map2 (+) (v_to_array ops a) (v_to_array ops b))
   \<and> (\<forall>a n. v_to_array ops (v_shr ops a n) = map (signed_drop_bit n) (v_to_array ops a))
   \<and> (\<forall>a b. v_to_array ops (v_max ops a b) = map2 i32_max (v_to_array ops a) (v_to_array ops b))
   \<and> (\<forall>a b. v_to_array ops (v_min ops a b) = map2 i32_min (v_to_array ops a) (v_to_array ops b))"

definition SHIFT :: nat where "SHIFT = 16"

text \<open>One step of the vector loop: the three channels of eight pixels, then the pixels.\<close>

definition octet_channels :: "'v i32x8 \<Rightarrow> u8 list \<Rightarrow> u8 list \<Rightarrow> u8 list \<Rightarrow> i32 list \<times> i32 list \<times> i32 list" where
  "octet_channels ops luma cb cr =
    (let splat = (\<lambda>c. v_from ops (replicate 8 c));
         y = v_mul ops (v_from ops (map (\<lambda>i. i32_of (luma ! i) - 16) [0, 1, 2, 3, 4, 5, 6, 7])) (splat Y_SCALE);
         u = v_from ops (map (\<lambda>i. i32_of (cb ! i) - 128) [0, 0, 1, 1, 2, 2, 3, 3]);
         v = v_from ops (map (\<lambda>i. i32_of (cr ! i) - 128) [0, 0, 1, 1, 2, 2, 3, 3]);
         finish = (\<lambda>s. v_to_array ops (v_min ops (v_max ops (v_shr ops s SHIFT) (splat 0)) (splat 255)))
     in (finish (v_add ops (v_add ops y (v_mul ops u (splat B_U))) (splat HALF)),
         finish (v_add ops (v_add ops (v_add ops y (v_mul ops u (splat G_U))) (v_mul ops v (splat G_V))) (splat HALF)),
         finish (v_add ops (v_add ops y (v_mul ops v (splat R_V))) (splat HALF))))"

definition octet :: "'v i32x8 \<Rightarrow> u8 list \<Rightarrow> u8 list \<Rightarrow> u8 list \<Rightarrow> u8 list \<Rightarrow> u8 list" where
  "octet ops out luma cb cr =
    (case octet_channels ops luma cb cr of (blue, green, red) \<Rightarrow>
       concat (map (\<lambda>(lane, pixel).
           pixel[0 := ucast (blue ! lane), 1 := ucast (green ! lane), 2 := ucast (red ! lane), 3 := 0xff])
         (enumerate 0 (chunks_exact 4 out))))"

fun octets_loop :: "'v i32x8 \<Rightarrow> u8 list list \<Rightarrow> u8 list list \<Rightarrow> u8 list list \<Rightarrow> u8 list list \<Rightarrow> u8 list list" where
  "octets_loop ops (out # outs) (luma # lumas) (cb # cbs) (cr # crs) =
     octet ops out luma cb cr # octets_loop ops outs lumas cbs crs"
| "octets_loop ops outs _ _ _ = outs"

definition convert_row_vector :: "'v i32x8 \<Rightarrow> u8 list \<Rightarrow> u8 list \<Rightarrow> u8 list \<Rightarrow> u8 list \<Rightarrow> u8 list option" where
  "convert_row_vector ops luma cb cr out =
    (let octets = octets_loop ops (chunks_exact 32 out) (chunks_exact 8 luma) (chunks_exact 4 cb) (chunks_exact 4 cr);
         whole = length luma - length luma mod 8 in
     if whole < length luma then
       (if length cb < whole div 2 \<or> length cr < whole div 2 then None
        else map_option (\<lambda>rest. concat octets @ rest)
               (convert_row (drop whole luma) (drop (whole div 2) cb) (drop (whole div 2) cr) (chunk_remainder 32 out)))
     else Some (concat octets @ chunk_remainder 32 out))"

subsection \<open>Pictures\<close>

text \<open>\<open>&s[from..][..len]\<close>.\<close>

definition slice :: "u8 list \<Rightarrow> nat \<Rightarrow> nat \<Rightarrow> u8 list option" where
  "slice s start len = (if length s < start \<or> length s - start < len then None else Some (take len (drop start s)))"

text \<open>The rows of \<open>convert_picture\<close> from one on; the output slice of a row is replaced in place.\<close>

function convert_rows :: "'v i32x8 \<Rightarrow> I420Planes \<Rightarrow> nat \<Rightarrow> u8 list \<Rightarrow> u8 list option" where
  "convert_rows ops p row out =
    (if row < pl_height p then
       do { let chroma_width = div_ceil (pl_width p) 2;
            luma \<leftarrow> slice (pl_y p) (row * pl_y_stride p) (pl_width p);
            cb \<leftarrow> slice (pl_u p) (row div 2 * pl_u_stride p) chroma_width;
            cr \<leftarrow> slice (pl_v p) (row div 2 * pl_v_stride p) chroma_width;
            old \<leftarrow> slice out (row * pl_width p * 4) (pl_width p * 4);
            new \<leftarrow> convert_row_vector ops luma cb cr old;
            convert_rows ops p (row + 1)
              (take (row * pl_width p * 4) out @ new @ drop (row * pl_width p * 4 + pl_width p * 4) out) }
     else Some out)"
  by pat_completeness auto
termination by (relation "measure (\<lambda>(ops, p, row, out). pl_height p - row)") auto

declare convert_rows.simps [simp del]

definition convert_picture :: "'v i32x8 \<Rightarrow> I420Planes \<Rightarrow> u8 list \<Rightarrow> u8 list option" where
  "convert_picture ops p out = convert_rows ops p 0 out"

text \<open>
  The outer option is the panic (of the allocation, above \<open>isize::MAX\<close> bytes, or of a row), the inner
  one the function's own result.
\<close>

definition i420_to_bgra :: "'v i32x8 \<Rightarrow> I420Planes \<Rightarrow> u8 list option option" where
  "i420_to_bgra ops p =
    (if \<not> is_addressable p then Some None
     else case usize_checked (pl_width p * pl_height p) \<bind> (\<lambda>n. usize_checked (n * 4)) of
       None \<Rightarrow> Some None
     | Some len \<Rightarrow>
         if 2 ^ 63 \<le> len then None
         else map_option Some (convert_picture ops p (replicate len 0)))"

section \<open>The matrix in integers\<close>

text \<open>
  What a pixel should be: the Q16 matrix over the integers, rounded to nearest and clamped to a byte.
\<close>

definition q16_byte :: "int \<Rightarrow> u8" where
  "q16_byte s = word_of_int (max 0 (min 255 ((s + 32768) div 65536)))"

definition bgra_pixel :: "u8 \<Rightarrow> u8 \<Rightarrow> u8 \<Rightarrow> u8 list" where
  "bgra_pixel y cb cr =
    (let l = 76309 * (uint y - 16); u = uint cb - 128; v = uint cr - 128 in
     [q16_byte (l + 132201 * u), q16_byte (l - 25675 * u - 53279 * v), q16_byte (l + 104597 * v), 255])"

lemma length_bgra_pixel [simp]: "length (bgra_pixel y cb cr) = 4"
  by (simp add: bgra_pixel_def Let_def)

definition in_i32 :: "int \<Rightarrow> bool" where
  "in_i32 v \<longleftrightarrow> - (2 ^ 31) \<le> v \<and> v < 2 ^ 31"

lemma sint_i32: "in_i32 v \<Longrightarrow> sint (word_of_int v :: i32) = v"
  by (simp add: in_i32_def signed_of_int signed_take_bit_int_eq_self)

lemma word_exact: "(w :: i32) = word_of_int v \<Longrightarrow> in_i32 v \<Longrightarrow> sint w = v"
  by (simp add: sint_i32)

lemma i32_of_int: "i32_of b = word_of_int (uint b)"
  by (simp add: i32_of_def)

lemma byte_range: "0 \<le> uint (b :: u8)" "uint (b :: u8) \<le> 255"
  using uint_lt2p [of b] by simp_all

lemma shifted_exact:
  assumes "in_i32 (s + 32768)"
  shows "sint (signed_drop_bit 16 (word_of_int s + HALF)) = (s + 32768) div 65536"
proof -
  have "word_of_int s + HALF = word_of_int (s + 32768)" by (simp add: HALF_def)
  then have "sint (word_of_int s + HALF) = s + 32768" using assms by (simp only: sint_i32)
  then show ?thesis by (simp add: sint_signed_drop_bit_eq drop_bit_eq_div)
qed

lemma clamp_u8_exact:
  assumes "in_i32 (s + 32768)"
  shows "clamp_u8 (word_of_int s) = q16_byte s"
proof -
  define val where "val = signed_drop_bit 16 (word_of_int s + HALF)"
  define d where "d = (s + 32768) div 65536"
  have v: "sint val = d" using shifted_exact [OF assms] by (simp add: val_def d_def)
  then have w: "val = word_of_int d" by (metis of_int_sint scast_id)
  have "clamp_u8 (word_of_int s) = ucast (if d < 0 then 0 else if 255 < d then 255 else val)"
    unfolding clamp_u8_def val_def [symmetric] Let_def by (simp add: word_sless_alt v)
  also have "\<dots> = word_of_int (max 0 (min 255 d))"
    by (auto simp: w unsigned_of_int word_of_int_eq_iff max_def min_def take_bit_int_eq_self)
  finally show ?thesis by (simp add: q16_byte_def d_def)
qed

lemma lane_exact:
  assumes "in_i32 (s + 32768)"
  shows "ucast (i32_min (i32_max (signed_drop_bit 16 (word_of_int s + HALF)) 0) 255) = q16_byte s"
proof -
  define val where "val = signed_drop_bit 16 (word_of_int s + HALF)"
  have "ucast (i32_min (i32_max val 0) 255) = clamp_u8 (word_of_int s)"
    unfolding clamp_u8_def val_def [symmetric] Let_def
    by (auto simp: i32_min_def i32_max_def word_sless_alt)
  then show ?thesis using clamp_u8_exact [OF assms] by (simp add: val_def)
qed

text \<open>Every intermediate value of the conversion is in the range of \<open>i32\<close>.\<close>

lemma matrix_range:
  fixes a b c :: int
  assumes "0 \<le> a" "a \<le> 255" "0 \<le> b" "b \<le> 255" "0 \<le> c" "c \<le> 255"
  shows "in_i32 (76309 * (a - 16) + 132201 * (b - 128) + 32768)"
    and "in_i32 (76309 * (a - 16) - 25675 * (b - 128) - 53279 * (c - 128) + 32768)"
    and "in_i32 (76309 * (a - 16) + 104597 * (c - 128) + 32768)"
  using assms by (simp_all add: in_i32_def)

lemma matrix_in_i32:
  fixes y cb cr :: u8
  shows "in_i32 (76309 * (uint y - 16) + 132201 * (uint cb - 128) + 32768)"
    and "in_i32 (76309 * (uint y - 16) - 25675 * (uint cb - 128) - 53279 * (uint cr - 128) + 32768)"
    and "in_i32 (76309 * (uint y - 16) + 104597 * (uint cr - 128) + 32768)"
  by (rule matrix_range; rule byte_range)+

lemma matrix_words:
  "Y_SCALE * (i32_of y - 16) + B_U * (i32_of cb - 128) =
     word_of_int (76309 * (uint y - 16) + 132201 * (uint cb - 128))"
  "Y_SCALE * (i32_of y - 16) + (G_U * (i32_of cb - 128) + G_V * (i32_of cr - 128)) =
     word_of_int (76309 * (uint y - 16) - 25675 * (uint cb - 128) - 53279 * (uint cr - 128))"
  "Y_SCALE * (i32_of y - 16) + R_V * (i32_of cr - 128) =
     word_of_int (76309 * (uint y - 16) + 104597 * (uint cr - 128))"
  by (simp_all add: Y_SCALE_def B_U_def G_U_def G_V_def R_V_def i32_of_int algebra_simps)

lemma list_4: "length p = 4 \<Longrightarrow> p[0 := a, 1 := b, 2 := c, 3 := d] = [a, b, c, d]"
  by (auto simp: numeral_eq_Suc length_Suc_conv)

lemma write_pixel_exact:
  assumes "length pixel = 4" "chroma_offsets cb cr = (blue, green, red)"
  shows "write_pixel pixel luma blue green red = Some (bgra_pixel luma cb cr)"
proof -
  have off: "blue = B_U * (i32_of cb - 128)" "green = G_U * (i32_of cb - 128) + G_V * (i32_of cr - 128)"
      "red = R_V * (i32_of cr - 128)"
    using assms(2) by (simp_all add: chroma_offsets_def Let_def)
  show ?thesis
    unfolding write_pixel_def Let_def off matrix_words clamp_u8_exact [OF matrix_in_i32(1)]
      clamp_u8_exact [OF matrix_in_i32(2)] clamp_u8_exact [OF matrix_in_i32(3)] list_4 [OF assms(1)]
    by (simp add: assms(1) bgra_pixel_def Let_def)
qed

section \<open>Rows\<close>

lemma chunks_exact_short: "length xs < n \<Longrightarrow> chunks_exact n xs = []"
  by (simp add: chunks_exact.simps)

lemma chunks_exact_append:
  assumes "length c = n" "0 < n"
  shows "chunks_exact n (c @ xs) = c # chunks_exact n xs"
  using assms by (simp add: chunks_exact.simps [of n "c @ xs"])

lemma chunk_remainder_short: "length xs < n \<Longrightarrow> chunk_remainder n xs = xs"
  by (simp add: chunk_remainder_def)

lemma chunk_remainder_append:
  assumes "length c = n" "0 < n"
  shows "chunk_remainder n (c @ xs) = chunk_remainder n xs"
proof -
  have "length (c @ xs) - length (c @ xs) mod n = length c + (length xs - length xs mod n)"
    using assms mod_less_eq_dividend [of "length xs" n] by simp
  then have "chunk_remainder n (c @ xs) = drop (length xs - length xs mod n) (drop (length c) (c @ xs))"
    by (simp only: chunk_remainder_def drop_drop add.commute)
  then show ?thesis by (simp add: chunk_remainder_def)
qed

text \<open>The pixels of a row, two per chroma sample.\<close>

fun row_pixels :: "u8 list \<Rightarrow> u8 list \<Rightarrow> u8 list \<Rightarrow> u8 list" where
  "row_pixels (y0 # y1 # ys) (cb # cbs) (cr # crs) = bgra_pixel y0 cb cr @ bgra_pixel y1 cb cr @ row_pixels ys cbs crs"
| "row_pixels [y] (cb # cbs) (cr # crs) = bgra_pixel y cb cr"
| "row_pixels _ _ _ = []"

lemma list_by_two:
  obtains "xs = []" | x where "xs = [x]" | x y zs where "xs = x # y # zs"
  by (metis neq_Nil_conv)

lemma row_pixels_index:
  assumes "length cb = (length luma + 1) div 2" "length cr = (length luma + 1) div 2"
  shows "row_pixels luma cb cr =
         concat (map (\<lambda>i. bgra_pixel (luma ! i) (cb ! (i div 2)) (cr ! (i div 2))) [0..<length luma])"
  using assms
proof (induction luma cb cr rule: row_pixels.induct)
  case (1 y0 y1 ys cb cbs cr crs)
  have "[0..<length (y0 # y1 # ys)] = 0 # 1 # map (\<lambda>i. i + 2) [0..<length ys]"
    using map_add_upt [of 2 "length ys"] by (simp add: upt_conv_Cons numeral_2_eq_2 del: upt_Suc)
  then show ?case using 1 by (simp add: comp_def del: upt_Suc)
qed (auto simp: length_Suc_conv)

lemma split_out:
  assumes "length out = n + m"
  obtains a b where "out = a @ b" "length a = n" "length b = m"
  using assms by (metis append_take_drop_id length_take length_drop min.absorb2 le_add1 diff_add_inverse)

lemma split_out_quad:
  assumes "length out = 4 * Suc n"
  obtains p b where "out = p @ b" "length p = 4" "length b = 4 * n"
proof -
  have "length out = 4 + 4 * n" using assms by simp
  then show thesis by (rule split_out) (rule that)
qed

text \<open>The scalar routine, from the pairs to the odd pixel.\<close>

lemma pixels_loop_pair:
  assumes "length p0 = 4" "length p1 = 4"
  shows "pixels_loop (chunks_exact 4 (p0 @ p1)) [y0, y1] (chroma_offsets cb cr) =
         Some [bgra_pixel y0 cb cr, bgra_pixel y1 cb cr]"
proof -
  obtain blue green red where off: "chroma_offsets cb cr = (blue, green, red)" by (metis prod_cases3)
  have "chunks_exact 4 (p0 @ p1) = [p0, p1]"
    using chunks_exact_append [OF assms(1), of p1] chunks_exact_append [OF assms(2), of "[]"]
    by (simp add: chunks_exact_short)
  then show ?thesis using assms by (simp add: off write_pixel_exact [OF _ off])
qed

definition odd_pixel :: "u8 list \<Rightarrow> u8 list \<Rightarrow> u8 list \<Rightarrow> u8 list \<Rightarrow> u8 list option" where
  "odd_pixel luma cb cr tail =
    (if tail = [] then Some []
     else if cb = [] \<or> length cr < length cb \<or> luma = [] then None
     else case chroma_offsets (cb ! (length cb - 1)) (cr ! (length cb - 1)) of (blue, green, red) \<Rightarrow>
       write_pixel tail (luma ! (length luma - 1)) blue green red)"

definition scalar_parts :: "u8 list \<Rightarrow> u8 list \<Rightarrow> u8 list \<Rightarrow> u8 list \<Rightarrow> u8 list option" where
  "scalar_parts luma cb cr out =
    do { pairs \<leftarrow> pairs_loop (chunks_exact 8 out) (chunks_exact 2 luma) cb cr;
         written \<leftarrow> odd_pixel luma cb cr (chunk_remainder 8 out);
         Some (concat pairs @ written) }"

lemma convert_row_parts: "length out = length luma * 4 \<Longrightarrow> convert_row luma cb cr out = scalar_parts luma cb cr out"
  by (simp add: convert_row_def scalar_parts_def odd_pixel_def Let_def split: prod.split option.split)

lemma odd_pixel_skip:
  assumes "ys \<noteq> []" "cbs \<noteq> []"
  shows "odd_pixel (y0 # y1 # ys) (cb # cbs) (cr # crs) tail = odd_pixel ys cbs crs tail"
proof -
  have nths: "(y0 # y1 # ys) ! (length (y0 # y1 # ys) - 1) = ys ! (length ys - 1)"
      "(cb # cbs) ! (length (cb # cbs) - 1) = cbs ! (length cbs - 1)"
      "(cr # crs) ! (length (cb # cbs) - 1) = crs ! (length cbs - 1)"
    using assms by (auto simp: neq_Nil_conv)
  show ?thesis unfolding odd_pixel_def nths using assms by simp
qed

lemma scalar_parts_pair:
  assumes "length p0 = 4" "length p1 = 4"
    and skip: "odd_pixel (y0 # y1 # ys) (cb # cbs) (cr # crs) (chunk_remainder 8 out) = odd_pixel ys cbs crs (chunk_remainder 8 out)"
  shows "scalar_parts (y0 # y1 # ys) (cb # cbs) (cr # crs) (p0 @ p1 @ out) =
         map_option (\<lambda>rest. bgra_pixel y0 cb cr @ bgra_pixel y1 cb cr @ rest) (scalar_parts ys cbs crs out)"
proof -
  have parts: "chunks_exact 8 (p0 @ p1 @ out) = (p0 @ p1) # chunks_exact 8 out"
      "chunks_exact 2 (y0 # y1 # ys) = [y0, y1] # chunks_exact 2 ys"
      "chunk_remainder 8 (p0 @ p1 @ out) = chunk_remainder 8 out"
    using chunks_exact_append [of "p0 @ p1" 8 out] chunks_exact_append [of "[y0, y1]" 2 ys]
      chunk_remainder_append [of "p0 @ p1" 8 out] assms(1,2) by simp_all
  show ?thesis
    unfolding scalar_parts_def parts skip using pixels_loop_pair [OF assms(1,2)]
    by (cases "pairs_loop (chunks_exact 8 out) (chunks_exact 2 ys) cbs crs";
        cases "odd_pixel ys cbs crs (chunk_remainder 8 out)") simp_all
qed

lemma half_up_zero [simp]: "Suc n div 2 = 0 \<longleftrightarrow> n = 0"
  by (cases n) simp_all

lemma scalar_parts_exact:
  assumes "length cb = (length luma + 1) div 2" "length cr = (length luma + 1) div 2" "length out = 4 * length luma"
  shows "scalar_parts luma cb cr out = Some (row_pixels luma cb cr)"
  using assms
proof (induction luma cb cr arbitrary: out rule: row_pixels.induct)
  case (1 y0 y1 ys cb cbs cr crs)
  have "length out = 4 * Suc (Suc (length ys))" using 1(4) by simp
  then obtain p0 rest where out: "out = p0 @ rest" "length p0 = 4" "length rest = 4 * Suc (length ys)"
    by (rule split_out_quad)
  from out(3) obtain p1 out' where rest: "rest = p1 @ out'" "length p1 = 4" "length out' = 4 * length ys"
    by (rule split_out_quad)
  have skip: "odd_pixel (y0 # y1 # ys) (cb # cbs) (cr # crs) (chunk_remainder 8 out') = odd_pixel ys cbs crs (chunk_remainder 8 out')"
  proof (cases "ys = []")
    case True
    then show ?thesis using rest(3) by (simp add: odd_pixel_def chunk_remainder_def)
  next
    case False
    then show ?thesis using 1(2) by (intro odd_pixel_skip; cases ys; auto)
  qed
  have "scalar_parts ys cbs crs out' = Some (row_pixels ys cbs crs)" using 1 rest(3) by simp
  then show ?case using scalar_parts_pair [OF out(2) rest(2) skip] by (simp add: out(1) rest(1))
next
  case (2 y cb cbs cr crs)
  obtain blue green red where off: "chroma_offsets cb cr = (blue, green, red)" by (metis prod_cases3)
  have "chunks_exact 8 out = []" "chunk_remainder 8 out = out" "cbs = []" "crs = []"
    using 2 by (simp_all add: chunks_exact_short chunk_remainder_short)
  then show ?case using 2 off by (auto simp: scalar_parts_def odd_pixel_def write_pixel_exact [OF _ off])
qed (auto simp: scalar_parts_def odd_pixel_def chunks_exact_short chunk_remainder_short)

lemma convert_row_exact:
  assumes "length cb = (length luma + 1) div 2" "length cr = (length luma + 1) div 2" "length out = 4 * length luma"
  shows "convert_row luma cb cr out = Some (row_pixels luma cb cr)"
  using assms by (simp add: convert_row_parts scalar_parts_exact)

subsection \<open>The vector routine\<close>

lemma lanewise_simps:
  assumes "lanewise ops"
  shows "length xs = 8 \<Longrightarrow> v_to_array ops (v_from ops xs) = xs"
    and "v_to_array ops (v_mul ops a b) = map2 (*) (v_to_array ops a) (v_to_array ops b)"
    and "v_to_array ops (v_add ops a b) = map2 (+) (v_to_array ops a) (v_to_array ops b)"
    and "v_to_array ops (v_shr ops a n) = map (signed_drop_bit n) (v_to_array ops a)"
    and "v_to_array ops (v_max ops a b) = map2 i32_max (v_to_array ops a) (v_to_array ops b)"
    and "v_to_array ops (v_min ops a b) = map2 i32_min (v_to_array ops a) (v_to_array ops b)"
  using assms by (simp_all add: lanewise_def)

definition channel :: "i32 \<Rightarrow> i32" where
  "channel s = i32_min (i32_max (signed_drop_bit 16 (s + HALF)) 0) 255"

lemma replicate_8: "replicate 8 c = [c, c, c, c, c, c, c, c]"
  by (simp add: numeral_eq_Suc)

lemma octet_channels_exact:
  assumes "lanewise ops"
  shows "octet_channels ops luma cb cr =
    (map2 (\<lambda>i j. channel (Y_SCALE * (i32_of (luma ! i) - 16) + B_U * (i32_of (cb ! j) - 128)))
       [0, 1, 2, 3, 4, 5, 6, 7] [0, 0, 1, 1, 2, 2, 3, 3],
     map2 (\<lambda>i j. channel (Y_SCALE * (i32_of (luma ! i) - 16) + (G_U * (i32_of (cb ! j) - 128) + G_V * (i32_of (cr ! j) - 128))))
       [0, 1, 2, 3, 4, 5, 6, 7] [0, 0, 1, 1, 2, 2, 3, 3],
     map2 (\<lambda>i j. channel (Y_SCALE * (i32_of (luma ! i) - 16) + R_V * (i32_of (cr ! j) - 128)))
       [0, 1, 2, 3, 4, 5, 6, 7] [0, 0, 1, 1, 2, 2, 3, 3])"
  unfolding octet_channels_def Let_def
  by (simp add: lanewise_simps [OF assms] replicate_8 SHIFT_def channel_def mult.commute add.assoc)

lemma channel_exact:
  "ucast (channel (Y_SCALE * (i32_of y - 16) + B_U * (i32_of cb - 128))) =
     q16_byte (76309 * (uint y - 16) + 132201 * (uint cb - 128))"
  "ucast (channel (Y_SCALE * (i32_of y - 16) + (G_U * (i32_of cb - 128) + G_V * (i32_of cr - 128)))) =
     q16_byte (76309 * (uint y - 16) - 25675 * (uint cb - 128) - 53279 * (uint cr - 128))"
  "ucast (channel (Y_SCALE * (i32_of y - 16) + R_V * (i32_of cr - 128))) =
     q16_byte (76309 * (uint y - 16) + 104597 * (uint cr - 128))"
  unfolding channel_def matrix_words by (simp_all only: lane_exact matrix_in_i32)

lemma bgra_channels:
  "[ucast (channel (Y_SCALE * (i32_of y - 16) + B_U * (i32_of cb - 128))),
    ucast (channel (Y_SCALE * (i32_of y - 16) + (G_U * (i32_of cb - 128) + G_V * (i32_of cr - 128)))),
    ucast (channel (Y_SCALE * (i32_of y - 16) + R_V * (i32_of cr - 128))), 255] = bgra_pixel y cb cr"
  unfolding channel_exact bgra_pixel_def Let_def by simp

lemma chunks_exact_index:
  assumes "0 < n"
  shows "chunks_exact n xs = map (\<lambda>i. take n (drop (n * i) xs)) [0..<length xs div n]"
  using assms
proof (induction n xs rule: chunks_exact.induct)
  case (1 n xs)
  show ?case
  proof (cases "length xs < n")
    case True
    then show ?thesis by (simp add: chunks_exact_short)
  next
    case False
    then have "length xs div n = Suc ((length xs - n) div n)" using 1(2) by (simp add: le_div_geq)
    then show ?thesis
      using 1 False by (simp add: chunks_exact.simps [of n xs] upt_conv_Cons map_Suc_upt [symmetric] comp_def add.commute del: upt_Suc)
  qed
qed

lemma chunks_of_32:
  assumes "length out = 32"
  shows "chunks_exact 4 out = map (\<lambda>i. take 4 (drop (4 * i) out)) [0, 1, 2, 3, 4, 5, 6, 7]"
proof -
  have "[0..<8] = [0, 1, 2, 3, 4, 5, 6, 7 :: nat]" by (simp add: upt_rec)
  then show ?thesis using chunks_exact_index [of 4 out] assms by simp
qed

lemma octet_exact:
  assumes "lanewise ops" "length out = 32"
  shows "octet ops out [y0, y1, y2, y3, y4, y5, y6, y7] [b0, b1, b2, b3] [r0, r1, r2, r3] =
         bgra_pixel y0 b0 r0 @ bgra_pixel y1 b0 r0 @ bgra_pixel y2 b1 r1 @ bgra_pixel y3 b1 r1 @
         bgra_pixel y4 b2 r2 @ bgra_pixel y5 b2 r2 @ bgra_pixel y6 b3 r3 @ bgra_pixel y7 b3 r3"
proof -
  have quad: "(take 4 (drop k out))[0 := a, 1 := b, 2 := c, 3 := d] = [a, b, c, d]" if "k \<le> 28" for k a b c d
    using assms(2) that by (intro list_4) simp
  have first_quad: "(take 4 out)[0 := a, 1 := b, 2 := c, 3 := d] = [a, b, c, d]" for a b c d
    using quad [of 0] by (simp del: One_nat_def)
  show ?thesis
    unfolding octet_def octet_channels_exact [OF assms(1)] chunks_of_32 [OF assms(2)] bgra_channels [symmetric]
    by (simp add: quad first_quad del: One_nat_def)
qed

lemma vector_step:
  assumes "length ys = 8" "length bs = 4" "length rs = 4" "length o8 = 32"
  shows "convert_row_vector ops (ys @ luma) (bs @ cb) (rs @ cr) (o8 @ out) =
         map_option (\<lambda>rest. octet ops o8 ys bs rs @ rest) (convert_row_vector ops luma cb cr out)"
proof -
  define whole where "whole = length luma - length luma mod 8"
  have whole: "length (ys @ luma) - length (ys @ luma) mod 8 = 8 + whole"
    using assms mod_less_eq_dividend [of "length luma" 8] by (simp add: whole_def)
  have cut: "drop (8 + whole) (ys @ luma) = drop whole luma" "(8 + whole) div 2 = 4 + whole div 2"
      "drop (4 + whole div 2) (bs @ cb) = drop (whole div 2) cb" "drop (4 + whole div 2) (rs @ cr) = drop (whole div 2) cr"
    using assms by simp_all
  have parts: "chunks_exact 32 (o8 @ out) = o8 # chunks_exact 32 out" "chunks_exact 8 (ys @ luma) = ys # chunks_exact 8 luma"
      "chunks_exact 4 (bs @ cb) = bs # chunks_exact 4 cb" "chunks_exact 4 (rs @ cr) = rs # chunks_exact 4 cr"
      "chunk_remainder 32 (o8 @ out) = chunk_remainder 32 out"
    using assms by (simp_all add: chunks_exact_append chunk_remainder_append)
  show ?thesis
    unfolding convert_row_vector_def Let_def whole whole_def [symmetric] parts cut
    using assms by (auto simp: option.map_comp comp_def intro!: option.map_cong0)
qed

lemma row_pixels_octet:
  "row_pixels ([y0, y1, y2, y3, y4, y5, y6, y7] @ luma) ([b0, b1, b2, b3] @ cb) ([r0, r1, r2, r3] @ cr) =
     (bgra_pixel y0 b0 r0 @ bgra_pixel y1 b0 r0 @ bgra_pixel y2 b1 r1 @ bgra_pixel y3 b1 r1 @
      bgra_pixel y4 b2 r2 @ bgra_pixel y5 b2 r2 @ bgra_pixel y6 b3 r3 @ bgra_pixel y7 b3 r3) @ row_pixels luma cb cr"
  by simp

lemma split_eight:
  assumes "8 \<le> length xs"
  obtains a b c d e f g h rest where "xs = [a, b, c, d, e, f, g, h] @ rest"
  using assms by (auto simp: numeral_eq_Suc Suc_le_length_iff)

lemma split_four:
  assumes "4 \<le> length xs"
  obtains a b c d rest where "xs = [a, b, c, d] @ rest"
  using assms by (auto simp: numeral_eq_Suc Suc_le_length_iff)

lemma vector_exact:
  assumes "lanewise ops" "length cb = (length luma + 1) div 2" "length cr = (length luma + 1) div 2" "length out = 4 * length luma"
  shows "convert_row_vector ops luma cb cr out = Some (row_pixels luma cb cr)"
  using assms(2-4)
proof (induction "length luma" arbitrary: luma cb cr out rule: less_induct)
  case less
  show ?case
  proof (cases "length luma < 8")
    case True
    then have "chunks_exact 32 out = []" "chunk_remainder 32 out = out"
      using less.prems by (simp_all add: chunks_exact_short chunk_remainder_short)
    then show ?thesis
      using True less.prems by (cases "luma = []") (simp_all add: convert_row_vector_def Let_def convert_row_exact)
  next
    case False
    then have "8 \<le> length luma" "4 \<le> length cb" "4 \<le> length cr" using less.prems by simp_all
    then obtain y0 y1 y2 y3 y4 y5 y6 y7 ys b0 b1 b2 b3 bs r0 r1 r2 r3 rs
      where row: "luma = [y0, y1, y2, y3, y4, y5, y6, y7] @ ys" "cb = [b0, b1, b2, b3] @ bs" "cr = [r0, r1, r2, r3] @ rs"
      by (elim split_eight split_four) (rule that)
    obtain o8 os where out: "out = o8 @ os" "length o8 = 32" "length os = 4 * length ys"
      using split_out [of out 32 "4 * length ys"] less.prems row(1) by auto
    have "convert_row_vector ops ys bs rs os = Some (row_pixels ys bs rs)"
      using less.prems row out by (intro less.hyps) simp_all
    then show ?thesis
      unfolding row out(1) row_pixels_octet using octet_exact [OF assms(1) out(2)]
      by (subst vector_step) (simp_all add: out(2))
  qed
qed

section \<open>Pictures\<close>

lemma plane_fits_row:
  assumes "plane_fits plane rows stride n" "row < rows"
  shows "row * stride + n \<le> length plane"
proof -
  have "(rows - 1) * stride + n \<le> length plane"
    using assms by (auto simp: plane_fits_def usize_checked_def split: if_splits)
  moreover have "row * stride \<le> (rows - 1) * stride" using assms(2) by (intro mult_right_mono) auto
  ultimately show ?thesis by linarith
qed

lemma plane_fits_slice:
  assumes "plane_fits plane rows stride n" "row < rows"
  shows "slice plane (row * stride) n = Some (take n (drop (row * stride) plane))"
  using plane_fits_row [OF assms] by (simp add: slice_def)

lemma div_ceil_2: "div_ceil n 2 = (n + 1) div 2"
  by (simp add: div_ceil_def) (cases "even n"; simp add: even_iff_mod_2_eq_zero [symmetric])

lemma half_row: "row < n \<Longrightarrow> row div 2 < div_ceil n 2"
  by (simp add: div_ceil_2)

definition picture_row :: "I420Planes \<Rightarrow> nat \<Rightarrow> u8 list" where
  "picture_row p row =
     row_pixels (take (pl_width p) (drop (row * pl_y_stride p) (pl_y p)))
       (take (div_ceil (pl_width p) 2) (drop (row div 2 * pl_u_stride p) (pl_u p)))
       (take (div_ceil (pl_width p) 2) (drop (row div 2 * pl_v_stride p) (pl_v p)))"

lemma addressable_planes:
  assumes "is_addressable p"
  shows "plane_fits (pl_y p) (pl_height p) (pl_y_stride p) (pl_width p)"
    and "plane_fits (pl_u p) (div_ceil (pl_height p) 2) (pl_u_stride p) (div_ceil (pl_width p) 2)"
    and "plane_fits (pl_v p) (div_ceil (pl_height p) 2) (pl_v_stride p) (div_ceil (pl_width p) 2)"
  using assms by (simp_all add: is_addressable_def Let_def split: if_splits)

text \<open>The three rows a picture row is made of, as many samples as the row needs.\<close>

lemma addressable_rows:
  assumes "is_addressable p" "row < pl_height p"
  shows "length (take (pl_width p) (drop (row * pl_y_stride p) (pl_y p))) = pl_width p"
    and "length (take (div_ceil (pl_width p) 2) (drop (row div 2 * pl_u_stride p) (pl_u p))) = div_ceil (pl_width p) 2"
    and "length (take (div_ceil (pl_width p) 2) (drop (row div 2 * pl_v_stride p) (pl_v p))) = div_ceil (pl_width p) 2"
  using plane_fits_row [OF addressable_planes(1) [OF assms(1)] assms(2)]
    plane_fits_row [OF addressable_planes(2) [OF assms(1)] half_row [OF assms(2)]]
    plane_fits_row [OF addressable_planes(3) [OF assms(1)] half_row [OF assms(2)]] by simp_all

lemma picture_row_index:
  assumes "is_addressable p" "row < pl_height p"
  shows "picture_row p row =
    concat (map (\<lambda>col. bgra_pixel (pl_y p ! (row * pl_y_stride p + col))
                                  (pl_u p ! (row div 2 * pl_u_stride p + col div 2))
                                  (pl_v p ! (row div 2 * pl_v_stride p + col div 2))) [0..<pl_width p])"
proof -
  note rows = addressable_rows [OF assms]
  have "picture_row p row = concat (map (\<lambda>i. bgra_pixel (take (pl_width p) (drop (row * pl_y_stride p) (pl_y p)) ! i)
      (take (div_ceil (pl_width p) 2) (drop (row div 2 * pl_u_stride p) (pl_u p)) ! (i div 2))
      (take (div_ceil (pl_width p) 2) (drop (row div 2 * pl_v_stride p) (pl_v p)) ! (i div 2))) [0..<pl_width p])"
    unfolding picture_row_def by (subst row_pixels_index, unfold rows) (simp_all add: div_ceil_2)
  also have "\<dots> = concat (map (\<lambda>col. bgra_pixel (pl_y p ! (row * pl_y_stride p + col))
                                  (pl_u p ! (row div 2 * pl_u_stride p + col div 2))
                                  (pl_v p ! (row div 2 * pl_v_stride p + col div 2))) [0..<pl_width p])"
    using plane_fits_row [OF addressable_planes(2) [OF assms(1)] half_row [OF assms(2)]]
      plane_fits_row [OF addressable_planes(3) [OF assms(1)] half_row [OF assms(2)]] plane_fits_row [OF addressable_planes(1) [OF assms(1)] assms(2)]
    by (intro arg_cong [where f = concat] map_cong refl) (simp add: half_row)
  finally show ?thesis .
qed

lemma length_concat_quads: "(\<And>x. x \<in> set xs \<Longrightarrow> length (f x) = k) \<Longrightarrow> length (concat (map f xs)) = k * length xs"
  by (induction xs) auto

lemma length_picture_row:
  assumes "is_addressable p" "row < pl_height p"
  shows "length (picture_row p row) = 4 * pl_width p"
  unfolding picture_row_index [OF assms] by (subst length_concat_quads [where k = 4]) simp_all

lemma picture_row_converted:
  assumes "lanewise ops" "is_addressable p" "row < pl_height p" "length old = pl_width p * 4"
  shows "convert_row_vector ops (take (pl_width p) (drop (row * pl_y_stride p) (pl_y p)))
       (take (div_ceil (pl_width p) 2) (drop (row div 2 * pl_u_stride p) (pl_u p)))
       (take (div_ceil (pl_width p) 2) (drop (row div 2 * pl_v_stride p) (pl_v p))) old = Some (picture_row p row)"
  unfolding picture_row_def
  by (rule vector_exact [OF assms(1)], unfold addressable_rows [OF assms(2,3)]) (simp_all add: div_ceil_2 assms(4))

lemma convert_rows_step:
  assumes "lanewise ops" "is_addressable p" "row < pl_height p" "row * pl_width p * 4 + pl_width p * 4 \<le> length out"
  shows "convert_rows ops p row out = convert_rows ops p (row + 1)
    (take (row * pl_width p * 4) out @ picture_row p row @ drop (row * pl_width p * 4 + pl_width p * 4) out)"
proof -
  have old: "slice out (row * pl_width p * 4) (pl_width p * 4) = Some (take (pl_width p * 4) (drop (row * pl_width p * 4) out))"
    using assms(4) by (simp add: slice_def)
  have conv: "convert_row_vector ops (take (pl_width p) (drop (row * pl_y_stride p) (pl_y p)))
      (take (div_ceil (pl_width p) 2) (drop (row div 2 * pl_u_stride p) (pl_u p)))
      (take (div_ceil (pl_width p) 2) (drop (row div 2 * pl_v_stride p) (pl_v p)))
      (take (pl_width p * 4) (drop (row * pl_width p * 4) out)) = Some (picture_row p row)"
    using assms(4) by (intro picture_row_converted assms) simp
  show ?thesis
    using assms(3) old conv plane_fits_slice [OF addressable_planes(1) [OF assms(2)] assms(3)]
      plane_fits_slice [OF addressable_planes(2) [OF assms(2)] half_row [OF assms(3)]]
      plane_fits_slice [OF addressable_planes(3) [OF assms(2)] half_row [OF assms(3)]]
    by (subst convert_rows.simps) (simp add: Let_def)
qed

lemma convert_rows_exact:
  assumes "lanewise ops" "is_addressable p" "length out = pl_height p * pl_width p * 4" "row \<le> pl_height p"
  shows "convert_rows ops p row out = Some (take (row * pl_width p * 4) out @ concat (map (picture_row p) [row..<pl_height p]))"
  using assms(3,4)
proof (induction "pl_height p - row" arbitrary: row out)
  case 0
  then show ?case by (simp add: convert_rows.simps)
next
  case (Suc n)
  then have row: "row < pl_height p" by simp
  define start where "start = row * pl_width p * 4"
  define out' where "out' = take start out @ picture_row p row @ drop (start + pl_width p * 4) out"
  have "Suc row * pl_width p * 4 \<le> pl_height p * pl_width p * 4" using row by (intro mult_right_mono) auto
  then have room: "start + pl_width p * 4 \<le> length out" using Suc.prems by (simp add: start_def algebra_simps)
  have next_start: "(row + 1) * pl_width p * 4 = start + length (picture_row p row)"
    using length_picture_row [OF assms(2) row] by (simp add: start_def algebra_simps)
  have "convert_rows ops p row out = convert_rows ops p (row + 1) out'"
    using convert_rows_step [OF assms(1,2) row, of out] room by (simp add: start_def out'_def)
  also have "\<dots> = Some (take ((row + 1) * pl_width p * 4) out' @ concat (map (picture_row p) [row + 1..<pl_height p]))"
    using Suc.hyps(2) Suc.prems(1) room row length_picture_row [OF assms(2) row] by (intro Suc.hyps(1)) (simp_all add: out'_def)
  also have "take ((row + 1) * pl_width p * 4) out' = take start out @ picture_row p row"
    unfolding next_start using room by (simp add: out'_def)
  finally show ?case using row by (simp add: start_def upt_conv_Cons)
qed

definition yuv_picture :: "I420Planes \<Rightarrow> u8 list" where
  "yuv_picture p =
     concat (map (\<lambda>row. concat (map (\<lambda>col.
         bgra_pixel (pl_y p ! (row * pl_y_stride p + col))
                    (pl_u p ! (row div 2 * pl_u_stride p + col div 2))
                    (pl_v p ! (row div 2 * pl_v_stride p + col div 2)))
       [0..<pl_width p])) [0..<pl_height p])"

lemma yuv_picture_rows: "is_addressable p \<Longrightarrow> concat (map (picture_row p) [0..<pl_height p]) = yuv_picture p"
  unfolding yuv_picture_def by (intro arg_cong [where f = concat] map_cong refl picture_row_index) auto

lemma length_yuv_picture: "length (yuv_picture p) = 4 * pl_width p * pl_height p"
  unfolding yuv_picture_def
  by (subst length_concat_quads [where k = "4 * pl_width p"]; (subst length_concat_quads [where k = 4])?) simp_all

section \<open>Lengths\<close>

text \<open>Whatever the vector operations do, the conversion never changes the length of its output.\<close>

lemma chunks_of_length: "0 < n \<Longrightarrow> list_all (\<lambda>c. length c = n) (chunks_exact n xs)"
  by (induction n xs rule: chunks_exact.induct) (subst chunks_exact.simps, simp)

lemma chunks_concat: "0 < n \<Longrightarrow> concat (chunks_exact n xs) @ chunk_remainder n xs = xs"
proof (induction n xs rule: chunks_exact.induct)
  case (1 n xs)
  show ?case
  proof (cases "length xs < n")
    case True
    then show ?thesis by (simp add: chunks_exact_short chunk_remainder_short)
  next
    case False
    then have "chunk_remainder n xs = chunk_remainder n (drop n xs)"
      using chunk_remainder_append [of "take n xs" n "drop n xs"] 1(2) by simp
    then show ?thesis using 1 False by (subst chunks_exact.simps) simp
  qed
qed

lemma concat_same_lengths: "list_all2 (\<lambda>a b. length a = length b) xs ys \<Longrightarrow> length (concat xs) = length (concat ys)"
  by (induction rule: list_all2_induct) simp_all

lemma same_lengths_refl: "list_all2 (\<lambda>a b. length a = length b) xs xs"
  by (simp add: list_all2_same)

lemma write_pixel_length: "write_pixel p y b g r = Some p' \<Longrightarrow> length p' = length p"
  by (auto simp: write_pixel_def Let_def split: if_splits)

lemma pixels_loop_lengths: "pixels_loop ps ys off = Some ps' \<Longrightarrow> list_all2 (\<lambda>a b. length a = length b) ps' ps"
  by (induction ps ys off arbitrary: ps' rule: pixels_loop.induct)
     (auto simp: bind_eq_Some_conv same_lengths_refl dest: write_pixel_length)

lemma pairs_loop_lengths:
  "pairs_loop outs ys cbs crs = Some outs' \<Longrightarrow> list_all (\<lambda>c. length c = 8) outs \<Longrightarrow> list_all2 (\<lambda>a b. length a = length b) outs' outs"
proof (induction outs ys cbs crs arbitrary: outs' rule: pairs_loop.induct)
  case (1 out outs luma lumas cb cbs cr crs)
  then obtain ps rest where ps: "pixels_loop (chunks_exact 4 out) luma (chroma_offsets cb cr) = Some ps"
      and rest: "pairs_loop outs lumas cbs crs = Some rest" "outs' = concat ps # rest"
    by (auto simp: bind_eq_Some_conv)
  have "length (concat ps) = length (concat (chunks_exact 4 out))"
    using pixels_loop_lengths [OF ps] by (rule concat_same_lengths)
  also have "\<dots> = length out" using chunks_concat [of 4 out] 1(3) by (simp add: chunk_remainder_def)
  finally show ?case using 1(1) [OF ps rest(1)] 1(3) rest(2) by simp
qed (auto simp: same_lengths_refl)

lemma convert_row_length:
  assumes "convert_row luma cb cr out = Some out'"
  shows "length out' = length out"
proof -
  have row: "convert_row luma cb cr out = scalar_parts luma cb cr out"
    using assms by (intro convert_row_parts) (simp add: convert_row_def split: if_splits)
  obtain pairs written where pairs: "pairs_loop (chunks_exact 8 out) (chunks_exact 2 luma) cb cr = Some pairs"
      and odd: "odd_pixel luma cb cr (chunk_remainder 8 out) = Some written" "out' = concat pairs @ written"
    using assms row by (auto simp: scalar_parts_def bind_eq_Some_conv)
  have "length (concat pairs) = length (concat (chunks_exact 8 out))"
    using pairs_loop_lengths [OF pairs] chunks_of_length [of 8 out] by (intro concat_same_lengths) simp
  moreover have "length written = length (chunk_remainder 8 out)"
    using odd(1) by (auto simp: odd_pixel_def split: if_splits prod.splits dest: write_pixel_length)
  ultimately show ?thesis using odd(2) chunks_concat [of 8 out] by (metis length_append zero_less_numeral)
qed

lemma octet_length:
  assumes "length out = 32"
  shows "length (octet ops out luma cb cr) = 32"
proof -
  have "list_all2 (\<lambda>a b. length a = length b)
      (map (\<lambda>(lane, pixel). pixel[0 := a lane, 1 := b lane, 2 := c lane, 3 := d]) (enumerate 0 (chunks_exact 4 out))) (chunks_exact 4 out)"
    for a b c :: "nat \<Rightarrow> u8" and d
    by (auto simp: list_all2_conv_all_nth nth_enumerate_eq)
  from concat_same_lengths [OF this] show ?thesis
    using chunks_concat [of 4 out] assms by (simp add: octet_def chunk_remainder_def split: prod.split)
qed

lemma octets_loop_lengths:
  "list_all (\<lambda>c. length c = 32) outs \<Longrightarrow> list_all2 (\<lambda>a b. length a = length b) (octets_loop ops outs ls bs rs) outs"
  by (induction ops outs ls bs rs rule: octets_loop.induct) (auto simp: octet_length same_lengths_refl)

lemma convert_row_vector_length:
  assumes "convert_row_vector ops luma cb cr out = Some out'"
  shows "length out' = length out"
proof -
  have "length (concat (octets_loop ops (chunks_exact 32 out) ls bs rs)) = length (concat (chunks_exact 32 out))" for ls bs rs
    by (intro concat_same_lengths octets_loop_lengths chunks_of_length) simp
  then show ?thesis
    using assms arg_cong [OF chunks_concat [of 32 out], of length]
    by (auto simp: convert_row_vector_def Let_def split: if_splits dest: convert_row_length)
qed

lemma convert_rows_length: "convert_rows ops p row out = Some out' \<Longrightarrow> length out' = length out"
proof (induction ops p row out rule: convert_rows.induct)
  case (1 ops p row out)
  show ?case
  proof (cases "row < pl_height p")
    case True
    then obtain luma cb cr old new where
        slices: "slice (pl_y p) (row * pl_y_stride p) (pl_width p) = Some luma"
          "slice (pl_u p) (row div 2 * pl_u_stride p) (div_ceil (pl_width p) 2) = Some cb"
          "slice (pl_v p) (row div 2 * pl_v_stride p) (div_ceil (pl_width p) 2) = Some cr"
          "slice out (row * pl_width p * 4) (pl_width p * 4) = Some old"
        and new: "convert_row_vector ops luma cb cr old = Some new"
        and rest: "convert_rows ops p (row + 1)
          (take (row * pl_width p * 4) out @ new @ drop (row * pl_width p * 4 + pl_width p * 4) out) = Some out'"
      using 1(2) by (subst (asm) convert_rows.simps) (auto simp: bind_eq_Some_conv Let_def)
    show ?thesis
      using 1(1) [OF True refl slices new rest] convert_row_vector_length [OF new] slices(4)
      by (auto simp: slice_def split: if_splits)
  qed (use 1(2) in \<open>simp add: convert_rows.simps\<close>)
qed

lemma i420_to_bgra_length: "i420_to_bgra ops p = Some (Some bgra) \<Longrightarrow> length bgra = pl_width p * pl_height p * 4"
  by (auto simp: i420_to_bgra_def convert_picture_def usize_checked_def bind_eq_Some_conv
      split: if_splits option.splits dest: convert_rows_length)

lemma i420_to_bgra_exact:
  assumes "lanewise ops" "4 * pl_width p * pl_height p < 2 ^ 63"
  shows "i420_to_bgra ops p = Some (if is_addressable p then Some (yuv_picture p) else None)"
proof (cases "is_addressable p")
  case True
  have "convert_picture ops p (replicate (pl_width p * pl_height p * 4) 0) = Some (yuv_picture p)"
    unfolding convert_picture_def
    by (subst convert_rows_exact [OF assms(1) True]) (simp_all add: yuv_picture_rows [OF True])
  then show ?thesis using True assms(2) by (simp add: i420_to_bgra_def usize_checked_def mult.assoc mult.commute)
qed (simp add: i420_to_bgra_def)

section \<open>The theorem\<close>

text \<open>
  C22: The conversion is exact at every pixel: an addressable picture below the allocation limit
  becomes the packed BGRA picture whose pixel (row, column) is the integer BT.601 formula, rounded and clamped, of its luma
  sample and of the chroma sample of its 2 by 2 block, with no overflow or panic, whatever the
  strides and the parity of the size, and the vector and the scalar row routine agree bit for bit;
  planes too short for the geometry are refused.
\<close>

theorem i420_conversion_exact:
  assumes "lanewise ops" "4 * pl_width p * pl_height p < 2 ^ 63"
  shows "i420_to_bgra ops p = Some (if is_addressable p then Some (yuv_picture p) else None)
       \<and> length (yuv_picture p) = 4 * pl_width p * pl_height p
       \<and> (\<forall>luma cb cr out. length out = 4 * length luma \<longrightarrow> length cb = div_ceil (length luma) 2 \<longrightarrow> length cr = div_ceil (length luma) 2
            \<longrightarrow> convert_row_vector ops luma cb cr out = convert_row luma cb cr out \<and> convert_row luma cb cr out \<noteq> None)"
  using assms
  by (intro conjI allI impI)
     (simp_all add: i420_to_bgra_exact length_yuv_picture vector_exact convert_row_exact div_ceil_2)

text \<open>Witness: eight-lane vectors as lists, and a 3 by 1 picture with a padded luma row.\<close>

definition list_lanes :: "i32 list i32x8" where
  "list_lanes = \<lparr>v_from = (\<lambda>xs. xs), v_to_array = (\<lambda>xs. xs), v_mul = map2 (*), v_add = map2 (+),
     v_shr = (\<lambda>xs n. map (signed_drop_bit n) xs), v_max = map2 i32_max, v_min = map2 i32_min\<rparr>"

lemma list_lanes_lanewise: "lanewise list_lanes"
  by (simp add: lanewise_def list_lanes_def)

theorem i420_conversion_exact_witness:
  "i420_to_bgra list_lanes \<lparr>pl_y = [16, 126, 235, 9], pl_u = [128, 90], pl_v = [128, 240], pl_width = 3, pl_height = 1,
     pl_y_stride = 4, pl_u_stride = 2, pl_v_stride = 2\<rparr>
   = Some (Some [0, 0, 0, 255, 128, 128, 128, 255, 178, 179, 255, 255])"
proof -
  define p where "p = \<lparr>pl_y = [16, 126, 235, 9], pl_u = [128, 90], pl_v = [128, 240], pl_width = 3, pl_height = 1,
     pl_y_stride = 4, pl_u_stride = 2, pl_v_stride = 2 :: nat\<rparr>"
  have "is_addressable p" by (simp add: p_def is_addressable_def plane_fits_def usize_checked_def div_ceil_def Let_def)
  moreover have "yuv_picture p = [0, 0, 0, 255, 128, 128, 128, 255, 178, 179, 255, 255]" unfolding p_def by code_simp
  ultimately show ?thesis
    using i420_conversion_exact [OF list_lanes_lanewise, of p] by (simp add: p_def)
qed

end
