(* ===== verification/Agent_Windows.thy ===== *)
theory Agent_Windows
  imports Registry Pacing Session
begin

text \<open>
  How the agent announces windows (\<open>oxagent/src/serve.rs\<close>): the outbound queue between the session
  driver and its writer task, and \<open>sync_windows\<close>, which compares the platform's window list with
  what the client has been told. The property is that a client which applies everything queued
  holds the guest's windows.
\<close>

section \<open>Windows, streams and the outbound queue\<close>

record SourceWindow =
  sw_handle :: handle
  sw_pid :: u32
  sw_app_id :: rust_string
  sw_title :: rust_string
  sw_x :: i32
  sw_y :: i32
  sw_width :: u16
  sw_height :: u16
  sw_dpi :: u16
  sw_minimized :: bool
  sw_maximized :: bool
  sw_resizable :: bool
  sw_has_frame :: bool
  sw_topmost :: bool

record SessionParams =
  target_fps :: u16
  max_frames_in_flight :: u8

record WindowStream =
  st_handle :: handle
  st_video_channel :: u16
  st_budget :: FrameBudget
  st_geometry :: "i32 \<times> i32 \<times> u16 \<times> u16"
  st_title :: rust_string
  st_show_state :: u8
  st_flags :: u32
  st_needs_keyframe :: bool
  st_capture_diag_logged :: u32
  st_transport_diag_logged :: u32

text \<open>A chunk carries the ids of the frame whose way to the socket is timed, for the first frames.\<close>

record OutboundChunk =
  oc_msg_type :: u8
  oc_channel :: u16
  oc_body :: "u8 list"
  oc_diag :: "(u32 \<times> u64) option"

definition OUTBOUND_QUEUE_CAPACITY :: nat where "OUTBOUND_QUEUE_CAPACITY = 64"
definition SHOW_NORMAL :: u8 where "SHOW_NORMAL = 0"

text \<open>
  The bounded channel. Its other end belongs to the writer task, which runs concurrently:
  \<open>ob_script\<close> says what that task does before each access of the driver, how many chunks it takes
  and whether it then stops and drops its receiver. \<open>ob_taken\<close> are the chunks it has received.
\<close>

record outbound =
  ob_queue :: "OutboundChunk list"
  ob_taken :: "OutboundChunk list"
  ob_closed :: bool
  ob_script :: "(nat \<times> bool) list"

definition outbound_new :: "(nat \<times> bool) list \<Rightarrow> outbound" where
  "outbound_new script = \<lparr>ob_queue = [], ob_taken = [], ob_closed = False, ob_script = script\<rparr>"

definition writer_runs :: "outbound \<Rightarrow> outbound" where
  "writer_runs ob =
    (case ob_script ob of
       [] \<Rightarrow> ob
     | (n, stops) # rest \<Rightarrow>
         if ob_closed ob then ob\<lparr>ob_script := rest\<rparr>
         else \<lparr>ob_queue = drop n (ob_queue ob), ob_taken = ob_taken ob @ take n (ob_queue ob),
                ob_closed = stops, ob_script = rest\<rparr>)"

datatype failure = Panic | WouldBlock | BrokenPipe | InvalidBody encode_error

datatype try_send_error = SlotsFull | ReceiverGone

definition try_reserve :: "outbound \<Rightarrow> (try_send_error + unit) \<times> outbound" where
  "try_reserve ob =
    (let ob1 = writer_runs ob in
     if ob_closed ob1 then (Inl ReceiverGone, ob1)
     else if OUTBOUND_QUEUE_CAPACITY \<le> length (ob_queue ob1) then (Inl SlotsFull, ob1)
     else (Inr (), ob1))"

definition permit_send :: "OutboundChunk \<Rightarrow> outbound \<Rightarrow> outbound" where
  "permit_send c ob = ob\<lparr>ob_queue := ob_queue ob @ [c]\<rparr>"

definition try_send_chunk :: "OutboundChunk \<Rightarrow> outbound \<Rightarrow> (try_send_error + unit) \<times> outbound" where
  "try_send_chunk c ob =
    (case try_reserve ob of
       (Inl e, ob1) \<Rightarrow> (Inl e, ob1)
     | (Inr _, ob1) \<Rightarrow> (Inr (), permit_send c ob1))"

definition reserve_frame_slot :: "outbound \<Rightarrow> (failure + bool) \<times> outbound" where
  "reserve_frame_slot ob =
    (case try_reserve ob of
       (Inr _, ob1) \<Rightarrow> (Inr True, ob1)
     | (Inl SlotsFull, ob1) \<Rightarrow> (Inr False, ob1)
     | (Inl ReceiverGone, ob1) \<Rightarrow> (Inl BrokenPipe, ob1))"

definition sv_queue_raw :: "u8 \<Rightarrow> u16 \<Rightarrow> u8 list \<Rightarrow> outbound \<Rightarrow> (failure + unit) \<times> outbound" where
  "sv_queue_raw ty ch body ob =
    (case try_send_chunk \<lparr>oc_msg_type = ty, oc_channel = ch, oc_body = body, oc_diag = None\<rparr> ob of
       (Inr _, ob1) \<Rightarrow> (Inr (), ob1)
     | (Inl SlotsFull, ob1) \<Rightarrow> (Inl WouldBlock, ob1)
     | (Inl ReceiverGone, ob1) \<Rightarrow> (Inl BrokenPipe, ob1))"

definition sv_send :: "Message \<Rightarrow> u16 \<Rightarrow> outbound \<Rightarrow> (failure + unit) \<times> outbound" where
  "sv_send m ch ob =
    (case encode_body m of
       Inl e \<Rightarrow> (Inl (InvalidBody e), ob)
     | Inr body \<Rightarrow> sv_queue_raw (msg_type m) ch body ob)"

section \<open>The window list\<close>

definition window_flags :: "SourceWindow \<Rightarrow> u32" where
  "window_flags w =
    (let flags = 0;
         flags = (if sw_resizable w then flags OR FLAG_RESIZABLE else flags);
         flags = (if sw_has_frame w then flags OR FLAG_HAS_FRAME else flags);
         flags = (if sw_topmost w then flags OR FLAG_TOPMOST else flags);
         flags = (if sw_minimized w then flags OR FLAG_MINIMIZED else flags);
         flags = (if sw_maximized w then flags OR FLAG_MAXIMIZED else flags)
     in flags)"

definition show_state :: "SourceWindow \<Rightarrow> u8" where
  "show_state w = (if sw_minimized w then SHOW_MINIMIZED else if sw_maximized w then SHOW_MAXIMIZED else SHOW_NORMAL)"

definition window_bounds :: "SourceWindow \<Rightarrow> i32 \<times> i32 \<times> u16 \<times> u16" where
  "window_bounds w = (sw_x w, sw_y w, sw_width w, sw_height w)"

definition opened_message :: "TrackedWindow \<Rightarrow> SourceWindow \<Rightarrow> WindowOpened" where
  "opened_message tracked w = \<lparr>wo_window_id = tw_window_id tracked, wo_video_channel = tw_video_channel tracked,
     wo_pid = sw_pid w, wo_app_id = sw_app_id w, wo_title = sw_title w, wo_x = sw_x w, wo_y = sw_y w,
     wo_width = sw_width w, wo_height = sw_height w, wo_dpi = sw_dpi w, wo_flags = window_flags w, wo_owner_id = 0\<rparr>"

definition new_stream :: "SessionParams \<Rightarrow> TrackedWindow \<Rightarrow> SourceWindow \<Rightarrow> WindowStream" where
  "new_stream params tracked w = \<lparr>st_handle = sw_handle w, st_video_channel = tw_video_channel tracked,
     st_budget = FrameBudget_new (max_frames_in_flight params), st_geometry = window_bounds w,
     st_title = sw_title w, st_show_state = show_state w, st_flags = window_flags w, st_needs_keyframe = True,
     st_capture_diag_logged = 0, st_transport_diag_logged = 0\<rparr>"

text \<open>The driver's state: registry, streams by window id, outbound queue and the platform's encoder.\<close>

record 'e agent =
  ag_registry :: WindowRegistry
  ag_streams :: "(u32 \<times> WindowStream) list"
  ag_outbound :: outbound
  ag_encoder :: 'e

definition agent_new :: "(nat \<times> bool) list \<Rightarrow> 'e \<Rightarrow> 'e agent" where
  "agent_new script enc = \<lparr>ag_registry = WindowRegistry_new, ag_streams = [], ag_outbound = outbound_new script, ag_encoder = enc\<rparr>"

text \<open>A stream is changed in place first and the message about it sent afterwards.\<close>

definition announce :: "u32 \<Rightarrow> WindowStream \<Rightarrow> Message \<Rightarrow> 'e agent \<Rightarrow> (failure + WindowStream) \<times> 'e agent" where
  "announce i s m a =
    (case sv_send m CH_WINDOW (ag_outbound a) of
       (res, ob) \<Rightarrow> (map_sum id (\<lambda>_. s) res, a\<lparr>ag_streams := AList.update i s (ag_streams a), ag_outbound := ob\<rparr>))"

definition sync_title :: "u32 \<Rightarrow> SourceWindow \<Rightarrow> WindowStream \<Rightarrow> 'e agent \<Rightarrow> (failure + WindowStream) \<times> 'e agent" where
  "sync_title i w s a =
    (if st_title s \<noteq> sw_title w then
       announce i (s\<lparr>st_title := sw_title w\<rparr>) (WindowTitle \<lparr>wt_window_id = i, wt_title = sw_title w\<rparr>) a
     else (Inr s, a))"

definition sync_state :: "u32 \<Rightarrow> SourceWindow \<Rightarrow> WindowStream \<Rightarrow> 'e agent \<Rightarrow> (failure + WindowStream) \<times> 'e agent" where
  "sync_state i w s a =
    (let new_flags = window_flags w; new_show_state = show_state w in
     if st_show_state s \<noteq> new_show_state \<or> st_flags s \<noteq> new_flags then
       announce i (s\<lparr>st_show_state := new_show_state, st_flags := new_flags\<rparr>)
         (WindowState \<lparr>ws_window_id = i, ws_state = new_show_state, ws_flags = new_flags\<rparr>) a
     else (Inr s, a))"

definition sync_geometry :: "u32 \<Rightarrow> SourceWindow \<Rightarrow> bool \<Rightarrow> WindowStream \<Rightarrow> 'e agent \<Rightarrow> (failure + WindowStream) \<times> 'e agent" where
  "sync_geometry i w has_frame_changed s a =
    (if \<not> sw_minimized w \<and> (st_geometry s \<noteq> window_bounds w \<or> has_frame_changed) then
       let resolution_changed = (snd (snd (st_geometry s)) \<noteq> (sw_width w, sw_height w));
           s1 = s\<lparr>st_budget := restart (st_budget s), st_geometry := window_bounds w\<rparr>;
           s2 = (if resolution_changed then s1\<lparr>st_needs_keyframe := True\<rparr> else s1)
       in announce i s2
            (WindowGeometry \<lparr>wg_window_id = i, wg_x = sw_x w, wg_y = sw_y w, wg_width = sw_width w, wg_height = sw_height w\<rparr>) a
     else (Inr s, a))"

definition next_stage :: "(failure + WindowStream) \<times> 'e agent \<Rightarrow>
    (WindowStream \<Rightarrow> 'e agent \<Rightarrow> (failure + WindowStream) \<times> 'e agent) \<Rightarrow> (failure + WindowStream) \<times> 'e agent" where
  "next_stage r k = (case r of (Inl e, a) \<Rightarrow> (Inl e, a) | (Inr s, a) \<Rightarrow> k s a)"

definition update_window :: "u32 \<Rightarrow> SourceWindow \<Rightarrow> WindowStream \<Rightarrow> 'e agent \<Rightarrow> (failure + WindowStream) \<times> 'e agent" where
  "update_window i w s a =
    next_stage (sync_title i w s a) (\<lambda>s a.
      let has_frame_changed = ((window_flags w XOR st_flags s) AND FLAG_HAS_FRAME \<noteq> 0) in
      next_stage (sync_state i w s a) (sync_geometry i w has_frame_changed))"

definition sync_window :: "SessionParams \<Rightarrow> SourceWindow \<Rightarrow> 'e agent \<Rightarrow> (failure + unit) \<times> 'e agent" where
  "sync_window params w a =
    (case track (sw_handle w) (ag_registry a) of
       None \<Rightarrow> (Inl Panic, a)
     | Some ((tracked, is_new), reg) \<Rightarrow>
         let i = tw_window_id tracked; a1 = a\<lparr>ag_registry := reg\<rparr> in
         if is_new then
           (case sv_send (WindowOpened (opened_message tracked w)) CH_WINDOW (ag_outbound a1) of
              (Inl e, ob) \<Rightarrow> (Inl e, a1\<lparr>ag_outbound := ob\<rparr>)
            | (Inr _, ob) \<Rightarrow>
                (Inr (), a1\<lparr>ag_streams := AList.update i (new_stream params tracked w) (ag_streams a1), ag_outbound := ob\<rparr>))
         else
           (case map_of (ag_streams a1) i of
              None \<Rightarrow> (Inr (), a1)
            | Some s \<Rightarrow> (case update_window i w s a1 of (res, a2) \<Rightarrow> (map_sum id (\<lambda>_. ()) res, a2))))"

fun sync_live :: "SessionParams \<Rightarrow> SourceWindow list \<Rightarrow> 'e agent \<Rightarrow> (failure + unit) \<times> 'e agent" where
  "sync_live params [] a = (Inr (), a)"
| "sync_live params (w # windows) a =
    (case sync_window params w a of
       (Inl e, a1) \<Rightarrow> (Inl e, a1)
     | (Inr _, a1) \<Rightarrow> sync_live params windows a1)"

fun close_gone :: "(handle \<Rightarrow> 'e \<Rightarrow> 'e) \<Rightarrow> TrackedWindow list \<Rightarrow> 'e agent \<Rightarrow> (failure + unit) \<times> 'e agent" where
  "close_gone enc_forget [] a = (Inr (), a)"
| "close_gone enc_forget (gone # removed) a =
    (let i = tw_window_id gone;
         a1 = (case map_of (ag_streams a) i of
                 None \<Rightarrow> a
               | Some s \<Rightarrow> a\<lparr>ag_streams := AList.delete i (ag_streams a), ag_encoder := enc_forget (st_handle s) (ag_encoder a)\<rparr>)
     in case sv_send (WindowClosed \<lparr>wcl_window_id = i\<rparr>) CH_WINDOW (ag_outbound a1) of
          (Inl e, ob) \<Rightarrow> (Inl e, a1\<lparr>ag_outbound := ob\<rparr>)
        | (Inr _, ob) \<Rightarrow> close_gone enc_forget removed (a1\<lparr>ag_outbound := ob\<rparr>))"

definition sync_windows :: "(handle \<Rightarrow> 'e \<Rightarrow> 'e) \<Rightarrow> SessionParams \<Rightarrow> SourceWindow list \<Rightarrow> 'e agent \<Rightarrow> (failure + unit) \<times> 'e agent" where
  "sync_windows enc_forget params windows a =
    (case sync_live params windows a of
       (Inl e, a1) \<Rightarrow> (Inl e, a1)
     | (Inr _, a1) \<Rightarrow>
         (case retain_live (map sw_handle windows) (ag_registry a1) of
            (removed, reg) \<Rightarrow> close_gone enc_forget removed (a1\<lparr>ag_registry := reg\<rparr>)))"

section \<open>What the client makes of the queue\<close>

text \<open>Everything the driver has queued so far, received by the writer task or not.\<close>

definition all_queued :: "outbound \<Rightarrow> OutboundChunk list" where
  "all_queued ob = ob_taken ob @ ob_queue ob"

definition chunk_of :: "Message \<Rightarrow> u16 \<Rightarrow> OutboundChunk" where
  "chunk_of m ch = \<lparr>oc_msg_type = msg_type m, oc_channel = ch, oc_body = img_msg m, oc_diag = None\<rparr>"

definition chunk_message :: "OutboundChunk \<Rightarrow> Message option" where
  "chunk_message c = (case decode_known (oc_msg_type c) (oc_body c) of Inl _ \<Rightarrow> None | Inr m \<Rightarrow> m)"

definition client_step :: "Message option \<Rightarrow> WindowModel \<Rightarrow> WindowModel" where
  "client_step m d = (case event_of m of None \<Rightarrow> d | Some ev \<Rightarrow> snd (apply_event ev d))"

definition client_after :: "OutboundChunk list \<Rightarrow> WindowModel" where
  "client_after chunks = fold (client_step \<circ> chunk_message) chunks WindowModel_new"

lemma client_after_snoc: "client_after (cs @ [c]) = client_step (chunk_message c) (client_after cs)"
  by (simp add: client_after_def)

lemma client_after_Nil [simp]: "client_after [] = WindowModel_new"
  by (simp add: client_after_def)

lemma chunk_message_of: "valid_msg m \<Longrightarrow> oc_msg_type c = msg_type m \<Longrightarrow> oc_body c = img_msg m \<Longrightarrow> chunk_message c = Some m"
  using decode_known_img [of m "[]"] by (simp add: chunk_message_def)

lemma md_inv_client_step: "md_inv d \<Longrightarrow> md_inv (client_step m d)"
  by (simp add: client_step_def md_inv_apply split: option.splits)

text \<open>
  The contract of a message queue: a message that is accepted is appended, encoded, and one that is
  refused leaves the queue's content as it was. Its clients reason about what the peer will hold.
\<close>

locale message_queue =
  fixes send :: "Message \<Rightarrow> u16 \<Rightarrow> 'q \<Rightarrow> (failure + unit) \<times> 'q"
    and held :: "'q \<Rightarrow> OutboundChunk list"
  assumes accepted: "valid_msg m \<Longrightarrow> send m ch q = (Inr u, q') \<Longrightarrow> held q' = held q @ [chunk_of m ch]"
    and refused: "send m ch q = (Inl e, q') \<Longrightarrow> held q' = held q"
begin

lemma accepted_client:
  "valid_msg m \<Longrightarrow> send m ch q = (Inr u, q') \<Longrightarrow> client_after (held q') = client_step (Some m) (client_after (held q))"
  by (simp add: accepted client_after_snoc chunk_message_of chunk_of_def)

end

lemma queued_writer_runs [simp]: "all_queued (writer_runs ob) = all_queued ob"
  by (auto simp: all_queued_def writer_runs_def split: list.split)

lemma queued_reserve: "try_reserve ob = (res, ob') \<Longrightarrow> all_queued ob' = all_queued ob"
  using queued_writer_runs [of ob] by (auto simp: try_reserve_def Let_def split: if_splits)

lemma queued_permit [simp]: "all_queued (permit_send c ob) = all_queued ob @ [c]"
  by (simp add: all_queued_def permit_send_def)

lemma queued_try_send:
  "try_send_chunk c ob = (res, ob') \<Longrightarrow> all_queued ob' = all_queued ob @ (case res of Inl _ \<Rightarrow> [] | Inr _ \<Rightarrow> [c])"
  by (auto simp: try_send_chunk_def queued_reserve split: prod.splits sum.splits)

interpretation ob: message_queue sv_send all_queued
proof
  fix m ch q u q'
  assume "valid_msg m" and send: "sv_send m ch q = (Inr u, q')"
  then have "sv_queue_raw (msg_type m) ch (img_msg m) q = (Inr u, q')" by (simp add: sv_send_def encode_body_img)
  then show "all_queued q' = all_queued q @ [chunk_of m ch]"
    by (auto simp: sv_queue_raw_def chunk_of_def dest!: queued_try_send split: prod.splits sum.splits try_send_error.splits)
next
  fix m ch q e q'
  assume "sv_send m ch q = (Inl e, q')"
  then show "all_queued q' = all_queued q"
    by (auto simp: sv_send_def sv_queue_raw_def dest!: queued_try_send
        split: prod.splits sum.splits try_send_error.splits)
qed

text \<open>Text longer than a length field can say is refused by the encoder, so what is sent is valid.\<close>

lemma string_written_self: "write_string s ctx c = Inr c' \<Longrightarrow> length s < 2 ^ 16"
  by (auto simp: write_string_def efail_def not_le split: if_splits)

lemma string_written: "eseq es c = Inr c' \<Longrightarrow> write_string s ctx \<in> set es \<Longrightarrow> length s < 2 ^ 16"
  by (induction es arbitrary: c) (auto simp: eseq.simps split: sum.splits dest: string_written_self)

lemma title_written: "encode_body (WindowTitle m) = Inr b \<Longrightarrow> utf8_valid (wt_title m) \<Longrightarrow> valid_msg (WindowTitle m)"
  by (auto simp: encode_vec_def encode_WindowTitle_def valid_WindowTitle_def string_ok_def split: sum.splits
      dest!: string_written [where ctx = "''WindowTitle.title''" and s = "wt_title m"])

lemma opened_written:
  assumes "encode_body (WindowOpened m) = Inr b" and "utf8_valid (wo_title m)" and "utf8_valid (wo_app_id m)"
  shows "valid_msg (WindowOpened m)"
proof -
  obtain es c c' where "eseq es c = Inr c'" and in_es: "write_string (wo_title m) ''WindowOpened.title'' \<in> set es"
    "write_string (wo_app_id m) ''WindowOpened.app_id'' \<in> set es"
    using assms(1) by (auto simp: encode_vec_def encode_WindowOpened_def split: sum.splits)
  with string_written in_es assms(2,3) show ?thesis by (simp add: valid_WindowOpened_def string_ok_def)
qed

lemma sent_encoded: "sv_send m ch ob = (Inr u, ob') \<Longrightarrow> \<exists>b. encode_body m = Inr b"
  by (auto simp: sv_send_def split: sum.splits)

section \<open>Agent and client in step\<close>

text \<open>What a stream and the client's window say of each other.\<close>

definition shown_as :: "WindowStream \<Rightarrow> RemoteWindow \<Rightarrow> bool" where
  "shown_as s v \<longleftrightarrow> rw_video_channel v = st_video_channel s \<and> rw_title v = st_title s \<and>
     (rw_x v, rw_y v, rw_width v, rw_height v) = st_geometry s \<and>
     (rw_minimized v \<longleftrightarrow> st_show_state s = SHOW_MINIMIZED) \<and>
     (st_show_state s \<noteq> SHOW_MINIMIZED \<longrightarrow> (rw_maximized v \<longleftrightarrow> st_show_state s = SHOW_MAXIMIZED))"

definition mirrored :: "(u32 \<times> WindowStream) list \<Rightarrow> WindowModel \<Rightarrow> bool" where
  "mirrored streams d \<longleftrightarrow> md_inv d \<and> (\<forall>i. rel_option shown_as (map_of streams i) (map_of (md_windows d) i))"

definition tracked_streams :: "WindowRegistry \<Rightarrow> (u32 \<times> WindowStream) list \<Rightarrow> bool" where
  "tracked_streams reg streams \<longleftrightarrow> reg_inv reg \<and>
     (\<forall>h tw. tracked_by reg h = Some tw \<longrightarrow> (\<exists>s. map_of streams (tw_window_id tw) = Some s \<and> st_handle s = h \<and> st_video_channel s = tw_video_channel tw)) \<and>
     (\<forall>i s. map_of streams i = Some s \<longrightarrow> (\<exists>tw. tracked_by reg (st_handle s) = Some tw \<and> tw_window_id tw = i))"

definition in_sync :: "'e agent \<Rightarrow> bool" where
  "in_sync a \<longleftrightarrow> tracked_streams (ag_registry a) (ag_streams a) \<and>
     mirrored (ag_streams a) (client_after (all_queued (ag_outbound a)))"

definition describes :: "SourceWindow \<Rightarrow> WindowStream \<Rightarrow> bool" where
  "describes w s \<longleftrightarrow> st_title s = sw_title w \<and> st_show_state s = show_state w \<and> st_flags s = window_flags w \<and>
     (\<not> sw_minimized w \<longrightarrow> st_geometry s = window_bounds w)"

definition announced :: "'e agent \<Rightarrow> SourceWindow \<Rightarrow> bool" where
  "announced a w \<longleftrightarrow> (\<exists>tw s. tracked_by (ag_registry a) (sw_handle w) = Some tw \<and>
     map_of (ag_streams a) (tw_window_id tw) = Some s \<and> describes w s)"

lemma in_sync_new: "in_sync (agent_new script enc)"
  using md_inv_new
  by (simp add: in_sync_def agent_new_def tracked_streams_def reg_inv_new mirrored_def outbound_new_def all_queued_def)
    (simp add: WindowModel_new_def WindowRegistry_new_def)

text \<open>The effect of each window message on the client, seen as an update of its window map.\<close>

lemma client_windows:
  "map_of (md_windows (client_step (Some (WindowTitle mt)) d)) =
     (map_of (md_windows d))(wt_window_id mt := map_option (\<lambda>v. v\<lparr>rw_title := wt_title mt\<rparr>) (map_of (md_windows d) (wt_window_id mt)))"
  "map_of (md_windows (client_step (Some (WindowState ms)) d)) =
     (map_of (md_windows d))(ws_window_id ms := map_option
       (\<lambda>v. v\<lparr>rw_minimized := ws_state ms = SHOW_MINIMIZED, rw_maximized := ws_state ms = SHOW_MAXIMIZED\<rparr>)
       (map_of (md_windows d) (ws_window_id ms)))"
  "map_of (md_windows (client_step (Some (WindowGeometry mg)) d)) =
     (map_of (md_windows d))(wg_window_id mg := map_option
       (\<lambda>v. v\<lparr>rw_x := wg_x mg, rw_y := wg_y mg, rw_width := wg_width mg, rw_height := wg_height mg\<rparr>)
       (map_of (md_windows d) (wg_window_id mg)))"
  "map_of (md_windows (client_step (Some (WindowClosed mc)) d)) = (map_of (md_windows d))(wcl_window_id mc := None)"
  "map_of (md_windows d) (wo_window_id mo) = None \<Longrightarrow>
   map_of (md_windows (client_step (Some (WindowOpened mo)) d)) = (map_of (md_windows d))(wo_window_id mo \<mapsto> from_opened mo)"
  by (auto simp: client_step_def on_title_def on_state_def on_geometry_def on_closed_def on_opened_def Let_def
      fun_eq_iff map_of_update map_of_delete split: option.splits)

lemma mirrored_update:
  assumes "mirrored streams d" and "map_of streams i = Some s" and "md_inv d'"
    and "map_of (md_windows d') = (map_of (md_windows d))(i := map_option g (map_of (md_windows d) i))"
    and "\<And>v. shown_as s v \<Longrightarrow> shown_as s' (g v)"
  shows "mirrored (AList.update i s' streams) d'"
proof -
  have "rel_option shown_as (map_of streams i) (map_of (md_windows d) i)" using assms(1) by (simp add: mirrored_def)
  then obtain v where "map_of (md_windows d) i = Some v" "shown_as s v"
    using assms(2) by (auto simp: option_rel_Some1)
  with assms show ?thesis by (auto simp: mirrored_def map_of_update)
qed

lemma tracked_streams_update:
  assumes "tracked_streams reg streams" and "map_of streams i = Some s"
    and "st_handle s' = st_handle s" and "st_video_channel s' = st_video_channel s"
  shows "tracked_streams reg (AList.update i s' streams)"
proof -
  have "st_handle s' = h \<and> st_video_channel s' = tw_video_channel tw" if "tracked_by reg h = Some tw" "tw_window_id tw = i" for h tw
    using assms that unfolding tracked_streams_def by force
  moreover have "\<exists>tw. tracked_by reg (st_handle s') = Some tw \<and> tw_window_id tw = i"
    using assms unfolding tracked_streams_def by force
  ultimately show ?thesis using assms(1) unfolding tracked_streams_def map_of_update by auto
qed

text \<open>
  One stage: the stream is replaced and the client changes its window accordingly. Nothing else is
  touched.
\<close>

definition stage_ok :: "u32 \<Rightarrow> WindowStream \<Rightarrow> 'e agent \<Rightarrow> WindowStream \<Rightarrow> 'e agent \<Rightarrow> bool" where
  "stage_ok i s a s' a' \<longleftrightarrow> in_sync a' \<and> map_of (ag_streams a') i = Some s' \<and>
     st_handle s' = st_handle s \<and> st_video_channel s' = st_video_channel s \<and>
     ag_registry a' = ag_registry a \<and> ag_encoder a' = ag_encoder a \<and>
     (\<forall>k. k \<noteq> i \<longrightarrow> map_of (ag_streams a') k = map_of (ag_streams a) k)"

lemma announce_ok:
  assumes sync: "in_sync a" and s: "map_of (ag_streams a) i = Some s"
    and an: "announce i s' m a = (Inr s1, a')" and valid: "valid_msg m"
    and same: "st_handle s' = st_handle s" "st_video_channel s' = st_video_channel s"
    and client: "\<And>d. map_of (md_windows (client_step (Some m) d)) =
      (map_of (md_windows d))(i := map_option g (map_of (md_windows d) i))"
    and g: "\<And>v. shown_as s v \<Longrightarrow> shown_as s' (g v)"
  shows "s1 = s'" and "stage_ok i s a s' a'"
proof -
  obtain u ob where send: "sv_send m CH_WINDOW (ag_outbound a) = (Inr u, ob)" and "s1 = s'"
    and a': "a' = a\<lparr>ag_streams := AList.update i s' (ag_streams a), ag_outbound := ob\<rparr>"
    using an by (cases "sv_send m CH_WINDOW (ag_outbound a)"; cases "fst (sv_send m CH_WINDOW (ag_outbound a))")
      (auto simp: announce_def)
  show "s1 = s'" by fact
  let ?d = "client_after (all_queued (ag_outbound a))"
  have "md_inv ?d" and mir: "mirrored (ag_streams a) ?d" and "tracked_streams (ag_registry a) (ag_streams a)"
    using sync by (simp_all add: in_sync_def mirrored_def)
  then have "mirrored (AList.update i s' (ag_streams a)) (client_step (Some m) ?d)"
    by (intro mirrored_update [OF mir s _ client g] md_inv_client_step)
  moreover have "tracked_streams (ag_registry a) (AList.update i s' (ag_streams a))"
    by (rule tracked_streams_update [OF _ s same]) fact
  ultimately show "stage_ok i s a s' a'"
    using same by (simp add: stage_ok_def in_sync_def a' ob.accepted_client [OF valid send] map_of_update)
qed

lemma stage_refl: "in_sync a \<Longrightarrow> map_of (ag_streams a) i = Some s \<Longrightarrow> stage_ok i s a s a"
  by (simp add: stage_ok_def)

lemma stage_trans: "stage_ok i s a s' a' \<Longrightarrow> stage_ok i s' a' s'' a'' \<Longrightarrow> stage_ok i s a s'' a''"
  by (simp add: stage_ok_def)

lemma stage_sync: "stage_ok i s a s' a' \<Longrightarrow> in_sync a'" "stage_ok i s a s' a' \<Longrightarrow> map_of (ag_streams a') i = Some s'"
  by (simp_all add: stage_ok_def)

lemma announce_sent: "announce i s m a = (Inr s1, a') \<Longrightarrow> \<exists>b. encode_body m = Inr b"
  by (cases "sv_send m CH_WINDOW (ag_outbound a)"; cases "fst (sv_send m CH_WINDOW (ag_outbound a))")
    (auto simp: announce_def dest!: sent_encoded)

lemma sync_title_ok:
  assumes "in_sync a" and "map_of (ag_streams a) i = Some s" and "utf8_valid (sw_title w)"
    and step: "sync_title i w s a = (Inr s', a')"
  shows "stage_ok i s a s' a' \<and> s' = s\<lparr>st_title := sw_title w\<rparr>"
proof (cases "st_title s = sw_title w")
  case True
  then have "s\<lparr>st_title := sw_title w\<rparr> = s" by (cases s) simp
  with True step assms(1,2) show ?thesis by (simp add: sync_title_def stage_refl)
next
  case False
  let ?m = "\<lparr>wt_window_id = i, wt_title = sw_title w\<rparr>"
  from False step have an: "announce i (s\<lparr>st_title := sw_title w\<rparr>) (WindowTitle ?m) a = (Inr s', a')"
    by (simp add: sync_title_def)
  have valid: "valid_msg (WindowTitle ?m)"
    using announce_sent [OF an] assms(3) title_written [of ?m] by auto
  from announce_ok [OF assms(1,2) an valid, of "\<lambda>v. v\<lparr>rw_title := sw_title w\<rparr>"]
  show ?thesis by (auto simp: client_windows shown_as_def)
qed

lemma sync_state_ok:
  assumes "in_sync a" and "map_of (ag_streams a) i = Some s" and step: "sync_state i w s a = (Inr s', a')"
  shows "stage_ok i s a s' a' \<and> s' = s\<lparr>st_show_state := show_state w, st_flags := window_flags w\<rparr>"
proof (cases "st_show_state s = show_state w \<and> st_flags s = window_flags w")
  case True
  then have "s\<lparr>st_show_state := show_state w, st_flags := window_flags w\<rparr> = s" by (cases s) simp
  with True step assms(1,2) show ?thesis by (simp add: sync_state_def stage_refl)
next
  case False
  let ?m = "\<lparr>ws_window_id = i, ws_state = show_state w, ws_flags = window_flags w\<rparr>"
  from False step have an: "announce i (s\<lparr>st_show_state := show_state w, st_flags := window_flags w\<rparr>) (WindowState ?m) a = (Inr s', a')"
    by (auto simp: sync_state_def Let_def)
  have valid: "valid_msg (WindowState ?m)" by (simp add: valid_WindowState_def)
  from announce_ok [OF assms(1,2) an valid, of
      "\<lambda>v. v\<lparr>rw_minimized := show_state w = SHOW_MINIMIZED, rw_maximized := show_state w = SHOW_MAXIMIZED\<rparr>"]
  show ?thesis by (auto simp: client_windows shown_as_def)
qed

lemma sync_geometry_ok:
  assumes "in_sync a" and "map_of (ag_streams a) i = Some s" and step: "sync_geometry i w changed s a = (Inr s', a')"
  shows "stage_ok i s a s' a' \<and> st_title s' = st_title s \<and> st_show_state s' = st_show_state s \<and> st_flags s' = st_flags s \<and>
    (\<not> sw_minimized w \<longrightarrow> st_geometry s' = window_bounds w)"
proof (cases "\<not> sw_minimized w \<and> (st_geometry s \<noteq> window_bounds w \<or> changed)")
  case False
  with step assms(1,2) show ?thesis by (auto simp: sync_geometry_def stage_refl)
next
  case True
  let ?m = "\<lparr>wg_window_id = i, wg_x = sw_x w, wg_y = sw_y w, wg_width = sw_width w, wg_height = sw_height w\<rparr>"
  define s1 where "s1 = s\<lparr>st_budget := restart (st_budget s), st_geometry := window_bounds w\<rparr>"
  define s2 where "s2 = (if snd (snd (st_geometry s)) \<noteq> (sw_width w, sw_height w) then s1\<lparr>st_needs_keyframe := True\<rparr> else s1)"
  have an: "announce i s2 (WindowGeometry ?m) a = (Inr s', a')"
    using True step unfolding sync_geometry_def Let_def s1_def [symmetric] s2_def [symmetric] by simp
  have valid: "valid_msg (WindowGeometry ?m)" by (simp add: valid_WindowGeometry_def)
  have s2: "st_handle s2 = st_handle s" "st_video_channel s2 = st_video_channel s" "st_title s2 = st_title s"
    "st_show_state s2 = st_show_state s" "st_flags s2 = st_flags s" "st_geometry s2 = window_bounds w"
    by (simp_all add: s1_def s2_def)
  have "shown_as s2 (v\<lparr>rw_x := sw_x w, rw_y := sw_y w, rw_width := sw_width w, rw_height := sw_height w\<rparr>)" if "shown_as s v" for v
    using that s2 by (simp add: shown_as_def window_bounds_def)
  with announce_ok [OF assms(1,2) an valid s2(1,2), of
      "\<lambda>v. v\<lparr>rw_x := sw_x w, rw_y := sw_y w, rw_width := sw_width w, rw_height := sw_height w\<rparr>"] s2
  show ?thesis by (auto simp: client_windows)
qed

lemma update_window_ok:
  assumes sync: "in_sync a" and s: "map_of (ag_streams a) i = Some s" and utf8: "utf8_valid (sw_title w)"
    and step: "update_window i w s a = (Inr s', a')"
  shows "stage_ok i s a s' a' \<and> describes w s'"
proof -
  from step obtain s1 a1 s2 a2 changed where t: "sync_title i w s a = (Inr s1, a1)" "sync_state i w s1 a1 = (Inr s2, a2)"
    "sync_geometry i w changed s2 a2 = (Inr s', a')"
    by (auto simp: update_window_def next_stage_def Let_def split: prod.splits sum.splits)
  from sync_title_ok [OF sync s utf8 t(1)] have 1: "stage_ok i s a s1 a1" "st_title s1 = sw_title w" by auto
  from sync_state_ok [OF stage_sync [OF 1(1)] t(2)] 1
  have 2: "stage_ok i s a s2 a2" "st_title s2 = sw_title w" "st_show_state s2 = show_state w" "st_flags s2 = window_flags w"
    by (auto intro: stage_trans)
  from sync_geometry_ok [OF stage_sync [OF 2(1)] t(3)] 2 show ?thesis
    by (auto simp: describes_def intro: stage_trans)
qed

text \<open>A window of the list is announced, and no window with another handle is touched.\<close>

definition only_handle :: "handle \<Rightarrow> 'e agent \<Rightarrow> 'e agent \<Rightarrow> bool" where
  "only_handle h a a' \<longleftrightarrow>
     (\<forall>k. k \<noteq> h \<longrightarrow> tracked_by (ag_registry a') k = tracked_by (ag_registry a) k) \<and>
     (\<forall>i s. map_of (ag_streams a) i = Some s \<longrightarrow> st_handle s \<noteq> h \<longrightarrow> map_of (ag_streams a') i = Some s)"

lemma stage_only_handle:
  assumes "stage_ok i s a s' a'" and "map_of (ag_streams a) i = Some s"
  shows "only_handle (st_handle s) a a'"
  using assms unfolding stage_ok_def only_handle_def by (metis option.inject)

lemma announced_other:
  assumes "announced a w" and "only_handle h a a'" and "sw_handle w \<noteq> h" and "tracked_streams (ag_registry a) (ag_streams a)"
  shows "announced a' w"
proof -
  from assms(1) obtain tw s where tw: "tracked_by (ag_registry a) (sw_handle w) = Some tw"
    "map_of (ag_streams a) (tw_window_id tw) = Some s" "describes w s" by (auto simp: announced_def)
  from assms(4) tw(1,2) have "st_handle s = sw_handle w" unfolding tracked_streams_def by (metis option.inject)
  with assms(2,3) tw show ?thesis unfolding announced_def only_handle_def by metis
qed

lemma flag_bits:
  "window_flags w AND FLAG_MINIMIZED \<noteq> 0 \<longleftrightarrow> sw_minimized w" "window_flags w AND FLAG_MAXIMIZED \<noteq> 0 \<longleftrightarrow> sw_maximized w"
  "window_flags w AND FLAG_RESIZABLE \<noteq> 0 \<longleftrightarrow> sw_resizable w" "window_flags w AND FLAG_HAS_FRAME \<noteq> 0 \<longleftrightarrow> sw_has_frame w"
  "window_flags w AND FLAG_TOPMOST \<noteq> 0 \<longleftrightarrow> sw_topmost w"
  by (cases "sw_minimized w"; cases "sw_maximized w"; cases "sw_resizable w"; cases "sw_has_frame w"; cases "sw_topmost w";
      simp add: window_flags_def FLAG_MINIMIZED_def FLAG_MAXIMIZED_def FLAG_RESIZABLE_def FLAG_HAS_FRAME_def FLAG_TOPMOST_def)+

lemma show_states: "show_state w = SHOW_MINIMIZED \<longleftrightarrow> sw_minimized w"
  "\<not> sw_minimized w \<Longrightarrow> show_state w = SHOW_MAXIMIZED \<longleftrightarrow> sw_maximized w"
  by (auto simp: show_state_def SHOW_MINIMIZED_def SHOW_MAXIMIZED_def SHOW_NORMAL_def)

lemma opened_id [simp]: "wo_window_id (opened_message tracked w) = tw_window_id tracked"
  by (simp add: opened_message_def)

lemma opened_shown: "shown_as (new_stream params tracked w) (from_opened (opened_message tracked w))"
  by (simp add: shown_as_def new_stream_def from_opened_def opened_message_def window_bounds_def flag_bits show_states)

lemma open_window_ok:
  assumes sync: "in_sync a" and new: "tracked_by (ag_registry a) (sw_handle w) = None"
    and utf8: "utf8_valid (sw_title w)" "utf8_valid (sw_app_id w)" and step: "sync_window params w a = (Inr u, a')"
  shows "in_sync a' \<and> announced a' w \<and> only_handle (sw_handle w) a a'"
proof -
  let ?h = "sw_handle w"
  from sync have inv: "reg_inv (ag_registry a)" and tr: "tracked_streams (ag_registry a) (ag_streams a)"
    and mir: "mirrored (ag_streams a) (client_after (all_queued (ag_outbound a)))"
    by (simp_all add: in_sync_def tracked_streams_def)
  from step obtain tracked is_new reg where tk: "track ?h (ag_registry a) = Some ((tracked, is_new), reg)"
    by (auto simp: sync_window_def split: option.splits prod.splits)
  from track_new [OF inv new tk] obtain c where tracked: "tracked = \<lparr>tw_window_id = next_window_id (ag_registry a), tw_video_channel = c\<rparr>"
    and is_new and h2w: "handle_to_window reg = AList.update ?h tracked (handle_to_window (ag_registry a))" by (metis prod.inject)
  let ?i = "tw_window_id tracked" and ?m = "opened_message tracked w" and ?s = "new_stream params tracked w"
  from step tk \<open>is_new\<close> obtain ob where send: "sv_send (WindowOpened ?m) CH_WINDOW (ag_outbound a) = (Inr (), ob)"
    and a': "a' = a\<lparr>ag_registry := reg, ag_streams := AList.update ?i ?s (ag_streams a), ag_outbound := ob\<rparr>"
    by (auto simp: sync_window_def Let_def split: prod.splits sum.splits)
  have by_h: "tracked_by reg k = (if k = ?h then Some tracked else tracked_by (ag_registry a) k)" for k
    by (simp add: h2w map_of_update)
  have fresh_id: "tw_window_id v \<noteq> ?i" if "tracked_by (ag_registry a) k = Some v" for k v
    using reg_id_range [OF inv that] tracked by auto
  have fresh: "map_of (ag_streams a) ?i = None"
    using tr fresh_id unfolding tracked_streams_def by (metis not_Some_eq)
  have other: "st_handle s \<noteq> ?h" if "map_of (ag_streams a) i = Some s" for i s
    using tr new that unfolding tracked_streams_def by force
  have "tracked_streams reg (AList.update ?i ?s (ag_streams a))"
    using tr new fresh fresh_id other track_inv [OF inv tk] unfolding tracked_streams_def by_h map_of_update
    by (auto simp: new_stream_def split: if_splits)
  moreover have valid: "valid_msg (WindowOpened ?m)"
    using sent_encoded [OF send] opened_written [of ?m] utf8 by (auto simp: opened_message_def)
  have "mirrored (AList.update ?i ?s (ag_streams a)) (client_step (Some (WindowOpened ?m)) (client_after (all_queued (ag_outbound a))))"
  proof -
    let ?d = "client_after (all_queued (ag_outbound a))"
    have "map_of (md_windows ?d) (wo_window_id ?m) = None"
      using mir fresh by (simp add: mirrored_def) (metis option.rel_sel)
    from client_windows(5) [OF this] mir show ?thesis
      by (simp add: mirrored_def md_inv_client_step map_of_update opened_shown)
  qed
  ultimately have "in_sync a'" by (simp add: in_sync_def a' ob.accepted_client [OF valid send])
  moreover have "announced a' w"
    by (simp add: announced_def a' by_h map_of_update describes_def new_stream_def)
  moreover have "only_handle ?h a a'"
    using fresh by (auto simp: only_handle_def a' by_h map_of_update)
  ultimately show ?thesis by blast
qed

lemma sync_window_ok:
  assumes sync: "in_sync a" and utf8: "utf8_valid (sw_title w)" "utf8_valid (sw_app_id w)"
    and step: "sync_window params w a = (Inr u, a')"
  shows "in_sync a' \<and> announced a' w \<and> only_handle (sw_handle w) a a'"
proof (cases "tracked_by (ag_registry a) (sw_handle w)")
  case None
  from open_window_ok [OF sync None utf8 step] show ?thesis .
next
  case (Some tw)
  then obtain s where s: "map_of (ag_streams a) (tw_window_id tw) = Some s" and h: "st_handle s = sw_handle w"
    using sync unfolding in_sync_def tracked_streams_def by blast
  have "track (sw_handle w) (ag_registry a) = Some ((tw, False), ag_registry a)" using Some by (simp add: track_def)
  with step s obtain s' where up: "update_window (tw_window_id tw) w s a = (Inr s', a')"
    by (cases "fst (update_window (tw_window_id tw) w s a)") (auto simp: sync_window_def split: prod.splits)
  from update_window_ok [OF sync s utf8(1) this] have ok: "stage_ok (tw_window_id tw) s a s' a'" "describes w s'" by simp_all
  from stage_only_handle [OF ok(1) s] ok Some h show ?thesis by (auto simp: stage_ok_def announced_def)
qed

lemma sync_live_ok:
  assumes "in_sync a" and "\<forall>w \<in> set ws. utf8_valid (sw_title w) \<and> utf8_valid (sw_app_id w)"
    and "distinct (map sw_handle ws)" and "sync_live params ws a = (Inr u, a')"
  shows "in_sync a' \<and> (\<forall>w \<in> set ws. announced a' w) \<and>
    (\<forall>w. announced a w \<longrightarrow> sw_handle w \<notin> sw_handle ` set ws \<longrightarrow> announced a' w)"
  using assms
proof (induction ws arbitrary: a)
  case (Cons w ws)
  then obtain v a1 where 1: "sync_window params w a = (Inr v, a1)" and 2: "sync_live params ws a1 = (Inr u, a')"
    by (auto split: prod.splits sum.splits)
  from sync_window_ok [OF Cons.prems(1) _ _ 1] Cons.prems(2)
  have step: "in_sync a1" "announced a1 w" "only_handle (sw_handle w) a a1" by auto
  have keep: "announced a1 v" if "announced a v" "sw_handle v \<noteq> sw_handle w" for v
    using announced_other [OF that(1) step(3) that(2)] Cons.prems(1) by (simp add: in_sync_def)
  from Cons.IH [OF step(1) _ _ 2] Cons.prems(2,3) step(2) keep show ?case by (auto simp del: sync_live.simps)
qed simp

text \<open>Closing: the streams of the removed windows go, on both sides, and no others.\<close>

lemma mirrored_delete:
  assumes "mirrored streams d"
  shows "mirrored (AList.delete (wcl_window_id m) streams) (client_step (Some (WindowClosed m)) d)"
  using assms by (simp add: mirrored_def md_inv_client_step client_windows map_of_delete)

lemma close_gone_ok:
  assumes "mirrored (ag_streams a) (client_after (all_queued (ag_outbound a)))"
    and "close_gone enc_forget removed a = (Inr u, a')"
  shows "mirrored (ag_streams a') (client_after (all_queued (ag_outbound a'))) \<and> ag_registry a' = ag_registry a \<and>
    map_of (ag_streams a') = (\<lambda>i. if i \<in> tw_window_id ` set removed then None else map_of (ag_streams a) i)"
  using assms
proof (induction removed arbitrary: a)
  case (Cons gone removed)
  let ?i = "tw_window_id gone" and ?m = "\<lparr>wcl_window_id = tw_window_id gone\<rparr>"
  define a1 where "a1 = (case map_of (ag_streams a) ?i of None \<Rightarrow> a
    | Some s \<Rightarrow> a\<lparr>ag_streams := AList.delete ?i (ag_streams a), ag_encoder := enc_forget (st_handle s) (ag_encoder a)\<rparr>)"
  have a1: "ag_registry a1 = ag_registry a" "ag_outbound a1 = ag_outbound a" "ag_streams a1 = AList.delete ?i (ag_streams a)"
    by (auto simp: a1_def AList.delete_id map_of_eq_None_iff split: option.split)
  from Cons.prems(2) obtain ob v where send: "sv_send (WindowClosed ?m) CH_WINDOW (ag_outbound a) = (Inr v, ob)"
    and rest: "close_gone enc_forget removed (a1\<lparr>ag_outbound := ob\<rparr>) = (Inr u, a')"
    unfolding close_gone.simps Let_def a1_def [symmetric] by (auto simp: a1 split: prod.splits sum.splits)
  have "valid_msg (WindowClosed ?m)" by (simp add: valid_WindowClosed_def)
  from ob.accepted_client [OF this send] mirrored_delete [OF Cons.prems(1), of ?m]
  have "mirrored (ag_streams (a1\<lparr>ag_outbound := ob\<rparr>)) (client_after (all_queued (ag_outbound (a1\<lparr>ag_outbound := ob\<rparr>))))"
    by (simp add: a1)
  from Cons.IH [OF this rest] show ?case by (auto simp: a1 map_of_delete fun_eq_iff)
qed simp

lemma retain_live_tracked:
  assumes inv: "reg_inv r" and "retain_live handles r = (removed, r')"
  shows "reg_inv r'" and "tracked_by r' h = (if h \<in> set handles then tracked_by r h else None)"
    and "set removed = {tw. \<exists>h. h \<notin> set handles \<and> tracked_by r h = Some tw}"
proof -
  note dead = to_remove_dead [OF inv, of handles]
  have "set (to_remove handles r) \<subseteq> dom (tracked_by r)" using dead(1) by blast
  from forget_all_tracked [OF dead(2) this] assms(2)
  have removed: "removed = map (\<lambda>h. the (tracked_by r h)) (to_remove handles r)"
    and r': "tracked_by r' = (\<lambda>h. if h \<in> set (to_remove handles r) then None else tracked_by r h)"
    by (simp_all add: retain_live_def)
  show "reg_inv r'" using forget_all_inv [OF inv, of "to_remove handles r"] assms(2) by (simp add: retain_live_def)
  show "tracked_by r' h = (if h \<in> set handles then tracked_by r h else None)"
    by (simp add: r' dead(1)) (auto simp: domIff)
  show "set removed = {tw. \<exists>h. h \<notin> set handles \<and> tracked_by r h = Some tw}"
    unfolding removed set_map dead(1) by force
qed

lemma sync_windows_ok:
  assumes "in_sync a" and "\<forall>w \<in> set ws. utf8_valid (sw_title w) \<and> utf8_valid (sw_app_id w)"
    and "distinct (map sw_handle ws)" and "sync_windows enc_forget params ws a = (Inr u, a')"
  shows "in_sync a' \<and> (\<forall>w \<in> set ws. announced a' w) \<and> dom (tracked_by (ag_registry a')) = sw_handle ` set ws"
proof -
  from assms(4) obtain v a1 removed reg where 1: "sync_live params ws a = (Inr v, a1)"
    and ret: "retain_live (map sw_handle ws) (ag_registry a1) = (removed, reg)"
    and close: "close_gone enc_forget removed (a1\<lparr>ag_registry := reg\<rparr>) = (Inr u, a')"
    by (auto simp: sync_windows_def split: prod.splits sum.splits)
  from sync_live_ok [OF assms(1-3) 1] have a1: "in_sync a1" "\<forall>w \<in> set ws. announced a1 w" by simp_all
  then have tr: "tracked_streams (ag_registry a1) (ag_streams a1)" and inv: "reg_inv (ag_registry a1)"
    by (simp_all add: in_sync_def tracked_streams_def)
  note reg = retain_live_tracked [OF inv ret]
  from close_gone_ok [OF _ close] a1(1)
  have mir: "mirrored (ag_streams a') (client_after (all_queued (ag_outbound a')))" and r: "ag_registry a' = reg"
    and st: "map_of (ag_streams a') = (\<lambda>i. if i \<in> tw_window_id ` set removed then None else map_of (ag_streams a1) i)"
    by (auto simp: in_sync_def fun_eq_iff)
  have gone: "tw_window_id tw \<in> tw_window_id ` set removed \<longleftrightarrow> h \<notin> sw_handle ` set ws"
    if "tracked_by (ag_registry a1) h = Some tw" for h tw
  proof
    assume "tw_window_id tw \<in> tw_window_id ` set removed"
    then obtain tw' h' where "h' \<notin> set (map sw_handle ws)" "tracked_by (ag_registry a1) h' = Some tw'" "tw_window_id tw = tw_window_id tw'"
      unfolding reg(3) by blast
    with reg_id_inj [OF inv that] show "h \<notin> sw_handle ` set ws" by auto
  next
    assume "h \<notin> sw_handle ` set ws"
    with that have "tw \<in> set removed" unfolding reg(3) by auto
    then show "tw_window_id tw \<in> tw_window_id ` set removed" by simp
  qed
  have "tracked_streams reg (ag_streams a')"
    using tr gone reg(1) unfolding tracked_streams_def st reg(2)
    by (auto split: if_splits) (metis image_eqI)+
  with mir r have "in_sync a'" by (simp add: in_sync_def)
  moreover have "announced a' w" if "w \<in> set ws" for w
  proof -
    from a1(2) that obtain tw s where "tracked_by (ag_registry a1) (sw_handle w) = Some tw"
      "map_of (ag_streams a1) (tw_window_id tw) = Some s" "describes w s" by (auto simp: announced_def)
    with gone [of "sw_handle w" tw] that show ?thesis by (auto simp: announced_def r reg(2) st)
  qed
  moreover have "dom (tracked_by (ag_registry a')) = sw_handle ` set ws"
    using a1(2) by (auto simp: r reg(2) announced_def split: if_splits)
  ultimately show ?thesis by blast
qed

end
