(* ===== verification/Decode.thy ===== *)
theory Decode
  imports Handshake Annexb Yuv "HOL-Library.AList"
begin

unbundle bit_operations_syntax

text \<open>
  Turning wire frames into pixels (\<open>oxclient/src/decode/mod.rs\<close> and \<open>decode/h264.rs\<close>): the
  geometry check, the pass-through decoder, the H.264 decoder with its keyframe gate, and the table
  of one decoder per window.

  The H.264 codec itself is another crate's: its operations are the record \<open>openh264\<close>, an argument
  of every definition that reaches it. \<open>oh_decode\<close> gives the picture's planes, nothing, or an error,
  and the codec's next state; \<open>None\<close> is a panic, which the definitions pass on. Log output is left
  out, the flags that limit it are not. The feature switch of the build is the argument \<open>h264\<close>.

  \<open>decoder\<close> is the contract of the trait \<open>Decoder\<close>: what comes out of \<open>decode\<close> can be blitted as it is,
  under the ids and timestamps that went in. It is interpreted on the two decoders of the crate.
\<close>

section \<open>Errors and geometry\<close>

definition CODEC_H264 :: u8 where "CODEC_H264 = 2"

definition KEYFRAME :: u8 where "KEYFRAME = push_bit 0 1"

definition is_keyframe :: "FrameData \<Rightarrow> bool" where
  "is_keyframe f \<longleftrightarrow> fd_flags f AND KEYFRAME \<noteq> 0"

definition MAX_DECODED_PIXELS :: nat where "MAX_DECODED_PIXELS = 16 * 2 ^ 20"

datatype DecodeError =
    UnsupportedCodec u8
  | Init u8 string
  | PayloadLength nat nat
  | Geometry nat nat
  | Bitstream string

definition checked_geometry :: "nat \<Rightarrow> nat \<Rightarrow> DecodeError + nat \<times> nat" where
  "checked_geometry width height =
    (let too_big = (case usize_checked (width * height) of None \<Rightarrow> True | Some pixels \<Rightarrow> MAX_DECODED_PIXELS < pixels) in
     if width = 0 \<or> height = 0 \<or> 65535 < width \<or> 65535 < height \<or> too_big then Inl (Geometry width height)
     else Inr (width, height))"

section \<open>The pass-through decoder\<close>

definition passthrough_decode :: "FrameData \<Rightarrow> DecodeError + FrameData option" where
  "passthrough_decode frame =
    (case checked_geometry (unat (fd_width frame)) (unat (fd_height frame)) of
       Inl e \<Rightarrow> Inl e
     | Inr (width, height) \<Rightarrow>
         let expected = width * height * 4 in
         if length (fd_data frame) \<noteq> expected then Inl (PayloadLength expected (length (fd_data frame)))
         else Inr (Some frame))"

section \<open>The H.264 decoder\<close>

record 'd openh264 =
  oh_new :: "string + 'd"
  oh_decode :: "'d \<Rightarrow> u8 list \<Rightarrow> ((string + I420Planes option) \<times> 'd) option"

record 'd H264Decoder =
  hd_inner :: 'd
  hd_awaiting_keyframe :: bool
  hd_warned_about_parameter_sets :: bool
  hd_dropped_while_resyncing :: u32
  hd_reported_profile :: bool

definition H264Decoder_new :: "'d openh264 \<Rightarrow> DecodeError + 'd H264Decoder" where
  "H264Decoder_new oh =
    (case oh_new oh of
       Inl error \<Rightarrow> Inl (Init CODEC_H264 error)
     | Inr inner \<Rightarrow>
         Inr \<lparr>hd_inner = inner, hd_awaiting_keyframe = True, hd_warned_about_parameter_sets = False,
              hd_dropped_while_resyncing = 0, hd_reported_profile = False\<rparr>)"

definition report_rejection :: "FrameData \<Rightarrow> 'd H264Decoder \<Rightarrow> 'd H264Decoder" where
  "report_rejection frame d =
    (if \<not> is_keyframe frame \<and> \<not> hd_warned_about_parameter_sets d \<and> has_parameter_sets (fd_data frame)
     then d\<lparr>hd_warned_about_parameter_sets := True\<rparr> else d)"

definition report_profile :: "FrameData \<Rightarrow> 'd H264Decoder \<Rightarrow> 'd H264Decoder" where
  "report_profile frame d =
    (if hd_reported_profile d then d
     else case stream_profile (fd_data frame) of
       None \<Rightarrow> d
     | Some profile \<Rightarrow> d\<lparr>hd_reported_profile := True\<rparr>)"

definition u32_saturating_add :: "u32 \<Rightarrow> u32 \<Rightarrow> u32" where
  "u32_saturating_add a b = (if unat a + unat b < 2 ^ 32 then a + b else - 1)"

text \<open>What the codec's planes become: the inner part of \<open>decode\<close>.\<close>

definition convert_planes :: "'v i32x8 \<Rightarrow> I420Planes \<Rightarrow> (DecodeError + (nat \<times> nat \<times> u8 list) option) option" where
  "convert_planes ops yuv =
    (case checked_geometry (pl_width yuv) (pl_height yuv) of
       Inl e \<Rightarrow> Some (Inl e)
     | Inr _ \<Rightarrow>
         (case i420_to_bgra ops yuv of
            None \<Rightarrow> None
          | Some None \<Rightarrow> Some (Inl (Bitstream ''decoded picture is smaller than its declared geometry''))
          | Some (Some bgra) \<Rightarrow> Some (Inr (Some (pl_width yuv, pl_height yuv, bgra)))))"

definition h264_picture :: "'v i32x8 \<Rightarrow> 'd openh264 \<Rightarrow> FrameData \<Rightarrow> 'd \<Rightarrow>
    ((DecodeError + (nat \<times> nat \<times> u8 list) option) \<times> 'd) option" where
  "h264_picture ops oh frame inner =
    (case oh_decode oh inner (fd_data frame) of
       None \<Rightarrow> None
     | Some (Inl error, inner') \<Rightarrow> Some (Inl (Bitstream error), inner')
     | Some (Inr None, inner') \<Rightarrow> Some (Inr None, inner')
     | Some (Inr (Some yuv), inner') \<Rightarrow> map_option (\<lambda>r. (r, inner')) (convert_planes ops yuv))"

text \<open>The part of \<open>decode\<close> before the codec is asked: the frame is dropped, or the gate is open.\<close>

definition gate :: "FrameData \<Rightarrow> 'd H264Decoder \<Rightarrow> bool \<times> 'd H264Decoder" where
  "gate frame d =
    (if hd_awaiting_keyframe d then
       (if \<not> (is_keyframe frame \<or> contains_idr (fd_data frame)) then
          (False, d\<lparr>hd_dropped_while_resyncing := u32_saturating_add (hd_dropped_while_resyncing d) 1\<rparr>)
        else
          let d1 = (if 0 < hd_dropped_while_resyncing d then d\<lparr>hd_dropped_while_resyncing := 0\<rparr> else d) in
          (True, d1\<lparr>hd_awaiting_keyframe := False\<rparr>))
     else (True, d))"

definition picture_frame :: "FrameData \<Rightarrow> nat \<times> nat \<times> u8 list \<Rightarrow> FrameData" where
  "picture_frame frame = (\<lambda>(width, height, data).
     \<lparr>fd_window_id = fd_window_id frame, fd_frame_id = fd_frame_id frame, fd_codec = RAW_BGRA,
      fd_flags = fd_flags frame, fd_width = word_of_nat width, fd_height = word_of_nat height,
      fd_captured_us = fd_captured_us frame, fd_encoded_us = fd_encoded_us frame, fd_data = data\<rparr>)"

definition h264_decode :: "'v i32x8 \<Rightarrow> 'd openh264 \<Rightarrow> FrameData \<Rightarrow> 'd H264Decoder \<Rightarrow>
    ((DecodeError + FrameData option) \<times> 'd H264Decoder) option" where
  "h264_decode ops oh frame d =
    (case gate frame d of
       (False, d1) \<Rightarrow> Some (Inr None, d1)
     | (True, d1) \<Rightarrow>
         let d2 = report_profile frame d1 in
         (case h264_picture ops oh frame (hd_inner d2) of
            None \<Rightarrow> None
          | Some (picture, inner') \<Rightarrow>
              let d3 = d2\<lparr>hd_inner := inner'\<rparr> in
              Some (case picture of
                 Inr None \<Rightarrow> (Inr None, d3)
               | Inr (Some p) \<Rightarrow> (Inr (Some (picture_frame frame p)), d3)
               | Inl error \<Rightarrow>
                   (Inl error, (report_rejection frame d3)\<lparr>hd_awaiting_keyframe := True\<rparr>))))"

section \<open>Choosing a decoder\<close>

datatype 'd box = Passthrough | H264Box "'d H264Decoder"

fun box_codec :: "'d box \<Rightarrow> u8" where
  "box_codec Passthrough = RAW_BGRA"
| "box_codec (H264Box d) = CODEC_H264"

fun box_decode :: "'v i32x8 \<Rightarrow> 'd openh264 \<Rightarrow> 'd box \<Rightarrow> FrameData \<Rightarrow> ((DecodeError + FrameData option) \<times> 'd box) option" where
  "box_decode ops oh Passthrough frame = Some (passthrough_decode frame, Passthrough)"
| "box_decode ops oh (H264Box d) frame = map_option (\<lambda>(r, d'). (r, H264Box d')) (h264_decode ops oh frame d)"

definition preferred_codecs :: "bool \<Rightarrow> u8 list" where
  "preferred_codecs h264 = (if h264 then [CODEC_H264, RAW_BGRA] else [RAW_BGRA])"

definition supports_codec :: "bool \<Rightarrow> u8 \<Rightarrow> bool" where
  "supports_codec h264 codec \<longleftrightarrow> codec \<in> set (preferred_codecs h264)"

definition new_decoder :: "bool \<Rightarrow> 'd openh264 \<Rightarrow> u8 \<Rightarrow> DecodeError + 'd box" where
  "new_decoder h264 oh codec =
    (if codec = RAW_BGRA then Inr Passthrough
     else if h264 \<and> codec = CODEC_H264 then map_sum id H264Box (H264Decoder_new oh)
     else Inl (UnsupportedCodec codec))"

section \<open>One decoder per window\<close>

type_synonym 'd WindowDecoders = "(u32 \<times> 'd box) list"

definition WindowDecoders_new :: "'d WindowDecoders" where
  "WindowDecoders_new = []"

definition wd_decode :: "bool \<Rightarrow> 'v i32x8 \<Rightarrow> 'd openh264 \<Rightarrow> FrameData \<Rightarrow> 'd WindowDecoders \<Rightarrow>
    ((DecodeError + FrameData option) \<times> 'd WindowDecoders) option" where
  "wd_decode h264 ops oh frame decoders =
    (let window_id = fd_window_id frame;
         stale = (case map_of decoders window_id of None \<Rightarrow> True | Some b \<Rightarrow> box_codec b \<noteq> fd_codec frame) in
     case (if stale then map_sum id (\<lambda>b. AList.update window_id b decoders) (new_decoder h264 oh (fd_codec frame))
           else Inr decoders) of
       Inl e \<Rightarrow> Some (Inl e, decoders)
     | Inr decoders1 \<Rightarrow>
         (case map_of decoders1 window_id of
            None \<Rightarrow> None
          | Some b \<Rightarrow> map_option (\<lambda>(r, b'). (r, AList.update window_id b' decoders1)) (box_decode ops oh b frame)))"

definition wd_forget :: "u32 \<Rightarrow> 'd WindowDecoders \<Rightarrow> 'd WindowDecoders" where
  "wd_forget window_id decoders = AList.delete window_id decoders"

section \<open>What leaves a decoder\<close>

definition presentable :: "FrameData \<Rightarrow> bool" where
  "presentable g \<longleftrightarrow> fd_codec g = RAW_BGRA \<and> 0 < fd_width g \<and> 0 < fd_height g
     \<and> unat (fd_width g) * unat (fd_height g) \<le> MAX_DECODED_PIXELS
     \<and> length (fd_data g) = unat (fd_width g) * unat (fd_height g) * 4"

definition presents :: "FrameData \<Rightarrow> FrameData \<Rightarrow> bool" where
  "presents f g \<longleftrightarrow> presentable g \<and> fd_window_id g = fd_window_id f \<and> fd_frame_id g = fd_frame_id f
     \<and> fd_flags g = fd_flags f \<and> fd_captured_us g = fd_captured_us f \<and> fd_encoded_us g = fd_encoded_us f"

locale decoder =
  fixes codec :: "'b \<Rightarrow> u8"
    and decode :: "'b \<Rightarrow> FrameData \<Rightarrow> ((DecodeError + FrameData option) \<times> 'b) option"
  assumes codec_kept: "decode b f = Some (r, b') \<Longrightarrow> codec b' = codec b"
    and decoded_presents: "fd_codec f = codec b \<Longrightarrow> decode b f = Some (Inr (Some g), b') \<Longrightarrow> presents f g"

lemma checked_geometry_Inr:
  "checked_geometry w h = Inr r \<longleftrightarrow> r = (w, h) \<and> 0 < w \<and> 0 < h \<and> w \<le> 65535 \<and> h \<le> 65535 \<and> w * h \<le> MAX_DECODED_PIXELS"
  by (auto simp: checked_geometry_def usize_checked_def MAX_DECODED_PIXELS_def Let_def split: if_splits)

lemma u16_pos: "0 < (w :: u16) \<longleftrightarrow> 0 < unat w"
  by (metis unat_gt_0 word_neq_0_conv)

lemma passthrough_presents:
  assumes "fd_codec f = RAW_BGRA" "passthrough_decode f = Inr (Some g)"
  shows "presents f g"
  using assms
  by (auto simp: passthrough_decode_def presents_def presentable_def checked_geometry_Inr u16_pos Let_def
      split: sum.splits if_splits prod.splits)

lemma u16_of_nat: "n \<le> 65535 \<Longrightarrow> unat (word_of_nat n :: u16) = n"
  by (simp add: unat_of_nat)

lemma convert_planes_picture:
  assumes "convert_planes ops yuv = Some (Inr (Some (w, h, data)))"
  shows "w = pl_width yuv \<and> h = pl_height yuv \<and> checked_geometry w h = Inr (w, h) \<and> i420_to_bgra ops yuv = Some (Some data)
    \<and> length data = w * h * 4"
  using assms
  by (auto simp: convert_planes_def checked_geometry_Inr dest: i420_to_bgra_length split: sum.splits option.splits)

lemma h264_picture_size:
  assumes "h264_picture ops oh frame inner = Some (Inr (Some (w, h, data)), inner')"
  shows "checked_geometry w h = Inr (w, h) \<and> length data = w * h * 4"
  using assms
  by (auto simp: h264_picture_def dest: convert_planes_picture split: option.splits sum.splits prod.splits)

text \<open>One call of \<open>decode\<close>, by what the gate says.\<close>

lemma h264_decode_dropped:
  "gate frame d = (False, d1) \<Longrightarrow> h264_decode ops oh frame d = Some (Inr None, d1)"
  by (simp add: h264_decode_def)

lemma h264_decode_asked:
  assumes "h264_decode ops oh frame d = Some (r, d')" "gate frame d = (True, d1)"
  obtains picture inner' where "h264_picture ops oh frame (hd_inner d) = Some (picture, inner')" "hd_inner d' = inner'"
    "hd_awaiting_keyframe d' \<longleftrightarrow> (\<exists>e. r = Inl e)" "(\<exists>e. r = Inl e) \<longleftrightarrow> (\<exists>e. picture = Inl e)"
    "r = map_sum id (map_option (picture_frame frame)) picture"
proof -
  have d1: "hd_inner d1 = hd_inner d" "\<not> hd_awaiting_keyframe d1"
    using assms(2) by (auto simp: gate_def Let_def split: if_splits)
  have rp: "hd_inner (report_profile frame d1) = hd_inner d" "\<not> hd_awaiting_keyframe (report_profile frame d1)"
    using d1 by (auto simp: report_profile_def split: option.split)
  have rr: "hd_inner (report_rejection frame x) = hd_inner x" for x :: "'a H264Decoder"
    by (simp add: report_rejection_def)
  obtain picture inner' where pic: "h264_picture ops oh frame (hd_inner d) = Some (picture, inner')"
    using assms rp by (auto simp: h264_decode_def Let_def split: option.splits)
  show thesis
    using assms(1) pic rp rr
    by (intro that [OF pic])
       (auto simp: h264_decode_def assms(2) Let_def split: sum.splits option.splits prod.splits)
qed

lemma h264_presents:
  assumes "h264_decode ops oh f d = Some (Inr (Some g), d')"
  shows "presents f g"
proof (cases "gate f d")
  case (Pair open_gate d1)
  show ?thesis
  proof (cases open_gate)
    case True
    with assms Pair obtain picture inner' where pic: "h264_picture ops oh f (hd_inner d) = Some (picture, inner')"
      and g: "Inr (Some g) = map_sum id (map_option (picture_frame f)) picture"
      by (auto elim: h264_decode_asked)
    from g [symmetric] obtain w h data where "picture = Inr (Some (w, h, data))" by (cases picture) auto
    then show ?thesis
      using g pic h264_picture_size [of ops oh f "hd_inner d" w h data inner']
      by (auto simp: presents_def presentable_def picture_frame_def checked_geometry_Inr u16_pos u16_of_nat)
  qed (use assms Pair in \<open>simp add: h264_decode_dropped\<close>)
qed

interpretation box: decoder box_codec "box_decode ops oh" for ops oh
proof
  fix b b' :: "'a box" and f r
  assume "box_decode ops oh b f = Some (r, b')"
  then show "box_codec b' = box_codec b" by (cases b) auto
next
  fix b b' :: "'a box" and f g
  assume "fd_codec f = box_codec b" "box_decode ops oh b f = Some (Inr (Some g), b')"
  then show "presents f g" by (cases b) (auto intro: passthrough_presents h264_presents)
qed

section \<open>The keyframe gate\<close>

definition starts_stream :: "FrameData \<Rightarrow> bool" where
  "starts_stream f \<longleftrightarrow> is_keyframe f \<or> contains_idr (fd_data f)"

text \<open>A stream of frames through one decoder, and access units through the codec alone.\<close>

fun h264_run :: "'v i32x8 \<Rightarrow> 'd openh264 \<Rightarrow> FrameData list \<Rightarrow> 'd H264Decoder \<Rightarrow>
    ((DecodeError + FrameData option) list \<times> 'd H264Decoder) option" where
  "h264_run ops oh [] d = Some ([], d)"
| "h264_run ops oh (f # fs) d =
    (case h264_decode ops oh f d of
       None \<Rightarrow> None
     | Some (r, d1) \<Rightarrow> map_option (\<lambda>(rs, d2). (r # rs, d2)) (h264_run ops oh fs d1))"

fun codec_feed :: "'d openh264 \<Rightarrow> 'd \<Rightarrow> u8 list list \<Rightarrow> 'd option" where
  "codec_feed oh c [] = Some c"
| "codec_feed oh c (x # xs) = (case oh_decode oh c x of None \<Rightarrow> None | Some (_, c') \<Rightarrow> codec_feed oh c' xs)"

lemma h264_run_snoc:
  "h264_run ops oh (fs @ [f]) d = Some (rs', d') \<longleftrightarrow>
   (\<exists>rs r d1. h264_run ops oh fs d = Some (rs, d1) \<and> h264_decode ops oh f d1 = Some (r, d') \<and> rs' = rs @ [r])"
  by (induction fs arbitrary: d rs') (auto split: option.splits prod.splits)

lemma h264_run_length: "h264_run ops oh fs d = Some (rs, d') \<Longrightarrow> length rs = length fs"
  by (induction fs arbitrary: d rs) (auto split: option.splits)

lemma codec_feed_snoc:
  "codec_feed oh c (xs @ [x]) = (case codec_feed oh c xs of None \<Rightarrow> None | Some c1 \<Rightarrow> map_option snd (oh_decode oh c1 x))"
  by (induction xs arbitrary: c) (auto split: option.splits prod.splits)

lemma picture_codec:
  assumes "h264_picture ops oh f c = Some (p, c')"
  obtains a where "oh_decode oh c (fd_data f) = Some (a, c')"
  using assms by (auto simp: h264_picture_def split: option.splits sum.splits prod.splits)

text \<open>
  While the gate is open, the codec has been fed exactly the frames since one that starts a stream,
  and none of them failed.
\<close>

definition fed_since_start :: "'d openh264 \<Rightarrow> FrameData list \<Rightarrow> (DecodeError + FrameData option) list \<Rightarrow> 'd \<Rightarrow> bool" where
  "fed_since_start oh fs rs c \<longleftrightarrow>
     (\<exists>k < length fs. starts_stream (fs ! k) \<and> (\<forall>r \<in> set (drop k rs). \<forall>e. r \<noteq> Inl e)
        \<and> (\<exists>c0. codec_feed oh c0 (map fd_data (drop k fs)) = Some c))"

lemma gate_cases:
  assumes "gate f d = (b, d1)"
  shows "b \<longleftrightarrow> \<not> hd_awaiting_keyframe d \<or> starts_stream f"
    and "\<not> b \<Longrightarrow> hd_awaiting_keyframe d1"
  using assms by (auto simp: gate_def starts_stream_def Let_def split: if_splits)

lemma fed_step:
  assumes pic: "h264_picture ops oh f c = Some (p, c')" and ok: "\<And>e. r \<noteq> Inl e"
    and len: "length rs = length fs"
    and gate: "fed_since_start oh fs rs c \<or> starts_stream f"
  shows "fed_since_start oh (fs @ [f]) (rs @ [r]) c'"
proof -
  obtain a where a: "oh_decode oh c (fd_data f) = Some (a, c')" using pic by (rule picture_codec)
  from gate show ?thesis
  proof
    assume "fed_since_start oh fs rs c"
    then obtain k c0 where k: "k < length fs" "starts_stream (fs ! k)" "\<forall>r \<in> set (drop k rs). \<forall>e. r \<noteq> Inl e"
        "codec_feed oh c0 (map fd_data (drop k fs)) = Some c" by (auto simp: fed_since_start_def)
    have "codec_feed oh c0 (map fd_data (drop k (fs @ [f]))) = Some c'"
      using k a by (simp add: codec_feed_snoc)
    then show ?thesis
      unfolding fed_since_start_def using k ok len by (intro exI [of _ k]) (auto simp: nth_append)
  next
    assume "starts_stream f"
    moreover have "codec_feed oh c (map fd_data (drop (length fs) (fs @ [f]))) = Some c'" using a by simp
    ultimately show ?thesis
      unfolding fed_since_start_def using ok len by (intro exI [of _ "length fs"]) (auto simp: nth_append)
  qed
qed

lemma gate_invariant:
  assumes "H264Decoder_new oh = Inr d0" "h264_run ops oh fs d0 = Some (rs, d)"
  shows "hd_awaiting_keyframe d \<or> fed_since_start oh fs rs (hd_inner d)"
  using assms(2)
proof (induction fs arbitrary: rs d rule: rev_induct)
  case Nil
  then show ?case using assms(1) by (auto simp: H264Decoder_new_def split: sum.splits)
next
  case (snoc f fs)
  then obtain rs0 r d1 where run: "h264_run ops oh fs d0 = Some (rs0, d1)" and dec: "h264_decode ops oh f d1 = Some (r, d)" "rs = rs0 @ [r]"
    by (auto simp: h264_run_snoc)
  obtain b d2 where g: "gate f d1 = (b, d2)" by fastforce
  show ?case
  proof (cases b)
    case False
    then show ?thesis using dec g gate_cases(2) [OF g] by (simp add: h264_decode_dropped)
  next
    case True
    then have "gate f d1 = (True, d2)" using g by simp
    with dec(1) obtain p c' where pic: "h264_picture ops oh f (hd_inner d1) = Some (p, c')" "hd_inner d = c'"
        "hd_awaiting_keyframe d \<longleftrightarrow> (\<exists>e. r = Inl e)" by (rule h264_decode_asked)
    show ?thesis
      using fed_step [OF pic(1), of r rs0 fs] snoc.IH [OF run] h264_run_length [OF run] gate_cases(1) [OF g] True pic(2,3) dec(2) by auto
  qed
qed

lemma checked_geometry_small: "checked_geometry w h = Inr r \<Longrightarrow> 4 * w * h < 2 ^ 63"
proof -
  assume "checked_geometry w h = Inr r"
  then have "w * h \<le> 16 * 2 ^ 20" by (simp add: checked_geometry_Inr MAX_DECODED_PIXELS_def)
  then have "4 * (w * h) \<le> 4 * (16 * 2 ^ 20)" by (rule mult_le_mono2)
  also have "\<dots> < 2 ^ 63" by simp
  finally show ?thesis by (simp only: mult.assoc)
qed

lemma h264_picture_planes:
  assumes "lanewise ops" "h264_picture ops oh f c = Some (Inr (Some p), c')"
  obtains yuv where "oh_decode oh c (fd_data f) = Some (Inr (Some yuv), c')" "is_addressable yuv"
    "p = (pl_width yuv, pl_height yuv, yuv_picture yuv)" "checked_geometry (pl_width yuv) (pl_height yuv) = Inr (pl_width yuv, pl_height yuv)"
proof -
  obtain yuv where yuv: "oh_decode oh c (fd_data f) = Some (Inr (Some yuv), c')" "convert_planes ops yuv = Some (Inr (Some p))"
    using assms(2) by (auto simp: h264_picture_def split: option.splits sum.splits prod.splits)
  obtain w h data where p: "p = (w, h, data)" by (cases p)
  note pic = convert_planes_picture [OF yuv(2) [unfolded p]]
  have small: "4 * pl_width yuv * pl_height yuv < 2 ^ 63"
    using pic checked_geometry_small by blast
  show thesis
    using pic i420_to_bgra_exact [OF assms(1) small] yuv p by (intro that [of yuv]) (auto split: if_splits)
qed

lemma convert_planes_ok:
  assumes "lanewise ops" "is_addressable yuv" "checked_geometry (pl_width yuv) (pl_height yuv) = Inr r"
  shows "convert_planes ops yuv = Some (Inr (Some (pl_width yuv, pl_height yuv, yuv_picture yuv)))"
proof -
  note small = checked_geometry_small [OF assms(3)]
  show ?thesis using assms i420_to_bgra_exact [OF assms(1) small] by (simp add: convert_planes_def)
qed

section \<open>One decoder per window\<close>

datatype wd_event = Decode_frame FrameData | Forget u32

fun event_window :: "wd_event \<Rightarrow> u32" where
  "event_window (Decode_frame f) = fd_window_id f"
| "event_window (Forget w) = w"

fun wd_step :: "bool \<Rightarrow> 'v i32x8 \<Rightarrow> 'd openh264 \<Rightarrow> wd_event \<Rightarrow> 'd WindowDecoders \<Rightarrow>
    ((DecodeError + FrameData option) option \<times> 'd WindowDecoders) option" where
  "wd_step h264 ops oh (Decode_frame f) ds = map_option (\<lambda>(r, ds'). (Some r, ds')) (wd_decode h264 ops oh f ds)"
| "wd_step h264 ops oh (Forget w) ds = Some (None, wd_forget w ds)"

fun wd_run :: "bool \<Rightarrow> 'v i32x8 \<Rightarrow> 'd openh264 \<Rightarrow> wd_event list \<Rightarrow> 'd WindowDecoders \<Rightarrow>
    ((DecodeError + FrameData option) option list \<times> 'd WindowDecoders) option" where
  "wd_run h264 ops oh [] ds = Some ([], ds)"
| "wd_run h264 ops oh (e # es) ds =
    (case wd_step h264 ops oh e ds of
       None \<Rightarrow> None
     | Some (r, ds1) \<Rightarrow> map_option (\<lambda>(rs, ds2). (r # rs, ds2)) (wd_run h264 ops oh es ds1))"

lemma wd_step_other:
  assumes "wd_step h264 ops oh e ds = Some (r, ds1)" "event_window e \<noteq> w"
  shows "map_of ds1 w = map_of ds w"
proof (cases e)
  case (Decode_frame f)
  then show ?thesis
    using assms
    by (cases "new_decoder h264 oh (fd_codec f) :: DecodeError + 'a box")
       (auto simp: wd_decode_def Let_def update_conv' split: sum.splits option.splits if_splits)
qed (use assms in \<open>auto simp: wd_forget_def delete_conv'\<close>)

lemma map_of_updated: "map_of (AList.update k v al) k = Some v"
  by (simp add: update_conv')

lemma wd_decode_local:
  assumes "wd_decode h264 ops oh f ds = Some (r, ds1)" "map_of ds' (fd_window_id f) = map_of ds (fd_window_id f)"
  shows "\<exists>ds1'. wd_decode h264 ops oh f ds' = Some (r, ds1') \<and> map_of ds1' (fd_window_id f) = map_of ds1 (fd_window_id f)"
proof (cases "case map_of ds (fd_window_id f) of None \<Rightarrow> True | Some b \<Rightarrow> box_codec b \<noteq> fd_codec f")
  case True
  then show ?thesis
    using assms unfolding wd_decode_def Let_def assms(2)
    by (cases "new_decoder h264 oh (fd_codec f) :: DecodeError + 'a box") (auto simp: map_of_updated assms(2))
next
  case False
  then show ?thesis
    using assms unfolding wd_decode_def Let_def assms(2) by (auto simp: map_of_updated assms(2) split: option.splits)
qed

lemma wd_step_own:
  assumes "wd_step h264 ops oh e ds = Some (r, ds1)" "map_of ds' (event_window e) = map_of ds (event_window e)"
  shows "\<exists>ds1'. wd_step h264 ops oh e ds' = Some (r, ds1') \<and> map_of ds1' (event_window e) = map_of ds1 (event_window e)"
proof (cases e)
  case (Decode_frame f)
  then obtain r0 where "wd_decode h264 ops oh f ds = Some (r0, ds1)" "r = Some r0" using assms by auto
  with wd_decode_local [OF this(1), of ds'] Decode_frame assms(2) show ?thesis by auto
qed (use assms in \<open>auto simp: wd_forget_def delete_conv'\<close>)

lemma wd_run_window:
  assumes "wd_run h264 ops oh es ds = Some (rs, ds1)" "map_of ds' w = map_of ds w"
  shows "\<exists>ds1'. wd_run h264 ops oh (filter (\<lambda>e. event_window e = w) es) ds'
           = Some (map snd (filter (\<lambda>(e, r). event_window e = w) (zip es rs)), ds1') \<and> map_of ds1' w = map_of ds1 w"
  using assms
proof (induction es arbitrary: ds ds' rs)
  case (Cons e es)
  then obtain r ds2 rs2 where step: "wd_step h264 ops oh e ds = Some (r, ds2)"
      and rest: "wd_run h264 ops oh es ds2 = Some (rs2, ds1)" "rs = r # rs2"
    by (auto split: option.splits)
  show ?case
  proof (cases "event_window e = w")
    case True
    then obtain ds2' where own: "wd_step h264 ops oh e ds' = Some (r, ds2')" "map_of ds2' w = map_of ds2 w"
      using wd_step_own [OF step, of ds'] Cons.prems(2) by auto
    from Cons.IH [OF rest(1) own(2)] show ?thesis using True own(1) rest(2) by auto
  next
    case False
    then have "map_of ds' w = map_of ds2 w" using wd_step_other [OF step] Cons.prems(2) by simp
    from Cons.IH [OF rest(1) this] show ?thesis using False rest(2) by auto
  qed
qed simp

lemma picture_since_start:
  assumes "lanewise ops" "H264Decoder_new oh = Inr d0" "h264_run ops oh fs d0 = Some (rs, d)"
    and "h264_decode ops oh f d = Some (Inr (Some g), d')"
  shows "\<exists>k \<le> length fs. starts_stream ((fs @ [f]) ! k) \<and> (\<forall>r \<in> set (drop k rs). \<forall>e. r \<noteq> Inl e) \<and>
              (\<exists>c0 c yuv c'. codec_feed oh c0 (map fd_data (drop k fs)) = Some c
                 \<and> oh_decode oh c (fd_data f) = Some (Inr (Some yuv), c') \<and> fd_data g = yuv_picture yuv)"
proof -
  obtain b d1 where g: "gate f d = (b, d1)" by fastforce
  have b: b using assms(4) g by (cases b) (auto simp: h264_decode_dropped)
  then have "gate f d = (True, d1)" using g by simp
  from assms(4) this obtain p c' where pic: "h264_picture ops oh f (hd_inner d) = Some (p, c')"
    and out: "Inr (Some g) = map_sum id (map_option (picture_frame f)) p" by (rule h264_decode_asked)
  from out [symmetric] obtain q where q: "p = Inr (Some q)" "g = picture_frame f q" by (cases p) auto
  from assms(1) pic [unfolded q(1)] obtain yuv where yuv: "oh_decode oh (hd_inner d) (fd_data f) = Some (Inr (Some yuv), c')"
    "q = (pl_width yuv, pl_height yuv, yuv_picture yuv)" by (rule h264_picture_planes)
  then have data: "fd_data g = yuv_picture yuv" using q(2) by (simp add: picture_frame_def)
  show ?thesis
  proof (cases "starts_stream f")
    case True
    have "codec_feed oh (hd_inner d) (map fd_data (drop (length fs) fs)) = Some (hd_inner d)" by simp
    then show ?thesis using True yuv(1) data h264_run_length [OF assms(3)] by (intro exI [of _ "length fs"]) auto
  next
    case False
    then have "fed_since_start oh fs rs (hd_inner d)"
      using gate_invariant [OF assms(2,3)] gate_cases(1) [OF g] b by auto
    then obtain k c0 where "k < length fs" "starts_stream (fs ! k)" "\<forall>r \<in> set (drop k rs). \<forall>e. r \<noteq> Inl e"
        "codec_feed oh c0 (map fd_data (drop k fs)) = Some (hd_inner d)" by (auto simp: fed_since_start_def)
    then show ?thesis using yuv(1) data by (intro exI [of _ k]) (auto simp: nth_append)
  qed
qed

lemma start_not_dropped:
  assumes "lanewise ops" "starts_stream f" "oh_decode oh (hd_inner d) (fd_data f) = Some (Inr (Some yuv), c')"
    and "is_addressable yuv" "checked_geometry (pl_width yuv) (pl_height yuv) = Inr wh"
  shows "\<exists>g d'. h264_decode ops oh f d = Some (Inr (Some g), d') \<and> fd_data g = yuv_picture yuv \<and> \<not> hd_awaiting_keyframe d'"
proof -
  obtain b d1 where "gate f d = (b, d1)" by fastforce
  with gate_cases(1) [OF this] assms(2) have g: "gate f d = (True, d1)" by simp
  have "h264_picture ops oh f (hd_inner d) = Some (Inr (Some (pl_width yuv, pl_height yuv, yuv_picture yuv)), c')"
    using assms(3) convert_planes_ok [OF assms(1,4,5)] by (simp add: h264_picture_def)
  moreover have "hd_inner (report_profile f d1) = hd_inner d" "\<not> hd_awaiting_keyframe (report_profile f d1)"
    using g by (auto simp: report_profile_def gate_def Let_def split: option.split if_splits)
  ultimately show ?thesis using g by (simp add: h264_decode_def Let_def picture_frame_def)
qed

section \<open>Properties\<close>

text \<open>
  C23: Whatever is shown can be trusted to follow from a keyframe. In any stream, whatever was
  dropped, refused or cut off before, a picture that the H.264 decoder puts out is the exact colour
  conversion of what the codec produced after it was fed, without gap or error, every frame since
  one that starts a stream (flagged as a keyframe or carrying an IDR slice); it is presentable and carries the ids
  and timestamps of its frame. And a frame that starts a stream is never dropped: if the codec
  gives a usable picture for it, that picture is put out and the gate stays open.
\<close>

theorem pictures_follow_a_keyframe:
  assumes "lanewise ops" "H264Decoder_new oh = Inr d0" "h264_run ops oh fs d0 = Some (rs, d)"
  shows "(\<forall>f g d'. h264_decode ops oh f d = Some (Inr (Some g), d') \<longrightarrow>
           presents f g \<and>
           (\<exists>k \<le> length fs. starts_stream ((fs @ [f]) ! k) \<and> (\<forall>r \<in> set (drop k rs). \<forall>e. r \<noteq> Inl e) \<and>
              (\<exists>c0 c yuv c'. codec_feed oh c0 (map fd_data (drop k fs)) = Some c
                 \<and> oh_decode oh c (fd_data f) = Some (Inr (Some yuv), c') \<and> fd_data g = yuv_picture yuv)))
       \<and> (\<forall>f yuv c'. starts_stream f \<longrightarrow> oh_decode oh (hd_inner d) (fd_data f) = Some (Inr (Some yuv), c') \<longrightarrow> is_addressable yuv \<longrightarrow>
           (\<exists>wh. checked_geometry (pl_width yuv) (pl_height yuv) = Inr wh) \<longrightarrow>
           (\<exists>g d'. h264_decode ops oh f d = Some (Inr (Some g), d') \<and> fd_data g = yuv_picture yuv \<and> \<not> hd_awaiting_keyframe d'))"
  by (intro conjI allI impI; (elim exE)?)
     (rule h264_presents picture_since_start [OF assms] start_not_dropped [OF assms(1)]; assumption)+

text \<open>Witness: a codec that answers every access unit with one grey pixel, a frame too early and a keyframe.\<close>

definition grey_planes :: I420Planes where
  "grey_planes = \<lparr>pl_y = [126], pl_u = [128], pl_v = [128], pl_width = 1, pl_height = 1, pl_y_stride = 1, pl_u_stride = 1, pl_v_stride = 1\<rparr>"

definition grey_codec :: "unit openh264" where
  "grey_codec = \<lparr>oh_new = Inr (), oh_decode = (\<lambda>_ _. Some (Inr (Some grey_planes), ()))\<rparr>"

definition grey_frame :: "u8 \<Rightarrow> FrameData" where
  "grey_frame flags = \<lparr>fd_window_id = 3, fd_frame_id = 7, fd_codec = CODEC_H264, fd_flags = flags, fd_width = 1, fd_height = 1,
     fd_captured_us = 10, fd_encoded_us = 20, fd_data = [0, 0, 0, 1, 0x41]\<rparr>"

lemma grey_addressable: "is_addressable grey_planes"
  by (simp add: grey_planes_def is_addressable_def plane_fits_def usize_checked_def div_ceil_def Let_def)

lemma grey_picture: "yuv_picture grey_planes = [128, 128, 128, 255]"
  unfolding grey_planes_def by code_simp

theorem pictures_follow_a_keyframe_witness:
  "\<exists>d d1 g d2. h264_run list_lanes grey_codec [grey_frame 0]
      \<lparr>hd_inner = (), hd_awaiting_keyframe = True, hd_warned_about_parameter_sets = False, hd_dropped_while_resyncing = 0, hd_reported_profile = False\<rparr>
      = Some ([Inr None], d)
    \<and> h264_decode list_lanes grey_codec (grey_frame 1) d = Some (Inr (Some g), d1) \<and> presents (grey_frame 1) g
    \<and> fd_data g = [128, 128, 128, 255] \<and> \<not> hd_awaiting_keyframe d1"
proof -
  let ?init = "\<lparr>hd_inner = (), hd_awaiting_keyframe = True, hd_warned_about_parameter_sets = False, hd_dropped_while_resyncing = 0, hd_reported_profile = False\<rparr>"
  let ?after = "?init\<lparr>hd_dropped_while_resyncing := 1\<rparr>"
  have new: "H264Decoder_new grey_codec = Inr ?init" 
    by (simp only: H264Decoder_new_def grey_codec_def openh264.simps sum.case)
  have no_idr: "contains_idr [0, 0, 0, 1, 0x41] = False" by code_simp
  have run: "h264_run list_lanes grey_codec [grey_frame 0] ?init = Some ([Inr None], ?after)"
    by (simp add: h264_decode_def gate_def grey_frame_def is_keyframe_def no_idr u32_saturating_add_def)
  have start: "starts_stream (grey_frame 1)" by (simp add: starts_stream_def is_keyframe_def grey_frame_def KEYFRAME_def)
  have size: "checked_geometry (pl_width grey_planes) (pl_height grey_planes) = Inr (1, 1)"
    by (simp add: checked_geometry_Inr grey_planes_def MAX_DECODED_PIXELS_def)
  have codec: "oh_decode grey_codec c x = Some (Inr (Some grey_planes), ())" for c x by (simp add: grey_codec_def)
  note both = pictures_follow_a_keyframe [OF list_lanes_lanewise new run]
  from both codec start grey_addressable size obtain g d' where
    "h264_decode list_lanes grey_codec (grey_frame 1) ?after = Some (Inr (Some g), d')" "fd_data g = yuv_picture grey_planes" "\<not> hd_awaiting_keyframe d'"
    by blast
  with both run grey_picture show ?thesis by metis
qed

text \<open>
  Windows do not affect each other. Whatever the interleaving of frames and closings of several
  windows, the results for one window, and its decoder, are those of a client that saw that
  window's frames and closings alone.
\<close>

theorem windows_decoded_independently:
  assumes "wd_run h264 ops oh es WindowDecoders_new = Some (rs, ds)"
  shows "\<exists>ds'. wd_run h264 ops oh (filter (\<lambda>e. event_window e = w) es) WindowDecoders_new
           = Some (map snd (filter (\<lambda>(e, r). event_window e = w) (zip es rs)), ds') \<and> map_of ds' w = map_of ds w"
  using wd_run_window [OF assms] by simp

definition raw_frame :: "u32 \<Rightarrow> u8 list \<Rightarrow> FrameData" where
  "raw_frame w data = \<lparr>fd_window_id = w, fd_frame_id = 1, fd_codec = RAW_BGRA, fd_flags = 1, fd_width = 1, fd_height = 1,
     fd_captured_us = 0, fd_encoded_us = 0, fd_data = data\<rparr>"

theorem windows_decoded_independently_witness:
  "\<exists>ds'. wd_run True list_lanes grey_codec [Decode_frame (raw_frame 1 [1, 2, 3, 4]), Forget 1] WindowDecoders_new
     = Some ([Some (Inr (Some (raw_frame 1 [1, 2, 3, 4]))), None], ds') \<and> map_of ds' 1 = None"
proof -
  let ?es = "[Decode_frame (raw_frame 1 [1, 2, 3, 4]), Decode_frame (raw_frame 2 []), Forget 1]"
  have raw: "passthrough_decode (raw_frame 1 [1, 2, 3, 4]) = Inr (Some (raw_frame 1 [1, 2, 3, 4]))"
    "passthrough_decode (raw_frame 2 []) = Inl (PayloadLength 4 0)"
    by (simp_all add: passthrough_decode_def raw_frame_def checked_geometry_def usize_checked_def MAX_DECODED_PIXELS_def)
  have ids: "fd_window_id (raw_frame w x) = w" "fd_codec (raw_frame w x) = RAW_BGRA" for w x by (simp_all add: raw_frame_def)
  have new_raw: "new_decoder True grey_codec RAW_BGRA = Inr Passthrough" by (simp add: new_decoder_def)
  have run: "wd_run True list_lanes grey_codec ?es WindowDecoders_new
     = Some ([Some (Inr (Some (raw_frame 1 [1, 2, 3, 4]))), Some (Inl (PayloadLength 4 0)), None], [(2, Passthrough)])"
    by (simp add: wd_decode_def new_raw ids WindowDecoders_new_def wd_forget_def raw)
  show ?thesis using windows_decoded_independently [OF run, of 1] by (simp add: raw_frame_def)
qed

end
