(* ===== verification/Agent_Frames.thy ===== *)
theory Agent_Frames
  imports Agent_Windows Decode
begin

text \<open>
  How the agent captures, encodes and queues frames (\<open>pump_frames\<close> of \<open>oxagent/src/serve.rs\<close>, with
  the interface of \<open>oxagent/src/encode.rs\<close>). The platform's capture and encoder are arguments, as
  records of the operations of the two traits on a state of their own.
\<close>

section \<open>The platform\<close>

text \<open>The texture of a frame that stays on the GPU is the platform's own; the model only names it.\<close>

record SourceFrame =
  sf_width :: u16
  sf_height :: u16
  sf_data :: "u8 list"
  sf_gpu_frame :: "nat option"

datatype CaptureIntent = CpuBgra | GpuNv12Preferred

record EncodedFrame =
  ef_data :: "u8 list"
  ef_keyframe :: bool
  ef_width :: u16
  ef_height :: u16

record 's WindowSource =
  so_live_windows :: "'s \<Rightarrow> SourceWindow list \<times> 's"
  so_next_frame :: "handle \<Rightarrow> CaptureIntent \<Rightarrow> 's \<Rightarrow> SourceFrame option \<times> 's"

record 'e FrameEncoder =
  fe_submit :: "handle \<Rightarrow> SourceFrame \<Rightarrow> bool \<Rightarrow> 'e \<Rightarrow> 'e"
  fe_poll :: "handle \<Rightarrow> 'e \<Rightarrow> EncodedFrame option \<times> 'e"
  fe_forget :: "handle \<Rightarrow> 'e \<Rightarrow> 'e"
  fe_wants_cpu_frame :: "handle \<Rightarrow> u16 \<Rightarrow> u16 \<Rightarrow> 'e \<Rightarrow> bool"
  fe_failed :: "handle \<Rightarrow> 'e \<Rightarrow> bool"

definition CAPTURE_DIAGNOSTIC_FRAME_LIMIT :: u32 where "CAPTURE_DIAGNOSTIC_FRAME_LIMIT = 100"
definition TRANSPORT_DIAGNOSTIC_FRAME_LIMIT :: u32 where "TRANSPORT_DIAGNOSTIC_FRAME_LIMIT = 100"

text \<open>The clock: microseconds since the session started at its successive readings.\<close>

definition elapsed_us :: "nat \<Rightarrow> u64" where
  "elapsed_us micros = of_nat (min micros (2 ^ 64 - 1))"

record ('e, 's) driver =
  dr_agent :: "'e agent"
  dr_source :: 's
  dr_reads :: nat

section \<open>One frame of one window\<close>

definition set_stream :: "u32 \<Rightarrow> WindowStream \<Rightarrow> ('e, 's) driver \<Rightarrow> ('e, 's) driver" where
  "set_stream i s drv = drv\<lparr>dr_agent := (dr_agent drv)\<lparr>ag_streams := AList.update i s (ag_streams (dr_agent drv))\<rparr>\<rparr>"

definition set_outbound :: "outbound \<Rightarrow> ('e, 's) driver \<Rightarrow> ('e, 's) driver" where
  "set_outbound ob drv = drv\<lparr>dr_agent := (dr_agent drv)\<lparr>ag_outbound := ob\<rparr>\<rparr>"

definition set_encoder :: "'e \<Rightarrow> ('e, 's) driver \<Rightarrow> ('e, 's) driver" where
  "set_encoder e drv = drv\<lparr>dr_agent := (dr_agent drv)\<lparr>ag_encoder := e\<rparr>\<rparr>"

definition capture_intent :: "'e FrameEncoder \<Rightarrow> u8 \<Rightarrow> WindowStream \<Rightarrow> 'e \<Rightarrow> CaptureIntent" where
  "capture_intent enc codec s e =
    (case st_geometry s of (_, _, window_width, window_height) \<Rightarrow>
       if codec = CODEC_H264 \<and> \<not> fe_failed enc (st_handle s) e \<and>
          \<not> fe_wants_cpu_frame enc (st_handle s) window_width window_height e
       then GpuNv12Preferred else CpuBgra)"

text \<open>
  The payload of a captured frame, if there is one to send this time: codec, flags, size, data and
  the time the data was ready. The stream forgets its keyframe request when a keyframe comes out.
\<close>

type_synonym payload = "u8 \<times> u8 \<times> u16 \<times> u16 \<times> u8 list \<times> u64"

definition encode_frame :: "'e FrameEncoder \<Rightarrow> (nat \<Rightarrow> nat) \<Rightarrow> u8 \<Rightarrow> WindowStream \<Rightarrow> SourceFrame \<Rightarrow> u64 \<Rightarrow> 'e \<Rightarrow> nat \<Rightarrow>
    payload option \<times> WindowStream \<times> 'e \<times> nat" where
  "encode_frame enc clock codec s frame captured_us e k =
    (let e1 = (if codec = CODEC_H264 then fe_submit enc (st_handle s) frame (st_needs_keyframe s) e else e) in
     if codec = CODEC_H264 \<and> \<not> fe_failed enc (st_handle s) e1 then
       (case fe_poll enc (st_handle s) e1 of
          (None, e2) \<Rightarrow> (None, s, e2, k)
        | (Some encoded, e2) \<Rightarrow>
            let s1 = (if ef_keyframe encoded then s\<lparr>st_needs_keyframe := False\<rparr> else s);
                flags = (if ef_keyframe encoded then KEYFRAME else 0)
            in (Some (CODEC_H264, flags, ef_width encoded, ef_height encoded, ef_data encoded, elapsed_us (clock k)),
                s1, e2, Suc k))
     else if sf_data frame \<noteq> [] then
       (Some (RAW_BGRA, KEYFRAME, sf_width frame, sf_height frame, sf_data frame, captured_us), s, e1, k)
     else (None, s, e1, k))"

text \<open>The frame gets the next id of its window's budget and takes the reserved slot.\<close>

definition queue_frame :: "u32 \<Rightarrow> WindowStream \<Rightarrow> u64 \<Rightarrow> payload \<Rightarrow> ('e, 's) driver \<Rightarrow> (failure + unit) \<times> ('e, 's) driver" where
  "queue_frame i s captured_us p drv =
    (case p of (codec, flags, width, height, data, encoded_us) \<Rightarrow>
     case on_captured (st_budget s) of
       (frame_id, budget) \<Rightarrow>
         let s1 = s\<lparr>st_budget := budget\<rparr> in
         (case encode_body (FrameData \<lparr>fd_window_id = i, fd_frame_id = frame_id, fd_codec = codec, fd_flags = flags,
              fd_width = width, fd_height = height, fd_captured_us = captured_us, fd_encoded_us = encoded_us, fd_data = data\<rparr>) of
            Inl e \<Rightarrow> (Inl (InvalidBody e), set_stream i s1 drv)
          | Inr body \<Rightarrow>
              let diag = (if st_transport_diag_logged s1 < TRANSPORT_DIAGNOSTIC_FRAME_LIMIT then Some (i, frame_id) else None);
                  s2 = (if diag \<noteq> None then s1\<lparr>st_transport_diag_logged := st_transport_diag_logged s1 + 1\<rparr> else s1);
                  chunk = \<lparr>oc_msg_type = MT_FRAME_DATA, oc_channel = st_video_channel s2, oc_body = body, oc_diag = diag\<rparr>
              in (Inr (), set_outbound (permit_send chunk (ag_outbound (dr_agent drv))) (set_stream i s2 drv))))"

definition pump_window :: "'e FrameEncoder \<Rightarrow> 's WindowSource \<Rightarrow> (nat \<Rightarrow> nat) \<Rightarrow> u8 \<Rightarrow> u32 \<Rightarrow> ('e, 's) driver \<Rightarrow>
    (failure + unit) \<times> ('e, 's) driver" where
  "pump_window enc so clock codec i drv =
    (case map_of (ag_streams (dr_agent drv)) i of
       None \<Rightarrow> (Inr (), drv)
     | Some s \<Rightarrow>
         if st_show_state s = SHOW_MINIMIZED then (Inr (), drv)
         else
           (case reserve_frame_slot (ag_outbound (dr_agent drv)) of
              (Inl e, ob) \<Rightarrow> (Inl e, set_outbound ob drv)
            | (Inr False, ob) \<Rightarrow> (Inr (), set_outbound ob drv)
            | (Inr True, ob) \<Rightarrow>
                let drv = set_outbound ob drv; e = ag_encoder (dr_agent drv) in
                (case so_next_frame so (st_handle s) (capture_intent enc codec s e) (dr_source drv) of
                   (None, src) \<Rightarrow> (Inr (), drv\<lparr>dr_source := src\<rparr>)
                 | (Some frame, src) \<Rightarrow>
                     let captured_us = elapsed_us (clock (dr_reads drv));
                         s = (if st_capture_diag_logged s < CAPTURE_DIAGNOSTIC_FRAME_LIMIT
                              then s\<lparr>st_capture_diag_logged := st_capture_diag_logged s + 1\<rparr> else s)
                     in (case encode_frame enc clock codec s frame captured_us e (Suc (dr_reads drv)) of
                           (p, s, e, k) \<Rightarrow>
                             let drv = set_stream i s (set_encoder e (drv\<lparr>dr_source := src, dr_reads := k\<rparr>)) in
                             (case p of
                                None \<Rightarrow> (Inr (), drv)
                              | Some p \<Rightarrow> queue_frame i s captured_us p drv)))))"

fun pump_ids :: "'e FrameEncoder \<Rightarrow> 's WindowSource \<Rightarrow> (nat \<Rightarrow> nat) \<Rightarrow> u8 \<Rightarrow> u32 list \<Rightarrow> ('e, 's) driver \<Rightarrow>
    (failure + unit) \<times> ('e, 's) driver" where
  "pump_ids enc so clock codec [] drv = (Inr (), drv)"
| "pump_ids enc so clock codec (i # ids) drv =
    (case pump_window enc so clock codec i drv of
       (Inl e, drv1) \<Rightarrow> (Inl e, drv1)
     | (Inr _, drv1) \<Rightarrow> pump_ids enc so clock codec ids drv1)"

definition pump_frames :: "'e FrameEncoder \<Rightarrow> 's WindowSource \<Rightarrow> (nat \<Rightarrow> nat) \<Rightarrow> u8 \<Rightarrow> ('e, 's) driver \<Rightarrow>
    (failure + unit) \<times> ('e, 's) driver" where
  "pump_frames enc so clock codec drv =
     pump_ids enc so clock codec (sort (map fst (ag_streams (dr_agent drv)))) drv"

section \<open>What one window's turn does\<close>

lemma set_stream_simps [simp]:
  "ag_streams (dr_agent (set_stream i s drv)) = AList.update i s (ag_streams (dr_agent drv))"
  "ag_registry (dr_agent (set_stream i s drv)) = ag_registry (dr_agent drv)"
  "ag_outbound (dr_agent (set_stream i s drv)) = ag_outbound (dr_agent drv)"
  "ag_encoder (dr_agent (set_stream i s drv)) = ag_encoder (dr_agent drv)"
  by (simp_all add: set_stream_def)

lemma set_outbound_simps [simp]:
  "ag_streams (dr_agent (set_outbound ob drv)) = ag_streams (dr_agent drv)"
  "ag_registry (dr_agent (set_outbound ob drv)) = ag_registry (dr_agent drv)"
  "ag_outbound (dr_agent (set_outbound ob drv)) = ob"
  "ag_encoder (dr_agent (set_outbound ob drv)) = ag_encoder (dr_agent drv)"
  by (simp_all add: set_outbound_def)

lemma set_encoder_simps [simp]:
  "ag_streams (dr_agent (set_encoder e drv)) = ag_streams (dr_agent drv)"
  "ag_registry (dr_agent (set_encoder e drv)) = ag_registry (dr_agent drv)"
  "ag_outbound (dr_agent (set_encoder e drv)) = ag_outbound (dr_agent drv)"
  "ag_encoder (dr_agent (set_encoder e drv)) = e"
  by (simp_all add: set_encoder_def)

abbreviation streams_of :: "('e, 's) driver \<Rightarrow> u32 \<Rightarrow> WindowStream option" where
  "streams_of drv \<equiv> map_of (ag_streams (dr_agent drv))"

abbreviation sent_by :: "('e, 's) driver \<Rightarrow> OutboundChunk list" where
  "sent_by drv \<equiv> all_queued (ag_outbound (dr_agent drv))"

text \<open>Frames change a stream's budget, its keyframe request and its log counters, nothing else.\<close>

definition same_window :: "WindowStream \<Rightarrow> WindowStream \<Rightarrow> bool" where
  "same_window s s' \<longleftrightarrow> st_handle s' = st_handle s \<and> st_video_channel s' = st_video_channel s \<and>
     st_geometry s' = st_geometry s \<and> st_title s' = st_title s \<and> st_show_state s' = st_show_state s \<and> st_flags s' = st_flags s"

lemma same_window_refl [simp]: "same_window s s"
  by (simp add: same_window_def)

lemma same_window_trans: "same_window s s' \<Longrightarrow> same_window s' s'' \<Longrightarrow> same_window s s''"
  by (simp add: same_window_def)

definition counted_capture :: "WindowStream \<Rightarrow> WindowStream" where
  "counted_capture s = (if st_capture_diag_logged s < CAPTURE_DIAGNOSTIC_FRAME_LIMIT
     then s\<lparr>st_capture_diag_logged := st_capture_diag_logged s + 1\<rparr> else s)"

lemma counted_capture_same:
  "same_window s (counted_capture s)" "st_budget (counted_capture s) = st_budget s"
  "st_needs_keyframe (counted_capture s) = st_needs_keyframe s" "st_handle (counted_capture s) = st_handle s"
  by (simp_all add: counted_capture_def same_window_def)

lemma reserve_queued: "reserve_frame_slot ob = (res, ob') \<Longrightarrow> all_queued ob' = all_queued ob"
  by (auto simp: reserve_frame_slot_def dest: queued_reserve split: prod.splits sum.splits try_send_error.splits)

lemma pump_window_elim:
  assumes "pump_window enc so clock codec i drv = (Inr u, drv')"
  obtains (idle) "streams_of drv' = streams_of drv" "sent_by drv' = sent_by drv"
      "ag_registry (dr_agent drv') = ag_registry (dr_agent drv)" "ag_encoder (dr_agent drv') = ag_encoder (dr_agent drv)"
    | (held) s frame captured_us k s' e' k' where
        "streams_of drv i = Some s" "st_show_state s \<noteq> SHOW_MINIMIZED"
        "encode_frame enc clock codec (counted_capture s) frame captured_us (ag_encoder (dr_agent drv)) k = (None, s', e', k')"
        "streams_of drv' = (streams_of drv)(i \<mapsto> s')" "sent_by drv' = sent_by drv"
        "ag_registry (dr_agent drv') = ag_registry (dr_agent drv)" "ag_encoder (dr_agent drv') = e'"
    | (sent) s frame captured_us k p s' e' k' drv1 where
        "streams_of drv i = Some s" "st_show_state s \<noteq> SHOW_MINIMIZED"
        "encode_frame enc clock codec (counted_capture s) frame captured_us (ag_encoder (dr_agent drv)) k = (Some p, s', e', k')"
        "streams_of drv1 = (streams_of drv)(i \<mapsto> s')" "sent_by drv1 = sent_by drv"
        "ag_registry (dr_agent drv1) = ag_registry (dr_agent drv)" "ag_encoder (dr_agent drv1) = e'"
        "queue_frame i s' captured_us p drv1 = (Inr u, drv')"
proof (cases "streams_of drv i")
  case None
  with assms show thesis by (intro idle) (simp_all add: pump_window_def)
next
  case (Some s)
  show thesis
  proof (cases "st_show_state s = SHOW_MINIMIZED")
    case True
    with Some assms show thesis by (intro idle) (simp_all add: pump_window_def)
  next
    case False
    obtain res ob where r: "reserve_frame_slot (ag_outbound (dr_agent drv)) = (res, ob)" by fastforce
    note q = reserve_queued [OF r]
    let ?so = "so_next_frame so (st_handle s) (capture_intent enc codec s (ag_encoder (dr_agent drv))) (dr_source (set_outbound ob drv))"
    consider "res = Inr False" | src where "res = Inr True" "?so = (None, src)"
      | frame src where "res = Inr True" "?so = (Some frame, src)"
      using assms Some False r by (cases res; cases ?so) (auto simp: pump_window_def split: sum.splits bool.splits)
    then show thesis
    proof cases
      case 1
      with Some False r q assms show thesis by (intro idle) (auto simp: pump_window_def)
    next
      case 2
      with Some False r q assms show thesis by (intro idle) (auto simp: pump_window_def)
    next
      case 3
      let ?cap = "elapsed_us (clock (dr_reads drv))"
      have reads: "dr_reads (set_outbound ob drv) = dr_reads drv" by (simp add: set_outbound_def)
      obtain p s' e' k' where e: "encode_frame enc clock codec (counted_capture s) frame ?cap (ag_encoder (dr_agent drv)) (Suc (dr_reads drv)) = (p, s', e', k')"
        by (metis prod_cases4)
      let ?drv = "set_stream i s' (set_encoder e' ((set_outbound ob drv)\<lparr>dr_source := src, dr_reads := k'\<rparr>))"
      have run: "pump_window enc so clock codec i drv = (case p of None \<Rightarrow> (Inr (), ?drv) | Some p \<Rightarrow> queue_frame i s' ?cap p ?drv)"
        using Some False r 3 e by (simp add: pump_window_def Let_def reads counted_capture_def)
      have drv: "streams_of ?drv = (streams_of drv)(i \<mapsto> s')" "sent_by ?drv = sent_by drv"
        "ag_registry (dr_agent ?drv) = ag_registry (dr_agent drv)" "ag_encoder (dr_agent ?drv) = e'"
        using q by (simp_all add: AList.update_conv' set_stream_def set_encoder_def set_outbound_def)
      show thesis
      proof (cases p)
        case None
        with assms run have "drv' = ?drv" by simp
        with held [OF Some False e [unfolded None]] drv show thesis by simp
      next
        case (Some q)
        with assms run have "queue_frame i s' ?cap q ?drv = (Inr u, drv')" by simp
        from sent [OF \<open>streams_of drv i = _\<close> False e [unfolded Some] drv this] show thesis .
      qed
    qed
  qed
qed

lemma blob_written_self: "write_blob b ctx c = Inr c' \<Longrightarrow> length b < 2 ^ 32"
  by (auto simp: write_blob_def efail_def not_le split: if_splits)

lemma blob_written: "eseq es c = Inr c' \<Longrightarrow> write_blob b ctx \<in> set es \<Longrightarrow> length b < 2 ^ 32"
  by (induction es arbitrary: c) (auto simp: eseq.simps split: sum.splits dest: blob_written_self)

lemma frame_written: "encode_body (FrameData m) = Inr b \<Longrightarrow> valid_msg (FrameData m)"
  by (auto simp: encode_vec_def encode_FrameData_def valid_FrameData_def blob_ok_def split: sum.splits
      dest!: blob_written [where ctx = "''FrameData.data''" and b = "fd_data m"])

text \<open>The frame a payload becomes.\<close>

definition frame_message :: "u32 \<Rightarrow> u64 \<Rightarrow> u64 \<Rightarrow> payload \<Rightarrow> FrameData" where
  "frame_message i frame_id captured_us p =
    (case p of (codec, flags, width, height, data, encoded_us) \<Rightarrow>
       \<lparr>fd_window_id = i, fd_frame_id = frame_id, fd_codec = codec, fd_flags = flags, fd_width = width, fd_height = height,
        fd_captured_us = captured_us, fd_encoded_us = encoded_us, fd_data = data\<rparr>)"

lemma queue_frame_sent:
  assumes "queue_frame i s captured_us p drv = (Inr u, drv')"
  obtains c s' where "sent_by drv' = sent_by drv @ [c]" "oc_channel c = st_video_channel s"
    "chunk_message c = Some (FrameData (frame_message i (fst (on_captured (st_budget s))) captured_us p))"
    "streams_of drv' = (streams_of drv)(i \<mapsto> s')" "same_window s s'" "st_budget s' = snd (on_captured (st_budget s))"
    "st_needs_keyframe s' = st_needs_keyframe s" "ag_registry (dr_agent drv') = ag_registry (dr_agent drv)"
    "ag_encoder (dr_agent drv') = ag_encoder (dr_agent drv)"
proof -
  obtain frame_id budget where cap: "on_captured (st_budget s) = (frame_id, budget)" by fastforce
  let ?f = "frame_message i frame_id captured_us p"
  define diag where "diag = (if st_transport_diag_logged s < TRANSPORT_DIAGNOSTIC_FRAME_LIMIT then Some (i, frame_id) else None)"
  define s2 where "s2 = (if diag \<noteq> None then s\<lparr>st_budget := budget, st_transport_diag_logged := st_transport_diag_logged s + 1\<rparr>
    else s\<lparr>st_budget := budget\<rparr>)"
  obtain body where body: "encode_body (FrameData ?f) = Inr body"
    using assms cap by (cases "encode_body (FrameData ?f)") (auto simp: queue_frame_def frame_message_def split: prod.splits)
  let ?c = "\<lparr>oc_msg_type = MT_FRAME_DATA, oc_channel = st_video_channel s2, oc_body = body, oc_diag = diag\<rparr>"
  have drv': "drv' = set_outbound (permit_send ?c (ag_outbound (dr_agent drv))) (set_stream i s2 drv)"
    using assms cap body by (auto simp: queue_frame_def frame_message_def Let_def diag_def s2_def split: prod.splits)
  have s2: "same_window s s2" "st_budget s2 = budget" "st_needs_keyframe s2 = st_needs_keyframe s" "st_video_channel s2 = st_video_channel s"
    by (simp_all add: s2_def same_window_def)
  have valid: "valid_msg (FrameData ?f)" by (rule frame_written [OF body])
  then have "body = img_msg (FrameData ?f)" using encode_body_img [of "FrameData ?f"] body by simp
  with valid have msg: "chunk_message ?c = Some (FrameData ?f)" by (intro chunk_message_of) simp_all
  show thesis
    by (rule that [of ?c s2]) (use msg s2 in \<open>simp_all add: drv' cap AList.update_conv'\<close>)
qed

lemma encode_frame_cases:
  assumes "encode_frame enc clock codec s frame captured_us e k = (p, s', e', k')"
  shows "same_window s s'" and "st_budget s' = st_budget s"
    and "\<not> st_needs_keyframe s' \<Longrightarrow> \<not> st_needs_keyframe s \<or> (\<exists>w h d t. p = Some (CODEC_H264, KEYFRAME, w, h, d, t))"
    and "p = Some (codec', flags, w, h, d, t) \<Longrightarrow> codec' = RAW_BGRA \<Longrightarrow> d \<noteq> []"
  using assms
  by (auto simp: encode_frame_def Let_def same_window_def CODEC_H264_def RAW_BGRA_def split: if_splits prod.splits option.splits)


section \<open>What a tick sends\<close>

text \<open>
  From one state to the next some chunks were queued, which are frames: each for a window that is
  not minimized, on that window's channel, with the next ids of its budget, and uncoded pixels only
  when there are any. A window that no longer asks for a keyframe has been sent one.
\<close>

definition frames_for :: "u32 \<Rightarrow> FrameData list \<Rightarrow> FrameData list" where
  "frames_for i fs = filter (\<lambda>f. fd_window_id f = i) fs"

definition frame_ids :: "u64 \<Rightarrow> nat \<Rightarrow> u64 list" where
  "frame_ids start n = map (\<lambda>j. start + of_nat j) [0..<n]"

definition frame_fits :: "(u32 \<Rightarrow> WindowStream option) \<Rightarrow> OutboundChunk \<Rightarrow> FrameData \<Rightarrow> bool" where
  "frame_fits streams c f \<longleftrightarrow> chunk_message c = Some (FrameData f) \<and> (fd_codec f = RAW_BGRA \<longrightarrow> fd_data f \<noteq> []) \<and>
     (\<exists>s. streams (fd_window_id f) = Some s \<and> st_show_state s \<noteq> SHOW_MINIMIZED \<and> oc_channel c = st_video_channel s)"

definition stream_pumped :: "u32 \<Rightarrow> FrameData list \<Rightarrow> WindowStream \<Rightarrow> WindowStream \<Rightarrow> bool" where
  "stream_pumped i fs s s' \<longleftrightarrow> same_window s s' \<and>
     (st_needs_keyframe s' \<or> \<not> st_needs_keyframe s \<or> (\<exists>f \<in> set (frames_for i fs). fd_codec f = CODEC_H264 \<and> is_keyframe f)) \<and>
     next_frame_id (st_budget s') = next_frame_id (st_budget s) + of_nat (length (frames_for i fs)) \<and>
     map fd_frame_id (frames_for i fs) = frame_ids (next_frame_id (st_budget s)) (length (frames_for i fs))"

definition pumped :: "('e, 's) driver \<Rightarrow> OutboundChunk list \<Rightarrow> FrameData list \<Rightarrow> ('e, 's) driver \<Rightarrow> bool" where
  "pumped drv chunks fs drv' \<longleftrightarrow> sent_by drv' = sent_by drv @ chunks \<and>
     ag_registry (dr_agent drv') = ag_registry (dr_agent drv) \<and>
     list_all2 (frame_fits (streams_of drv)) chunks fs \<and>
     (\<forall>i. rel_option (stream_pumped i fs) (streams_of drv i) (streams_of drv' i))"

lemma frame_ids_add: "frame_ids start (m + n) = frame_ids start m @ frame_ids (start + of_nat m) n"
  by (induction n) (simp_all add: frame_ids_def add.assoc)

lemma stream_pumped_refl: "stream_pumped i [] s s"
  by (simp add: stream_pumped_def frames_for_def frame_ids_def)

lemma frames_for_append [simp]: "frames_for i (fs @ fs') = frames_for i fs @ frames_for i fs'"
  by (simp add: frames_for_def)

lemma stream_pumped_trans:
  assumes 1: "stream_pumped i fs s s'" and 2: "stream_pumped i fs' s' s''"
  shows "stream_pumped i (fs @ fs') s s''"
proof -
  have "same_window s s''" using 1 2 same_window_trans by (auto simp: stream_pumped_def)
  moreover have "st_needs_keyframe s'' \<or> \<not> st_needs_keyframe s \<or>
      (\<exists>f \<in> set (frames_for i (fs @ fs')). fd_codec f = CODEC_H264 \<and> is_keyframe f)"
    using 1 2 unfolding stream_pumped_def by auto
  ultimately show ?thesis using 1 2 by (simp add: stream_pumped_def frame_ids_add)
qed

lemma pumped_refl: "pumped drv [] [] drv"
  by (simp add: pumped_def stream_pumped_refl option.rel_refl)

lemma pumped_trans:
  assumes 1: "pumped drv cs fs drv1" and 2: "pumped drv1 cs' fs' drv2"
  shows "pumped drv (cs @ cs') (fs @ fs') drv2"
proof -
  have rel1: "rel_option (stream_pumped i fs) (streams_of drv i) (streams_of drv1 i)"
    and rel2: "rel_option (stream_pumped i fs') (streams_of drv1 i) (streams_of drv2 i)" for i
    using 1 2 by (simp_all add: pumped_def)
  have "rel_option (stream_pumped i (fs @ fs')) (streams_of drv i) (streams_of drv2 i)" for i
    using rel1 [of i] rel2 [of i] by (cases "streams_of drv i"; cases "streams_of drv1 i"; cases "streams_of drv2 i")
      (auto intro: stream_pumped_trans)
  moreover have "frame_fits (streams_of drv) c f" if "frame_fits (streams_of drv1) c f" for c f
    using that rel1 [of "fd_window_id f"]
    by (auto simp: frame_fits_def stream_pumped_def same_window_def option_rel_Some2)
  then have "list_all2 (frame_fits (streams_of drv)) cs' fs'"
    using 2 by (auto simp: pumped_def elim: list_all2_mono)
  ultimately show ?thesis using 1 2 by (auto simp: pumped_def intro: list_all2_appendI)
qed

lemma pumped_same_queue:
  assumes "sent_by drv' = sent_by drv" and "ag_registry (dr_agent drv') = ag_registry (dr_agent drv)"
    and "streams_of drv' = (streams_of drv)(i \<mapsto> s')" and "streams_of drv i = Some s" and "stream_pumped i [] s s'"
  shows "pumped drv [] [] drv'"
  using assms by (simp add: pumped_def stream_pumped_refl option.rel_refl)

lemma encoded_stream:
  assumes "encode_frame enc clock codec (counted_capture s) frame captured_us e k = (p, s', e', k')"
  shows "same_window s s'" and "st_budget s' = st_budget s"
    and "\<not> st_needs_keyframe s' \<Longrightarrow> \<not> st_needs_keyframe s \<or> (\<exists>w h d t. p = Some (CODEC_H264, KEYFRAME, w, h, d, t))"
  using encode_frame_cases [OF assms] counted_capture_same [of s] by (auto intro: same_window_trans)

lemma held_pumped:
  assumes "streams_of drv i = Some s"
    and enc: "encode_frame enc clock codec (counted_capture s) frame captured_us e k = (None, s', e', k')"
    and "streams_of drv' = (streams_of drv)(i \<mapsto> s')" "sent_by drv' = sent_by drv"
      "ag_registry (dr_agent drv') = ag_registry (dr_agent drv)"
  shows "pumped drv [] [] drv'"
proof (rule pumped_same_queue [OF assms(4,5,3,1)])
  show "stream_pumped i [] s s'"
    using encoded_stream [OF enc] by (auto simp: stream_pumped_def frames_for_def frame_ids_def)
qed

lemma sent_pumped:
  assumes s: "streams_of drv i = Some s" "st_show_state s \<noteq> SHOW_MINIMIZED"
    and enc: "encode_frame enc clock codec (counted_capture s) frame captured_us e k = (Some p, s', e', k')"
    and drv1: "streams_of drv1 = (streams_of drv)(i \<mapsto> s')" "sent_by drv1 = sent_by drv"
      "ag_registry (dr_agent drv1) = ag_registry (dr_agent drv)"
    and queue: "queue_frame i s' captured_us p drv1 = (Inr u, drv')"
  obtains c where "pumped drv [c] [frame_message i (next_frame_id (st_budget s)) captured_us p] drv'"
    "ag_encoder (dr_agent drv') = ag_encoder (dr_agent drv1)"
proof -
  note e = encoded_stream [OF enc]
  have id: "fst (on_captured (st_budget s')) = next_frame_id (st_budget s)"
    "next_frame_id (snd (on_captured (st_budget s'))) = next_frame_id (st_budget s) + 1"
    by (simp_all add: e(2) on_captured_def Let_def)
  let ?f = "frame_message i (next_frame_id (st_budget s)) captured_us p"
  obtain c s2 where q: "sent_by drv' = sent_by drv1 @ [c]" "oc_channel c = st_video_channel s'"
    "chunk_message c = Some (FrameData (frame_message i (fst (on_captured (st_budget s'))) captured_us p))"
    "streams_of drv' = (streams_of drv1)(i \<mapsto> s2)" "same_window s' s2" "st_budget s2 = snd (on_captured (st_budget s'))"
    "st_needs_keyframe s2 = st_needs_keyframe s'" "ag_registry (dr_agent drv') = ag_registry (dr_agent drv1)"
    "ag_encoder (dr_agent drv') = ag_encoder (dr_agent drv1)"
    by (rule queue_frame_sent [OF queue])
  have c: "sent_by drv' = sent_by drv @ [c]" "oc_channel c = st_video_channel s"
    "chunk_message c = Some (FrameData ?f)" "streams_of drv' = (streams_of drv)(i \<mapsto> s2)" "same_window s s2"
    "st_budget s2 = snd (on_captured (st_budget s'))" "st_needs_keyframe s2 = st_needs_keyframe s'"
    "ag_registry (dr_agent drv') = ag_registry (dr_agent drv)" "ag_encoder (dr_agent drv') = ag_encoder (dr_agent drv1)"
    using q drv1 e(1) id(1) same_window_trans [OF e(1) q(5)] by (simp_all add: same_window_def)
  obtain codec' flags w h d t where p: "p = (codec', flags, w, h, d, t)" by (metis prod_cases6)
  have f: "fd_window_id ?f = i" "fd_frame_id ?f = next_frame_id (st_budget s)" "fd_codec ?f = codec'" "fd_flags ?f = flags" "fd_data ?f = d"
    by (simp_all add: frame_message_def p)
  have "codec' = RAW_BGRA \<Longrightarrow> d \<noteq> []" using encode_frame_cases(4) [OF enc] p by blast
  then have fits: "frame_fits (streams_of drv) c ?f" using s c(2,3) f by (simp add: frame_fits_def)
  have "st_needs_keyframe s' \<or> \<not> st_needs_keyframe s \<or> (codec' = CODEC_H264 \<and> is_keyframe ?f)"
    using e(3) f(4) p by (auto simp: is_keyframe_def KEYFRAME_def)
  then have st: "stream_pumped i [?f] s s2" using c(5,7) f id
    by (auto simp: stream_pumped_def frames_for_def frame_ids_def c(6))
  have other: "stream_pumped j [?f] v v" if "j \<noteq> i" for j v
    using that f by (simp add: stream_pumped_def frames_for_def frame_ids_def)
  have rel: "rel_option (stream_pumped j [?f]) (streams_of drv j) (streams_of drv' j)" for j
    using st other s(1) c(4) by (cases "j = i"; cases "streams_of drv j") auto
  show thesis by (rule that [of c]) (use c(1,8,9) fits rel in \<open>simp_all add: pumped_def\<close>)
qed

lemma pump_window_pumped:
  assumes "pump_window enc so clock codec i drv = (Inr u, drv')"
  shows "\<exists>cs fs. pumped drv cs fs drv'"
  using assms
proof (cases rule: pump_window_elim)
  case idle
  then have "pumped drv [] [] drv'" by (simp add: pumped_def stream_pumped_refl option.rel_refl)
  then show ?thesis by blast
next
  case (held s frame captured_us k s' e' k')
  from held_pumped [OF held(1,3,4,5,6)] show ?thesis by blast
next
  case (sent s frame captured_us k p s' e' k' drv1)
  from sent_pumped [OF sent(1-6,8)] show ?thesis by metis
qed

lemma pump_ids_pumped:
  "pump_ids enc so clock codec ids drv = (Inr u, drv') \<Longrightarrow> \<exists>cs fs. pumped drv cs fs drv'"
proof (induction ids arbitrary: drv)
  case (Cons i ids)
  then obtain v drv1 where 1: "pump_window enc so clock codec i drv = (Inr v, drv1)" and 2: "pump_ids enc so clock codec ids drv1 = (Inr u, drv')"
    by (auto split: prod.splits sum.splits)
  from pump_window_pumped [OF 1] Cons.IH [OF 2] show ?case by (metis pumped_trans)
qed (use pumped_refl in auto)

section \<open>Nothing encoded is lost\<close>

text \<open>
  An encoder whose state tells which access units it has handed out, with the windows they were
  polled for. The session driver is the only one to poll it.
\<close>

definition carries :: "(u32 \<Rightarrow> WindowStream option) \<Rightarrow> FrameData \<Rightarrow> handle \<times> EncodedFrame \<Rightarrow> bool" where
  "carries streams f hx \<longleftrightarrow> (\<exists>s. streams (fd_window_id f) = Some s \<and> st_handle s = fst hx) \<and> fd_data f = ef_data (snd hx) \<and>
     fd_width f = ef_width (snd hx) \<and> fd_height f = ef_height (snd hx) \<and> (is_keyframe f \<longleftrightarrow> ef_keyframe (snd hx))"

abbreviation coded :: "FrameData list \<Rightarrow> FrameData list" where
  "coded \<equiv> filter (\<lambda>f. fd_codec f = CODEC_H264)"

locale encoder_log =
  fixes enc :: "'e FrameEncoder" and out :: "'e \<Rightarrow> (handle \<times> EncodedFrame) list"
  assumes out_submit: "out (fe_submit enc h frame force e) = out e"
    and out_poll_None: "fe_poll enc h e = (None, e') \<Longrightarrow> out e' = out e"
    and out_poll_Some: "fe_poll enc h e = (Some x, e') \<Longrightarrow> out e' = out e @ [(h, x)]"
begin

lemma encode_frame_out:
  assumes "encode_frame enc clock codec s frame captured_us e k = (p, s', e', k')"
  shows "(case p of Some (codec', flags, w, h, d, t) \<Rightarrow>
      if codec' = CODEC_H264 then \<exists>x. out e' = out e @ [(st_handle s, x)] \<and> d = ef_data x \<and> w = ef_width x \<and> h = ef_height x \<and>
        (flags AND KEYFRAME \<noteq> 0 \<longleftrightarrow> ef_keyframe x)
      else out e' = out e
    | None \<Rightarrow> out e' = out e)"
  using assms
  by (auto simp: encode_frame_def Let_def out_submit out_poll_None out_poll_Some CODEC_H264_def RAW_BGRA_def KEYFRAME_def
      split: if_splits prod.splits option.splits dest!: out_poll_None out_poll_Some)

lemma pump_window_out:
  assumes "pump_window enc so clock codec i drv = (Inr u, drv')"
  shows "\<exists>cs fs log. pumped drv cs fs drv' \<and> out (ag_encoder (dr_agent drv')) = out (ag_encoder (dr_agent drv)) @ log \<and>
    list_all2 (carries (streams_of drv)) (coded fs) log"
  using assms
proof (cases rule: pump_window_elim)
  case idle
  then have "pumped drv [] [] drv'" by (simp add: pumped_def stream_pumped_refl option.rel_refl)
  with idle show ?thesis by (intro exI [of _ "[]"]) simp
next
  case (held s frame captured_us k s' e' k')
  with held_pumped [OF held(1,3,4,5,6)] encode_frame_out [OF held(3)] show ?thesis
    by (intro exI [of _ "[]"]) simp
next
  case (sent s frame captured_us k p s' e' k' drv1)
  obtain codec' flags w h d t where p: "p = (codec', flags, w, h, d, t)" by (metis prod_cases6)
  let ?f = "frame_message i (next_frame_id (st_budget s)) captured_us p"
  obtain c where c: "pumped drv [c] [?f] drv'" "ag_encoder (dr_agent drv') = e'"
  proof (rule sent_pumped [OF sent(1-6,8)])
    fix c
    assume "pumped drv [c] [?f] drv'" "ag_encoder (dr_agent drv') = ag_encoder (dr_agent drv1)"
    with sent(7) show thesis by (intro that) simp_all
  qed
  show ?thesis
  proof (cases "codec' = CODEC_H264")
    case True
    with encode_frame_out [OF sent(3)] obtain x where x: "out e' = out (ag_encoder (dr_agent drv)) @ [(st_handle s, x)]"
      "d = ef_data x" "w = ef_width x" "h = ef_height x" "flags AND KEYFRAME \<noteq> 0 \<longleftrightarrow> ef_keyframe x"
      by (auto simp: p counted_capture_same)
    then have "list_all2 (carries (streams_of drv)) (coded [?f]) [(st_handle s, x)]"
      using True sent(1) by (simp add: carries_def frame_message_def p is_keyframe_def)
    with c x(1) show ?thesis by (intro exI [of _ "[c]"] exI [of _ "[?f]"] exI [of _ "[(st_handle s, x)]"]) simp
  next
    case False
    with encode_frame_out [OF sent(3)] have "out e' = out (ag_encoder (dr_agent drv))" by (simp add: p)
    with c False show ?thesis by (intro exI [of _ "[c]"] exI [of _ "[?f]"] exI [of _ "[]"]) (simp add: frame_message_def p)
  qed
qed

lemma carries_pumped: "pumped drv cs fs drv1 \<Longrightarrow> carries (streams_of drv1) f hx \<Longrightarrow> carries (streams_of drv) f hx"
proof -
  assume "pumped drv cs fs drv1" and c: "carries (streams_of drv1) f hx"
  then have "rel_option (stream_pumped (fd_window_id f) fs) (streams_of drv (fd_window_id f)) (streams_of drv1 (fd_window_id f))"
    by (simp add: pumped_def)
  with c show ?thesis by (auto simp: carries_def option_rel_Some2 stream_pumped_def same_window_def)
qed

lemma pump_ids_out:
  "pump_ids enc so clock codec ids drv = (Inr u, drv') \<Longrightarrow>
   \<exists>cs fs log. pumped drv cs fs drv' \<and> out (ag_encoder (dr_agent drv')) = out (ag_encoder (dr_agent drv)) @ log \<and>
     list_all2 (carries (streams_of drv)) (coded fs) log"
proof (induction ids arbitrary: drv)
  case (Cons i ids)
  then obtain v drv1 where 1: "pump_window enc so clock codec i drv = (Inr v, drv1)" and 2: "pump_ids enc so clock codec ids drv1 = (Inr u, drv')"
    by (auto split: prod.splits sum.splits)
  from pump_window_out [OF 1] obtain cs fs log where a: "pumped drv cs fs drv1"
    "out (ag_encoder (dr_agent drv1)) = out (ag_encoder (dr_agent drv)) @ log" "list_all2 (carries (streams_of drv)) (coded fs) log" by blast
  from Cons.IH [OF 2] obtain cs' fs' log' where b: "pumped drv1 cs' fs' drv'"
    "out (ag_encoder (dr_agent drv')) = out (ag_encoder (dr_agent drv1)) @ log'" "list_all2 (carries (streams_of drv1)) (coded fs') log'" by blast
  have "list_all2 (carries (streams_of drv)) (coded fs') log'"
    by (rule list_all2_mono [OF b(3)]) (rule carries_pumped [OF a(1)])
  with a(3) have "list_all2 (carries (streams_of drv)) (coded (fs @ fs')) (log @ log')" by (simp add: list_all2_appendI)
  with pumped_trans [OF a(1) b(1)] a(2) b(2) show ?case
    by (intro exI [of _ "cs @ cs'"] exI [of _ "fs @ fs'"] exI [of _ "log @ log'"]) simp
next
  case Nil
  then show ?case using pumped_refl by (intro exI [of _ "[]"]) simp
qed

end

text \<open>Any encoder can be observed: its operations unchanged, with a list of what it handed out.\<close>

definition logging :: "'e FrameEncoder \<Rightarrow> ('e \<times> (handle \<times> EncodedFrame) list) FrameEncoder" where
  "logging enc = \<lparr>
     fe_submit = (\<lambda>h frame force (e, out). (fe_submit enc h frame force e, out)),
     fe_poll = (\<lambda>h (e, out). case fe_poll enc h e of (None, e') \<Rightarrow> (None, (e', out)) | (Some x, e') \<Rightarrow> (Some x, (e', out @ [(h, x)]))),
     fe_forget = (\<lambda>h (e, out). (fe_forget enc h e, out)),
     fe_wants_cpu_frame = (\<lambda>h w ht (e, out). fe_wants_cpu_frame enc h w ht e),
     fe_failed = (\<lambda>h (e, out). fe_failed enc h e)\<rparr>"

interpretation logging: encoder_log "logging enc" snd for enc
  by unfold_locales (auto simp: logging_def split: prod.splits option.splits)

section \<open>Properties\<close>

text \<open>
  C28: An access unit that leaves the encoder is always sent. In a tick that does not end the session,
  whatever the encoder, the capture, the clock and the writer task do, the chunks the driver queues
  are frames of announced windows that are not minimized, each on its window's channel and never an
  empty picture; and the H.264 frames among them are, in order, exactly the access units polled from
  the encoder: same window, same bytes, same coded size, and flagged as a keyframe exactly when they
  are one. A full queue makes the driver skip the capture, never drop an encoded frame.
\<close>

theorem encoded_frames_all_sent:
  assumes "pump_frames (logging enc) so clock codec drv = (Inr (), drv')"
  shows "\<exists>cs fs log. all_queued (ag_outbound (dr_agent drv')) = all_queued (ag_outbound (dr_agent drv)) @ cs \<and>
    list_all2 (frame_fits (map_of (ag_streams (dr_agent drv)))) cs fs \<and>
    snd (ag_encoder (dr_agent drv')) = snd (ag_encoder (dr_agent drv)) @ log \<and>
    list_all2 (carries (map_of (ag_streams (dr_agent drv)))) (filter (\<lambda>f. fd_codec f = CODEC_H264) fs) log"
  using logging.pump_ids_out [OF assms [unfolded pump_frames_def]] unfolding pumped_def by blast

definition still_source :: "unit WindowSource" where
  "still_source = \<lparr>so_live_windows = (\<lambda>_. ([], ())), so_next_frame = (\<lambda>_ _ _. (Some \<lparr>sf_width = 2, sf_height = 2, sf_data = [], sf_gpu_frame = None\<rparr>, ()))\<rparr>"

definition idr_encoder :: "unit FrameEncoder" where
  "idr_encoder = \<lparr>fe_submit = (\<lambda>_ _ _ _. ()),
     fe_poll = (\<lambda>_ _. (Some \<lparr>ef_data = [0, 0, 1, 0x65], ef_keyframe = True, ef_width = 2, ef_height = 2\<rparr>, ())),
     fe_forget = (\<lambda>_ _. ()), fe_wants_cpu_frame = (\<lambda>_ _ _ _. False), fe_failed = (\<lambda>_ _. False)\<rparr>"

definition one_window_driver :: "(unit \<times> (handle \<times> EncodedFrame) list, unit) driver" where
  "one_window_driver = \<lparr>dr_agent = \<lparr>ag_registry = WindowRegistry_new,
     ag_streams = [(1, \<lparr>st_handle = 7, st_video_channel = 16, st_budget = FrameBudget_new 2, st_geometry = (0, 0, 2, 2), st_title = [],
       st_show_state = 0, st_flags = 0, st_needs_keyframe = True, st_capture_diag_logged = 0, st_transport_diag_logged = 0\<rparr>)],
     ag_outbound = outbound_new [], ag_encoder = ((), [])\<rparr>, dr_source = (), dr_reads = 0\<rparr>"

theorem encoded_frames_all_sent_witness:
  "\<exists>drv' cs fs log. pump_frames (logging idr_encoder) still_source (\<lambda>_. 0) CODEC_H264 one_window_driver = (Inr (), drv') \<and>
    snd (ag_encoder (dr_agent drv')) = log \<and> length log = 1 \<and>
    all_queued (ag_outbound (dr_agent drv')) = cs \<and>
    list_all2 (frame_fits (map_of (ag_streams (dr_agent one_window_driver)))) cs fs \<and>
    list_all2 (carries (map_of (ag_streams (dr_agent one_window_driver)))) (filter (\<lambda>f. fd_codec f = CODEC_H264) fs) log"
proof -
  let ?run = "pump_frames (logging idr_encoder) still_source (\<lambda>_. 0) CODEC_H264 one_window_driver"
  have "valid_msg (FrameData f)" if "length (fd_data f) = 4" for f
    using that by (simp add: valid_FrameData_def blob_ok_def)
  note body = encode_body_img [OF this]
  obtain drv' where run: "?run = (Inr (), drv')" and log: "length (snd (ag_encoder (dr_agent drv'))) = 1"
    by (simp add: pump_frames_def one_window_driver_def pump_window_def reserve_frame_slot_def try_reserve_def writer_runs_def
        outbound_new_def OUTBOUND_QUEUE_CAPACITY_def SHOW_MINIMIZED_def still_source_def logging_def idr_encoder_def
        encode_frame_def queue_frame_def on_captured_def FrameBudget_new_def Let_def body set_outbound_def set_stream_def set_encoder_def
        del: encode_body.simps)
  from encoded_frames_all_sent [OF run] have "\<exists>cs fs log. all_queued (ag_outbound (dr_agent drv')) = cs \<and>
      list_all2 (frame_fits (map_of (ag_streams (dr_agent one_window_driver)))) cs fs \<and>
      snd (ag_encoder (dr_agent drv')) = log \<and>
      list_all2 (carries (map_of (ag_streams (dr_agent one_window_driver)))) (filter (\<lambda>f. fd_codec f = CODEC_H264) fs) log"
    by (simp add: one_window_driver_def all_queued_def outbound_new_def)
  with run log show ?thesis by blast
qed

end
