(* ===== verification/Agent_Session.thy ===== *)
theory Agent_Session
  imports Agent_Frames Scancode
begin

text \<open>
  The agent's session (\<open>run_session\<close>, \<open>drive\<close> and \<open>write_outbound\<close> of \<open>oxagent/src/serve.rs\<close>, and
  \<open>oxagent/src/input.rs\<close>): the authentication and the single session slot, the loop that handles
  the client's messages and the ticks of the capture clock, and the task that writes the queue to
  the socket. Calls of the input sink are the output of the loop.
\<close>

section \<open>Input\<close>

datatype SinkCall =
    Pointer_event handle i32 i32 u8 i16 i16
  | Key_event u16 bool bool
  | Text_input rust_string
  | Modifier_sync u16 u8
  | Window_control handle u8 i32 i32 u16 u16

definition gate_unconfirmed_press :: "u8 \<Rightarrow> u8 \<Rightarrow> bool \<Rightarrow> u8" where
  "gate_unconfirmed_press buttons last_buttons focus_confirmed =
    (let newly_pressed = buttons AND NOT last_buttons in
     if newly_pressed \<noteq> 0 \<and> \<not> focus_confirmed then buttons AND NOT newly_pressed else buttons)"

definition key_is_pressed :: "KeyEvent \<Rightarrow> bool" where
  "key_is_pressed k \<longleftrightarrow> ke_flags k AND KEY_PRESSED \<noteq> 0"

section \<open>The driver\<close>

record session_setup =
  ss_text_input_enabled :: bool
  ss_window_control_enabled :: bool
  ss_codec :: u8
  ss_params :: SessionParams

definition setup_of :: "Negotiated \<Rightarrow> SessionParams \<Rightarrow> session_setup" where
  "setup_of n params = \<lparr>ss_text_input_enabled = (ng_features n AND TEXT_INPUT \<noteq> 0),
     ss_window_control_enabled = (ng_features n AND WINDOW_CONTROL \<noteq> 0), ss_codec = ng_codec n, ss_params = params\<rparr>"

datatype flow = Continue | Return "failure + unit"

text \<open>The arm of a received message; \<open>None\<close> is the end of the reader task.\<close>

fun incoming :: "session_setup \<Rightarrow> (nat \<Rightarrow> nat) \<Rightarrow> Message option \<Rightarrow> ('e, 's) driver \<Rightarrow> flow \<times> SinkCall list \<times> ('e, 's) driver" where
  "incoming su clock None drv = (Return (Inr ()), [], drv)"
| "incoming su clock (Some (FrameAck ack)) drv =
    (case map_of (ag_streams (dr_agent drv)) (fa_window_id ack) of
       None \<Rightarrow> (Continue, [], drv)
     | Some s \<Rightarrow> (Continue, [], set_stream (fa_window_id ack) (s\<lparr>st_budget := on_ack (fa_frame_id ack) (st_budget s)\<rparr>) drv))"
| "incoming su clock (Some (Close c)) drv = (Return (Inr ()), [], drv)"
| "incoming su clock (Some (Ping p)) drv =
    (case sv_send (Pong \<lparr>po_seq = pi_seq p, po_sent_us = pi_sent_us p, po_agent_us = elapsed_us (clock (dr_reads drv))\<rparr>) CH_CONTROL
        (ag_outbound (dr_agent drv)) of
       (res, ob) \<Rightarrow>
         let drv1 = (set_outbound ob drv)\<lparr>dr_reads := Suc (dr_reads drv)\<rparr> in
         (case res of Inl e \<Rightarrow> (Return (Inl e), [], drv1) | Inr _ \<Rightarrow> (Continue, [], drv1)))"
| "incoming su clock (Some (PointerEvent p)) drv =
    (case map_of (ag_streams (dr_agent drv)) (pe_window_id p) of
       Some s \<Rightarrow> (Continue, [Pointer_event (st_handle s) (pe_x p) (pe_y p) (pe_buttons p) (pe_wheel_x p) (pe_wheel_y p)], drv)
     | None \<Rightarrow> (Continue, [], drv))"
| "incoming su clock (Some (KeyEvent k)) drv =
    (Continue, [Key_event (ke_scancode k) (ke_flags k AND KEY_EXTENDED \<noteq> 0) (key_is_pressed k)], drv)"
| "incoming su clock (Some (TextInput t)) drv =
    (if ss_text_input_enabled su then (Continue, [Text_input (ti_text t)], drv) else (Continue, [], drv))"
| "incoming su clock (Some (ModifierSync m)) drv = (Continue, [Modifier_sync (ms_modifiers m) (ms_locks m)], drv)"
| "incoming su clock (Some (WindowControl w)) drv =
    (if \<not> ss_window_control_enabled su then (Continue, [], drv)
     else case map_of (ag_streams (dr_agent drv)) (wc_window_id w) of
       Some s \<Rightarrow> (Continue, [Window_control (st_handle s) (wc_action w) (wc_x w) (wc_y w) (wc_width w) (wc_height w)], drv)
     | None \<Rightarrow> (Continue, [], drv))"
| "incoming su clock (Some _) drv = (Continue, [], drv)"

text \<open>A tick of the capture clock: the window list first, then a frame per window.\<close>

definition tick :: "'e FrameEncoder \<Rightarrow> 's WindowSource \<Rightarrow> (nat \<Rightarrow> nat) \<Rightarrow> session_setup \<Rightarrow> ('e, 's) driver \<Rightarrow>
    (failure + unit) \<times> ('e, 's) driver" where
  "tick enc so clock su drv =
    (case so_live_windows so (dr_source drv) of
       (windows, src) \<Rightarrow>
         (case sync_windows (fe_forget enc) (ss_params su) windows (dr_agent drv) of
            (Inl e, a) \<Rightarrow> (Inl e, drv\<lparr>dr_agent := a, dr_source := src\<rparr>)
          | (Inr _, a) \<Rightarrow> pump_frames enc so clock (ss_codec su) (drv\<lparr>dr_agent := a, dr_source := src\<rparr>)))"

text \<open>
  The loop selects among a received message, the end of the writer task and the clock. The order in
  which they become ready is the environment's, so the loop is a function of the sequence of
  selected branches.
\<close>

datatype branch = Incoming "Message option" | Writer_ended "failure + unit" | Clock_tick

fun drive_step :: "'e FrameEncoder \<Rightarrow> 's WindowSource \<Rightarrow> (nat \<Rightarrow> nat) \<Rightarrow> session_setup \<Rightarrow> branch \<Rightarrow> ('e, 's) driver \<Rightarrow>
    flow \<times> SinkCall list \<times> ('e, 's) driver" where
  "drive_step enc so clock su (Incoming m) drv = incoming su clock m drv"
| "drive_step enc so clock su (Writer_ended res) drv = (Return res, [], drv)"
| "drive_step enc so clock su Clock_tick drv =
    (case tick enc so clock su drv of
       (Inl e, drv1) \<Rightarrow> (Return (Inl e), [], drv1)
     | (Inr _, drv1) \<Rightarrow> (Continue, [], drv1))"

fun drive :: "'e FrameEncoder \<Rightarrow> 's WindowSource \<Rightarrow> (nat \<Rightarrow> nat) \<Rightarrow> session_setup \<Rightarrow> branch list \<Rightarrow> ('e, 's) driver \<Rightarrow>
    flow \<times> SinkCall list \<times> ('e, 's) driver" where
  "drive enc so clock su [] drv = (Continue, [], drv)"
| "drive enc so clock su (b # bs) drv =
    (case drive_step enc so clock su b drv of
       (Return res, calls, drv1) \<Rightarrow> (Return res, calls, drv1)
     | (Continue, calls, drv1) \<Rightarrow>
         (case drive enc so clock su bs drv1 of (fl, calls', drv2) \<Rightarrow> (fl, calls @ calls', drv2)))"

definition driver_new :: "(nat \<times> bool) list \<Rightarrow> 'e \<Rightarrow> 's \<Rightarrow> ('e, 's) driver" where
  "driver_new script e src = \<lparr>dr_agent = agent_new script e, dr_source = src, dr_reads = 0\<rparr>"

section \<open>The writer task\<close>

text \<open>A sink that makes no progress any more leaves the task suspended.\<close>

fun write_outbound :: "chunk_writer \<Rightarrow> OutboundChunk list \<Rightarrow> sink \<Rightarrow> (io_error + unit) poll \<times> chunk_writer \<times> u8 list \<times> sink" where
  "write_outbound w [] snk = (Ready (Inr ()), w, [], snk)"
| "write_outbound w (c # cs) snk =
    (case queue_raw w (oc_msg_type c) (oc_channel c) (oc_body c) of
       (Inl e, w1) \<Rightarrow> (Ready (Inl e), w1, [], snk)
     | (Inr _, w1) \<Rightarrow>
         (case flush w1 snk of
            (Pending, w2, out, snk1) \<Rightarrow> (Pending, w2, out, snk1)
          | (Ready (Inl e), w2, out, snk1) \<Rightarrow> (Ready (Inl e), w2, out, snk1)
          | (Ready (Inr _), w2, out, snk1) \<Rightarrow>
              (case write_outbound w2 cs snk1 of (res, w3, out', snk2) \<Rightarrow> (res, w3, out @ out', snk2))))"

section \<open>Admission\<close>

definition ERR_SESSION_BUSY :: u16 where "ERR_SESSION_BUSY = 9"

text \<open>
  The start of \<open>run_session\<close>: the handshake under the deadline (a handshake that is still waiting
  when it passes is abandoned), then the slot. The slot is the semaphore's count; it is given back
  when the session ends.
\<close>

definition turn_away :: "sink \<Rightarrow> (HandshakeError + Negotiated) poll \<times> u8 list \<times> sink" where
  "turn_away snk =
    (case write_message (Error \<lparr>er_code = ERR_SESSION_BUSY, er_message = ascii ''a session is already active''\<rparr>) CH_CONTROL snk of
       (Pending, out, snk1) \<Rightarrow> (Pending, out, snk1)
     | (Ready _, out, snk1) \<Rightarrow>
         (case write_message (Close \<lparr>cl_reason = CLOSE_ERROR\<rparr>) CH_CONTROL snk1 of
            (Pending, out', snk2) \<Rightarrow> (Pending, out @ out', snk2)
          | (Ready _, out', snk2) \<Rightarrow> (Ready (Inl HsBusy), out @ out', snk2)))"

definition admit :: "source \<Rightarrow> sink \<Rightarrow> u64 \<Rightarrow> (rust_string \<Rightarrow> bool) \<Rightarrow> u8 list \<Rightarrow> nat \<Rightarrow>
    (HandshakeError + Negotiated) poll \<times> u8 list \<times> nat" where
  "admit src snk session_id verify_token supported_codecs slots =
    (case negotiate src snk Reassembler_new session_id supported_codecs verify_token of
       (Pending, out, src1, snk1, r1) \<Rightarrow> (Ready (Inl HsTimeout), out, slots)
     | (Ready (Inl e), out, src1, snk1, r1) \<Rightarrow> (Ready (Inl e), out, slots)
     | (Ready (Inr n), out, src1, snk1, r1) \<Rightarrow>
         (if slots = 0 then case turn_away snk1 of (res, out', snk2) \<Rightarrow> (res, out @ out', slots)
          else (Ready (Inr n), out, slots - 1)))"

section \<open>Agent and client stay in step\<close>

text \<open>
  What the platform promises: every title and application name is text (a Rust string), and no
  handle occurs twice in a window list.
\<close>

definition platform_ok :: "'s WindowSource \<Rightarrow> bool" where
  "platform_ok so \<longleftrightarrow> (\<forall>src. distinct (map sw_handle (fst (so_live_windows so src))) \<and>
     (\<forall>w \<in> set (fst (so_live_windows so src)). utf8_valid (sw_title w) \<and> utf8_valid (sw_app_id w)))"

lemma shown_as_same: "shown_as s v \<Longrightarrow> same_window s s' \<Longrightarrow> shown_as s' v"
  by (simp add: shown_as_def same_window_def)

lemma tracked_streams_same:
  assumes "tracked_streams reg streams" and "\<And>i. rel_option same_window (map_of streams i) (map_of streams' i)"
  shows "tracked_streams reg streams'"
proof -
  have fwd: "\<exists>s'. map_of streams' i = Some s' \<and> same_window s s'" if "map_of streams i = Some s" for i s
    using assms(2) [of i] that by (auto simp: option_rel_Some1)
  have bwd: "\<exists>s. map_of streams i = Some s \<and> same_window s s'" if "map_of streams' i = Some s'" for i s'
    using assms(2) [of i] that by (auto simp: option_rel_Some2)
  have "\<exists>s'. map_of streams' (tw_window_id tw) = Some s' \<and> st_handle s' = h \<and> st_video_channel s' = tw_video_channel tw"
    if tw: "tracked_by reg h = Some tw" for h tw
  proof -
    from assms(1) tw obtain s where "map_of streams (tw_window_id tw) = Some s" "st_handle s = h" "st_video_channel s = tw_video_channel tw"
      unfolding tracked_streams_def by blast
    with fwd show ?thesis unfolding same_window_def by metis
  qed
  moreover have "\<exists>tw. tracked_by reg (st_handle s') = Some tw \<and> tw_window_id tw = i" if "map_of streams' i = Some s'" for i s'
  proof -
    from bwd [OF that] obtain s where "map_of streams i = Some s" "st_handle s' = st_handle s" by (auto simp: same_window_def)
    with assms(1) show ?thesis unfolding tracked_streams_def by metis
  qed
  ultimately show ?thesis using assms(1) unfolding tracked_streams_def by blast
qed

lemma mirrored_same:
  assumes "mirrored streams d" and "\<And>i. rel_option same_window (map_of streams i) (map_of streams' i)"
  shows "mirrored streams' d"
proof -
  have "rel_option shown_as (map_of streams' i) (map_of (md_windows d) i)" for i
    using assms(2) [of i] assms(1)
    by (cases "map_of streams i"; cases "map_of streams' i"; cases "map_of (md_windows d) i")
      (auto simp: mirrored_def shown_as_same dest: spec [of _ i])
  with assms(1) show ?thesis by (simp add: mirrored_def)
qed

text \<open>A message that is not about the window list leaves the client's windows alone.\<close>

lemma in_sync_same:
  assumes "in_sync a" and "ag_registry a' = ag_registry a"
    and "\<And>i. rel_option same_window (map_of (ag_streams a) i) (map_of (ag_streams a') i)"
    and "client_after (all_queued (ag_outbound a')) = client_after (all_queued (ag_outbound a))"
  shows "in_sync a'"
  using assms tracked_streams_same [of _ "ag_streams a" "ag_streams a'"] mirrored_same [of "ag_streams a" _ "ag_streams a'"]
  by (simp add: in_sync_def)

lemma client_after_frames:
  "list_all2 (frame_fits streams) cs fs \<Longrightarrow> client_after (xs @ cs) = client_after xs"
proof (induction cs fs arbitrary: xs rule: list_all2_induct)
  case (Cons c cs f fs)
  then have "client_after (xs @ [c]) = client_after xs"
    unfolding client_after_snoc by (auto simp: frame_fits_def client_step_def)
  with Cons.IH [of "xs @ [c]"] show ?case by simp
qed simp

lemma pumped_in_sync:
  assumes "pumped drv cs fs drv'" and "in_sync (dr_agent drv)"
  shows "in_sync (dr_agent drv')"
proof (rule in_sync_same [OF assms(2)])
  show "rel_option same_window (streams_of drv i) (streams_of drv' i)" for i
    by (rule option.rel_mono_strong [of "stream_pumped i fs"]) (use assms(1) in \<open>auto simp: pumped_def stream_pumped_def\<close>)
  show "client_after (sent_by drv') = client_after (sent_by drv)"
    using assms(1) client_after_frames by (auto simp: pumped_def)
  show "ag_registry (dr_agent drv') = ag_registry (dr_agent drv)" using assms(1) by (simp add: pumped_def)
qed

lemma set_stream_in_sync:
  assumes "in_sync (dr_agent drv)" and "streams_of drv i = Some s" and "same_window s s'"
  shows "in_sync (dr_agent (set_stream i s' drv))"
  by (rule in_sync_same [OF assms(1)]) (use assms(2,3) in \<open>auto simp: map_of_update option.rel_refl\<close>)

lemma incoming_in_sync:
  assumes "in_sync (dr_agent drv)" and "incoming su clock m drv = (Continue, calls, drv')"
  shows "in_sync (dr_agent drv')"
  using assms(2)
proof (cases "(su, clock, m, drv)" rule: incoming.cases)
  case (2 su' clock' ack drv0)
  with assms show ?thesis
    by (auto split: option.splits intro!: set_stream_in_sync simp: same_window_def)
next
  case (4 su' clock' p drv0)
  let ?m = "Pong \<lparr>po_seq = pi_seq p, po_sent_us = pi_sent_us p, po_agent_us = elapsed_us (clock (dr_reads drv))\<rparr>"
  from assms(2) 4 obtain u ob where send: "sv_send ?m CH_CONTROL (ag_outbound (dr_agent drv)) = (Inr u, ob)"
    and drv': "drv' = (set_outbound ob drv)\<lparr>dr_reads := Suc (dr_reads drv)\<rparr>"
    by (auto simp: Let_def split: prod.splits sum.splits)
  have "valid_msg ?m" by (simp add: valid_Pong_def)
  from ob.accepted_client [OF this send] show ?thesis
    by (intro in_sync_same [OF assms(1)]) (simp_all add: drv' option.rel_refl client_step_def)
qed (use assms in \<open>auto split: option.splits if_splits\<close>)

lemma tick_in_sync:
  assumes ok: "platform_ok so" and sync: "in_sync (dr_agent drv)" and run: "tick enc so clock su drv = (Inr u, drv')"
    and live: "so_live_windows so (dr_source drv) = (windows, src)"
  shows "in_sync (dr_agent drv') \<and> (\<forall>w \<in> set windows. announced (dr_agent drv') w) \<and>
    dom (tracked_by (ag_registry (dr_agent drv'))) = sw_handle ` set windows"
proof -
  have ws: "\<forall>w \<in> set windows. utf8_valid (sw_title w) \<and> utf8_valid (sw_app_id w)" "distinct (map sw_handle windows)"
    using ok live unfolding platform_ok_def by (metis fst_conv)+
  from run live obtain v a where s: "sync_windows (fe_forget enc) (ss_params su) windows (dr_agent drv) = (Inr v, a)"
    and p: "pump_frames enc so clock (ss_codec su) (drv\<lparr>dr_agent := a, dr_source := src\<rparr>) = (Inr u, drv')"
    by (auto simp: tick_def split: prod.splits sum.splits)
  note a = sync_windows_ok [OF sync ws s]
  let ?drv = "drv\<lparr>dr_agent := a, dr_source := src\<rparr>"
  from pump_ids_pumped [OF p [unfolded pump_frames_def]] obtain cs fs where pumped: "pumped ?drv cs fs drv'" by blast
  have "announced (dr_agent drv') w" if w: "announced a w" for w
  proof -
    from w obtain tw s where tw: "tracked_by (ag_registry a) (sw_handle w) = Some tw"
      "map_of (ag_streams a) (tw_window_id tw) = Some s" "describes w s" by (auto simp: announced_def)
    have "rel_option (stream_pumped (tw_window_id tw) fs) (streams_of ?drv (tw_window_id tw)) (streams_of drv' (tw_window_id tw))"
      using pumped unfolding pumped_def by blast
    with tw(2) obtain s' where "streams_of drv' (tw_window_id tw) = Some s'" "same_window s s'"
      by (auto simp: option_rel_Some1 stream_pumped_def)
    with tw pumped show ?thesis by (auto simp: announced_def pumped_def describes_def same_window_def)
  qed
  with a pumped_in_sync [OF pumped] pumped show ?thesis by (auto simp: pumped_def)
qed

lemma drive_in_sync:
  assumes "platform_ok so" and "in_sync (dr_agent drv)" and "drive enc so clock su bs drv = (Continue, calls, drv')"
  shows "in_sync (dr_agent drv')"
  using assms(2,3)
proof (induction bs arbitrary: drv calls)
  case (Cons b bs)
  then obtain c1 drv1 c2 where 1: "drive_step enc so clock su b drv = (Continue, c1, drv1)"
    and 2: "drive enc so clock su bs drv1 = (Continue, c2, drv')"
    by (auto split: prod.splits flow.splits)
  have "in_sync (dr_agent drv1)"
  proof (cases b)
    case (Incoming m)
    with 1 incoming_in_sync [OF Cons.prems(1)] show ?thesis by simp
  next
    case Clock_tick
    with 1 tick_in_sync [OF assms(1) Cons.prems(1)] show ?thesis
      by (auto split: prod.splits sum.splits) (metis prod.exhaust)
  qed (use 1 in simp)
  from Cons.IH [OF this 2] show ?case .
qed simp

lemma in_sync_shown:
  assumes "in_sync a" and "announced a w"
  obtains tw v where "tracked_by (ag_registry a) (sw_handle w) = Some tw"
    "md_get (client_after (all_queued (ag_outbound a))) (tw_window_id tw) = Some v"
    "rw_title v = sw_title w" "rw_minimized v = sw_minimized w"
    "\<not> sw_minimized w \<Longrightarrow> rw_maximized v = sw_maximized w \<and> (rw_x v, rw_y v, rw_width v, rw_height v) = window_bounds w"
proof -
  let ?d = "client_after (all_queued (ag_outbound a))"
  from assms(2) obtain tw s where tw: "tracked_by (ag_registry a) (sw_handle w) = Some tw"
    and s: "map_of (ag_streams a) (tw_window_id tw) = Some s" and w: "describes w s" by (auto simp: announced_def)
  have "rel_option shown_as (map_of (ag_streams a) (tw_window_id tw)) (map_of (md_windows ?d) (tw_window_id tw))"
    using assms(1) by (simp add: in_sync_def mirrored_def)
  with s obtain v where "map_of (md_windows ?d) (tw_window_id tw) = Some v" and v: "shown_as s v" by (auto simp: option_rel_Some1)
  then show thesis
    by (intro that [OF tw]) (use w show_states [of w] in \<open>auto simp: md_get_def shown_as_def describes_def\<close>)
qed

lemma in_sync_windows:
  assumes "in_sync a"
  shows "dom (map_of (md_windows (client_after (all_queued (ag_outbound a))))) = tw_window_id ` ran (tracked_by (ag_registry a))"
proof -
  let ?d = "client_after (all_queued (ag_outbound a))"
  have "map_of (ag_streams a) i = None \<longleftrightarrow> map_of (md_windows ?d) i = None" for i
    using assms unfolding in_sync_def mirrored_def by (metis option.rel_sel)
  then have "dom (map_of (md_windows ?d)) = dom (map_of (ag_streams a))" unfolding dom_def by simp
  also have "\<dots> = tw_window_id ` ran (tracked_by (ag_registry a))"
    using assms unfolding in_sync_def tracked_streams_def ran_def dom_def by blast
  finally show ?thesis .
qed

section \<open>What the writer task puts on the wire\<close>

definition chunk_envelope :: "OutboundChunk \<Rightarrow> u8 \<times> u16 \<times> u8 list" where
  "chunk_envelope c = (oc_msg_type c, oc_channel c, oc_body c)"

definition queue_wire :: "OutboundChunk list \<Rightarrow> u8 list" where
  "queue_wire cs = concat (map chunk_wire (concat (map (chunks_of \<circ> chunk_envelope) cs)))"

lemma queue_wire_simps [simp]:
  "queue_wire [] = []" "queue_wire (c # cs) = wire_of (fragment (oc_msg_type c) (oc_channel c) (oc_body c)) @ queue_wire cs"
  by (simp_all add: queue_wire_def chunk_envelope_def fragment_pieces)

lemma write_outbound_sends:
  "writer_inv w \<Longrightarrow> unsent w = [] \<Longrightarrow> write_outbound w cs snk = (res, w', out, snk') \<Longrightarrow>
   (\<exists>rest. queue_wire cs = out @ rest) \<and> (res = Ready (Inr ()) \<longrightarrow> out = queue_wire cs)"
proof (induction w cs snk arbitrary: res w' out snk' rule: write_outbound.induct)
  case (2 w c cs snk)
  obtain r1 w1 where q: "queue_raw w (oc_msg_type c) (oc_channel c) (oc_body c) = (r1, w1)" by fastforce
  have w1: "writer_inv w1" "unsent w1 = wire_of (fragment (oc_msg_type c) (oc_channel c) (oc_body c))"
    using queue_raw_sends [OF "2.prems"(1), of "oc_msg_type c" "oc_channel c" "oc_body c"] "2.prems"(2) q by simp_all
  have r1: "r1 = Inr ()" using q by (auto simp: queue_raw_def fragment_pieces)
  obtain r2 w2 o1 snk1 where f: "flush w1 snk = (r2, w2, o1, snk1)" by (metis prod_cases4)
  note w2 = flush_sends [OF w1(1) f]
  show ?case
  proof (cases "r2 = Ready (Inr ())")
    case True
    with w2 have w2': "w2 = ChunkWriter_new" "o1 = unsent w1" by (auto simp: unsent_def ChunkWriter_new_def)
    obtain r3 w3 o2 snk2 where rest: "write_outbound w2 cs snk1 = (r3, w3, o2, snk2)" by (metis prod_cases4)
    have "(\<exists>rest. queue_wire cs = o2 @ rest) \<and> (r3 = Ready (Inr ()) \<longrightarrow> o2 = queue_wire cs)"
      by (rule "2.IH" [OF q [symmetric] r1 f [symmetric] True refl refl refl _ _ rest])
        (simp_all add: w2' writer_inv_def unsent_def ChunkWriter_new_def)
    with "2.prems"(3) q r1 f True rest w1(2) w2'(2) show ?thesis by auto
  next
    case False
    with "2.prems"(3) q r1 f have "res = r2" "out = o1"
      by (auto split: poll.splits sum.splits)
    with w2 w1(2) False show ?thesis by auto
  qed
qed simp

lemma queue_wire_parses:
  assumes "\<forall>c \<in> set cs. length (oc_body c) \<le> max_message_len (oc_msg_type c)"
  shows "parse_all Reassembler_new (queue_wire cs) = (map (snd \<circ> tagged \<circ> chunk_envelope) cs, Short Reassembler_new [])"
proof -
  let ?cs = "concat (map chunks_of (map chunk_envelope cs))"
  have "list_all chunk_ok ?cs"
    by (auto simp: list_all_iff chunk_envelope_def message_chunks_ok)
  moreover have "Envelope.push_all Reassembler_new ?cs = Inr (map tagged (map chunk_envelope cs), Reassembler_new)"
    using assms by (intro Envelope.push_all_messages) (auto simp: list_all_iff chunk_envelope_def message_fits_def)
  ultimately show ?thesis
    using parse_all_chunks [of ?cs Reassembler_new] by (simp add: queue_wire_def o_assoc)
qed

lemma events_client:
  "fold (\<lambda>ev d. snd (apply_event ev d)) (events (map (snd \<circ> tagged \<circ> chunk_envelope) cs)) d = fold (client_step \<circ> chunk_message) cs d"
proof (induction cs arbitrary: d)
  case (Cons c cs)
  have "msg_of (snd (tagged (chunk_envelope c))) = chunk_message c"
    by (simp add: msg_of_def chunk_message_def tagged_def chunk_envelope_def)
  with Cons show ?case by (simp add: events_def map_filter_simps client_step_def split: option.splits)
qed (simp add: events_def map_filter_simps)

section \<open>Properties\<close>


definition plain_window :: SourceWindow where
  "plain_window = \<lparr>sw_handle = 7, sw_pid = 1, sw_app_id = ascii ''app'', sw_title = ascii ''title'', sw_x = 3, sw_y = 4, sw_width = 5,
     sw_height = 6, sw_dpi = 96, sw_minimized = False, sw_maximized = True, sw_resizable = True, sw_has_frame = True, sw_topmost = False\<rparr>"

definition one_window_source :: "unit WindowSource" where
  "one_window_source = \<lparr>so_live_windows = (\<lambda>_. ([plain_window], ())), so_next_frame = (\<lambda>_ _ _. (None, ()))\<rparr>"

definition plain_setup :: session_setup where
  "plain_setup = \<lparr>ss_text_input_enabled = False, ss_window_control_enabled = True, ss_codec = RAW_BGRA,
     ss_params = \<lparr>target_fps = 30, max_frames_in_flight = 2\<rparr>\<rparr>"

lemma one_window_platform: "platform_ok one_window_source"
  by (simp add: platform_ok_def one_window_source_def plain_window_def ascii_def utf8_valid.simps)

lemma plain_opened: "encode_body (WindowOpened (opened_message t plain_window)) = Inr (img_msg (WindowOpened (opened_message t plain_window)))"
  by (rule encode_body_img)
    (simp add: valid_WindowOpened_def opened_message_def plain_window_def string_ok_def ascii_def utf8_valid.simps)

lemma one_window_tick:
  "\<exists>drv'. tick idr_encoder one_window_source (\<lambda>_. 0) plain_setup (driver_new [] () ()) = (Inr (), drv') \<and>
    map_of (ag_streams (dr_agent drv')) 1 = Some (new_stream (ss_params plain_setup) \<lparr>tw_window_id = 1, tw_video_channel = 16\<rparr> plain_window)"
proof -
  let ?t = "\<lparr>tw_window_id = 1, tw_video_channel = 16\<rparr>"
  let ?s = "new_stream (ss_params plain_setup) ?t plain_window"
  have s: "st_show_state ?s \<noteq> SHOW_MINIMIZED" "st_handle ?s = 7"
    by (simp_all add: new_stream_def show_states plain_window_def)
  have h: "sw_handle plain_window = 7" by (simp add: plain_window_def)
  let ?reg = "\<lparr>handle_to_window = [(7, ?t)], id_to_handle = [(1, 7)], next_window_id = 2, free_channels = [], next_channel = 17\<rparr>"
  have track: "track 7 WindowRegistry_new = Some ((?t, True), ?reg)"
    by (simp add: track_def take_channel_def checked_succ_def WindowRegistry_new_def REG_VIDEO_BASE_def Let_def)
  have retain: "retain_live [7] ?reg = ([], ?reg)" by (simp add: retain_live_def to_remove_def)
  show ?thesis
    by (simp add: tick_def one_window_source_def sync_windows_def sync_window_def driver_new_def agent_new_def h track retain
        sv_send_def plain_opened sv_queue_raw_def try_send_chunk_def try_reserve_def writer_runs_def outbound_new_def
        OUTBOUND_QUEUE_CAPACITY_def permit_send_def pump_frames_def pump_window_def reserve_frame_slot_def Let_def s
        set_outbound_def del: encode_body.simps)
qed



text \<open>
  C27: Input reaches only the window it names, and only what was negotiated. In any running session
  a client message causes at most one call of the input sink. A pointer event or window action is
  delivered to the native window whose protocol id the message carries, which the client has been
  told of and which has not been closed towards it; window actions are delivered only if window
  control was negotiated and text only if text input was. The content is passed on unchanged.
\<close>

theorem input_reaches_named_window:
  assumes "platform_ok so"
    and "drive enc so clock su bs (driver_new script e src) = (Continue, calls, drv)"
    and "drive_step enc so clock su b drv = (fl, new_calls, drv')"
  shows "length new_calls \<le> 1 \<and>
    (\<forall>h x y buttons wx wy. Pointer_event h x y buttons wx wy \<in> set new_calls \<longrightarrow>
       (\<exists>p tw. b = Incoming (Some (PointerEvent p)) \<and> (x, y, buttons, wx, wy) = (pe_x p, pe_y p, pe_buttons p, pe_wheel_x p, pe_wheel_y p) \<and>
          reg_get (ag_registry (dr_agent drv)) h = Some tw \<and> tw_window_id tw = pe_window_id p \<and>
          md_get (client_after (all_queued (ag_outbound (dr_agent drv)))) (pe_window_id p) \<noteq> None)) \<and>
    (\<forall>h action x y width height. Window_control h action x y width height \<in> set new_calls \<longrightarrow> ss_window_control_enabled su \<and>
       (\<exists>w tw. b = Incoming (Some (WindowControl w)) \<and> (action, x, y, width, height) = (wc_action w, wc_x w, wc_y w, wc_width w, wc_height w) \<and>
          reg_get (ag_registry (dr_agent drv)) h = Some tw \<and> tw_window_id tw = wc_window_id w \<and>
          md_get (client_after (all_queued (ag_outbound (dr_agent drv)))) (wc_window_id w) \<noteq> None)) \<and>
    (\<forall>t. Text_input t \<in> set new_calls \<longrightarrow> ss_text_input_enabled su \<and> b = Incoming (Some (TextInput \<lparr>ti_text = t\<rparr>)))"
proof -
  let ?a = "dr_agent drv"
  have "in_sync (dr_agent (driver_new script e src))" by (simp add: driver_new_def in_sync_new)
  from drive_in_sync [OF assms(1) this assms(2)] have sync: "in_sync ?a" .
  have named: "\<exists>tw. reg_get (ag_registry ?a) (st_handle s) = Some tw \<and> tw_window_id tw = i \<and>
      md_get (client_after (all_queued (ag_outbound ?a))) i \<noteq> None" if s: "map_of (ag_streams ?a) i = Some s" for i s
  proof -
    from sync s obtain tw where "tracked_by (ag_registry ?a) (st_handle s) = Some tw" "tw_window_id tw = i"
      unfolding in_sync_def tracked_streams_def by blast
    moreover have "rel_option shown_as (map_of (ag_streams ?a) i) (map_of (md_windows (client_after (all_queued (ag_outbound ?a)))) i)"
      using sync by (simp add: in_sync_def mirrored_def)
    ultimately show ?thesis using s by (auto simp: reg_get_def md_get_def option_rel_Some1)
  qed
  show ?thesis
  proof (cases b)
    case (Incoming m)
    with assms(3) have "incoming su clock m drv = (fl, new_calls, drv')" by simp
    note Incoming this
    then show ?thesis
    proof (cases "(su, clock, m, drv)" rule: incoming.cases)
      case (5 su' clock' p drv0)
      with \<open>incoming su clock m drv = _\<close> Incoming named [of "pe_window_id p"] show ?thesis by (auto split: option.splits)
    next
      case (9 su' clock' w drv0)
      with \<open>incoming su clock m drv = _\<close> Incoming named [of "wc_window_id w"] show ?thesis by (auto split: option.splits if_splits)
    qed (auto split: option.splits if_splits prod.splits sum.splits simp: Let_def)
  qed (use assms(3) in \<open>auto split: prod.splits sum.splits\<close>)
qed


theorem input_reaches_named_window_witness:
  "\<exists>drv tw. drive idr_encoder one_window_source (\<lambda>_. 0) plain_setup [Clock_tick] (driver_new [] () ()) = (Continue, [], drv) \<and>
    drive_step idr_encoder one_window_source (\<lambda>_. 0) plain_setup
      (Incoming (Some (PointerEvent \<lparr>pe_window_id = 1, pe_x = 2, pe_y = 3, pe_buttons = 1, pe_wheel_x = 0, pe_wheel_y = 0, pe_timestamp = 0\<rparr>))) drv =
      (Continue, [Pointer_event 7 2 3 1 0 0], drv) \<and>
    reg_get (ag_registry (dr_agent drv)) 7 = Some tw \<and> tw_window_id tw = 1"
proof -
  let ?p = "\<lparr>pe_window_id = 1, pe_x = 2, pe_y = 3, pe_buttons = 1, pe_wheel_x = 0, pe_wheel_y = 0, pe_timestamp = 0\<rparr>"
  from one_window_tick obtain drv where t: "tick idr_encoder one_window_source (\<lambda>_. 0) plain_setup (driver_new [] () ()) = (Inr (), drv)"
    and s: "map_of (ag_streams (dr_agent drv)) 1 = Some (new_stream (ss_params plain_setup) \<lparr>tw_window_id = 1, tw_video_channel = 16\<rparr> plain_window)"
    by blast
  then have d: "drive idr_encoder one_window_source (\<lambda>_. 0) plain_setup [Clock_tick] (driver_new [] () ()) = (Continue, [], drv)" by simp
  have step: "drive_step idr_encoder one_window_source (\<lambda>_. 0) plain_setup (Incoming (Some (PointerEvent ?p))) drv =
      (Continue, [Pointer_event 7 2 3 1 0 0], drv)"
    by (simp add: s) (simp add: new_stream_def plain_window_def)
  from input_reaches_named_window [OF one_window_platform d step] d step show ?thesis by auto
qed

text \<open>
  A full outbound queue ends the session. Lifecycle messages are queued without waiting for room,
  so a guest with more shareable windows than the queue has slots cannot be announced in one tick
  unless the writer task takes chunks in the meantime: the first tick fails and the session ends,
  however healthy the connection.
\<close>

definition unserved :: "outbound \<Rightarrow> bool" where
  "unserved ob \<longleftrightarrow> ob_script ob = [] \<and> length (all_queued ob) \<le> OUTBOUND_QUEUE_CAPACITY \<and> ob_taken ob = []"

lemma unserved_send: "unserved ob \<Longrightarrow> sv_send m ch ob = (Inr u, ob') \<Longrightarrow> unserved ob'"
  by (auto simp: unserved_def sv_send_def sv_queue_raw_def try_send_chunk_def try_reserve_def writer_runs_def permit_send_def all_queued_def
      split: sum.splits prod.splits if_splits try_send_error.splits)

lemma unserved_announce: "unserved (ag_outbound a) \<Longrightarrow> announce i s m a = (Inr s', a') \<Longrightarrow> unserved (ag_outbound a')"
  by (cases "sv_send m CH_WINDOW (ag_outbound a)"; cases "fst (sv_send m CH_WINDOW (ag_outbound a))")
    (auto simp: announce_def dest: unserved_send)

lemma unserved_stages:
  assumes "unserved (ag_outbound a)"
  shows "sync_title i w s a = (Inr s', a') \<Longrightarrow> unserved (ag_outbound a')"
    and "sync_state i w s a = (Inr s', a') \<Longrightarrow> unserved (ag_outbound a')"
    and "sync_geometry i w changed s a = (Inr s', a') \<Longrightarrow> unserved (ag_outbound a')"
  using assms unserved_announce [OF assms]
  by (auto simp: sync_title_def sync_state_def sync_geometry_def Let_def split: if_splits)

lemma unserved_update:
  assumes "unserved (ag_outbound a)" and step: "update_window i w s a = (Inr s', a')"
  shows "unserved (ag_outbound a')"
proof -
  from step obtain s1 a1 s2 a2 changed where t: "sync_title i w s a = (Inr s1, a1)" "sync_state i w s1 a1 = (Inr s2, a2)"
    "sync_geometry i w changed s2 a2 = (Inr s', a')"
    by (auto simp: update_window_def next_stage_def Let_def split: prod.splits sum.splits)
  show ?thesis
    by (rule unserved_stages(3) [OF unserved_stages(2) [OF unserved_stages(1) [OF assms(1) t(1)] t(2)] t(3)])
qed

lemma unserved_sync_window: "unserved (ag_outbound a) \<Longrightarrow> sync_window params w a = (Inr u, a') \<Longrightarrow> unserved (ag_outbound a')"
proof (cases "track (sw_handle w) (ag_registry a)")
  case (Some t)
  assume *: "unserved (ag_outbound a)" "sync_window params w a = (Inr u, a')"
  obtain tracked is_new reg where t: "t = ((tracked, is_new), reg)" by (metis prod.exhaust)
  show ?thesis
  proof (cases "is_new \<or> map_of (ag_streams a) (tw_window_id tracked) = None")
    case True
    with * Some t show ?thesis by (auto simp: sync_window_def Let_def split: prod.splits sum.splits option.splits if_splits dest: unserved_send)
  next
    case False
    then obtain s where s: "map_of (ag_streams a) (tw_window_id tracked) = Some s" by auto
    with * Some t False obtain s' where "update_window (tw_window_id tracked) w s (a\<lparr>ag_registry := reg\<rparr>) = (Inr s', a')"
      by (cases "fst (update_window (tw_window_id tracked) w s (a\<lparr>ag_registry := reg\<rparr>))") (auto simp: sync_window_def Let_def split: prod.splits)
    from unserved_update [OF _ this] * show ?thesis by simp
  qed
qed (simp add: sync_window_def)

lemma unserved_sync_live: "unserved (ag_outbound a) \<Longrightarrow> sync_live params ws a = (Inr u, a') \<Longrightarrow> unserved (ag_outbound a')"
  by (induction ws arbitrary: a) (auto split: prod.splits sum.splits dest: unserved_sync_window)

lemma client_dom: "\<exists>i. dom (map_of (md_windows (client_step m d))) \<subseteq> insert i (dom (map_of (md_windows d)))"
proof (cases "event_of m")
  case (Some ev)
  have zorder: "md_windows (snd (on_zorder i r d)) = md_windows d" for i r
    by (simp add: on_zorder_def Let_def split: option.splits if_splits)
  have "\<exists>i. \<forall>k. k \<noteq> i \<longrightarrow> map_of (md_windows d) k = None \<longrightarrow> map_of (md_windows (snd (apply_event ev d))) k = None"
    by (cases ev) (auto simp: on_opened_def on_closed_def on_geometry_def on_title_def on_state_def on_icon_def zorder Let_def
        map_of_update map_of_delete split: option.splits)
  then obtain i where "\<forall>k. k \<noteq> i \<longrightarrow> map_of (md_windows d) k = None \<longrightarrow> map_of (md_windows (snd (apply_event ev d))) k = None" ..
  then show ?thesis by (intro exI [of _ i] subsetI) (auto simp: client_step_def Some domIff)
qed (auto simp: client_step_def)

lemma client_card: "card (dom (map_of (md_windows (client_after cs)))) \<le> length cs"
proof (induction cs rule: rev_induct)
  case (snoc c cs)
  from client_dom obtain i where "dom (map_of (md_windows (client_after (cs @ [c])))) \<subseteq> insert i (dom (map_of (md_windows (client_after cs))))"
    unfolding client_after_snoc by blast
  then have "card (dom (map_of (md_windows (client_after (cs @ [c]))))) \<le> card (insert i (dom (map_of (md_windows (client_after cs)))))"
    by (intro card_mono) (simp_all add: finite_dom_map_of)
  also have "\<dots> \<le> Suc (card (dom (map_of (md_windows (client_after cs)))))" by (simp add: card_insert_if finite_dom_map_of)
  finally show ?case using snoc by simp
qed (simp add: WindowModel_new_def)

theorem crowded_guest_ends_session:
  assumes "distinct (map sw_handle windows)" and "\<forall>w \<in> set windows. utf8_valid (sw_title w) \<and> utf8_valid (sw_app_id w)"
    and "OUTBOUND_QUEUE_CAPACITY < length windows"
  shows "fst (sync_windows enc_forget params windows (agent_new [] e)) \<noteq> Inr ()"
proof
  assume "fst (sync_windows enc_forget params windows (agent_new [] e)) = Inr ()"
  then obtain a1 where live: "sync_live params windows (agent_new [] e) = (Inr (), a1)"
    by (auto simp: sync_windows_def split: prod.splits sum.splits)
  have "unserved (ag_outbound (agent_new [] e))" by (simp add: unserved_def agent_new_def outbound_new_def all_queued_def)
  from unserved_sync_live [OF this live] have few: "length (all_queued (ag_outbound a1)) \<le> OUTBOUND_QUEUE_CAPACITY"
    by (simp add: unserved_def)
  from sync_live_ok [OF in_sync_new assms(2,1) live] have sync: "in_sync a1" and ann: "\<forall>w \<in> set windows. announced a1 w" by auto
  have inv: "reg_inv (ag_registry a1)" using sync by (simp add: in_sync_def tracked_streams_def)
  let ?id = "\<lambda>w. tw_window_id (the (tracked_by (ag_registry a1) (sw_handle w)))"
  have tracked: "tracked_by (ag_registry a1) (sw_handle w) = Some (the (tracked_by (ag_registry a1) (sw_handle w)))" if "w \<in> set windows" for w
    using ann that by (force simp: announced_def)
  have "inj_on ?id (set windows)"
  proof (rule inj_onI)
    fix v w
    assume "v \<in> set windows" "w \<in> set windows" "?id v = ?id w"
    then have "sw_handle v = sw_handle w" by (intro reg_id_inj [OF inv tracked tracked])
    with assms(1) \<open>v \<in> set windows\<close> \<open>w \<in> set windows\<close> show "v = w" by (auto simp: distinct_map dest: inj_onD)
  qed
  then have "card (?id ` set windows) = length windows"
    using assms(1) by (simp add: card_image distinct_card distinct_map)
  moreover have "?id ` set windows \<subseteq> dom (map_of (md_windows (client_after (all_queued (ag_outbound a1)))))"
    unfolding in_sync_windows [OF sync] by (intro image_subsetI imageI ranI) (rule tracked)
  then have "card (?id ` set windows) \<le> length (all_queued (ag_outbound a1))"
    by (rule order_trans [OF card_mono [OF finite_dom_map_of] client_card])
  ultimately show False using few assms(3) by simp
qed

text \<open>
  What the driver queues is what the client sees. If the writer task has written some chunks of
  the queue, of any number and through any pattern of partial writes, and each body is within the
  limit of its message type, then the bytes on the wire, read to the end, are exactly those messages
  with nothing left over, and the client's window model after the resulting events is the one the
  queued chunks stand for.
\<close>

theorem written_queue_mirrors:
  assumes "write_outbound ChunkWriter_new cs snk = (Ready (Inr ()), w, out, snk')"
    and "\<forall>c \<in> set cs. length (oc_body c) \<le> max_message_len (oc_msg_type c)"
  shows "\<exists>raws. parse_all Reassembler_new out = (raws, Short Reassembler_new []) \<and>
    map rm_msg_type raws = map oc_msg_type cs \<and> map rm_payload raws = map oc_body cs \<and>
    fold (\<lambda>ev d. snd (apply_event ev d)) (events raws) WindowModel_new = client_after cs"
proof -
  have "out = queue_wire cs"
    using write_outbound_sends [OF _ _ assms(1)] by (simp add: writer_inv_def unsent_def ChunkWriter_new_def)
  then have "parse_all Reassembler_new out = (map (snd \<circ> tagged \<circ> chunk_envelope) cs, Short Reassembler_new [])"
    using queue_wire_parses [OF assms(2)] by simp
  then show ?thesis
    using events_client [of cs WindowModel_new] by (auto simp: client_after_def tagged_def chunk_envelope_def)
qed

theorem written_queue_mirrors_witness:
  "\<exists>w out snk' raws. write_outbound ChunkWriter_new [chunk_of (WindowClosed \<lparr>wcl_window_id = 5\<rparr>) CH_WINDOW]
      (replicate 20 (Accepts (Suc 0))) = (Ready (Inr ()), w, out, snk') \<and>
    parse_all Reassembler_new out = (raws, Short Reassembler_new []) \<and> map rm_payload raws = [[5, 0, 0, 0]]"
proof -
  let ?m = "WindowClosed \<lparr>wcl_window_id = 5\<rparr>" and ?snk = "replicate 20 (Accepts (Suc 0))"
  have img: "img_msg ?m = [5, 0, 0, 0]" by (simp add: img_WindowClosed_def) code_simp
  obtain r1 w1 where q: "queue_raw ChunkWriter_new MT_WINDOW_CLOSED CH_WINDOW [5, 0, 0, 0] = (r1, w1)" by fastforce
  have inv: "writer_inv w1" "unsent w1 = wire_of (fragment MT_WINDOW_CLOSED CH_WINDOW [5, 0, 0, 0])"
    using queue_raw_sends [of ChunkWriter_new MT_WINDOW_CLOSED CH_WINDOW "[5, 0, 0, 0]"] q
    by (simp_all add: writer_inv_def unsent_def ChunkWriter_new_def)
  have "length (unsent w1) < 20"
    using small_wire_length [of ?m 0] by (simp add: inv(2) to_chunks_def encode_body_img valid_WindowClosed_def img MAX_CHUNK_PAYLOAD_def CHUNK_HEADER_LEN_def del: encode_body.simps img_msg.simps)
  then obtain out snk1 where f: "flush w1 ?snk = (Ready (Inr ()), ChunkWriter_new, out, snk1)"
    using flush_finishes [OF inv(1), of ?snk] by (auto simp: list_all_iff)
  have "r1 = Inr ()" using q by (auto simp: queue_raw_def fragment_pieces)
  with q f have run: "write_outbound ChunkWriter_new [chunk_of ?m CH_WINDOW] ?snk = (Ready (Inr ()), ChunkWriter_new, out, snk1)"
    by (simp add: chunk_of_def img del: img_msg.simps)
  have "\<forall>c \<in> set [chunk_of ?m CH_WINDOW]. length (oc_body c) \<le> max_message_len (oc_msg_type c)"
    by (simp add: chunk_of_def img max_message_len_def del: img_msg.simps)
  from written_queue_mirrors [OF run this] run show ?thesis by (auto simp: chunk_of_def img simp del: img_msg.simps)
qed

end
