(* ===== verification/Agent_Keyframes.thy ===== *)
theory Agent_Keyframes
  imports Agent_Session
begin

text \<open>
  When the agent asks its encoder for a keyframe (\<open>needs_keyframe\<close> of \<open>oxagent/src/serve.rs\<close>): from
  the moment a window is announced, or its size announced anew, until a keyframe has been queued
  for it. The rule is stated over the messages themselves and is an invariant of the session.
\<close>

section \<open>Keyframes owed to the client\<close>

text \<open>
  What the queued messages say of one window: the size last announced, and whether an H.264
  keyframe followed that announcement.
\<close>

fun key_step :: "u32 \<Rightarrow> Message option \<Rightarrow> ((u16 \<times> u16) \<times> bool) option \<Rightarrow> ((u16 \<times> u16) \<times> bool) option" where
  "key_step i (Some (WindowOpened m)) st = (if wo_window_id m = i then Some ((wo_width m, wo_height m), False) else st)"
| "key_step i (Some (WindowClosed m)) st = (if wcl_window_id m = i then None else st)"
| "key_step i (Some (WindowGeometry m)) st =
    (if wg_window_id m = i
     then map_option (\<lambda>(size, key). ((wg_width m, wg_height m), key \<and> size = (wg_width m, wg_height m))) st else st)"
| "key_step i (Some (FrameData f)) st =
    (if fd_window_id f = i then map_option (\<lambda>(size, key). (size, key \<or> (fd_codec f = CODEC_H264 \<and> is_keyframe f))) st else st)"
| "key_step i _ st = st"

definition key_after :: "u32 \<Rightarrow> OutboundChunk list \<Rightarrow> ((u16 \<times> u16) \<times> bool) option" where
  "key_after i cs = fold (key_step i \<circ> chunk_message) cs None"

lemma key_after_snoc: "key_after i (cs @ [c]) = key_step i (chunk_message c) (key_after i cs)"
  by (simp add: key_after_def)

definition keyed_as :: "WindowStream \<Rightarrow> (u16 \<times> u16) \<times> bool \<Rightarrow> bool" where
  "keyed_as s st \<longleftrightarrow> snd (snd (st_geometry s)) = fst st \<and> (st_needs_keyframe s \<or> snd st)"

definition keyed :: "'e agent \<Rightarrow> bool" where
  "keyed a \<longleftrightarrow> (\<forall>i. rel_option keyed_as (map_of (ag_streams a) i) (key_after i (all_queued (ag_outbound a))))"

lemma keyed_new: "keyed (agent_new script e)"
  by (simp add: keyed_def agent_new_def outbound_new_def all_queued_def key_after_def)

lemma accepted_key:
  "valid_msg m \<Longrightarrow> sv_send m ch ob = (Inr u, ob') \<Longrightarrow> key_after i (all_queued ob') = key_step i (Some m) (key_after i (all_queued ob))"
  by (simp add: ob.accepted key_after_snoc chunk_message_of chunk_of_def)

section \<open>The window list\<close>

lemma announce_keyed:
  assumes key: "keyed a" and s: "map_of (ag_streams a) i = Some s" and an: "announce i s' m a = (Inr s1, a')" and valid: "valid_msg m"
    and step: "\<And>k st. key_step k (Some m) st = (if k = i then map_option g st else st)"
    and g: "\<And>st. keyed_as s st \<Longrightarrow> keyed_as s' (g st)"
  shows "keyed a'"
proof -
  obtain u ob where send: "sv_send m CH_WINDOW (ag_outbound a) = (Inr u, ob)"
    and a': "a' = a\<lparr>ag_streams := AList.update i s' (ag_streams a), ag_outbound := ob\<rparr>"
    using an by (cases "sv_send m CH_WINDOW (ag_outbound a)"; cases "fst (sv_send m CH_WINDOW (ag_outbound a))")
      (auto simp: announce_def)
  have "rel_option keyed_as (map_of (ag_streams a') k) (key_after k (all_queued (ag_outbound a')))" for k
  proof (cases "k = i")
    case True
    have "rel_option keyed_as (map_of (ag_streams a) i) (key_after i (all_queued (ag_outbound a)))" using key by (simp add: keyed_def)
    with s obtain st where st: "key_after i (all_queued (ag_outbound a)) = Some st" "keyed_as s st" by (auto simp: option_rel_Some1)
    with g [OF st(2)] True show ?thesis by (simp add: a' map_of_update accepted_key [OF valid send] step)
  next
    case False
    with key show ?thesis by (simp add: a' map_of_update accepted_key [OF valid send] step keyed_def)
  qed
  then show ?thesis by (simp add: keyed_def)
qed

lemma sync_title_keyed:
  assumes "keyed a" and "map_of (ag_streams a) i = Some s" and "utf8_valid (sw_title w)" and step: "sync_title i w s a = (Inr s', a')"
  shows "keyed a'"
proof (cases "st_title s = sw_title w")
  case False
  let ?m = "\<lparr>wt_window_id = i, wt_title = sw_title w\<rparr>"
  from False step have an: "announce i (s\<lparr>st_title := sw_title w\<rparr>) (WindowTitle ?m) a = (Inr s', a')" by (simp add: sync_title_def)
  have "valid_msg (WindowTitle ?m)" using announce_sent [OF an] assms(3) title_written [of ?m] by auto
  from announce_keyed [OF assms(1,2) an this, of id] show ?thesis by (simp add: option.map_id keyed_as_def)
qed (use step assms in \<open>simp add: sync_title_def\<close>)

lemma sync_state_keyed:
  assumes "keyed a" and "map_of (ag_streams a) i = Some s" and step: "sync_state i w s a = (Inr s', a')"
  shows "keyed a'"
proof (cases "st_show_state s = show_state w \<and> st_flags s = window_flags w")
  case False
  let ?m = "\<lparr>ws_window_id = i, ws_state = show_state w, ws_flags = window_flags w\<rparr>"
  from False step have an: "announce i (s\<lparr>st_show_state := show_state w, st_flags := window_flags w\<rparr>) (WindowState ?m) a = (Inr s', a')"
    by (auto simp: sync_state_def Let_def)
  have "valid_msg (WindowState ?m)" by (simp add: valid_WindowState_def)
  from announce_keyed [OF assms(1,2) an this, of id] show ?thesis by (simp add: option.map_id keyed_as_def)
qed (use step assms in \<open>simp add: sync_state_def\<close>)

lemma sync_geometry_keyed:
  assumes "keyed a" and "map_of (ag_streams a) i = Some s" and step: "sync_geometry i w changed s a = (Inr s', a')"
  shows "keyed a'"
proof (cases "\<not> sw_minimized w \<and> (st_geometry s \<noteq> window_bounds w \<or> changed)")
  case False
  with step assms show ?thesis by (auto simp: sync_geometry_def)
next
  case True
  let ?m = "\<lparr>wg_window_id = i, wg_x = sw_x w, wg_y = sw_y w, wg_width = sw_width w, wg_height = sw_height w\<rparr>"
  define s1 where "s1 = s\<lparr>st_budget := restart (st_budget s), st_geometry := window_bounds w\<rparr>"
  define s2 where "s2 = (if snd (snd (st_geometry s)) \<noteq> (sw_width w, sw_height w) then s1\<lparr>st_needs_keyframe := True\<rparr> else s1)"
  have an: "announce i s2 (WindowGeometry ?m) a = (Inr s', a')"
    using True step unfolding sync_geometry_def Let_def s1_def [symmetric] s2_def [symmetric] by simp
  have valid: "valid_msg (WindowGeometry ?m)" by (simp add: valid_WindowGeometry_def)
  show ?thesis
    by (rule announce_keyed [OF assms(1,2) an valid, of "\<lambda>(size, key). ((sw_width w, sw_height w), key \<and> size = (sw_width w, sw_height w))"])
      (auto simp: keyed_as_def s1_def s2_def window_bounds_def split: if_splits)
qed

lemma update_window_keyed:
  assumes sync: "in_sync a" and key: "keyed a" and s: "map_of (ag_streams a) i = Some s" and utf8: "utf8_valid (sw_title w)"
    and step: "update_window i w s a = (Inr s', a')"
  shows "keyed a'"
proof -
  from step obtain s1 a1 s2 a2 changed where t: "sync_title i w s a = (Inr s1, a1)" "sync_state i w s1 a1 = (Inr s2, a2)"
    "sync_geometry i w changed s2 a2 = (Inr s', a')"
    by (auto simp: update_window_def next_stage_def Let_def split: prod.splits sum.splits)
  from sync_title_ok [OF sync s utf8 t(1)] have 1: "stage_ok i s a s1 a1" by blast
  from sync_state_ok [OF stage_sync [OF 1] t(2)] have 2: "stage_ok i s1 a1 s2 a2" by blast
  have "keyed a1" by (rule sync_title_keyed [OF key s utf8 t(1)])
  then have "keyed a2" by (rule sync_state_keyed [OF _ stage_sync(2) [OF 1] t(2)])
  then show ?thesis by (rule sync_geometry_keyed [OF _ stage_sync(2) [OF 2] t(3)])
qed

lemma sync_window_keyed:
  assumes sync: "in_sync a" and key: "keyed a" and utf8: "utf8_valid (sw_title w)" "utf8_valid (sw_app_id w)"
    and step: "sync_window params w a = (Inr u, a')"
  shows "keyed a'"
proof -
  from step obtain tracked is_new reg where tk: "track (sw_handle w) (ag_registry a) = Some ((tracked, is_new), reg)"
    by (auto simp: sync_window_def split: option.splits prod.splits)
  let ?i = "tw_window_id tracked"
  show ?thesis
  proof (cases is_new)
    case True
    let ?m = "opened_message tracked w" and ?s = "new_stream params tracked w"
    from step tk True obtain ob where send: "sv_send (WindowOpened ?m) CH_WINDOW (ag_outbound a) = (Inr (), ob)"
      and a': "a' = a\<lparr>ag_registry := reg, ag_streams := AList.update ?i ?s (ag_streams a), ag_outbound := ob\<rparr>"
      by (auto simp: sync_window_def Let_def split: prod.splits sum.splits)
    have valid: "valid_msg (WindowOpened ?m)"
      using sent_encoded [OF send] opened_written [of ?m] utf8 by (auto simp: opened_message_def)
    show ?thesis unfolding keyed_def
      using key by (auto simp: a' accepted_key [OF valid send] map_of_update keyed_def keyed_as_def new_stream_def window_bounds_def)
        (simp add: opened_message_def)+
  next
    case False
    then have reg: "reg = ag_registry a" using tk by (auto simp: track_def Let_def split: option.splits prod.splits)
    show ?thesis
    proof (cases "map_of (ag_streams a) ?i")
      case None
      with step tk False reg key show ?thesis by (simp add: sync_window_def)
    next
      case (Some s)
      with step tk False reg obtain s' where up: "update_window ?i w s a = (Inr s', a')"
        by (cases "fst (update_window ?i w s a)") (auto simp: sync_window_def split: prod.splits)
      show ?thesis by (rule update_window_keyed [OF sync key Some utf8(1) up])
    qed
  qed
qed


lemma sync_live_keyed:
  assumes "in_sync a" and "keyed a" and "\<forall>w \<in> set ws. utf8_valid (sw_title w) \<and> utf8_valid (sw_app_id w)"
    and "sync_live params ws a = (Inr u, a')"
  shows "keyed a'"
  using assms
proof (induction ws arbitrary: a)
  case (Cons w ws)
  then obtain v a1 where 1: "sync_window params w a = (Inr v, a1)" and 2: "sync_live params ws a1 = (Inr u, a')"
    by (auto split: prod.splits sum.splits)
  have utf8: "utf8_valid (sw_title w)" "utf8_valid (sw_app_id w)" using Cons.prems(3) by simp_all
  show ?case
    by (rule Cons.IH [OF _ sync_window_keyed [OF Cons.prems(1,2) utf8 1] _ 2])
      (use sync_window_ok [OF Cons.prems(1) utf8 1] Cons.prems(3) in auto)
qed simp

lemma close_gone_keyed:
  assumes "keyed a" and "close_gone enc_forget removed a = (Inr u, a')"
  shows "keyed a'"
  using assms
proof (induction removed arbitrary: a)
  case (Cons gone removed)
  let ?i = "tw_window_id gone" and ?m = "\<lparr>wcl_window_id = tw_window_id gone\<rparr>"
  define a1 where "a1 = (case map_of (ag_streams a) ?i of None \<Rightarrow> a
    | Some s \<Rightarrow> a\<lparr>ag_streams := AList.delete ?i (ag_streams a), ag_encoder := enc_forget (st_handle s) (ag_encoder a)\<rparr>)"
  have a1: "ag_outbound a1 = ag_outbound a" "ag_streams a1 = AList.delete ?i (ag_streams a)"
    by (auto simp: a1_def AList.delete_id map_of_eq_None_iff split: option.split)
  from Cons.prems(2) obtain ob v where send: "sv_send (WindowClosed ?m) CH_WINDOW (ag_outbound a) = (Inr v, ob)"
    and rest: "close_gone enc_forget removed (a1\<lparr>ag_outbound := ob\<rparr>) = (Inr u, a')"
    unfolding close_gone.simps Let_def a1_def [symmetric] by (auto simp: a1 split: prod.splits sum.splits)
  have "valid_msg (WindowClosed ?m)" by (simp add: valid_WindowClosed_def)
  note step = accepted_key [OF this send]
  have "keyed (a1\<lparr>ag_outbound := ob\<rparr>)"
    using Cons.prems(1) by (auto simp: keyed_def a1 step map_of_delete)
  from Cons.IH [OF this rest] show ?case .
qed simp

lemma sync_windows_keyed:
  assumes "in_sync a" and "keyed a" and "\<forall>w \<in> set ws. utf8_valid (sw_title w) \<and> utf8_valid (sw_app_id w)"
    and "sync_windows enc_forget params ws a = (Inr u, a')"
  shows "keyed a'"
proof -
  from assms(4) obtain v a1 removed reg where 1: "sync_live params ws a = (Inr v, a1)"
    and close: "close_gone enc_forget removed (a1\<lparr>ag_registry := reg\<rparr>) = (Inr u, a')"
    by (auto simp: sync_windows_def split: prod.splits sum.splits)
  from sync_live_keyed [OF assms(1-3) 1] have "keyed (a1\<lparr>ag_registry := reg\<rparr>)" by (simp add: keyed_def)
  from close_gone_keyed [OF this close] show ?thesis .
qed

section \<open>Frames and messages\<close>

lemma key_after_frames:
  "list_all2 (frame_fits streams) cs fs \<Longrightarrow> key_after i (xs @ cs) =
    map_option (\<lambda>(size, key). (size, key \<or> (\<exists>f \<in> set (frames_for i fs). fd_codec f = CODEC_H264 \<and> is_keyframe f))) (key_after i xs)"
proof (induction cs fs arbitrary: xs rule: list_all2_induct)
  case Nil
  then show ?case by (cases "key_after i xs") (auto simp: frames_for_def)
next
  case (Cons c cs f fs)
  have "key_after i (xs @ [c]) = key_step i (Some (FrameData f)) (key_after i xs)"
    unfolding key_after_snoc using Cons.hyps(1) by (simp add: frame_fits_def)
  with Cons.IH [of "xs @ [c]"] show ?case
    by (cases "key_after i xs") (auto simp: frames_for_def)
qed

lemma pumped_keyed:
  assumes pumped: "pumped drv cs fs drv'" and key: "keyed (dr_agent drv)"
  shows "keyed (dr_agent drv')"
proof -
  have fits: "list_all2 (frame_fits (streams_of drv)) cs fs" and q: "sent_by drv' = sent_by drv @ cs"
    using pumped by (simp_all add: pumped_def)
  have "rel_option keyed_as (streams_of drv' i) (key_after i (sent_by drv'))" for i
  proof -
    have rel: "rel_option (stream_pumped i fs) (streams_of drv i) (streams_of drv' i)" using pumped unfolding pumped_def by blast
    have "rel_option keyed_as (streams_of drv i) (key_after i (sent_by drv))" using key unfolding keyed_def by blast
    with rel show ?thesis unfolding q key_after_frames [OF fits]
      by (cases "streams_of drv i"; cases "streams_of drv' i"; cases "key_after i (sent_by drv)")
        (auto simp: keyed_as_def stream_pumped_def same_window_def)
  qed
  then show ?thesis by (simp add: keyed_def)
qed

lemma incoming_keyed:
  assumes "keyed (dr_agent drv)" and "incoming su clock m drv = (Continue, calls, drv')"
  shows "keyed (dr_agent drv')"
  using assms(2)
proof (cases "(su, clock, m, drv)" rule: incoming.cases)
  case (2 su' clock' ack drv0)
  show ?thesis
  proof (cases "streams_of drv (fa_window_id ack)")
    case (Some s)
    with 2 assms(2) have "drv' = set_stream (fa_window_id ack) (s\<lparr>st_budget := on_ack (fa_frame_id ack) (st_budget s)\<rparr>) drv" by auto
    with Some assms(1) show ?thesis
      by (auto simp: keyed_def map_of_update keyed_as_def option_rel_Some1 dest: spec [of _ "fa_window_id ack"])
  qed (use 2 assms in auto)
next
  case (4 su' clock' p drv0)
  let ?m = "Pong \<lparr>po_seq = pi_seq p, po_sent_us = pi_sent_us p, po_agent_us = elapsed_us (clock (dr_reads drv))\<rparr>"
  from assms(2) 4 obtain u ob where send: "sv_send ?m CH_CONTROL (ag_outbound (dr_agent drv)) = (Inr u, ob)"
    and drv': "drv' = (set_outbound ob drv)\<lparr>dr_reads := Suc (dr_reads drv)\<rparr>"
    by (auto simp: Let_def split: prod.splits sum.splits)
  have "valid_msg ?m" by (simp add: valid_Pong_def)
  from accepted_key [OF this send] assms(1) show ?thesis by (simp add: keyed_def drv')
qed (use assms in \<open>auto split: option.splits if_splits\<close>)

lemma drive_keyed:
  assumes ok: "platform_ok so" and "in_sync (dr_agent drv)" and "keyed (dr_agent drv)"
    and "drive enc so clock su bs drv = (Continue, calls, drv')"
  shows "keyed (dr_agent drv')"
  using assms(2-4)
proof (induction bs arbitrary: drv calls)
  case (Cons b bs)
  then obtain c1 drv1 c2 where 1: "drive_step enc so clock su b drv = (Continue, c1, drv1)"
    and 2: "drive enc so clock su bs drv1 = (Continue, c2, drv')"
    by (auto split: prod.splits flow.splits)
  have "in_sync (dr_agent drv1)"
    by (rule drive_in_sync [OF ok Cons.prems(1), where enc = enc and clock = clock and su = su and bs = "[b]" and calls = c1]) (use 1 in simp)
  moreover have "keyed (dr_agent drv1)"
  proof (cases b)
    case (Incoming m)
    with 1 incoming_keyed [OF Cons.prems(2)] show ?thesis by simp
  next
    case Clock_tick
    with 1 obtain windows src v a u where live: "so_live_windows so (dr_source drv) = (windows, src)"
      and s: "sync_windows (fe_forget enc) (ss_params su) windows (dr_agent drv) = (Inr v, a)"
      and p: "pump_frames enc so clock (ss_codec su) (drv\<lparr>dr_agent := a, dr_source := src\<rparr>) = (Inr u, drv1)"
      by (auto simp: tick_def split: prod.splits sum.splits)
    have "\<forall>w \<in> set windows. utf8_valid (sw_title w) \<and> utf8_valid (sw_app_id w)"
      using ok live unfolding platform_ok_def by (metis fst_conv)
    from sync_windows_keyed [OF Cons.prems(1,2) this s] have "keyed a" .
    moreover from pump_ids_pumped [OF p [unfolded pump_frames_def]] obtain cs fs where
      "pumped (drv\<lparr>dr_agent := a, dr_source := src\<rparr>) cs fs drv1" by blast
    ultimately show ?thesis using pumped_keyed by fastforce
  qed (use 1 in simp)
  ultimately show ?case by (rule Cons.IH [OF _ _ 2])
qed simp


section \<open>Property\<close>

text \<open>
  C29: A client is never left without a keyframe to start from. At every moment of every running
  session, for each announced window, the driver's idea of its size is the size last announced to
  the client, and either the next frames handed to the encoder still ask for a keyframe, or an H.264
  keyframe has been queued for the window since it was announced and since its size last changed.
  Windows that are not announced owe nothing.
\<close>

theorem keyframe_owed_until_sent:
  assumes "platform_ok so"
    and "drive enc so clock su bs (driver_new script e src) = (Continue, calls, drv)"
  shows "(case map_of (ag_streams (dr_agent drv)) i of
      Some s \<Rightarrow> (\<exists>sent. key_after i (all_queued (ag_outbound (dr_agent drv))) = Some (snd (snd (st_geometry s)), sent) \<and>
        (st_needs_keyframe s \<or> sent))
    | None \<Rightarrow> key_after i (all_queued (ag_outbound (dr_agent drv))) = None)"
proof -
  have "in_sync (dr_agent (driver_new script e src))" "keyed (dr_agent (driver_new script e src))"
    by (simp_all add: driver_new_def in_sync_new keyed_new)
  from drive_keyed [OF assms(1) this assms(2)]
  have "rel_option keyed_as (map_of (ag_streams (dr_agent drv)) i) (key_after i (all_queued (ag_outbound (dr_agent drv))))"
    by (simp add: keyed_def)
  then show ?thesis by (cases "map_of (ag_streams (dr_agent drv)) i") (auto simp: option_rel_Some1 keyed_as_def)
qed

theorem keyframe_owed_until_sent_witness:
  "\<exists>drv sent. drive idr_encoder one_window_source (\<lambda>_. 0) plain_setup [Clock_tick] (driver_new [] () ()) = (Continue, [], drv) \<and>
    key_after 1 (all_queued (ag_outbound (dr_agent drv))) = Some ((5, 6), sent)"
proof -
  from one_window_tick obtain drv where t: "tick idr_encoder one_window_source (\<lambda>_. 0) plain_setup (driver_new [] () ()) = (Inr (), drv)"
    and s: "map_of (ag_streams (dr_agent drv)) 1 = Some (new_stream (ss_params plain_setup) \<lparr>tw_window_id = 1, tw_video_channel = 16\<rparr> plain_window)"
    by blast
  then have d: "drive idr_encoder one_window_source (\<lambda>_. 0) plain_setup [Clock_tick] (driver_new [] () ()) = (Continue, [], drv)" by simp
  from keyframe_owed_until_sent [OF one_window_platform d, of 1] d show ?thesis
    by (auto simp: s new_stream_def window_bounds_def plain_window_def)
qed

end
