(* ===== verification/Pipeline.thy ===== *)
theory Pipeline
  imports Decode
begin

text \<open>
  Decoding off the session task (\<open>oxclient/src/decode/pipeline.rs\<close>): one worker thread per window
  behind a bounded queue. The pipeline holds, for each window, the sending end of a thread's queue;
  a thread is identified by its number in the order of spawning, and stays in the list when its
  window is forgotten, since it still drains what was queued.

  The interleaving of the session task and the threads is a list of events: a frame submitted, a
  frame placed after waiting for room, a window forgotten, a thread taking a frame off its queue,
  and a thread finishing with it. What the code cannot foresee is part of the event: whether the
  thread could be started, the clock, what the decoder factory returns if it is asked, and whether
  the display still takes frames. A panic of the decoder is \<open>None\<close>.
\<close>

section \<open>State\<close>

definition QUEUE_DEPTH :: nat where "QUEUE_DEPTH = 4"

datatype FrameReport =
    Decoded u32 u64 u64
  | Dropped u32 u64 u64

fun report_window_id :: "FrameReport \<Rightarrow> u32" where
  "report_window_id (Decoded w f t) = w"
| "report_window_id (Dropped w f t) = w"

fun report_frame_id :: "FrameReport \<Rightarrow> u64" where
  "report_frame_id (Decoded w f t) = f"
| "report_frame_id (Dropped w f t) = f"

record 'b worker =
  wk_window :: u32
  wk_queue :: "FrameData list"
  wk_current :: "FrameData option"
  wk_decoder :: "'b option"
  wk_alive :: bool

record 'b DecodePipeline =
  dp_workers :: "(u32 \<times> nat) list"
  dp_threads :: "'b worker list"

definition DecodePipeline_new :: "'b DecodePipeline" where
  "DecodePipeline_new = \<lparr>dp_workers = [], dp_threads = []\<rparr>"

datatype outcome =
    Accepted nat FrameData
  | Backpressure FrameData nat
  | Report nat FrameReport
  | Refused FrameReport
  | Delivered nat FrameData

section \<open>Submitting\<close>

definition report_dropped :: "u32 \<Rightarrow> u64 \<Rightarrow> u64 \<Rightarrow> FrameReport" where
  "report_dropped window_id frame_id now = Dropped window_id frame_id now"

definition spawn_worker :: "u32 \<Rightarrow> bool \<Rightarrow> 'b worker" where
  "spawn_worker window_id started =
     \<lparr>wk_window = window_id, wk_queue = [], wk_current = None, wk_decoder = None, wk_alive = started\<rparr>"

text \<open>\<open>try_send\<close>: full, closed or queued.\<close>

definition try_send :: "nat \<Rightarrow> FrameData \<Rightarrow> 'b DecodePipeline \<Rightarrow> bool option \<times> 'b DecodePipeline" where
  "try_send i frame p =
    (let w = dp_threads p ! i in
     if \<not> wk_alive w then (None, p)
     else if QUEUE_DEPTH \<le> length (wk_queue w) then (Some False, p)
     else (Some True, p\<lparr>dp_threads := (dp_threads p)[i := w\<lparr>wk_queue := wk_queue w @ [frame]\<rparr>]\<rparr>))"

definition submit :: "bool \<Rightarrow> u64 \<Rightarrow> FrameData \<Rightarrow> 'b DecodePipeline \<Rightarrow> outcome list \<times> 'b DecodePipeline" where
  "submit started now frame p =
    (let window_id = fd_window_id frame;
         (i, p1) = (case map_of (dp_workers p) window_id of
            Some i \<Rightarrow> (i, p)
          | None \<Rightarrow> (length (dp_threads p),
              \<lparr>dp_workers = AList.update window_id (length (dp_threads p)) (dp_workers p),
               dp_threads = dp_threads p @ [spawn_worker window_id started]\<rparr>)) in
     case try_send i frame p1 of
       (Some True, p2) \<Rightarrow> ([Accepted i frame], p2)
     | (Some False, p2) \<Rightarrow> ([Backpressure frame i], p2)
     | (None, p2) \<Rightarrow>
         ([Refused (report_dropped window_id (fd_frame_id frame) now)],
          p2\<lparr>dp_workers := AList.delete window_id (dp_workers p2)\<rparr>))"

definition dp_forget :: "u32 \<Rightarrow> 'b DecodePipeline \<Rightarrow> 'b DecodePipeline" where
  "dp_forget window_id p = p\<lparr>dp_workers := AList.delete window_id (dp_workers p)\<rparr>"

definition dp_len :: "'b DecodePipeline \<Rightarrow> nat" where
  "dp_len p = length (dp_workers p)"

text \<open>The caller's second attempt, on the queue handle it was given, once there is room.\<close>

definition place :: "nat \<Rightarrow> FrameData \<Rightarrow> 'b DecodePipeline \<Rightarrow> outcome list \<times> 'b DecodePipeline" where
  "place i frame p =
    (case try_send i frame p of (Some True, p1) \<Rightarrow> ([Accepted i frame], p1) | (_, p1) \<Rightarrow> ([], p1))"

section \<open>Working\<close>

record 'b env =
  en_now :: u64
  en_made :: "DecodeError + 'b"
  en_delivers :: bool

text \<open>One round of the worker's loop: the report, the picture if there is one, the decoder left.\<close>

definition work :: "('b \<Rightarrow> u8) \<Rightarrow> ('b \<Rightarrow> FrameData \<Rightarrow> ((DecodeError + FrameData option) \<times> 'b) option) \<Rightarrow> u32 \<Rightarrow> 'b env \<Rightarrow>
    FrameData \<Rightarrow> 'b option \<Rightarrow> FrameReport \<times> FrameData option \<times> 'b option" where
  "work codec dec window_id env frame old =
    (let frame_id = fd_frame_id frame;
         dropped = report_dropped window_id frame_id (en_now env);
         stale = (case old of None \<Rightarrow> True | Some current \<Rightarrow> codec current \<noteq> fd_codec frame) in
     case (if stale then map_sum id Some (en_made env) else Inr old) of
       Inl error \<Rightarrow> (dropped, None, None)
     | Inr None \<Rightarrow> (dropped, None, None)
     | Inr (Some active) \<Rightarrow>
         (case dec active frame of
            None \<Rightarrow> (dropped, None, None)
          | Some (Inl error, d) \<Rightarrow> (dropped, None, Some d)
          | Some (Inr None, d) \<Rightarrow> (dropped, None, Some d)
          | Some (Inr (Some picture), d) \<Rightarrow> (Decoded window_id frame_id (en_now env), Some picture, Some d)))"

definition take_frame :: "nat \<Rightarrow> 'b DecodePipeline \<Rightarrow> 'b DecodePipeline" where
  "take_frame i p =
    (if i < length (dp_threads p) then
       let w = dp_threads p ! i in
       case (wk_alive w, wk_current w, wk_queue w) of
         (True, None, frame # rest) \<Rightarrow>
           p\<lparr>dp_threads := (dp_threads p)[i := w\<lparr>wk_queue := rest, wk_current := Some frame\<rparr>]\<rparr>
       | _ \<Rightarrow> p
     else p)"

definition finish :: "('b \<Rightarrow> u8) \<Rightarrow> ('b \<Rightarrow> FrameData \<Rightarrow> ((DecodeError + FrameData option) \<times> 'b) option) \<Rightarrow> nat \<Rightarrow> 'b env \<Rightarrow>
    'b DecodePipeline \<Rightarrow> outcome list \<times> 'b DecodePipeline" where
  "finish codec dec i env p =
    (if i < length (dp_threads p) then
       let w = dp_threads p ! i in
       case wk_current w of
         None \<Rightarrow> ([], p)
       | Some frame \<Rightarrow>
           (case work codec dec (wk_window w) env frame (wk_decoder w) of
              (report, None, d) \<Rightarrow>
                ([Report i report], p\<lparr>dp_threads := (dp_threads p)[i := w\<lparr>wk_current := None, wk_decoder := d\<rparr>]\<rparr>)
            | (report, Some picture, d) \<Rightarrow>
                ([Report i report, Delivered i picture],
                 p\<lparr>dp_threads := (dp_threads p)[i :=
                     (if en_delivers env then w\<lparr>wk_current := None, wk_decoder := d\<rparr>
                      else w\<lparr>wk_current := None, wk_decoder := d, wk_queue := [], wk_alive := False\<rparr>)]\<rparr>))
     else ([], p))"

section \<open>Interleavings\<close>

datatype 'b event =
    Submit bool u64 FrameData
  | Place nat FrameData
  | Forget_window u32
  | Take nat
  | Finish nat "'b env"

fun dp_step :: "('b \<Rightarrow> u8) \<Rightarrow> ('b \<Rightarrow> FrameData \<Rightarrow> ((DecodeError + FrameData option) \<times> 'b) option) \<Rightarrow> 'b event \<Rightarrow>
    'b DecodePipeline \<Rightarrow> outcome list \<times> 'b DecodePipeline" where
  "dp_step codec dec (Submit started now frame) p = submit started now frame p"
| "dp_step codec dec (Place i frame) p = (if i < length (dp_threads p) then place i frame p else ([], p))"
| "dp_step codec dec (Forget_window w) p = ([], dp_forget w p)"
| "dp_step codec dec (Take i) p = ([], take_frame i p)"
| "dp_step codec dec (Finish i env) p = finish codec dec i env p"

fun dp_run :: "('b \<Rightarrow> u8) \<Rightarrow> ('b \<Rightarrow> FrameData \<Rightarrow> ((DecodeError + FrameData option) \<times> 'b) option) \<Rightarrow> 'b event list \<Rightarrow>
    'b DecodePipeline \<Rightarrow> outcome list \<times> 'b DecodePipeline" where
  "dp_run codec dec [] p = ([], p)"
| "dp_run codec dec (e # es) p =
    (case dp_step codec dec e p of (os, p1) \<Rightarrow>
       (case dp_run codec dec es p1 of (os', p2) \<Rightarrow> (os @ os', p2)))"

section \<open>Every frame is accounted for\<close>

fun accepted_by :: "nat \<Rightarrow> outcome list \<Rightarrow> FrameData list" where
  "accepted_by i [] = []"
| "accepted_by i (Accepted j f # os) = (if i = j then f # accepted_by i os else accepted_by i os)"
| "accepted_by i (_ # os) = accepted_by i os"

fun reported_by :: "nat \<Rightarrow> outcome list \<Rightarrow> FrameReport list" where
  "reported_by i [] = []"
| "reported_by i (Report j r # os) = (if i = j then r # reported_by i os else reported_by i os)"
| "reported_by i (_ # os) = reported_by i os"

lemma accepted_by_append [simp]: "accepted_by i (os @ os') = accepted_by i os @ accepted_by i os'"
  by (induction i os rule: accepted_by.induct) auto

lemma reported_by_append [simp]: "reported_by i (os @ os') = reported_by i os @ reported_by i os'"
  by (induction i os rule: reported_by.induct) auto

definition pending :: "'b worker \<Rightarrow> FrameData list" where
  "pending w = (case wk_current w of None \<Rightarrow> [] | Some f \<Rightarrow> [f]) @ wk_queue w"

text \<open>
  The frames a thread accepted are those it reported, in order, then the ones it holds; only a
  thread that has ended, because the display is gone, may have lost the last ones.
\<close>

definition thread_ok :: "FrameData list \<Rightarrow> FrameReport list \<Rightarrow> 'b worker \<Rightarrow> bool" where
  "thread_ok acc rep w \<longleftrightarrow>
     length (wk_queue w) \<le> QUEUE_DEPTH
   \<and> (\<forall>r \<in> set rep. report_window_id r = wk_window w)
   \<and> (\<exists>lost. map fd_frame_id acc = map report_frame_id rep @ map fd_frame_id (pending w) @ lost \<and> (wk_alive w \<longrightarrow> lost = []))
   \<and> (\<not> wk_alive w \<longrightarrow> pending w = [])"

definition accounted :: "outcome list \<Rightarrow> 'b DecodePipeline \<Rightarrow> bool" where
  "accounted os p \<longleftrightarrow>
     (\<forall>(w, i) \<in> set (dp_workers p). i < length (dp_threads p))
   \<and> (\<forall>i < length (dp_threads p). thread_ok (accepted_by i os) (reported_by i os) (dp_threads p ! i))
   \<and> (\<forall>i \<ge> length (dp_threads p). accepted_by i os = [] \<and> reported_by i os = [])"

lemma accounted_new: "accounted [] DecodePipeline_new"
  by (simp add: accounted_def DecodePipeline_new_def)

lemma accounted_thread: "accounted os p \<Longrightarrow> i < length (dp_threads p) \<Longrightarrow> thread_ok (accepted_by i os) (reported_by i os) (dp_threads p ! i)"
  by (simp add: accounted_def)

text \<open>A step that changes one thread and emits outcomes of that thread only.\<close>

lemma accounted_update:
  assumes "accounted os p" "i < length (dp_threads p)"
    and "\<And>j. j \<noteq> i \<Longrightarrow> accepted_by j os' = [] \<and> reported_by j os' = []"
    and "thread_ok (accepted_by i (os @ os')) (reported_by i (os @ os')) w"
  shows "accounted (os @ os') (p\<lparr>dp_threads := (dp_threads p)[i := w]\<rparr>)"
  using assms by (auto simp: accounted_def nth_list_update)

lemma accounted_silent:
  assumes "accounted os p" "\<And>j. accepted_by j os' = [] \<and> reported_by j os' = []"
    and "set (dp_workers p') \<subseteq> set (dp_workers p)" "dp_threads p' = dp_threads p"
  shows "accounted (os @ os') p'"
  using assms by (fastforce simp: accounted_def)

lemma try_send_accounted:
  assumes "accounted os p" "i < length (dp_threads p)" "try_send i frame p = (Some True, p')"
  shows "accounted (os @ [Accepted i frame]) p'"
proof -
  let ?w = "dp_threads p ! i"
  have room: "wk_alive ?w" "length (wk_queue ?w) < QUEUE_DEPTH"
    and p': "p' = p\<lparr>dp_threads := (dp_threads p)[i := ?w\<lparr>wk_queue := wk_queue ?w @ [frame]\<rparr>]\<rparr>"
    using assms(3) by (auto simp: try_send_def Let_def split: if_splits)
  show ?thesis
    unfolding p' using room accounted_thread [OF assms(1,2)]
    by (intro accounted_update [OF assms(1,2)]) (auto simp: thread_ok_def pending_def)
qed

lemma try_send_other: "try_send i frame p = (r, p') \<Longrightarrow> r \<noteq> Some True \<Longrightarrow> p' = p"
  by (auto simp: try_send_def Let_def split: if_splits)

lemma set_update_subset: "set (AList.update k v al) \<subseteq> insert (k, v) (set al)"
  by (induction al) auto

lemma accounted_spawn:
  assumes "accounted os p"
  shows "accounted os \<lparr>dp_workers = AList.update w (length (dp_threads p)) (dp_workers p),
                       dp_threads = dp_threads p @ [spawn_worker v started]\<rparr>"
  using assms
  by (auto simp: accounted_def thread_ok_def spawn_worker_def pending_def nth_append less_Suc_eq
      dest!: subsetD [OF set_update_subset])

lemma submit_accounted:
  assumes "accounted os p"
  shows "accounted (os @ fst (submit started now frame p)) (snd (submit started now frame p))"
proof -
  obtain i p1 where ip: "(case map_of (dp_workers p) (fd_window_id frame) of
            Some i \<Rightarrow> (i, p)
          | None \<Rightarrow> (length (dp_threads p),
              \<lparr>dp_workers = AList.update (fd_window_id frame) (length (dp_threads p)) (dp_workers p),
               dp_threads = dp_threads p @ [spawn_worker (fd_window_id frame) started]\<rparr>)) = (i, p1)" by fastforce
  have ok: "accounted os p1 \<and> i < length (dp_threads p1)"
  proof (cases "map_of (dp_workers p) (fd_window_id frame)")
    case (Some j)
    then show ?thesis using ip assms map_of_SomeD [OF Some] by (auto simp: accounted_def)
  qed (use ip assms accounted_spawn in auto)
  obtain r p2 where r: "try_send i frame p1 = (r, p2)" by fastforce
  have sub: "submit started now frame p = (case (r, p2) of
       (Some True, p2) \<Rightarrow> ([Accepted i frame], p2)
     | (Some False, p2) \<Rightarrow> ([Backpressure frame i], p2)
     | (None, p2) \<Rightarrow> ([Refused (report_dropped (fd_window_id frame) (fd_frame_id frame) now)],
          p2\<lparr>dp_workers := AList.delete (fd_window_id frame) (dp_workers p2)\<rparr>))"
    unfolding submit_def Let_def ip by (simp add: r)
  show ?thesis
  proof (cases "r = Some True")
    case True
    then show ?thesis using sub try_send_accounted [of os p1 i frame p2] ok r by simp
  next
    case False
    then have "p2 = p1" using try_send_other [OF r] by simp
    then show ?thesis
      using sub False ok by (cases r) (auto intro!: accounted_silent [of os p1] simp: filter_id_conv AList.delete_eq)
  qed
qed

lemma place_accounted:
  assumes "accounted os p" "i < length (dp_threads p)"
  shows "accounted (os @ fst (place i frame p)) (snd (place i frame p))"
proof -
  obtain r p1 where r: "try_send i frame p = (r, p1)" by fastforce
  show ?thesis
  proof (cases "r = Some True")
    case True
    then show ?thesis using try_send_accounted [OF assms] r by (simp add: place_def)
  next
    case False
    then show ?thesis using try_send_other [OF r] r assms(1) by (simp add: place_def split: option.split bool.split)
  qed
qed

lemma take_frame_accounted:
  assumes "accounted os p"
  shows "accounted os (take_frame i p)"
proof (cases "\<exists>frame rest. i < length (dp_threads p) \<and> wk_alive (dp_threads p ! i) \<and> wk_current (dp_threads p ! i) = None \<and> wk_queue (dp_threads p ! i) = frame # rest")
  case True
  then obtain frame rest where w: "i < length (dp_threads p)" "wk_alive (dp_threads p ! i)" "wk_current (dp_threads p ! i) = None"
      "wk_queue (dp_threads p ! i) = frame # rest" by blast
  then have "take_frame i p = p\<lparr>dp_threads := (dp_threads p)[i := (dp_threads p ! i)\<lparr>wk_queue := rest, wk_current := Some frame\<rparr>]\<rparr>"
    by (simp add: take_frame_def Let_def)
  moreover have "accounted (os @ []) (p\<lparr>dp_threads := (dp_threads p)[i := (dp_threads p ! i)\<lparr>wk_queue := rest, wk_current := Some frame\<rparr>]\<rparr>)"
    using accounted_thread [OF assms w(1)] w by (intro accounted_update [OF assms w(1)]) (auto simp: thread_ok_def pending_def)
  ultimately show ?thesis by simp
next
  case False
  then have "take_frame i p = p" by (auto simp: take_frame_def Let_def split: bool.split option.split list.split)
  then show ?thesis using assms by simp
qed

lemma work_report:
  "work codec dec w env frame d = (report, pic, d') \<Longrightarrow> report_window_id report = w \<and> report_frame_id report = fd_frame_id frame"
  by (auto simp: work_def report_dropped_def Let_def split: sum.splits option.splits if_splits prod.splits)

lemma finish_accounted:
  assumes "accounted os p"
  shows "accounted (os @ fst (finish codec dec i env p)) (snd (finish codec dec i env p))"
proof (cases "i < length (dp_threads p) \<and> wk_current (dp_threads p ! i) \<noteq> None")
  case True
  then obtain frame where w: "i < length (dp_threads p)" "wk_current (dp_threads p ! i) = Some frame" by auto
  let ?w = "dp_threads p ! i"
  obtain report pic d where wk: "work codec dec (wk_window ?w) env frame (wk_decoder ?w) = (report, pic, d)" by (metis prod_cases3)
  note rep = work_report [OF wk]
  have ok: "thread_ok (accepted_by i os) (reported_by i os) ?w" by (rule accounted_thread [OF assms w(1)])
  then have alive: "wk_alive ?w" using w(2) by (auto simp: thread_ok_def pending_def)
  have done_ok: "thread_ok (accepted_by i os) (reported_by i os @ [report]) (?w\<lparr>wk_current := None, wk_decoder := d\<rparr>)"
    using ok rep w(2) by (auto simp: thread_ok_def pending_def)
  have gone_ok: "thread_ok (accepted_by i os) (reported_by i os @ [report]) (?w\<lparr>wk_current := None, wk_decoder := d, wk_queue := [], wk_alive := False\<rparr>)"
    using ok rep w(2) alive by (auto simp: thread_ok_def pending_def)
  show ?thesis
    using w wk done_ok gone_ok
    by (cases pic) (auto simp: finish_def Let_def intro!: accounted_update [OF assms w(1)])
next
  case False
  then show ?thesis using assms by (auto simp: finish_def Let_def)
qed

lemma dp_step_accounted:
  "accounted os p \<Longrightarrow> accounted (os @ fst (dp_step codec dec e p)) (snd (dp_step codec dec e p))"
  by (cases e) (auto simp: submit_accounted place_accounted take_frame_accounted finish_accounted
      dp_forget_def AList.delete_eq intro!: accounted_silent [of os p "[]", simplified])

lemma dp_run_Cons:
  "dp_run codec dec (e # es) p = (case dp_step codec dec e p of (os, p1) \<Rightarrow> (os @ fst (dp_run codec dec es p1), snd (dp_run codec dec es p1)))"
  by (simp split: prod.split)

lemma dp_run_append:
  "dp_run codec dec (es @ es') p =
     (fst (dp_run codec dec es p) @ fst (dp_run codec dec es' (snd (dp_run codec dec es p))), snd (dp_run codec dec es' (snd (dp_run codec dec es p))))"
  by (induction es arbitrary: p) (simp_all split: prod.split)

lemma dp_run_accounted:
  "accounted os p \<Longrightarrow> accounted (os @ fst (dp_run codec dec es p)) (snd (dp_run codec dec es p))"
proof (induction es arbitrary: os p)
  case (Cons e es)
  from Cons.IH [OF dp_step_accounted [OF Cons.prems, of codec dec e]] show ?case by (simp add: dp_run_Cons case_prod_beta)
qed simp

section \<open>Draining\<close>

text \<open>A thread that is left alone with its queue takes and finishes its frames one after the other.\<close>

fun drain :: "nat \<Rightarrow> 'b env list \<Rightarrow> 'b event list" where
  "drain i [] = []"
| "drain i (env # envs) = Take i # Finish i env # drain i envs"

lemma drain_step:
  assumes "i < length (dp_threads p)" "wk_alive (dp_threads p ! i)" "wk_current (dp_threads p ! i) = None"
    "wk_queue (dp_threads p ! i) = f # q" "en_delivers env"
  shows "\<exists>os p'. dp_run codec dec [Take i, Finish i env] p = (os, p') \<and> length (dp_threads p') = length (dp_threads p)
    \<and> wk_alive (dp_threads p' ! i) \<and> wk_current (dp_threads p' ! i) = None \<and> wk_queue (dp_threads p' ! i) = q"
proof -
  let ?w = "(dp_threads p ! i)\<lparr>wk_queue := q, wk_current := Some f\<rparr>"
  let ?p = "p\<lparr>dp_threads := (dp_threads p)[i := ?w]\<rparr>"
  have "take_frame i p = ?p" using assms by (simp add: take_frame_def Let_def)
  moreover obtain report pic d where "work codec dec (wk_window ?w) env f (wk_decoder ?w) = (report, pic, d)" by (metis prod_cases3)
  ultimately show ?thesis using assms by (cases pic) (auto simp: finish_def Let_def)
qed

lemma drain_empties:
  assumes "i < length (dp_threads p)" "wk_alive (dp_threads p ! i)" "wk_current (dp_threads p ! i) = None"
    "length envs = length (wk_queue (dp_threads p ! i))" "\<forall>env \<in> set envs. en_delivers env"
  shows "i < length (dp_threads (snd (dp_run codec dec (drain i envs) p)))
    \<and> wk_alive (dp_threads (snd (dp_run codec dec (drain i envs) p)) ! i)
    \<and> pending (dp_threads (snd (dp_run codec dec (drain i envs) p)) ! i) = []"
  using assms
proof (induction envs arbitrary: p)
  case Nil
  then show ?case by (simp add: pending_def)
next
  case (Cons env envs)
  then obtain f q where q: "wk_queue (dp_threads p ! i) = f # q" by (cases "wk_queue (dp_threads p ! i)") auto
  obtain os p' where run: "dp_run codec dec [Take i, Finish i env] p = (os, p')"
      and p': "length (dp_threads p') = length (dp_threads p)" "wk_alive (dp_threads p' ! i)" "wk_current (dp_threads p' ! i) = None" "wk_queue (dp_threads p' ! i) = q"
    using drain_step [OF Cons.prems(1,2,3) q, of env codec dec] Cons.prems(5) by auto
  have "snd (dp_run codec dec (drain i (env # envs)) p) = snd (dp_run codec dec (drain i envs) p')"
    using dp_run_append [of codec dec "[Take i, Finish i env]" "drain i envs" p] run by simp
  then show ?case using Cons.IH [of p'] Cons.prems p' q by simp
qed

lemma finish_accepts_nothing: "accepted_by i (fst (finish codec dec j env p)) = []"
  by (simp add: finish_def Let_def split: option.split prod.split)

lemma drain_accepts_nothing: "accepted_by i (fst (dp_run codec dec (drain j envs) p)) = []"
  by (induction envs arbitrary: p) (simp_all add: dp_run_Cons case_prod_beta finish_accepts_nothing)

lemma drain_reports_all:
  assumes "accounted os p" "i < length (dp_threads p)" "wk_alive (dp_threads p ! i)" "wk_current (dp_threads p ! i) = None"
    "length envs = length (wk_queue (dp_threads p ! i))" "\<forall>env \<in> set envs. en_delivers env"
  shows "map fd_frame_id (accepted_by i os) =
         map report_frame_id (reported_by i (os @ fst (dp_run codec dec (drain i envs) p)))"
proof -
  let ?run = "dp_run codec dec (drain i envs) p"
  have "thread_ok (accepted_by i (os @ fst ?run)) (reported_by i (os @ fst ?run)) (dp_threads (snd ?run) ! i)"
    using drain_empties [OF assms(2-6)] by (intro accounted_thread dp_run_accounted assms(1)) blast
  then show ?thesis
    using drain_empties [OF assms(2-6), of codec dec] by (auto simp: thread_ok_def drain_accepts_nothing)
qed

section \<open>What is delivered\<close>

text \<open>Under the contract of the decoder, and of a factory that builds decoders of the asked codec.\<close>

definition honest :: "('b \<Rightarrow> u8) \<Rightarrow> 'b event \<Rightarrow> 'b DecodePipeline \<Rightarrow> bool" where
  "honest codec e p \<longleftrightarrow>
    (case e of
       Finish i env \<Rightarrow>
         (\<forall>b f. en_made env = Inr b \<longrightarrow> i < length (dp_threads p) \<longrightarrow> wk_current (dp_threads p ! i) = Some f \<longrightarrow> codec b = fd_codec f)
     | _ \<Rightarrow> True)"

fun honest_run :: "('b \<Rightarrow> u8) \<Rightarrow> ('b \<Rightarrow> FrameData \<Rightarrow> ((DecodeError + FrameData option) \<times> 'b) option) \<Rightarrow> 'b event list \<Rightarrow>
    'b DecodePipeline \<Rightarrow> bool" where
  "honest_run codec dec [] p \<longleftrightarrow> True"
| "honest_run codec dec (e # es) p \<longleftrightarrow> honest codec e p \<and> honest_run codec dec es (snd (dp_step codec dec e p))"

lemma map_sum_Inr: "map_sum f g x = Inr y \<longleftrightarrow> (\<exists>z. x = Inr z \<and> y = g z)"
  by (cases x) auto

context decoder
begin

lemma work_presents:
  assumes "work codec decode w env frame d = (report, Some g, d')" "\<And>b. en_made env = Inr b \<Longrightarrow> codec b = fd_codec frame"
  shows "presents frame g \<and> report = Decoded w (fd_frame_id frame) (en_now env)"
proof -
  obtain active b' where active: "decode active frame = Some (Inr (Some g), b')" "codec active = fd_codec frame"
      and "report = Decoded w (fd_frame_id frame) (en_now env)"
    using assms
    by (auto simp: work_def Let_def map_sum_Inr split: if_splits option.splits sum.splits prod.splits)
  then show ?thesis using decoded_presents [of frame active g b'] by simp
qed

lemma finish_delivers:
  assumes "Delivered i g \<in> set (fst (finish codec decode j env p))" "honest codec (Finish j env) p"
  shows "presentable g"
proof -
  have j: "j < length (dp_threads p)" using assms(1) by (auto simp: finish_def split: if_splits)
  obtain frame where f: "wk_current (dp_threads p ! j) = Some frame"
    using assms(1) j by (auto simp: finish_def Let_def split: option.splits)
  obtain report pic d where wk: "work codec decode (wk_window (dp_threads p ! j)) env frame (wk_decoder (dp_threads p ! j)) = (report, pic, d)"
    by (metis prod_cases3)
  have "pic = Some g" using assms(1) j f wk by (auto simp: finish_def Let_def split: option.splits)
  then show ?thesis using work_presents [of _ env frame _ report g d] wk assms(2) j f by (auto simp: honest_def presents_def)
qed

lemma step_delivers:
  assumes "Delivered i g \<in> set (fst (dp_step codec decode e p))" "honest codec e p"
  shows "presentable g"
proof (cases e)
  case (Finish j env)
  then show ?thesis using assms finish_delivers by simp
qed (use assms in \<open>auto simp: submit_def place_def Let_def split: option.splits prod.splits bool.splits if_splits\<close>)

lemma run_delivers:
  "Delivered i g \<in> set (fst (dp_run codec decode es p)) \<Longrightarrow> honest_run codec decode es p \<Longrightarrow> presentable g"
proof (induction es arbitrary: p)
  case (Cons e es)
  then show ?case using step_delivers [of i g e p] Cons.IH by (auto simp: dp_run_Cons case_prod_beta)
qed simp

end

section \<open>Properties\<close>

lemma submit_outcome:
  "\<exists>i. fst (submit started now frame p) \<in>
     {[Accepted i frame], [Backpressure frame i], [Refused (Dropped (fd_window_id frame) (fd_frame_id frame) now)]}"
  by (auto simp: submit_def report_dropped_def Let_def split: option.splits prod.splits bool.splits)

lemma new_decoder_codec: "new_decoder h264 oh c = Inr b \<Longrightarrow> box_codec b = c"
  by (auto simp: new_decoder_def map_sum_Inr split: if_splits)

text \<open>
  No frame is lost between the network and the acknowledgement. Under every interleaving of the
  session task and the worker threads, decoder errors and panics included, a submitted frame is
  queued, handed back to the caller, or reported as dropped; a queue never exceeds its depth; a
  running thread has reported the frames it accepted exactly once each and in the order they were
  submitted, except the ones it still holds, and left alone it reports those too; only a thread
  that ended because the display is gone may have left its last frames unreported. Everything
  delivered to the display can be blitted as it is.
\<close>

theorem frames_accounted_for:
  assumes "dp_run box_codec (box_decode ops oh) es DecodePipeline_new = (os, p)" "i < length (dp_threads p)"
    and "honest_run box_codec (box_decode ops oh) es DecodePipeline_new"
  shows "(\<exists>j. fst (submit started now frame p) \<in>
            {[Accepted j frame], [Backpressure frame j], [Refused (Dropped (fd_window_id frame) (fd_frame_id frame) now)]})
       \<and> length (wk_queue (dp_threads p ! i)) \<le> QUEUE_DEPTH
       \<and> (\<forall>r \<in> set (reported_by i os). report_window_id r = wk_window (dp_threads p ! i))
       \<and> (wk_alive (dp_threads p ! i) \<longrightarrow>
            map fd_frame_id (accepted_by i os) = map report_frame_id (reported_by i os) @ map fd_frame_id (pending (dp_threads p ! i)))
       \<and> (\<exists>rest. map fd_frame_id (accepted_by i os) = map report_frame_id (reported_by i os) @ rest)
       \<and> (\<forall>envs. wk_alive (dp_threads p ! i) \<and> wk_current (dp_threads p ! i) = None
            \<and> length envs = length (wk_queue (dp_threads p ! i)) \<and> (\<forall>env \<in> set envs. en_delivers env) \<longrightarrow>
            map fd_frame_id (accepted_by i os) =
              map report_frame_id (reported_by i (os @ fst (dp_run box_codec (box_decode ops oh) (drain i envs) p))))
       \<and> (\<forall>g. Delivered i g \<in> set os \<longrightarrow> presentable g)"
proof -
  have acc: "accounted os p" using dp_run_accounted [OF accounted_new, of box_codec "box_decode ops oh" es] assms(1) by simp
  have ok: "thread_ok (accepted_by i os) (reported_by i os) (dp_threads p ! i)" by (rule accounted_thread [OF acc assms(2)])
  have "presentable g" if "Delivered i g \<in> set os" for g
    using box.run_delivers [OF _ assms(3), of i g] assms(1) that by simp
  then show ?thesis
    using submit_outcome [of started now frame p] ok drain_reports_all [OF acc assms(2), of _ box_codec "box_decode ops oh"]
    by (intro conjI) (auto simp: thread_ok_def)
qed

text \<open>Witness: one frame of one window goes through.\<close>

theorem frames_accounted_for_witness:
  "map fd_frame_id (accepted_by 0 [Accepted 0 (raw_frame 5 [1, 2, 3, 4]), Report 0 (Decoded 5 1 9), Delivered 0 (raw_frame 5 [1, 2, 3, 4])])
     = map report_frame_id (reported_by 0 [Accepted 0 (raw_frame 5 [1, 2, 3, 4]), Report 0 (Decoded 5 1 9), Delivered 0 (raw_frame 5 [1, 2, 3, 4])])
   \<and> presentable (raw_frame 5 [1, 2, 3, 4])"
proof -
  let ?f = "raw_frame 5 [1, 2, 3, 4]" and ?env = "\<lparr>en_now = 9, en_made = Inr Passthrough, en_delivers = True\<rparr>"
  let ?os = "[Accepted 0 ?f, Report 0 (Decoded 5 1 9), Delivered 0 ?f]"
  let ?es = "[Submit True 1 ?f, Take 0, Finish 0 ?env]"
  let ?p = "\<lparr>dp_workers = [(5, 0)], dp_threads = [\<lparr>wk_window = 5, wk_queue = [], wk_current = None, wk_decoder = Some Passthrough, wk_alive = True\<rparr>]\<rparr>"
  have raw: "passthrough_decode ?f = Inr (Some ?f)"
    by (simp add: passthrough_decode_def raw_frame_def checked_geometry_def usize_checked_def MAX_DECODED_PIXELS_def)
  have ids: "fd_window_id ?f = 5" "fd_frame_id ?f = 1" "fd_codec ?f = RAW_BGRA" by (simp_all add: raw_frame_def)
  have run: "dp_run box_codec (box_decode list_lanes grey_codec) ?es DecodePipeline_new = (?os, ?p)"
    by (simp add: submit_def try_send_def spawn_worker_def DecodePipeline_new_def QUEUE_DEPTH_def take_frame_def finish_def work_def ids raw)
  have honest: "honest_run box_codec (box_decode list_lanes grey_codec) ?es DecodePipeline_new"
    by (simp add: honest_def submit_def try_send_def spawn_worker_def DecodePipeline_new_def QUEUE_DEPTH_def take_frame_def ids)
  show ?thesis using frames_accounted_for [OF run _ honest, of 0] by (simp add: pending_def)
qed

end
