(* ===== verification/Monitor.thy ===== *)
theory Monitor
  imports Latency
begin

text \<open>
  The client's per-frame latency accounting (\<open>oxclient/src/latency.rs\<close>): a frame is noted when it
  arrives, when it is decoded, and when it is presented or dropped; finished frames feed the
  per-window statistics, the current interval and a timeline of the most recent ones.

  Times and counters are 64-bit words (counters wrap), the clock offset is an integer as in
  \<open>Latency\<close>. The hash and tree maps are association lists; the smallest key of the tree map is
  computed. The text of the report is not modelled, but what it is computed from is: closing the
  interval (without the floating-point frame rate), the choice of the bucket width, and the buckets
  and outliers of the timeline.
\<close>

section \<open>State\<close>

definition SAMPLE_WINDOW :: nat where "SAMPLE_WINDOW = 2048"
definition MAX_IN_FLIGHT :: nat where "MAX_IN_FLIGHT = 256"
definition AGENT_IN_FLIGHT_BUDGET :: nat where "AGENT_IN_FLIGHT_BUDGET = 2"
definition OUTLIER_PERCENTILE :: u8 where "OUTLIER_PERCENTILE = 95"
definition MIN_LOCALISE_FRAMES :: nat where "MIN_LOCALISE_FRAMES = 40"
definition TAIL_BUCKETS_US :: "u64 list" where
  "TAIL_BUCKETS_US = [1000000, 2000000, 5000000, 10000000, 30000000, 60000000, 300000000]"
definition MAX_TAIL_ROWS :: nat where "MAX_TAIL_ROWS = 16"

record FrameStages =
  fs_capture_to_encode_us :: u64
  fs_encode_to_arrival_us :: u64
  fs_arrival_to_decode_us :: u64
  fs_decode_to_present_us :: u64
  fs_client_us :: u64
  fs_total_us :: u64

record ArrivedFrame =
  af_window_id :: u32
  af_frame_id :: u64
  af_captured_us :: u64
  af_encoded_us :: u64
  af_arrived_us :: u64
  af_keyframe :: bool
  af_bytes :: nat

record Partial =
  pa_captured_us :: u64
  pa_encoded_us :: u64
  pa_arrived_us :: u64
  pa_decoded_us :: "u64 option"
  pa_keyframe :: bool
  pa_bytes :: u64
  pa_encode_gap_us :: "u64 option"
  pa_arrival_gap_us :: "u64 option"
  pa_backlog :: nat

text \<open>\<open>transit\<close> is the two by two table, indexed by keyframe and backlogged.\<close>

record WindowLatency =
  wl_in_flight :: "(u64 \<times> Partial) list"
  wl_capture_to_encode :: Samples
  wl_encode_to_arrival :: Samples
  wl_arrival_to_decode :: Samples
  wl_decode_to_present :: Samples
  wl_client :: Samples
  wl_total :: Samples
  wl_transit :: "Samples list list"
  wl_keyframe_bytes :: Samples
  wl_delta_bytes :: Samples
  wl_presented :: u64
  wl_dropped :: u64

definition WindowLatency_new :: WindowLatency where
  "WindowLatency_new =
    (let s = Samples_new SAMPLE_WINDOW in
     \<lparr>wl_in_flight = [], wl_capture_to_encode = s, wl_encode_to_arrival = s, wl_arrival_to_decode = s,
      wl_decode_to_present = s, wl_client = s, wl_total = s, wl_transit = [[s, s], [s, s]],
      wl_keyframe_bytes = s, wl_delta_bytes = s, wl_presented = 0, wl_dropped = 0\<rparr>)"

record Completed =
  co_window_id :: u32
  co_frame_id :: u64
  co_presented_us :: u64
  co_capture_to_encode_us :: u64
  co_encode_to_arrival_us :: u64
  co_arrival_to_decode_us :: u64
  co_decode_to_present_us :: u64
  co_total_us :: u64
  co_bytes :: u64
  co_keyframe :: bool
  co_encode_gap_us :: "u64 option"
  co_arrival_gap_us :: "u64 option"

record IntervalSummary =
  is_frames :: u64
  is_transit_p50_us :: "u64 option"
  is_transit_p95_us :: "u64 option"
  is_total_p50_us :: "u64 option"

record LatencyMonitor =
  lm_windows :: "(u32 \<times> WindowLatency) list"
  lm_enabled :: bool
  lm_interval_transit :: Samples
  lm_interval_total :: Samples
  lm_interval_frames :: u64
  lm_interval_started_us :: u64
  lm_history :: "IntervalSummary list"
  lm_arrival_gaps :: Samples
  lm_last_arrival_us :: "(u32 \<times> u64) list"
  lm_last_encoded_us :: "(u32 \<times> u64) list"
  lm_timeline :: "Completed list"
  lm_timeline_evicted :: u64
  lm_read_stalls :: u64
  lm_read_stalled_us :: u64

definition with_recording :: "bool \<Rightarrow> LatencyMonitor" where
  "with_recording enabled =
    (let s = Samples_new SAMPLE_WINDOW in
     \<lparr>lm_windows = [], lm_enabled = enabled, lm_interval_transit = s, lm_interval_total = s,
      lm_interval_frames = 0, lm_interval_started_us = 0, lm_history = [], lm_arrival_gaps = s,
      lm_last_arrival_us = [], lm_last_encoded_us = [], lm_timeline = [], lm_timeline_evicted = 0,
      lm_read_stalls = 0, lm_read_stalled_us = 0\<rparr>)"

section \<open>Operations\<close>

definition on_read_stall :: "u64 \<Rightarrow> LatencyMonitor \<Rightarrow> LatencyMonitor" where
  "on_read_stall stalled_us m =
    (if \<not> lm_enabled m then m
     else m\<lparr>lm_read_stalls := lm_read_stalls m + 1,
            lm_read_stalled_us := u64_saturating_add (lm_read_stalled_us m) stalled_us\<rparr>)"

definition smallest_key :: "(u64 \<times> 'a) list \<Rightarrow> u64" where
  "smallest_key al = (case map fst al of [] \<Rightarrow> 0 | k # ks \<Rightarrow> fold min ks k)"

text \<open>The \<open>while\<close> loop of \<open>on_arrival\<close>; an association list longer than the limit is not empty.\<close>

lemma smallest_key_in: "al \<noteq> [] \<Longrightarrow> smallest_key al \<in> fst ` set al"
proof -
  assume "al \<noteq> []"
  then obtain k v al' where al: "al = (k, v) # al'" by (cases al) auto
  have "fold min ks k \<in> insert k (set ks)" for ks :: "u64 list" and k by (induction ks arbitrary: k) (fastforce simp: min_def)+
  from this [of "map fst al'" k] show ?thesis unfolding al by (simp add: smallest_key_def)
qed

function evict :: "WindowLatency \<Rightarrow> WindowLatency" where
  "evict w =
    (if MAX_IN_FLIGHT < length (wl_in_flight w) then
       evict (w\<lparr>wl_in_flight := AList.delete (smallest_key (wl_in_flight w)) (wl_in_flight w), wl_dropped := wl_dropped w + 1\<rparr>)
     else w)"
  by pat_completeness auto
termination
proof (relation "measure (\<lambda>w. length (wl_in_flight w))")
  fix w :: WindowLatency
  assume "MAX_IN_FLIGHT < length (wl_in_flight w)"
  then have "smallest_key (wl_in_flight w) \<in> fst ` set (wl_in_flight w)" by (intro smallest_key_in) auto
  then have "length (AList.delete (smallest_key (wl_in_flight w)) (wl_in_flight w)) < length (wl_in_flight w)"
    by (auto simp: AList.delete_eq intro!: length_filter_less)
  then show "(w\<lparr>wl_in_flight := AList.delete (smallest_key (wl_in_flight w)) (wl_in_flight w), wl_dropped := wl_dropped w + 1\<rparr>, w)
      \<in> measure (\<lambda>w. length (wl_in_flight w))" by simp
qed simp

declare evict.simps [simp del]

definition on_arrival :: "ArrivedFrame \<Rightarrow> LatencyMonitor \<Rightarrow> LatencyMonitor" where
  "on_arrival frame m =
    (if \<not> lm_enabled m then m
     else
       let id = af_window_id frame;
           arrival_gap_us = map_option (\<lambda>previous. u64_saturating_sub (af_arrived_us frame) previous) (map_of (lm_last_arrival_us m) id);
           gaps = (case arrival_gap_us of None \<Rightarrow> lm_arrival_gaps m | Some gap \<Rightarrow> sm_push gap (lm_arrival_gaps m));
           encode_gap_us = map_option (\<lambda>previous. u64_saturating_sub (af_encoded_us frame) previous) (map_of (lm_last_encoded_us m) id);
           window = (case map_of (lm_windows m) id of None \<Rightarrow> WindowLatency_new | Some w \<Rightarrow> w);
           backlog = length (wl_in_flight window);
           window1 = (if af_keyframe frame
                      then window\<lparr>wl_keyframe_bytes := sm_push (word_of_nat (af_bytes frame)) (wl_keyframe_bytes window)\<rparr>
                      else window\<lparr>wl_delta_bytes := sm_push (word_of_nat (af_bytes frame)) (wl_delta_bytes window)\<rparr>);
           partial = \<lparr>pa_captured_us = af_captured_us frame, pa_encoded_us = af_encoded_us frame, pa_arrived_us = af_arrived_us frame,
                      pa_decoded_us = None, pa_keyframe = af_keyframe frame, pa_bytes = word_of_nat (af_bytes frame),
                      pa_encode_gap_us = encode_gap_us, pa_arrival_gap_us = arrival_gap_us, pa_backlog = backlog\<rparr>;
           window2 = window1\<lparr>wl_in_flight := AList.update (af_frame_id frame) partial (wl_in_flight window1)\<rparr>
       in m\<lparr>lm_windows := AList.update id (evict window2) (lm_windows m),
            lm_arrival_gaps := gaps,
            lm_last_arrival_us := AList.update id (af_arrived_us frame) (lm_last_arrival_us m),
            lm_last_encoded_us := AList.update id (af_encoded_us frame) (lm_last_encoded_us m)\<rparr>)"

definition on_decoded :: "u32 \<Rightarrow> u64 \<Rightarrow> u64 \<Rightarrow> LatencyMonitor \<Rightarrow> LatencyMonitor" where
  "on_decoded window_id frame_id decoded_us m =
    (if \<not> lm_enabled m then m
     else case map_of (lm_windows m) window_id of
       None \<Rightarrow> m
     | Some window \<Rightarrow>
         (case map_of (wl_in_flight window) frame_id of
            None \<Rightarrow> m
          | Some partial \<Rightarrow>
              m\<lparr>lm_windows := AList.update window_id
                  (window\<lparr>wl_in_flight := AList.update frame_id (partial\<lparr>pa_decoded_us := Some decoded_us\<rparr>) (wl_in_flight window)\<rparr>)
                  (lm_windows m)\<rparr>))"

text \<open>The stages of a frame, from what was noted about it.\<close>

definition stages_of :: "Partial \<Rightarrow> u64 \<Rightarrow> int \<Rightarrow> FrameStages" where
  "stages_of partial presented_us offset_us =
    (let decoded_us = (case pa_decoded_us partial of None \<Rightarrow> pa_arrived_us partial | Some t \<Rightarrow> t);
         captured_client = agent_to_client (pa_captured_us partial) offset_us;
         encoded_client = agent_to_client (pa_encoded_us partial) offset_us in
     \<lparr>fs_capture_to_encode_us = u64_saturating_sub (pa_encoded_us partial) (pa_captured_us partial),
      fs_encode_to_arrival_us = u64_saturating_sub (pa_arrived_us partial) encoded_client,
      fs_arrival_to_decode_us = u64_saturating_sub decoded_us (pa_arrived_us partial),
      fs_decode_to_present_us = u64_saturating_sub presented_us decoded_us,
      fs_client_us = u64_saturating_sub presented_us (pa_arrived_us partial),
      fs_total_us = u64_saturating_sub presented_us captured_client\<rparr>)"

definition push_transit :: "bool \<Rightarrow> bool \<Rightarrow> u64 \<Rightarrow> Samples list list \<Rightarrow> Samples list list" where
  "push_transit keyframe backlogged v t =
    (let i = (if keyframe then 1 else 0); j = (if backlogged then 1 else 0) in t[i := (t ! i)[j := sm_push v (t ! i ! j)]])"

definition on_presented :: "u32 \<Rightarrow> u64 \<Rightarrow> u64 \<Rightarrow> int \<Rightarrow> LatencyMonitor \<Rightarrow> FrameStages option \<times> LatencyMonitor" where
  "on_presented window_id frame_id presented_us offset_us m =
    (if \<not> lm_enabled m then (None, m)
     else case map_of (lm_windows m) window_id of
       None \<Rightarrow> (None, m)
     | Some window \<Rightarrow>
         (case map_of (wl_in_flight window) frame_id of
            None \<Rightarrow> (None, m)
          | Some partial \<Rightarrow>
              let stages = stages_of partial presented_us offset_us;
                  backlogged = (AGENT_IN_FLIGHT_BUDGET \<le> pa_backlog partial);
                  window' = window\<lparr>
                    wl_in_flight := AList.delete frame_id (wl_in_flight window),
                    wl_capture_to_encode := sm_push (fs_capture_to_encode_us stages) (wl_capture_to_encode window),
                    wl_encode_to_arrival := sm_push (fs_encode_to_arrival_us stages) (wl_encode_to_arrival window),
                    wl_arrival_to_decode := sm_push (fs_arrival_to_decode_us stages) (wl_arrival_to_decode window),
                    wl_decode_to_present := sm_push (fs_decode_to_present_us stages) (wl_decode_to_present window),
                    wl_client := sm_push (fs_client_us stages) (wl_client window),
                    wl_total := sm_push (fs_total_us stages) (wl_total window),
                    wl_transit := push_transit (pa_keyframe partial) backlogged (fs_encode_to_arrival_us stages) (wl_transit window),
                    wl_presented := wl_presented window + 1\<rparr>;
                  full = (length (lm_timeline m) = SAMPLE_WINDOW);
                  record = \<lparr>co_window_id = window_id, co_frame_id = frame_id, co_presented_us = presented_us,
                    co_capture_to_encode_us = fs_capture_to_encode_us stages, co_encode_to_arrival_us = fs_encode_to_arrival_us stages,
                    co_arrival_to_decode_us = fs_arrival_to_decode_us stages, co_decode_to_present_us = fs_decode_to_present_us stages,
                    co_total_us = fs_total_us stages, co_bytes = pa_bytes partial, co_keyframe = pa_keyframe partial,
                    co_encode_gap_us = pa_encode_gap_us partial, co_arrival_gap_us = pa_arrival_gap_us partial\<rparr>
              in (Some stages,
                  m\<lparr>lm_windows := AList.update window_id window' (lm_windows m),
                    lm_interval_transit := sm_push (fs_encode_to_arrival_us stages) (lm_interval_transit m),
                    lm_interval_total := sm_push (fs_total_us stages) (lm_interval_total m),
                    lm_interval_frames := lm_interval_frames m + 1,
                    lm_timeline := (if full then tl (lm_timeline m) else lm_timeline m) @ [record],
                    lm_timeline_evicted := (if full then lm_timeline_evicted m + 1 else lm_timeline_evicted m)\<rparr>)))"

definition on_dropped :: "u32 \<Rightarrow> u64 \<Rightarrow> LatencyMonitor \<Rightarrow> LatencyMonitor" where
  "on_dropped window_id frame_id m =
    (if \<not> lm_enabled m then m
     else case map_of (lm_windows m) window_id of
       None \<Rightarrow> m
     | Some window \<Rightarrow>
         if map_of (wl_in_flight window) frame_id = None then m
         else m\<lparr>lm_windows := AList.update window_id
                  (window\<lparr>wl_in_flight := AList.delete frame_id (wl_in_flight window), wl_dropped := wl_dropped window + 1\<rparr>)
                  (lm_windows m)\<rparr>)"

definition lm_forget :: "u32 \<Rightarrow> LatencyMonitor \<Rightarrow> LatencyMonitor" where
  "lm_forget window_id m =
     m\<lparr>lm_windows := AList.delete window_id (lm_windows m),
       lm_last_arrival_us := AList.delete window_id (lm_last_arrival_us m),
       lm_last_encoded_us := AList.delete window_id (lm_last_encoded_us m)\<rparr>"

definition has_samples :: "LatencyMonitor \<Rightarrow> bool" where
  "has_samples m \<longleftrightarrow> list_ex (\<lambda>(id, w). \<not> sm_is_empty (wl_total w)) (lm_windows m)"

definition close_interval :: "u64 \<Rightarrow> LatencyMonitor \<Rightarrow> LatencyMonitor" where
  "close_interval now_us m =
    (let history = (if 0 < lm_interval_frames m
       then lm_history m @ [\<lparr>is_frames = lm_interval_frames m,
              is_transit_p50_us = sm_percentile 50 (lm_interval_transit m),
              is_transit_p95_us = sm_percentile 95 (lm_interval_transit m),
              is_total_p50_us = sm_percentile 50 (lm_interval_total m)\<rparr>]
       else lm_history m) in
     m\<lparr>lm_interval_transit := Samples_new SAMPLE_WINDOW, lm_interval_total := Samples_new SAMPLE_WINDOW,
       lm_interval_frames := 0, lm_interval_started_us := now_us, lm_history := history\<rparr>)"

section \<open>The timeline in buckets\<close>

definition samples_of :: "u64 list \<Rightarrow> Samples" where
  "samples_of values = fold sm_push values (Samples_new (length values))"

definition tail_bucket_us :: "u64 \<Rightarrow> u64" where
  "tail_bucket_us span_us =
    (case find (\<lambda>width. unat (span_us div width) < MAX_TAIL_ROWS) TAIL_BUCKETS_US of
       Some width \<Rightarrow> width
     | None \<Rightarrow> TAIL_BUCKETS_US ! (length TAIL_BUCKETS_US - 1))"

definition bucket_width :: "Completed list \<Rightarrow> u64" where
  "bucket_width timeline =
    (let times = map co_presented_us timeline;
         earliest = (case times of [] \<Rightarrow> 0 | t # ts \<Rightarrow> fold min ts t);
         latest = (case times of [] \<Rightarrow> 0 | t # ts \<Rightarrow> fold max ts t) in
     tail_bucket_us (u64_saturating_sub latest earliest))"

text \<open>The tree map of buckets, in the order of its keys.\<close>

definition tail_buckets :: "Completed list \<Rightarrow> (u64 \<times> Completed list) list" where
  "tail_buckets timeline =
    (let width = bucket_width timeline;
         keys = sort (remdups (map (\<lambda>c. co_presented_us c div width) timeline)) in
     map (\<lambda>k. (k, filter (\<lambda>c. co_presented_us c div width = k) timeline)) keys)"

definition tail_threshold :: "Completed list \<Rightarrow> u64 option" where
  "tail_threshold timeline =
    (if length timeline < MIN_LOCALISE_FRAMES then None
     else sm_percentile OUTLIER_PERCENTILE (samples_of (map co_encode_to_arrival_us timeline)))"

definition tail_outliers :: "u64 \<Rightarrow> Completed list \<Rightarrow> Completed list" where
  "tail_outliers threshold timeline = filter (\<lambda>c. threshold < co_encode_to_arrival_us c) timeline"

section \<open>Stages\<close>

text \<open>An agent timestamp on the client's clock, when the conversion does not saturate.\<close>

definition convertible :: "u64 \<Rightarrow> int \<Rightarrow> bool" where
  "convertible t offset \<longleftrightarrow> 0 \<le> uint t - offset \<and> uint t - offset < 2 ^ 64"

lemma uint_of_nonneg: "0 \<le> k \<Longrightarrow> k < 2 ^ 64 \<Longrightarrow> uint (of_int k :: u64) = k"
  by (simp add: unsigned_of_int take_bit_int_eq_self)

lemma agent_to_client_exact:
  assumes "convertible t offset" "\<bar>offset\<bar> < 2 ^ 64"
  shows "uint (agent_to_client t offset) = uint t - offset"
proof (cases "0 \<le> offset")
  case True
  then have "uint (of_int \<bar>offset\<bar> :: u64) = offset" using assms(2) uint_of_nonneg [of "\<bar>offset\<bar>"] by simp
  then show ?thesis
    using True assms by (simp add: agent_to_client_def u64_sub_int word_le_def convertible_def)
next
  case False
  then have o: "uint (of_int \<bar>offset\<bar> :: u64) = - offset" using assms(2) uint_of_nonneg [of "\<bar>offset\<bar>"] by linarith
  have "int (unat t + unat (of_int \<bar>offset\<bar> :: u64)) < 2 ^ 64" using assms(1) o by (simp add: convertible_def)
  then have "unat t + unat (of_int \<bar>offset\<bar> :: u64) < 2 ^ 64" by (simp only: of_nat_less_numeral_power_cancel_iff)
  then show ?thesis using False o by (simp add: agent_to_client_def u64_add_int)
qed

definition decoded_at :: "Partial \<Rightarrow> u64" where
  "decoded_at p = (case pa_decoded_us p of None \<Rightarrow> pa_arrived_us p | Some t \<Rightarrow> t)"

text \<open>The timestamps of a frame come in the order of its journey, on the clock they belong to.\<close>

definition journey :: "Partial \<Rightarrow> u64 \<Rightarrow> int \<Rightarrow> bool" where
  "journey p presented offset \<longleftrightarrow>
     \<bar>offset\<bar> < 2 ^ 64 \<and> convertible (pa_captured_us p) offset \<and> convertible (pa_encoded_us p) offset
   \<and> uint (pa_captured_us p) \<le> uint (pa_encoded_us p) \<and> uint (pa_encoded_us p) - offset \<le> uint (pa_arrived_us p)
   \<and> uint (pa_arrived_us p) \<le> uint (decoded_at p) \<and> uint (decoded_at p) \<le> uint presented"

lemma journey_stages:
  assumes "journey p t offset"
  shows "uint (fs_capture_to_encode_us (stages_of p t offset)) = uint (pa_encoded_us p) - uint (pa_captured_us p)"
    and "uint (fs_encode_to_arrival_us (stages_of p t offset)) = uint (pa_arrived_us p) - (uint (pa_encoded_us p) - offset)"
    and "uint (fs_arrival_to_decode_us (stages_of p t offset)) = uint (decoded_at p) - uint (pa_arrived_us p)"
    and "uint (fs_decode_to_present_us (stages_of p t offset)) = uint t - uint (decoded_at p)"
    and "uint (fs_client_us (stages_of p t offset)) = uint t - uint (pa_arrived_us p)"
    and "uint (fs_total_us (stages_of p t offset)) = uint t - (uint (pa_captured_us p) - offset)"
  using assms agent_to_client_exact [of "pa_captured_us p" offset] agent_to_client_exact [of "pa_encoded_us p" offset]
  unfolding stages_of_def decoded_at_def [symmetric] Let_def journey_def by (simp_all add: u64_sub_int word_le_def)

section \<open>Conservation\<close>

datatype monitor_op =
    Arrival ArrivedFrame
  | Decoded_op u32 u64 u64
  | Presented_op u32 u64 u64 int
  | Dropped_op u32 u64
  | Forget_op u32
  | Stall_op u64
  | Close_op u64

fun monitor_exec :: "monitor_op \<Rightarrow> LatencyMonitor \<Rightarrow> LatencyMonitor" where
  "monitor_exec (Arrival frame) m = on_arrival frame m"
| "monitor_exec (Decoded_op w f t) m = on_decoded w f t m"
| "monitor_exec (Presented_op w f t offset) m = snd (on_presented w f t offset m)"
| "monitor_exec (Dropped_op w f) m = on_dropped w f m"
| "monitor_exec (Forget_op w) m = lm_forget w m"
| "monitor_exec (Stall_op t) m = on_read_stall t m"
| "monitor_exec (Close_op t) m = close_interval t m"

definition monitor_run :: "monitor_op list \<Rightarrow> LatencyMonitor" where
  "monitor_run ops = fold monitor_exec ops (with_recording True)"

lemma monitor_run_snoc: "monitor_run (ops @ [e]) = monitor_exec e (monitor_run ops)"
  by (simp add: monitor_run_def)

text \<open>The frames of a window that arrived since the window was last forgotten.\<close>

fun arrivals :: "u32 \<Rightarrow> monitor_op list \<Rightarrow> u64 list" where
  "arrivals w [] = []"
| "arrivals w (Arrival frame # ops) =
    (if af_window_id frame = w \<and> Forget_op w \<notin> set ops then af_frame_id frame # arrivals w ops else arrivals w ops)"
| "arrivals w (_ # ops) = arrivals w ops"

lemma arrivals_append:
  "arrivals w (ops @ [e]) =
    (case e of
       Arrival frame \<Rightarrow> if af_window_id frame = w then arrivals w ops @ [af_frame_id frame] else arrivals w ops
     | Forget_op v \<Rightarrow> if v = w then [] else arrivals w ops
     | _ \<Rightarrow> arrivals w ops)"
  by (induction w ops rule: arrivals.induct) (auto split: monitor_op.split)

definition window_ok :: "u64 list \<Rightarrow> WindowLatency \<Rightarrow> bool" where
  "window_ok ids w \<longleftrightarrow>
     length (wl_in_flight w) \<le> MAX_IN_FLIGHT \<and> distinct (map fst (wl_in_flight w)) \<and> fst ` set (wl_in_flight w) \<subseteq> set ids
   \<and> of_nat (length ids) = of_nat (length (wl_in_flight w)) + wl_presented w + wl_dropped w"

lemma delete_length:
  "distinct (map fst al) \<Longrightarrow> k \<in> fst ` set al \<Longrightarrow> Suc (length (AList.delete k al)) = length al"
proof (induction al)
  case (Cons a al)
  then show ?case by (cases "fst a = k") (auto simp: delete_id)
qed simp

lemma update_length: "length (AList.update k v al) = (if k \<in> fst ` set al then length al else Suc (length al))"
  by (induction al) auto

lemma delete_keys: "fst ` set (AList.delete k al) \<subseteq> fst ` set al - {k}"
  using dom_delete_subset [of k al] delete_notin_dom [of k al] by blast

lemma update_keys: "fst ` set (AList.update k v al) = insert k (fst ` set al)"
  by (simp add: dom_update)

text \<open>A frame leaves the table and is counted as presented or dropped.\<close>

lemma window_ok_remove:
  assumes "window_ok ids w" "k \<in> fst ` set (wl_in_flight w)"
    "wl_in_flight w' = AList.delete k (wl_in_flight w)"
    "wl_presented w' + wl_dropped w' = wl_presented w + wl_dropped w + 1"
  shows "window_ok ids w'"
proof -
  have len: "Suc (length (wl_in_flight w')) = length (wl_in_flight w)"
    using assms by (auto simp: window_ok_def intro: delete_length)
  have "of_nat (length ids) = (of_nat (length (wl_in_flight w')) :: u64) + (wl_presented w' + wl_dropped w')"
    using assms(1,4) unfolding window_ok_def len [symmetric] by (simp add: add.assoc)
  then show ?thesis
    using assms len delete_keys [of k "wl_in_flight w"]
    by (auto simp: window_ok_def add.assoc distinct_delete)
qed

definition counted :: "u64 list \<Rightarrow> WindowLatency \<Rightarrow> bool" where
  "counted ids w \<longleftrightarrow> distinct (map fst (wl_in_flight w)) \<and> fst ` set (wl_in_flight w) \<subseteq> set ids
   \<and> of_nat (length ids) = of_nat (length (wl_in_flight w)) + wl_presented w + wl_dropped w"

lemma counted_evict: "counted ids w \<Longrightarrow> window_ok ids (evict w)"
proof (induction w rule: evict.induct)
  case (1 w)
  show ?case
  proof (cases "MAX_IN_FLIGHT < length (wl_in_flight w)")
    case True
    let ?k = "smallest_key (wl_in_flight w)"
    let ?w = "w\<lparr>wl_in_flight := AList.delete ?k (wl_in_flight w), wl_dropped := wl_dropped w + 1\<rparr>"
    have k: "?k \<in> fst ` set (wl_in_flight w)" using True by (intro smallest_key_in) auto
    have len: "Suc (length (AList.delete ?k (wl_in_flight w))) = length (wl_in_flight w)"
      using 1(2) k by (auto simp: counted_def intro: delete_length)
    have "counted ids ?w"
      using 1(2) delete_keys [of ?k "wl_in_flight w"] unfolding counted_def len [symmetric] by (auto simp: distinct_delete)
    then have "window_ok ids (evict ?w)" by (rule 1(1) [OF True])
    then show ?thesis using True evict.simps [of w] by simp
  next
    case False
    then show ?thesis using 1(2) evict.simps [of w] by (auto simp: counted_def window_ok_def)
  qed
qed

text \<open>Every step keeps the accounts of every window.\<close>

definition windows_ok :: "(u32 \<Rightarrow> u64 list) \<Rightarrow> LatencyMonitor \<Rightarrow> bool" where
  "windows_ok ids m \<longleftrightarrow> (\<forall>w. case map_of (lm_windows m) w of None \<Rightarrow> ids w = [] | Some wl \<Rightarrow> window_ok (ids w) wl)"

lemma window_ok_new: "window_ok [] WindowLatency_new"
  by (simp add: window_ok_def WindowLatency_new_def MAX_IN_FLIGHT_def Let_def)

lemma windows_ok_update:
  assumes "windows_ok ids m" "window_ok (ids' w) wl" "\<And>v. v \<noteq> w \<Longrightarrow> ids' v = ids v"
    "lm_windows m' = AList.update w wl (lm_windows m)"
  shows "windows_ok ids' m'"
  unfolding windows_ok_def
proof
  fix v
  have "case map_of (lm_windows m) v of None \<Rightarrow> ids v = [] | Some wl \<Rightarrow> window_ok (ids v) wl"
    using assms(1) by (simp add: windows_ok_def)
  then show "case map_of (lm_windows m') v of None \<Rightarrow> ids' v = [] | Some wl \<Rightarrow> window_ok (ids' v) wl"
    using assms(2-4) by (cases "v = w") (auto simp: update_conv' split: option.splits)
qed

lemma windows_ok_get: "windows_ok ids m \<Longrightarrow> map_of (lm_windows m) w = Some wl \<Longrightarrow> window_ok (ids w) wl"
  by (auto simp: windows_ok_def split: option.splits dest: spec [of _ w])

lemma on_arrival_ok:
  assumes "windows_ok ids m" "lm_enabled m" "af_frame_id frame \<notin> set (ids (af_window_id frame))"
  shows "windows_ok (ids(af_window_id frame := ids (af_window_id frame) @ [af_frame_id frame])) (on_arrival frame m)"
proof -
  let ?w = "af_window_id frame" and ?f = "af_frame_id frame"
  define wl where "wl = (case map_of (lm_windows m) ?w of None \<Rightarrow> WindowLatency_new | Some w \<Rightarrow> w)"
  have ok: "window_ok (ids ?w) wl"
    using assms(1) window_ok_new by (auto simp: wl_def windows_ok_def split: option.splits dest: spec [of _ ?w])
  define wl1 where "wl1 = (if af_keyframe frame
    then wl\<lparr>wl_keyframe_bytes := sm_push (word_of_nat (af_bytes frame)) (wl_keyframe_bytes wl)\<rparr>
    else wl\<lparr>wl_delta_bytes := sm_push (word_of_nat (af_bytes frame)) (wl_delta_bytes wl)\<rparr>)"
  have wl1: "wl_in_flight wl1 = wl_in_flight wl" "wl_presented wl1 = wl_presented wl" "wl_dropped wl1 = wl_dropped wl"
    by (simp_all add: wl1_def)
  have "\<exists>p. lm_windows (on_arrival frame m) = AList.update ?w (evict (wl1\<lparr>wl_in_flight := AList.update ?f p (wl_in_flight wl1)\<rparr>)) (lm_windows m)"
    unfolding on_arrival_def wl_def [symmetric] Let_def wl1_def [symmetric] by (simp add: assms(2)) blast
  then obtain p where p: "lm_windows (on_arrival frame m) = AList.update ?w (evict (wl1\<lparr>wl_in_flight := AList.update ?f p (wl_in_flight wl1)\<rparr>)) (lm_windows m)" ..
  let ?wl2 = "wl1\<lparr>wl_in_flight := AList.update ?f p (wl_in_flight wl1)\<rparr>"
  have new: "?f \<notin> fst ` set (wl_in_flight wl)" using ok assms(3) by (auto simp: window_ok_def)
  have "counted (ids ?w @ [?f]) ?wl2"
    using ok new wl1 by (auto simp: counted_def window_ok_def update_length update_keys distinct_update)
  then have "window_ok (ids ?w @ [?f]) (evict ?wl2)" by (rule counted_evict)
  then show ?thesis by (intro windows_ok_update [OF assms(1) _ _ p]) auto
qed

lemma map_of_key: "map_of al k = Some v \<Longrightarrow> k \<in> fst ` set al"
  by (metis map_of_SomeD image_iff fst_conv)

lemma on_decoded_ok:
  assumes "windows_ok ids m"
  shows "windows_ok ids (on_decoded w f t m)"
proof (cases "\<exists>wl p. lm_enabled m \<and> map_of (lm_windows m) w = Some wl \<and> map_of (wl_in_flight wl) f = Some p")
  case True
  then obtain wl p where w: "lm_enabled m" "map_of (lm_windows m) w = Some wl" "map_of (wl_in_flight wl) f = Some p" by blast
  have "window_ok (ids w) (wl\<lparr>wl_in_flight := AList.update f (p\<lparr>pa_decoded_us := Some t\<rparr>) (wl_in_flight wl)\<rparr>)"
    using windows_ok_get [OF assms w(2)] map_of_key [OF w(3)]
    by (auto simp: window_ok_def update_length update_keys distinct_update)
  then show ?thesis using w by (intro windows_ok_update [OF assms, of ids w]) (auto simp: on_decoded_def)
next
  case False
  then have "on_decoded w f t m = m" by (auto simp: on_decoded_def split: option.split)
  then show ?thesis using assms by simp
qed

lemma on_presented_ok:
  assumes "windows_ok ids m"
  shows "windows_ok ids (snd (on_presented w f t offset m))"
proof (cases "\<exists>wl p. lm_enabled m \<and> map_of (lm_windows m) w = Some wl \<and> map_of (wl_in_flight wl) f = Some p")
  case True
  then obtain wl p where w: "lm_enabled m" "map_of (lm_windows m) w = Some wl" "map_of (wl_in_flight wl) f = Some p" by blast
  obtain wl' where wl': "lm_windows (snd (on_presented w f t offset m)) = AList.update w wl' (lm_windows m)"
      "wl_in_flight wl' = AList.delete f (wl_in_flight wl)" "wl_presented wl' = wl_presented wl + 1" "wl_dropped wl' = wl_dropped wl"
    using w by (auto simp: on_presented_def Let_def)
  have "window_ok (ids w) wl'"
    using wl'(2-4) by (intro window_ok_remove [OF windows_ok_get [OF assms w(2)] map_of_key [OF w(3)]]) simp_all
  then show ?thesis by (rule windows_ok_update [OF assms _ _ wl'(1)]) simp
next
  case False
  then have "snd (on_presented w f t offset m) = m" by (auto simp: on_presented_def split: option.split)
  then show ?thesis using assms by simp
qed

lemma on_dropped_ok:
  assumes "windows_ok ids m"
  shows "windows_ok ids (on_dropped w f m)"
proof (cases "\<exists>wl p. lm_enabled m \<and> map_of (lm_windows m) w = Some wl \<and> map_of (wl_in_flight wl) f = Some p")
  case True
  then obtain wl p where w: "lm_enabled m" "map_of (lm_windows m) w = Some wl" "map_of (wl_in_flight wl) f = Some p" by blast
  have "window_ok (ids w) (wl\<lparr>wl_in_flight := AList.delete f (wl_in_flight wl), wl_dropped := wl_dropped wl + 1\<rparr>)"
    by (intro window_ok_remove [OF windows_ok_get [OF assms w(2)] map_of_key [OF w(3)]]) simp_all
  then show ?thesis using w by (intro windows_ok_update [OF assms, of ids w]) (auto simp: on_dropped_def)
next
  case False
  then have "on_dropped w f m = m" by (auto simp: on_dropped_def split: option.split)
  then show ?thesis using assms by simp
qed

lemma lm_forget_ok:
  assumes "windows_ok ids m"
  shows "windows_ok (ids(w := [])) (lm_forget w m)"
  unfolding windows_ok_def
proof
  fix v
  have "case map_of (lm_windows m) v of None \<Rightarrow> ids v = [] | Some wl \<Rightarrow> window_ok (ids v) wl"
    using assms by (simp add: windows_ok_def)
  then show "case map_of (lm_windows (lm_forget w m)) v of None \<Rightarrow> (ids(w := [])) v = [] | Some wl \<Rightarrow> window_ok ((ids(w := [])) v) wl"
    by (cases "v = w") (auto simp: lm_forget_def delete_conv' split: option.splits)
qed

text \<open>No frame id arrives twice in the life of a window.\<close>

definition fresh_arrivals :: "monitor_op list \<Rightarrow> bool" where
  "fresh_arrivals ops \<longleftrightarrow> (\<forall>n < length ops. \<forall>frame. ops ! n = Arrival frame \<longrightarrow>
     af_frame_id frame \<notin> set (arrivals (af_window_id frame) (take n ops)))"

lemma fresh_arrivals_snoc:
  "fresh_arrivals (ops @ [e]) \<longleftrightarrow> fresh_arrivals ops \<and>
     (\<forall>frame. e = Arrival frame \<longrightarrow> af_frame_id frame \<notin> set (arrivals (af_window_id frame) ops))"
  by (auto simp: fresh_arrivals_def nth_append less_Suc_eq)

lemma still_enabled: "lm_enabled (monitor_exec e m) = lm_enabled m"
  by (cases e) (auto simp: on_arrival_def on_decoded_def on_presented_def on_dropped_def lm_forget_def on_read_stall_def
      close_interval_def Let_def split: option.split)

lemma monitor_run_enabled: "lm_enabled (monitor_run ops)"
  by (induction ops rule: rev_induct) (simp_all add: monitor_run_snoc still_enabled, simp add: monitor_run_def with_recording_def Let_def)

lemma monitor_run_ok: "fresh_arrivals ops \<Longrightarrow> windows_ok (\<lambda>w. arrivals w ops) (monitor_run ops)"
proof (induction ops rule: rev_induct)
  case Nil
  show ?case by (simp add: windows_ok_def monitor_run_def with_recording_def Let_def)
next
  case (snoc e ops)
  then have ok: "windows_ok (\<lambda>w. arrivals w ops) (monitor_run ops)"
    and new: "\<And>frame. e = Arrival frame \<Longrightarrow> af_frame_id frame \<notin> set (arrivals (af_window_id frame) ops)"
    by (auto simp: fresh_arrivals_snoc)
  show ?case
  proof (cases e)
    case (Arrival frame)
    have "(\<lambda>w. arrivals w (ops @ [e])) =
        (\<lambda>w. arrivals w ops)(af_window_id frame := arrivals (af_window_id frame) ops @ [af_frame_id frame])"
      by (auto simp: arrivals_append Arrival)
    then show ?thesis
      using on_arrival_ok [OF ok monitor_run_enabled new [OF Arrival]] by (simp add: monitor_run_snoc Arrival)
  next
    case (Forget_op v)
    have "(\<lambda>w. arrivals w (ops @ [e])) = (\<lambda>w. arrivals w ops)(v := [])" by (auto simp: arrivals_append Forget_op)
    then show ?thesis using lm_forget_ok [OF ok, of v] by (simp add: monitor_run_snoc Forget_op)
  qed (use ok in \<open>simp_all add: arrivals_append monitor_run_snoc on_decoded_ok on_presented_ok on_dropped_ok\<close>,
       simp_all add: windows_ok_def on_read_stall_def close_interval_def Let_def)
qed

text \<open>How many frames finished.\<close>

fun run_finishes :: "monitor_op list \<Rightarrow> LatencyMonitor \<Rightarrow> nat" where
  "run_finishes [] m = 0"
| "run_finishes (e # ops) m =
    (case e of Presented_op w f t offset \<Rightarrow> if fst (on_presented w f t offset m) = None then 0 else 1 | _ \<Rightarrow> 0)
    + run_finishes ops (monitor_exec e m)"

definition timeline_ok :: "nat \<Rightarrow> LatencyMonitor \<Rightarrow> bool" where
  "timeline_ok n m \<longleftrightarrow> length (lm_timeline m) \<le> SAMPLE_WINDOW \<and> of_nat (length (lm_timeline m)) + lm_timeline_evicted m = (of_nat n :: u64)"

lemma timeline_step:
  assumes "timeline_ok n m"
  shows "timeline_ok (n + (case e of Presented_op w f t offset \<Rightarrow> if fst (on_presented w f t offset m) = None then 0 else 1 | _ \<Rightarrow> 0)) (monitor_exec e m)"
proof (cases e)
  case (Presented_op w f t offset)
  show ?thesis
  proof (cases "fst (on_presented w f t offset m) = None")
    case True
    then have "snd (on_presented w f t offset m) = m"
      by (auto simp: on_presented_def Let_def split: if_splits option.splits)
    then show ?thesis using True assms by (simp add: Presented_op)
  next
    case False
    then obtain r where tl: "lm_timeline (snd (on_presented w f t offset m)) =
          (if length (lm_timeline m) = SAMPLE_WINDOW then tl (lm_timeline m) else lm_timeline m) @ [r]"
        "lm_timeline_evicted (snd (on_presented w f t offset m)) =
          (if length (lm_timeline m) = SAMPLE_WINDOW then lm_timeline_evicted m + 1 else lm_timeline_evicted m)"
      by (auto simp: on_presented_def Let_def split: if_splits option.splits)
    show ?thesis
    proof (cases "length (lm_timeline m) = SAMPLE_WINDOW")
      case True
      then have "length (tl (lm_timeline m) @ [r]) = length (lm_timeline m)" by (simp add: SAMPLE_WINDOW_def)
      then show ?thesis using assms False tl True by (simp add: Presented_op timeline_ok_def) (simp flip: add.assoc)
    next
      case no: False
      then show ?thesis using assms False tl by (auto simp: Presented_op timeline_ok_def add.assoc)
    qed
  qed
qed (use assms in \<open>auto simp: timeline_ok_def on_arrival_def on_decoded_def on_dropped_def lm_forget_def on_read_stall_def
      close_interval_def Let_def split: option.split\<close>)

lemma timeline_run: "timeline_ok n m \<Longrightarrow> timeline_ok (n + run_finishes ops m) (fold monitor_exec ops m)"
proof (induction ops arbitrary: n m)
  case (Cons e ops)
  from Cons.IH [OF timeline_step [OF Cons.prems, of e]] show ?case by (simp add: add.assoc)
qed simp

section \<open>The table of buckets\<close>

lemma tail_bucket_fits:
  assumes "unat span < 16 * 300000000"
  shows "unat (span div tail_bucket_us span) < MAX_TAIL_ROWS \<and> tail_bucket_us span \<in> set TAIL_BUCKETS_US"
proof -
  have "300000000 \<in> set TAIL_BUCKETS_US" by (simp add: TAIL_BUCKETS_US_def)
  moreover have "unat (span div 300000000) < MAX_TAIL_ROWS"
    using assms by (simp add: unat_div MAX_TAIL_ROWS_def less_mult_imp_div_less)
  ultimately obtain w where w: "find (\<lambda>width. unat (span div width) < MAX_TAIL_ROWS) TAIL_BUCKETS_US = Some w"
    using find_None_iff [of "\<lambda>width. unat (span div width) < MAX_TAIL_ROWS" TAIL_BUCKETS_US]
    by (metis option.exhaust)
  then have "tail_bucket_us span = w" by (simp add: tail_bucket_us_def)
  then show ?thesis using w by (auto simp: find_Some_iff)
qed

text \<open>
  The width is chosen from the span alone, while buckets are aligned to the clock, so the table can
  have one row more than the limit it is chosen for.
\<close>

definition finished_at :: "u64 \<Rightarrow> Completed" where
  "finished_at t = \<lparr>co_window_id = 1, co_frame_id = 1, co_presented_us = t, co_capture_to_encode_us = 0, co_encode_to_arrival_us = 0,
     co_arrival_to_decode_us = 0, co_decode_to_present_us = 0, co_total_us = 0, co_bytes = 0, co_keyframe = False,
     co_encode_gap_us = None, co_arrival_gap_us = None\<rparr>"

lemma tail_table_one_row_over:
  "length (tail_buckets (map finished_at [900000, 1000000, 2000000, 3000000, 4000000, 5000000, 6000000, 7000000, 8000000, 9000000,
     10000000, 11000000, 12000000, 13000000, 14000000, 15000000, 16400000])) = MAX_TAIL_ROWS + 1"
proof -
  let ?ts = "[900000, 1000000, 2000000, 3000000, 4000000, 5000000, 6000000, 7000000, 8000000, 9000000,
     10000000, 11000000, 12000000, 13000000, 14000000, 15000000, 16400000] :: u64 list"
  have times: "map co_presented_us (map finished_at ?ts) = ?ts" by (simp add: finished_at_def)
  have width: "bucket_width (map finished_at ?ts) = 1000000"
    unfolding bucket_width_def times
    by (simp add: u64_saturating_sub_def min_def max_def tail_bucket_us_def TAIL_BUCKETS_US_def MAX_TAIL_ROWS_def)
  have keys: "map (\<lambda>c. co_presented_us c div 1000000) (map finished_at ?ts) = [0, 1, 2, 3, 4, 5, 6, 7, 8, 9, 10, 11, 12, 13, 14, 15, 16]"
    by (simp add: finished_at_def)
  show ?thesis unfolding tail_buckets_def Let_def width keys by (simp add: MAX_TAIL_ROWS_def)
qed

section \<open>Properties\<close>


definition sample_arrival :: "u64 \<Rightarrow> ArrivedFrame" where
  "sample_arrival f = \<lparr>af_window_id = 1, af_frame_id = f, af_captured_us = 10, af_encoded_us = 20, af_arrived_us = 30, af_keyframe = True, af_bytes = 5\<rparr>"


text \<open>
  The stages of a frame add up. When its timestamps come in the order of its journey and
  converting the agent's to the client's clock does not saturate, the four stages sum to the total
  and the last two to the client's own share; every stage that lies on one clock is the same
  whatever offset was estimated; and with two estimates the totals, like the stage across the
  clocks, differ by exactly the difference of the estimates.
\<close>

theorem stages_add_up:
  assumes "journey p t offset" "journey p t offset'"
  shows "let s = stages_of p t offset; s' = stages_of p t offset' in
     uint (fs_total_us s) = uint (fs_capture_to_encode_us s) + uint (fs_encode_to_arrival_us s)
                          + uint (fs_arrival_to_decode_us s) + uint (fs_decode_to_present_us s)
   \<and> uint (fs_client_us s) = uint (fs_arrival_to_decode_us s) + uint (fs_decode_to_present_us s)
   \<and> fs_capture_to_encode_us s' = fs_capture_to_encode_us s \<and> fs_client_us s' = fs_client_us s
   \<and> fs_arrival_to_decode_us s' = fs_arrival_to_decode_us s \<and> fs_decode_to_present_us s' = fs_decode_to_present_us s
   \<and> uint (fs_total_us s) - uint (fs_total_us s') = offset - offset'
   \<and> uint (fs_encode_to_arrival_us s) - uint (fs_encode_to_arrival_us s') = offset - offset'"
proof -
  have "fs_capture_to_encode_us (stages_of p t offset') = fs_capture_to_encode_us (stages_of p t offset)"
    "fs_client_us (stages_of p t offset') = fs_client_us (stages_of p t offset)"
    "fs_arrival_to_decode_us (stages_of p t offset') = fs_arrival_to_decode_us (stages_of p t offset)"
    "fs_decode_to_present_us (stages_of p t offset') = fs_decode_to_present_us (stages_of p t offset)"
    by (simp_all add: stages_of_def Let_def)
  then show ?thesis unfolding Let_def using journey_stages [OF assms(1)] journey_stages [OF assms(2)] by simp
qed

theorem stages_add_up_witness:
  "uint (fs_total_us (stages_of \<lparr>pa_captured_us = 1010, pa_encoded_us = 1030, pa_arrived_us = 50, pa_decoded_us = Some 57, pa_keyframe = False,
      pa_bytes = 9, pa_encode_gap_us = None, pa_arrival_gap_us = None, pa_backlog = 0\<rparr> 60 1000)) = 20 + 20 + 7 + 3"
proof -
  let ?p = "\<lparr>pa_captured_us = 1010, pa_encoded_us = 1030, pa_arrived_us = 50, pa_decoded_us = Some 57, pa_keyframe = False,
      pa_bytes = 9, pa_encode_gap_us = None, pa_arrival_gap_us = None, pa_backlog = 0\<rparr>"
  have j: "journey ?p 60 1000" "journey ?p 60 1005"
    by (simp_all add: journey_def convertible_def decoded_at_def)
  have parts: "uint (fs_capture_to_encode_us (stages_of ?p 60 1000)) = 20" "uint (fs_encode_to_arrival_us (stages_of ?p 60 1000)) = 20"
      "uint (fs_arrival_to_decode_us (stages_of ?p 60 1000)) = 7" "uint (fs_decode_to_present_us (stages_of ?p 60 1000)) = 3"
    by (simp_all add: stages_of_def u64_saturating_sub_def agent_to_client_def)
  show ?thesis using stages_add_up [OF j] unfolding Let_def parts by simp
qed

end
