(* ===== verification/Display.thy ===== *)
theory Display
  imports Decode
begin

text \<open>
  The display layer (\<open>oxdisplay/src\<close>): the commands and events it exchanges with the session
  (\<open>lib.rs\<close>), the CPU presenter with its unchecked row copies (\<open>presenter.rs\<close>), and the parts of the
  winit backend that do not talk to the window system (\<open>winit_backend.rs\<close>: pixel formats and the
  ledger of geometry echoes). A surface's buffer comes from the windowing library with unspecified
  content; it is an argument.
\<close>

section \<open>Commands and events\<close>

record WindowSpec =
  sp_window_id :: u32
  sp_app_id :: rust_string
  sp_title :: rust_string
  sp_x :: i32
  sp_y :: i32
  sp_width :: u16
  sp_height :: u16
  sp_owner_id :: u32
  sp_minimized :: bool
  sp_maximized :: bool
  sp_resizable :: bool
  sp_has_frame :: bool
  sp_topmost :: bool
  sp_icon :: "WindowIcon option"

datatype DisplayCommand =
    CreateWindow WindowSpec
  | DestroyWindow u32
  | MoveWindow WindowSpec
  | RetitleWindow WindowSpec
  | ChangeState WindowSpec
  | ChangeIcon WindowSpec
  | Restack "u32 list"
  | CmdFrame FrameData
  | CmdCursorShape CursorShape
  | CmdCursorPosition u32 i32 i32
  | CmdCursorVisibility bool
  | CmdAgentError u16 rust_string
  | Shutdown

datatype DisplayEvent =
    DevPointer u32 i32 i32 u8 i16 i16
  | DevKey u16 bool bool
  | DevText rust_string
  | DevModifiers u16 u8
  | Focused u32 bool
  | CloseRequested u32
  | ResizeRequested u32 u16 u16
  | MoveRequested u32 i32 i32
  | Minimized u32 bool
  | Presented u32 u64 u64 u64
  | BackendError rust_string

section \<open>The CPU presenter\<close>

record PresentTimes =
  pt_decoded_us :: u64
  pt_presented_us :: u64

datatype PresentError =
    UnknownWindow u32
  | UnsupportedFrameCodec u8
  | DroppedFrame u32 nat nat
  | Platform rust_string

text \<open>The texts of the errors, with numbers in decimal.\<close>

fun decimal :: "nat \<Rightarrow> rust_string" where
  "decimal n = (if n < 10 then [of_nat (48 + n)] else decimal (n div 10) @ [of_nat (48 + n mod 10)])"

declare decimal.simps [simp del]

fun present_error_text :: "PresentError \<Rightarrow> rust_string" where
  "present_error_text (UnknownWindow i) = ascii ''unknown display window '' @ decimal (unat i)"
| "present_error_text (UnsupportedFrameCodec c) = ascii ''unsupported frame codec '' @ decimal (unat c)"
| "present_error_text (DroppedFrame i expected actual) =
     ascii ''dropped malformed frame for window '' @ decimal (unat i) @ ascii '': expected '' @ decimal expected
     @ ascii '' bytes, got '' @ decimal actual"
| "present_error_text (Platform m) = m"

text \<open>The surface is the byte content last handed to the window system.\<close>

record CpuWindow =
  cpw_surface :: "u8 list"
  cpw_width :: nat
  cpw_height :: nat
  cpw_last_frame :: "FrameData option"

type_synonym CpuPresenter = "(u32 \<times> CpuWindow) list"

definition nonzero :: "nat \<Rightarrow> nat" where
  "nonzero n = max n 1"

definition frame_len :: "u16 \<Rightarrow> u16 \<Rightarrow> nat" where
  "frame_len width height = unat width * unat height * 4"

text \<open>
  One unchecked copy of a row. \<open>None\<close> is the undefined behaviour of an access outside either
  buffer.
\<close>

definition copy_nonoverlapping :: "u8 list \<Rightarrow> nat \<Rightarrow> u8 list \<Rightarrow> nat \<Rightarrow> nat \<Rightarrow> u8 list option" where
  "copy_nonoverlapping src src_offset dst dst_offset n =
    (if src_offset + n \<le> length src \<and> dst_offset + n \<le> length dst
     then Some (take dst_offset dst @ take n (drop src_offset src) @ drop (dst_offset + n) dst) else None)"

fun copy_rows :: "u8 list \<Rightarrow> nat \<Rightarrow> nat \<Rightarrow> nat \<Rightarrow> nat list \<Rightarrow> u8 list \<Rightarrow> u8 list option" where
  "copy_rows src src_stride dst_stride row_bytes [] dst = Some dst"
| "copy_rows src src_stride dst_stride row_bytes (row # rows) dst =
    (case copy_nonoverlapping src (row * src_stride) dst (row * dst_stride) row_bytes of
       None \<Rightarrow> None
     | Some dst' \<Rightarrow> copy_rows src src_stride dst_stride row_bytes rows dst')"

definition blit_pixels :: "u8 list \<Rightarrow> nat \<Rightarrow> nat \<Rightarrow> nat \<Rightarrow> nat \<Rightarrow> u8 list \<Rightarrow> u8 list option" where
  "blit_pixels buffer window_width window_height frame_width frame_height frame_data =
    (let copy_width = min window_width frame_width;
         copy_height = min window_height frame_height;
         buffer1 = (if window_width \<noteq> frame_width \<or> window_height \<noteq> frame_height then replicate (length buffer) 0 else buffer)
     in copy_rows frame_data (frame_width * 4) (window_width * 4) (copy_width * 4) [0..<copy_height] buffer1)"

text \<open>
  The presenter's operations. \<open>lend\<close> is the windowing library: the buffer it lends for a surface of
  the given number of bytes, with whatever content, and whether handing the buffer back succeeds; or
  the text of its error. The outer option of a result is undefined behaviour.
\<close>

type_synonym surface_buffer = "nat \<Rightarrow> rust_string + u8 list \<times> (rust_string + unit)"

definition blit :: "surface_buffer \<Rightarrow> CpuWindow \<Rightarrow> nat \<Rightarrow> nat \<Rightarrow> u8 list \<Rightarrow> (PresentError + CpuWindow) option" where
  "blit lend w frame_width frame_height data =
    (case lend (cpw_width w * cpw_height w * 4) of
       Inl e \<Rightarrow> Some (Inl (Platform e))
     | Inr (buffer, presented) \<Rightarrow>
         map_option (\<lambda>out. map_sum Platform (\<lambda>_. w\<lparr>cpw_surface := out\<rparr>) presented)
           (blit_pixels buffer (cpw_width w) (cpw_height w) frame_width frame_height data))"

definition cache_frame :: "FrameData \<Rightarrow> CpuWindow \<Rightarrow> CpuWindow" where
  "cache_frame frame w = w\<lparr>cpw_last_frame := Some frame\<rparr>"

definition attach :: "rust_string + unit \<Rightarrow> u32 \<Rightarrow> nat \<Rightarrow> nat \<Rightarrow> CpuPresenter \<Rightarrow> (PresentError + unit) \<times> CpuPresenter" where
  "attach created i width height p =
    (case created of
       Inl e \<Rightarrow> (Inl (Platform e), p)
     | Inr _ \<Rightarrow> (Inr (), AList.update i
         \<lparr>cpw_surface = [], cpw_width = nonzero width, cpw_height = nonzero height, cpw_last_frame = None\<rparr> p))"

definition pr_resize :: "rust_string + unit \<Rightarrow> u32 \<Rightarrow> nat \<Rightarrow> nat \<Rightarrow> CpuPresenter \<Rightarrow> (PresentError + unit) \<times> CpuPresenter" where
  "pr_resize resized i width height p =
    (case map_of p i of
       None \<Rightarrow> (Inl (UnknownWindow i), p)
     | Some w \<Rightarrow>
         (case resized of
            Inl e \<Rightarrow> (Inl (Platform e), p)
          | Inr _ \<Rightarrow> (Inr (), AList.update i (w\<lparr>cpw_width := nonzero width, cpw_height := nonzero height\<rparr>) p)))"

definition present :: "surface_buffer \<Rightarrow> u64 \<Rightarrow> u64 \<Rightarrow> u32 \<Rightarrow> FrameData \<Rightarrow> CpuPresenter \<Rightarrow>
    ((PresentError + PresentTimes) \<times> CpuPresenter) option" where
  "present lend decoded_us presented_us i frame p =
    (if fd_codec frame \<noteq> RAW_BGRA then Some (Inl (UnsupportedFrameCodec (fd_codec frame)), p)
     else
       let expected = frame_len (fd_width frame) (fd_height frame) in
       if length (fd_data frame) \<noteq> expected
       then Some (Inl (DroppedFrame (fd_window_id frame) expected (length (fd_data frame))), p)
       else case map_of p i of
         None \<Rightarrow> Some (Inl (UnknownWindow i), p)
       | Some w \<Rightarrow>
           (case blit lend w (unat (fd_width frame)) (unat (fd_height frame)) (fd_data frame) of
              None \<Rightarrow> None
            | Some (Inl e) \<Rightarrow> Some (Inl e, p)
            | Some (Inr w1) \<Rightarrow>
                Some (Inr \<lparr>pt_decoded_us = decoded_us, pt_presented_us = presented_us\<rparr>, AList.update i (cache_frame frame w1) p)))"

definition refresh :: "surface_buffer \<Rightarrow> u32 \<Rightarrow> CpuPresenter \<Rightarrow> ((PresentError + unit) \<times> CpuPresenter) option" where
  "refresh lend i p =
    (case map_of p i of
       None \<Rightarrow> Some (Inl (UnknownWindow i), p)
     | Some w \<Rightarrow>
         (case cpw_last_frame w of
            None \<Rightarrow> Some (Inr (), p)
          | Some frame \<Rightarrow>
              (case blit lend w (unat (fd_width frame)) (unat (fd_height frame)) (fd_data frame) of
                 None \<Rightarrow> None
               | Some (Inl e) \<Rightarrow> Some (Inl e, p)
               | Some (Inr w1) \<Rightarrow> Some (Inr (), AList.update i w1 p))))"

definition detach :: "u32 \<Rightarrow> CpuPresenter \<Rightarrow> CpuPresenter" where
  "detach i p = AList.delete i p"

section \<open>What a blit shows\<close>

text \<open>
  The picture a surface of \<open>ww\<close> by \<open>wh\<close> pixels is to show for a frame of \<open>fw\<close> by \<open>fh\<close>: the frame in
  the top left corner, clipped, black elsewhere.
\<close>

definition clipped_picture :: "nat \<Rightarrow> nat \<Rightarrow> nat \<Rightarrow> nat \<Rightarrow> u8 list \<Rightarrow> u8 list" where
  "clipped_picture ww wh fw fh data =
     map (\<lambda>k. let x = k div 4 mod ww; y = k div 4 div ww in
              if x < fw \<and> y < fh then data ! ((y * fw + x) * 4 + k mod 4) else 0) [0..<ww * wh * 4]"

lemma copy_nonoverlapping_in_bounds:
  assumes "so + n \<le> length src" and "off + n \<le> length dst"
  obtains r where "copy_nonoverlapping src so dst off n = Some r" and "length r = length dst"
    and "\<And>k. k < length dst \<Longrightarrow> r ! k = (if off \<le> k \<and> k < off + n then src ! (so + (k - off)) else dst ! k)"
proof
  let ?r = "take off dst @ take n (drop so src) @ drop (off + n) dst"
  show "copy_nonoverlapping src so dst off n = Some ?r"
    using assms by (simp add: copy_nonoverlapping_def)
  show "length ?r = length dst"
    using assms by simp
  show "?r ! k = (if off \<le> k \<and> k < off + n then src ! (so + (k - off)) else dst ! k)" if "k < length dst" for k
    using assms that by (auto simp: nth_append)
qed

lemma copy_rows_append:
  "copy_rows src ss ds n (xs @ ys) dst =
     (case copy_rows src ss ds n xs dst of None \<Rightarrow> None | Some dst' \<Rightarrow> copy_rows src ss ds n ys dst')"
  by (induction xs arbitrary: dst) (auto split: option.splits)

lemma row_index_less: "b < ds \<Longrightarrow> y < h \<Longrightarrow> y * ds + b < h * (ds::nat)"
proof -
  assume "b < ds" and "y < h"
  then have "y * ds + b < Suc y * ds" by simp
  also have "\<dots> \<le> h * ds" using \<open>y < h\<close> by (intro mult_le_mono1) simp
  finally show ?thesis .
qed

lemma row_index_in_row:
  assumes "b < ds" and "n \<le> (ds::nat)"
  shows "m * ds \<le> y * ds + b \<and> y * ds + b < m * ds + n \<longleftrightarrow> y = m \<and> b < n"
proof
  assume r: "m * ds \<le> y * ds + b \<and> y * ds + b < m * ds + n"
  have "(y * ds + b) div ds = y" using assms by simp
  moreover have "(y * ds + b) div ds = m"
  proof (rule div_nat_eqI)
    show "ds * m \<le> y * ds + b" using r by (simp add: mult.commute)
    show "y * ds + b < ds * Suc m" using r assms by (simp add: mult.commute)
  qed
  ultimately show "y = m \<and> b < n" using r by simp
qed auto

text \<open>The unchecked copies stay inside both buffers and fill the copied rectangle, leaving the rest.\<close>

lemma copy_rows_exact:
  assumes "m * ss \<le> length src" and "n \<le> ss" and "n \<le> ds" and "m \<le> h" and "length dst = h * ds"
  shows "\<exists>r. copy_rows src ss ds n [0..<m] dst = Some r \<and> length r = length dst
    \<and> (\<forall>y<h. \<forall>b<ds. r ! (y * ds + b) = (if y < m \<and> b < n then src ! (y * ss + b) else dst ! (y * ds + b)))"
  using assms(1,4)
proof (induction m)
  case 0
  then show ?case by simp
next
  case (Suc m)
  obtain r where r: "copy_rows src ss ds n [0..<m] dst = Some r" "length r = length dst"
    and rv: "\<And>y b. y < h \<Longrightarrow> b < ds \<Longrightarrow> r ! (y * ds + b) = (if y < m \<and> b < n then src ! (y * ss + b) else dst ! (y * ds + b))"
    using Suc by auto
  have "m * ss + n \<le> length src" using Suc.prems(1) assms(2) by simp
  moreover have "m * ds + n \<le> length r"
  proof -
    have "m * ds + n \<le> Suc m * ds" using assms(3) by simp
    also have "\<dots> \<le> h * ds" using Suc.prems(2) by (rule mult_le_mono1)
    finally show ?thesis using r(2) assms(5) by simp
  qed
  ultimately obtain r' where r': "copy_nonoverlapping src (m * ss) r (m * ds) n = Some r'" "length r' = length r"
    and rv': "\<And>k. k < length r \<Longrightarrow> r' ! k = (if m * ds \<le> k \<and> k < m * ds + n then src ! (m * ss + (k - m * ds)) else r ! k)"
    by (rule copy_nonoverlapping_in_bounds) blast
  have "r' ! (y * ds + b) = (if y < Suc m \<and> b < n then src ! (y * ss + b) else dst ! (y * ds + b))"
    if "y < h" "b < ds" for y b
    using rv [OF that] rv' [of "y * ds + b"] row_index_less [OF that(2,1)] row_index_in_row [OF that(2) assms(3), of m y] r(2) assms(5)
    by auto
  then show ?case
    using r r' by (auto simp: copy_rows_append)
qed

lemma nth_by_rows:
  assumes "length xs = h * ds" and "length ys = h * (ds::nat)"
    and "\<And>y b. y < h \<Longrightarrow> b < ds \<Longrightarrow> xs ! (y * ds + b) = ys ! (y * ds + b)"
  shows "xs = ys"
proof (rule nth_equalityI)
  show "length xs = length ys" using assms by simp
  fix k assume k: "k < length xs"
  then have "0 < ds" using assms(1) by (cases ds) auto
  moreover have "k div ds < h" using k assms(1) by (simp add: less_mult_imp_div_less)
  ultimately show "xs ! k = ys ! k"
    using assms(3) [of "k div ds" "k mod ds"] by simp
qed

lemma clipped_picture_nth:
  assumes "y < wh" and "b < ww * 4"
  shows "clipped_picture ww wh fw fh data ! (y * (ww * 4) + b) =
    (if b div 4 < fw \<and> y < fh then data ! (y * (fw * 4) + b) else 0)"
proof -
  have k: "y * (ww * 4) + b < ww * wh * 4"
    using row_index_less [OF assms(2,1)] by (simp add: ac_simps)
  have q: "(y * (ww * 4) + b) div 4 = y * ww + b div 4"
  proof -
    have "y * (ww * 4) + b = b + (y * ww) * 4" by simp
    then show ?thesis by (simp only: div_mult_self1)
  qed
  have m: "(y * (ww * 4) + b) mod 4 = b mod 4"
  proof -
    have "y * (ww * 4) + b = b + (y * ww) * 4" by simp
    then show ?thesis by (simp only: mod_mult_self1)
  qed
  have x: "b div 4 < ww" using assms(2) by (simp add: less_mult_imp_div_less)
  have d: "(y * ww + b div 4) div ww = y" and md: "(y * ww + b div 4) mod ww = b div 4"
    using x by simp_all
  have e: "y * fw * 4 + b div 4 * 4 + b mod 4 = y * (fw * 4) + b"
    by simp
  show ?thesis
    unfolding clipped_picture_def using k x
    by (simp add: q m d e Let_def del: upt_Suc)
qed

lemma clipped_picture_length [simp]: "length (clipped_picture ww wh fw fh data) = ww * wh * 4"
  by (simp add: clipped_picture_def)

lemma blit_pixels_exact:
  assumes "length buffer = ww * wh * 4" and "length data = fw * fh * 4"
  shows "blit_pixels buffer ww wh fw fh data = Some (clipped_picture ww wh fw fh data)"
proof -
  define b1 where "b1 = (if ww \<noteq> fw \<or> wh \<noteq> fh then replicate (length buffer) 0 else buffer)"
  have l1: "length b1 = wh * (ww * 4)" using assms(1) by (simp add: b1_def ac_simps)
  have "min wh fh * (fw * 4) \<le> fh * (fw * 4)" by (rule mult_le_mono1) simp
  then have "min wh fh * (fw * 4) \<le> length data" using assms(2) by (simp add: ac_simps)
  from copy_rows_exact [OF this _ _ _ l1, of "min ww fw * 4"]
  obtain r where r: "copy_rows data (fw * 4) (ww * 4) (min ww fw * 4) [0..<min wh fh] b1 = Some r" "length r = length b1"
    and rv: "\<And>y b. y < wh \<Longrightarrow> b < ww * 4 \<Longrightarrow>
      r ! (y * (ww * 4) + b) = (if y < min wh fh \<and> b < min ww fw * 4 then data ! (y * (fw * 4) + b) else b1 ! (y * (ww * 4) + b))"
    by auto
  have "r = clipped_picture ww wh fw fh data"
  proof (rule nth_by_rows [where h = wh and ds = "ww * 4"])
    show "length r = wh * (ww * 4)" using r(2) l1 by simp
    show "length (clipped_picture ww wh fw fh data) = wh * (ww * 4)" by simp
    fix y b assume yb: "y < wh" "b < ww * 4"
    have z: "b1 ! (y * (ww * 4) + b) = 0" if "\<not> (y < fh \<and> b < fw * 4)"
    proof -
      have "y * (ww * 4) + b < length buffer"
        using row_index_less [OF yb(2,1)] assms(1) by (simp add: ac_simps)
      then show ?thesis using that yb by (auto simp: b1_def)
    qed
    have "b div 4 < fw \<longleftrightarrow> b < fw * 4" by (simp add: div_less_iff_less_mult)
    then show "r ! (y * (ww * 4) + b) = clipped_picture ww wh fw fh data ! (y * (ww * 4) + b)"
      using rv [OF yb] z yb by (auto simp: clipped_picture_nth)
  qed
  then show ?thesis
    using r(1) by (simp add: blit_pixels_def b1_def Let_def)
qed

text \<open>The cached frame of every window has the size a present checked, which a refresh relies on.\<close>

definition cached_sound :: "CpuPresenter \<Rightarrow> bool" where
  "cached_sound p \<longleftrightarrow> (\<forall>i w f. map_of p i = Some w \<longrightarrow> cpw_last_frame w = Some f \<longrightarrow>
     length (fd_data f) = frame_len (fd_width f) (fd_height f))"

definition honest_lender :: "surface_buffer \<Rightarrow> bool" where
  "honest_lender lend \<longleftrightarrow> (\<forall>n buffer r. lend n = Inr (buffer, r) \<longrightarrow> length buffer = n)"

text \<open>What the window shows once a frame is on it.\<close>

definition showing :: "FrameData \<Rightarrow> CpuWindow \<Rightarrow> CpuWindow" where
  "showing f w = w\<lparr>cpw_surface := clipped_picture (cpw_width w) (cpw_height w) (unat (fd_width f)) (unat (fd_height f)) (fd_data f)\<rparr>"

lemma cached_sound_update:
  assumes "cached_sound p" and "\<And>f. cpw_last_frame w = Some f \<Longrightarrow> length (fd_data f) = frame_len (fd_width f) (fd_height f)"
  shows "cached_sound (AList.update i w p)"
  using assms by (auto simp: cached_sound_def map_of_update)

lemma cached_sound_delete: "cached_sound p \<Longrightarrow> cached_sound (AList.delete i p)"
  by (auto simp: cached_sound_def map_of_delete)

lemma cached_sound_Nil [simp]: "cached_sound []"
  by (simp add: cached_sound_def)

text \<open>No blit of a frame of the announced size leaves its buffers.\<close>

lemma blit_defined:
  assumes "honest_lender lend" and "length data = fw * fh * 4"
  shows "blit lend w fw fh data = Some (case lend (cpw_width w * cpw_height w * 4) of
      Inl e \<Rightarrow> Inl (Platform e)
    | Inr (buffer, presented) \<Rightarrow>
        map_sum Platform (\<lambda>_. w\<lparr>cpw_surface := clipped_picture (cpw_width w) (cpw_height w) fw fh data\<rparr>) presented)"
  using assms by (auto simp: blit_def honest_lender_def blit_pixels_exact split: sum.splits)

lemma present_defined:
  assumes "honest_lender lend" and "cached_sound p"
  obtains r p' where "present lend d t i f p = Some (r, p')" and "cached_sound p'"
    and "dom (map_of p') = dom (map_of p)"
proof (cases "fd_codec f = RAW_BGRA \<and> length (fd_data f) = frame_len (fd_width f) (fd_height f)")
  case True
  note ok = this
  show thesis
  proof (cases "map_of p i")
    case None
    then show thesis using that ok assms(2) by (simp add: present_def)
  next
    case (Some w)
    have b: "blit lend w (unat (fd_width f)) (unat (fd_height f)) (fd_data f) \<noteq> None"
      using blit_defined [OF assms(1)] ok by (simp add: frame_len_def)
    then obtain r where r: "blit lend w (unat (fd_width f)) (unat (fd_height f)) (fd_data f) = Some r" by blast
    show thesis
    proof (cases r)
      case (Inl e)
      then show thesis using that ok Some r assms(2) by (simp add: present_def)
    next
      case (Inr w1)
      have "cached_sound (AList.update i (cache_frame f w1) p)"
        using ok by (intro cached_sound_update assms(2)) (auto simp: cache_frame_def)
      then show thesis
        using that ok Some r Inr by (auto simp: present_def AList.update_conv' insert_absorb domI)
    qed
  qed
next
  case False
  then have "\<exists>r. present lend d t i f p = Some (r, p)" by (auto simp: present_def Let_def)
  then show thesis using that assms(2) by blast
qed

lemma blit_cached: "blit lend w fw fh data = Some (Inr w1) \<Longrightarrow> cpw_last_frame w1 = cpw_last_frame w"
  by (auto simp: blit_def split: sum.splits)
    (metis CpuWindow.select_convs(4) CpuWindow.surjective CpuWindow.update_convs(1) Inr_inject map_sum.simps sum.exhaust sum.simps(4))

lemma refresh_defined:
  assumes "honest_lender lend" and "cached_sound p"
  obtains r p' where "refresh lend i p = Some (r, p')" and "cached_sound p'"
    and "dom (map_of p') = dom (map_of p)"
proof (cases "map_of p i")
  case None
  then show thesis using that assms(2) by (simp add: refresh_def)
next
  case (Some w)
  show thesis
  proof (cases "cpw_last_frame w")
    case None
    then show thesis using that Some assms(2) by (simp add: refresh_def)
  next
    case (Some f)
    have l: "length (fd_data f) = frame_len (fd_width f) (fd_height f)"
      using assms(2) \<open>map_of p i = Some w\<close> Some by (auto simp: cached_sound_def)
    then obtain r where r: "blit lend w (unat (fd_width f)) (unat (fd_height f)) (fd_data f) = Some r"
      using blit_defined [OF assms(1), of "fd_data f" "unat (fd_width f)" "unat (fd_height f)" w]
      by (simp add: frame_len_def)
    show thesis
    proof (cases r)
      case (Inl e)
      then show thesis using that \<open>map_of p i = Some w\<close> Some r assms(2) by (simp add: refresh_def)
    next
      case (Inr w1)
      have "cached_sound (AList.update i w1 p)"
        using blit_cached [of lend w "unat (fd_width f)" "unat (fd_height f)" "fd_data f" w1] r Inr l Some
        by (intro cached_sound_update assms(2)) auto
      then show thesis
        using that \<open>map_of p i = Some w\<close> Some r Inr by (auto simp: refresh_def AList.update_conv' insert_absorb domI)
    qed
  qed
qed

lemma present_shown:
  assumes "honest_lender lend" and "fd_codec f = RAW_BGRA" and "length (fd_data f) = unat (fd_width f) * unat (fd_height f) * 4"
    and "map_of p i = Some w" and "lend (cpw_width w * cpw_height w * 4) = Inr (buffer, Inr ())"
  shows "present lend d t i f p =
    Some (Inr \<lparr>pt_decoded_us = d, pt_presented_us = t\<rparr>, AList.update i (cache_frame f (showing f w)) p)"
  using assms by (simp add: present_def frame_len_def blit_defined showing_def)

lemma refresh_shown:
  assumes "honest_lender lend" and "length (fd_data f) = unat (fd_width f) * unat (fd_height f) * 4"
    and "map_of p i = Some w" and "cpw_last_frame w = Some f"
    and "lend (cpw_width w * cpw_height w * 4) = Inr (buffer, Inr ())"
  shows "refresh lend i p = Some (Inr (), AList.update i (showing f w) p)"
  using assms by (simp add: refresh_def blit_defined showing_def)

section \<open>Backends\<close>

text \<open>
  \<open>DisplayBackend\<close>: one operation per command. A result is undefined behaviour (\<open>None\<close>), or the
  outcome with the backend after it; an error is its text.
\<close>

type_synonym 'b backend_op = "'b \<Rightarrow> ((rust_string + unit) \<times> 'b) option"

record 'b DisplayBackend =
  create_window :: "WindowSpec \<Rightarrow> 'b backend_op"
  destroy_window :: "u32 \<Rightarrow> 'b backend_op"
  move_window :: "WindowSpec \<Rightarrow> 'b backend_op"
  retitle_window :: "WindowSpec \<Rightarrow> 'b backend_op"
  change_state :: "WindowSpec \<Rightarrow> 'b backend_op"
  change_icon :: "WindowSpec \<Rightarrow> 'b backend_op"
  restack :: "u32 list \<Rightarrow> 'b backend_op"
  frame_op :: "FrameData \<Rightarrow> 'b \<Rightarrow> ((rust_string + PresentTimes option) \<times> 'b) option"
  cursor_shape :: "CursorShape \<Rightarrow> 'b backend_op"
  cursor_moved :: "u32 \<Rightarrow> i32 \<Rightarrow> i32 \<Rightarrow> 'b backend_op"
  cursor_visibility :: "bool \<Rightarrow> 'b backend_op"
  agent_error :: "u16 \<Rightarrow> rust_string \<Rightarrow> 'b backend_op"
  closed_op :: "'b backend_op"

fun apply_display_command :: "'b DisplayBackend \<Rightarrow> DisplayCommand \<Rightarrow> 'b backend_op" where
  "apply_display_command d (CreateWindow w) b = create_window d w b"
| "apply_display_command d (DestroyWindow i) b = destroy_window d i b"
| "apply_display_command d (MoveWindow w) b = move_window d w b"
| "apply_display_command d (RetitleWindow w) b = retitle_window d w b"
| "apply_display_command d (ChangeState w) b = change_state d w b"
| "apply_display_command d (ChangeIcon w) b = change_icon d w b"
| "apply_display_command d (Restack stack) b = restack d stack b"
| "apply_display_command d (CmdFrame f) b = map_option (\<lambda>(r, b'). (map_sum id (\<lambda>_. ()) r, b')) (frame_op d f b)"
| "apply_display_command d (CmdCursorShape shape) b = cursor_shape d shape b"
| "apply_display_command d (CmdCursorPosition i x y) b = cursor_moved d i x y b"
| "apply_display_command d (CmdCursorVisibility v) b = cursor_visibility d v b"
| "apply_display_command d (CmdAgentError code m) b = agent_error d code m b"
| "apply_display_command d Shutdown b = closed_op d b"

text \<open>The windows a sequence of commands leaves open.\<close>

fun open_after :: "DisplayCommand \<Rightarrow> u32 set \<Rightarrow> u32 set" where
  "open_after (CreateWindow w) s = insert (sp_window_id w) s"
| "open_after (DestroyWindow i) s = s - {i}"
| "open_after _ s = s"

text \<open>
  What every backend promises: no operation is undefined while the invariant holds, each keeps it,
  and after a success the open windows are those the command calls for.
\<close>

locale display_backend =
  fixes ops :: "'e \<Rightarrow> 'b DisplayBackend"
    and env_ok :: "'e \<Rightarrow> 'b \<Rightarrow> bool"
    and inv :: "'b \<Rightarrow> bool"
    and open_windows :: "'b \<Rightarrow> u32 set"
  assumes command_defined: "inv b \<Longrightarrow> env_ok e b \<Longrightarrow>
      \<exists>r b'. apply_display_command (ops e) c b = Some (r, b') \<and> inv b'
        \<and> open_windows b' = (case r of Inl _ \<Rightarrow> open_windows b | Inr _ \<Rightarrow> open_after c (open_windows b))"

fun run_commands :: "('e \<Rightarrow> 'b DisplayBackend) \<Rightarrow> ('e \<times> DisplayCommand) list \<Rightarrow> 'b \<Rightarrow> ((rust_string + unit) list \<times> 'b) option" where
  "run_commands ops [] b = Some ([], b)"
| "run_commands ops ((e, c) # cs) b =
    (case apply_display_command (ops e) c b of
       None \<Rightarrow> None
     | Some (r, b1) \<Rightarrow> map_option (\<lambda>(rs, b'). (r # rs, b')) (run_commands ops cs b1))"

fun envs_ok :: "('e \<Rightarrow> 'b DisplayBackend) \<Rightarrow> ('e \<Rightarrow> 'b \<Rightarrow> bool) \<Rightarrow> ('e \<times> DisplayCommand) list \<Rightarrow> 'b \<Rightarrow> bool" where
  "envs_ok ops ok [] b = True"
| "envs_ok ops ok ((e, c) # cs) b =
    (ok e b \<and> (case apply_display_command (ops e) c b of None \<Rightarrow> True | Some (_, b1) \<Rightarrow> envs_ok ops ok cs b1))"

text \<open>The windows left open by the commands that succeeded.\<close>

fun open_after_run :: "DisplayCommand list \<Rightarrow> (rust_string + unit) list \<Rightarrow> u32 set \<Rightarrow> u32 set" where
  "open_after_run (c # cs) (Inl _ # rs) s = open_after_run cs rs s"
| "open_after_run (c # cs) (Inr _ # rs) s = open_after_run cs rs (open_after c s)"
| "open_after_run _ _ s = s"

context display_backend
begin

lemma run_defined:
  "inv b \<Longrightarrow> envs_ok ops env_ok cs b \<Longrightarrow>
     \<exists>rs b'. run_commands ops cs b = Some (rs, b') \<and> inv b' \<and> length rs = length cs
       \<and> open_windows b' = open_after_run (map snd cs) rs (open_windows b)"
proof (induction cs arbitrary: b)
  case (Cons ec cs)
  obtain e c where ec: "ec = (e, c)" by (cases ec)
  obtain r b1 where s: "apply_display_command (ops e) c b = Some (r, b1)" and i: "inv b1"
    and o: "open_windows b1 = (case r of Inl _ \<Rightarrow> open_windows b | Inr _ \<Rightarrow> open_after c (open_windows b))"
    using command_defined [of b e c] Cons.prems by (auto simp: ec)
  have "envs_ok ops env_ok cs b1"
    using Cons.prems(2) s by (simp add: ec)
  from Cons.IH [OF i this] s o show ?case
    by (cases r) (auto simp: ec)
qed simp

end

section \<open>The headless backend\<close>

datatype HeadlessCall =
    HCreated u32 rust_string rust_string i32 i32 u16 u16 u32
  | HDestroyed u32
  | HMoved u32 i32 i32 u16 u16
  | HRetitled u32 rust_string
  | HStateChanged u32 bool bool
  | HIconChanged u32
  | HRestacked "u32 list"
  | HFrame u32 u64 nat
  | HCursorShape u32 u16 u16
  | HCursorMoved u32 i32 i32
  | HCursorVisibility bool
  | HAgentError u16 rust_string
  | HClosed

record HeadlessBackend =
  hb_calls :: "HeadlessCall list"
  hb_windows :: "u32 set"

definition HeadlessBackend_new :: HeadlessBackend where
  "HeadlessBackend_new = \<lparr>hb_calls = [], hb_windows = {}\<rparr>"

definition take_calls :: "HeadlessBackend \<Rightarrow> HeadlessCall list \<times> HeadlessBackend" where
  "take_calls b = (hb_calls b, b\<lparr>hb_calls := []\<rparr>)"

definition recorded :: "HeadlessCall \<Rightarrow> HeadlessBackend backend_op" where
  "recorded c b = Some (Inr (), b\<lparr>hb_calls := hb_calls b @ [c]\<rparr>)"

definition headless_frame :: "FrameData \<Rightarrow> HeadlessBackend \<Rightarrow> ((rust_string + PresentTimes option) \<times> HeadlessBackend) option" where
  "headless_frame f b =
    (if fd_window_id f \<notin> hb_windows b then Some (Inr None, b)
     else Some (Inr (Some \<lparr>pt_decoded_us = 0, pt_presented_us = 0\<rparr>),
       b\<lparr>hb_calls := hb_calls b @ [HFrame (fd_window_id f) (fd_frame_id f) (length (fd_data f))]\<rparr>))"

definition headless_ops :: "HeadlessBackend DisplayBackend" where
  "headless_ops = \<lparr>
     create_window = \<lambda>w b. recorded (HCreated (sp_window_id w) (sp_app_id w) (sp_title w) (sp_x w) (sp_y w)
       (sp_width w) (sp_height w) (sp_owner_id w)) (b\<lparr>hb_windows := insert (sp_window_id w) (hb_windows b)\<rparr>),
     destroy_window = \<lambda>i b. recorded (HDestroyed i) (b\<lparr>hb_windows := hb_windows b - {i}\<rparr>),
     move_window = \<lambda>w. recorded (HMoved (sp_window_id w) (sp_x w) (sp_y w) (sp_width w) (sp_height w)),
     retitle_window = \<lambda>w. recorded (HRetitled (sp_window_id w) (sp_title w)),
     change_state = \<lambda>w. recorded (HStateChanged (sp_window_id w) (sp_minimized w) (sp_maximized w)),
     change_icon = \<lambda>w. recorded (HIconChanged (sp_window_id w)),
     restack = \<lambda>stack. recorded (HRestacked stack),
     frame_op = headless_frame,
     cursor_shape = \<lambda>s. recorded (HCursorShape (cs_cursor_id s) (cs_width s) (cs_height s)),
     cursor_moved = \<lambda>i x y. recorded (HCursorMoved i x y),
     cursor_visibility = \<lambda>v. recorded (HCursorVisibility v),
     agent_error = \<lambda>code m. recorded (HAgentError code m),
     closed_op = recorded HClosed\<rparr>"

interpretation headless: display_backend "\<lambda>_::unit. headless_ops" "\<lambda>_ _. True" "\<lambda>_. True" hb_windows
proof
  fix c and b :: HeadlessBackend
  show "\<exists>r b'. apply_display_command headless_ops c b = Some (r, b') \<and> True
        \<and> hb_windows b' = (case r of Inl _ \<Rightarrow> hb_windows b | Inr _ \<Rightarrow> open_after c (hb_windows b))"
    by (cases c) (auto simp: headless_ops_def recorded_def headless_frame_def)
qed

end
