(* ===== verification/Winit.thy ===== *)
theory Winit
  imports Display Scancode
begin

text \<open>
  The native window backend (\<open>oxdisplay/src/winit_backend.rs\<close>): its windows, its handling of the
  window system's events and its implementation of the display commands.

  The windowing library is a parameter (\<open>native_env\<close>, what it answers to one call) and a log of what
  is asked of it (\<open>NativeCall\<close>). Positions and wheel deltas, which it reports as floating-point
  numbers, enter already rounded. The order in which \<open>windows.values()\<close> visits the windows is the
  order of the association list.
\<close>

definition BGRA_PREMUL :: u8 where
  "BGRA_PREMUL = 1"

section \<open>Pixel formats of icons and cursors\<close>

fun swap_channels :: "u8 list \<Rightarrow> u8 list" where
  "swap_channels (b # g # r # a # rest) = r # g # b # a # swap_channels rest"
| "swap_channels _ = []"

definition bgra_to_rgba :: "u8 list \<Rightarrow> u16 \<Rightarrow> u16 \<Rightarrow> u8 list option" where
  "bgra_to_rgba data width height =
    (if length data \<noteq> unat width * unat height * 4 then None else Some (swap_channels data))"

definition unpremul :: "u8 \<Rightarrow> u8 \<Rightarrow> u8" where
  "unpremul c alpha =
    (if alpha = 0 then 0 else of_nat (min (unat c * 255 div unat alpha) 255))"

fun unpremul_channels :: "u8 list \<Rightarrow> u8 list" where
  "unpremul_channels (b # g # r # a # rest) =
     unpremul r a # unpremul g a # unpremul b a # a # unpremul_channels rest"
| "unpremul_channels _ = []"

definition bgra_premul_to_rgba :: "u8 list \<Rightarrow> u16 \<Rightarrow> u16 \<Rightarrow> u8 list option" where
  "bgra_premul_to_rgba data width height =
    (if length data \<noteq> unat width * unat height * 4 then None else Some (unpremul_channels data))"

section \<open>Geometry echoes\<close>

record WinGeometry =
  wgm_x :: i32
  wgm_y :: i32
  wgm_width :: u16
  wgm_height :: u16

definition geometry_of :: "WindowSpec \<Rightarrow> WinGeometry" where
  "geometry_of w = \<lparr>wgm_x = sp_x w, wgm_y = sp_y w, wgm_width = sp_width w, wgm_height = sp_height w\<rparr>"

text \<open>Instants are counted in milliseconds.\<close>

record PendingGeometry =
  pg_geometry :: WinGeometry
  pg_expires_at :: nat

record GeometryEchoLedger =
  el_entries :: "(u32 \<times> PendingGeometry) list"
  el_ttl :: nat

definition GEOMETRY_ECHO_DEADLINE :: nat where
  "GEOMETRY_ECHO_DEADLINE = 750"

definition GeometryEchoLedger_new :: "nat \<Rightarrow> GeometryEchoLedger" where
  "GeometryEchoLedger_new ttl = \<lparr>el_entries = [], el_ttl = ttl\<rparr>"

definition el_record :: "nat \<Rightarrow> u32 \<Rightarrow> WinGeometry \<Rightarrow> GeometryEchoLedger \<Rightarrow> GeometryEchoLedger" where
  "el_record now i geometry l =
     l\<lparr>el_entries := AList.update i \<lparr>pg_geometry = geometry, pg_expires_at = now + el_ttl l\<rparr> (el_entries l)\<rparr>"

definition take_if_echo :: "nat \<Rightarrow> u32 \<Rightarrow> WinGeometry \<Rightarrow> GeometryEchoLedger \<Rightarrow> bool \<times> GeometryEchoLedger" where
  "take_if_echo now i geometry l =
    (case map_of (el_entries l) i of
       None \<Rightarrow> (False, l)
     | Some pending \<Rightarrow>
         let l1 = l\<lparr>el_entries := AList.delete i (el_entries l)\<rparr> in
         if now > pg_expires_at pending then (False, l1)
         else (pg_geometry pending = geometry, l1))"

section \<open>The backend\<close>

type_synonym native_id = nat

record CursorImage =
  ci_rgba :: "u8 list"
  ci_width :: u16
  ci_height :: u16
  ci_hotspot_x :: u16
  ci_hotspot_y :: u16

datatype NativeCall =
    NcCreate native_id WindowSpec bool
  | NcSetCursorVisible native_id bool
  | NcSetMinimized native_id bool
  | NcSetMaximized native_id bool
  | NcSetTopmost native_id bool
  | NcSetTitle native_id rust_string
  | NcRequestInnerSize native_id u16 u16
  | NcSetOuterPosition native_id i32 i32
  | NcSetIcon native_id "u8 list" u16 u16
  | NcSetCursor native_id CursorImage
  | NcTransientFor u32 u32
  | NcExit

record native_window =
  nw_id :: native_id
  nw_inner_width :: nat
  nw_inner_height :: nat
  nw_xid :: "u32 option"

record native_env =
  env_is_x11 :: bool
  env_now :: nat
  env_decoded_us :: u64
  env_presented_us :: u64
  env_lend :: surface_buffer
  env_attach :: "rust_string + unit"
  env_resize :: "rust_string + unit"
  env_create :: "WindowSpec \<Rightarrow> rust_string + native_window"
  env_icon_ok :: "u8 list \<Rightarrow> u16 \<Rightarrow> u16 \<Rightarrow> bool"
  env_cursor_ok :: "CursorImage \<Rightarrow> bool"
  env_sidecar :: bool

record WinitWindow =
  ww_window :: native_id
  ww_xid :: "u32 option"
  ww_owner_id :: u32
  ww_geometry :: WinGeometry

record WinitBackend =
  wb_presenter :: CpuPresenter
  wb_events :: "DisplayEvent list"
  wb_windows :: "(u32 \<times> WinitWindow) list"
  wb_by_winit_id :: "(native_id \<times> u32) list"
  wb_cursor_cache :: "(u32 \<times> CursorImage) list"
  wb_cursor_visible :: bool
  wb_pointer_buttons :: u8
  wb_pointer_position :: "(u32 \<times> i32 \<times> i32) list"
  wb_geometry_echoes :: GeometryEchoLedger
  wb_unmapped_keys :: "(KeyCode + string) list"
  wb_native :: "NativeCall list"

definition WinitBackend_new :: WinitBackend where
  "WinitBackend_new = \<lparr>wb_presenter = [], wb_events = [], wb_windows = [], wb_by_winit_id = [], wb_cursor_cache = [],
     wb_cursor_visible = True, wb_pointer_buttons = 0, wb_pointer_position = [],
     wb_geometry_echoes = GeometryEchoLedger_new GEOMETRY_ECHO_DEADLINE, wb_unmapped_keys = [], wb_native = []\<rparr>"

definition wb_send :: "DisplayEvent \<Rightarrow> WinitBackend \<Rightarrow> WinitBackend" where
  "wb_send e b = b\<lparr>wb_events := wb_events b @ [e]\<rparr>"

definition native :: "NativeCall list \<Rightarrow> WinitBackend \<Rightarrow> WinitBackend" where
  "native cs b = b\<lparr>wb_native := wb_native b @ cs\<rparr>"

subsection \<open>Events of the window system\<close>

datatype WindowEvent =
    EvCloseRequested
  | EvResized nat nat
  | EvMoved i32 i32
  | EvFocused bool
  | EvKeyboardInput "KeyCode + string" bool
  | EvModifiersChanged bool bool bool bool
  | EvCursorMoved i32 i32
  | EvMouseInput mouse_button bool
  | EvMouseWheel i16 i16
  | EvImeCommit rust_string
  | EvRedrawRequested
  | EvOther

definition clamp_u16 :: "nat \<Rightarrow> u16" where
  "clamp_u16 n = (if n \<le> 65535 then of_nat n else 0xFFFF)"

definition pointer_at :: "u32 \<Rightarrow> WinitBackend \<Rightarrow> i32 \<times> i32" where
  "pointer_at i b = (case map_of (wb_pointer_position b) i of None \<Rightarrow> (0, 0) | Some p \<Rightarrow> p)"

definition on_resized :: "native_env \<Rightarrow> u32 \<Rightarrow> nat \<Rightarrow> nat \<Rightarrow> WinitBackend \<Rightarrow> WinitBackend" where
  "on_resized env i size_width size_height b =
    (let width = clamp_u16 size_width;
         height = clamp_u16 size_height;
         b1 = b\<lparr>wb_presenter := snd (pr_resize (env_resize env) i (unat width) (unat height) (wb_presenter b))\<rparr>;
         b2 = (case map_of (wb_windows b1) i of
                 None \<Rightarrow> b1
               | Some entry \<Rightarrow>
                   let g = (ww_geometry entry)\<lparr>wgm_width := width, wgm_height := height\<rparr> in
                   b1\<lparr>wb_windows := AList.update i (entry\<lparr>ww_geometry := g\<rparr>) (wb_windows b1),
                      wb_geometry_echoes := el_record (env_now env) i g (wb_geometry_echoes b1)\<rparr>)
     in wb_send (ResizeRequested i width height) b2)"

definition on_moved :: "native_env \<Rightarrow> u32 \<Rightarrow> i32 \<Rightarrow> i32 \<Rightarrow> WinitBackend \<Rightarrow> WinitBackend" where
  "on_moved env i x y b =
    (let b1 = (case map_of (wb_windows b) i of
                 None \<Rightarrow> b
               | Some entry \<Rightarrow>
                   let g = (ww_geometry entry)\<lparr>wgm_x := x, wgm_y := y\<rparr> in
                   b\<lparr>wb_windows := AList.update i (entry\<lparr>ww_geometry := g\<rparr>) (wb_windows b),
                     wb_geometry_echoes := el_record (env_now env) i g (wb_geometry_echoes b)\<rparr>)
     in wb_send (MoveRequested i x y) b1)"

definition on_key :: "KeyCode + string \<Rightarrow> bool \<Rightarrow> WinitBackend \<Rightarrow> WinitBackend" where
  "on_key key pressed b =
    (let unmapped = b\<lparr>wb_unmapped_keys := List.insert key (wb_unmapped_keys b)\<rparr> in
     case key of
       Inl code \<Rightarrow>
         (case keycode_to_scancode code of
            Some s \<Rightarrow> wb_send (DevKey (sc_code s) pressed (sc_extended s)) b
          | None \<Rightarrow> unmapped)
     | Inr _ \<Rightarrow> unmapped)"

definition handle_window_event :: "native_env \<Rightarrow> native_id \<Rightarrow> WindowEvent \<Rightarrow> WinitBackend \<Rightarrow> WinitBackend option" where
  "handle_window_event env nid event b =
    (case map_of (wb_by_winit_id b) nid of
       None \<Rightarrow> Some b
     | Some i \<Rightarrow>
         (case event of
            EvCloseRequested \<Rightarrow> Some (wb_send (CloseRequested i) b)
          | EvResized w h \<Rightarrow> Some (on_resized env i w h b)
          | EvMoved x y \<Rightarrow> Some (if env_is_x11 env then on_moved env i x y b else b)
          | EvFocused focused \<Rightarrow> Some (wb_send (DevModifiers 0 locks) (wb_send (Focused i focused) b))
          | EvKeyboardInput key pressed \<Rightarrow> Some (on_key key pressed b)
          | EvModifiersChanged shift control alt super \<Rightarrow>
              Some (wb_send (DevModifiers (modifiers shift control alt super) locks) b)
          | EvCursorMoved x y \<Rightarrow>
              Some (wb_send (DevPointer i x y (wb_pointer_buttons b) 0 0)
                (b\<lparr>wb_pointer_position := AList.update i (x, y) (wb_pointer_position b)\<rparr>))
          | EvMouseInput button pressed \<Rightarrow>
              (let b1 = b\<lparr>wb_pointer_buttons := update_buttons (wb_pointer_buttons b) button pressed\<rparr>;
                   (x, y) = pointer_at i b1
               in Some (wb_send (DevPointer i x y (wb_pointer_buttons b1) 0 0) b1))
          | EvMouseWheel wheel_x wheel_y \<Rightarrow>
              (let (x, y) = pointer_at i b
               in Some (wb_send (DevPointer i x y (wb_pointer_buttons b) wheel_x wheel_y) b))
          | EvImeCommit text \<Rightarrow> Some (wb_send (DevText text) b)
          | EvRedrawRequested \<Rightarrow>
              map_option (\<lambda>(_, p). b\<lparr>wb_presenter := p\<rparr>) (refresh (env_lend env) i (wb_presenter b))
          | EvOther \<Rightarrow> Some b))"

subsection \<open>Commands\<close>

definition apply_transient_for :: "native_env \<Rightarrow> u32 \<Rightarrow> WinitBackend \<Rightarrow> WinitBackend" where
  "apply_transient_for env i b =
    (case map_of (wb_windows b) i of
       None \<Rightarrow> b
     | Some entry \<Rightarrow>
         if ww_owner_id entry = 0 then b
         else case (ww_xid entry, Option.bind (map_of (wb_windows b) (ww_owner_id entry)) ww_xid) of
           (Some child, Some owner) \<Rightarrow> if env_sidecar env then native [NcTransientFor child owner] b else b
         | _ \<Rightarrow> b)"

definition winit_create :: "native_env \<Rightarrow> WindowSpec \<Rightarrow> WinitBackend backend_op" where
  "winit_create env remote b =
    (if map_of (wb_windows b) (sp_window_id remote) \<noteq> None then Some (Inr (), b)
     else case env_create env remote of
       Inl e \<Rightarrow> Some (Inl e, b)
     | Inr window \<Rightarrow>
         let i = sp_window_id remote;
             nid = nw_id window;
             b1 = native ([NcCreate nid remote (env_is_x11 env), NcSetCursorVisible nid (wb_cursor_visible b)]
                    @ (if sp_minimized remote then [NcSetMinimized nid True] else [])) b;
             (r, p) = attach (env_attach env) i (nw_inner_width window) (nw_inner_height window) (wb_presenter b1);
             b2 = b1\<lparr>wb_presenter := p\<rparr>
         in case r of
           Inl e \<Rightarrow> Some (Inl (present_error_text e), b2)
         | Inr _ \<Rightarrow>
             Some (Inr (), apply_transient_for env i (b2\<lparr>
               wb_by_winit_id := AList.update nid i (wb_by_winit_id b2),
               wb_windows := AList.update i \<lparr>ww_window = nid, ww_xid = nw_xid window,
                 ww_owner_id = sp_owner_id remote, ww_geometry = geometry_of remote\<rparr> (wb_windows b2)\<rparr>)))"

definition winit_destroy :: "u32 \<Rightarrow> WinitBackend backend_op" where
  "winit_destroy i b =
    (let b1 = b\<lparr>wb_presenter := detach i (wb_presenter b)\<rparr> in
     case map_of (wb_windows b1) i of
       None \<Rightarrow> Some (Inr (), b1)
     | Some entry \<Rightarrow> Some (Inr (), b1\<lparr>wb_windows := AList.delete i (wb_windows b1),
         wb_by_winit_id := AList.delete (ww_window entry) (wb_by_winit_id b1)\<rparr>))"

definition winit_move :: "native_env \<Rightarrow> WindowSpec \<Rightarrow> WinitBackend backend_op" where
  "winit_move env remote b =
    (let i = sp_window_id remote;
         geometry = geometry_of remote;
         (echo, l) = take_if_echo (env_now env) i geometry (wb_geometry_echoes b);
         b1 = b\<lparr>wb_geometry_echoes := l\<rparr>
     in if echo then Some (Inr (), b1)
        else case map_of (wb_windows b1) i of
          None \<Rightarrow> Some (Inr (), b1)
        | Some entry \<Rightarrow>
            let b2 = native [NcRequestInnerSize (ww_window entry) (sp_width remote) (sp_height remote)] b1;
                (r, p) = pr_resize (env_resize env) i (unat (sp_width remote)) (unat (sp_height remote)) (wb_presenter b2);
                b3 = b2\<lparr>wb_presenter := p\<rparr>
            in case r of
              Inl e \<Rightarrow> Some (Inl (present_error_text e), b3)
            | Inr _ \<Rightarrow>
                let b4 = (if env_is_x11 env then native [NcSetOuterPosition (ww_window entry) (sp_x remote) (sp_y remote)] b3 else b3)
                in Some (Inr (), b4\<lparr>wb_windows := AList.update i (entry\<lparr>ww_geometry := geometry\<rparr>) (wb_windows b4)\<rparr>))"

definition winit_retitle :: "WindowSpec \<Rightarrow> WinitBackend backend_op" where
  "winit_retitle remote b =
    Some (Inr (), case map_of (wb_windows b) (sp_window_id remote) of
      None \<Rightarrow> b
    | Some entry \<Rightarrow> native [NcSetTitle (ww_window entry) (sp_title remote)] b)"

definition winit_state :: "WindowSpec \<Rightarrow> WinitBackend backend_op" where
  "winit_state remote b =
    Some (Inr (), case map_of (wb_windows b) (sp_window_id remote) of
      None \<Rightarrow> b
    | Some entry \<Rightarrow> native [NcSetMinimized (ww_window entry) (sp_minimized remote),
        NcSetMaximized (ww_window entry) (sp_maximized remote), NcSetTopmost (ww_window entry) (sp_topmost remote)] b)"

definition winit_icon :: "native_env \<Rightarrow> WindowSpec \<Rightarrow> WinitBackend backend_op" where
  "winit_icon env remote b =
    Some (Inr (),
      if \<not> env_is_x11 env then b
      else case (sp_icon remote, map_of (wb_windows b) (sp_window_id remote)) of
        (Some icon, Some entry) \<Rightarrow>
          (case bgra_to_rgba (wi_bgra icon) (wi_width icon) (wi_height icon) of
             None \<Rightarrow> b
           | Some rgba \<Rightarrow>
               if env_icon_ok env rgba (wi_width icon) (wi_height icon)
               then native [NcSetIcon (ww_window entry) rgba (wi_width icon) (wi_height icon)] b else b)
      | _ \<Rightarrow> b)"

definition winit_frame :: "native_env \<Rightarrow> FrameData \<Rightarrow> WinitBackend \<Rightarrow> ((rust_string + PresentTimes option) \<times> WinitBackend) option" where
  "winit_frame env f b =
    (if map_of (wb_windows b) (fd_window_id f) = None then Some (Inr None, b)
     else case present (env_lend env) (env_decoded_us env) (env_presented_us env) (fd_window_id f) f (wb_presenter b) of
       None \<Rightarrow> None
     | Some (r, p) \<Rightarrow>
         let b1 = b\<lparr>wb_presenter := p\<rparr> in
         Some (case r of
           Inr t \<Rightarrow> (Inr (Some t),
             wb_send (Presented (fd_window_id f) (fd_frame_id f) (pt_decoded_us t) (pt_presented_us t)) b1)
         | Inl (DroppedFrame _ _ _) \<Rightarrow> (Inr None, b1)
         | Inl e \<Rightarrow> (Inl (present_error_text e), b1)))"

definition set_cursor_all :: "CursorImage \<Rightarrow> WinitBackend \<Rightarrow> WinitBackend" where
  "set_cursor_all c b = native (map (\<lambda>(_, entry). NcSetCursor (ww_window entry) c) (wb_windows b)) b"

definition winit_cursor_shape :: "native_env \<Rightarrow> CursorShape \<Rightarrow> WinitBackend backend_op" where
  "winit_cursor_shape env shape b =
    Some (Inr (), case map_of (wb_cursor_cache b) (cs_cursor_id shape) of
      Some cursor \<Rightarrow> set_cursor_all cursor b
    | None \<Rightarrow>
        if cs_format shape \<noteq> BGRA_PREMUL then b
        else case bgra_premul_to_rgba (cs_data shape) (cs_width shape) (cs_height shape) of
          None \<Rightarrow> b
        | Some rgba \<Rightarrow>
            let cursor = \<lparr>ci_rgba = rgba, ci_width = cs_width shape, ci_height = cs_height shape,
                  ci_hotspot_x = cs_hotspot_x shape, ci_hotspot_y = cs_hotspot_y shape\<rparr>
            in if \<not> env_cursor_ok env cursor then b
               else let b1 = set_cursor_all cursor b
                    in b1\<lparr>wb_cursor_cache := AList.update (cs_cursor_id shape) cursor (wb_cursor_cache b1)\<rparr>)"

definition winit_cursor_visibility :: "bool \<Rightarrow> WinitBackend backend_op" where
  "winit_cursor_visibility visible b =
    (let b1 = b\<lparr>wb_cursor_visible := visible\<rparr>
     in Some (Inr (), native (map (\<lambda>(_, entry). NcSetCursorVisible (ww_window entry) visible) (wb_windows b1)) b1))"

definition winit_agent_error :: "u16 \<Rightarrow> rust_string \<Rightarrow> WinitBackend backend_op" where
  "winit_agent_error code m b =
    Some (Inr (), wb_send (BackendError (ascii ''agent error '' @ decimal (unat code) @ ascii '': '' @ m)) b)"

definition winit_ops :: "native_env \<Rightarrow> WinitBackend DisplayBackend" where
  "winit_ops env = \<lparr>
     create_window = winit_create env,
     destroy_window = winit_destroy,
     move_window = winit_move env,
     retitle_window = winit_retitle,
     change_state = winit_state,
     change_icon = winit_icon env,
     restack = \<lambda>_ b. Some (Inr (), b),
     frame_op = winit_frame env,
     cursor_shape = winit_cursor_shape env,
     cursor_moved = \<lambda>_ _ _ b. Some (Inr (), b),
     cursor_visibility = winit_cursor_visibility,
     agent_error = winit_agent_error,
     closed_op = \<lambda>b. Some (Inr (), native [NcExit] b)\<rparr>"

definition user_event :: "native_env \<Rightarrow> DisplayCommand \<Rightarrow> WinitBackend \<Rightarrow> WinitBackend option" where
  "user_event env event b =
    (if event = Shutdown then Some (native [NcExit] b)
     else map_option (\<lambda>(r, b1). case r of Inl e \<Rightarrow> wb_send (BackendError e) b1 | Inr _ \<Rightarrow> b1)
       (apply_display_command (winit_ops env) event b))"

section \<open>The windows stay consistent\<close>

text \<open>
  The presenter has a surface for exactly the backend's windows, the native ids lead back to exactly
  those windows, and every cached frame has the size it announces.
\<close>

definition winit_consistent :: "WinitBackend \<Rightarrow> bool" where
  "winit_consistent b \<longleftrightarrow>
     dom (map_of (wb_presenter b)) = dom (map_of (wb_windows b))
     \<and> (\<forall>nid i. map_of (wb_by_winit_id b) nid = Some i \<longleftrightarrow> (\<exists>e. map_of (wb_windows b) i = Some e \<and> ww_window e = nid))
     \<and> cached_sound (wb_presenter b)"

text \<open>The windowing library lends buffers of the size asked for and never reuses a live window's id.\<close>

definition honest_env :: "native_env \<Rightarrow> WinitBackend \<Rightarrow> bool" where
  "honest_env env b \<longleftrightarrow> honest_lender (env_lend env)
     \<and> (\<forall>w nw. env_create env w = Inr nw \<longrightarrow> map_of (wb_by_winit_id b) (nw_id nw) = None)"

definition winit_open :: "WinitBackend \<Rightarrow> u32 set" where
  "winit_open b = dom (map_of (wb_windows b))"

lemma wb_send_core [simp]:
  "wb_presenter (wb_send e b) = wb_presenter b" "wb_windows (wb_send e b) = wb_windows b"
  "wb_by_winit_id (wb_send e b) = wb_by_winit_id b"
  by (simp_all add: wb_send_def)

lemma native_core [simp]:
  "wb_presenter (native cs b) = wb_presenter b" "wb_windows (native cs b) = wb_windows b"
  "wb_by_winit_id (native cs b) = wb_by_winit_id b" "wb_events (native cs b) = wb_events b"
  by (simp_all add: native_def)

lemma consistent_cong:
  assumes "winit_consistent b" and "wb_presenter b' = wb_presenter b" and "wb_windows b' = wb_windows b"
    and "wb_by_winit_id b' = wb_by_winit_id b"
  shows "winit_consistent b' \<and> winit_open b' = winit_open b"
  using assms by (simp add: winit_consistent_def winit_open_def)

lemma consistent_presenter:
  assumes "winit_consistent b" and "wb_windows b' = wb_windows b" and "wb_by_winit_id b' = wb_by_winit_id b"
    and "cached_sound (wb_presenter b')" and "dom (map_of (wb_presenter b')) = dom (map_of (wb_presenter b))"
  shows "winit_consistent b' \<and> winit_open b' = winit_open b"
  using assms by (simp add: winit_consistent_def winit_open_def)

text \<open>Replacing the record of a window by one of the same native window changes nothing.\<close>

lemma consistent_update_window:
  assumes "winit_consistent b" and "map_of (wb_windows b) i = Some e" and "ww_window e' = ww_window e"
    and "wb_windows b' = AList.update i e' (wb_windows b)" and "wb_by_winit_id b' = wb_by_winit_id b"
    and "wb_presenter b' = wb_presenter b"
  shows "winit_consistent b' \<and> winit_open b' = winit_open b"
proof -
  have "dom (map_of (wb_windows b')) = dom (map_of (wb_windows b))"
    using assms(2,4) by (auto simp: map_of_update split: if_splits)
  moreover have "(\<exists>e. map_of (wb_windows b') j = Some e \<and> ww_window e = nid) \<longleftrightarrow>
      (\<exists>e. map_of (wb_windows b) j = Some e \<and> ww_window e = nid)" for j nid
    using assms(2,3,4) by (auto simp: map_of_update)
  ultimately show ?thesis
    using assms(1,5,6) by (simp add: winit_consistent_def winit_open_def)
qed

lemma pr_resize_sound:
  assumes "cached_sound p"
  shows "cached_sound (snd (pr_resize r i w h p)) \<and> dom (map_of (snd (pr_resize r i w h p))) = dom (map_of p)"
proof (cases "map_of p i")
  case (Some win)
  then have "cached_sound (AList.update i (win\<lparr>cpw_width := nonzero w, cpw_height := nonzero h\<rparr>) p)"
    using assms by (intro cached_sound_update) (auto simp: cached_sound_def)
  with Some assms show ?thesis
    by (auto simp: pr_resize_def map_of_update split: sum.splits if_splits)
qed (use assms in \<open>auto simp: pr_resize_def\<close>)

lemma transient_core [simp]:
  "wb_presenter (apply_transient_for env i b) = wb_presenter b" "wb_windows (apply_transient_for env i b) = wb_windows b"
  "wb_by_winit_id (apply_transient_for env i b) = wb_by_winit_id b" "wb_events (apply_transient_for env i b) = wb_events b"
  by (auto simp: apply_transient_for_def split: option.splits)

lemma consistent_unused:
  assumes "winit_consistent b" and "map_of (wb_by_winit_id b) nid = None" and "map_of (wb_windows b) i = Some e"
  shows "ww_window e \<noteq> nid"
  using assms unfolding winit_consistent_def by (metis option.distinct(1))

lemma create_consistent:
  assumes "winit_consistent b" and "honest_env env b"
  shows "\<exists>r b'. winit_create env w b = Some (r, b') \<and> winit_consistent b'
    \<and> winit_open b' = (case r of Inl _ \<Rightarrow> winit_open b | Inr _ \<Rightarrow> insert (sp_window_id w) (winit_open b))"
proof (cases "map_of (wb_windows b) (sp_window_id w)")
  case (Some e)
  then show ?thesis using assms(1) by (auto simp: winit_create_def winit_open_def)
next
  case None
  note fresh = this
  show ?thesis
  proof (cases "env_create env w")
    case (Inl e)
    then show ?thesis using assms(1) None by (simp add: winit_create_def)
  next
    case (Inr nw)
    have id: "map_of (wb_by_winit_id b) (nw_id nw) = None"
      using assms(2) Inr by (auto simp: honest_env_def)
    show ?thesis
    proof (cases "env_attach env")
      case (Inl e)
      obtain b' where "winit_create env w b = Some (Inl (present_error_text (Platform e)), b')"
        and b': "wb_presenter b' = wb_presenter b" "wb_windows b' = wb_windows b" "wb_by_winit_id b' = wb_by_winit_id b"
        using None Inr Inl by (simp add: winit_create_def attach_def Let_def)
      then show ?thesis
        using consistent_cong [OF assms(1) b'] by simp
    next
      case (Inr u)
      obtain b' where c: "winit_create env w b = Some (Inr (), b')"
        and p: "wb_presenter b' = AList.update (sp_window_id w) \<lparr>cpw_surface = [], cpw_width = nonzero (nw_inner_width nw),
            cpw_height = nonzero (nw_inner_height nw), cpw_last_frame = None\<rparr> (wb_presenter b)"
        and ws: "wb_windows b' = AList.update (sp_window_id w) \<lparr>ww_window = nw_id nw, ww_xid = nw_xid nw,
            ww_owner_id = sp_owner_id w, ww_geometry = geometry_of w\<rparr> (wb_windows b)"
        and ids: "wb_by_winit_id b' = AList.update (nw_id nw) (sp_window_id w) (wb_by_winit_id b)"
        using None \<open>env_create env w = Inr nw\<close> Inr by (simp add: winit_create_def attach_def Let_def)
      have "cached_sound (wb_presenter b')"
        using assms(1) unfolding p by (intro cached_sound_update) (auto simp: winit_consistent_def)
      moreover have "map_of (wb_by_winit_id b') nid = Some i \<longleftrightarrow> (\<exists>e. map_of (wb_windows b') i = Some e \<and> ww_window e = nid)" for nid i
        using consistent_unused [OF assms(1) id, of i] assms(1) fresh unfolding winit_consistent_def ws ids
        by (auto simp: map_of_update)
      moreover have "dom (map_of (wb_presenter b')) = dom (map_of (wb_windows b'))"
        using assms(1) unfolding winit_consistent_def p ws by (simp add: AList.update_conv')
      ultimately have "winit_consistent b'" by (simp add: winit_consistent_def)
      with c show ?thesis by (auto simp: winit_open_def ws map_of_update)
    qed
  qed
qed

lemma consistent_inj:
  assumes "winit_consistent b" and "map_of (wb_windows b) i = Some e" and "map_of (wb_windows b) j = Some e'"
    and "ww_window e = ww_window e'"
  shows "i = j"
proof -
  have "map_of (wb_by_winit_id b) (ww_window e) = Some i" "map_of (wb_by_winit_id b) (ww_window e) = Some j"
    using assms by (auto simp: winit_consistent_def)
  then show ?thesis by simp
qed

lemma destroy_consistent:
  assumes "winit_consistent b"
  shows "\<exists>b'. winit_destroy i b = Some (Inr (), b') \<and> winit_consistent b' \<and> winit_open b' = winit_open b - {i}"
proof (cases "map_of (wb_windows b) i")
  case None
  then have "map_of (wb_presenter b) i = None"
    using assms by (auto simp: winit_consistent_def)
  with None show ?thesis
    using assms by (auto simp: winit_destroy_def detach_def hm_delete_fresh winit_open_def)
next
  case (Some e)
  let ?b = "b\<lparr>wb_presenter := AList.delete i (wb_presenter b), wb_windows := AList.delete i (wb_windows b),
         wb_by_winit_id := AList.delete (ww_window e) (wb_by_winit_id b)\<rparr>"
  have "winit_consistent ?b"
    unfolding winit_consistent_def
  proof (intro conjI allI)
    show "map_of (wb_by_winit_id ?b) nid = Some j \<longleftrightarrow> (\<exists>e. map_of (wb_windows ?b) j = Some e \<and> ww_window e = nid)" for nid j
    proof -
      have "map_of (wb_by_winit_id ?b) nid = Some j \<longleftrightarrow> nid \<noteq> ww_window e \<and> map_of (wb_by_winit_id b) nid = Some j"
        by (simp add: map_of_delete)
      also have "\<dots> \<longleftrightarrow> nid \<noteq> ww_window e \<and> (\<exists>e'. map_of (wb_windows b) j = Some e' \<and> ww_window e' = nid)"
        using assms by (simp add: winit_consistent_def)
      also have "\<dots> \<longleftrightarrow> j \<noteq> i \<and> (\<exists>e'. map_of (wb_windows b) j = Some e' \<and> ww_window e' = nid)"
        using consistent_inj [OF assms Some, of j] Some by auto
      finally show ?thesis by (simp add: map_of_delete)
    qed
  qed (use assms in \<open>auto simp: winit_consistent_def AList.delete_conv' cached_sound_delete\<close>)
  with Some show ?thesis
    by (auto simp: winit_destroy_def detach_def winit_open_def AList.delete_conv' Let_def)
qed

lemma move_consistent:
  assumes "winit_consistent b"
  shows "\<exists>r b'. winit_move env w b = Some (r, b') \<and> winit_consistent b' \<and> winit_open b' = winit_open b"
proof -
  let ?i = "sp_window_id w"
  obtain echo l where t: "take_if_echo (env_now env) ?i (geometry_of w) (wb_geometry_echoes b) = (echo, l)"
    by fastforce
  obtain r p where z: "pr_resize (env_resize env) ?i (unat (sp_width w)) (unat (sp_height w)) (wb_presenter b) = (r, p)"
    by fastforce
  have p: "cached_sound p" "dom (map_of p) = dom (map_of (wb_presenter b))"
    using pr_resize_sound [of "wb_presenter b" "env_resize env" ?i "unat (sp_width w)" "unat (sp_height w)"] assms z
    by (simp_all add: winit_consistent_def)
  have same: "winit_consistent (b\<lparr>wb_geometry_echoes := l\<rparr>) \<and> winit_open (b\<lparr>wb_geometry_echoes := l\<rparr>) = winit_open b"
    by (rule consistent_cong [OF assms]) simp_all
  show ?thesis
  proof (cases "echo \<or> map_of (wb_windows b) ?i = None")
    case True
    then have "winit_move env w b = Some (Inr (), b\<lparr>wb_geometry_echoes := l\<rparr>)"
      by (auto simp: winit_move_def t Let_def)
    with same show ?thesis by blast
  next
    case False
    then obtain e where e: "map_of (wb_windows b) ?i = Some e" and "\<not> echo" by auto
    show ?thesis
    proof (cases r)
      case (Inl x)
      obtain b' where "winit_move env w b = Some (Inl (present_error_text x), b')" and b': "wb_windows b' = wb_windows b"
        "wb_by_winit_id b' = wb_by_winit_id b" "wb_presenter b' = p"
        using e \<open>\<not> echo\<close> Inl by (simp add: winit_move_def t z Let_def)
      then show ?thesis
        using consistent_presenter [OF assms b'(1,2)] p by auto
    next
      case (Inr x)
      define b1 where "b1 = b\<lparr>wb_presenter := p\<rparr>"
      have b1: "winit_consistent b1 \<and> winit_open b1 = winit_open b"
        using p by (intro consistent_presenter [OF assms]) (simp_all add: b1_def)
      obtain b' where m: "winit_move env w b = Some (Inr (), b')"
        and b': "wb_windows b' = AList.update ?i (e\<lparr>ww_geometry := geometry_of w\<rparr>) (wb_windows b1)"
        "wb_by_winit_id b' = wb_by_winit_id b1" "wb_presenter b' = wb_presenter b1"
        using e \<open>\<not> echo\<close> Inr by (simp add: winit_move_def t z Let_def b1_def)
      have "winit_consistent b' \<and> winit_open b' = winit_open b1"
        by (rule consistent_update_window [OF conjunct1 [OF b1] _ _ b'(1), where e = e]) (use e b' in \<open>simp_all add: b1_def\<close>)
      with m b1 show ?thesis by auto
    qed
  qed
qed

lemma frame_consistent:
  assumes "winit_consistent b" and "honest_env env b"
  shows "\<exists>r b'. winit_frame env f b = Some (r, b') \<and> winit_consistent b' \<and> winit_open b' = winit_open b"
proof (cases "map_of (wb_windows b) (fd_window_id f) = None")
  case True
  then show ?thesis using assms(1) by (simp add: winit_frame_def)
next
  case False
  obtain r p where p: "present (env_lend env) (env_decoded_us env) (env_presented_us env) (fd_window_id f) f (wb_presenter b) = Some (r, p)"
    and s: "cached_sound p" "dom (map_of p) = dom (map_of (wb_presenter b))"
    by (rule present_defined [of "env_lend env" "wb_presenter b"]) (use assms in \<open>auto simp: honest_env_def winit_consistent_def\<close>)
  obtain r' b' where m: "winit_frame env f b = Some (r', b')" and b': "wb_windows b' = wb_windows b"
    "wb_by_winit_id b' = wb_by_winit_id b" "wb_presenter b' = p"
    using False p by (cases r; cases "projl r") (auto simp: winit_frame_def split: option.splits)
  with consistent_presenter [OF assms(1) b'(1,2)] s show ?thesis by auto
qed

lemma set_cursor_core [simp]:
  "wb_presenter (set_cursor_all c b) = wb_presenter b" "wb_windows (set_cursor_all c b) = wb_windows b"
  "wb_by_winit_id (set_cursor_all c b) = wb_by_winit_id b"
  by (simp_all add: set_cursor_all_def)

text \<open>The operations that only talk to the windowing library.\<close>

lemma inert_ops:
  "\<exists>b'. winit_retitle w b = Some (Inr (), b') \<and> wb_presenter b' = wb_presenter b \<and> wb_windows b' = wb_windows b \<and> wb_by_winit_id b' = wb_by_winit_id b"
  "\<exists>b'. winit_state w b = Some (Inr (), b') \<and> wb_presenter b' = wb_presenter b \<and> wb_windows b' = wb_windows b \<and> wb_by_winit_id b' = wb_by_winit_id b"
  "\<exists>b'. winit_icon env w b = Some (Inr (), b') \<and> wb_presenter b' = wb_presenter b \<and> wb_windows b' = wb_windows b \<and> wb_by_winit_id b' = wb_by_winit_id b"
  "\<exists>b'. winit_cursor_shape env c b = Some (Inr (), b') \<and> wb_presenter b' = wb_presenter b \<and> wb_windows b' = wb_windows b \<and> wb_by_winit_id b' = wb_by_winit_id b"
  "\<exists>b'. winit_cursor_visibility v b = Some (Inr (), b') \<and> wb_presenter b' = wb_presenter b \<and> wb_windows b' = wb_windows b \<and> wb_by_winit_id b' = wb_by_winit_id b"
  "\<exists>b'. winit_agent_error code m b = Some (Inr (), b') \<and> wb_presenter b' = wb_presenter b \<and> wb_windows b' = wb_windows b \<and> wb_by_winit_id b' = wb_by_winit_id b"
  by (simp_all add: winit_retitle_def winit_state_def winit_icon_def winit_cursor_shape_def winit_cursor_visibility_def
      winit_agent_error_def Let_def split: option.split)

definition command_kept :: "native_env \<Rightarrow> DisplayCommand \<Rightarrow> WinitBackend \<Rightarrow> bool" where
  "command_kept env c b \<longleftrightarrow> (\<exists>r b'. apply_display_command (winit_ops env) c b = Some (r, b') \<and> winit_consistent b'
     \<and> winit_open b' = (case r of Inl _ \<Rightarrow> winit_open b | Inr _ \<Rightarrow> open_after c (winit_open b)))"

lemma command_kept_inert:
  assumes "winit_consistent b"
    and "\<exists>b'. apply_display_command (winit_ops env) c b = Some (Inr (), b') \<and> wb_presenter b' = wb_presenter b
      \<and> wb_windows b' = wb_windows b \<and> wb_by_winit_id b' = wb_by_winit_id b"
    and "open_after c (winit_open b) = winit_open b"
  shows "command_kept env c b"
proof -
  obtain b' where a: "apply_display_command (winit_ops env) c b = Some (Inr (), b')"
    and b': "wb_presenter b' = wb_presenter b" "wb_windows b' = wb_windows b" "wb_by_winit_id b' = wb_by_winit_id b"
    using assms(2) by blast
  show ?thesis
    using consistent_cong [OF assms(1) b'] a assms(3) by (auto simp: command_kept_def)
qed

lemma command_kept_open:
  assumes "\<exists>r b'. apply_display_command (winit_ops env) c b = Some (r, b') \<and> winit_consistent b' \<and> winit_open b' = winit_open b"
    and "open_after c (winit_open b) = winit_open b"
  shows "command_kept env c b"
  using assms unfolding command_kept_def by (fastforce split: sum.split)

lemma commands_consistent:
  assumes "winit_consistent b" and "honest_env env b"
  shows "command_kept env c b"
proof (cases c)
  case (CreateWindow w)
  then show ?thesis
    using create_consistent [OF assms, of w] by (auto simp: command_kept_def winit_ops_def split: sum.splits)
next
  case (DestroyWindow i)
  then show ?thesis using destroy_consistent [OF assms(1), of i] by (auto simp: command_kept_def winit_ops_def)
next
  case (MoveWindow w)
  then show ?thesis using move_consistent [OF assms(1), of env w] by (intro command_kept_open) (simp_all add: winit_ops_def)
next
  case (CmdFrame f)
  then show ?thesis using frame_consistent [OF assms, of f] by (intro command_kept_open) (auto simp: winit_ops_def)
qed (use inert_ops [where b = b] in \<open>auto intro!: command_kept_inert [OF assms(1)] simp: winit_ops_def\<close>)

interpretation winit: display_backend winit_ops honest_env winit_consistent winit_open
  by unfold_locales (use commands_consistent in \<open>simp add: command_kept_def\<close>)

lemma on_resized_consistent:
  assumes "winit_consistent b"
  shows "winit_consistent (on_resized env i w h b) \<and> winit_open (on_resized env i w h b) = winit_open b"
proof -
  let ?p = "snd (pr_resize (env_resize env) i (unat (clamp_u16 w)) (unat (clamp_u16 h)) (wb_presenter b))"
  have 1: "winit_consistent (b\<lparr>wb_presenter := ?p\<rparr>) \<and> winit_open (b\<lparr>wb_presenter := ?p\<rparr>) = winit_open b"
    using pr_resize_sound [of "wb_presenter b" "env_resize env" i "unat (clamp_u16 w)" "unat (clamp_u16 h)"] assms
    by (intro consistent_presenter [OF assms]) (simp_all add: winit_consistent_def)
  show ?thesis
  proof (cases "map_of (wb_windows b) i")
    case None
    then have "winit_consistent (on_resized env i w h b) \<and> winit_open (on_resized env i w h b) = winit_open (b\<lparr>wb_presenter := ?p\<rparr>)"
      by (intro consistent_cong [OF conjunct1 [OF 1]]) (simp_all add: on_resized_def Let_def)
    with 1 show ?thesis by simp
  next
    case (Some e)
    let ?e = "e\<lparr>ww_geometry := (ww_geometry e)\<lparr>wgm_width := clamp_u16 w, wgm_height := clamp_u16 h\<rparr>\<rparr>"
    have "winit_consistent (on_resized env i w h b) \<and> winit_open (on_resized env i w h b) = winit_open (b\<lparr>wb_presenter := ?p\<rparr>)"
      by (rule consistent_update_window [OF conjunct1 [OF 1], where e = e and e' = ?e])
        (simp_all add: on_resized_def Let_def Some)
    with 1 show ?thesis by simp
  qed
qed

lemma on_moved_consistent:
  assumes "winit_consistent b"
  shows "winit_consistent (on_moved env i x y b) \<and> winit_open (on_moved env i x y b) = winit_open b"
proof (cases "map_of (wb_windows b) i")
  case None
  then show ?thesis
    by (intro consistent_cong [OF assms]) (simp_all add: on_moved_def)
next
  case (Some e)
  let ?e = "e\<lparr>ww_geometry := (ww_geometry e)\<lparr>wgm_x := x, wgm_y := y\<rparr>\<rparr>"
  show ?thesis
    by (rule consistent_update_window [OF assms Some, where e' = ?e]) (simp_all add: on_moved_def Some Let_def)
qed

lemma on_key_core:
  "wb_presenter (on_key k pr b) = wb_presenter b" "wb_windows (on_key k pr b) = wb_windows b"
  "wb_by_winit_id (on_key k pr b) = wb_by_winit_id b"
  by (simp_all add: on_key_def Let_def split: sum.split option.split)

lemma window_event_consistent:
  assumes "winit_consistent b" and "honest_env env b"
  shows "\<exists>b'. handle_window_event env nid ev b = Some b' \<and> winit_consistent b' \<and> winit_open b' = winit_open b"
proof (cases "map_of (wb_by_winit_id b) nid")
  case None
  then show ?thesis using assms(1) by (simp add: handle_window_event_def)
next
  case (Some i)
  have inert: ?thesis if "\<exists>b'. handle_window_event env nid ev b = Some b' \<and> wb_presenter b' = wb_presenter b
      \<and> wb_windows b' = wb_windows b \<and> wb_by_winit_id b' = wb_by_winit_id b"
    using that consistent_cong [OF assms(1)] by blast
  show ?thesis
  proof (cases ev)
    case (EvResized w h)
    then show ?thesis using on_resized_consistent [OF assms(1), of env i w h] Some by (simp add: handle_window_event_def)
  next
    case (EvMoved x y)
    then show ?thesis
      using on_moved_consistent [OF assms(1), of env i x y] Some assms(1) by (simp add: handle_window_event_def)
  next
    case EvRedrawRequested
    obtain r p where "refresh (env_lend env) i (wb_presenter b) = Some (r, p)" and "cached_sound p"
      and "dom (map_of p) = dom (map_of (wb_presenter b))"
      by (rule refresh_defined [of "env_lend env" "wb_presenter b"]) (use assms in \<open>auto simp: honest_env_def winit_consistent_def\<close>)
    then show ?thesis
      using EvRedrawRequested Some consistent_presenter [OF assms(1), of "b\<lparr>wb_presenter := p\<rparr>"]
      by (simp add: handle_window_event_def)
  next
    case EvOther
    then show ?thesis using Some assms(1) by (simp add: handle_window_event_def)
  qed (rule inert, simp add: Some handle_window_event_def on_key_core Let_def split: prod.split)+
qed

lemma user_event_consistent:
  assumes "winit_consistent b" and "honest_env env b"
  shows "\<exists>b'. user_event env c b = Some b' \<and> winit_consistent b'"
proof (cases "c = Shutdown")
  case True
  then show ?thesis
    using consistent_cong [OF assms(1), of "native [NcExit] b"] by (simp add: user_event_def)
next
  case False
  obtain r b1 where r: "apply_display_command (winit_ops env) c b = Some (r, b1)" and b1: "winit_consistent b1"
    using commands_consistent [OF assms, of c] by (auto simp: command_kept_def)
  have "winit_consistent (wb_send (BackendError e) b1)" for e
    using consistent_cong [OF b1, of "wb_send (BackendError e) b1"] by simp
  with r b1 False show ?thesis by (auto simp: user_event_def split: sum.split)
qed

text \<open>A run of the display thread: commands of the session and events of the window system, interleaved.\<close>

datatype display_input = Command DisplayCommand | Native native_id WindowEvent

fun display_step :: "native_env \<Rightarrow> display_input \<Rightarrow> WinitBackend \<Rightarrow> WinitBackend option" where
  "display_step env (Command c) b = user_event env c b"
| "display_step env (Native nid ev) b = handle_window_event env nid ev b"

fun display_run :: "(native_env \<times> display_input) list \<Rightarrow> WinitBackend \<Rightarrow> WinitBackend option" where
  "display_run [] b = Some b"
| "display_run ((env, i) # is) b = Option.bind (display_step env i b) (display_run is)"

fun honest_display_run :: "(native_env \<times> display_input) list \<Rightarrow> WinitBackend \<Rightarrow> bool" where
  "honest_display_run [] b = True"
| "honest_display_run ((env, i) # is) b =
    (honest_env env b \<and> (case display_step env i b of None \<Rightarrow> True | Some b1 \<Rightarrow> honest_display_run is b1))"

lemma display_run_consistent:
  "winit_consistent b \<Longrightarrow> honest_display_run is b \<Longrightarrow> \<exists>b'. display_run is b = Some b' \<and> winit_consistent b'"
proof (induction "is" b rule: display_run.induct)
  case (2 env i "is" b)
  have "\<exists>b1. display_step env i b = Some b1 \<and> winit_consistent b1"
  proof (cases i)
    case (Command c)
    then show ?thesis using user_event_consistent [of b env c] 2(2,3) by auto
  next
    case (Native nid ev)
    then show ?thesis using window_event_consistent [of b env nid ev] 2(2,3) by auto
  qed
  then show ?case using 2 by auto
qed simp

lemma winit_new_consistent [simp]: "winit_consistent WinitBackend_new"
  by (simp add: winit_consistent_def WinitBackend_new_def)

section \<open>What the user sees\<close>

definition working_lender :: "surface_buffer \<Rightarrow> bool" where
  "working_lender lend \<longleftrightarrow> honest_lender lend \<and> (\<forall>n. \<exists>buffer. lend n = Inr (buffer, Inr ()))"

lemma unat_clamp_u16: "unat (clamp_u16 n) = min n 65535"
  by (auto simp: clamp_u16_def unat_of_nat)

lemma frame_command_shows:
  assumes "winit_consistent b" and "map_of (wb_presenter b) i = Some w" and "working_lender (env_lend env)"
    and "presentable f" and "fd_window_id f = i"
  shows "user_event env (CmdFrame f) b =
    Some (wb_send (Presented i (fd_frame_id f) (env_decoded_us env) (env_presented_us env))
      (b\<lparr>wb_presenter := AList.update i (cache_frame f (showing f w)) (wb_presenter b)\<rparr>))"
proof -
  obtain buffer where l: "env_lend env (cpw_width w * cpw_height w * 4) = Inr (buffer, Inr ())"
    using assms(3) by (auto simp: working_lender_def)
  have "i \<in> dom (map_of (wb_windows b))"
    using assms(1,2) unfolding winit_consistent_def by blast
  then have "map_of (wb_windows b) i \<noteq> None" by auto
  moreover have "present (env_lend env) (env_decoded_us env) (env_presented_us env) i f (wb_presenter b) =
      Some (Inr \<lparr>pt_decoded_us = env_decoded_us env, pt_presented_us = env_presented_us env\<rparr>,
        AList.update i (cache_frame f (showing f w)) (wb_presenter b))"
    by (rule present_shown [where w = w and buffer = buffer]) (use assms(2,3,4) l in \<open>auto simp: working_lender_def presentable_def\<close>)
  ultimately show ?thesis
    using assms(5) by (auto simp: user_event_def winit_ops_def winit_frame_def)
qed

lemma resized_surface:
  assumes "map_of (wb_by_winit_id b) nid = Some i" and "map_of (wb_presenter b) i = Some w" and "env_resize env = Inr ()"
  obtains b' where "handle_window_event env nid (EvResized ww wh) b = Some b'"
    and "wb_presenter b' = AList.update i (w\<lparr>cpw_width := max (min ww 65535) 1, cpw_height := max (min wh 65535) 1\<rparr>) (wb_presenter b)"
    and "wb_by_winit_id b' = wb_by_winit_id b"
proof
  show "handle_window_event env nid (EvResized ww wh) b = Some (on_resized env i ww wh b)"
    using assms(1) by (simp add: handle_window_event_def)
  show "wb_presenter (on_resized env i ww wh b) = AList.update i (w\<lparr>cpw_width := max (min ww 65535) 1, cpw_height := max (min wh 65535) 1\<rparr>) (wb_presenter b)"
    and "wb_by_winit_id (on_resized env i ww wh b) = wb_by_winit_id b"
    using assms(2,3) by (simp_all add: on_resized_def Let_def pr_resize_def nonzero_def unat_clamp_u16 split: option.split)
qed

lemma redraw_shows:
  assumes "map_of (wb_by_winit_id b) nid = Some i" and "map_of (wb_presenter b) i = Some w" and "cpw_last_frame w = Some f"
    and "presentable f" and "working_lender (env_lend env)"
  shows "handle_window_event env nid EvRedrawRequested b = Some (b\<lparr>wb_presenter := AList.update i (showing f w) (wb_presenter b)\<rparr>)"
proof -
  obtain buffer where l: "env_lend env (cpw_width w * cpw_height w * 4) = Inr (buffer, Inr ())"
    using assms(5) by (auto simp: working_lender_def)
  have "refresh (env_lend env) i (wb_presenter b) = Some (Inr (), AList.update i (showing f w) (wb_presenter b))"
    by (rule refresh_shown [where w = w and buffer = buffer]) (use assms(2,3,4,5) l in \<open>auto simp: working_lender_def presentable_def\<close>)
  then show ?thesis using assms(1) by (simp add: handle_window_event_def)
qed

section \<open>Properties\<close>


definition tiny_env :: native_env where
  "tiny_env = \<lparr>env_is_x11 = True, env_now = 0, env_decoded_us = 5, env_presented_us = 6,
     env_lend = \<lambda>n. Inr (replicate n 7, Inr ()), env_attach = Inr (), env_resize = Inr (),
     env_create = \<lambda>w. Inr \<lparr>nw_id = 40, nw_inner_width = 1, nw_inner_height = 1, nw_xid = Some 9\<rparr>,
     env_icon_ok = \<lambda>_ _ _. True, env_cursor_ok = \<lambda>_. True, env_sidecar = True\<rparr>"

definition tiny_spec :: WindowSpec where
  "tiny_spec = \<lparr>sp_window_id = 1, sp_app_id = [], sp_title = [], sp_x = 0, sp_y = 0, sp_width = 1, sp_height = 1,
     sp_owner_id = 0, sp_minimized = False, sp_maximized = False, sp_resizable = True, sp_has_frame = True,
     sp_topmost = False, sp_icon = None\<rparr>"

definition tiny_frame :: FrameData where
  "tiny_frame = \<lparr>fd_window_id = 1, fd_frame_id = 3, fd_codec = RAW_BGRA, fd_flags = 0, fd_width = 1, fd_height = 1,
     fd_captured_us = 0, fd_encoded_us = 0, fd_data = [1, 2, 3, 4]\<rparr>"

definition later_env :: native_env where
  "later_env = tiny_env\<lparr>env_create := \<lambda>_. Inl []\<rparr>"

lemma tiny_lender: "working_lender (env_lend tiny_env)"
  by (simp add: working_lender_def honest_lender_def tiny_env_def)

definition tiny_run :: "(native_env \<times> display_input) list" where
  "tiny_run = [(tiny_env, Command (CreateWindow tiny_spec)), (later_env, Command (CmdFrame tiny_frame)),
     (later_env, Native 40 EvRedrawRequested)]"

lemmas tiny_defs = tiny_run_def later_env_def tiny_env_def tiny_spec_def tiny_frame_def WinitBackend_new_def user_event_def winit_ops_def
  winit_create_def attach_def native_def nonzero_def apply_transient_for_def geometry_of_def GeometryEchoLedger_new_def

definition tiny_backend :: WinitBackend where
  "tiny_backend = the (display_run (take 1 tiny_run) WinitBackend_new)"

lemma tiny_backend_run: "display_run (take 1 tiny_run) WinitBackend_new = Some tiny_backend"
  by (simp add: tiny_backend_def tiny_defs)

lemma tiny_honest: "honest_display_run tiny_run WinitBackend_new"
proof -
  have l: "honest_env env b" if "env = later_env" for env b
    using tiny_lender that by (simp add: honest_env_def later_env_def working_lender_def)
  have "honest_env tiny_env WinitBackend_new"
    using tiny_lender by (simp add: honest_env_def working_lender_def WinitBackend_new_def)
  with l show ?thesis by (auto simp: tiny_run_def split: option.split)
qed


text \<open>
  C30: a decoded frame reaches the screen and stays there. For any frame the decoders can deliver, a window that is
  open and a windowing library that works, the frame command ends with the window showing exactly that
  picture, in its top left corner, clipped to the window and black around it, whatever the lent buffer held, and
  with one report that names the window and the frame; after the user resizes the window to any size, the next
  redraw shows the same picture at the new size.
\<close>

theorem presented_frame_stays_shown:
  assumes "winit_consistent b" and "map_of (wb_by_winit_id b) nid = Some i"
    and "presentable f" and "fd_window_id f = i"
    and "working_lender (env_lend e1)" and "env_resize e2 = Inr ()" and "working_lender (env_lend e3)"
  shows "\<exists>b1 b2 b3 w1 w3.
      user_event e1 (CmdFrame f) b = Some b1
    \<and> wb_events b1 = wb_events b @ [Presented i (fd_frame_id f) (env_decoded_us e1) (env_presented_us e1)]
    \<and> map_of (wb_presenter b1) i = Some w1
    \<and> cpw_surface w1 = clipped_picture (cpw_width w1) (cpw_height w1) (unat (fd_width f)) (unat (fd_height f)) (fd_data f)
    \<and> handle_window_event e2 nid (EvResized width height) b1 = Some b2
    \<and> handle_window_event e3 nid EvRedrawRequested b2 = Some b3
    \<and> map_of (wb_presenter b3) i = Some w3
    \<and> cpw_surface w3 = clipped_picture (max (min width 65535) 1) (max (min height 65535) 1)
        (unat (fd_width f)) (unat (fd_height f)) (fd_data f)"
proof -
  have "i \<in> dom (map_of (wb_windows b))"
    using assms(1,2) by (auto simp: winit_consistent_def)
  then have "i \<in> dom (map_of (wb_presenter b))"
    using assms(1) by (simp add: winit_consistent_def)
  then obtain w where w: "map_of (wb_presenter b) i = Some w" by blast
  let ?b1 = "wb_send (Presented i (fd_frame_id f) (env_decoded_us e1) (env_presented_us e1))
      (b\<lparr>wb_presenter := AList.update i (cache_frame f (showing f w)) (wb_presenter b)\<rparr>)"
  have b1: "user_event e1 (CmdFrame f) b = Some ?b1"
    using frame_command_shows [OF assms(1) w assms(5,3,4)] .
  have w1: "map_of (wb_presenter ?b1) i = Some (cache_frame f (showing f w))" by (simp add: map_of_update)
  obtain b2 where b2: "handle_window_event e2 nid (EvResized width height) ?b1 = Some b2"
    and p2: "wb_presenter b2 = AList.update i ((cache_frame f (showing f w))\<lparr>cpw_width := max (min width 65535) 1,
      cpw_height := max (min height 65535) 1\<rparr>) (wb_presenter ?b1)"
    and n2: "wb_by_winit_id b2 = wb_by_winit_id ?b1"
    by (rule resized_surface [OF _ w1 assms(6), of nid width height]) (use assms(2) in \<open>auto\<close>)
  have b3: "handle_window_event e3 nid EvRedrawRequested b2 = Some (b2\<lparr>wb_presenter := AList.update i
      (showing f ((cache_frame f (showing f w))\<lparr>cpw_width := max (min width 65535) 1, cpw_height := max (min height 65535) 1\<rparr>)) (wb_presenter b2)\<rparr>)"
    by (rule redraw_shows [OF _ _ _ assms(3,7)]) (use n2 p2 assms(2) in \<open>simp_all add: map_of_update cache_frame_def\<close>)
  show ?thesis
    by (rule exI [of _ ?b1], rule exI [of _ b2], rule exI, rule exI, rule exI, intro conjI, rule b1, simp add: wb_send_def, rule w1,
        simp add: cache_frame_def showing_def, rule b2, rule b3)
      (simp_all add: map_of_update, simp add: showing_def)
qed

lemma tiny_backend_consistent: "winit_consistent tiny_backend" "map_of (wb_by_winit_id tiny_backend) 40 = Some 1"
proof -
  have "honest_display_run (take 1 tiny_run) WinitBackend_new"
    using tiny_lender by (simp add: tiny_run_def honest_env_def working_lender_def WinitBackend_new_def split: option.split)
  from display_run_consistent [OF winit_new_consistent this] show "winit_consistent tiny_backend"
    using tiny_backend_run by simp
  show "map_of (wb_by_winit_id tiny_backend) 40 = Some 1"
    by (simp add: tiny_backend_def tiny_defs)
qed

theorem presented_frame_stays_shown_witness:
  "\<exists>b1 b2 b3 w3.
      user_event later_env (CmdFrame tiny_frame) tiny_backend = Some b1
    \<and> handle_window_event later_env 40 (EvResized 2 1) b1 = Some b2
    \<and> handle_window_event later_env 40 EvRedrawRequested b2 = Some b3
    \<and> map_of (wb_presenter b3) 1 = Some w3 \<and> cpw_surface w3 = [1, 2, 3, 4, 0, 0, 0, 0]"
proof -
  have f: "presentable tiny_frame" "fd_window_id tiny_frame = 1"
    by (simp_all add: presentable_def tiny_frame_def MAX_DECODED_PIXELS_def)
  have e: "working_lender (env_lend later_env)" "env_resize later_env = Inr ()"
    using tiny_lender by (simp_all add: later_env_def tiny_env_def)
  have "clipped_picture (max (min 2 65535) 1) (max (min 1 65535) 1) (unat (fd_width tiny_frame)) (unat (fd_height tiny_frame)) (fd_data tiny_frame)
      = [1, 2, 3, 4, 0, 0, 0, 0]"
    by (simp add: tiny_frame_def clipped_picture_def upt_rec Let_def)
  with presented_frame_stays_shown [OF tiny_backend_consistent f e(1,2,1), of 2 1] show ?thesis
    by metis
qed

end
