(* ===== verification/Client_Loop.thy ===== *)
theory Client_Loop
  imports Winit Pipeline Monitor Geometry Session
begin

text \<open>
  The client's session task (\<open>oxclient/src/main.rs\<close>): the loop that joins the session, the window
  model, the geometry filter, the decode workers, the latency monitor and the display thread.

  Each arm of the \<open>select!\<close> is one operation on the state of the task, and the loop is the sequence of
  arms that become ready, interleaved with steps of the decode workers. What a step does to the
  outside (events surfaced, commands for the display, messages other than pings queued, bytes written)
  is its log.
  The clock, instants, thread starts, the socket and whether the display still listens are arguments.
  The log and report lines on the terminal are left out.
\<close>

section \<open>Decode times\<close>

type_synonym DecodeTimes = "((u32 \<times> u64) \<times> u64) list"

definition DECODE_TIMES_CAPACITY :: nat where "DECODE_TIMES_CAPACITY = 64"

text \<open>The order of the keys, and \<open>keys().min()\<close>.\<close>

definition key_less :: "u32 \<times> u64 \<Rightarrow> u32 \<times> u64 \<Rightarrow> bool" where
  "key_less a b \<longleftrightarrow> fst a < fst b \<or> fst a = fst b \<and> snd a < snd b"

fun min_key :: "(u32 \<times> u64) list \<Rightarrow> (u32 \<times> u64) option" where
  "min_key [] = None"
| "min_key (k # ks) = (case min_key ks of None \<Rightarrow> Some k | Some m \<Rightarrow> Some (if key_less m k then m else k))"

definition dt_record :: "u32 \<Rightarrow> u64 \<Rightarrow> u64 \<Rightarrow> DecodeTimes \<Rightarrow> DecodeTimes" where
  "dt_record window_id frame_id decoded_us t =
    (let t1 = (if DECODE_TIMES_CAPACITY \<le> length t
               then (case min_key (map fst t) of None \<Rightarrow> t | Some oldest \<Rightarrow> AList.delete oldest t) else t)
     in AList.update (window_id, frame_id) decoded_us t1)"

definition dt_take :: "u32 \<Rightarrow> u64 \<Rightarrow> u64 \<Rightarrow> DecodeTimes \<Rightarrow> u64 \<times> DecodeTimes" where
  "dt_take window_id frame_id fallback_us t =
    (case map_of t (window_id, frame_id) of
       None \<Rightarrow> (fallback_us, t)
     | Some decoded_us \<Rightarrow> (decoded_us, AList.delete (window_id, frame_id) t))"

definition dt_forget :: "u32 \<Rightarrow> DecodeTimes \<Rightarrow> DecodeTimes" where
  "dt_forget window_id t = filter (\<lambda>((w, _), _). w \<noteq> window_id) t"

section \<open>Commands for the display\<close>

definition window_spec :: "RemoteWindow \<Rightarrow> WindowSpec" where
  "window_spec w = \<lparr>sp_window_id = rw_window_id w, sp_app_id = rw_app_id w, sp_title = rw_title w,
     sp_x = rw_x w, sp_y = rw_y w, sp_width = rw_width w, sp_height = rw_height w, sp_owner_id = rw_owner_id w,
     sp_minimized = rw_minimized w, sp_maximized = rw_maximized w, sp_resizable = rw_resizable w,
     sp_has_frame = rw_has_frame w, sp_topmost = rw_topmost w, sp_icon = rw_icon w\<rparr>"

fun display_command_for_change :: "WindowModel \<Rightarrow> ModelChange \<Rightarrow> DisplayCommand option" where
  "display_command_for_change d (Created i) = map_option (\<lambda>w. CreateWindow (window_spec w)) (md_get d i)"
| "display_command_for_change d (Destroyed i) = Some (DestroyWindow i)"
| "display_command_for_change d (Moved i) = map_option (\<lambda>w. MoveWindow (window_spec w)) (md_get d i)"
| "display_command_for_change d (Retitled i) = map_option (\<lambda>w. RetitleWindow (window_spec w)) (md_get d i)"
| "display_command_for_change d (StateChanged i) = map_option (\<lambda>w. ChangeState (window_spec w)) (md_get d i)"
| "display_command_for_change d (IconChanged i) = map_option (\<lambda>w. ChangeIcon (window_spec w)) (md_get d i)"
| "display_command_for_change d Restacked = Some (Restack (md_stack d))"
| "display_command_for_change d (ChFrame _) = None"
| "display_command_for_change d (ChCursorShape s) = Some (CmdCursorShape s)"
| "display_command_for_change d (CursorMoved i x y) = Some (CmdCursorPosition i x y)"
| "display_command_for_change d (ChCursorVisibility v) = Some (CmdCursorVisibility v)"
| "display_command_for_change d (AgentError code m) = Some (CmdAgentError code m)"
| "display_command_for_change d ChClosed = Some Shutdown"

section \<open>State\<close>

record 'b client =
  cl_session :: ClientSession
  cl_source :: source
  cl_model :: WindowModel
  cl_geometry :: GeometrySync
  cl_latency :: LatencyMonitor
  cl_decode_times :: DecodeTimes
  cl_decoders :: "'b DecodePipeline"
  cl_stalled :: "(FrameData \<times> nat \<times> u64) option"
  cl_reports :: "FrameReport list"
  cl_sending :: bool
  cl_result :: "(io_error + unit) option"

definition client_new :: "bool \<Rightarrow> ClientSession \<Rightarrow> 'b client" where
  "client_new measuring s = \<lparr>cl_session = s, cl_source = [], cl_model = WindowModel_new, cl_geometry = GeometrySync_new,
     cl_latency = with_recording measuring, cl_decode_times = [], cl_decoders = DecodePipeline_new,
     cl_stalled = None, cl_reports = [], cl_sending = False, cl_result = None\<rparr>"

datatype log_entry =
    Surfaced ClientEvent
  | Piped outcome
  | Held_lost FrameData
  | Consumed FrameReport
  | Handled DisplayEvent
  | Sent Message
  | Shown DisplayCommand
  | Wrote "u8 list"

record loop_env =
  le_now :: "nat \<Rightarrow> u64"
  le_instant :: instant
  le_display_up :: bool
  le_started :: bool

text \<open>A reading of the session's clock.\<close>

definition cl_now :: "loop_env \<Rightarrow> 'b client \<Rightarrow> u64 \<times> 'b client" where
  "cl_now env c = (case read_clock (le_now env) (cl_session c) of (t, s) \<Rightarrow> (t, c\<lparr>cl_session := s\<rparr>))"

section \<open>Sending\<close>

text \<open>
  Where a message is sent the task waits until it is written; an error shuts the display down and
  ends the task. A write that is not finished when the socket's script ends is resumed later.
\<close>

definition finished_send :: "(io_error + unit) poll \<times> ClientSession \<times> u8 list \<times> sink \<Rightarrow> 'b client \<Rightarrow> log_entry list \<times> 'b client" where
  "finished_send = (\<lambda>(r, s, bytes, _) c.
     case r of
       Pending \<Rightarrow> ([Wrote bytes], c\<lparr>cl_session := s, cl_sending := True\<rparr>)
     | Ready (Inl e) \<Rightarrow> ([Wrote bytes, Shown Shutdown], c\<lparr>cl_session := s, cl_sending := False, cl_result := Some (Inl e)\<rparr>)
     | Ready (Inr _) \<Rightarrow> ([Wrote bytes], c\<lparr>cl_session := s, cl_sending := False\<rparr>))"

definition cl_send :: "Message option \<Rightarrow> sink \<Rightarrow> 'b client \<Rightarrow> log_entry list \<times> 'b client" where
  "cl_send m snk c =
    (case m of
       None \<Rightarrow> ([], c)
     | Some msg \<Rightarrow>
         (case finished_send (send msg (cl_session c) snk) c of (l, c1) \<Rightarrow>
            ((case fst (se_queue msg (cl_session c)) of Inl _ \<Rightarrow> [] | Inr _ \<Rightarrow> [Sent msg]) @ l, c1)))"

definition frame_ack :: "ClientSession \<Rightarrow> u32 \<Rightarrow> u64 \<Rightarrow> u64 \<Rightarrow> u64 \<Rightarrow> Message option" where
  "frame_ack s window_id frame_id decoded_us presented_us =
    (if has_feature FRAME_ACK s
     then Some (FrameAck \<lparr>fa_window_id = window_id, fa_frame_id = frame_id, fa_decoded_us = decoded_us, fa_presented_us = presented_us\<rparr>)
     else None)"

section \<open>Events from the wire\<close>

definition note_change :: "loop_env \<Rightarrow> ModelChange \<Rightarrow> 'b client \<Rightarrow> 'b client" where
  "note_change env change c =
    (case change of
       Created i \<Rightarrow>
         (case md_get (cl_model c) i of
            None \<Rightarrow> c
          | Some w \<Rightarrow> c\<lparr>cl_geometry := created (le_instant env) i (rw_x w) (rw_y w) (cl_geometry c)\<rparr>)
     | Moved i \<Rightarrow>
         (case md_get (cl_model c) i of
            None \<Rightarrow> c
          | Some w \<Rightarrow> c\<lparr>cl_geometry := guest_moved (le_instant env) i (rw_x w) (rw_y w) (cl_geometry c)\<rparr>)
     | Destroyed i \<Rightarrow>
         c\<lparr>cl_decoders := dp_forget i (cl_decoders c), cl_geometry := geo_forget i (cl_geometry c),
           cl_latency := lm_forget i (cl_latency c), cl_decode_times := dt_forget i (cl_decode_times c)\<rparr>
     | _ \<Rightarrow> c)"

definition arrived_frame :: "FrameData \<Rightarrow> u64 \<Rightarrow> ArrivedFrame" where
  "arrived_frame f arrived_us = \<lparr>af_window_id = fd_window_id f, af_frame_id = fd_frame_id f, af_captured_us = fd_captured_us f,
     af_encoded_us = fd_encoded_us f, af_arrived_us = arrived_us, af_keyframe = is_keyframe f, af_bytes = length (fd_data f)\<rparr>"

text \<open>
  A frame off the wire. The clock is read once more where the worker's queue is closed (for the
  report of the drop) or full (for the start of the stall).
\<close>

definition take_in :: "loop_env \<Rightarrow> FrameData \<Rightarrow> 'b client \<Rightarrow> log_entry list \<times> 'b client" where
  "take_in env f c =
    (case cl_now env c of (arrived_us, c1) \<Rightarrow>
       (let c2 = c1\<lparr>cl_latency := on_arrival (arrived_frame f arrived_us) (cl_latency c1)\<rparr>;
            (t, c3) = cl_now env c2 in
        case submit (le_started env) t f (cl_decoders c2) of (os, p) \<Rightarrow>
          (map Piped os,
           case os of
             [Backpressure held i] \<Rightarrow> c3\<lparr>cl_decoders := p, cl_stalled := Some (held, i, t)\<rparr>
           | [Refused r] \<Rightarrow> c3\<lparr>cl_decoders := p, cl_reports := cl_reports c3 @ [r]\<rparr>
           | _ \<Rightarrow> c2\<lparr>cl_decoders := p\<rparr>)))"

definition apply_change :: "loop_env \<Rightarrow> ModelChange \<Rightarrow> 'b client \<Rightarrow> log_entry list \<times> 'b client" where
  "apply_change env change c =
    (let c1 = note_change env change c in
     case change of
       ChFrame f \<Rightarrow> take_in env f c1
     | _ \<Rightarrow>
         (case display_command_for_change (cl_model c1) change of
            None \<Rightarrow> ([], c1)
          | Some command \<Rightarrow>
              if le_display_up env then ([Shown command], c1) else ([], c1\<lparr>cl_result := Some (Inr ())\<rparr>)))"

fun apply_changes :: "loop_env \<Rightarrow> ModelChange list \<Rightarrow> 'b client \<Rightarrow> log_entry list \<times> 'b client" where
  "apply_changes env [] c = ([], c)"
| "apply_changes env (change # changes) c =
    (case apply_change env change c of (l, c1) \<Rightarrow>
       if cl_result c1 \<noteq> None then (l, c1)
       else case apply_changes env changes c1 of (l', c2) \<Rightarrow> (l @ l', c2))"

fun is_closed_event :: "ClientEvent \<Rightarrow> bool" where
  "is_closed_event (EvClosed _) = True"
| "is_closed_event _ = False"

definition on_event :: "loop_env \<Rightarrow> ClientEvent \<Rightarrow> 'b client \<Rightarrow> log_entry list \<times> 'b client" where
  "on_event env event c =
    (case apply_event event (cl_model c) of (changes, d) \<Rightarrow>
       (case apply_changes env changes (c\<lparr>cl_model := d\<rparr>) of (l, c1) \<Rightarrow>
          (l, if cl_result c1 = None \<and> is_closed_event event then c1\<lparr>cl_result := Some (Inr ())\<rparr> else c1)))"

definition wire_step :: "loop_env \<Rightarrow> source \<Rightarrow> sink \<Rightarrow> 'b client \<Rightarrow> log_entry list \<times> 'b client" where
  "wire_step env arriving snk c =
    (if cl_stalled c \<noteq> None then ([], c)
     else case next_event (le_now env) (cl_session c) (cl_source c @ arriving) snk of (r, s, bytes, src, _) \<Rightarrow>
       (let c1 = c\<lparr>cl_session := s, cl_source := src\<rparr> in
        case r of
          Pending \<Rightarrow> ([Wrote bytes], c1)
        | Ready (Inl e) \<Rightarrow> ([Wrote bytes, Shown Shutdown], c1\<lparr>cl_result := Some (Inl e)\<rparr>)
        | Ready (Inr None) \<Rightarrow> ([Wrote bytes, Shown Shutdown], c1\<lparr>cl_result := Some (Inr ())\<rparr>)
        | Ready (Inr (Some event)) \<Rightarrow>
            (case on_event env event c1 of (l, c2) \<Rightarrow> ([Wrote bytes, Surfaced event] @ l, c2))))"

section \<open>Back from the workers\<close>

text \<open>The slot of the held frame: the branch is ready when the queue has room or its worker has ended.\<close>

definition room_step :: "loop_env \<Rightarrow> 'b client \<Rightarrow> log_entry list \<times> 'b client" where
  "room_step env c =
    (case cl_stalled c of
       None \<Rightarrow> ([], c)
     | Some (frame, i, since) \<Rightarrow>
         (let w = dp_threads (cl_decoders c) ! i in
          if wk_alive w \<and> QUEUE_DEPTH \<le> length (wk_queue w) then ([], c)
          else case cl_now env c of (t, c1) \<Rightarrow>
            (let c2 = c1\<lparr>cl_stalled := None, cl_latency := on_read_stall (u64_saturating_sub t since) (cl_latency c1)\<rparr> in
             if wk_alive w then (case place i frame (cl_decoders c2) of (os, p) \<Rightarrow> (map Piped os, c2\<lparr>cl_decoders := p\<rparr>))
             else ([Held_lost frame], c2))))"

definition report_step :: "sink \<Rightarrow> 'b client \<Rightarrow> log_entry list \<times> 'b client" where
  "report_step snk c =
    (case cl_reports c of
       [] \<Rightarrow> ([], c)
     | r # rest \<Rightarrow>
         (let c1 = c\<lparr>cl_reports := rest\<rparr> in
          case r of
            Decoded window_id frame_id decoded_us \<Rightarrow>
              ([Consumed r], c1\<lparr>cl_latency := on_decoded window_id frame_id decoded_us (cl_latency c1),
                 cl_decode_times := dt_record window_id frame_id decoded_us (cl_decode_times c1)\<rparr>)
          | Dropped window_id frame_id finished_us \<Rightarrow>
              (let c2 = c1\<lparr>cl_latency := on_dropped window_id frame_id (cl_latency c1)\<rparr> in
               case cl_send (frame_ack (cl_session c2) window_id frame_id finished_us finished_us) snk c2 of
                 (l, c3) \<Rightarrow> (Consumed r # l, c3))))"

definition ping_step :: "loop_env \<Rightarrow> sink \<Rightarrow> 'b client \<Rightarrow> log_entry list \<times> 'b client" where
  "ping_step env snk c = finished_send (ping (le_now env) (cl_session c) snk) c"

definition latency_step :: "loop_env \<Rightarrow> 'b client \<Rightarrow> 'b client" where
  "latency_step env c =
    (if lm_enabled (cl_latency c) \<and> has_samples (cl_latency c) then
       (case cl_now env c of (now_us, c1) \<Rightarrow>
          (let s1 = snd (se_offset_error_bound_us (le_now env) (cl_session c1));
               s2 = snd (clock_offset_us (le_now env) s1)
           in c1\<lparr>cl_session := s2, cl_latency := close_interval now_us (cl_latency c1)\<rparr>))
     else c)"

section \<open>Events from the display\<close>

definition ACTION_CLOSE :: u8 where "ACTION_CLOSE = 1"
definition ACTION_ACTIVATE :: u8 where "ACTION_ACTIVATE = 2"
definition ACTION_MINIMIZE :: u8 where "ACTION_MINIMIZE = 3"
definition ACTION_RESTORE :: u8 where "ACTION_RESTORE = 5"
definition ACTION_MOVE :: u8 where "ACTION_MOVE = 6"
definition ACTION_RESIZE :: u8 where "ACTION_RESIZE = 7"

definition window_control :: "u32 \<Rightarrow> u8 \<Rightarrow> i32 \<Rightarrow> i32 \<Rightarrow> u16 \<Rightarrow> u16 \<Rightarrow> Message" where
  "window_control i action x y w h = WindowControl \<lparr>wc_window_id = i, wc_action = action, wc_x = x, wc_y = y, wc_width = w, wc_height = h\<rparr>"

text \<open>What an event does to the state of the task, and the message it sends if any.\<close>

definition display_event :: "loop_env \<Rightarrow> DisplayEvent \<Rightarrow> 'b client \<Rightarrow> Message option \<times> 'b client" where
  "display_event env event c =
    (let controls = has_feature WINDOW_CONTROL (cl_session c) in
     case event of
       DevPointer i x y buttons wheel_x wheel_y \<Rightarrow>
         (case cl_now env c of (t, c1) \<Rightarrow>
            (Some (PointerEvent \<lparr>pe_window_id = i, pe_x = x, pe_y = y, pe_buttons = buttons,
               pe_wheel_x = wheel_x, pe_wheel_y = wheel_y, pe_timestamp = t\<rparr>), c1))
     | DevKey code pressed ext \<Rightarrow>
         (case cl_now env c of (t, c1) \<Rightarrow>
            (Some (KeyEvent \<lparr>ke_scancode = code, ke_flags = key_flags pressed ext, ke_timestamp = t\<rparr>), c1))
     | DevText text \<Rightarrow>
         (if has_feature TEXT_INPUT (cl_session c) then Some (TextInput \<lparr>ti_text = text\<rparr>) else None, c)
     | DevModifiers mods lcks \<Rightarrow> (Some (ModifierSync \<lparr>ms_modifiers = mods, ms_locks = lcks\<rparr>), c)
     | Focused i focused \<Rightarrow>
         (if focused \<and> controls then Some (window_control i ACTION_ACTIVATE 0 0 0 0) else None, c)
     | CloseRequested i \<Rightarrow> (if controls then Some (window_control i ACTION_CLOSE 0 0 0 0) else None, c)
     | ResizeRequested i width height \<Rightarrow>
         if controls then
           (case resized (le_instant env) (cl_model c) i width height (cl_geometry c) of (target, g) \<Rightarrow>
              (map_option (\<lambda>(w, h). window_control i ACTION_RESIZE 0 0 w h) target, c\<lparr>cl_geometry := g\<rparr>))
         else (None, c)
     | MoveRequested i x y \<Rightarrow>
         if controls then
           (case moved (le_instant env) i x y (cl_geometry c) of (target, g) \<Rightarrow>
              (map_option (\<lambda>(x, y). window_control i ACTION_MOVE x y 0 0) target, c\<lparr>cl_geometry := g\<rparr>))
         else (None, c)
     | Minimized i minimized \<Rightarrow>
         (if controls then Some (window_control i (if minimized then ACTION_MINIMIZE else ACTION_RESTORE) 0 0 0 0) else None, c)
     | Presented i frame_id decoded_us presented_us \<Rightarrow>
         (case clock_offset_us (le_now env) (cl_session c) of (offset, s) \<Rightarrow>
            (let c1 = c\<lparr>cl_session := s\<rparr>;
                 c2 = (case offset of None \<Rightarrow> c1
                       | Some off \<Rightarrow> c1\<lparr>cl_latency := snd (on_presented i frame_id presented_us off (cl_latency c1))\<rparr>);
                 (decoded, dts) = dt_take i frame_id decoded_us (cl_decode_times c2) in
             (frame_ack s i frame_id decoded presented_us, c2\<lparr>cl_decode_times := dts\<rparr>)))
     | BackendError _ \<Rightarrow> (None, c))"

definition handle_display_event :: "loop_env \<Rightarrow> sink \<Rightarrow> DisplayEvent \<Rightarrow> 'b client \<Rightarrow> log_entry list \<times> 'b client" where
  "handle_display_event env snk event c =
    (case display_event env event c of (m, c1) \<Rightarrow>
       (case cl_send m snk c1 of (l, c2) \<Rightarrow> (Handled event # l, c2)))"

section \<open>The loop\<close>

text \<open>A worker that has finished a frame reports it and hands the picture to the display.\<close>

fun reports_of :: "outcome list \<Rightarrow> FrameReport list" where
  "reports_of [] = []"
| "reports_of (Report _ r # os) = r # reports_of os"
| "reports_of (Refused r # os) = r # reports_of os"
| "reports_of (_ # os) = reports_of os"

fun delivered_frames :: "outcome list \<Rightarrow> FrameData list" where
  "delivered_frames [] = []"
| "delivered_frames (Delivered _ g # os) = g # delivered_frames os"
| "delivered_frames (_ # os) = delivered_frames os"

definition finish_step :: "('b \<Rightarrow> u8) \<Rightarrow> ('b \<Rightarrow> FrameData \<Rightarrow> ((DecodeError + FrameData option) \<times> 'b) option) \<Rightarrow> nat \<Rightarrow> 'b env \<Rightarrow>
    'b client \<Rightarrow> log_entry list \<times> 'b client" where
  "finish_step codec dec i en c =
    (case finish codec dec i en (cl_decoders c) of (os, p) \<Rightarrow>
       (map Piped os @ (if en_delivers en then map (\<lambda>g. Shown (CmdFrame g)) (delivered_frames os) else []),
        c\<lparr>cl_decoders := p, cl_reports := cl_reports c @ reports_of os\<rparr>))"

datatype 'b loop_input =
    Wire source sink
  | Room
  | Report_ready sink
  | Ping_tick sink
  | Latency_tick
  | Display_ready sink DisplayEvent
  | Resume sink
  | Worker_takes nat
  | Worker_finishes nat "'b env"
  | Display_gone

fun loop_step :: "('b \<Rightarrow> u8) \<Rightarrow> ('b \<Rightarrow> FrameData \<Rightarrow> ((DecodeError + FrameData option) \<times> 'b) option) \<Rightarrow> loop_env \<Rightarrow> 'b loop_input \<Rightarrow>
    'b client \<Rightarrow> log_entry list \<times> 'b client" where
  "loop_step codec dec env (Worker_takes i) c = ([], c\<lparr>cl_decoders := take_frame i (cl_decoders c)\<rparr>)"
| "loop_step codec dec env (Worker_finishes i en) c = finish_step codec dec i en c"
| "loop_step codec dec env (Resume snk) c =
    (if cl_sending c then finished_send (flush_pending (cl_session c) snk) c else ([], c))"
| "loop_step codec dec env (Wire arriving snk) c = (if cl_sending c then ([], c) else wire_step env arriving snk c)"
| "loop_step codec dec env Room c = (if cl_sending c then ([], c) else room_step env c)"
| "loop_step codec dec env (Report_ready snk) c = (if cl_sending c then ([], c) else report_step snk c)"
| "loop_step codec dec env (Ping_tick snk) c = (if cl_sending c then ([], c) else ping_step env snk c)"
| "loop_step codec dec env Latency_tick c = (if cl_sending c then ([], c) else ([], latency_step env c))"
| "loop_step codec dec env (Display_ready snk event) c =
    (if cl_sending c then ([], c) else handle_display_event env snk event c)"
| "loop_step codec dec env Display_gone c = (if cl_sending c then ([], c) else ([], c\<lparr>cl_result := Some (Inr ())\<rparr>))"

fun run_session_loop :: "('b \<Rightarrow> u8) \<Rightarrow> ('b \<Rightarrow> FrameData \<Rightarrow> ((DecodeError + FrameData option) \<times> 'b) option) \<Rightarrow>
    (loop_env \<times> 'b loop_input) list \<Rightarrow> 'b client \<Rightarrow> log_entry list \<times> 'b client" where
  "run_session_loop codec dec [] c = ([], c)"
| "run_session_loop codec dec ((env, i) # is) c =
    (if cl_result c \<noteq> None then ([], c)
     else case loop_step codec dec env i c of (l, c1) \<Rightarrow>
       (case run_session_loop codec dec is c1 of (l', c2) \<Rightarrow> (l @ l', c2)))"

text \<open>The task: the loop from a connected session, and a last report of the latencies however it ended.\<close>

definition run_session_task :: "('b \<Rightarrow> u8) \<Rightarrow> ('b \<Rightarrow> FrameData \<Rightarrow> ((DecodeError + FrameData option) \<times> 'b) option) \<Rightarrow>
    bool \<Rightarrow> loop_env \<Rightarrow> (loop_env \<times> 'b loop_input) list \<Rightarrow> ClientSession \<Rightarrow> log_entry list \<times> 'b client" where
  "run_session_task codec dec measuring env is s =
    (case run_session_loop codec dec is (client_new measuring s) of (l, c) \<Rightarrow> (l, latency_step env c))"

end
