(* ===== verification/Client_Display.thy ===== *)
theory Client_Display
  imports Client_Loop
begin

text \<open>
  What the client's session task tells the display (\<open>oxclient/src/main.rs\<close>), against an abstract display
  that knows nothing but the commands it was sent, and against the native backend of \<open>Winit\<close>.
\<close>

section \<open>The display shows the model\<close>

record display_view =
  dv_windows :: "u32 \<rightharpoonup> WindowSpec"
  dv_stack :: "u32 list"
  dv_cursor :: bool

text \<open>
  A display that knows nothing but the commands it is sent: of a window's description it takes over
  what the command is about.
\<close>

definition adjust :: "u32 \<Rightarrow> (WindowSpec \<Rightarrow> WindowSpec) \<Rightarrow> display_view \<Rightarrow> display_view" where
  "adjust i f v = v\<lparr>dv_windows := (dv_windows v)(i := map_option f (dv_windows v i))\<rparr>"

fun follow :: "DisplayCommand \<Rightarrow> display_view \<Rightarrow> display_view" where
  "follow (CreateWindow w) v =
     v\<lparr>dv_windows := (dv_windows v)(sp_window_id w \<mapsto> w), dv_stack := dv_stack v @ [sp_window_id w]\<rparr>"
| "follow (DestroyWindow i) v =
     v\<lparr>dv_windows := (dv_windows v)(i := None), dv_stack := filter (\<lambda>s. s \<noteq> i) (dv_stack v)\<rparr>"
| "follow (MoveWindow w) v = adjust (sp_window_id w)
     (\<lambda>o'. o'\<lparr>sp_x := sp_x w, sp_y := sp_y w, sp_width := sp_width w, sp_height := sp_height w\<rparr>) v"
| "follow (RetitleWindow w) v = adjust (sp_window_id w) (\<lambda>o'. o'\<lparr>sp_title := sp_title w\<rparr>) v"
| "follow (ChangeState w) v = adjust (sp_window_id w)
     (\<lambda>o'. o'\<lparr>sp_minimized := sp_minimized w, sp_maximized := sp_maximized w\<rparr>) v"
| "follow (ChangeIcon w) v = adjust (sp_window_id w) (\<lambda>o'. o'\<lparr>sp_icon := sp_icon w\<rparr>) v"
| "follow (Restack stack) v = v\<lparr>dv_stack := stack\<rparr>"
| "follow (CmdCursorVisibility b) v = v\<lparr>dv_cursor := b\<rparr>"
| "follow _ v = v"

definition view_new :: display_view where
  "view_new = \<lparr>dv_windows = Map.empty, dv_stack = [], dv_cursor = True\<rparr>"

definition model_view :: "WindowModel \<Rightarrow> display_view" where
  "model_view d = \<lparr>dv_windows = (\<lambda>i. map_option window_spec (md_get d i)), dv_stack = md_stack d, dv_cursor = md_cursor_visible d\<rparr>"

fun commands :: "log_entry list \<Rightarrow> DisplayCommand list" where
  "commands [] = []"
| "commands (Shown c # l) = c # commands l"
| "commands (_ # l) = commands l"

lemma commands_append [simp]: "commands (l @ l') = commands l @ commands l'"
  by (induction l rule: commands.induct) auto

lemma commands_Piped [simp]: "commands (map Piped os) = []"
  by (induction os) auto

definition shown :: "log_entry list \<Rightarrow> display_view \<Rightarrow> display_view" where
  "shown l v = fold follow (commands l) v"

lemma shown_append: "shown (l @ l') v = shown l' (shown l v)"
  by (simp add: shown_def)

text \<open>The commands of an event's changes turn the view of the model before it into the one after it.\<close>

definition commands_for :: "WindowModel \<Rightarrow> ModelChange list \<Rightarrow> DisplayCommand list" where
  "commands_for d changes = List.map_filter (display_command_for_change d) changes"

lemma apply_follow:
  assumes "md_inv d"
  shows "fold follow (commands_for (snd (apply_event e d)) (fst (apply_event e d))) (model_view d) = model_view (snd (apply_event e d))"
proof -
  have id: "rw_window_id w = i" if "map_of (md_windows d) i = Some w" for i w
    using assms that by (auto simp: md_inv_def)
  show ?thesis
    by (cases e)
      (auto simp: handler_defs model_view_def md_get_def Let_def AList.update_conv' AList.delete_conv' fun_eq_iff
        commands_for_def map_filter_simps adjust_def window_spec_def id from_opened_def split: option.splits)
qed


text \<open>Steps that leave the model alone send the display nothing but frames and the end.\<close>

definition neutral :: "log_entry list \<Rightarrow> bool" where
  "neutral l \<longleftrightarrow> (\<forall>c \<in> set (commands l). c = Shutdown \<or> (\<exists>g. c = CmdFrame g))"

lemma neutral_simps [simp]:
  "neutral []" "neutral (map Piped os)" "neutral (l @ l') \<longleftrightarrow> neutral l \<and> neutral l'"
  "neutral (Wrote b # l) = neutral l" "neutral (Consumed r # l) = neutral l" "neutral (Handled e # l) = neutral l"
  "neutral (Sent m # l) = neutral l" "neutral (Held_lost f # l) = neutral l" "neutral (Shown Shutdown # l) = neutral l"
  "neutral (map (\<lambda>g. Shown (CmdFrame g)) gs)"
  by (auto simp: neutral_def) (induction gs; auto)+

lemma neutral_shown: "neutral l \<Longrightarrow> shown l v = v"
proof -
  have "\<forall>c \<in> set cs. c = Shutdown \<or> (\<exists>g. c = CmdFrame g) \<Longrightarrow> fold follow cs v = v" for cs
    by (induction cs) auto
  then show "neutral l \<Longrightarrow> shown l v = v" by (simp add: neutral_def shown_def)
qed

definition quiet :: "'b client \<Rightarrow> log_entry list \<times> 'b client \<Rightarrow> bool" where
  "quiet c lc \<longleftrightarrow> neutral (fst lc) \<and> cl_model (snd lc) = cl_model c"

lemma quiet_finished_send: "cl_model c1 = cl_model c \<Longrightarrow> quiet c (finished_send x c1)"
  by (auto simp: quiet_def finished_send_def split: prod.split poll.split sum.split)

lemma quiet_cl_send: "cl_model c1 = cl_model c \<Longrightarrow> quiet c (cl_send m snk c1)"
proof (cases m)
  case (Some msg)
  assume c1: "cl_model c1 = cl_model c"
  obtain l c2 where f: "finished_send (send msg (cl_session c1) snk) c1 = (l, c2)" by fastforce
  from quiet_finished_send [OF c1, of "send msg (cl_session c1) snk"] f show ?thesis
    by (auto simp: quiet_def cl_send_def Some split: sum.split)
qed (simp add: quiet_def cl_send_def)

lemma cl_now_model [simp]: "cl_model (snd (cl_now env c)) = cl_model c" "cl_result (snd (cl_now env c)) = cl_result c"
  "cl_decoders (snd (cl_now env c)) = cl_decoders c" "cl_stalled (snd (cl_now env c)) = cl_stalled c"
  "cl_reports (snd (cl_now env c)) = cl_reports c"
  by (simp_all add: cl_now_def read_clock_def)

lemma display_event_model: "cl_model (snd (display_event env e c)) = cl_model c"
  by (cases e) (auto simp: display_event_def cl_now_def read_clock_def Let_def split: prod.split option.split)


lemma quiet_display_event: "quiet c (handle_display_event env snk e c)"
proof -
  obtain m c1 where d: "display_event env e c = (m, c1)" by fastforce
  have "cl_model c1 = cl_model c" using display_event_model [of env e c] d by simp
  from quiet_cl_send [OF this, of m snk] d show ?thesis
    by (auto simp: quiet_def handle_display_event_def split: prod.split)
qed

lemma quiet_report: "quiet c (report_step snk c)"
proof (cases "cl_reports c")
  case (Cons r rest)
  show ?thesis
  proof (cases r)
    case (Dropped w f t)
    let ?c2 = "c\<lparr>cl_reports := rest, cl_latency := on_dropped w f (cl_latency c)\<rparr>"
    have "quiet c (cl_send (frame_ack (cl_session ?c2) w f t t) snk ?c2)" by (rule quiet_cl_send) simp
    with Cons Dropped show ?thesis by (auto simp: quiet_def report_step_def split: prod.split)
  qed (simp add: Cons quiet_def report_step_def)
qed (simp add: quiet_def report_step_def)

lemma quiet_room: "quiet c (room_step env c)"
  by (auto simp: quiet_def room_step_def cl_now_def read_clock_def Let_def split: option.split prod.split)

lemma quiet_finish: "quiet c (finish_step codec dec i en c)"
  by (auto simp: quiet_def finish_step_def split: prod.split)

lemma quiet_latency: "cl_model (latency_step env c) = cl_model c"
  by (auto simp: latency_step_def cl_now_def read_clock_def Let_def split: prod.split)

lemma take_in_quiet: "commands (fst (take_in env f c)) = []" "cl_model (snd (take_in env f c)) = cl_model c"
  "cl_result (snd (take_in env f c)) = cl_result c"
  by (auto simp: take_in_def cl_now_def read_clock_def Let_def split: prod.split list.split outcome.split)

lemma note_change_model [simp]: "cl_model (note_change env ch c) = cl_model c" "cl_result (note_change env ch c) = cl_result c"
  by (auto simp: note_change_def split: ModelChange.split option.split)

lemma apply_change_commands:
  assumes "apply_change env ch c = (l, c')" and "cl_result c = None"
  shows "cl_model c' = cl_model c \<and> (cl_result c' = None \<longrightarrow> commands l = commands_for (cl_model c) [ch])"
  using assms take_in_quiet [of env "case ch of ChFrame f \<Rightarrow> f" "note_change env ch c"]
  by (cases ch) (auto simp: apply_change_def Let_def commands_for_def map_filter_simps split: option.splits if_splits)

lemma apply_changes_commands:
  "apply_changes env chs c = (l, c') \<Longrightarrow> cl_result c = None \<Longrightarrow>
     cl_model c' = cl_model c \<and> (cl_result c' = None \<longrightarrow> commands l = commands_for (cl_model c) chs)"
proof (induction chs arbitrary: c l)
  case (Cons ch chs)
  obtain l1 c1 where a: "apply_change env ch c = (l1, c1)" by fastforce
  note one = apply_change_commands [OF a Cons.prems(2)]
  show ?case
  proof (cases "cl_result c1 = None")
    case True
    obtain l2 c2 where b: "apply_changes env chs c1 = (l2, c2)" by fastforce
    have "c' = c2" "l = l1 @ l2" using Cons.prems(1) a b True by simp_all
    with Cons.IH [of c1 l2] b one True show ?thesis by (auto simp: commands_for_def map_filter_def)
  next
    case False
    then show ?thesis using Cons.prems(1) a one by auto
  qed
qed (simp add: commands_for_def map_filter_simps)

lemma on_event_shown:
  assumes "on_event env e c = (l, c')" and "cl_result c = None" and "cl_result c' = None" and "md_inv (cl_model c)"
  shows "shown l (model_view (cl_model c)) = model_view (cl_model c') \<and> md_inv (cl_model c')"
proof -
  obtain chs d where a: "apply_event e (cl_model c) = (chs, d)" by fastforce
  obtain l1 c1 where b: "apply_changes env chs (c\<lparr>cl_model := d\<rparr>) = (l1, c1)" by fastforce
  have "cl_result c1 = None" "l = l1" "cl_model c' = cl_model c1"
    using assms(1,3) a b by (auto simp: on_event_def split: if_splits)
  with apply_changes_commands [OF b] assms(2) have "cl_model c' = d" "commands l = commands_for d chs" by simp_all
  with apply_follow [OF assms(4), of e] md_inv_apply [OF assms(4), of e] a show ?thesis by (simp add: shown_def)
qed

lemma wire_shown:
  assumes "wire_step env arriving snk c = (l, c')" and "cl_result c = None" and "cl_result c' = None" and "md_inv (cl_model c)"
  shows "shown l (model_view (cl_model c)) = model_view (cl_model c') \<and> md_inv (cl_model c')"
proof (cases "cl_stalled c")
  case None
  obtain r s bytes src snk' where n: "next_event (le_now env) (cl_session c) (cl_source c @ arriving) snk = (r, s, bytes, src, snk')"
    by (metis prod_cases5)
  let ?c1 = "c\<lparr>cl_session := s, cl_source := src\<rparr>"
  show ?thesis
  proof (cases "\<exists>event. r = Ready (Inr (Some event))")
    case True
    then obtain event where r: "r = Ready (Inr (Some event))" by blast
    obtain l1 c2 where o: "on_event env event ?c1 = (l1, c2)" by fastforce
    have "l = [Wrote bytes, Surfaced event] @ l1" "c' = c2"
      using assms(1) None n r o by (simp_all add: wire_step_def Let_def)
    with on_event_shown [OF o] assms(2,3,4) show ?thesis by (simp add: shown_def)
  next
    case False
    then show ?thesis
      using assms None n by (auto simp: wire_step_def Let_def shown_def split: poll.splits sum.splits option.splits)
  qed
qed (use assms in \<open>auto simp: wire_step_def shown_def\<close>)

lemma quiet_shown:
  "quiet c lc \<Longrightarrow> lc = (l, c') \<Longrightarrow> md_inv (cl_model c) \<Longrightarrow>
     shown l (model_view (cl_model c)) = model_view (cl_model c') \<and> md_inv (cl_model c')"
  by (simp add: quiet_def neutral_shown)

lemma loop_step_shown:
  assumes "loop_step codec dec env i c = (l, c')" and "cl_result c = None" and "cl_result c' = None" and "md_inv (cl_model c)"
  shows "shown l (model_view (cl_model c)) = model_view (cl_model c') \<and> md_inv (cl_model c')"
proof (cases "cl_sending c \<or> (\<forall>arriving snk. i \<noteq> Wire arriving snk)")
  case True
  have "quiet c (loop_step codec dec env i c)"
    using True quiet_finished_send [of c c] quiet_room [of c env] quiet_report [of c] quiet_display_event [of c env]
      quiet_finish [of c codec dec] quiet_latency [of env c]
    by (cases i) (auto simp: ping_step_def quiet_def)
  from quiet_shown [OF this assms(1,4)] show ?thesis .
next
  case False
  then show ?thesis using wire_shown [OF _ assms(2,3,4)] assms(1) by auto
qed

lemma loop_shown:
  "run_session_loop codec dec is c = (l, c') \<Longrightarrow> cl_result c = None \<Longrightarrow> cl_result c' = None \<Longrightarrow> md_inv (cl_model c) \<Longrightarrow>
     shown l (model_view (cl_model c)) = model_view (cl_model c') \<and> md_inv (cl_model c')"
proof (induction "is" arbitrary: c l)
  case (Cons ei "is")
  obtain env i where ei: "ei = (env, i)" by (cases ei)
  obtain l1 c1 where s: "loop_step codec dec env i c = (l1, c1)" by fastforce
  obtain l2 c2 where r: "run_session_loop codec dec is c1 = (l2, c2)" by fastforce
  have l: "l = l1 @ l2" "c' = c2" using Cons.prems(1,2) ei s r by simp_all
  have "cl_result c1 = None"
  proof (rule ccontr)
    assume "cl_result c1 \<noteq> None"
    then have "c2 = c1" using r by (cases "is") (auto split: prod.splits if_splits)
    then show False using l Cons.prems(3) \<open>cl_result c1 \<noteq> None\<close> by simp
  qed
  with loop_step_shown [OF s Cons.prems(2) _ Cons.prems(4)] Cons.IH [of c1 l2] r l Cons.prems(3)
  show ?case by (simp add: shown_append)
qed (simp add: shown_def)


lemma follow_open: "dom (dv_windows (follow c v)) = open_after c (dom (dv_windows v))"
  by (cases c) (auto simp: adjust_def split: if_splits)

lemma follow_open_run:
  "open_after_run cs (replicate (length cs) (Inr ())) (dom (dv_windows v)) = dom (dv_windows (fold follow cs v))"
  by (induction cs arbitrary: v) (simp_all flip: follow_open)

text \<open>
  C32: the native windows follow the guest. Whatever arrives on the wire, in whatever order input, decoded
  frames, reports and ticks become ready in between, and however writes are split: as long as the session
  task runs, a display that acts on nothing but the commands it was sent, taking over only the aspect each
  command names, shows exactly the windows of the client's model with their current descriptions, stacking
  order and cursor visibility; and the native backend, once it has executed these commands without an error,
  has exactly the model's windows open.
\<close>

theorem display_mirrors_model:
  assumes "run_session_loop codec dec is (client_new measuring s) = (l, c)" and "cl_result c = None"
  shows "fold follow (commands l) view_new = model_view (cl_model c)
    \<and> (\<forall>envs b. length envs = length (commands l)
         \<and> envs_ok winit_ops honest_env (zip envs (commands l)) WinitBackend_new
         \<and> run_commands winit_ops (zip envs (commands l)) WinitBackend_new = Some (replicate (length envs) (Inr ()), b)
         \<longrightarrow> winit_open b = dom (md_get (cl_model c)))"
proof -
  have new: "model_view WindowModel_new = view_new"
    by (simp add: model_view_def view_new_def WindowModel_new_def md_get_def)
  have view: "fold follow (commands l) view_new = model_view (cl_model c)"
    using loop_shown [OF assms(1)] assms(2) md_inv_new by (simp add: client_new_def new shown_def)
  have "winit_open b = dom (md_get (cl_model c))"
    if n: "length envs = length (commands l)" and ok: "envs_ok winit_ops honest_env (zip envs (commands l)) WinitBackend_new"
      and run: "run_commands winit_ops (zip envs (commands l)) WinitBackend_new = Some (replicate (length envs) (Inr ()), b)"
    for envs :: "native_env list" and b
  proof -
    have "winit_open WinitBackend_new = dom (dv_windows view_new)"
      by (simp add: winit_open_def WinitBackend_new_def view_new_def)
    moreover have "winit_open b = open_after_run (map snd (zip envs (commands l))) (replicate (length envs) (Inr ())) (winit_open WinitBackend_new)"
      using winit.run_defined [OF winit_new_consistent ok] run by auto
    ultimately have "winit_open b = dom (dv_windows (model_view (cl_model c)))"
      using n view by (simp add: follow_open_run)
    then show ?thesis by (simp add: model_view_def dom_def)
  qed
  with view show ?thesis by blast
qed


text \<open>A fresh session that a message reaches surfaces it.\<close>

lemma first_event:
  assumes "deliverable m" and "event_of (Some m) = Some ev" and "reply_to (Some m) = []"
  obtains s' out src' snk' where
    "next_event now (session_of Reassembler_new sh) [Segment (concat (map chunk_wire (wire_chunks [(m, vch)])))] (replicate 4 (Accepts 1))
       = (Ready (Inr (Some ev)), s', out, src', snk')"
proof -
  let ?s0 = "session_of Reassembler_new sh" and ?bs = "concat (map chunk_wire (wire_chunks [(m, vch)]))"
  have p: "parse_all Reassembler_new ?bs = (raws_of [(m, vch)], Short Reassembler_new [])"
    using assms(1) by (intro parse_wire) auto
  have bs: "?bs \<noteq> []"
  proof
    assume "?bs = []"
    with p show False by (simp add: parse_all.simps [of Reassembler_new] parse_next.simps CHUNK_HEADER_LEN_def split: prod.splits)
  qed
  have "awaits ?s0 [] ?bs (raws_of [(m, vch)]) Reassembler_new []" and u: "unsent (se_writer ?s0) = []"
    using awaits_new [of ?s0 Reassembler_new ?bs] p by (simp_all add: session_of_def)
  then have aw: "awaits ?s0 [Segment ?bs] [] (raws_of [(m, vch)]) Reassembler_new []"
    using awaits_more [of ?s0 "[]" "[Segment ?bs]" "[]" "raws_of [(m, vch)]" Reassembler_new "[]"] bs by (simp add: live_def)
  have dec: "list_all readable (raws_of [(m, vch)])" "events (raws_of [(m, vch)]) = [ev]" "replies (raws_of [(m, vch)]) = []"
    using raws_decode [of "[(m, vch)]"] assms by (simp_all add: sent_events_def sent_replies_def map_filter_simps)
  obtain res s' out src' snk' where n: "next_event now ?s0 [Segment ?bs] (replicate 4 (Accepts 1)) = (res, s', out, src', snk')"
    by (metis prod_cases5)
  have "res = Ready (Inr (Some ev))"
  proof -
    have "accepting (replicate 4 (Accepts 1))" by (simp add: accepting_def list_all_iff)
    from next_event_progress [OF aw dec(1) this _ n] dec(2,3) u show ?thesis by simp
  qed
  with n that show thesis by blast
qed


definition calm_env :: loop_env where
  "calm_env = \<lparr>le_now = \<lambda>n. word_of_nat n, le_instant = 0, le_display_up = True, le_started = False\<rparr>"

definition sample_hello :: ServerHello where
  "sample_hello = \<lparr>sh_version = 1, sh_features = FRAME_ACK, sh_session_id = 7, sh_codec = 1\<rparr>"

definition arriving_message :: "Message \<Rightarrow> u16 \<Rightarrow> 'b loop_input" where
  "arriving_message m vch = Wire [Segment (concat (map chunk_wire (wire_chunks [(m, vch)])))] (replicate 4 (Accepts 1))"

text \<open>The announcement of a window arrives.\<close>

theorem display_mirrors_model_witness:
  "\<exists>l (c :: unit client). run_session_loop (\<lambda>_. 1) (\<lambda>_ _. None) [(calm_env, arriving_message (WindowOpened (sample_opened 5)) 0)]
       (client_new False (session_of Reassembler_new sample_hello)) = (l, c)
     \<and> dom (md_get (cl_model c)) = {5} \<and> fold follow (commands l) view_new = model_view (cl_model c)"
proof -
  let ?m = "WindowOpened (sample_opened 5)" and ?s0 = "session_of Reassembler_new sample_hello"
  have d: "deliverable ?m"
    by (simp add: deliverable_def sample_opened_def valid_WindowOpened_def img_WindowOpened_def string_ok_def codec_size string_size_def
        max_message_len_def)
  obtain s' out src' snk' where n: "next_event (le_now calm_env) ?s0 [Segment (concat (map chunk_wire (wire_chunks [(?m, 0)])))]
      (replicate 4 (Accepts 1)) = (Ready (Inr (Some (EvWindowOpened (sample_opened 5)))), s', out, src', snk')"
    by (rule first_event [OF d]) simp_all
  obtain l and c :: "unit client" where r: "run_session_loop (\<lambda>_. 1) (\<lambda>_ _. None) [(calm_env, arriving_message ?m 0)] (client_new False ?s0) = (l, c)"
    by fastforce
  have c: "cl_result c = None" "dom (md_get (cl_model c)) = {5}"
    using r n
    by (auto simp: arriving_message_def client_new_def wire_step_def Let_def on_event_def on_opened_def WindowModel_new_def
        apply_change_def note_change_def md_get_def sample_opened_def calm_env_def split: if_splits)
  from display_mirrors_model [OF r c(1)] r c(2) show ?thesis by blast
qed

end
