(* ===== verification/Client_Accounts.thy ===== *)
theory Client_Accounts
  imports Client_Display
begin

text \<open>
  The account of the frames in the client's session task (\<open>oxclient/src/main.rs\<close>): what arrived, what the
  decode workers took and reported, what was acknowledged. Each step of the loop is shown to keep the
  account, so every run does.
\<close>

section \<open>The account of the frames\<close>

abbreviation frame_key :: "FrameData \<Rightarrow> u32 \<times> u64" where
  "frame_key f \<equiv> (fd_window_id f, fd_frame_id f)"

abbreviation report_key :: "FrameReport \<Rightarrow> u32 \<times> u64" where
  "report_key r \<equiv> (report_window_id r, report_frame_id r)"

text \<open>Projections of the log.\<close>

fun arrived_in :: "log_entry \<Rightarrow> (u32 \<times> u64) list" where
  "arrived_in (Surfaced (EvFrame f)) = [frame_key f]"
| "arrived_in _ = []"

fun handed_in :: "log_entry \<Rightarrow> (u32 \<times> u64) list" where
  "handed_in (Piped (Accepted _ f)) = [frame_key f]"
| "handed_in (Piped (Refused r)) = [report_key r]"
| "handed_in (Held_lost f) = [frame_key f]"
| "handed_in _ = []"

fun piped_in :: "log_entry \<Rightarrow> outcome list" where
  "piped_in (Piped x) = [x]"
| "piped_in _ = []"

fun consumed_in :: "log_entry \<Rightarrow> FrameReport list" where
  "consumed_in (Consumed r) = [r]"
| "consumed_in _ = []"

fun owed_in :: "log_entry \<Rightarrow> (u32 \<times> u64) list" where
  "owed_in (Consumed (Dropped w f _)) = [(w, f)]"
| "owed_in (Handled (Presented w f _ _)) = [(w, f)]"
| "owed_in _ = []"

fun acked_in :: "log_entry \<Rightarrow> (u32 \<times> u64) list" where
  "acked_in (Sent (FrameAck a)) = [(fa_window_id a, fa_frame_id a)]"
| "acked_in _ = []"

definition of_log :: "(log_entry \<Rightarrow> 'a list) \<Rightarrow> log_entry list \<Rightarrow> 'a list" where
  "of_log p l = concat (map p l)"

lemma of_log_simps [simp]: "of_log p [] = []" "of_log p (e # l) = p e @ of_log p l" "of_log p (l @ l') = of_log p l @ of_log p l'"
  by (simp_all add: of_log_def)

lemma of_log_piped [simp]: "of_log piped_in (map Piped os) = os" "of_log arrived_in (map Piped os) = []"
  "of_log consumed_in (map Piped os) = []" "of_log owed_in (map Piped os) = []" "of_log acked_in (map Piped os) = []"
  by (induction os) auto

lemma of_log_frames [simp]:
  "of_log piped_in (map (\<lambda>g. Shown (CmdFrame g)) gs) = []" "of_log arrived_in (map (\<lambda>g. Shown (CmdFrame g)) gs) = []"
  "of_log handed_in (map (\<lambda>g. Shown (CmdFrame g)) gs) = []" "of_log consumed_in (map (\<lambda>g. Shown (CmdFrame g)) gs) = []"
  "of_log owed_in (map (\<lambda>g. Shown (CmdFrame g)) gs) = []" "of_log acked_in (map (\<lambda>g. Shown (CmdFrame g)) gs) = []"
  by (induction gs) auto

lemma reports_of_append [simp]: "reports_of (a @ b) = reports_of a @ reports_of b"
  by (induction a rule: reports_of.induct) auto

definition held :: "'b client \<Rightarrow> (u32 \<times> u64) list" where
  "held c = (case cl_stalled c of None \<Rightarrow> [] | Some (f, _, _) \<Rightarrow> [frame_key f])"

definition balanced :: "log_entry list \<Rightarrow> 'b client \<Rightarrow> bool" where
  "balanced l c \<longleftrightarrow>
     of_log arrived_in l = of_log handed_in l @ held c
   \<and> reports_of (of_log piped_in l) = of_log consumed_in l @ cl_reports c
   \<and> accounted (of_log piped_in l) (cl_decoders c)
   \<and> (\<forall>f i t. cl_stalled c = Some (f, i, t) \<longrightarrow> i < length (dp_threads (cl_decoders c)))
   \<and> (has_feature FRAME_ACK (cl_session c) \<longrightarrow> of_log acked_in l = of_log owed_in l)"

text \<open>
  A step with log \<open>l\<close> keeps the account: what it takes over and what it leaves behind.
\<close>

definition keeps_account :: "'b client \<Rightarrow> log_entry list \<times> 'b client \<Rightarrow> bool" where
  "keeps_account c lc \<longleftrightarrow> (case lc of (l, c') \<Rightarrow>
     held c @ of_log arrived_in l = of_log handed_in l @ held c'
   \<and> cl_reports c @ reports_of (of_log piped_in l) = of_log consumed_in l @ cl_reports c'
   \<and> (\<forall>os. accounted os (cl_decoders c) \<longrightarrow> accounted (os @ of_log piped_in l) (cl_decoders c'))
   \<and> (\<forall>os f i t. cl_stalled c' = Some (f, i, t) \<and> accounted os (cl_decoders c) \<longrightarrow> cl_stalled c = Some (f, i, t) \<or> i < length (dp_threads (cl_decoders c')))
   \<and> length (dp_threads (cl_decoders c)) \<le> length (dp_threads (cl_decoders c'))
   \<and> se_features (cl_session c') = se_features (cl_session c)
   \<and> (has_feature FRAME_ACK (cl_session c) \<longrightarrow> of_log acked_in l = of_log owed_in l))"

lemma balanced_step:
  assumes "balanced l c" and "keeps_account c (l', c')"
  shows "balanced (l @ l') c'"
proof -
  have "i < length (dp_threads (cl_decoders c'))" if "cl_stalled c' = Some (f, i, t)" for f i t
    using assms that unfolding balanced_def keeps_account_def by (fastforce dest: less_le_trans)
  moreover have "of_log arrived_in (l @ l') = of_log handed_in (l @ l') @ held c'"
  proof -
    have "of_log arrived_in (l @ l') = of_log handed_in l @ held c @ of_log arrived_in l'"
      using assms(1) by (simp add: balanced_def)
    also have "\<dots> = of_log handed_in (l @ l') @ held c'"
      using assms(2) by (simp add: keeps_account_def)
    finally show ?thesis .
  qed
  moreover have "reports_of (of_log piped_in (l @ l')) = of_log consumed_in (l @ l') @ cl_reports c'"
  proof -
    have "reports_of (of_log piped_in (l @ l')) = of_log consumed_in l @ cl_reports c @ reports_of (of_log piped_in l')"
      using assms(1) by (simp add: balanced_def)
    also have "\<dots> = of_log consumed_in (l @ l') @ cl_reports c'"
      using assms(2) by (simp add: keeps_account_def)
    finally show ?thesis .
  qed
  ultimately show ?thesis
    using assms by (simp add: balanced_def keeps_account_def has_feature_def)
qed


subsection \<open>The negotiated features stay\<close>

lemma with_writer_features [simp]: "se_features (with_writer s w) = se_features s"
  by (simp add: with_writer_def)

lemma flush_features: "flush_pending s snk = (r, s', out, snk') \<Longrightarrow> se_features s' = se_features s"
  by (auto simp: flush_pending_is_flush split: prod.splits)

lemma queue_features: "se_queue m s = (r, s') \<Longrightarrow> se_features s' = se_features s"
  by (auto simp: se_queue_def split: sum.splits)

lemma send_features: "send m s snk = (r, s', out, snk') \<Longrightarrow> se_features s' = se_features s"
  by (auto simp: send_def split: prod.splits sum.splits dest!: flush_features queue_features)

lemma handle_features: "handle now m s = (r, s') \<Longrightarrow> se_features s' = se_features s"
  by (cases "(now, m, s)" rule: handle.cases)
    (auto simp: record_pong_def read_clock_def Let_def split: sum.splits option.splits prod.splits dest: queue_features)

lemma next_event_features: "next_event now s src snk = (r, s', out, src', snk') \<Longrightarrow> se_features s' = se_features s"
proof (induction now s src snk arbitrary: r s' out src' snk' rule: next_event.induct)
  case (1 now s src snk)
  obtain fres s1 fout snk1 where f: "flush_pending s snk = (fres, s1, fout, snk1)" by (metis prod_cases4)
  note ff = flush_features [OF f]
  show ?case
  proof (cases "fres = Ready (Inr ())")
    case False
    then have "s' = s1" using "1.prems" f by (auto simp: next_event.simps [of now s] split: poll.splits sum.splits)
    with ff show ?thesis by simp
  next
    case True
    obtain nres chunks src1 r1 where n: "next_message (se_chunks s1) src (se_reassembler s1) = (nres, chunks, src1, r1)"
      by (metis prod_cases4)
    define s2 where "s2 = s1\<lparr>se_reassembler := r1, se_chunks := chunks\<rparr>"
    have s2: "se_features s2 = se_features s" using ff by (simp add: s2_def)
    show ?thesis
    proof (cases "\<exists>raw m. nres = Ready (Inr raw) \<and> decode_known (rm_msg_type raw) (rm_payload raw) = Inr m")
      case False
      then have "s' = s2"
        using "1.prems" f True n by (auto simp: next_event.simps [of now s] s2_def Let_def split: poll.splits sum.splits if_splits)
      with s2 show ?thesis by simp
    next
      case got: True
      then obtain raw m where raw: "nres = Ready (Inr raw)" "decode_known (rm_msg_type raw) (rm_payload raw) = Inr m" by blast
      obtain hres s3 where h: "handle now m s2 = (hres, s3)" by fastforce
      have s3: "se_features s3 = se_features s" using handle_features [OF h] s2 by simp
      show ?thesis
      proof (cases "hres = Inr None")
        case True
        obtain r' s4 out1 src2 snk2 where rec: "next_event now s3 src1 snk1 = (r', s4, out1, src2, snk2)" by (metis prod_cases5)
        have "s' = s4" using "1.prems" f \<open>fres = _\<close> n raw h True rec by (simp add: next_event.simps [of now s] s2_def Let_def)
        moreover have "se_features s4 = se_features s3"
          using "1.IH" [OF f [symmetric] \<open>fres = _\<close> refl refl refl n [symmetric] refl refl s2_def raw(1) refl raw(2) h [symmetric] True refl rec] .
        ultimately show ?thesis using s3 by simp
      next
        case False
        then have "s' = s3"
          using "1.prems" f True n raw h by (auto simp: next_event.simps [of now s] s2_def Let_def \<open>fres = _\<close> split: sum.splits option.splits)
        with s3 show ?thesis by simp
      qed
    qed
  qed
qed

lemma ping_features: "ping now s snk = (r, s', out, snk') \<Longrightarrow> se_features s' = se_features s"
  by (auto simp: ping_def read_clock_def Let_def dest: send_features)

lemma ack_encodes: "fst (se_queue (FrameAck a) s) = Inr ()"
  using to_chunks_img [of "FrameAck a" CH_CONTROL] by (simp add: se_queue_def valid_FrameAck_def)


subsection \<open>Every step keeps the account\<close>

lemma finished_send_account:
  assumes "finished_send x c1 = (l, c')" and "se_features (fst (snd x)) = se_features (cl_session c1)"
  shows "\<exists>bytes. l = [Wrote bytes] \<or> l = [Wrote bytes, Shown Shutdown]"
    and "cl_stalled c' = cl_stalled c1" "cl_reports c' = cl_reports c1" "cl_decoders c' = cl_decoders c1"
    "se_features (cl_session c') = se_features (cl_session c1)"
  using assms by (auto simp: finished_send_def of_log_def split: prod.splits poll.splits sum.splits)

text \<open>The plain sends: a log of bytes, the account untouched.\<close>

lemma finished_send_keeps:
  assumes "se_features (fst (snd x)) = se_features (cl_session c)"
  shows "keeps_account c (finished_send x c)"
proof -
  obtain l c' where f: "finished_send x c = (l, c')" by fastforce
  note a = finished_send_account [OF f assms]
  then obtain bytes where "l = [Wrote bytes] \<or> l = [Wrote bytes, Shown Shutdown]" by blast
  with a show ?thesis unfolding f by (auto simp: keeps_account_def held_def)
qed

lemma cl_send_keeps:
  assumes "cl_send m snk c = (l, c')"
  shows "cl_stalled c' = cl_stalled c" "cl_reports c' = cl_reports c" "cl_decoders c' = cl_decoders c"
    "se_features (cl_session c') = se_features (cl_session c)"
    "of_log arrived_in l = []" "of_log handed_in l = []" "of_log piped_in l = []" "of_log consumed_in l = []" "of_log owed_in l = []"
    "of_log acked_in l = (case m of Some (FrameAck a) \<Rightarrow> [(fa_window_id a, fa_frame_id a)] | _ \<Rightarrow> [])"
proof -
  have "cl_stalled c' = cl_stalled c \<and> cl_reports c' = cl_reports c \<and> cl_decoders c' = cl_decoders c
    \<and> se_features (cl_session c') = se_features (cl_session c) \<and>
    of_log arrived_in l = [] \<and> of_log handed_in l = [] \<and> of_log piped_in l = [] \<and> of_log consumed_in l = [] \<and> of_log owed_in l = [] \<and>
    of_log acked_in l = (case m of Some (FrameAck a) \<Rightarrow> [(fa_window_id a, fa_frame_id a)] | _ \<Rightarrow> [])"
  proof (cases m)
    case (Some msg)
    obtain l1 c1 where f: "finished_send (send msg (cl_session c) snk) c = (l1, c1)" by fastforce
    obtain r s out snk' where send: "send msg (cl_session c) snk = (r, s, out, snk')" by (metis prod_cases4)
    have feat: "se_features (fst (snd (send msg (cl_session c) snk))) = se_features (cl_session c)"
      using send_features [OF send] send by simp
    note a = finished_send_account [OF f feat]
    then obtain bytes where l1: "l1 = [Wrote bytes] \<or> l1 = [Wrote bytes, Shown Shutdown]" by blast
    have l: "l = (case fst (se_queue msg (cl_session c)) of Inl _ \<Rightarrow> [] | Inr _ \<Rightarrow> [Sent msg]) @ l1" "c' = c1"
      using assms f by (simp_all add: cl_send_def Some)
    have "of_log acked_in l = (case m of Some (FrameAck a) \<Rightarrow> [(fa_window_id a, fa_frame_id a)] | _ \<Rightarrow> [])"
      using l1 l by (cases msg) (auto simp: Some ack_encodes split: sum.split)
    with a l l1 show ?thesis by (auto split: sum.split)
  qed (use assms in \<open>simp add: cl_send_def\<close>)
  then show "cl_stalled c' = cl_stalled c" "cl_reports c' = cl_reports c" "cl_decoders c' = cl_decoders c"
    "se_features (cl_session c') = se_features (cl_session c)"
    "of_log arrived_in l = []" "of_log handed_in l = []" "of_log piped_in l = []" "of_log consumed_in l = []" "of_log owed_in l = []"
    "of_log acked_in l = (case m of Some (FrameAck a) \<Rightarrow> [(fa_window_id a, fa_frame_id a)] | _ \<Rightarrow> [])"
    by blast+
qed

lemma report_keeps: "keeps_account c (report_step snk c)"
proof (cases "cl_reports c")
  case Nil
  then show ?thesis by (simp add: report_step_def keeps_account_def)
next
  case (Cons r rest)
  show ?thesis
  proof (cases r)
    case (Decoded w f t)
    with Cons show ?thesis by (simp add: report_step_def keeps_account_def held_def)
  next
    case (Dropped w f t)
    let ?c2 = "c\<lparr>cl_reports := rest, cl_latency := on_dropped w f (cl_latency c)\<rparr>"
    obtain l c' where s: "cl_send (frame_ack (cl_session c) w f t t) snk ?c2 = (l, c')" by fastforce
    from cl_send_keeps [OF s] s Cons Dropped show ?thesis
      by (auto simp: report_step_def keeps_account_def held_def frame_ack_def)
  qed
qed

lemma display_event_keeps:
  assumes "display_event env e c = (m, c1)"
  shows "cl_stalled c1 = cl_stalled c" "cl_reports c1 = cl_reports c" "cl_decoders c1 = cl_decoders c"
    "se_features (cl_session c1) = se_features (cl_session c)"
    "has_feature FRAME_ACK (cl_session c) \<longrightarrow>
      (case m of Some (FrameAck a) \<Rightarrow> [(fa_window_id a, fa_frame_id a)] | _ \<Rightarrow> []) = owed_in (Handled e)"
  using assms
  by (cases e; auto simp: display_event_def cl_now_def read_clock_def clock_offset_us_def frame_ack_def window_control_def has_feature_def
      Let_def split: prod.splits option.splits if_splits)+

lemma handle_display_event_keeps: "keeps_account c (handle_display_event env snk e c)"
proof -
  obtain m c1 where d: "display_event env e c = (m, c1)" by fastforce
  obtain l c2 where s: "cl_send m snk c1 = (l, c2)" by fastforce
  from display_event_keeps [OF d] cl_send_keeps [OF s] d s show ?thesis
    by (auto simp: handle_display_event_def keeps_account_def held_def)
qed


lemma cl_now_same:
  assumes "cl_now env c = (t, c')"
  shows "cl_decoders c' = cl_decoders c" "cl_reports c' = cl_reports c" "cl_stalled c' = cl_stalled c"
    "se_features (cl_session c') = se_features (cl_session c)" "cl_result c' = cl_result c"
  using assms by (auto simp: cl_now_def read_clock_def)

lemma place_with_room:
  assumes "wk_alive (dp_threads p ! i)" and "length (wk_queue (dp_threads p ! i)) < QUEUE_DEPTH"
  shows "fst (place i f p) = [Accepted i f]"
  using assms by (simp add: place_def try_send_def Let_def)

lemma threads_grow:
  "length (dp_threads p) \<le> length (dp_threads (snd (submit started t f p)))"
  "length (dp_threads (snd (place i f p))) = length (dp_threads p)"
  "length (dp_threads (take_frame i p)) = length (dp_threads p)"
  "length (dp_threads (snd (finish codec dec i en p))) = length (dp_threads p)"
  "length (dp_threads (dp_forget w p)) = length (dp_threads p)"
  by (auto simp: submit_def place_def try_send_def take_frame_def finish_def dp_forget_def Let_def
      split: option.splits prod.splits bool.splits list.splits if_splits)

lemma room_keeps:
  assumes "\<And>f i t. cl_stalled c = Some (f, i, t) \<Longrightarrow> i < length (dp_threads (cl_decoders c))"
  shows "keeps_account c (room_step env c)"
proof (cases "cl_stalled c")
  case None
  then show ?thesis by (simp add: room_step_def keeps_account_def)
next
  case (Some x)
  obtain f i since where st: "cl_stalled c = Some (f, i, since)" using Some by (cases x) auto
  let ?w = "dp_threads (cl_decoders c) ! i"
  obtain t c1 where n: "cl_now env c = (t, c1)" by fastforce
  have c1: "cl_decoders c1 = cl_decoders c" "cl_reports c1 = cl_reports c" "se_features (cl_session c1) = se_features (cl_session c)"
    using cl_now_same [OF n] by simp_all
  note i = assms [OF st]
  consider (full) "wk_alive ?w" "QUEUE_DEPTH \<le> length (wk_queue ?w)" | (room) "wk_alive ?w" "length (wk_queue ?w) < QUEUE_DEPTH"
    | (gone) "\<not> wk_alive ?w" by fastforce
  then show ?thesis
  proof cases
    case full
    then show ?thesis by (simp add: room_step_def st keeps_account_def)
  next
    case room
    obtain os p where p: "place i f (cl_decoders c) = (os, p)" by fastforce
    have "os = [Accepted i f]" using place_with_room [OF room, of f] p by simp
    moreover have "accounted (os' @ os) p" if "accounted os' (cl_decoders c)" for os'
      using place_accounted [OF that i, of f] p by simp
    moreover have "length (dp_threads p) = length (dp_threads (cl_decoders c))"
      using threads_grow(2) [of i f "cl_decoders c"] p by simp
    ultimately show ?thesis
      using room c1 p by (auto simp: room_step_def st n keeps_account_def held_def Let_def)
  next
    case gone
    then show ?thesis using c1 by (auto simp: room_step_def st n keeps_account_def held_def Let_def)
  qed
qed

lemma finish_keeps: "keeps_account c (finish_step codec dec i en c)"
proof -
  obtain os p where f: "finish codec dec i en (cl_decoders c) = (os, p)" by fastforce
  have acc: "accounted (os' @ os) p" if "accounted os' (cl_decoders c)" for os'
    using finish_accounted [OF that, of codec dec i en] f by simp
  have len: "length (dp_threads p) = length (dp_threads (cl_decoders c))"
    using threads_grow(4) [of codec dec i en "cl_decoders c"] f by simp
  have "of_log handed_in (map Piped os) = []"
    using f by (auto simp: finish_def Let_def split: option.splits prod.splits if_splits)
  with acc len f show ?thesis
    by (auto simp: finish_step_def keeps_account_def held_def)
qed

lemma submit_full_index:
  assumes "os = [Backpressure f j]" and "submit started t f p = (os, p')" and "accounted os' p"
  shows "j < length (dp_threads p')"
  using assms
  by (auto simp: submit_def try_send_def Let_def accounted_def split: option.splits prod.splits bool.splits if_splits
      dest!: map_of_SomeD)

lemma take_in_keeps:
  assumes "cl_stalled c = None"
  shows "keeps_account c (apfst (Cons (Surfaced (EvFrame f))) (take_in env f c))"
proof -
  obtain a c1 where n1: "cl_now env c = (a, c1)" by fastforce
  define c2 where "c2 = c1\<lparr>cl_latency := on_arrival (arrived_frame f a) (cl_latency c1)\<rparr>"
  obtain t c3 where n2: "cl_now env c2 = (t, c3)" by fastforce
  have same: "cl_decoders c2 = cl_decoders c" "cl_reports c2 = cl_reports c" "cl_stalled c2 = None"
    "cl_reports c3 = cl_reports c" "cl_stalled c3 = None"
    "se_features (cl_session c2) = se_features (cl_session c)" "se_features (cl_session c3) = se_features (cl_session c)"
    using cl_now_same [OF n1] cl_now_same [OF n2] assms by (simp_all add: c2_def)
  obtain os p where sub: "submit (le_started env) t f (cl_decoders c) = (os, p)" by fastforce
  have acc: "accounted (os' @ os) p" if "accounted os' (cl_decoders c)" for os'
    using submit_accounted [OF that, of "le_started env" t f] sub by simp
  have len: "length (dp_threads (cl_decoders c)) \<le> length (dp_threads p)"
    using threads_grow(1) [of "cl_decoders c" "le_started env" t f] sub by simp
  have step: "take_in env f c = (map Piped os,
           case os of
             [Backpressure h i] \<Rightarrow> c3\<lparr>cl_decoders := p, cl_stalled := Some (h, i, t)\<rparr>
           | [Refused r] \<Rightarrow> c3\<lparr>cl_decoders := p, cl_reports := cl_reports c3 @ [r]\<rparr>
           | _ \<Rightarrow> c2\<lparr>cl_decoders := p\<rparr>)"
    unfolding take_in_def n1 prod.case Let_def c2_def [symmetric] n2 same(1) sub by simp
  from submit_outcome [of "le_started env" t f "cl_decoders c"] sub
  consider (a) j where "os = [Accepted j f]" | (b) j where "os = [Backpressure f j]"
    | (r) "os = [Refused (Dropped (fd_window_id f) (fd_frame_id f) t)]" by auto
  then show ?thesis
  proof cases
    case a
    then show ?thesis using step same acc len assms by (auto simp: keeps_account_def held_def)
  next
    case b
    have "j < length (dp_threads p)" if "accounted os' (cl_decoders c)" for os'
      by (rule submit_full_index [OF b sub that])
    then show ?thesis using b step same acc len assms by (auto simp: keeps_account_def held_def)
  next
    case r
    then show ?thesis using step same acc len assms by (auto simp: keeps_account_def held_def)
  qed
qed


text \<open>Changes of the model other than frames only talk to the display and forget what belonged to a closed window.\<close>

definition plain_step :: "'b client \<Rightarrow> log_entry list \<times> 'b client \<Rightarrow> bool" where
  "plain_step c lc \<longleftrightarrow> (case lc of (l, c') \<Rightarrow>
     (\<forall>e \<in> set l. \<exists>cmd. e = Shown cmd) \<and> cl_stalled c' = cl_stalled c \<and> cl_reports c' = cl_reports c
   \<and> se_features (cl_session c') = se_features (cl_session c)
   \<and> (\<forall>os. accounted os (cl_decoders c) \<longrightarrow> accounted os (cl_decoders c'))
   \<and> length (dp_threads (cl_decoders c')) = length (dp_threads (cl_decoders c)))"

fun is_frame_change :: "ModelChange \<Rightarrow> bool" where
  "is_frame_change (ChFrame _) = True"
| "is_frame_change _ = False"

lemma forget_accounted: "accounted os p \<Longrightarrow> accounted os (dp_forget i p)"
  using dp_step_accounted [of os p undefined undefined "Forget_window i"] by simp

lemma note_change_plain:
  "cl_stalled (note_change env ch c) = cl_stalled c" "cl_reports (note_change env ch c) = cl_reports c"
  "cl_session (note_change env ch c) = cl_session c"
  "accounted os (cl_decoders c) \<Longrightarrow> accounted os (cl_decoders (note_change env ch c))"
  "length (dp_threads (cl_decoders (note_change env ch c))) = length (dp_threads (cl_decoders c))"
  by (simp_all add: note_change_def forget_accounted threads_grow(5) split: ModelChange.split option.split)

lemma apply_change_plain:
  assumes "\<not> is_frame_change ch"
  shows "plain_step c (apply_change env ch c)"
proof -
  let ?c1 = "note_change env ch c"
  have "apply_change env ch c = (case display_command_for_change (cl_model ?c1) ch of
            None \<Rightarrow> ([], ?c1)
          | Some command \<Rightarrow> if le_display_up env then ([Shown command], ?c1) else ([], ?c1\<lparr>cl_result := Some (Inr ())\<rparr>))"
    using assms by (cases ch) (auto simp: apply_change_def Let_def)
  then show ?thesis
    by (auto simp: plain_step_def note_change_plain split: option.split)
qed

lemma plain_step_trans:
  "plain_step c (l, c1) \<Longrightarrow> plain_step c1 (l', c2) \<Longrightarrow> plain_step c (l @ l', c2)"
  by (auto simp: plain_step_def)

lemma apply_changes_plain:
  "\<forall>ch \<in> set chs. \<not> is_frame_change ch \<Longrightarrow> plain_step c (apply_changes env chs c)"
proof (induction chs arbitrary: c)
  case (Cons ch chs)
  obtain l c1 where a: "apply_change env ch c = (l, c1)" by fastforce
  obtain l' c2 where b: "apply_changes env chs c1 = (l', c2)" by fastforce
  have 1: "plain_step c (l, c1)" using apply_change_plain [of ch c env] Cons.prems a by simp
  have 2: "plain_step c1 (l', c2)" using Cons.IH [of c1] Cons.prems b by simp
  from 1 plain_step_trans [OF 1 2] a b show ?case by simp
qed (simp add: plain_step_def)

lemma plain_log: "\<forall>e \<in> set l. \<exists>cmd. e = Shown cmd \<Longrightarrow>
   of_log arrived_in l = [] \<and> of_log handed_in l = [] \<and> of_log piped_in l = [] \<and> of_log consumed_in l = [] \<and> of_log owed_in l = []
   \<and> of_log acked_in l = []"
  by (induction l) auto

lemma plain_step_keeps: "plain_step c (l, c') \<Longrightarrow> arrived_in (Surfaced e) = [] \<Longrightarrow> keeps_account c (Surfaced e # l, c')"
  using plain_log [of l] by (simp add: plain_step_def keeps_account_def held_def)

lemma on_event_keeps:
  assumes "cl_stalled c = None"
  shows "keeps_account c (apfst (Cons (Surfaced e)) (on_event env e c))"
proof (cases "\<exists>f. e = EvFrame f")
  case True
  then obtain f where e: "e = EvFrame f" by blast
  have "on_event env e c = take_in env f c"
    by (cases "take_in env f c") (simp add: e on_event_def apply_change_def note_change_def)
  then show ?thesis using take_in_keeps [OF assms, of f env] e by simp
next
  case False
  obtain chs d where a: "apply_event e (cl_model c) = (chs, d)" by fastforce
  have "\<forall>ch \<in> set (fst (apply_event e (cl_model c))). \<not> is_frame_change ch"
    using False by (cases e) (auto simp: handler_defs Let_def split: option.splits)
  then have "plain_step (c\<lparr>cl_model := d\<rparr>) (apply_changes env chs (c\<lparr>cl_model := d\<rparr>))"
    using a by (intro apply_changes_plain) simp
  moreover obtain l c1 where l: "apply_changes env chs (c\<lparr>cl_model := d\<rparr>) = (l, c1)" by fastforce
  ultimately have "plain_step c (on_event env e c)"
    using a by (auto simp: on_event_def plain_step_def)
  moreover have "arrived_in (Surfaced e) = []" using False by (cases e) auto
  ultimately show ?thesis by (cases "on_event env e c") (simp add: plain_step_keeps)
qed

lemma wire_keeps: "keeps_account c (wire_step env arriving snk c)"
proof (cases "cl_stalled c")
  case None
  obtain r s bytes src snk' where n: "next_event (le_now env) (cl_session c) (cl_source c @ arriving) snk = (r, s, bytes, src, snk')"
    by (metis prod_cases5)
  let ?c1 = "c\<lparr>cl_session := s, cl_source := src\<rparr>"
  note feat = next_event_features [OF n]
  show ?thesis
  proof (cases "\<exists>event. r = Ready (Inr (Some event))")
    case True
    then obtain event where r: "r = Ready (Inr (Some event))" by blast
    obtain l1 c2 where o: "on_event env event ?c1 = (l1, c2)" by fastforce
    have "wire_step env arriving snk c = ([Wrote bytes, Surfaced event] @ l1, c2)"
      using None n r o by (simp add: wire_step_def Let_def)
    moreover have "keeps_account ?c1 (Surfaced event # l1, c2)"
      using on_event_keeps [of ?c1 event env] None o by simp
    ultimately show ?thesis using feat by (simp add: keeps_account_def held_def has_feature_def) blast
  next
    case False
    then show ?thesis
      using None n feat by (auto simp: wire_step_def Let_def keeps_account_def held_def split: poll.split sum.split option.split)
  qed
qed (simp add: wire_step_def keeps_account_def)

lemma latency_keeps: "keeps_account c ([], latency_step env c)"
  by (auto simp: latency_step_def cl_now_def read_clock_def se_offset_error_bound_us_def clock_offset_us_def Let_def
      keeps_account_def held_def split: prod.split)

lemma take_frame_keeps: "keeps_account c ([], c\<lparr>cl_decoders := take_frame i (cl_decoders c)\<rparr>)"
  by (simp add: keeps_account_def held_def take_frame_accounted threads_grow(3))

lemma loop_step_keeps:
  assumes "\<And>f i t. cl_stalled c = Some (f, i, t) \<Longrightarrow> i < length (dp_threads (cl_decoders c))"
  shows "keeps_account c (loop_step codec dec env i c)"
proof -
  have idle: "keeps_account c ([], c)" by (simp add: keeps_account_def)
  show ?thesis
  proof (cases i)
    case (Ping_tick snk)
    obtain r s out snk' where p: "ping (le_now env) (cl_session c) snk = (r, s, out, snk')" by (metis prod_cases4)
    show ?thesis
      using idle finished_send_keeps [of "ping (le_now env) (cl_session c) snk" c] ping_features [OF p] p Ping_tick
      by (simp add: ping_step_def)
  next
    case (Resume snk)
    obtain r s out snk' where p: "flush_pending (cl_session c) snk = (r, s, out, snk')" by (metis prod_cases4)
    show ?thesis
      using idle finished_send_keeps [of "flush_pending (cl_session c) snk" c] flush_features [OF p] p Resume by simp
  next
    case Room
    then show ?thesis using idle room_keeps [OF assms] by simp
  next
    case Display_gone
    then show ?thesis by (simp add: keeps_account_def held_def)
  qed (use idle in \<open>simp_all add: wire_keeps report_keeps latency_keeps handle_display_event_keeps take_frame_keeps finish_keeps\<close>)
qed

lemma run_balanced:
  "balanced l c \<Longrightarrow> run_session_loop codec dec is c = (l', c') \<Longrightarrow> balanced (l @ l') c'
     \<and> se_features (cl_session c') = se_features (cl_session c)"
proof (induction "is" arbitrary: c l l')
  case (Cons ei "is")
  obtain env i where ei: "ei = (env, i)" by (cases ei)
  show ?case
  proof (cases "cl_result c = None")
    case True
    obtain l1 c1 where s: "loop_step codec dec env i c = (l1, c1)" by fastforce
    obtain l2 c2 where r: "run_session_loop codec dec is c1 = (l2, c2)" by fastforce
    have k: "keeps_account c (l1, c1)"
      using loop_step_keeps [of c codec dec env i] Cons.prems(1) s by (simp add: balanced_def)
    have "l' = l1 @ l2" "c' = c2" using Cons.prems(2) True ei s r by simp_all
    with Cons.IH [OF balanced_step [OF Cons.prems(1) k], of l2] r k show ?thesis by (simp add: keeps_account_def)
  next
    case False
    then show ?thesis using Cons.prems ei by auto
  qed
qed simp

lemma balanced_new: "balanced [] (client_new measuring s)"
  by (simp add: balanced_def client_new_def held_def accounted_new)

text \<open>
  C33: every frame off the wire is accounted for, and every frame that will not be shown again is acknowledged.
  In any run of the session task, with any interleaving of wire, display, workers and partial writes: the
  frames that arrived are, in order, those handed to a worker, refused by one that could not run, or lost with
  one that ended while the frame waited, followed by the one frame still held back; each worker that runs has
  reported the frames it took exactly once each and in order, except the ones it still has, and never more
  than its queue holds; the task has consumed the reports in order and has the rest before it; and, where
  acknowledgements were negotiated, it has sent exactly one for each dropped report and each presented frame
  it consumed, in that order and with their ids, and no other.
\<close>

theorem frames_and_acks_balance:
  assumes "run_session_loop codec dec is (client_new measuring s) = (l, c)" and "has_feature FRAME_ACK s"
  shows "of_log arrived_in l = of_log handed_in l @ held c
    \<and> reports_of (of_log piped_in l) = of_log consumed_in l @ cl_reports c
    \<and> of_log acked_in l = of_log owed_in l
    \<and> (\<forall>i < length (dp_threads (cl_decoders c)).
         length (wk_queue (dp_threads (cl_decoders c) ! i)) \<le> QUEUE_DEPTH
       \<and> (wk_alive (dp_threads (cl_decoders c) ! i) \<longrightarrow>
            map fd_frame_id (accepted_by i (of_log piped_in l)) =
              map report_frame_id (reported_by i (of_log piped_in l)) @ map fd_frame_id (pending (dp_threads (cl_decoders c) ! i))))"
proof -
  from run_balanced [OF balanced_new assms(1)] have b: "balanced l c" "se_features (cl_session c) = se_features s"
    by (simp_all add: client_new_def)
  from b(1) have acc: "accounted (of_log piped_in l) (cl_decoders c)" by (simp add: balanced_def)
  have "has_feature FRAME_ACK (cl_session c)" using b(2) assms(2) by (simp add: has_feature_def)
  with b(1) have "of_log arrived_in l = of_log handed_in l @ held c"
    "reports_of (of_log piped_in l) = of_log consumed_in l @ cl_reports c" "of_log acked_in l = of_log owed_in l"
    by (simp_all add: balanced_def)
  moreover have "length (wk_queue (dp_threads (cl_decoders c) ! i)) \<le> QUEUE_DEPTH
       \<and> (wk_alive (dp_threads (cl_decoders c) ! i) \<longrightarrow>
            map fd_frame_id (accepted_by i (of_log piped_in l)) =
              map report_frame_id (reported_by i (of_log piped_in l)) @ map fd_frame_id (pending (dp_threads (cl_decoders c) ! i)))"
    if "i < length (dp_threads (cl_decoders c))" for i
    using accounted_thread [OF acc that] by (auto simp: thread_ok_def)
  ultimately show ?thesis by blast
qed


text \<open>A frame arrives for which no worker can be started: it is refused and acknowledged.\<close>

theorem frames_and_acks_balance_witness:
  "\<exists>l (c :: unit client). run_session_loop (\<lambda>_. 1) (\<lambda>_ _. None)
       [(calm_env, arriving_message (FrameData (raw_frame 5 [1, 2, 3, 4])) 16), (calm_env, Report_ready [])]
       (client_new False (session_of Reassembler_new sample_hello)) = (l, c)
     \<and> of_log arrived_in l = [(5, 1)] \<and> of_log acked_in l = [(5, 1)]"
proof -
  let ?f = "raw_frame 5 [1, 2, 3, 4]" and ?s0 = "session_of Reassembler_new sample_hello"
  let ?m = "FrameData ?f"
  have d: "deliverable ?m"
    by (simp add: deliverable_def raw_frame_def valid_FrameData_def img_FrameData_def blob_ok_def codec_size max_message_len_def)
  obtain s' out src' snk' where n: "next_event (le_now calm_env) ?s0 [Segment (concat (map chunk_wire (wire_chunks [(?m, 16)])))]
      (replicate 4 (Accepts 1)) = (Ready (Inr (Some (EvFrame ?f))), s', out, src', snk')"
    by (rule first_event [OF d]) simp_all
  obtain l and c :: "unit client" where r: "run_session_loop (\<lambda>_. 1) (\<lambda>_ _. None)
      [(calm_env, arriving_message ?m 16), (calm_env, Report_ready [])] (client_new False ?s0) = (l, c)"
    by fastforce
  have feat: "has_feature FRAME_ACK ?s0"
    by (simp add: has_feature_def session_of_def sample_hello_def FRAME_ACK_def SUPPORTED_def CURSOR_STREAM_def
        WINDOW_CONTROL_def TEXT_INPUT_def ICONS_def)
  have log: "of_log arrived_in l = [(5, 1)]" "of_log owed_in l = [(5, 1)]"
    using r n
    by (auto simp: arriving_message_def client_new_def wire_step_def Let_def on_event_def apply_change_def note_change_def
        take_in_def cl_now_def read_clock_def submit_def spawn_worker_def try_send_def DecodePipeline_new_def calm_env_def
        report_dropped_def report_step_def raw_frame_def split: prod.splits dest: cl_send_keeps(5) cl_send_keeps(9))
  from frames_and_acks_balance [OF r feat] r log show ?thesis by auto
qed

section \<open>The decode times kept for acknowledgements\<close>

lemma min_key_member: "min_key ks = Some k \<Longrightarrow> k \<in> set ks"
  by (induction ks arbitrary: k) (auto split: option.splits if_splits)

lemma min_key_None [simp]: "min_key ks = None \<longleftrightarrow> ks = []"
  by (cases ks) (auto split: option.splits)

lemma delete_shorter: "k \<in> fst ` set t \<Longrightarrow> length (AList.delete k t) < length t"
  by (force simp: AList.delete_eq intro: length_filter_less)

lemma dt_record_bounded:
  assumes "length t \<le> DECODE_TIMES_CAPACITY"
  shows "length (dt_record w f d t) \<le> DECODE_TIMES_CAPACITY" "map_of (dt_record w f d t) (w, f) = Some d"
proof -
  show "length (dt_record w f d t) \<le> DECODE_TIMES_CAPACITY"
  proof (cases "DECODE_TIMES_CAPACITY \<le> length t")
    case True
    then obtain k where k: "min_key (map fst t) = Some k" by (cases "min_key (map fst t)") (auto simp: DECODE_TIMES_CAPACITY_def)
    have "length (AList.delete k t) < length t" using min_key_member [OF k] by (intro delete_shorter) auto
    then show ?thesis
      using assms True k update_length [of "(w, f)" d "AList.delete k t"] by (simp add: dt_record_def split: if_splits)
  next
    case False
    then show ?thesis using update_length [of "(w, f)" d t] by (simp add: dt_record_def split: if_splits)
  qed
qed (simp add: dt_record_def Let_def AList.update_conv')

text \<open>
  A full table gives up the entry with the least pair of window and frame id. With several windows this is
  not the lowest frame id: the newest time of the window with the lowest id goes first.
\<close>

theorem eviction_by_window_first:
  assumes "t = ((1, 500), 9) # map (\<lambda>k. ((2, word_of_nat k), 9)) [1..<64]"
  shows "map_of (dt_record 2 64 9 t) (1, 500) = None \<and> map_of (dt_record 2 64 9 t) (2, 1) = Some 9"
  unfolding assms by code_simp

end
