(* ===== verification/Client_Input.thy ===== *)
theory Client_Input
  imports Client_Accounts Agent_Session
begin

text \<open>
  The way of user input from a native window of the client to a window of the guest: the client's
  \<open>handle_display_event\<close> (\<open>oxclient/src/main.rs\<close>) against the agent's message loop
  (\<open>oxagent/src/serve.rs\<close>).
\<close>

definition control_call :: "('e, 's) driver \<Rightarrow> u32 \<Rightarrow> u8 \<Rightarrow> i32 \<Rightarrow> i32 \<Rightarrow> u16 \<Rightarrow> u16 \<Rightarrow> SinkCall list" where
  "control_call drv i action x y w h =
    (case map_of (ag_streams (dr_agent drv)) i of None \<Rightarrow> [] | Some s \<Rightarrow> [Window_control (st_handle s) action x y w h])"

text \<open>What the guest is to be told of an event, by the geometry filter's view of it.\<close>

fun guest_calls :: "('e, 's) driver \<Rightarrow> loop_env \<Rightarrow> 'b client \<Rightarrow> DisplayEvent \<Rightarrow> SinkCall list" where
  "guest_calls drv env c (DevPointer i x y buttons wx wy) =
    (case map_of (ag_streams (dr_agent drv)) i of None \<Rightarrow> [] | Some s \<Rightarrow> [Pointer_event (st_handle s) x y buttons wx wy])"
| "guest_calls drv env c (DevKey code pressed ext) = [Key_event code ext pressed]"
| "guest_calls drv env c (DevText t) = (if has_feature TEXT_INPUT (cl_session c) then [Text_input t] else [])"
| "guest_calls drv env c (DevModifiers mods lcks) = [Modifier_sync mods lcks]"
| "guest_calls drv env c (Focused i focused) =
    (if focused \<and> has_feature WINDOW_CONTROL (cl_session c) then control_call drv i ACTION_ACTIVATE 0 0 0 0 else [])"
| "guest_calls drv env c (CloseRequested i) =
    (if has_feature WINDOW_CONTROL (cl_session c) then control_call drv i ACTION_CLOSE 0 0 0 0 else [])"
| "guest_calls drv env c (ResizeRequested i w h) =
    (case fst (resized (le_instant env) (cl_model c) i w h (cl_geometry c)) of
       Some (w', h') \<Rightarrow> if has_feature WINDOW_CONTROL (cl_session c) then control_call drv i ACTION_RESIZE 0 0 w' h' else []
     | None \<Rightarrow> [])"
| "guest_calls drv env c (MoveRequested i x y) =
    (case fst (moved (le_instant env) i x y (cl_geometry c)) of
       Some (x', y') \<Rightarrow> if has_feature WINDOW_CONTROL (cl_session c) then control_call drv i ACTION_MOVE x' y' 0 0 else []
     | None \<Rightarrow> [])"
| "guest_calls drv env c (Minimized i b) =
    (if has_feature WINDOW_CONTROL (cl_session c)
     then control_call drv i (if b then ACTION_MINIMIZE else ACTION_RESTORE) 0 0 0 0 else [])"
| "guest_calls drv env c (Presented _ _ _ _) = []"
| "guest_calls drv env c (BackendError _) = []"

definition agent_calls :: "session_setup \<Rightarrow> (nat \<Rightarrow> nat) \<Rightarrow> ('e, 's) driver \<Rightarrow> Message option \<Rightarrow> SinkCall list" where
  "agent_calls su clock drv m = (case m of None \<Rightarrow> [] | Some msg \<Rightarrow> fst (snd (incoming su clock (Some msg) drv)))"

lemma key_flags_read:
  "key_flags pressed ext AND KEY_PRESSED \<noteq> 0 \<longleftrightarrow> pressed" "key_flags pressed ext AND KEY_EXTENDED \<noteq> 0 \<longleftrightarrow> ext"
  by (cases pressed; cases ext; simp add: key_flags_def KEY_PRESSED_def KEY_EXTENDED_def)+

lemma guest_told:
  assumes "ss_text_input_enabled su = has_feature TEXT_INPUT (cl_session c)"
    and "ss_window_control_enabled su = has_feature WINDOW_CONTROL (cl_session c)"
  shows "agent_calls su clock drv (fst (display_event env e c)) = guest_calls drv env c e"
  using assms
  by (cases e)
    (auto simp: display_event_def agent_calls_def cl_now_def read_clock_def clock_offset_us_def frame_ack_def window_control_def
      control_call_def key_is_pressed_def key_flags_read Let_def split: prod.splits option.splits)


fun sent_in :: "log_entry \<Rightarrow> Message list" where
  "sent_in (Sent m) = [m]"
| "sent_in _ = []"

fun short_text :: "DisplayEvent \<Rightarrow> bool" where
  "short_text (DevText t) \<longleftrightarrow> utf8_valid t \<and> length t \<le> 4094"
| "short_text _ \<longleftrightarrow> True"

lemma display_message_deliverable:
  assumes "display_event env e c = (Some m, c1)" and "short_text e"
  shows "deliverable m"
  using assms
  by (cases e)
    (auto simp: display_event_def cl_now_def read_clock_def clock_offset_us_def frame_ack_def window_control_def Let_def deliverable_def
      valid_PointerEvent_def valid_KeyEvent_def valid_TextInput_def valid_ModifierSync_def valid_WindowControl_def valid_FrameAck_def
      img_PointerEvent_def img_KeyEvent_def img_TextInput_def img_ModifierSync_def img_WindowControl_def img_FrameAck_def
      string_ok_def codec_size string_size_def max_message_len_def split: prod.splits option.splits if_splits)

lemma deliverable_queued: "deliverable m \<Longrightarrow> fst (se_queue m s) = Inr ()"
  using to_chunks_img [of m CH_CONTROL] by (simp add: deliverable_def se_queue_def)

lemma cl_send_sent:
  assumes "cl_send m snk c = (l, c')" and "\<And>msg. m = Some msg \<Longrightarrow> deliverable msg"
  shows "of_log sent_in l = (case m of None \<Rightarrow> [] | Some msg \<Rightarrow> [msg])"
proof (cases m)
  case (Some msg)
  obtain l1 c1 where f: "finished_send (send msg (cl_session c) snk) c = (l1, c1)" by fastforce
  have "\<exists>bytes. l1 = [Wrote bytes] \<or> l1 = [Wrote bytes, Shown Shutdown]"
    using f by (auto simp: finished_send_def split: prod.splits poll.splits sum.splits)
  then show ?thesis
    using assms f deliverable_queued [of msg "cl_session c"] by (auto simp: cl_send_def Some)
qed (use assms in \<open>simp add: cl_send_def\<close>)



text \<open>
  Text is the exception to the size limits: the client queues a text of any length the encoding allows, but the
  agent's reassembler refuses a body over the 4096 bytes of its type, which ends the session.
\<close>

theorem long_text_refused:
  assumes "utf8_valid t" and "4094 < length t" and "length t \<le> 32766"
  shows "fst (se_queue (TextInput \<lparr>ti_text = t\<rparr>) s) = Inr ()
    \<and> (\<exists>h body. message_chunks MT_TEXT_INPUT (msg_channel (TextInput \<lparr>ti_text = t\<rparr>) CH_CONTROL)
            (img_msg (TextInput \<lparr>ti_text = t\<rparr>)) = [(h, body)]
         \<and> fst (push Reassembler_new h body) =
             Inl (InvalidLength ''oxproto reassembly'' ''message exceeds the maximum size for its type''))"
proof -
  let ?m = "TextInput \<lparr>ti_text = t\<rparr>" and ?ch = "msg_channel (TextInput \<lparr>ti_text = t\<rparr>) CH_CONTROL"
  have v: "valid_msg ?m" using assms by (simp add: valid_TextInput_def string_ok_def)
  have len: "length (img_msg ?m) = 2 + length t" by (simp add: img_TextInput_def codec_size string_size_def)
  have q: "fst (se_queue ?m s) = Inr ()" using to_chunks_img [OF v, of CH_CONTROL] by (simp add: se_queue_def)
  have one: "message_chunks MT_TEXT_INPUT ?ch (img_msg ?m) = [(chunk_header MT_TEXT_INPUT ?ch False (img_msg ?m), img_msg ?m)]"
    unfolding message_chunks_def using len assms(3) by (subst split_pieces_small) (simp_all add: MAX_CHUNK_PAYLOAD_def)
  have refused: "fst (push Reassembler_new (chunk_header MT_TEXT_INPUT ch False body) body) =
      Inl (InvalidLength ''oxproto reassembly'' ''message exceeds the maximum size for its type'')"
    if "4096 < length body" "length body \<le> 32768" for body ch
    using that by (simp add: push_def Reassembler_new_def check_len_def max_message_len_def) (simp add: chunk_header_def unat_of_nat)
  have "fst (push Reassembler_new (chunk_header MT_TEXT_INPUT ?ch False (img_msg ?m)) (img_msg ?m)) =
      Inl (InvalidLength ''oxproto reassembly'' ''message exceeds the maximum size for its type'')"
    by (rule refused) (use len assms(2,3) in simp_all)
  with q one show ?thesis by blast
qed

end
