(* ===== verification/Nv12.thy ===== *)
theory Nv12
  imports Yuv
begin

text \<open>
  The agent's colour conversion (\<open>oxagent/src/nv12.rs\<close>): BGRA pixels to a luma plane and a plane of
  interleaved chroma samples at half resolution. A failed assertion or a slice out of range is \<open>None\<close>.
\<close>

section \<open>One pixel\<close>

text \<open>\<open>clamp(0, 255) as u8\<close>.\<close>

definition clamp_byte :: "i32 \<Rightarrow> u8" where
  "clamp_byte v = ucast (if v <s 0 then 0 else if 255 <s v then 255 else v)"

definition luma :: "u8 \<Rightarrow> u8 \<Rightarrow> u8 \<Rightarrow> u8" where
  "luma r g b = clamp_byte (signed_drop_bit 8 (77 * i32_of r + 150 * i32_of g + 29 * i32_of b))"

definition chroma :: "u8 \<Rightarrow> u8 \<Rightarrow> u8 \<Rightarrow> u8 \<times> u8" where
  "chroma r g b =
    (let r = i32_of r; g = i32_of g; b = i32_of b;
         u = signed_drop_bit 8 (- 43 * r - 85 * g + 128 * b) + 128;
         v = signed_drop_bit 8 (128 * r - 107 * g - 21 * b) + 128
     in (clamp_byte u, clamp_byte v))"

section \<open>The loops\<close>

text \<open>\<open>(0..n).step_by(2)\<close>.\<close>

definition step_by_2 :: "nat \<Rightarrow> nat list" where
  "step_by_2 n = map ((*) 2) [0..<(n + 1) div 2]"

fun luma_cols :: "u8 list \<Rightarrow> nat list \<Rightarrow> u8 list \<Rightarrow> u8 list option" where
  "luma_cols src_row [] dst_row = Some dst_row"
| "luma_cols src_row (col # cols) dst_row =
    (case slice src_row (col * 4) 4 of
       None \<Rightarrow> None
     | Some px \<Rightarrow>
         if col < length dst_row then luma_cols src_row cols (dst_row[col := luma (px ! 2) (px ! 1) (px ! 0)]) else None)"

fun luma_rows :: "u8 list \<Rightarrow> nat \<Rightarrow> nat list \<Rightarrow> u8 list \<Rightarrow> u8 list option" where
  "luma_rows bgra width [] y_plane = Some y_plane"
| "luma_rows bgra width (row # rows) y_plane =
    do { src_row \<leftarrow> slice bgra (row * width * 4) (width * 4);
         dst_row \<leftarrow> slice y_plane (row * width) width;
         new \<leftarrow> luma_cols src_row [0..<width] dst_row;
         luma_rows bgra width rows (take (row * width) y_plane @ new @ drop (row * width + width) y_plane) }"

fun chroma_cols :: "u8 list \<Rightarrow> nat list \<Rightarrow> u8 list \<Rightarrow> u8 list option" where
  "chroma_cols src_row [] uv_row = Some uv_row"
| "chroma_cols src_row (col # cols) uv_row =
    (case slice src_row (col * 4) 4 of
       None \<Rightarrow> None
     | Some px \<Rightarrow>
         (case chroma (px ! 2) (px ! 1) (px ! 0) of (u, v) \<Rightarrow>
            if col + 1 < length uv_row then chroma_cols src_row cols (uv_row[col := u, col + 1 := v]) else None))"

fun chroma_rows :: "u8 list \<Rightarrow> nat \<Rightarrow> nat list \<Rightarrow> u8 list \<Rightarrow> u8 list option" where
  "chroma_rows bgra width [] uv_plane = Some uv_plane"
| "chroma_rows bgra width (row # rows) uv_plane =
    do { src_row \<leftarrow> slice bgra (row * width * 4) (width * 4);
         uv_row \<leftarrow> slice uv_plane (row div 2 * width) width;
         new \<leftarrow> chroma_cols src_row (step_by_2 width) uv_row;
         chroma_rows bgra width rows (take (row div 2 * width) uv_plane @ new @ drop (row div 2 * width + width) uv_plane) }"

definition bgra_to_nv12 :: "u8 list \<Rightarrow> nat \<Rightarrow> nat \<Rightarrow> u8 list option" where
  "bgra_to_nv12 bgra width height =
    (if width mod 2 \<noteq> 0 \<or> height mod 2 \<noteq> 0 \<or> length bgra \<noteq> width * height * 4 then None
     else do { y_plane \<leftarrow> luma_rows bgra width [0..<height] (replicate (width * height) 0);
               uv_plane \<leftarrow> chroma_rows bgra width (step_by_2 height) (replicate (width * (height div 2)) 0);
               Some (y_plane @ uv_plane) })"

section \<open>The matrix in integers\<close>

definition luma_value :: "u8 \<Rightarrow> u8 \<Rightarrow> u8 \<Rightarrow> int" where
  "luma_value r g b = (77 * uint r + 150 * uint g + 29 * uint b) div 256"

definition cb_value :: "u8 \<Rightarrow> u8 \<Rightarrow> u8 \<Rightarrow> int" where
  "cb_value r g b = (128 * uint b - 43 * uint r - 85 * uint g) div 256 + 128"

definition cr_value :: "u8 \<Rightarrow> u8 \<Rightarrow> u8 \<Rightarrow> int" where
  "cr_value r g b = (128 * uint r - 107 * uint g - 21 * uint b) div 256 + 128"

lemma matrix_in_range:
  "0 \<le> luma_value r g b \<and> luma_value r g b \<le> 255" "0 \<le> cb_value r g b \<and> cb_value r g b \<le> 255"
  "0 \<le> cr_value r g b \<and> cr_value r g b \<le> 255"
  unfolding luma_value_def cb_value_def cr_value_def
  using byte_range [of r] byte_range [of g] byte_range [of b] by linarith+

lemma clamp_byte_exact: "0 \<le> v \<Longrightarrow> v \<le> 255 \<Longrightarrow> clamp_byte (word_of_int v) = word_of_int v"
  using sint_i32 [of v] by (auto simp: clamp_byte_def word_sless_alt in_i32_def unsigned_of_int take_bit_int_eq_self)

lemma shift8: "in_i32 s \<Longrightarrow> signed_drop_bit 8 (word_of_int s :: i32) = word_of_int (s div 256)"
proof -
  assume s: "in_i32 s"
  then have "sint (signed_drop_bit 8 (word_of_int s :: i32)) = s div 256"
    by (simp add: sint_signed_drop_bit_eq drop_bit_eq_div sint_i32)
  then show ?thesis by (metis of_int_sint scast_id)
qed

lemma in_i32_small: "- 100000 \<le> v \<Longrightarrow> v \<le> 100000 \<Longrightarrow> in_i32 v"
  by (simp add: in_i32_def)

lemma luma_exact: "luma r g b = word_of_int (luma_value r g b)"
proof -
  have "77 * i32_of r + 150 * i32_of g + 29 * i32_of b = word_of_int (77 * uint r + 150 * uint g + 29 * uint b)"
    by (simp add: i32_of_int)
  moreover have "in_i32 (77 * uint r + 150 * uint g + 29 * uint b)"
    using byte_range [of r] byte_range [of g] byte_range [of b] by (intro in_i32_small; linarith)
  ultimately show ?thesis
    using matrix_in_range(1) [of r g b] by (simp only: luma_def shift8 flip: luma_value_def) (simp add: clamp_byte_exact)
qed

lemma chroma_exact: "chroma r g b = (word_of_int (cb_value r g b), word_of_int (cr_value r g b))"
proof -
  have u: "- 43 * i32_of r - 85 * i32_of g + 128 * i32_of b = word_of_int (128 * uint b - 43 * uint r - 85 * uint g)"
    "128 * i32_of r - 107 * i32_of g - 21 * i32_of b = word_of_int (128 * uint r - 107 * uint g - 21 * uint b)"
    by (simp_all add: i32_of_int algebra_simps)
  have i: "in_i32 (128 * uint b - 43 * uint r - 85 * uint g)" "in_i32 (128 * uint r - 107 * uint g - 21 * uint b)"
    using byte_range [of r] byte_range [of g] byte_range [of b] by (intro in_i32_small; linarith)+
  have add: "word_of_int (x div 256) + 128 = (word_of_int (x div 256 + 128) :: i32)" for x by simp
  show ?thesis
    unfolding chroma_def Let_def u shift8 [OF i(1)] shift8 [OF i(2)] add cb_value_def [symmetric] cr_value_def [symmetric]
    using matrix_in_range(2,3) [of r g b] by (simp add: clamp_byte_exact)
qed

section \<open>The planes\<close>

text \<open>The pixel of a picture at a byte offset.\<close>

definition luma_at :: "u8 list \<Rightarrow> nat \<Rightarrow> u8" where
  "luma_at src i = luma (src ! (4 * i + 2)) (src ! (4 * i + 1)) (src ! (4 * i))"

definition chroma_at :: "u8 list \<Rightarrow> nat \<Rightarrow> u8 \<times> u8" where
  "chroma_at src i = chroma (src ! (4 * i + 2)) (src ! (4 * i + 1)) (src ! (4 * i))"

lemma slice_pixel:
  assumes "4 * i + 4 \<le> length src"
  obtains px where "slice src (i * 4) 4 = Some px" "px ! 2 = src ! (4 * i + 2)" "px ! 1 = src ! (4 * i + 1)" "px ! 0 = src ! (4 * i)"
  by (rule that [of "take 4 (drop (i * 4) src)"]) (use assms in \<open>auto simp: slice_def mult.commute\<close>)

lemma upt_step: "k < n \<Longrightarrow> [k..<n] = k # [Suc k..<n]"
  by (simp add: upt_conv_Cons)

lemma luma_cols_from:
  assumes "length src = 4 * w" and "length dst = w" and "k \<le> w"
  shows "luma_cols src [k..<w] dst = Some (take k dst @ map (luma_at src) [k..<w])"
  using assms
proof (induction "w - k" arbitrary: k dst)
  case (Suc n)
  then have k: "k < w" by simp
  have "4 * k + 4 \<le> length src" using k Suc.prems(1) by simp
  then obtain px where px: "slice src (k * 4) 4 = Some px" "px ! 2 = src ! (4 * k + 2)" "px ! 1 = src ! (4 * k + 1)" "px ! 0 = src ! (4 * k)"
    by (rule slice_pixel)
  have "luma_cols src [k..<w] dst = luma_cols src [Suc k..<w] (dst[k := luma_at src k])"
    unfolding upt_step [OF k] using px k Suc.prems(2) by (simp add: luma_at_def)
  also have "\<dots> = Some (take (Suc k) (dst[k := luma_at src k]) @ map (luma_at src) [Suc k..<w])"
    using Suc.hyps(2) k Suc.prems by (intro Suc.hyps(1)) auto
  finally show ?case unfolding upt_step [OF k] using k Suc.prems(2) by (simp add: take_Suc_conv_app_nth)
qed simp

lemma chroma_cols_from:
  assumes "length src = 4 * (2 * w)" and "length dst = 2 * w" and "k \<le> w"
  shows "chroma_cols src (map ((*) 2) [k..<w]) dst =
    Some (take (2 * k) dst @ concat (map (\<lambda>c. case chroma_at src (2 * c) of (u, v) \<Rightarrow> [u, v]) [k..<w]))"
  using assms
proof (induction "w - k" arbitrary: k dst)
  case (Suc n)
  then have k: "k < w" by simp
  have "4 * (2 * k) + 4 \<le> length src" using k Suc.prems(1) by simp
  then obtain px where px: "slice src (2 * k * 4) 4 = Some px" "px ! 2 = src ! (4 * (2 * k) + 2)" "px ! 1 = src ! (4 * (2 * k) + 1)" "px ! 0 = src ! (4 * (2 * k))"
    by (rule slice_pixel)
  obtain u v where uv: "chroma_at src (2 * k) = (u, v)" by fastforce
  have "chroma_cols src (map ((*) 2) [k..<w]) dst = chroma_cols src (map ((*) 2) [Suc k..<w]) (dst[2 * k := u, 2 * k + 1 := v])"
    unfolding upt_step [OF k] using px k Suc.prems(2) uv by (simp add: chroma_at_def)
  also have "\<dots> = Some (take (2 * Suc k) (dst[2 * k := u, 2 * k + 1 := v])
      @ concat (map (\<lambda>c. case chroma_at src (2 * c) of (u, v) \<Rightarrow> [u, v]) [Suc k..<w]))"
    using Suc.hyps(2) k Suc.prems by (intro Suc.hyps(1)) auto
  finally show ?case unfolding upt_step [OF k] using k Suc.prems(2) uv by (simp add: take_Suc_conv_app_nth)
qed simp

lemma row_of:
  assumes "length bgra = width * height * 4" and "row < height"
  obtains src where "slice bgra (row * width * 4) (width * 4) = Some src" "length src = 4 * width"
    "\<And>c. c < width \<Longrightarrow> luma_at src c = luma_at bgra (row * width + c)"
    "\<And>c. c < width \<Longrightarrow> chroma_at src c = chroma_at bgra (row * width + c)"
proof
  let ?src = "take (width * 4) (drop (row * width * 4) bgra)"
  have "Suc row * width \<le> height * width" using assms(2) by (intro mult_le_mono1) simp
  then have fits: "row * width * 4 + width * 4 \<le> length bgra" using assms(1) by (simp add: algebra_simps)
  then show "slice bgra (row * width * 4) (width * 4) = Some ?src" and "length ?src = 4 * width" by (auto simp: slice_def)
  have nth: "?src ! (4 * c + j) = bgra ! (4 * (row * width + c) + j)" if "c < width" "j < 4" for c j
  proof -
    have "4 * c + j < width * 4" using that by simp
    then show ?thesis using fits by (simp add: algebra_simps)
  qed
  show "luma_at ?src c = luma_at bgra (row * width + c)" "chroma_at ?src c = chroma_at bgra (row * width + c)" if "c < width" for c
    using nth [OF that, of 0] nth [OF that, of 1] nth [OF that, of 2] by (simp_all add: luma_at_def chroma_at_def)
qed

lemma splice_row:
  assumes "length plane = rows * width" and "row < rows" and "length new = width"
  shows "slice plane (row * width) width \<noteq> None"
    and "take (Suc row * width) (take (row * width) plane @ new @ drop (row * width + width) plane) = take (row * width) plane @ new"
    and "length (take (row * width) plane @ new @ drop (row * width + width) plane) = rows * width"
proof -
  have "Suc row * width \<le> rows * width" using assms(2) by (intro mult_le_mono1) simp
  then show "slice plane (row * width) width \<noteq> None"
    "take (Suc row * width) (take (row * width) plane @ new @ drop (row * width + width) plane) = take (row * width) plane @ new"
    "length (take (row * width) plane @ new @ drop (row * width + width) plane) = rows * width"
    using assms by (simp_all add: slice_def algebra_simps)
qed

lemma upt_row: "row < rows \<Longrightarrow> [row * width..<rows * width] = map (\<lambda>c. row * width + c) [0..<width] @ [Suc row * width..<rows * width]"
proof -
  assume "row < rows"
  then have "Suc row * width \<le> rows * width" by (intro mult_le_mono1) simp
  then have "[row * width..<rows * width] = [row * width..<Suc row * width] @ [Suc row * width..<rows * width]"
    using upt_add_eq_append [of "row * width" "Suc row * width" "rows * width - Suc row * width"] by simp
  also have "[row * width..<Suc row * width] = map (\<lambda>c. row * width + c) [0..<width]"
    using map_add_upt [of "row * width" width] by (simp add: add.commute)
  finally show ?thesis .
qed

lemma luma_rows_from:
  assumes "length bgra = width * height * 4" and "length plane = height * width" and "row \<le> height"
  shows "luma_rows bgra width [row..<height] plane = Some (take (row * width) plane @ map (luma_at bgra) [row * width..<height * width])"
  using assms
proof (induction "height - row" arbitrary: row plane)
  case (Suc n)
  then have r: "row < height" by simp
  from row_of [OF Suc.prems(1) r] obtain src where src: "slice bgra (row * width * 4) (width * 4) = Some src" "length src = 4 * width"
    "\<And>c. c < width \<Longrightarrow> luma_at src c = luma_at bgra (row * width + c)" by blast
  let ?new = "map (luma_at src) [0..<width]"
  note sp = splice_row [OF Suc.prems(2) r, of ?new]
  from sp(1) obtain dst where dst: "slice plane (row * width) width = Some dst" by auto
  then have "length dst = width" by (auto simp: slice_def split: if_splits)
  then have cols: "luma_cols src [0..<width] dst = Some ?new" using luma_cols_from [OF src(2), of dst 0] by simp
  let ?plane = "take (row * width) plane @ ?new @ drop (row * width + width) plane"
  have new: "?new = map (luma_at bgra) (map (\<lambda>c. row * width + c) [0..<width])" using src(3) by simp
  have "luma_rows bgra width [row..<height] plane = luma_rows bgra width [Suc row..<height] ?plane"
    unfolding upt_step [OF r] using src(1) dst cols by simp
  also have "\<dots> = Some (take (Suc row * width) ?plane @ map (luma_at bgra) [Suc row * width..<height * width])"
    using Suc.hyps(2) Suc.prems(1) sp(3) r by (intro Suc.hyps(1)) auto
  also have "take (Suc row * width) ?plane = take (row * width) plane @ ?new" using sp(2) by simp
  finally show ?case unfolding upt_row [OF r] new by simp
qed simp

text \<open>The chroma samples of a pair of rows.\<close>

definition chroma_row :: "u8 list \<Rightarrow> nat \<Rightarrow> nat \<Rightarrow> u8 list" where
  "chroma_row bgra half_width r =
    concat (map (\<lambda>c. case chroma_at bgra (2 * r * (2 * half_width) + 2 * c) of (u, v) \<Rightarrow> [u, v]) [0..<half_width])"

lemma length_pairs: "length (concat (map (\<lambda>c. case f c of (u, v) \<Rightarrow> [u, v]) cs)) = 2 * length cs"
  by (induction cs) (auto split: prod.split)

lemma length_chroma_row [simp]: "length (chroma_row bgra half_width r) = 2 * half_width"
  by (simp add: chroma_row_def length_pairs)

lemma chroma_rows_from:
  assumes "length bgra = 2 * w * (2 * h) * 4" and "length plane = h * (2 * w)" and "row \<le> h"
  shows "chroma_rows bgra (2 * w) (map ((*) 2) [row..<h]) plane =
    Some (take (row * (2 * w)) plane @ concat (map (chroma_row bgra w) [row..<h]))"
  using assms
proof (induction "h - row" arbitrary: row plane)
  case (Suc n)
  then have r: "row < h" by simp
  then have "2 * row < 2 * h" by simp
  from row_of [OF Suc.prems(1) this] obtain src where
    src: "slice bgra (2 * row * (2 * w) * 4) (2 * w * 4) = Some src" "length src = 4 * (2 * w)"
      "\<And>c. c < 2 * w \<Longrightarrow> chroma_at src c = chroma_at bgra (2 * row * (2 * w) + c)" by metis
  note sp = splice_row [OF Suc.prems(2) r length_chroma_row [of bgra w row]]
  from sp(1) obtain dst where dst: "slice plane (row * (2 * w)) (2 * w) = Some dst" by auto
  then have "length dst = 2 * w" by (auto simp: slice_def split: if_splits)
  moreover have "step_by_2 (2 * w) = map ((*) 2) [0..<w]" by (simp add: step_by_2_def)
  ultimately have "chroma_cols src (step_by_2 (2 * w)) dst = Some (concat (map (\<lambda>c. case chroma_at src (2 * c) of (u, v) \<Rightarrow> [u, v]) [0..<w]))"
    using chroma_cols_from [OF src(2), of dst 0] by simp
  also have "(concat (map (\<lambda>c. case chroma_at src (2 * c) of (u, v) \<Rightarrow> [u, v]) [0..<w])) = chroma_row bgra w row"
    unfolding chroma_row_def using src(3) by (intro arg_cong [where f = concat] map_cong) auto
  finally have cols: "chroma_cols src (step_by_2 (2 * w)) dst = Some (chroma_row bgra w row)" .
  let ?plane = "take (row * (2 * w)) plane @ chroma_row bgra w row @ drop (row * (2 * w) + 2 * w) plane"
  have "chroma_rows bgra (2 * w) (map ((*) 2) [row..<h]) plane = chroma_rows bgra (2 * w) (map ((*) 2) [Suc row..<h]) ?plane"
    unfolding upt_step [OF r] using src(1) dst cols by simp
  also have "\<dots> = Some (take (Suc row * (2 * w)) ?plane @ concat (map (chroma_row bgra w) [Suc row..<h]))"
    using Suc.hyps(2) Suc.prems(1) sp(3) r by (intro Suc.hyps(1)) auto
  also have "take (Suc row * (2 * w)) ?plane = take (row * (2 * w)) plane @ chroma_row bgra w row" by (rule sp(2))
  finally show ?case unfolding upt_step [OF r] by simp
qed simp

lemma nv12_planes:
  assumes "length bgra = 2 * w * (2 * h) * 4"
  shows "bgra_to_nv12 bgra (2 * w) (2 * h) =
    Some (map (luma_at bgra) [0..<2 * h * (2 * w)] @ concat (map (chroma_row bgra w) [0..<h]))"
proof -
  have "luma_rows bgra (2 * w) [0..<2 * h] (replicate (2 * w * (2 * h)) 0) = Some (map (luma_at bgra) [0..<2 * h * (2 * w)])"
    using luma_rows_from [OF assms, of "replicate (2 * w * (2 * h)) 0" 0] by simp
  moreover have "chroma_rows bgra (2 * w) (step_by_2 (2 * h)) (replicate (2 * w * h) 0) = Some (concat (map (chroma_row bgra w) [0..<h]))"
    using chroma_rows_from [OF assms, of "replicate (2 * w * h) 0" 0] by (simp add: step_by_2_def)
  ultimately show ?thesis using assms by (simp add: bgra_to_nv12_def)
qed

lemma pairs_nth:
  "c < n \<Longrightarrow> concat (map (\<lambda>c. case f c of (u, v) \<Rightarrow> [u, v]) [0..<n]) ! (2 * c) = fst (f c)
    \<and> concat (map (\<lambda>c. case f c of (u, v) \<Rightarrow> [u, v]) [0..<n]) ! (2 * c + 1) = snd (f c)"
proof (induction n)
  case (Suc n)
  then show ?case
    using length_pairs [of f "[0..<n]"] by (cases "c = n") (auto simp: nth_append split: prod.split)
qed simp

lemma concat_nth:
  "row < n \<Longrightarrow> i < w \<Longrightarrow> (\<And>r. length (g r) = w) \<Longrightarrow> concat (map g [0..<n]) ! (row * w + i) = g row ! i"
proof (induction n)
  case (Suc n)
  have len: "length (concat (map g [0..<n])) = n * w" using Suc.prems(3) by (simp add: length_concat comp_def sum_list_triv)
  show ?case
  proof (cases "row = n")
    case False
    then have "row < n" using Suc.prems(1) by simp
    then have "Suc row * w \<le> n * w" by (intro mult_le_mono1) simp
    then have "row * w + i < n * w" using Suc.prems(2) by simp
    with Suc.IH [OF \<open>row < n\<close> Suc.prems(2,3)] len show ?thesis by (simp add: nth_append)
  qed (simp add: nth_append len Suc.prems(2))
qed simp

text \<open>The channels of a pixel of a picture \<open>width\<close> pixels wide.\<close>

definition blue_of :: "u8 list \<Rightarrow> nat \<Rightarrow> nat \<Rightarrow> nat \<Rightarrow> u8" where
  "blue_of bgra width row col = bgra ! (4 * (row * width + col))"

definition green_of :: "u8 list \<Rightarrow> nat \<Rightarrow> nat \<Rightarrow> nat \<Rightarrow> u8" where
  "green_of bgra width row col = bgra ! (4 * (row * width + col) + 1)"

definition red_of :: "u8 list \<Rightarrow> nat \<Rightarrow> nat \<Rightarrow> nat \<Rightarrow> u8" where
  "red_of bgra width row col = bgra ! (4 * (row * width + col) + 2)"

text \<open>
  The picture an encoder is given. For a picture of even size with exactly its bytes no assertion fails and
  no slice is out of range; the result has the size of a 4:2:0 picture; every byte of the luma plane is the
  full-range luma of its pixel, computed over the integers, and every pair of chroma bytes is the chroma of the
  top-left pixel of its two by two block. The i32 arithmetic never wraps and the clamps never bite.
\<close>

lemma nv12_exact:
  assumes "even width" and "even height" and "length bgra = width * height * 4"
  shows "\<exists>out. bgra_to_nv12 bgra width height = Some out \<and> length out = width * height + width * (height div 2)
    \<and> (\<forall>row col. row < height \<and> col < width \<longrightarrow>
         uint (out ! (row * width + col)) = luma_value (red_of bgra width row col) (green_of bgra width row col) (blue_of bgra width row col))
    \<and> (\<forall>row col. row < height div 2 \<and> col < width div 2 \<longrightarrow>
         uint (out ! (width * height + row * width + 2 * col)) =
           cb_value (red_of bgra width (2 * row) (2 * col)) (green_of bgra width (2 * row) (2 * col)) (blue_of bgra width (2 * row) (2 * col))
       \<and> uint (out ! (width * height + row * width + 2 * col + 1)) =
           cr_value (red_of bgra width (2 * row) (2 * col)) (green_of bgra width (2 * row) (2 * col)) (blue_of bgra width (2 * row) (2 * col)))"
proof -
  obtain w h where wh: "width = 2 * w" "height = 2 * h" using assms(1,2) by (meson evenE)
  have len: "length bgra = 2 * w * (2 * h) * 4" using assms(3) wh by simp
  let ?y = "map (luma_at bgra) [0..<2 * h * (2 * w)]" and ?uv = "concat (map (chroma_row bgra w) [0..<h])"
  have out: "bgra_to_nv12 bgra width height = Some (?y @ ?uv)" using nv12_planes [OF len] wh by simp
  have size: "length ?uv = 2 * w * h" by (simp add: length_concat comp_def sum_list_triv)
  have byte: "uint (word_of_int v :: u8) = v" if "0 \<le> v \<and> v \<le> 255" for v
    using that by (simp add: unsigned_of_int take_bit_int_eq_self)
  have y: "uint ((?y @ ?uv) ! (row * width + col)) = luma_value (red_of bgra width row col) (green_of bgra width row col) (blue_of bgra width row col)"
    if "row < height" "col < width" for row col
  proof -
    have "Suc row * width \<le> height * width" using that(1) by (intro mult_le_mono1) simp
    then have "row * width + col < 2 * h * (2 * w)" using that(2) wh by simp
    then show ?thesis
      by (simp add: nth_append luma_at_def luma_exact byte matrix_in_range red_of_def green_of_def blue_of_def)
  qed
  have uv: "uint ((?y @ ?uv) ! (width * height + row * width + 2 * col)) =
        cb_value (red_of bgra width (2 * row) (2 * col)) (green_of bgra width (2 * row) (2 * col)) (blue_of bgra width (2 * row) (2 * col))
      \<and> uint ((?y @ ?uv) ! (width * height + row * width + 2 * col + 1)) =
        cr_value (red_of bgra width (2 * row) (2 * col)) (green_of bgra width (2 * row) (2 * col)) (blue_of bgra width (2 * row) (2 * col))"
    if "row < height div 2" "col < width div 2" for row col
  proof -
    have rc: "row < h" "col < w" using that wh by simp_all
    have "?uv ! (row * (2 * w) + 2 * col) = chroma_row bgra w row ! (2 * col)"
      "?uv ! (row * (2 * w) + (2 * col + 1)) = chroma_row bgra w row ! (2 * col + 1)"
      using rc by (intro concat_nth; simp)+
    moreover have "chroma_row bgra w row ! (2 * col) = fst (chroma_at bgra (2 * row * (2 * w) + 2 * col))"
      "chroma_row bgra w row ! (2 * col + 1) = snd (chroma_at bgra (2 * row * (2 * w) + 2 * col))"
      using pairs_nth [OF rc(2), of "\<lambda>c. chroma_at bgra (2 * row * (2 * w) + 2 * c)"] by (simp_all add: chroma_row_def)
    moreover have "(?y @ ?uv) ! (width * height + row * width + 2 * col) = ?uv ! (row * (2 * w) + 2 * col)"
      "(?y @ ?uv) ! (width * height + row * width + 2 * col + 1) = ?uv ! (row * (2 * w) + (2 * col + 1))"
      using wh by (simp_all add: nth_append algebra_simps)
    ultimately show ?thesis
      using wh by (simp only: fst_conv snd_conv) (simp add: chroma_at_def chroma_exact byte matrix_in_range red_of_def green_of_def blue_of_def)
  qed
  have "length (?y @ ?uv) = width * height + width * (height div 2)" using size wh by simp
  with out y uv show ?thesis by (intro exI [of _ "?y @ ?uv"]) blast
qed

text \<open>
  The agent codes full-range samples and the client reads them as limited-range ones: even through a codec that
  loses nothing, the seventeen darkest greys all become black and the twenty-one brightest all become white.
\<close>

theorem greys_clipped_end_to_end:
  assumes "chroma g g g = (cb, cr)"
  shows "(g \<le> 16 \<longrightarrow> bgra_pixel (luma g g g) cb cr = [0, 0, 0, 255])
    \<and> (235 \<le> g \<longrightarrow> bgra_pixel (luma g g g) cb cr = [255, 255, 255, 255])"
proof -
  have y: "luma_value g g g = uint g" "cb_value g g g = 128" "cr_value g g g = 128"
    unfolding luma_value_def cb_value_def cr_value_def by linarith+
  then have c: "luma g g g = g" "cb = 128" "cr = 128"
    using assms by (simp_all add: luma_exact chroma_exact)
  have lo: "q16_byte (76309 * (uint g - 16)) = 0" if "g \<le> 16"
  proof -
    have "uint g \<le> 16" using that by (simp add: word_le_def)
    then have "(76309 * (uint g - 16) + 32768) div 65536 \<le> (32768 :: int) div 65536" by (intro zdiv_mono1) simp_all
    then show ?thesis by (simp add: q16_byte_def)
  qed
  have hi: "q16_byte (76309 * (uint g - 16)) = 255" if "235 \<le> g"
  proof -
    have "235 \<le> uint g" using that by (simp add: word_le_def)
    then have "(16744439 :: int) div 65536 \<le> (76309 * (uint g - 16) + 32768) div 65536" by (intro zdiv_mono1) simp_all
    then show ?thesis by (simp add: q16_byte_def)
  qed
  show ?thesis using lo hi by (simp add: c bgra_pixel_def Let_def)
qed

end
