(* ===== verification/Win_Encoder.thy ===== *)
theory Win_Encoder
  imports Agent_Frames Nv12 H264
begin

text \<open>
  The agent's H.264 encoder on Windows (\<open>oxagent/src/win/encode.rs\<close>): one encoder per window, built on
  its first frame and rebuilt when its size changes. The Media Foundation transform and the GPU are an
  argument: a record of what the code asks of them, on a state of their own. Log lines and the timings
  that are only printed are left out. A panic is \<open>None\<close>.
\<close>

section \<open>The platform\<close>

datatype EncoderKind = Hardware | Software

datatype mf_pixels = Nv12_bytes "u8 list" | Nv12_texture nat

record mf_sample =
  sm_pixels :: mf_pixels
  sm_time :: "64 word"
  sm_duration :: "64 word"

text \<open>
  Creating a transform and unlocking it; accepting a texture as input; setting the media types; codec
  properties and the start of the stream; the request for a keyframe; building the sample (allocating
  and filling the buffer, or converting the texture); \<open>ProcessInput\<close>; \<open>ProcessOutput\<close> and reading the
  sample it produced.
\<close>

record 't mf =
  mf_create_unlocked_transform :: "EncoderKind \<Rightarrow> 't option"
  mf_setup_gpu_input :: "nat \<Rightarrow> u32 \<Rightarrow> u32 \<Rightarrow> u16 \<Rightarrow> 't \<Rightarrow> 't option"
  mf_set_media_types :: "u32 \<Rightarrow> u32 \<Rightarrow> u16 \<Rightarrow> 't \<Rightarrow> 't option"
  mf_start :: "'t \<Rightarrow> 't option"
  mf_force_keyframe :: "'t \<Rightarrow> 't"
  mf_builds :: "mf_sample \<Rightarrow> 't \<Rightarrow> bool"
  mf_process_input :: "mf_sample \<Rightarrow> 't \<Rightarrow> bool \<times> 't"
  mf_process_output :: "'t \<Rightarrow> u8 list option \<times> 't"

section \<open>Padding\<close>

definition pad_even :: "u16 \<Rightarrow> u16" where
  "pad_even x = x + x mod 2"

text \<open>One target pixel of \<open>pad_bgra\<close>; the rows and columns run over the target.\<close>

definition pad_pixel :: "u8 list \<Rightarrow> nat \<Rightarrow> nat \<Rightarrow> nat \<Rightarrow> nat \<Rightarrow> nat \<Rightarrow> u8 list \<Rightarrow> u8 list" where
  "pad_pixel src src_w src_h dst_w y x out =
    (let sy = min y (src_h - 1); sx = min x (src_w - 1);
         src_i = (sy * src_w + sx) * 4; dst_i = (y * dst_w + x) * 4
     in if src_i + 4 \<le> length src then take dst_i out @ take 4 (drop src_i src) @ drop (dst_i + 4) out else out)"

definition pad_bgra :: "u8 list \<Rightarrow> u16 \<Rightarrow> u16 \<Rightarrow> u32 \<Rightarrow> u32 \<Rightarrow> u8 list" where
  "pad_bgra src src_w src_h dst_w dst_h =
    (let src_w = unat src_w; src_h = unat src_h; dst_w = unat dst_w; dst_h = unat dst_h in
     if src_w = dst_w \<and> src_h = dst_h then src
     else fold (\<lambda>y out. fold (pad_pixel src src_w src_h dst_w y) [0..<dst_w] out) [0..<dst_h] (replicate (dst_w * dst_h * 4) 0))"

section \<open>One window's encoder\<close>

datatype InputPath = Cpu | Gpu

record 't WindowEncoder =
  we_transform :: 't
  we_input_path :: InputPath
  we_width :: u32
  we_height :: u32
  we_params :: ParamSets
  we_next_sample_time_hns :: "64 word"
  we_frame_duration_hns :: "64 word"
  we_pending :: "bool list"

definition max_u32 :: "u32 \<Rightarrow> u32 \<Rightarrow> u32" where
  "max_u32 a b = (if a < b then b else a)"

text \<open>
  A texture is tried first; a refusal falls back to pixels on a fresh transform. The outcome \<open>None\<close> is
  the error of the setup.
\<close>

definition WindowEncoder_new :: "'t mf \<Rightarrow> EncoderKind \<Rightarrow> u16 \<Rightarrow> u16 \<Rightarrow> u16 \<Rightarrow> nat option \<Rightarrow> 't WindowEncoder option" where
  "WindowEncoder_new mf kind width height fps gpu_frame =
    (let width = max_u32 (ucast (pad_even width)) 2; height = max_u32 (ucast (pad_even height)) 2 in
     do { transform \<leftarrow> mf_create_unlocked_transform mf kind;
          let gpu_input =
            (case gpu_frame of
               None \<Rightarrow> None
             | Some frame \<Rightarrow>
                 do { t \<leftarrow> mf_setup_gpu_input mf frame width height fps transform;
                      mf_set_media_types mf width height fps t });
          (transform, path) \<leftarrow>
            (case gpu_input of
               Some t \<Rightarrow> Some (t, Gpu)
             | None \<Rightarrow>
                 do { t \<leftarrow> mf_create_unlocked_transform mf kind;
                      t \<leftarrow> mf_set_media_types mf width height fps t;
                      Some (t, Cpu) });
          transform \<leftarrow> mf_start mf transform;
          Some \<lparr>we_transform = transform, we_input_path = path, we_width = width, we_height = height,
            we_params = ParamSets_default, we_next_sample_time_hns = 0,
            we_frame_duration_hns = word_of_nat (10000000 div unat (max fps 1)), we_pending = []\<rparr> })"

definition we_matches :: "SourceFrame \<Rightarrow> 't WindowEncoder \<Rightarrow> bool" where
  "we_matches frame enc \<longleftrightarrow> ucast (pad_even (sf_width frame)) = we_width enc \<and> ucast (pad_even (sf_height frame)) = we_height enc"

definition uses_cpu_input :: "'t WindowEncoder \<Rightarrow> bool" where
  "uses_cpu_input enc \<longleftrightarrow> we_input_path enc = Cpu"

text \<open>The sample built for a frame; the inner \<open>None\<close> is an error, the outer one a panic of the conversion.\<close>

definition build_input_sample :: "'t mf \<Rightarrow> SourceFrame \<Rightarrow> 't WindowEncoder \<Rightarrow> (mf_sample \<times> 't WindowEncoder) option option" where
  "build_input_sample mf frame enc =
    (let build = (\<lambda>pixels.
       let sample = \<lparr>sm_pixels = pixels, sm_time = we_next_sample_time_hns enc, sm_duration = we_frame_duration_hns enc\<rparr> in
       if mf_builds mf sample (we_transform enc)
       then Some (sample, enc\<lparr>we_next_sample_time_hns := we_next_sample_time_hns enc + we_frame_duration_hns enc\<rparr>)
       else None)
     in case we_input_path enc of
       Gpu \<Rightarrow> Some (case sf_gpu_frame frame of None \<Rightarrow> None | Some texture \<Rightarrow> build (Nv12_texture texture))
     | Cpu \<Rightarrow>
         (let padded = pad_bgra (sf_data frame) (sf_width frame) (sf_height frame) (we_width enc) (we_height enc) in
          case bgra_to_nv12 padded (unat (we_width enc)) (unat (we_height enc)) of
            None \<Rightarrow> None
          | Some nv12 \<Rightarrow> Some (build (Nv12_bytes nv12))))"

definition we_submit :: "'t mf \<Rightarrow> SourceFrame \<Rightarrow> bool \<Rightarrow> 't WindowEncoder \<Rightarrow> 't WindowEncoder option" where
  "we_submit mf frame force_keyframe enc =
    (if uses_cpu_input enc \<and> sf_data frame = [] then Some enc
     else
       (let enc1 = (if force_keyframe then enc\<lparr>we_transform := mf_force_keyframe mf (we_transform enc)\<rparr> else enc) in
        case build_input_sample mf frame enc1 of
          None \<Rightarrow> None
        | Some None \<Rightarrow> Some enc1
        | Some (Some (sample, enc2)) \<Rightarrow>
            (case mf_process_input mf sample (we_transform enc2) of (taken, t) \<Rightarrow>
               Some (enc2\<lparr>we_transform := t, we_pending := (if taken then we_pending enc2 @ [force_keyframe] else we_pending enc2)\<rparr>))))"

definition we_poll :: "'t mf \<Rightarrow> 't WindowEncoder \<Rightarrow> EncodedFrame option \<times> 't WindowEncoder" where
  "we_poll mf enc =
    (case mf_process_output mf (we_transform enc) of
       (None, t) \<Rightarrow> (None, enc\<lparr>we_transform := t\<rparr>)
     | (Some raw, t) \<Rightarrow>
         (let enc1 = enc\<lparr>we_transform := t, we_pending := tl (we_pending enc)\<rparr> in
          case reframe raw (we_params enc1) of
            ((data, is_idr), params) \<Rightarrow>
              (let enc2 = enc1\<lparr>we_params := params\<rparr> in
               if data = [] then (None, enc2)
               else (Some \<lparr>ef_data = data, ef_keyframe = is_idr, ef_width = ucast (min (we_width enc2) 65535),
                       ef_height = ucast (min (we_height enc2) 65535)\<rparr>, enc2))))"

section \<open>All windows\<close>

record 't WinFrameEncoder =
  wf_kind :: EncoderKind
  wf_target_fps :: u16
  wf_encoders :: "(handle \<times> 't WindowEncoder) list"
  wf_failed :: "(handle \<times> (u16 \<times> u16)) list"

definition WinFrameEncoder_new :: "EncoderKind \<Rightarrow> u16 \<Rightarrow> 't WinFrameEncoder" where
  "WinFrameEncoder_new kind fps = \<lparr>wf_kind = kind, wf_target_fps = fps, wf_encoders = [], wf_failed = []\<rparr>"

definition wf_submit_to :: "'t mf \<Rightarrow> handle \<Rightarrow> SourceFrame \<Rightarrow> bool \<Rightarrow> 't WinFrameEncoder \<Rightarrow> 't WinFrameEncoder option" where
  "wf_submit_to mf h frame force_keyframe fe =
    (case map_of (wf_encoders fe) h of
       None \<Rightarrow> Some fe
     | Some enc \<Rightarrow>
         (case we_submit mf frame force_keyframe enc of
            None \<Rightarrow> None
          | Some enc' \<Rightarrow> Some (fe\<lparr>wf_encoders := AList.update h enc' (wf_encoders fe)\<rparr>)))"

definition wf_submit :: "'t mf \<Rightarrow> handle \<Rightarrow> SourceFrame \<Rightarrow> bool \<Rightarrow> 't WinFrameEncoder \<Rightarrow> 't WinFrameEncoder option" where
  "wf_submit mf h frame force_keyframe fe =
    (if map_of (wf_failed fe) h = Some (sf_width frame, sf_height frame) then Some fe
     else
       (let needs_rebuild = (case map_of (wf_encoders fe) h of Some enc \<Rightarrow> \<not> we_matches frame enc | None \<Rightarrow> True) in
        if needs_rebuild then
          (case WindowEncoder_new mf (wf_kind fe) (sf_width frame) (sf_height frame) (wf_target_fps fe) (sf_gpu_frame frame) of
             Some enc \<Rightarrow>
               (let wf1 = fe\<lparr>wf_encoders := AList.update h enc (wf_encoders fe), wf_failed := AList.delete h (wf_failed fe)\<rparr> in
                if uses_cpu_input enc \<and> sf_data frame = [] then Some wf1 else wf_submit_to mf h frame True wf1)
           | None \<Rightarrow>
               Some (fe\<lparr>wf_encoders := AList.delete h (wf_encoders fe),
                 wf_failed := AList.update h (sf_width frame, sf_height frame) (wf_failed fe)\<rparr>))
        else wf_submit_to mf h frame force_keyframe fe))"

definition wf_poll :: "'t mf \<Rightarrow> handle \<Rightarrow> 't WinFrameEncoder \<Rightarrow> EncodedFrame option \<times> 't WinFrameEncoder" where
  "wf_poll mf h fe =
    (case map_of (wf_encoders fe) h of
       None \<Rightarrow> (None, fe)
     | Some enc \<Rightarrow> (case we_poll mf enc of (r, enc') \<Rightarrow> (r, fe\<lparr>wf_encoders := AList.update h enc' (wf_encoders fe)\<rparr>)))"

definition wf_forget :: "handle \<Rightarrow> 't WinFrameEncoder \<Rightarrow> 't WinFrameEncoder" where
  "wf_forget h fe = fe\<lparr>wf_encoders := AList.delete h (wf_encoders fe), wf_failed := AList.delete h (wf_failed fe)\<rparr>"

definition wf_wants_cpu_frame :: "handle \<Rightarrow> u16 \<Rightarrow> u16 \<Rightarrow> 't WinFrameEncoder \<Rightarrow> bool" where
  "wf_wants_cpu_frame h width height fe =
    (case map_of (wf_encoders fe) h of
       None \<Rightarrow> False
     | Some enc \<Rightarrow> uses_cpu_input enc \<and> we_width enc = ucast (pad_even width) \<and> we_height enc = ucast (pad_even height))"

definition wf_is_failed :: "handle \<Rightarrow> 't WinFrameEncoder \<Rightarrow> bool" where
  "wf_is_failed h fe \<longleftrightarrow> map_of (wf_failed fe) h \<noteq> None"

text \<open>The encoder as the session driver sees it; \<open>None\<close> is a process that has panicked.\<close>

definition win_encoder :: "'t mf \<Rightarrow> 't WinFrameEncoder option FrameEncoder" where
  "win_encoder mf = \<lparr>
     fe_submit = (\<lambda>h frame force fe. fe \<bind> wf_submit mf h frame force),
     fe_poll = (\<lambda>h fe. case fe of None \<Rightarrow> (None, None) | Some fe \<Rightarrow> apsnd Some (wf_poll mf h fe)),
     fe_forget = (\<lambda>h. map_option (wf_forget h)),
     fe_wants_cpu_frame = (\<lambda>h w ht fe. case fe of None \<Rightarrow> False | Some fe \<Rightarrow> wf_wants_cpu_frame h w ht fe),
     fe_failed = (\<lambda>h fe. case fe of None \<Rightarrow> False | Some fe \<Rightarrow> wf_is_failed h fe)\<rparr>"

end
