(* ===== verification/Win_Pictures.thy ===== *)
theory Win_Pictures
  imports Win_Encoder
begin

text \<open>
  The picture the Windows encoder is given: padding to an even size and the conversion to NV12, against the
  captured pixels.
\<close>

section \<open>Padding\<close>

text \<open>Where a pixel of the padded picture comes from.\<close>

definition source_index :: "nat \<Rightarrow> nat \<Rightarrow> nat \<Rightarrow> nat \<Rightarrow> nat" where
  "source_index src_w src_h y x = min y (src_h - 1) * src_w + min x (src_w - 1)"

lemma source_index_fits:
  assumes "0 < w" and "0 < h"
  shows "source_index w h y x < w * h"
proof -
  have "Suc (min y (h - 1)) * w \<le> h * w" using assms(2) by (intro mult_le_mono1) simp
  then show ?thesis using assms(1) by (simp add: source_index_def algebra_simps)
qed

lemma splice4_nth:
  assumes "4 * k + 4 \<le> length out" and "length px = 4" and "j < 4" and "4 * i + j < length out"
  shows "(take (4 * k) out @ px @ drop (4 * k + 4) out) ! (4 * i + j) = (if i = k then px ! j else out ! (4 * i + j))"
proof -
  consider "i < k" | "i = k" | "k < i" by linarith
  then show ?thesis
  proof cases
    case 1
    then have "4 * i + j < 4 * k" using assms(3) by linarith
    then show ?thesis using 1 assms by (simp add: nth_append)
  next
    case 3
    then have "4 * k + 4 \<le> 4 * i + j" by linarith
    then obtain d where d: "4 * i + j = 4 * k + 4 + d" using le_Suc_ex by blast
    then show ?thesis using 3 assms unfolding d by (simp add: nth_append)
  qed (use assms in \<open>simp add: nth_append\<close>)
qed

lemma pad_pixel_nth:
  assumes "length src = w * h * 4" and "0 < w" and "0 < h" and "y * dst_w + x < length out div 4"
  shows "length (pad_pixel src w h dst_w y x out) = length out"
    and "j < 4 \<Longrightarrow> 4 * i + j < length out \<Longrightarrow>
      pad_pixel src w h dst_w y x out ! (4 * i + j) =
        (if i = y * dst_w + x then src ! (4 * source_index w h y x + j) else out ! (4 * i + j))"
proof -
  let ?k = "y * dst_w + x" and ?s = "source_index w h y x"
  have s: "4 * ?s + 4 \<le> length src" using source_index_fits [OF assms(2,3), of y x] assms(1) by simp
  have "Suc ?k \<le> length out div 4" using assms(4) by simp
  then have "Suc ?k * 4 \<le> length out" by (simp only: less_eq_div_iff_mult_less_eq)
  then have k: "4 * ?k + 4 \<le> length out" by simp
  have px: "length (take 4 (drop (4 * ?s) src)) = 4" using s by simp
  have eq: "pad_pixel src w h dst_w y x out = take (4 * ?k) out @ take 4 (drop (4 * ?s) src) @ drop (4 * ?k + 4) out"
    using s by (simp add: pad_pixel_def Let_def source_index_def mult.commute)
  show "length (pad_pixel src w h dst_w y x out) = length out" using k s by (simp add: eq)
  show "pad_pixel src w h dst_w y x out ! (4 * i + j) =
        (if i = ?k then src ! (4 * ?s + j) else out ! (4 * i + j))" if "j < 4" "4 * i + j < length out"
    unfolding eq splice4_nth [OF k px that] using s that(1) by simp
qed

lemma pad_row_nth:
  assumes "length src = w * h * 4" and "0 < w" and "0 < h" and "n \<le> dst_w" and "Suc y * dst_w \<le> length out div 4"
  shows "length (fold (pad_pixel src w h dst_w y) [0..<n] out) = length out \<and>
    (j < 4 \<longrightarrow> 4 * i + j < length out \<longrightarrow>
      fold (pad_pixel src w h dst_w y) [0..<n] out ! (4 * i + j) =
        (if y * dst_w \<le> i \<and> i < y * dst_w + n then src ! (4 * source_index w h y (i - y * dst_w) + j) else out ! (4 * i + j)))"
  using assms(4)
proof (induction n)
  case (Suc n)
  let ?out = "fold (pad_pixel src w h dst_w y) [0..<n] out"
  from Suc have len: "length ?out = length out" by simp
  have "y * dst_w + n < length ?out div 4" using Suc.prems assms(5) len by simp
  note p = pad_pixel_nth [OF assms(1-3) this]
  show ?case
  proof (intro conjI impI)
    show "length (fold (pad_pixel src w h dst_w y) [0..<Suc n] out) = length out" using p(1) len by simp
    assume "j < 4" "4 * i + j < length out"
    with p(2) [of j i] len Suc show "fold (pad_pixel src w h dst_w y) [0..<Suc n] out ! (4 * i + j) =
        (if y * dst_w \<le> i \<and> i < y * dst_w + Suc n then src ! (4 * source_index w h y (i - y * dst_w) + j) else out ! (4 * i + j))"
      by (auto simp: less_Suc_eq)
  qed
qed auto

lemma pad_rows_nth:
  assumes "length src = w * h * 4" and "0 < w" and "0 < h" and "0 < dst_w" and "m * dst_w \<le> length out div 4"
  shows "length (fold (\<lambda>y out. fold (pad_pixel src w h dst_w y) [0..<dst_w] out) [0..<m] out) = length out \<and>
    (j < 4 \<longrightarrow> 4 * i + j < length out \<longrightarrow>
      fold (\<lambda>y out. fold (pad_pixel src w h dst_w y) [0..<dst_w] out) [0..<m] out ! (4 * i + j) =
        (if i < m * dst_w then src ! (4 * source_index w h (i div dst_w) (i mod dst_w) + j) else out ! (4 * i + j)))"
  using assms(5)
proof (induction m)
  case (Suc m)
  let ?out = "fold (\<lambda>y out. fold (pad_pixel src w h dst_w y) [0..<dst_w] out) [0..<m] out"
  from Suc have IH: "length ?out = length out"
    "j < 4 \<Longrightarrow> 4 * i + j < length out \<Longrightarrow> ?out ! (4 * i + j) =
      (if i < m * dst_w then src ! (4 * source_index w h (i div dst_w) (i mod dst_w) + j) else out ! (4 * i + j))" by simp_all
  note p = pad_row_nth [OF assms(1-3) order_refl, of m dst_w ?out j i]
  have row: "i div dst_w = m \<and> i mod dst_w = i - m * dst_w" if "m * dst_w \<le> i" "i < m * dst_w + dst_w"
  proof -
    have "i = m * dst_w + (i - m * dst_w)" "i - m * dst_w < dst_w" using that by simp_all
    then show ?thesis by (metis assms(4) div_mult_self3 div_less add_0_right mod_mult_self3 mod_less gr_implies_not_zero add.commute)
  qed
  show ?case
  proof (intro conjI impI)
    show "length (fold (\<lambda>y out. fold (pad_pixel src w h dst_w y) [0..<dst_w] out) [0..<Suc m] out) = length out"
      using p IH(1) Suc.prems by simp
    assume j: "j < 4" "4 * i + j < length out"
    with p IH row Suc.prems show "fold (\<lambda>y out. fold (pad_pixel src w h dst_w y) [0..<dst_w] out) [0..<Suc m] out ! (4 * i + j) =
        (if i < Suc m * dst_w then src ! (4 * source_index w h (i div dst_w) (i mod dst_w) + j) else out ! (4 * i + j))"
      by (auto simp: add.commute)
  qed
qed simp

text \<open>The padded picture repeats the last row and column.\<close>

lemma pad_bgra_nth:
  assumes "length src = unat src_w * unat src_h * 4" and "0 < unat src_w" and "0 < unat src_h"
    and "y < unat dst_h" and "x < unat dst_w" and "j < 4"
  shows "pad_bgra src src_w src_h dst_w dst_h ! (4 * (y * unat dst_w + x) + j) = src ! (4 * source_index (unat src_w) (unat src_h) y x + j)"
proof -
  let ?w = "unat dst_w" and ?h = "unat dst_h" and ?i = "y * unat dst_w + x"
  have "Suc y * ?w \<le> ?h * ?w" using assms(4) by (intro mult_le_mono1) simp
  then have i: "?i < ?h * ?w" using assms(5) by simp
  then have i4: "4 * ?i + j < 4 * (?w * ?h)" using assms(6) by (simp add: mult.commute)
  have div: "?i div ?w = y" "?i mod ?w = x" using assms(5) by simp_all
  show ?thesis
  proof (cases "unat src_w = ?w \<and> unat src_h = ?h")
    case True
    then have "source_index (unat src_w) (unat src_h) y x = ?i" using assms(4,5) by (auto simp: source_index_def min_def)
    with True show ?thesis by (simp add: pad_bgra_def)
  next
    case False
    then show ?thesis
      using pad_rows_nth [OF assms(1-3), of ?w ?h "replicate (?w * ?h * 4) 0" j ?i] assms(5,6) i i4 div
      by (auto simp: pad_bgra_def Let_def mult.commute)
  qed
qed

lemma pad_bgra_length:
  assumes "length src = unat src_w * unat src_h * 4" and "0 < unat src_w" and "0 < unat src_h" and "0 < unat dst_w"
  shows "length (pad_bgra src src_w src_h dst_w dst_h) = unat dst_w * unat dst_h * 4"
  using assms(1) pad_rows_nth [OF assms, of "unat dst_h" "replicate (unat dst_w * unat dst_h * 4) 0" 0 0]
  by (auto simp: pad_bgra_def Let_def mult.commute)

section \<open>The picture\<close>

lemma pad_even_nat: "x < 65535 \<Longrightarrow> unat (pad_even x) = unat x + unat x mod 2"
proof -
  assume "x < 65535"
  then have "unat x < 65535" by (simp add: word_less_nat_alt)
  then have "unat x + unat (x mod 2) < 2 ^ 16" by (simp add: unat_mod)
  then show ?thesis by (simp add: pad_even_def unat_mod unat_word_ariths)
qed

lemma matches_size:
  assumes "we_matches frame enc" and "sf_width frame < 65535" and "sf_height frame < 65535"
  shows "unat (we_width enc) = unat (sf_width frame) + unat (sf_width frame) mod 2"
    and "unat (we_height enc) = unat (sf_height frame) + unat (sf_height frame) mod 2"
proof -
  have "unat (ucast x :: u32) = unat x" for x :: u16
    using unat_less_power [of x] by (simp add: unsigned_ucast_eq take_bit_nat_eq_self)
  then show "unat (we_width enc) = unat (sf_width frame) + unat (sf_width frame) mod 2"
    "unat (we_height enc) = unat (sf_height frame) + unat (sf_height frame) mod 2"
    using assms pad_even_nat by (metis we_matches_def)+
qed

text \<open>A channel of the source pixel that a pixel of the padded picture repeats.\<close>

lemma padded_channels:
  assumes "length src = unat w * unat h * 4" and "0 < unat w" and "0 < unat h" and "row < unat dh" and "col < unat dw"
  shows "red_of (pad_bgra src w h dw dh) (unat dw) row col = red_of src (unat w) (min row (unat h - 1)) (min col (unat w - 1))"
    and "green_of (pad_bgra src w h dw dh) (unat dw) row col = green_of src (unat w) (min row (unat h - 1)) (min col (unat w - 1))"
    and "blue_of (pad_bgra src w h dw dh) (unat dw) row col = blue_of src (unat w) (min row (unat h - 1)) (min col (unat w - 1))"
  using pad_bgra_nth [OF assms, of 0] pad_bgra_nth [OF assms, of 1] pad_bgra_nth [OF assms, of 2]
  by (simp_all add: red_of_def green_of_def blue_of_def source_index_def)

definition picture_of :: "u8 list \<Rightarrow> nat \<Rightarrow> nat \<Rightarrow> nat \<Rightarrow> nat \<Rightarrow> u8 list \<Rightarrow> bool" where
  "picture_of data w h W H nv12 \<longleftrightarrow> length nv12 = W * H + W * (H div 2)
     \<and> (\<forall>row col. row < H \<and> col < W \<longrightarrow>
          (let y = min row (h - 1); x = min col (w - 1) in
           uint (nv12 ! (row * W + col)) = luma_value (red_of data w y x) (green_of data w y x) (blue_of data w y x)))
     \<and> (\<forall>row col. row < H div 2 \<and> col < W div 2 \<longrightarrow>
          (let y = min (2 * row) (h - 1); x = min (2 * col) (w - 1) in
           uint (nv12 ! (W * H + row * W + 2 * col)) = cb_value (red_of data w y x) (green_of data w y x) (blue_of data w y x)
         \<and> uint (nv12 ! (W * H + row * W + 2 * col + 1)) = cr_value (red_of data w y x) (green_of data w y x) (blue_of data w y x)))"

lemma padded_nv12:
  assumes "length data = unat w * unat h * 4" and "0 < unat w" and "0 < unat h"
    and "0 < unat W" and "even (unat W)" and "even (unat H)"
  shows "\<exists>nv12. bgra_to_nv12 (pad_bgra data w h W H) (unat W) (unat H) = Some nv12 \<and> picture_of data (unat w) (unat h) (unat W) (unat H) nv12"
proof -
  let ?p = "pad_bgra data w h W H"
  from nv12_exact [OF assms(5,6) pad_bgra_length [OF assms(1-4)]] obtain out where
    out: "bgra_to_nv12 ?p (unat W) (unat H) = Some out" "length out = unat W * unat H + unat W * (unat H div 2)"
    and y: "\<And>row col. row < unat H \<and> col < unat W \<longrightarrow> uint (out ! (row * unat W + col)) =
      luma_value (red_of ?p (unat W) row col) (green_of ?p (unat W) row col) (blue_of ?p (unat W) row col)"
    and uv: "\<And>row col. row < unat H div 2 \<and> col < unat W div 2 \<longrightarrow>
      uint (out ! (unat W * unat H + row * unat W + 2 * col)) =
        cb_value (red_of ?p (unat W) (2 * row) (2 * col)) (green_of ?p (unat W) (2 * row) (2 * col)) (blue_of ?p (unat W) (2 * row) (2 * col))
    \<and> uint (out ! (unat W * unat H + row * unat W + 2 * col + 1)) =
        cr_value (red_of ?p (unat W) (2 * row) (2 * col)) (green_of ?p (unat W) (2 * row) (2 * col)) (blue_of ?p (unat W) (2 * row) (2 * col))"
    by metis
  note ch = padded_channels [OF assms(1-3)]
  have half: "2 * row < unat H" "2 * col < unat W" if "row < unat H div 2" "col < unat W div 2" for row col
    using that assms(5,6) by auto
  have "picture_of data (unat w) (unat h) (unat W) (unat H) out"
    unfolding picture_of_def Let_def
  proof (intro conjI allI impI)
    fix row col assume "row < unat H \<and> col < unat W"
    then show "uint (out ! (row * unat W + col)) = luma_value (red_of data (unat w) (min row (unat h - 1)) (min col (unat w - 1)))
        (green_of data (unat w) (min row (unat h - 1)) (min col (unat w - 1))) (blue_of data (unat w) (min row (unat h - 1)) (min col (unat w - 1)))"
      using y ch by simp
  next
    fix row col assume rc: "row < unat H div 2 \<and> col < unat W div 2"
    with half have "2 * row < unat H" "2 * col < unat W" by blast+
    note u = uv [of row col, unfolded ch [OF this], THEN mp, OF rc]
    show "uint (out ! (unat W * unat H + row * unat W + 2 * col)) = cb_value (red_of data (unat w) (min (2 * row) (unat h - 1)) (min (2 * col) (unat w - 1)))
        (green_of data (unat w) (min (2 * row) (unat h - 1)) (min (2 * col) (unat w - 1))) (blue_of data (unat w) (min (2 * row) (unat h - 1)) (min (2 * col) (unat w - 1)))"
      by (rule conjunct1 [OF u])
    show "uint (out ! (unat W * unat H + row * unat W + 2 * col + 1)) = cr_value (red_of data (unat w) (min (2 * row) (unat h - 1)) (min (2 * col) (unat w - 1)))
        (green_of data (unat w) (min (2 * row) (unat h - 1)) (min (2 * col) (unat w - 1))) (blue_of data (unat w) (min (2 * row) (unat h - 1)) (min (2 * col) (unat w - 1)))"
      by (rule conjunct2 [OF u])
  qed (rule out(2))
  with out(1) show ?thesis by blast
qed

text \<open>A frame as the capture promises it: at most the coded size of the codec, its pixels tightly packed or absent.\<close>

definition tightly_packed :: "SourceFrame \<Rightarrow> bool" where
  "tightly_packed frame \<longleftrightarrow> sf_width frame < 65535 \<and> sf_height frame < 65535
     \<and> (sf_data frame = [] \<or> length (sf_data frame) = unat (sf_width frame) * unat (sf_height frame) * 4)"

lemma packed_positive:
  "tightly_packed frame \<Longrightarrow> sf_data frame \<noteq> [] \<Longrightarrow> 0 < unat (sf_width frame) \<and> 0 < unat (sf_height frame)"
  by (cases "sf_data frame") (auto simp: tightly_packed_def intro!: Nat.gr0I)

text \<open>
  C37: the encoder sees the window. A frame with pixels, submitted to an encoder of its size, becomes without a
  panic a 4:2:0 picture of the encoder's (even) size whose every luma sample is the luma of the captured pixel
  at its place, the last row and column being repeated where the size was rounded up, and whose every chroma
  pair is that of the top-left pixel of its block; the sample is stamped with the encoder's running clock,
  which advances by one frame exactly if the sample was built.
\<close>

theorem encoder_picture_exact:
  assumes "we_matches frame enc" and "we_input_path enc = Cpu" and "tightly_packed frame" and "sf_data frame \<noteq> []"
  shows "\<exists>nv12 sample.
    build_input_sample mf frame enc = Some (if mf_builds mf sample (we_transform enc)
      then Some (sample, enc\<lparr>we_next_sample_time_hns := we_next_sample_time_hns enc + we_frame_duration_hns enc\<rparr>) else None)
    \<and> sample = \<lparr>sm_pixels = Nv12_bytes nv12, sm_time = we_next_sample_time_hns enc, sm_duration = we_frame_duration_hns enc\<rparr>
    \<and> picture_of (sf_data frame) (unat (sf_width frame)) (unat (sf_height frame)) (unat (we_width enc)) (unat (we_height enc)) nv12
    \<and> unat (we_width enc) - unat (sf_width frame) \<le> 1 \<and> unat (we_height enc) - unat (sf_height frame) \<le> 1"
proof -
  from assms(3,4) have f: "sf_width frame < 65535" "sf_height frame < 65535"
    "length (sf_data frame) = unat (sf_width frame) * unat (sf_height frame) * 4" by (simp_all add: tightly_packed_def)
  note pos = packed_positive [OF assms(3,4)]
  note size = matches_size [OF assms(1) f(1,2)]
  have even: "even (unat (we_width enc))" "even (unat (we_height enc))" unfolding size by presburger+
  from padded_nv12 [OF f(3) conjunct1 [OF pos] conjunct2 [OF pos] _ even] size pos obtain nv12 where
    n: "bgra_to_nv12 (pad_bgra (sf_data frame) (sf_width frame) (sf_height frame) (we_width enc) (we_height enc))
        (unat (we_width enc)) (unat (we_height enc)) = Some nv12"
      "picture_of (sf_data frame) (unat (sf_width frame)) (unat (sf_height frame)) (unat (we_width enc)) (unat (we_height enc)) nv12"
    by auto
  have "unat (we_width enc) - unat (sf_width frame) \<le> 1" "unat (we_height enc) - unat (sf_height frame) \<le> 1" unfolding size by simp_all
  with n show ?thesis by (intro exI [of _ nv12]) (simp add: build_input_sample_def assms(2) Let_def)
qed

text \<open>A platform without a GPU whose transform answers with the same access unit every time.\<close>

definition plain_mf :: "unit mf" where
  "plain_mf = \<lparr>mf_create_unlocked_transform = (\<lambda>_. Some ()), mf_setup_gpu_input = (\<lambda>_ _ _ _ _. None),
     mf_set_media_types = (\<lambda>_ _ _ _. Some ()), mf_start = (\<lambda>_. Some ()), mf_force_keyframe = (\<lambda>_. ()), mf_builds = (\<lambda>_ _. True),
     mf_process_input = (\<lambda>_ _. (True, ())), mf_process_output = (\<lambda>_. (Some [0, 0, 1, 0x67, 66, 0, 0, 1, 0x65, 7], ()))\<rparr>"

definition one_pixel :: SourceFrame where
  "one_pixel = \<lparr>sf_width = 1, sf_height = 1, sf_data = [10, 20, 30, 255], sf_gpu_frame = None\<rparr>"

lemma one_pixel_packed: "tightly_packed one_pixel"
  by (simp add: tightly_packed_def one_pixel_def)

definition small_encoder :: "unit WindowEncoder" where
  "small_encoder = \<lparr>we_transform = (), we_input_path = Cpu, we_width = 2, we_height = 2, we_params = ParamSets_default,
     we_next_sample_time_hns = 0, we_frame_duration_hns = 333333, we_pending = []\<rparr>"

text \<open>A single pixel is repeated over the smallest coded picture.\<close>

theorem encoder_picture_exact_witness:
  "\<exists>nv12 sample enc'. build_input_sample plain_mf one_pixel small_encoder = Some (Some (sample, enc'))
    \<and> sm_pixels sample = Nv12_bytes nv12 \<and> length nv12 = 6 \<and> uint (nv12 ! 3) = 21"
proof -
  have "we_matches one_pixel small_encoder" "we_input_path small_encoder = Cpu" "sf_data one_pixel \<noteq> []"
    by (simp_all add: we_matches_def one_pixel_def small_encoder_def pad_even_def)
  from encoder_picture_exact [OF this(1,2) one_pixel_packed this(3), of plain_mf] obtain nv12 sample where
    s: "build_input_sample plain_mf one_pixel small_encoder = Some (if mf_builds plain_mf sample (we_transform small_encoder)
      then Some (sample, small_encoder\<lparr>we_next_sample_time_hns := we_next_sample_time_hns small_encoder + we_frame_duration_hns small_encoder\<rparr>) else None)"
      "sample = \<lparr>sm_pixels = Nv12_bytes nv12, sm_time = we_next_sample_time_hns small_encoder, sm_duration = we_frame_duration_hns small_encoder\<rparr>"
    and p: "picture_of (sf_data one_pixel) (unat (sf_width one_pixel)) (unat (sf_height one_pixel)) (unat (we_width small_encoder))
        (unat (we_height small_encoder)) nv12"
    by blast
  have "picture_of [10, 20, 30, 255] 1 1 2 2 nv12" using p by (simp add: one_pixel_def small_encoder_def)
  then have "length nv12 = 6" and y: "\<And>row col. row < 2 \<and> col < 2 \<longrightarrow> uint (nv12 ! (row * 2 + col)) =
      luma_value (red_of [10, 20, 30, 255] 1 (min row (1 - 1)) (min col (1 - 1))) (green_of [10, 20, 30, 255] 1 (min row (1 - 1)) (min col (1 - 1)))
        (blue_of [10, 20, 30, 255] 1 (min row (1 - 1)) (min col (1 - 1)))"
    unfolding picture_of_def Let_def by simp_all
  moreover from y [of 1 1] have "uint (nv12 ! 3) = luma_value 30 20 10" by (simp add: red_of_def green_of_def blue_of_def)
  ultimately show ?thesis using s by (simp add: plain_mf_def luma_value_def)
qed

end
