(* ===== verification/Win_Streams.thy ===== *)
theory Win_Streams
  imports Win_Pictures
begin

text \<open>
  The encoders of all windows over a session, for any behaviour of the platform: no panic, samples of the right
  size, and output that is the reframed output of the transform.
\<close>

section \<open>Every encoder in use\<close>

text \<open>Any platform can be watched: its operations unchanged, with the samples taken and the access units produced.\<close>

type_synonym 't watched = "'t \<times> mf_sample list \<times> u8 list list"

definition watching :: "'t mf \<Rightarrow> 't watched mf" where
  "watching mf = \<lparr>
     mf_create_unlocked_transform = (\<lambda>kind. map_option (\<lambda>t. (t, [], [])) (mf_create_unlocked_transform mf kind)),
     mf_setup_gpu_input = (\<lambda>texture w h fps (t, l). map_option (\<lambda>t. (t, l)) (mf_setup_gpu_input mf texture w h fps t)),
     mf_set_media_types = (\<lambda>w h fps (t, l). map_option (\<lambda>t. (t, l)) (mf_set_media_types mf w h fps t)),
     mf_start = (\<lambda>(t, l). map_option (\<lambda>t. (t, l)) (mf_start mf t)),
     mf_force_keyframe = (\<lambda>(t, l). (mf_force_keyframe mf t, l)),
     mf_builds = (\<lambda>sample (t, l). mf_builds mf sample t),
     mf_process_input = (\<lambda>sample (t, taken, out). case mf_process_input mf sample t of (r, t) \<Rightarrow> (r, (t, taken @ [sample], out))),
     mf_process_output = (\<lambda>(t, taken, out). case mf_process_output mf t of
        (None, t) \<Rightarrow> (None, (t, taken, out)) | (Some raw, t) \<Rightarrow> (Some raw, (t, taken, out @ [raw])))\<rparr>"

abbreviation taken :: "'t watched WindowEncoder \<Rightarrow> mf_sample list" where
  "taken enc \<equiv> fst (snd (we_transform enc))"

abbreviation produced :: "'t watched WindowEncoder \<Rightarrow> u8 list list" where
  "produced enc \<equiv> snd (snd (we_transform enc))"

definition well_sized :: "'t WindowEncoder \<Rightarrow> bool" where
  "well_sized enc \<longleftrightarrow> even (unat (we_width enc)) \<and> even (unat (we_height enc)) \<and> 2 \<le> unat (we_width enc) \<and> 2 \<le> unat (we_height enc)
     \<and> unat (we_width enc) < 65536 \<and> unat (we_height enc) < 65536"

text \<open>What a sample for an encoder looks like, and the clock of the samples.\<close>

definition fitting :: "u32 \<Rightarrow> u32 \<Rightarrow> mf_sample \<Rightarrow> bool" where
  "fitting w h s \<longleftrightarrow> (case sm_pixels s of Nv12_bytes b \<Rightarrow> length b = unat w * unat h + unat w * (unat h div 2) | Nv12_texture _ \<Rightarrow> True)"

definition encoder_ok :: "'t watched WindowEncoder \<Rightarrow> bool" where
  "encoder_ok enc \<longleftrightarrow> well_sized enc \<and> list_all (fitting (we_width enc) (we_height enc)) (taken enc)
     \<and> map sm_time (taken enc) = map (\<lambda>k. word_of_nat k * we_frame_duration_hns enc) [0..<length (taken enc)]
     \<and> we_next_sample_time_hns enc = word_of_nat (length (taken enc)) * we_frame_duration_hns enc
     \<and> we_params enc = snd (reframe_all (produced enc) ParamSets_default)"

lemma ucast_u32_nat: "unat (ucast x :: u32) = unat (x :: u16)"
  using unat_less_power [of x] by (simp add: unsigned_ucast_eq take_bit_nat_eq_self)

lemma pad_even_even: "even (unat (pad_even x))"
proof -
  have "unat (pad_even x) = (unat x + unat x mod 2) mod 65536" by (simp add: pad_even_def unat_word_ariths unat_mod)
  moreover have "even ((n + n mod 2) mod 65536)" for n :: nat by (subst dvd_mod_iff) (simp, presburger)
  ultimately show ?thesis by simp
qed

lemma new_ok:
  assumes "WindowEncoder_new (watching mf) kind w h fps gpu = Some enc"
  shows "encoder_ok enc" and "taken enc = []" and "produced enc = []"
    and "we_width enc = max_u32 (ucast (pad_even w)) 2" and "we_height enc = max_u32 (ucast (pad_even h)) 2"
proof -
  have sizes: "even (unat (max_u32 (ucast (pad_even x)) 2)) \<and> 2 \<le> unat (max_u32 (ucast (pad_even x)) 2)
      \<and> unat (max_u32 (ucast (pad_even x)) 2) < 65536" for x
    using pad_even_even [of x] unat_less_power [of "pad_even x"]
    by (auto simp: max_u32_def word_less_nat_alt ucast_u32_nat)
  show "taken enc = []" "produced enc = []" "we_width enc = max_u32 (ucast (pad_even w)) 2" "we_height enc = max_u32 (ucast (pad_even h)) 2"
    using assms
    by (auto simp: WindowEncoder_new_def watching_def Let_def split: option.splits bind_splits prod.splits)
  moreover have "we_next_sample_time_hns enc = 0" "we_params enc = ParamSets_default"
    using assms
    by (auto simp: WindowEncoder_new_def watching_def Let_def split: option.splits bind_splits prod.splits)
  ultimately show "encoder_ok enc" using sizes by (simp add: encoder_ok_def well_sized_def)
qed


lemma watching_simps [simp]:
  "mf_force_keyframe (watching mf) (t, l) = (mf_force_keyframe mf t, l)"
  "mf_process_input (watching mf) sample (t, i, u) = (case mf_process_input mf sample t of (r, t) \<Rightarrow> (r, (t, i @ [sample], u)))"
  "mf_process_output (watching mf) (t, i, u) = (case mf_process_output mf t of
        (None, t) \<Rightarrow> (None, (t, i, u)) | (Some raw, t) \<Rightarrow> (Some raw, (t, i, u @ [raw])))"
  by (simp_all add: watching_def)

text \<open>A sample built for an encoder fits it.\<close>

lemma built_fits:
  assumes "well_sized enc" and "tightly_packed frame" and "\<not> (uses_cpu_input enc \<and> sf_data frame = [])"
  shows "\<exists>r. build_input_sample mf frame enc = Some r \<and> (\<forall>s enc'. r = Some (s, enc') \<longrightarrow>
     fitting (we_width enc) (we_height enc) s \<and> sm_time s = we_next_sample_time_hns enc
   \<and> enc' = enc\<lparr>we_next_sample_time_hns := we_next_sample_time_hns enc + we_frame_duration_hns enc\<rparr>)"
proof (cases "we_input_path enc")
  case Gpu
  then show ?thesis by (auto simp: build_input_sample_def fitting_def Let_def split: option.splits)
next
  case Cpu
  then have d: "sf_data frame \<noteq> []" using assms(3) by (simp add: uses_cpu_input_def)
  from assms(2) d have len: "length (sf_data frame) = unat (sf_width frame) * unat (sf_height frame) * 4" by (simp add: tightly_packed_def)
  note pos = packed_positive [OF assms(2) d]
  from padded_nv12 [OF len conjunct1 [OF pos] conjunct2 [OF pos], of "we_width enc" "we_height enc"] assms(1) obtain nv12 where
    "bgra_to_nv12 (pad_bgra (sf_data frame) (sf_width frame) (sf_height frame) (we_width enc) (we_height enc))
        (unat (we_width enc)) (unat (we_height enc)) = Some nv12"
    "length nv12 = unat (we_width enc) * unat (we_height enc) + unat (we_width enc) * (unat (we_height enc) div 2)"
    by (auto simp: well_sized_def picture_of_def)
  then show ?thesis using Cpu by (auto simp: build_input_sample_def fitting_def Let_def)
qed

lemma submit_ok:
  assumes "encoder_ok enc" and "tightly_packed frame"
  shows "\<exists>enc'. we_submit (watching mf) frame force enc = Some enc' \<and> encoder_ok enc'
    \<and> we_width enc' = we_width enc \<and> we_height enc' = we_height enc"
proof (cases "uses_cpu_input enc \<and> sf_data frame = []")
  case True
  then show ?thesis using assms(1) by (simp add: we_submit_def)
next
  case False
  define enc1 where "enc1 = (if force then enc\<lparr>we_transform := mf_force_keyframe (watching mf) (we_transform enc)\<rparr> else enc)"
  have ok1: "encoder_ok enc1" "we_width enc1 = we_width enc" "we_height enc1 = we_height enc" "we_input_path enc1 = we_input_path enc"
    using assms(1) by (cases "we_transform enc"; auto simp: enc1_def encoder_ok_def well_sized_def)+
  have "\<not> (uses_cpu_input enc1 \<and> sf_data frame = [])" using False ok1 by (simp add: uses_cpu_input_def)
  moreover have "well_sized enc1" using ok1 by (simp add: encoder_ok_def)
  ultimately obtain r where r: "build_input_sample (watching mf) frame enc1 = Some r" "\<forall>s enc'. r = Some (s, enc') \<longrightarrow>
     fitting (we_width enc1) (we_height enc1) s \<and> sm_time s = we_next_sample_time_hns enc1
   \<and> enc' = enc1\<lparr>we_next_sample_time_hns := we_next_sample_time_hns enc1 + we_frame_duration_hns enc1\<rparr>"
    using built_fits [OF _ assms(2)] by blast
  show ?thesis
  proof (cases r)
    case None
    then show ?thesis using False r(1) ok1 by (auto simp: we_submit_def enc1_def [symmetric])
  next
    case (Some p)
    obtain s enc2 where p: "p = (s, enc2)" by fastforce
    obtain t i u where t: "we_transform enc1 = (t, i, u)" by (metis prod_cases3)
    obtain b t' where pr: "mf_process_input mf s t = (b, t')" by fastforce
    let ?enc' = "enc2\<lparr>we_transform := (t', i @ [s], u), we_pending := (if b then we_pending enc2 @ [force] else we_pending enc2)\<rparr>"
    have enc2: "enc2 = enc1\<lparr>we_next_sample_time_hns := we_next_sample_time_hns enc1 + we_frame_duration_hns enc1\<rparr>"
      and s: "fitting (we_width enc1) (we_height enc1) s" "sm_time s = we_next_sample_time_hns enc1"
      using r(2) Some p by blast+
    have "we_submit (watching mf) frame force enc = Some ?enc'"
      using False r(1) Some p t pr by (auto simp: we_submit_def enc1_def [symmetric] enc2)
    moreover have "encoder_ok ?enc'"
      using ok1(1) s t by (simp add: enc2 encoder_ok_def well_sized_def distrib_right)
    ultimately show ?thesis using ok1(2,3) by (simp add: enc2)
  qed
qed

lemma reframe_all_snoc: "snd (reframe_all (raws @ [raw]) c) = snd (reframe raw (snd (reframe_all raws c)))"
  by (simp add: reframe_all_cache refreshed_append reframe_eq)

lemma poll_ok:
  assumes "encoder_ok enc" and "we_poll (watching mf) enc = (r, enc')"
  shows "encoder_ok enc'" and "we_width enc' = we_width enc" and "we_height enc' = we_height enc"
    and "r = Some x \<Longrightarrow> \<exists>raw params. produced enc' = produced enc @ [raw]
       \<and> reframe raw (snd (reframe_all (produced enc) ParamSets_default)) = ((ef_data x, ef_keyframe x), params) \<and> ef_data x \<noteq> []
       \<and> unat (ef_width x) = unat (we_width enc) \<and> unat (ef_height x) = unat (we_height enc)"
proof -
  obtain t i u where t: "we_transform enc = (t, i, u)" by (metis prod_cases3)
  have narrow: "unat (ucast (min v 65535) :: u16) = unat v" if "unat (v :: u32) < 65536" for v
    using that by (simp add: min_def word_le_nat_alt unsigned_ucast_eq take_bit_nat_eq_self)
  have all: "encoder_ok enc' \<and> we_width enc' = we_width enc \<and> we_height enc' = we_height enc \<and> (\<forall>x. r = Some x \<longrightarrow>
     (\<exists>raw params. produced enc' = produced enc @ [raw]
       \<and> reframe raw (snd (reframe_all (produced enc) ParamSets_default)) = ((ef_data x, ef_keyframe x), params) \<and> ef_data x \<noteq> []
       \<and> unat (ef_width x) = unat (we_width enc) \<and> unat (ef_height x) = unat (we_height enc)))"
  proof (cases "mf_process_output mf t")
    case (Pair res t')
    show ?thesis
    proof (cases res)
      case None
      then show ?thesis using assms Pair t by (auto simp: we_poll_def encoder_ok_def well_sized_def)
    next
      case (Some raw)
      obtain data idr params where f: "reframe raw (we_params enc) = ((data, idr), params)" by (metis prod.exhaust)
      have p: "we_params enc = snd (reframe_all u ParamSets_default)" using assms(1) t by (simp add: encoder_ok_def)
      have "params = snd (reframe_all (u @ [raw]) ParamSets_default)" using f p by (simp add: reframe_all_snoc)
      then show ?thesis
        using assms Pair Some t f p
        by (auto simp: we_poll_def Let_def encoder_ok_def well_sized_def narrow split: if_splits)
    qed
  qed
  show "encoder_ok enc'" "we_width enc' = we_width enc" "we_height enc' = we_height enc" using all by blast+
  show "r = Some x \<Longrightarrow> \<exists>raw params. produced enc' = produced enc @ [raw]
       \<and> reframe raw (snd (reframe_all (produced enc) ParamSets_default)) = ((ef_data x, ef_keyframe x), params) \<and> ef_data x \<noteq> []
       \<and> unat (ef_width x) = unat (we_width enc) \<and> unat (ef_height x) = unat (we_height enc)"
    using all by blast
qed

datatype win_op = Submit_frame handle SourceFrame bool | Poll_frame handle | Forget_handle handle

fun enc_run :: "'t mf \<Rightarrow> win_op list \<Rightarrow> 't WinFrameEncoder \<Rightarrow> 't WinFrameEncoder option" where
  "enc_run mf [] fe = Some fe"
| "enc_run mf (Submit_frame h frame force # ops) fe = (case wf_submit mf h frame force fe of None \<Rightarrow> None | Some fe1 \<Rightarrow> enc_run mf ops fe1)"
| "enc_run mf (Poll_frame h # ops) fe = enc_run mf ops (snd (wf_poll mf h fe))"
| "enc_run mf (Forget_handle h # ops) fe = enc_run mf ops (wf_forget h fe)"

fun honest_op :: "win_op \<Rightarrow> bool" where
  "honest_op (Submit_frame h frame force) = tightly_packed frame"
| "honest_op _ = True"

definition encoders_ok :: "'t watched WinFrameEncoder \<Rightarrow> bool" where
  "encoders_ok fe \<longleftrightarrow> (\<forall>h enc. map_of (wf_encoders fe) h = Some enc \<longrightarrow> encoder_ok enc \<and> \<not> wf_is_failed h fe)"

text \<open>The encoder a window has, or has been given up on, after a frame of it.\<close>

definition settled :: "handle \<Rightarrow> SourceFrame \<Rightarrow> 't WinFrameEncoder \<Rightarrow> bool" where
  "settled h frame fe \<longleftrightarrow>
    (if wf_is_failed h fe then map_of (wf_encoders fe) h = None
     else \<exists>enc. map_of (wf_encoders fe) h = Some enc \<and> (0 < pad_even (sf_width frame) \<and> 0 < pad_even (sf_height frame) \<longrightarrow> we_matches frame enc))"

lemma submit_to_ok:
  assumes "encoders_ok fe" and "map_of (wf_encoders fe) h = Some enc" and "tightly_packed frame"
  shows "\<exists>fe' enc'. wf_submit_to (watching mf) h frame force fe = Some fe' \<and> encoders_ok fe' \<and> wf_failed fe' = wf_failed fe
    \<and> map_of (wf_encoders fe') h = Some enc' \<and> we_width enc' = we_width enc \<and> we_height enc' = we_height enc"
proof -
  from assms(1,2) have "encoder_ok enc" by (simp add: encoders_ok_def)
  from submit_ok [OF this assms(3)] obtain enc' where "we_submit (watching mf) frame force enc = Some enc'" "encoder_ok enc'"
    "we_width enc' = we_width enc" "we_height enc' = we_height enc" by blast
  with assms(1,2) show ?thesis
    by (auto simp: wf_submit_to_def encoders_ok_def AList.update_conv' wf_is_failed_def)
qed

lemma even_positive: "0 < pad_even x \<Longrightarrow> max_u32 (ucast (pad_even x)) 2 = (ucast (pad_even x) :: u32)"
proof -
  assume "0 < pad_even x"
  then have "unat (pad_even x) \<noteq> 0" by (simp add: word_neq_0_conv [symmetric] unat_eq_0)
  with pad_even_even [of x] have "2 \<le> unat (pad_even x)" by presburger
  then show ?thesis by (simp add: max_u32_def word_less_nat_alt ucast_u32_nat)
qed

lemma wf_submit_ok:
  assumes "encoders_ok fe" and "tightly_packed frame"
  shows "\<exists>fe'. wf_submit (watching mf) h frame force fe = Some fe' \<and> encoders_ok fe' \<and> settled h frame fe'"
proof (cases "map_of (wf_failed fe) h = Some (sf_width frame, sf_height frame)")
  case True
  then have "wf_is_failed h fe" by (simp add: wf_is_failed_def)
  moreover from this assms(1) have "map_of (wf_encoders fe) h = None" by (cases "map_of (wf_encoders fe) h") (auto simp: encoders_ok_def)
  ultimately show ?thesis using True assms(1) by (simp add: wf_submit_def settled_def)
next
  case not_failed: False
  show ?thesis
  proof (cases "\<exists>enc. map_of (wf_encoders fe) h = Some enc \<and> we_matches frame enc")
    case True
    then obtain enc where enc: "map_of (wf_encoders fe) h = Some enc" "we_matches frame enc" by blast
    from submit_to_ok [OF assms(1) enc(1) assms(2)] obtain fe' enc' where
      fe': "wf_submit_to (watching mf) h frame force fe = Some fe'" "encoders_ok fe'"
      "map_of (wf_encoders fe') h = Some enc'" "we_width enc' = we_width enc" "we_height enc' = we_height enc" by blast
    then have "settled h frame fe'" using enc(2) by (auto simp: settled_def encoders_ok_def we_matches_def)
    with fe' enc not_failed show ?thesis by (simp add: wf_submit_def)
  next
    case rebuild: False
    let ?new = "WindowEncoder_new (watching mf) (wf_kind fe) (sf_width frame) (sf_height frame) (wf_target_fps fe) (sf_gpu_frame frame)"
    have step: "wf_submit (watching mf) h frame force fe = (case ?new of
             Some enc \<Rightarrow>
               (let wf1 = fe\<lparr>wf_encoders := AList.update h enc (wf_encoders fe), wf_failed := AList.delete h (wf_failed fe)\<rparr> in
                if uses_cpu_input enc \<and> sf_data frame = [] then Some wf1 else wf_submit_to (watching mf) h frame True wf1)
           | None \<Rightarrow>
               Some (fe\<lparr>wf_encoders := AList.delete h (wf_encoders fe),
                 wf_failed := AList.update h (sf_width frame, sf_height frame) (wf_failed fe)\<rparr>))"
      using not_failed rebuild by (auto simp: wf_submit_def Let_def split: option.splits)
    show ?thesis
    proof (cases ?new)
      case None
      then show ?thesis
        using step assms(1) by (auto simp: encoders_ok_def settled_def wf_is_failed_def AList.update_conv' AList.delete_conv')
    next
      case (Some enc)
      let ?fe = "fe\<lparr>wf_encoders := AList.update h enc (wf_encoders fe), wf_failed := AList.delete h (wf_failed fe)\<rparr>"
      have ok: "encoders_ok ?fe" "map_of (wf_encoders ?fe) h = Some enc"
        using new_ok(1) [OF Some] assms(1)
        by (auto simp: encoders_ok_def wf_is_failed_def AList.update_conv' AList.delete_conv')
      have sized: "settled h frame fe'" if "encoders_ok fe'" "map_of (wf_encoders fe') h = Some enc'" "we_width enc' = we_width enc"
          "we_height enc' = we_height enc" for fe' :: "'a watched WinFrameEncoder" and enc'
        using that new_ok(4,5) [OF Some] even_positive by (auto simp: settled_def encoders_ok_def we_matches_def)
      show ?thesis
      proof (cases "uses_cpu_input enc \<and> sf_data frame = []")
        case True
        then show ?thesis using step Some ok sized [OF ok] by simp
      next
        case False
        from submit_to_ok [OF ok assms(2)] obtain fe' enc' where
          fe': "wf_submit_to (watching mf) h frame True ?fe = Some fe'" "encoders_ok fe'"
          "map_of (wf_encoders fe') h = Some enc'" "we_width enc' = we_width enc" "we_height enc' = we_height enc" by blast
        with step Some False sized [OF fe'(2-5)] show ?thesis by auto
      qed
    qed
  qed
qed

lemma wf_poll_ok: "encoders_ok fe \<Longrightarrow> encoders_ok (snd (wf_poll (watching mf) h fe))"
  by (auto simp: wf_poll_def encoders_ok_def AList.update_conv' wf_is_failed_def split: option.splits prod.splits dest: poll_ok(1))

lemma wf_forget_ok: "encoders_ok fe \<Longrightarrow> encoders_ok (wf_forget h fe)"
  by (auto simp: wf_forget_def encoders_ok_def AList.delete_conv' wf_is_failed_def split: if_splits)

lemma enc_run_ok:
  "encoders_ok fe \<Longrightarrow> list_all honest_op ops \<Longrightarrow> \<exists>fe'. enc_run (watching mf) ops fe = Some fe' \<and> encoders_ok fe'"
proof (induction ops arbitrary: fe)
  case (Cons op ops)
  show ?case
  proof (cases op)
    case (Submit_frame h frame force)
    with Cons.prems(2) have "tightly_packed frame" by simp
    from wf_submit_ok [OF Cons.prems(1) this] obtain fe1 where "wf_submit (watching mf) h frame force fe = Some fe1" "encoders_ok fe1" by blast
    with Cons.IH [of fe1] Cons.prems(2) Submit_frame show ?thesis by simp
  next
    case (Poll_frame h)
    then show ?thesis using Cons.IH [OF wf_poll_ok [OF Cons.prems(1), of mf h]] Cons.prems(2) by simp
  next
    case (Forget_handle h)
    then show ?thesis using Cons.IH [OF wf_forget_ok [OF Cons.prems(1), of h]] Cons.prems(2) by simp
  qed
qed simp

lemma encoders_ok_new: "encoders_ok (WinFrameEncoder_new kind fps)"
  by (simp add: encoders_ok_def WinFrameEncoder_new_def)


text \<open>
  C36: what leaves the Windows encoder can be decoded. An access unit polled for a window is the next one its
  transform produced, reframed: its units are the protocol's layout of the transform's, a keyframe carries the
  newest parameter sets the transform has produced since the encoder was built, it is flagged as a keyframe
  exactly if it has an IDR slice, it is not empty, and the size reported with it is the (even) size the
  encoder was configured for.
\<close>

theorem win_frames_reframed:
  assumes "list_all honest_op ops" and "enc_run (watching mf) ops (WinFrameEncoder_new kind fps) = Some fe"
    and "wf_poll (watching mf) h fe = (Some x, fe')"
  shows "\<exists>enc enc' raw. map_of (wf_encoders fe) h = Some enc \<and> map_of (wf_encoders fe') h = Some enc' \<and> produced enc' = produced enc @ [raw]
    \<and> units (ef_data x) = reframed (units raw) (refreshed (concat (map units (produced enc))) ParamSets_default)
    \<and> (ef_keyframe x \<longleftrightarrow> of_kind NAL_SLICE_IDR (units (ef_data x)) \<noteq> []) \<and> ef_data x \<noteq> []
    \<and> unat (ef_width x) = unat (we_width enc) \<and> unat (ef_height x) = unat (we_height enc) \<and> even (unat (ef_width x)) \<and> even (unat (ef_height x))"
proof -
  have ok: "encoders_ok fe" using enc_run_ok [OF encoders_ok_new assms(1), of mf kind fps] assms(2) by simp
  from assms(3) obtain enc enc' where enc: "map_of (wf_encoders fe) h = Some enc" "we_poll (watching mf) enc = (Some x, enc')"
    "fe' = fe\<lparr>wf_encoders := AList.update h enc' (wf_encoders fe)\<rparr>"
    by (auto simp: wf_poll_def split: option.splits prod.splits)
  with ok have e: "encoder_ok enc" by (simp add: encoders_ok_def)
  from poll_ok(4) [OF e enc(2) refl] obtain raw params where r: "produced enc' = produced enc @ [raw]"
    "reframe raw (snd (reframe_all (produced enc) ParamSets_default)) = ((ef_data x, ef_keyframe x), params)" "ef_data x \<noteq> []"
    "unat (ef_width x) = unat (we_width enc)" "unat (ef_height x) = unat (we_height enc)" by blast
  note out = reframe_output [OF r(2)]
  have "of_kind NAL_SLICE_IDR (units (ef_data x)) = of_kind NAL_SLICE_IDR (units raw)"
    unfolding out(4) by (rule out(5)) (simp_all add: NAL_SLICE_IDR_def NAL_SPS_def NAL_PPS_def)
  then have "ef_keyframe x \<longleftrightarrow> of_kind NAL_SLICE_IDR (units (ef_data x)) \<noteq> []" using out(1) by simp
  with enc(1,3) r out(4) e show ?thesis
    by (intro exI [of _ enc] exI [of _ enc'] exI [of _ raw]) (simp add: AList.update_conv' encoder_ok_def well_sized_def)
qed

lemma one_pixel_run:
  "\<exists>fe enc. enc_run (watching plain_mf) [Submit_frame 7 one_pixel False] (WinFrameEncoder_new Software 30) = Some fe
    \<and> wf_encoders fe = [(7, enc)] \<and> we_width enc = 2 \<and> we_height enc = 2 \<and> length (taken enc) = 1 \<and> we_params enc = ParamSets_default"
proof -
  from padded_nv12 [of "[10, 20, 30, 255]" 1 1 2 2] obtain nv12 where "bgra_to_nv12 (pad_bgra [10, 20, 30, 255] 1 1 2 2) 2 2 = Some nv12" by auto
  then show ?thesis
    by (simp add: WinFrameEncoder_new_def wf_submit_def WindowEncoder_new_def watching_def plain_mf_def one_pixel_def pad_even_def max_u32_def
        Let_def uses_cpu_input_def wf_submit_to_def we_submit_def build_input_sample_def)
qed


theorem win_frames_reframed_witness:
  "\<exists>fe x fe'. enc_run (watching plain_mf) [Submit_frame 7 one_pixel False] (WinFrameEncoder_new Software 30) = Some fe
    \<and> wf_poll (watching plain_mf) 7 fe = (Some x, fe') \<and> ef_keyframe x \<and> of_kind NAL_SLICE_IDR (units (ef_data x)) \<noteq> [] \<and> even (unat (ef_width x))"
proof -
  have ops: "list_all honest_op [Submit_frame 7 one_pixel False]" by (simp add: one_pixel_packed)
  from one_pixel_run obtain fe enc where fe: "enc_run (watching plain_mf) [Submit_frame 7 one_pixel False] (WinFrameEncoder_new Software 30) = Some fe"
    "wf_encoders fe = [(7, enc)]" "we_params enc = ParamSets_default" by blast
  have "fst (reframe [0, 0, 1, 0x67, 66, 0, 0, 1, 0x65, 7] ParamSets_default) = ([0, 0, 0, 1, 0x67, 66, 0, 0, 0, 1, 0x65, 7], True)" by code_simp
  then obtain params where "reframe [0, 0, 1, 0x67, 66, 0, 0, 1, 0x65, 7] ParamSets_default = (([0, 0, 0, 1, 0x67, 66, 0, 0, 0, 1, 0x65, 7], True), params)"
    by (metis prod.collapse)
  with fe(2,3) obtain x fe' where p: "wf_poll (watching plain_mf) 7 fe = (Some x, fe')" "ef_keyframe x"
    by (cases "we_transform enc") (simp add: wf_poll_def we_poll_def watching_def plain_mf_def Let_def)
  from win_frames_reframed [OF ops fe(1) p(1)] fe(1) p show ?thesis by auto
qed

text \<open>
  An encoder rebuilt by a frame without pixels takes its first picture with the next frame, which is not forced
  to be a keyframe unless the caller asks for it.
\<close>

theorem deferred_first_frame_unforced:
  "\<exists>fe enc. enc_run plain_mf [Submit_frame 7 (one_pixel\<lparr>sf_data := [], sf_gpu_frame := Some 1\<rparr>) True, Submit_frame 7 one_pixel False]
      (WinFrameEncoder_new Software 30) = Some fe \<and> wf_encoders fe = [(7, enc)] \<and> we_pending enc = [False]"
proof -
  from padded_nv12 [of "[10, 20, 30, 255]" 1 1 2 2] obtain nv12 where "bgra_to_nv12 (pad_bgra [10, 20, 30, 255] 1 1 2 2) 2 2 = Some nv12" by auto
  then show ?thesis
    by (simp add: WinFrameEncoder_new_def wf_submit_def WindowEncoder_new_def plain_mf_def one_pixel_def pad_even_def max_u32_def
        Let_def uses_cpu_input_def wf_submit_to_def we_submit_def build_input_sample_def we_matches_def)
qed

end
