(* ===== verification/Win_Input.thy ===== *)
theory Win_Input
  imports Agent_Session Scancode Rdp_Info Geometry
begin

text \<open>
  Input injection on Windows (\<open>oxagent/src/win/input.rs\<close>): the sink the session driver hands its calls to.
  The desktop is an argument: a record of the Windows calls the sink makes, on a state of its own. A word of
  flags is the list of the flags that are or-ed into it. The log lines are left out.
\<close>

section \<open>The desktop\<close>

datatype mouse_flag =
    M_MOVE | M_ABSOLUTE | M_VIRTUALDESK | M_LEFTDOWN | M_LEFTUP | M_RIGHTDOWN | M_RIGHTUP | M_MIDDLEDOWN | M_MIDDLEUP
  | M_XDOWN | M_XUP | M_WHEEL | M_HWHEEL

datatype key_flag = K_SCANCODE | K_EXTENDEDKEY | K_KEYUP | K_UNICODE

datatype mouse_data = No_data | XBUTTON1 | XBUTTON2 | Wheel_delta u32

datatype INPUT = Mouse_INPUT i32 i32 mouse_data "mouse_flag list" | Key_INPUT u16 "key_flag list"

datatype virtual_key =
    VK_LSHIFT | VK_RSHIFT | VK_LCONTROL | VK_RCONTROL | VK_LMENU | VK_RMENU | VK_LWIN | VK_RWIN | VK_CAPITAL | VK_NUMLOCK | VK_SCROLL

datatype show_command = SW_MINIMIZE | SW_MAXIMIZE | SW_RESTORE

datatype pos_flag = SWP_NOSIZE | SWP_NOMOVE | SWP_NOZORDER | SWP_NOACTIVATE

record 'd desktop =
  dk_frame_bounds :: "handle \<Rightarrow> 'd \<Rightarrow> (i32 \<times> i32) option"
  dk_foreground :: "'d \<Rightarrow> handle"
  dk_set_foreground :: "handle \<Rightarrow> 'd \<Rightarrow> 'd"
  dk_bring_to_top :: "handle \<Rightarrow> 'd \<Rightarrow> 'd"
  dk_window_thread :: "handle \<Rightarrow> 'd \<Rightarrow> u32"
  dk_current_thread :: "'d \<Rightarrow> u32"
  dk_attach_input :: "u32 \<Rightarrow> u32 \<Rightarrow> bool \<Rightarrow> 'd \<Rightarrow> bool \<times> 'd"
  dk_virtual_screen :: "'d \<Rightarrow> i32 \<times> i32 \<times> i32 \<times> i32"
  dk_key_down :: "virtual_key \<Rightarrow> 'd \<Rightarrow> bool"
  dk_toggled :: "virtual_key \<Rightarrow> 'd \<Rightarrow> bool"
  dk_send_input :: "INPUT list \<Rightarrow> 'd \<Rightarrow> 'd"
  dk_post_close :: "handle \<Rightarrow> 'd \<Rightarrow> 'd"
  dk_show_window :: "handle \<Rightarrow> show_command \<Rightarrow> 'd \<Rightarrow> 'd"
  dk_set_window_pos :: "handle \<Rightarrow> i32 \<Rightarrow> i32 \<Rightarrow> i32 \<Rightarrow> i32 \<Rightarrow> pos_flag list \<Rightarrow> 'd \<Rightarrow> 'd"

section \<open>Building inputs\<close>

definition down_up :: "bool \<Rightarrow> mouse_flag \<Rightarrow> mouse_flag \<Rightarrow> mouse_flag" where
  "down_up held down up = (if held then down else up)"

definition mouse_input :: "i32 \<Rightarrow> i32 \<Rightarrow> mouse_data \<Rightarrow> mouse_flag list \<Rightarrow> INPUT" where
  "mouse_input dx dy mouse_data flags = Mouse_INPUT dx dy mouse_data flags"

definition scan_input :: "u16 \<Rightarrow> bool \<Rightarrow> bool \<Rightarrow> INPUT" where
  "scan_input code ext pressed =
    Key_INPUT code ([K_SCANCODE] @ (if ext then [K_EXTENDEDKEY] else []) @ (if pressed then [] else [K_KEYUP]))"

definition unicode_input :: "u16 \<Rightarrow> bool \<Rightarrow> INPUT" where
  "unicode_input utf16_unit key_up = Key_INPUT utf16_unit ([K_UNICODE] @ (if key_up then [K_KEYUP] else []))"

definition send_inputs :: "'d desktop \<Rightarrow> INPUT list \<Rightarrow> 'd \<Rightarrow> 'd" where
  "send_inputs dk inputs d = (if inputs = [] then d else dk_send_input dk inputs d)"

definition inject_key :: "'d desktop \<Rightarrow> Key \<Rightarrow> bool \<Rightarrow> 'd \<Rightarrow> 'd" where
  "inject_key dk key pressed d =
    (let sc = scancode key in send_inputs dk [scan_input (sc_code sc) (sc_extended sc) pressed] d)"

text \<open>\<open>i32::clamp\<close>; the quotient is rounded towards zero, and its operands are not negative.\<close>

definition normalize_coord :: "i32 \<Rightarrow> i32 \<Rightarrow> i32 \<Rightarrow> i32" where
  "normalize_coord val origin extent =
    (if extent \<le>s 1 then 0
     else let final = i32_saturating_add origin (extent - 1);
              clamped = (if val <s origin then origin else if final <s val then final else val)
          in word_of_int (sint (clamped - origin) * 65535 div sint (extent - 1)))"

section \<open>The sink\<close>

record WinInputSink =
  wi_last_focused :: "handle option"
  wi_last_buttons :: u8

definition WinInputSink_new :: WinInputSink where
  "WinInputSink_new = \<lparr>wi_last_focused = None, wi_last_buttons = 0\<rparr>"

definition force_foreground :: "'d desktop \<Rightarrow> handle \<Rightarrow> 'd \<Rightarrow> bool \<times> 'd" where
  "force_foreground dk hwnd d =
    (if dk_foreground dk d = hwnd then (True, d)
     else let d1 = dk_set_foreground dk hwnd d; current = dk_foreground dk d1 in
       if current \<noteq> hwnd then
         (let fg_thread = dk_window_thread dk current d1; this_thread = dk_current_thread dk d1;
              d2 = (if fg_thread \<noteq> 0 \<and> fg_thread \<noteq> this_thread then
                      (case dk_attach_input dk this_thread fg_thread True d1 of (attached, d') \<Rightarrow>
                         if attached
                         then snd (dk_attach_input dk this_thread fg_thread False (dk_set_foreground dk hwnd (dk_bring_to_top dk hwnd d')))
                         else d')
                    else d1)
          in (dk_foreground dk d2 = hwnd, d2))
       else (True, d1))"

definition focus_on_change :: "'d desktop \<Rightarrow> handle \<Rightarrow> WinInputSink \<Rightarrow> 'd \<Rightarrow> bool \<times> WinInputSink \<times> 'd" where
  "focus_on_change dk h s d =
    (if wi_last_focused s = Some h then (True, s, d)
     else case force_foreground dk h d of (confirmed, d1) \<Rightarrow>
       (confirmed, if confirmed then s\<lparr>wi_last_focused := Some h\<rparr> else s, d1))"

text \<open>The inputs of a pointer event, from the held buttons (after the gate) and the ones held before.\<close>

definition button_flags :: "u8 \<Rightarrow> u8 \<Rightarrow> u8 \<Rightarrow> mouse_flag \<Rightarrow> mouse_flag \<Rightarrow> mouse_flag list" where
  "button_flags buttons changed button down up = (if changed AND button \<noteq> 0 then [down_up (buttons AND button \<noteq> 0) down up] else [])"

definition pointer_inputs :: "i32 \<Rightarrow> i32 \<Rightarrow> u8 \<Rightarrow> u8 \<Rightarrow> i16 \<Rightarrow> i16 \<Rightarrow> INPUT list" where
  "pointer_inputs norm_x norm_y buttons last_buttons wheel_x wheel_y =
    (let changed = buttons XOR last_buttons;
         flags = [M_MOVE, M_ABSOLUTE, M_VIRTUALDESK] @
           button_flags buttons changed BUTTON_LEFT M_LEFTDOWN M_LEFTUP @
           button_flags buttons changed BUTTON_RIGHT M_RIGHTDOWN M_RIGHTUP @
           button_flags buttons changed BUTTON_MIDDLE M_MIDDLEDOWN M_MIDDLEUP
     in [mouse_input norm_x norm_y No_data flags] @
       map (\<lambda>f. mouse_input 0 0 XBUTTON1 [f]) (button_flags buttons changed BUTTON_X1 M_XDOWN M_XUP) @
       map (\<lambda>f. mouse_input 0 0 XBUTTON2 [f]) (button_flags buttons changed BUTTON_X2 M_XDOWN M_XUP) @
       (if wheel_y \<noteq> 0 then [mouse_input 0 0 (Wheel_delta (scast wheel_y)) [M_WHEEL]] else []) @
       (if wheel_x \<noteq> 0 then [mouse_input 0 0 (Wheel_delta (scast wheel_x)) [M_HWHEEL]] else []))"

definition win_pointer_event :: "'d desktop \<Rightarrow> handle \<Rightarrow> i32 \<Rightarrow> i32 \<Rightarrow> u8 \<Rightarrow> i16 \<Rightarrow> i16 \<Rightarrow> WinInputSink \<Rightarrow> 'd \<Rightarrow> WinInputSink \<times> 'd" where
  "win_pointer_event dk h x y buttons wheel_x wheel_y s d =
    (case dk_frame_bounds dk h d of
       None \<Rightarrow> (s, d)
     | Some (rect_left, rect_top) \<Rightarrow>
         (let newly_pressed = buttons AND NOT (wi_last_buttons s) in
          case (if newly_pressed \<noteq> 0 then focus_on_change dk h s d else (True, s, d)) of (focus_confirmed, s1, d1) \<Rightarrow>
            (let held = gate_unconfirmed_press buttons (wi_last_buttons s1) focus_confirmed;
                 abs_x = i32_saturating_add rect_left x; abs_y = i32_saturating_add rect_top y in
             case dk_virtual_screen dk d1 of (vx, vy, vw, vh) \<Rightarrow>
               (s1\<lparr>wi_last_buttons := held\<rparr>,
                send_inputs dk (pointer_inputs (normalize_coord abs_x vx vw) (normalize_coord abs_y vy vh) held (wi_last_buttons s1) wheel_x wheel_y) d1))))"

definition win_key_event :: "'d desktop \<Rightarrow> u16 \<Rightarrow> bool \<Rightarrow> bool \<Rightarrow> 'd \<Rightarrow> 'd" where
  "win_key_event dk code ext pressed d = send_inputs dk [scan_input code ext pressed] d"

definition win_text_input :: "'d desktop \<Rightarrow> rust_string \<Rightarrow> 'd \<Rightarrow> 'd" where
  "win_text_input dk text d =
     send_inputs dk (concat (map (\<lambda>unit. [unicode_input unit False, unicode_input unit True]) (encode_utf16 text))) d"

definition sync_held :: "'d desktop \<Rightarrow> bool \<Rightarrow> Key \<Rightarrow> Key \<Rightarrow> virtual_key \<Rightarrow> virtual_key \<Rightarrow> 'd \<Rightarrow> 'd" where
  "sync_held dk want_down left right vk_left vk_right d =
    (if want_down then
       (if \<not> dk_key_down dk vk_left d \<and> \<not> dk_key_down dk vk_right d then inject_key dk left True d else d)
     else inject_key dk right False (inject_key dk left False d))"

definition sync_lock :: "'d desktop \<Rightarrow> bool \<Rightarrow> Key \<Rightarrow> virtual_key \<Rightarrow> 'd \<Rightarrow> 'd" where
  "sync_lock dk want_on key vk d =
    (if dk_toggled dk vk d \<noteq> want_on then inject_key dk key False (inject_key dk key True d) else d)"

definition LOCK_CAPS :: u8 where "LOCK_CAPS = push_bit 0 1"
definition LOCK_NUM :: u8 where "LOCK_NUM = push_bit 1 1"
definition LOCK_SCROLL :: u8 where "LOCK_SCROLL = push_bit 2 1"

definition win_modifier_sync :: "'d desktop \<Rightarrow> u16 \<Rightarrow> u8 \<Rightarrow> 'd \<Rightarrow> 'd" where
  "win_modifier_sync dk mods lcks d =
    (let d = sync_held dk (mods AND MOD_SHIFT \<noteq> 0) (Modifier K_LeftShift) (Modifier K_RightShift) VK_LSHIFT VK_RSHIFT d;
         d = sync_held dk (mods AND MOD_CTRL \<noteq> 0) (Modifier K_LeftControl) (Extended K_RightControl) VK_LCONTROL VK_RCONTROL d;
         d = sync_held dk (mods AND MOD_ALT \<noteq> 0) (Modifier K_LeftAlt) (Extended K_RightAlt) VK_LMENU VK_RMENU d;
         d = sync_held dk (mods AND MOD_META \<noteq> 0) (Extended K_LeftMeta) (Extended K_RightMeta) VK_LWIN VK_RWIN d;
         d = sync_lock dk (lcks AND LOCK_CAPS \<noteq> 0) (Punctuation K_CapsLock) VK_CAPITAL d;
         d = sync_lock dk (lcks AND LOCK_NUM \<noteq> 0) (Lock K_NumLock) VK_NUMLOCK d
     in sync_lock dk (lcks AND LOCK_SCROLL \<noteq> 0) (Lock K_ScrollLock) VK_SCROLL d)"

text \<open>The action codes of \<open>window_action\<close>, as in the client.\<close>

definition win_window_control :: "'d desktop \<Rightarrow> handle \<Rightarrow> u8 \<Rightarrow> i32 \<Rightarrow> i32 \<Rightarrow> u16 \<Rightarrow> u16 \<Rightarrow> WinInputSink \<Rightarrow> 'd \<Rightarrow> WinInputSink \<times> 'd" where
  "win_window_control dk h action x y width height s d =
    (if action = 1 then (s, dk_post_close dk h d)
     else if action = 2 then
       (case force_foreground dk h d of (confirmed, d1) \<Rightarrow> (if confirmed then s\<lparr>wi_last_focused := Some h\<rparr> else s, d1))
     else if action = 3 then (s, dk_show_window dk h SW_MINIMIZE d)
     else if action = 4 then (s, dk_show_window dk h SW_MAXIMIZE d)
     else if action = 5 then (s, dk_show_window dk h SW_RESTORE d)
     else if action = 6 then (s, dk_set_window_pos dk h x y 0 0 [SWP_NOSIZE, SWP_NOZORDER, SWP_NOACTIVATE] d)
     else if action = 7 then (s, dk_set_window_pos dk h 0 0 (ucast width) (ucast height) [SWP_NOMOVE, SWP_NOZORDER, SWP_NOACTIVATE] d)
     else (s, d))"

fun win_sink :: "'d desktop \<Rightarrow> SinkCall \<Rightarrow> WinInputSink \<times> 'd \<Rightarrow> WinInputSink \<times> 'd" where
  "win_sink dk (Pointer_event h x y buttons wheel_x wheel_y) (s, d) = win_pointer_event dk h x y buttons wheel_x wheel_y s d"
| "win_sink dk (Key_event code ext pressed) (s, d) = (s, win_key_event dk code ext pressed d)"
| "win_sink dk (Text_input text) (s, d) = (s, win_text_input dk text d)"
| "win_sink dk (Modifier_sync mods lcks) (s, d) = (s, win_modifier_sync dk mods lcks d)"
| "win_sink dk (Window_control h action x y width height) (s, d) = win_window_control dk h action x y width height s d"

end
