(* ===== verification/Win_Injection.thy ===== *)
theory Win_Injection
  imports Win_Input
begin

text \<open>
  What the Windows input sink does to the guest: the buttons the guest sees pressed, the window a click is
  meant for, the modifier and lock keys after a synchronisation, and the coordinates of the pointer.
\<close>

section \<open>Buttons\<close>

text \<open>
  The buttons the guest sees held, from the inputs injected; \<open>None\<close> if a button is pressed that is
  already held or released that is not.
\<close>

definition press :: "u8 \<Rightarrow> u8 \<Rightarrow> u8 option" where
  "press b h = (if h AND b \<noteq> 0 then None else Some (h OR b))"

definition release :: "u8 \<Rightarrow> u8 \<Rightarrow> u8 option" where
  "release b h = (if h AND b \<noteq> 0 then Some (h AND NOT b) else None)"

definition x_button :: "mouse_data \<Rightarrow> u8" where
  "x_button m = (case m of XBUTTON1 \<Rightarrow> BUTTON_X1 | XBUTTON2 \<Rightarrow> BUTTON_X2 | _ \<Rightarrow> 0)"

fun flag_step :: "mouse_data \<Rightarrow> mouse_flag \<Rightarrow> u8 \<Rightarrow> u8 option" where
  "flag_step m M_LEFTDOWN h = press BUTTON_LEFT h"
| "flag_step m M_LEFTUP h = release BUTTON_LEFT h"
| "flag_step m M_RIGHTDOWN h = press BUTTON_RIGHT h"
| "flag_step m M_RIGHTUP h = release BUTTON_RIGHT h"
| "flag_step m M_MIDDLEDOWN h = press BUTTON_MIDDLE h"
| "flag_step m M_MIDDLEUP h = release BUTTON_MIDDLE h"
| "flag_step m M_XDOWN h = press (x_button m) h"
| "flag_step m M_XUP h = release (x_button m) h"
| "flag_step m _ h = Some h"

fun flags_run :: "mouse_data \<Rightarrow> mouse_flag list \<Rightarrow> u8 \<Rightarrow> u8 option" where
  "flags_run m [] h = Some h"
| "flags_run m (f # fs) h = flag_step m f h \<bind> flags_run m fs"

fun guest_buttons :: "INPUT list \<Rightarrow> u8 \<Rightarrow> u8 option" where
  "guest_buttons [] h = Some h"
| "guest_buttons (Mouse_INPUT _ _ m fs # is) h = flags_run m fs h \<bind> guest_buttons is"
| "guest_buttons (Key_INPUT _ _ # is) h = guest_buttons is h"

lemma guest_buttons_append: "guest_buttons (a @ b) h = guest_buttons a h \<bind> guest_buttons b"
  by (induction a h rule: guest_buttons.induct) (auto split: bind_splits)

lemma flags_run_append: "flags_run m (a @ b) h = flags_run m a h \<bind> flags_run m b"
  by (induction a arbitrary: h) (auto split: bind_splits)

definition one_bit :: "nat \<Rightarrow> u8" where "one_bit n = push_bit n 1"

lemma bit_one_bit: "bit (one_bit n) k \<longleftrightarrow> k = n \<and> n < 8"
  by (auto simp: one_bit_def bit_exp_iff)

lemma test_one_bit: "x AND one_bit n \<noteq> 0 \<longleftrightarrow> bit x n"
  unfolding one_bit_def by (rule bit_iff_and_push_bit_not_eq_0 [symmetric])

lemma buttons_one_bit:
  "BUTTON_LEFT = one_bit 0" "BUTTON_RIGHT = one_bit 1" "BUTTON_MIDDLE = one_bit 2" "BUTTON_X1 = one_bit 3" "BUTTON_X2 = one_bit 4"
  unfolding BUTTON_LEFT_def BUTTON_RIGHT_def BUTTON_MIDDLE_def BUTTON_X1_def BUTTON_X2_def one_bit_def by (rule refl)+

text \<open>The five buttons of the protocol.\<close>

definition ALL_BUTTONS :: u8 where "ALL_BUTTONS = 0x1F"

lemma bit_ALL_BUTTONS: "bit ALL_BUTTONS k \<longleftrightarrow> k < 5"
proof -
  have "ALL_BUTTONS = mask 5" by (simp add: ALL_BUTTONS_def mask_eq_exp_minus_1)
  then show ?thesis using bit_mask_iff [where 'a = u8, of 5 k] by auto
qed

text \<open>Bit \<open>n\<close> of \<open>h\<close> replaced by that of \<open>b\<close>, which is what the flags of one button do.\<close>

definition take_over :: "nat \<Rightarrow> u8 \<Rightarrow> u8 \<Rightarrow> u8" where
  "take_over n b h = (if bit b n then h OR one_bit n else h AND NOT (one_bit n))"

lemma take_over_bit: "n < 8 \<Longrightarrow> bit (take_over n b h) k = (if k = n then bit b n else bit h k)"
  by (auto simp: take_over_def bit_or_iff bit_and_iff bit_not_iff bit_one_bit dest: bit_imp_le_length)

lemma button_run:
  assumes "bit h n = bit l n" and "n < 8"
    and "\<And>x. flag_step m down x = press (one_bit n) x" and "\<And>x. flag_step m up x = release (one_bit n) x"
  shows "flags_run m (button_flags b (b XOR l) (one_bit n) down up) h = Some (take_over n b h)"
proof (cases "bit b n = bit l n")
  case True
  then have "take_over n b h = h" using assms(1,2) by (intro bit_word_eqI) (simp add: take_over_bit)
  with True show ?thesis by (simp add: button_flags_def test_one_bit bit_xor_iff)
next
  case False
  then show ?thesis
    using assms by (auto simp: button_flags_def test_one_bit bit_xor_iff down_up_def press_def release_def take_over_def)
qed

lemma pointer_inputs_buttons:
  "guest_buttons (pointer_inputs nx ny b l wx wy) (l AND ALL_BUTTONS) = Some (b AND ALL_BUTTONS)"
proof -
  define h0 where "h0 = l AND ALL_BUTTONS"
  have h0: "bit h0 k = (bit l k \<and> k < 5)" for k by (simp add: h0_def bit_and_iff bit_ALL_BUTTONS)
  define h1 where "h1 = take_over 0 b h0" define h2 where "h2 = take_over 1 b h1" define h3 where "h3 = take_over 2 b h2"
  define h4 where "h4 = take_over 3 b h3" define h5 where "h5 = take_over 4 b h4"
  note b = h1_def h2_def h3_def h4_def h5_def take_over_bit h0
  have plain: "flags_run No_data ([M_MOVE, M_ABSOLUTE, M_VIRTUALDESK] @ button_flags b (b XOR l) BUTTON_LEFT M_LEFTDOWN M_LEFTUP @
      button_flags b (b XOR l) BUTTON_RIGHT M_RIGHTDOWN M_RIGHTUP @ button_flags b (b XOR l) BUTTON_MIDDLE M_MIDDLEDOWN M_MIDDLEUP) h0 = Some h3"
  proof -
    have "flags_run No_data (button_flags b (b XOR l) BUTTON_LEFT M_LEFTDOWN M_LEFTUP) h0 = Some h1"
      "flags_run No_data (button_flags b (b XOR l) BUTTON_RIGHT M_RIGHTDOWN M_RIGHTUP) h1 = Some h2"
      "flags_run No_data (button_flags b (b XOR l) BUTTON_MIDDLE M_MIDDLEDOWN M_MIDDLEUP) h2 = Some h3"
      unfolding buttons_one_bit by (simp_all only: h1_def h2_def h3_def, (rule button_run; simp add: b buttons_one_bit)+)
    then show ?thesis by (simp add: flags_run_append)
  qed
  have x: "guest_buttons (map (\<lambda>f. Mouse_INPUT 0 0 m [f]) (button_flags b (b XOR l) c down up)) h
      = flags_run m (button_flags b (b XOR l) c down up) h" for m c down up h
    by (auto simp: button_flags_def mouse_input_def split: bind_splits)
  have "flags_run XBUTTON1 (button_flags b (b XOR l) BUTTON_X1 M_XDOWN M_XUP) h3 = Some h4"
    "flags_run XBUTTON2 (button_flags b (b XOR l) BUTTON_X2 M_XDOWN M_XUP) h4 = Some h5"
    unfolding buttons_one_bit by (simp_all only: h4_def h5_def, (rule button_run; simp add: b x_button_def buttons_one_bit)+)
  moreover have "h5 = b AND ALL_BUTTONS"
    by (intro bit_word_eqI) (auto simp: b bit_and_iff bit_ALL_BUTTONS; presburger)
  ultimately show ?thesis
    using plain
    by (simp add: pointer_inputs_def Let_def mouse_input_def guest_buttons_append x flip: h0_def)
qed


section \<open>Any sequence of calls\<close>

text \<open>Any desktop can be watched: its calls unchanged, with the inputs sent.\<close>

definition spying :: "'d desktop \<Rightarrow> ('d \<times> INPUT list) desktop" where
  "spying dk = \<lparr>
     dk_frame_bounds = (\<lambda>h (d, l). dk_frame_bounds dk h d), dk_foreground = (\<lambda>(d, l). dk_foreground dk d),
     dk_set_foreground = (\<lambda>h (d, l). (dk_set_foreground dk h d, l)), dk_bring_to_top = (\<lambda>h (d, l). (dk_bring_to_top dk h d, l)),
     dk_window_thread = (\<lambda>h (d, l). dk_window_thread dk h d), dk_current_thread = (\<lambda>(d, l). dk_current_thread dk d),
     dk_attach_input = (\<lambda>a b on (d, l). case dk_attach_input dk a b on d of (r, d) \<Rightarrow> (r, (d, l))),
     dk_virtual_screen = (\<lambda>(d, l). dk_virtual_screen dk d), dk_key_down = (\<lambda>vk (d, l). dk_key_down dk vk d),
     dk_toggled = (\<lambda>vk (d, l). dk_toggled dk vk d), dk_send_input = (\<lambda>is (d, l). (dk_send_input dk is d, l @ is)),
     dk_post_close = (\<lambda>h (d, l). (dk_post_close dk h d, l)), dk_show_window = (\<lambda>h c (d, l). (dk_show_window dk h c d, l)),
     dk_set_window_pos = (\<lambda>h x y w ht fs (d, l). (dk_set_window_pos dk h x y w ht fs d, l))\<rparr>"

text \<open>Calls of the sink, with what happens on the desktop before each of them.\<close>

fun sink_run :: "'d desktop \<Rightarrow> (('d \<Rightarrow> 'd) \<times> SinkCall) list \<Rightarrow> WinInputSink \<times> 'd \<times> INPUT list \<Rightarrow> WinInputSink \<times> 'd \<times> INPUT list" where
  "sink_run dk [] st = st"
| "sink_run dk ((happens, call) # calls) (s, d, l) = sink_run dk calls (win_sink (spying dk) call (s, happens d, l))"

lemma spying_simps [simp]:
  "dk_frame_bounds (spying dk) h (d, l) = dk_frame_bounds dk h d" "dk_foreground (spying dk) (d, l) = dk_foreground dk d"
  "dk_send_input (spying dk) is (d, l) = (dk_send_input dk is d, l @ is)" "dk_key_down (spying dk) vk (d, l) = dk_key_down dk vk d"
  "dk_toggled (spying dk) vk (d, l) = dk_toggled dk vk d" "dk_virtual_screen (spying dk) (d, l) = dk_virtual_screen dk d"
  "dk_post_close (spying dk) h (d, l) = (dk_post_close dk h d, l)" "dk_show_window (spying dk) h c (d, l) = (dk_show_window dk h c d, l)"
  "dk_set_window_pos (spying dk) h x y w ht fs (d, l) = (dk_set_window_pos dk h x y w ht fs d, l)"
  "dk_set_foreground (spying dk) h (d, l) = (dk_set_foreground dk h d, l)" "dk_bring_to_top (spying dk) h (d, l) = (dk_bring_to_top dk h d, l)"
  "dk_window_thread (spying dk) h (d, l) = dk_window_thread dk h d" "dk_current_thread (spying dk) (d, l) = dk_current_thread dk d"
  "dk_attach_input (spying dk) a b on (d, l) = (case dk_attach_input dk a b on d of (r, d) \<Rightarrow> (r, (d, l)))"
  by (simp_all add: spying_def)

lemma spying_foreground: "force_foreground (spying dk) h (d, l) = (case force_foreground dk h d of (c, d') \<Rightarrow> (c, (d', l)))"
  by (auto simp: force_foreground_def Let_def split: prod.splits)

lemma foreground_confirmed: "force_foreground dk h d = (True, d') \<Longrightarrow> dk_foreground dk d' = h"
  by (auto simp: force_foreground_def Let_def split: if_splits prod.splits)

text \<open>Inputs that leave the buttons alone.\<close>

lemma key_inputs_buttons: "list_all (\<lambda>i. \<exists>c fs. i = Key_INPUT c fs) is \<Longrightarrow> guest_buttons is h = Some h"
  by (induction "is") auto

definition types_only :: "'d \<times> INPUT list \<Rightarrow> 'd \<times> INPUT list \<Rightarrow> bool" where
  "types_only dl dl' \<longleftrightarrow> (\<exists>is. snd dl' = snd dl @ is \<and> list_all (\<lambda>i. \<exists>c fs. i = Key_INPUT c fs) is)"

lemma types_only_refl [simp]: "types_only dl dl"
  by (simp add: types_only_def)

lemma types_only_trans [trans]: "types_only a b \<Longrightarrow> types_only b c \<Longrightarrow> types_only a c"
  by (auto simp: types_only_def)

lemma inject_types: "types_only dl (inject_key (spying dk) k pressed dl)"
  by (cases dl) (simp add: inject_key_def send_inputs_def types_only_def scan_input_def Let_def)

lemma sync_types: "types_only dl (sync_held (spying dk) w k k' v v' dl)" "types_only dl (sync_lock (spying dk) w k v dl)"
  by (auto simp: sync_held_def sync_lock_def intro: inject_types types_only_trans [OF inject_types inject_types])

lemma modifier_types: "types_only dl (win_modifier_sync (spying dk) mods lcks dl)"
  unfolding win_modifier_sync_def Let_def by (intro types_only_trans [OF _ sync_types(1)] types_only_trans [OF _ sync_types(2)] sync_types)

lemma text_types: "types_only dl (win_text_input (spying dk) t dl)"
proof -
  have "list_all (\<lambda>i. \<exists>c fs. i = Key_INPUT c fs) (concat (map (\<lambda>unit. [unicode_input unit False, unicode_input unit True]) us))" for us
    by (induction us) (auto simp: unicode_input_def)
  then show ?thesis by (cases dl) (simp add: win_text_input_def send_inputs_def types_only_def)
qed

lemma types_buttons: "types_only (d, l) (d', l') \<Longrightarrow> guest_buttons l 0 = Some h \<Longrightarrow> guest_buttons l' 0 = Some h"
  by (auto simp: types_only_def guest_buttons_append key_inputs_buttons)


lemma gated: "gate_unconfirmed_press b old c = (if b AND NOT old \<noteq> 0 \<and> \<not> c then b AND old else b)"
proof -
  have "b AND NOT (b AND NOT old) = b AND old"
    by (intro bit_word_eqI) (auto simp: bit_and_iff bit_or_iff bit_not_iff)
  then show ?thesis by (simp add: gate_unconfirmed_press_def Let_def)
qed

text \<open>The cases of a pointer event.\<close>

lemma pointer_cases:
  assumes "win_pointer_event (spying dk) h x y b wx wy s (d, l) = (s', d', l')"
  obtains (gone) "dk_frame_bounds dk h d = None" "s' = s" "d' = d" "l' = l"
  | (sent) c nx ny where "dk_frame_bounds dk h d \<noteq> None" "l' = l @ pointer_inputs nx ny (wi_last_buttons s') (wi_last_buttons s) wx wy"
      "wi_last_buttons s' = gate_unconfirmed_press b (wi_last_buttons s) c"
      "b AND NOT (wi_last_buttons s) \<noteq> 0 \<Longrightarrow> c \<Longrightarrow> wi_last_focused s' = Some h \<and>
         (wi_last_focused s = Some h \<or> dk_foreground dk (snd (force_foreground dk h d)) = h)"
proof (cases "dk_frame_bounds dk h d")
  case None
  then show thesis using gone assms by (simp add: win_pointer_event_def)
next
  case (Some r)
  obtain rl rt where r: "r = (rl, rt)" by fastforce
  obtain c s1 dl1 where f: "(if b AND NOT (wi_last_buttons s) \<noteq> 0 then focus_on_change (spying dk) h s (d, l) else (True, s, (d, l))) = (c, s1, dl1)"
    by (metis prod_cases3)
  obtain d1 l1 where dl1: "dl1 = (d1, l1)" by fastforce
  have s1: "wi_last_buttons s1 = wi_last_buttons s" "l1 = l"
    using f by (auto simp: dl1 focus_on_change_def spying_foreground split: if_splits prod.splits)
  have focus: "wi_last_focused s1 = Some h \<and> (wi_last_focused s = Some h \<or> dk_foreground dk (snd (force_foreground dk h d)) = h)"
    if "b AND NOT (wi_last_buttons s) \<noteq> 0" c
    using f that by (auto simp: focus_on_change_def spying_foreground split: if_splits prod.splits dest: foreground_confirmed)
  obtain vx vy vw vh where v: "dk_virtual_screen dk d1 = (vx, vy, vw, vh)" by (metis prod_cases4)
  have ne: "pointer_inputs nx ny held old wx wy \<noteq> []" for nx ny held old by (simp add: pointer_inputs_def Let_def)
  show thesis
    using assms Some r f s1 v focus
    by (intro sent [of "normalize_coord (i32_saturating_add rl x) vx vw" "normalize_coord (i32_saturating_add rt y) vy vh" c])
      (auto simp: win_pointer_event_def Let_def dl1 send_inputs_def ne)
qed

lemma pointer_buttons:
  assumes "guest_buttons l 0 = Some (wi_last_buttons s AND ALL_BUTTONS)"
    and "win_pointer_event (spying dk) h x y b wx wy s (d, l) = (s', d', l')"
  shows "guest_buttons l' 0 = Some (wi_last_buttons s' AND ALL_BUTTONS)"
  using assms(2)
proof (cases rule: pointer_cases)
  case (sent c nx ny)
  then show ?thesis using assms(1) by (simp add: guest_buttons_append pointer_inputs_buttons)
qed (use assms in simp)

lemma sink_buttons:
  assumes "guest_buttons l 0 = Some (wi_last_buttons s AND ALL_BUTTONS)" and "win_sink (spying dk) call (s, d, l) = (s', d', l')"
  shows "guest_buttons l' 0 = Some (wi_last_buttons s' AND ALL_BUTTONS)"
proof (cases call)
  case (Pointer_event h x y b wx wy)
  then show ?thesis using assms pointer_buttons by auto
next
  case (Key_event c e p)
  then show ?thesis using assms by (auto simp: win_key_event_def send_inputs_def scan_input_def guest_buttons_append)
next
  case (Text_input t)
  then show ?thesis using assms text_types [of "(d, l)" dk t] by (auto dest: types_buttons)
next
  case (Modifier_sync m k)
  then show ?thesis using assms modifier_types [of "(d, l)" dk m k] by (auto dest: types_buttons)
next
  case (Window_control h a x y w ht)
  then show ?thesis
    using assms by (auto simp: win_window_control_def spying_foreground split: if_splits prod.splits)
qed

lemma run_buttons:
  "sink_run dk calls (s, d, l) = (s', d', l') \<Longrightarrow> guest_buttons l 0 = Some (wi_last_buttons s AND ALL_BUTTONS) \<Longrightarrow>
    guest_buttons l' 0 = Some (wi_last_buttons s' AND ALL_BUTTONS)"
proof (induction calls arbitrary: s d l)
  case (Cons c calls)
  obtain happens call where c: "c = (happens, call)" by fastforce
  obtain s1 d1 l1 where st: "win_sink (spying dk) call (s, happens d, l) = (s1, d1, l1)" by (metis prod_cases3)
  with Cons.prems(1) c have "sink_run dk calls (s1, d1, l1) = (s', d', l')" by simp
  then show ?case by (rule Cons.IH) (rule sink_buttons [OF Cons.prems(2) st])
qed simp


text \<open>
  A remembered focus is not checked again: a press on the window that was last brought to the foreground is
  injected as it is, whatever window is in the foreground by now.
\<close>

theorem stale_focus_trusted:
  assumes "wi_last_focused s = Some h" and "dk_frame_bounds dk h d \<noteq> None"
  shows "\<exists>inputs. win_pointer_event dk h x y b wx wy s d = (s\<lparr>wi_last_buttons := b\<rparr>, dk_send_input dk inputs d)"
proof -
  have ne: "pointer_inputs nx ny held old wx wy \<noteq> []" for nx ny held old by (simp add: pointer_inputs_def Let_def)
  obtain rl rt where r: "dk_frame_bounds dk h d = Some (rl, rt)" using assms(2) by auto
  obtain vx vy vw vh where v: "dk_virtual_screen dk d = (vx, vy, vw, vh)" by (metis prod_cases4)
  have f: "(if p then focus_on_change dk h s d else (True, s, d)) = (True, s, d)" for p
    using assms(1) by (simp add: focus_on_change_def)
  show ?thesis
    unfolding win_pointer_event_def r option.case prod.case Let_def f v send_inputs_def gated
    by (simp only: ne if_False not_True_eq_False simp_thms) blast
qed

section \<open>Coordinates\<close>

lemma sint_word: "- (2 ^ 31) \<le> v \<Longrightarrow> v < 2 ^ 31 \<Longrightarrow> sint (word_of_int v :: i32) = v"
  by (simp add: signed_of_int signed_take_bit_int_eq_self)

lemma i32_range: "- (2 ^ 31) \<le> sint (w :: i32)" "sint (w :: i32) < 2 ^ 31"
  using sint_greater_eq [of w] sint_less [of w] by simp_all

text \<open>The position on the desktop nearest to a coordinate, counted from its origin.\<close>

definition desktop_offset :: "i32 \<Rightarrow> i32 \<Rightarrow> i32 \<Rightarrow> int" where
  "desktop_offset v origin extent =
    max 0 (min (sint v - sint origin) (min (sint extent - 1) (2 ^ 31 - 1 - sint origin)))"

lemma offset_range:
  assumes "1 < sint extent"
  shows "0 \<le> desktop_offset v origin extent" and "desktop_offset v origin extent \<le> sint extent - 1"
  using assms i32_range(2) [of origin] by (auto simp: desktop_offset_def)

lemma normalize_exact:
  assumes "1 < sint extent"
  shows "sint (normalize_coord v origin extent) = desktop_offset v origin extent * 65535 div (sint extent - 1)"
proof -
  have e: "\<not> extent \<le>s 1" using assms by (simp add: word_sle_eq)
  have "extent - 1 = word_of_int (sint extent - 1)" by simp
  then have e1: "sint (extent - 1) = sint extent - 1"
    using assms i32_range [of extent] sint_word [of "sint extent - 1"] by simp
  define final where "final = i32_saturating_add origin (extent - 1)"
  have f: "sint final = min (sint origin + sint extent - 1) (2 ^ 31 - 1)"
    using assms i32_range [of origin] i32_range [of extent]
    unfolding final_def i32_saturating_add_def i32_clamp_def e1 by (subst sint_word) auto
  define clamped where "clamped = (if v <s origin then origin else if final <s v then final else v)"
  have c: "sint clamped - sint origin = desktop_offset v origin extent"
    using assms i32_range(2) [of origin] unfolding clamped_def desktop_offset_def word_sless_alt f by (auto simp: f)
  have "clamped - origin = word_of_int (sint clamped - sint origin)" by simp
  then have d: "sint (clamped - origin) = desktop_offset v origin extent"
    using offset_range [OF assms, of v origin] i32_range(2) [of extent] sint_word [of "desktop_offset v origin extent"] by (simp add: c)
  have q: "0 \<le> desktop_offset v origin extent * 65535 div (sint extent - 1)" "desktop_offset v origin extent * 65535 div (sint extent - 1) \<le> 65535"
  proof -
    show "0 \<le> desktop_offset v origin extent * 65535 div (sint extent - 1)"
      using offset_range [OF assms, of v origin] assms by (simp add: pos_imp_zdiv_nonneg_iff)
    have "desktop_offset v origin extent * 65535 div (sint extent - 1) \<le> (sint extent - 1) * 65535 div (sint extent - 1)"
      using offset_range [OF assms, of v origin] assms by (intro zdiv_mono1) simp_all
    also have "\<dots> = 65535" using assms by (intro nonzero_mult_div_cancel_left) simp
    finally show "desktop_offset v origin extent * 65535 div (sint extent - 1) \<le> 65535" .
  qed
  then show ?thesis
    using e d e1 sint_word [of "desktop_offset v origin extent * 65535 div (sint extent - 1)"]
    by (simp add: normalize_coord_def Let_def flip: final_def clamped_def)
qed

text \<open>
  C40: the pointer stays on the desktop and hits the right pixel. Whatever coordinate a client sends, the injected
  one is in the range 0 to 65535 that Windows requires and grows with it; the first pixel of the desktop is
  injected as 0 and the last one as 65535; and on a desktop of at most 65536 pixels two different pixels are
  injected differently.
\<close>

theorem pointer_coordinates:
  assumes "1 < sint extent" and "sint origin + sint extent \<le> 2 ^ 31"
  shows "0 \<le> sint (normalize_coord v origin extent) \<and> sint (normalize_coord v origin extent) \<le> 65535
    \<and> (sint v \<le> sint w \<longrightarrow> sint (normalize_coord v origin extent) \<le> sint (normalize_coord w origin extent))
    \<and> normalize_coord origin origin extent = 0 \<and> normalize_coord (origin + extent - 1) origin extent = 65535
    \<and> (sint extent \<le> 65536 \<and> sint origin \<le> sint v \<and> sint v < sint w \<and> sint w < sint origin + sint extent \<longrightarrow>
         sint (normalize_coord v origin extent) < sint (normalize_coord w origin extent))"
proof -
  let ?n = "\<lambda>v. sint (normalize_coord v origin extent)" and ?o = "\<lambda>v. desktop_offset v origin extent" and ?E = "sint extent - 1"
  note n = normalize_exact [OF assms(1)]
  have E: "0 < ?E" using assms(1) by simp
  have bounds: "0 \<le> ?n v \<and> ?n v \<le> 65535" for v
  proof -
    have "?o v * 65535 div ?E \<le> ?E * 65535 div ?E" using offset_range [OF assms(1), of v origin] E by (intro zdiv_mono1) simp_all
    also have "\<dots> = 65535" using E by (intro nonzero_mult_div_cancel_left) simp
    finally show ?thesis using offset_range [OF assms(1), of v origin] E by (simp add: n pos_imp_zdiv_nonneg_iff)
  qed
  have mono: "?n v \<le> ?n w" if "sint v \<le> sint w"
    unfolding n using that E by (intro zdiv_mono1) (auto simp: desktop_offset_def)
  have eq: "a = b" if "sint a = sint b" for a b :: i32 using that by (metis scast_id of_int_sint)
  have first: "normalize_coord origin origin extent = 0"
    by (rule eq) (use assms i32_range(2) [of origin] in \<open>simp add: n desktop_offset_def\<close>)
  have "origin + extent - 1 = word_of_int (sint origin + sint extent - 1)" by simp
  moreover have "sint (word_of_int (sint origin + sint extent - 1) :: i32) = sint origin + sint extent - 1"
    by (rule sint_word) (use assms i32_range(1) [of origin] in simp_all)
  ultimately have l: "sint (origin + extent - 1) = sint origin + sint extent - 1" by simp
  have "?o (origin + extent - 1) = ?E" using assms by (simp add: desktop_offset_def l)
  moreover have "?E * 65535 div ?E = 65535" using E by (intro nonzero_mult_div_cancel_left) simp
  ultimately have "?n (origin + extent - 1) = 65535" by (simp only: n)
  then have final: "normalize_coord (origin + extent - 1) origin extent = 65535" by (intro eq) simp
  have strict: "?n v < ?n w" if "sint extent \<le> 65536" "sint origin \<le> sint v" "sint v < sint w" "sint w < sint origin + sint extent"
  proof -
    have o: "?o v = sint v - sint origin" "?o w = sint w - sint origin" using that assms(2) by (simp_all add: desktop_offset_def)
    have "?o v * 65535 + ?E \<le> ?o w * 65535"
    proof -
      have "(?o v + 1) * 65535 \<le> ?o w * 65535" using that(3) o by (intro mult_right_mono) simp_all
      then show ?thesis using that(1) by simp
    qed
    then have "(?o v * 65535 + ?E) div ?E \<le> ?o w * 65535 div ?E" using E by (intro zdiv_mono1) simp_all
    moreover have "(?o v * 65535 + ?E) div ?E = ?o v * 65535 div ?E + 1" using E by (intro div_add_self2) simp
    ultimately show ?thesis by (simp only: n)
  qed
  show ?thesis using bounds mono first final strict by blast
qed

theorem pointer_coordinates_witness:
  "normalize_coord (- 1920) (- 1920) 3840 = 0 \<and> normalize_coord 1919 (- 1920) 3840 = 65535 \<and> sint (normalize_coord 5000 (- 1920) 3840) \<le> 65535"
  using pointer_coordinates [of 3840 "- 1920" 5000 5000] by (simp add: signed_minus_1)

section \<open>Modifiers and locks\<close>

text \<open>
  The keyboard of the guest as Windows documents it: an injected scan code presses or releases its key, and
  pressing a lock key that is up changes its toggle.
\<close>

fun vk_key :: "virtual_key \<Rightarrow> Key" where
  "vk_key VK_LSHIFT = Modifier K_LeftShift"
| "vk_key VK_RSHIFT = Modifier K_RightShift"
| "vk_key VK_LCONTROL = Modifier K_LeftControl"
| "vk_key VK_RCONTROL = Extended K_RightControl"
| "vk_key VK_LMENU = Modifier K_LeftAlt"
| "vk_key VK_RMENU = Extended K_RightAlt"
| "vk_key VK_LWIN = Extended K_LeftMeta"
| "vk_key VK_RWIN = Extended K_RightMeta"
| "vk_key VK_CAPITAL = Punctuation K_CapsLock"
| "vk_key VK_NUMLOCK = Lock K_NumLock"
| "vk_key VK_SCROLL = Lock K_ScrollLock"

definition is_lock :: "virtual_key \<Rightarrow> bool" where
  "is_lock vk \<longleftrightarrow> vk = VK_CAPITAL \<or> vk = VK_NUMLOCK \<or> vk = VK_SCROLL"

definition keyboard_ok :: "'d desktop \<Rightarrow> bool" where
  "keyboard_ok dk \<longleftrightarrow> (\<forall>vk code ext pressed d.
     dk_key_down dk vk (dk_send_input dk [scan_input code ext pressed] d) =
       (if \<lparr>sc_code = code, sc_extended = ext\<rparr> = scancode (vk_key vk) then pressed else dk_key_down dk vk d)
   \<and> (is_lock vk \<longrightarrow> dk_toggled dk vk (dk_send_input dk [scan_input code ext pressed] d) =
       (if \<lparr>sc_code = code, sc_extended = ext\<rparr> = scancode (vk_key vk) \<and> pressed \<and> \<not> dk_key_down dk vk d
        then \<not> dk_toggled dk vk d else dk_toggled dk vk d)))"

lemma scancode_eq_iff: "scancode j = scancode k \<longleftrightarrow> j = k"
  using scancode_inj [of j k] by auto

lemma inject_effect:
  assumes "keyboard_ok dk"
  shows "dk_key_down dk vk (inject_key dk k pressed d) = (if k = vk_key vk then pressed else dk_key_down dk vk d)"
    and "is_lock vk \<Longrightarrow> dk_toggled dk vk (inject_key dk k pressed d) =
      (if k = vk_key vk \<and> pressed \<and> \<not> dk_key_down dk vk d then \<not> dk_toggled dk vk d else dk_toggled dk vk d)"
proof -
  have eq: "\<lparr>sc_code = sc_code (scancode k), sc_extended = sc_extended (scancode k)\<rparr> = scancode (vk_key vk) \<longleftrightarrow> k = vk_key vk"
    using scancode_eq_iff [of k "vk_key vk"] by (cases "scancode k"; cases "scancode (vk_key vk)") simp
  show "dk_key_down dk vk (inject_key dk k pressed d) = (if k = vk_key vk then pressed else dk_key_down dk vk d)"
    and "is_lock vk \<Longrightarrow> dk_toggled dk vk (inject_key dk k pressed d) =
      (if k = vk_key vk \<and> pressed \<and> \<not> dk_key_down dk vk d then \<not> dk_toggled dk vk d else dk_toggled dk vk d)"
    using assms unfolding keyboard_ok_def by (simp_all add: inject_key_def Let_def send_inputs_def eq)
qed

lemma held_effect:
  assumes "keyboard_ok dk" and "d' = sync_held dk want (vk_key l) (vk_key r) l r d" and "vk_key l \<noteq> vk_key r"
  shows "(dk_key_down dk l d' \<or> dk_key_down dk r d') = want"
    and "vk_key vk \<noteq> vk_key l \<Longrightarrow> vk_key vk \<noteq> vk_key r \<Longrightarrow> dk_key_down dk vk d' = dk_key_down dk vk d"
    and "is_lock vk \<Longrightarrow> vk_key vk \<noteq> vk_key l \<Longrightarrow> vk_key vk \<noteq> vk_key r \<Longrightarrow> dk_toggled dk vk d' = dk_toggled dk vk d"
  using assms by (auto simp: sync_held_def inject_effect [OF assms(1)])

lemma lock_effect:
  assumes "keyboard_ok dk" and "d' = sync_lock dk want (vk_key k) k d" and "is_lock k" and "\<not> dk_key_down dk k d"
  shows "dk_toggled dk k d' = want"
    and "vk_key vk \<noteq> vk_key k \<Longrightarrow> dk_key_down dk vk d' = dk_key_down dk vk d"
    and "is_lock vk \<Longrightarrow> vk_key vk \<noteq> vk_key k \<Longrightarrow> dk_toggled dk vk d' = dk_toggled dk vk d"
  using assms by (auto simp: sync_lock_def inject_effect [OF assms(1)])


text \<open>A desktop with one window and a keyboard that keeps what is injected.\<close>

record small_desktop =
  sd_foreground :: handle
  sd_down :: "virtual_key \<Rightarrow> bool"
  sd_toggled :: "virtual_key \<Rightarrow> bool"

fun type_key :: "INPUT \<Rightarrow> small_desktop \<Rightarrow> small_desktop" where
  "type_key (Key_INPUT code fs) d =
    (let pressed = (K_KEYUP \<notin> set fs); hit = (\<lambda>vk. \<lparr>sc_code = code, sc_extended = (K_EXTENDEDKEY \<in> set fs)\<rparr> = scancode (vk_key vk)) in
     d\<lparr>sd_down := (\<lambda>vk. if hit vk then pressed else sd_down d vk),
       sd_toggled := (\<lambda>vk. if hit vk \<and> pressed \<and> \<not> sd_down d vk then \<not> sd_toggled d vk else sd_toggled d vk)\<rparr>)"
| "type_key (Mouse_INPUT _ _ _ _) d = d"

definition small_windows :: "small_desktop desktop" where
  "small_windows = \<lparr>dk_frame_bounds = (\<lambda>h d. if h = 7 then Some (10, 20) else None), dk_foreground = sd_foreground,
     dk_set_foreground = (\<lambda>h d. d\<lparr>sd_foreground := h\<rparr>), dk_bring_to_top = (\<lambda>h d. d), dk_window_thread = (\<lambda>h d. 0), dk_current_thread = (\<lambda>d. 1),
     dk_attach_input = (\<lambda>a b on d. (False, d)), dk_virtual_screen = (\<lambda>d. (0, 0, 1920, 1080)), dk_key_down = (\<lambda>vk d. sd_down d vk),
     dk_toggled = (\<lambda>vk d. sd_toggled d vk), dk_send_input = fold type_key, dk_post_close = (\<lambda>h d. d), dk_show_window = (\<lambda>h c d. d),
     dk_set_window_pos = (\<lambda>h x y w ht fs d. d)\<rparr>"

lemma small_keyboard_ok: "keyboard_ok small_windows"
  by (auto simp: keyboard_ok_def small_windows_def scan_input_def)

definition idle_desktop :: small_desktop where
  "idle_desktop = \<lparr>sd_foreground = 3, sd_down = (\<lambda>vk. vk = VK_RSHIFT), sd_toggled = (\<lambda>_. False)\<rparr>"



section \<open>Text\<close>

fun typed_units :: "INPUT list \<Rightarrow> u16 list" where
  "typed_units [] = []"
| "typed_units (Key_INPUT u fs # is) = (if K_UNICODE \<in> set fs \<and> K_KEYUP \<notin> set fs then u # typed_units is else typed_units is)"
| "typed_units (_ # is) = typed_units is"

text \<open>The code units typed for a text are those of its characters.\<close>

lemma text_typed:
  assumes "utf8_valid t"
  shows "\<exists>is. win_text_input dk t d = send_inputs dk is d \<and> decode_utf16 (typed_units is) = utf8_chars t"
proof -
  have units: "typed_units (concat (map (\<lambda>unit. [unicode_input unit False, unicode_input unit True]) us)) = us" for us
    by (induction us) (simp_all add: unicode_input_def)
  have "decode_utf16 (concat (map utf16_units cs)) = cs" if "list_all scalar cs" for cs
    using that by (induction cs) (simp_all add: decode_utf16_units)
  with utf8_chars_scalar [OF assms] units show ?thesis by (auto simp: win_text_input_def encode_utf16_def)
qed

end
