(* ===== verification/Spec2Isabelle.thy ===== *)
theory Spec2Isabelle
  imports Transport Connector Rdp_Share Rdp_Info Registry Pacing Session Geometry Annexb Yuv Agent_Keyframes Pipeline Monitor Winit Client_Input Win_Streams Win_Injection
begin

text \<open>Verification of oxrdp.\<close>

end
